(* ===== verification/Prelude.thy ===== *)
theory Prelude
  imports Complex_Main "HOL-Library.Word" "HOL-Library.AList" "HOL-Library.Multiset"
begin

text \<open>
  Shared ground of the development: the Go types the backend uses (unsigned 64-bit words,
  byte strings, 32-byte arrays, instants, maps), the big-endian encoding of
  \<^verbatim>\<open>encoding/binary\<close>, the laws of Go maps, and the rule collections the component
  theories add to.

  \<^item> \<^verbatim>\<open>uint64\<close> is \<open>64 word\<close>: its arithmetic wraps, as in Go.
  \<^item> \<^verbatim>\<open>[32]byte\<close> is \<open>256 word\<close>, the array read as a big-endian number:
    \<^verbatim>\<open>bytes.Compare\<close> on such arrays is then the unsigned order, and the array itself is
    \<open>be_bytes 32\<close>.
  \<^item> \<^verbatim>\<open>time.Time\<close> and \<^verbatim>\<open>time.Duration\<close> are \<open>int\<close>, in nanoseconds.
  \<^item> A Go map is an association list with distinct keys. Where a loop ranges over a map, Go
    leaves the order open; the loop then takes the order as an argument \<open>ord\<close>, a function
    that permutes the list.
\<close>

subsection \<open>Types\<close>

type_synonym byte = "8 word"
type_synonym bytes = "8 word list"
type_synonym u64 = "64 word"
type_synonym hash32 = "256 word"
type_synonym validatorID = "256 word"
type_synonym instant = int
type_synonym duration = int
type_synonym ('k, 'v) gomap = "('k \<times> 'v) list"

named_theorems inv_intros "introduction rules for component invariants"
named_theorems frame_simps "fields an operation leaves alone"

definition millisecond :: duration where
  "millisecond = 1000000"

definition second :: duration where
  "second = 1000 * millisecond"

text \<open>The zero \<^verbatim>\<open>time.Time\<close> is the start of year 1.\<close>

definition zeroTime :: instant where
  "zeroTime = - 62135596800 * second"

text \<open>Go's integer division truncates towards zero.\<close>

definition go_div :: "int \<Rightarrow> int \<Rightarrow> int" where
  "go_div a b = sgn a * sgn b * (\<bar>a\<bar> div \<bar>b\<bar>)"

lemma go_div_nonneg [simp]: "0 \<le> a \<Longrightarrow> 0 < b \<Longrightarrow> go_div a b = a div b"
  by (cases "a = 0") (auto simp: go_div_def)

text \<open>Decimal printing of an unsigned value (\<^verbatim>\<open>%d\<close>).\<close>

fun go_itoa :: "nat \<Rightarrow> string" where
  "go_itoa n = (if n < 10 then [char_of (48 + n)] else go_itoa (n div 10) @ [char_of (48 + n mod 10)])"

declare go_itoa.simps [simp del]

lemma unat_plus_one: "(w :: 'a::len word) \<noteq> - 1 \<Longrightarrow> unat (w + 1) = unat w + 1"
  using unatSuc [of w] by (auto simp: add.commute eq_neg_iff_add_eq_0)

subsection \<open>Big-endian bytes\<close>

primrec be_bytes :: "nat \<Rightarrow> 'a::len word \<Rightarrow> bytes" where
  "be_bytes 0 w = []"
| "be_bytes (Suc n) w = ucast (drop_bit (8 * n) w) # be_bytes n w"

fun be_value :: "bytes \<Rightarrow> nat" where
  "be_value [] = 0"
| "be_value (b # bs) = unat b * 256 ^ length bs + be_value bs"

lemma length_be_bytes [simp]: "length (be_bytes n w) = n"
  by (induction n) auto

lemma be_value_be_bytes: "be_value (be_bytes n w) = unat w mod 256 ^ n"
proof (induction n)
  case 0
  then show ?case by simp
next
  case (Suc n)
  have "unat (ucast (drop_bit (8 * n) w) :: byte) = (unat w div 256 ^ n) mod 256"
  proof -
    have "unat (drop_bit (8 * n) w) = unat w div 256 ^ n"
      by (subst unsigned_drop_bit_eq) (simp add: drop_bit_nat_def power_mult take_bit_nat_eq_self)
    then show ?thesis
      by (subst unsigned_ucast_eq) (simp add: take_bit_nat_def)
  qed
  with Suc show ?case
    using mod_mult2_eq [of "unat w" "256 ^ n" 256] by (simp add: algebra_simps)
qed

lemma be_bytes_inject:
  fixes v w :: "'a::len word"
  assumes "LENGTH('a) \<le> 8 * n" and "be_bytes n v = be_bytes n w"
  shows "v = w"
proof -
  have le: "(2::nat) ^ LENGTH('a) \<le> 256 ^ n"
    using power_increasing [OF assms(1), of "2::nat"] by (simp add: power_mult)
  have "unat x < 256 ^ n" for x :: "'a word"
    by (rule less_le_trans [OF unsigned_less le])
  then have "unat v = unat w"
    using arg_cong [OF assms(2), of be_value] by (simp add: be_value_be_bytes)
  then show ?thesis by (simp add: word_unat_eq_iff)
qed

lemma be_bytes_8_inject [simp]: "be_bytes 8 v = be_bytes 8 w \<longleftrightarrow> v = (w :: u64)"
  using be_bytes_inject [of 8 v w] by auto

lemma be_bytes_32_inject [simp]: "be_bytes 32 v = be_bytes 32 w \<longleftrightarrow> v = (w :: hash32)"
  using be_bytes_inject [of 32 v w] by auto

definition string_bytes :: "string \<Rightarrow> bytes" where
  "string_bytes s = map of_char s"

lemma unat_of_char: "unat (of_char c :: byte) = of_char c"
proof -
  have "unat (of_nat (of_char c) :: byte) = of_char c"
    by (simp add: unsigned_of_nat take_bit_eq_mod)
  then show ?thesis
    by (simp only: of_nat_of_char)
qed

lemma string_bytes_inject: "string_bytes s = string_bytes t \<longleftrightarrow> s = t"
proof -
  have "inj (of_char :: char \<Rightarrow> byte)"
  proof (rule injI)
    fix c d :: char
    assume "(of_char c :: byte) = of_char d"
    then have "unat (of_char c :: byte) = unat (of_char d :: byte)" by simp
    then show "c = d" by (simp add: unat_of_char)
  qed
  then show ?thesis by (simp add: string_bytes_def inj_map_eq_map)
qed

text \<open>The header \<^verbatim>\<open>domain || 0x00\<close> in front of every signed message.\<close>

definition domain_prefix :: "string \<Rightarrow> bytes" where
  "domain_prefix s = string_bytes s @ [0]"

definition no_nul :: "string \<Rightarrow> bool" where
  "no_nul s \<longleftrightarrow> 0 \<notin> set (string_bytes s)"

lemma split_at_nul:
  assumes "(0::byte) \<notin> set xs" and "0 \<notin> set ys" and "xs @ 0 # r = ys @ 0 # t"
  shows "xs = ys \<and> r = t"
  using assms
proof (induction xs arbitrary: ys)
  case Nil
  then show ?case by (cases ys) auto
next
  case (Cons x xs)
  then show ?case by (cases ys) auto
qed

lemma domain_prefix_split:
  assumes "no_nul d" and "no_nul e" and "domain_prefix d @ r = domain_prefix e @ t"
  shows "string_bytes d = string_bytes e \<and> r = t"
  using split_at_nul [of "string_bytes d" "string_bytes e" r t] assms
  by (simp add: domain_prefix_def no_nul_def)

subsection \<open>Go maps\<close>

text \<open>
  The contract of \<^verbatim>\<open>map[K]V\<close> that the components rely on: what a lookup returns after an
  insertion and a deletion, and how \<^verbatim>\<open>len\<close> moves. A well-formed map has no key twice.
\<close>

locale go_map =
  fixes get :: "'m \<Rightarrow> 'k \<Rightarrow> 'v option"
    and put :: "'k \<Rightarrow> 'v \<Rightarrow> 'm \<Rightarrow> 'm"
    and del :: "'k \<Rightarrow> 'm \<Rightarrow> 'm"
    and len :: "'m \<Rightarrow> nat"
    and wf :: "'m \<Rightarrow> bool"
    and empty :: 'm
  assumes get_empty: "get empty k = None"
    and get_put: "get (put k v m) k' = (if k = k' then Some v else get m k')"
    and get_del: "wf m \<Longrightarrow> get (del k m) k' = (if k = k' then None else get m k')"
    and len_empty: "len empty = 0"
    and len_put: "wf m \<Longrightarrow> len (put k v m) = (if get m k = None then Suc (len m) else len m)"
    and len_del: "wf m \<Longrightarrow> len (del k m) = (if get m k = None then len m else len m - 1)"
    and wf_empty: "wf empty"
    and wf_put: "wf m \<Longrightarrow> wf (put k v m)"
    and wf_del: "wf m \<Longrightarrow> wf (del k m)"
begin

lemma put_absorb: "get (put k v (put k w m)) = get (put k v m)"
  by (rule ext) (simp add: get_put)

lemma put_commute: "k \<noteq> k' \<Longrightarrow> get (put k v (put k' w m)) = get (put k' w (put k v m))"
  by (rule ext) (auto simp: get_put)

lemma put_bounded: "wf m \<Longrightarrow> len m < n \<Longrightarrow> len (put k v m) \<le> n"
  by (simp add: len_put)

lemma put_then_del: "wf m \<Longrightarrow> get m k = None \<Longrightarrow> get (del k (put k v m)) = get m"
  by (rule ext) (auto simp: get_put get_del wf_put)

lemma len_mono_put: "wf m \<Longrightarrow> len m \<le> len (put k v m)"
  by (simp add: len_put)

end

abbreviation keys_of :: "('k, 'v) gomap \<Rightarrow> 'k list" where
  "keys_of m \<equiv> map fst m"

definition gm_wf :: "('k, 'v) gomap \<Rightarrow> bool" where
  "gm_wf m \<longleftrightarrow> distinct (keys_of m)"

lemma length_update:
  "length (AList.update k v m) = (if map_of m k = None then Suc (length m) else length m)"
  by (induction m) auto

lemma length_delete:
  "distinct (keys_of m) \<Longrightarrow>
    length (AList.delete k m) = (if map_of m k = None then length m else length m - 1)"
proof (induction m)
  case (Cons p m)
  have "AList.delete k m = m" if "k \<notin> set (keys_of m)"
    using that by (simp add: delete_idem)
  moreover have "map_of m k \<noteq> None \<Longrightarrow> length m \<noteq> 0"
    by auto
  ultimately show ?case
    using Cons by (cases p) auto
qed simp

lemma delete_shorter: "map_of m k = Some v \<Longrightarrow> length (AList.delete k m) < length m"
  by (induction m) (auto simp: AList.delete_eq less_Suc_eq_le length_filter_le)

interpretation gm: go_map map_of AList.update AList.delete length gm_wf "[]"
  by unfold_locales
    (auto simp: gm_wf_def update_conv' delete_conv' length_update length_delete
      distinct_update distinct_delete)

lemmas gm_simps [simp] = gm.get_put gm.len_put gm.len_del gm.get_del gm.wf_put gm.wf_del

lemma gm_wf_Nil [simp]: "gm_wf []"
  by (rule gm.wf_empty)

text \<open>A loop that deletes the entries failing a test is a filter.\<close>

lemma gm_wf_filter [simp]: "gm_wf m \<Longrightarrow> gm_wf (filter P m)"
  by (simp add: gm_wf_def distinct_map_filter)

lemma map_of_filter_wf:
  "gm_wf m \<Longrightarrow> map_of (filter P m) k =
    (case map_of m k of None \<Rightarrow> None | Some v \<Rightarrow> if P (k, v) then Some v else None)"
  by (induction m) (auto simp: gm_wf_def split: option.splits dest: map_of_SomeD
    intro!: map_of_eq_None_iff [THEN iffD2])

lemma gm_mem_iff: "gm_wf m \<Longrightarrow> (k, v) \<in> set m \<longleftrightarrow> map_of m k = Some v"
  by (simp add: gm_wf_def)

text \<open>A property of every entry survives the map operations.\<close>

lemma gm_all_update [intro]: "list_all P m \<Longrightarrow> P (k, v) \<Longrightarrow> list_all P (AList.update k v m)"
  by (induction m) auto

lemma gm_all_delete [intro]: "list_all P m \<Longrightarrow> list_all P (AList.delete k m)"
  by (induction m) auto

lemma gm_all_filter [intro]: "list_all P m \<Longrightarrow> list_all P (filter Q m)"
  by (auto simp: list_all_iff)

lemma gm_all_get: "list_all P m \<Longrightarrow> map_of m k = Some v \<Longrightarrow> P (k, v)"
  by (auto simp: list_all_iff dest: map_of_SomeD)

lemma length_update_le: "length (AList.update k v m) \<le> Suc (length m)"
  by (simp add: length_update)

lemma length_update_bound: "length m < n \<Longrightarrow> length (AList.update k v m) \<le> n"
  by (simp add: length_update)

text \<open>The order a \<^verbatim>\<open>range\<close> loop takes: any permutation of the entries.\<close>

definition iter_order :: "(('k, 'v) gomap \<Rightarrow> ('k, 'v) gomap) \<Rightarrow> bool" where
  "iter_order ord \<longleftrightarrow> (\<forall>m. mset (ord m) = mset m)"

lemma iter_order_id [simp]: "iter_order (\<lambda>m. m)"
  by (simp add: iter_order_def)

lemma iter_order_rev [simp]: "iter_order rev"
  by (simp add: iter_order_def)

lemma iter_order_set: "iter_order ord \<Longrightarrow> set (ord m) = set m"
  by (metis iter_order_def mset_eq_setD)

lemma iter_order_length: "iter_order ord \<Longrightarrow> length (ord m) = length m"
  by (metis iter_order_def mset_eq_length)

lemma iter_order_wf:
  assumes "iter_order ord" shows "gm_wf (ord m) = gm_wf m"
proof -
  have "mset (keys_of (ord m)) = mset (keys_of m)"
    using assms by (simp add: iter_order_def)
  then show ?thesis
    unfolding gm_wf_def by (rule mset_eq_imp_distinct_iff)
qed

subsection \<open>Stable sorting\<close>

text \<open>
  \<^verbatim>\<open>sort.SliceStable\<close> with a comparison \<open>lt\<close>: the stable sort, by insertion. An
  element goes in front of the first one that is not less than it.
\<close>

fun insertBy :: "('a \<Rightarrow> 'a \<Rightarrow> bool) \<Rightarrow> 'a \<Rightarrow> 'a list \<Rightarrow> 'a list" where
  "insertBy lt x [] = [x]"
| "insertBy lt x (y # ys) = (if lt y x then y # insertBy lt x ys else x # y # ys)"

definition sliceStable :: "('a \<Rightarrow> 'a \<Rightarrow> bool) \<Rightarrow> 'a list \<Rightarrow> 'a list" where
  "sliceStable lt xs = foldr (insertBy lt) xs []"

lemma mset_insertBy [simp]: "mset (insertBy lt x ys) = add_mset x (mset ys)"
  by (induction ys) auto

lemma mset_sliceStable [simp]: "mset (sliceStable lt xs) = mset xs"
  by (induction xs) (auto simp: sliceStable_def)

lemma set_sliceStable [simp]: "set (sliceStable lt xs) = set xs"
  by (rule mset_eq_setD) simp

lemma length_sliceStable [simp]: "length (sliceStable lt xs) = length xs"
  by (rule mset_eq_length) simp

lemma sliceStable_eq_Nil [simp]: "sliceStable lt xs = [] \<longleftrightarrow> xs = []"
  using length_sliceStable [of lt xs] by (metis length_0_conv)

lemma insertBy_sorted:
  assumes trans: "\<And>a b c. \<lbrakk>\<not> lt b a; \<not> lt c b\<rbrakk> \<Longrightarrow> \<not> lt c a"
    and asym: "\<And>a b. lt a b \<Longrightarrow> \<not> lt b a"
    and "sorted_wrt (\<lambda>a b. \<not> lt b a) ys"
  shows "sorted_wrt (\<lambda>a b. \<not> lt b a) (insertBy lt x ys)"
  using assms(3)
proof (induction ys)
  case (Cons y ys)
  have mem: "set (insertBy lt x ys) = insert x (set ys)"
    using mset_insertBy [of lt x ys] by (metis set_mset_mset set_mset_add_mset_insert)
  show ?case
  proof (cases "lt y x")
    case True
    then show ?thesis using Cons asym by (simp add: mem)
  next
    case False
    then have "\<not> lt z x" if "z \<in> set ys" for z
      using that Cons.prems trans [of y x z] by simp
    with False show ?thesis using Cons.prems by simp
  qed
qed simp

lemma sliceStable_sorted:
  assumes "\<And>a b c. \<lbrakk>\<not> lt b a; \<not> lt c b\<rbrakk> \<Longrightarrow> \<not> lt c a"
    and "\<And>a b. lt a b \<Longrightarrow> \<not> lt b a"
  shows "sorted_wrt (\<lambda>a b. \<not> lt b a) (sliceStable lt xs)"
proof (induction xs)
  case (Cons x xs)
  have "sorted_wrt (\<lambda>a b. \<not> lt b a) (insertBy lt x (sliceStable lt xs))"
    using assms Cons by (rule insertBy_sorted)
  then show ?case by (simp add: sliceStable_def)
qed (simp add: sliceStable_def)

text \<open>Where the comparison is the order of a key on elements with distinct keys, sorting is unique.\<close>

lemma insertBy_key:
  assumes "\<And>y. y \<in> set ys \<Longrightarrow> lt y x \<longleftrightarrow> f y < f x"
  shows "insertBy lt x ys = insort_key f x ys"
  using assms by (induction ys) (auto simp: not_less)

lemma sliceStable_key:
  assumes "\<And>x y. x \<in> set xs \<Longrightarrow> y \<in> set xs \<Longrightarrow> f x \<noteq> f y \<Longrightarrow> lt y x \<longleftrightarrow> f y < f x"
    and "distinct (map f xs)"
  shows "sliceStable lt xs = sort_key f xs"
  using assms
proof (induction xs)
  case (Cons x xs)
  have "sliceStable lt xs = sort_key f xs"
    using Cons.prems by (intro Cons.IH) auto
  moreover have "insertBy lt x (sort_key f xs) = insort_key f x (sort_key f xs)"
    using Cons.prems by (intro insertBy_key) (auto simp: image_iff)
  ultimately show ?case by (simp add: sliceStable_def)
qed (simp add: sliceStable_def)

lemma sort_key_perm:
  assumes "mset xs = mset ys" and "distinct (map f xs)"
  shows "sort_key f xs = sort_key f ys"
proof (rule map_sorted_distinct_set_unique)
  have set_eq: "set xs = set ys" using assms(1) by (rule mset_eq_setD)
  have dist: "distinct (map f ys)"
    using assms by (metis mset_eq_imp_distinct_iff mset_map)
  show "inj_on f (set (sort_key f xs) \<union> set (sort_key f ys))"
    using assms(2) by (simp add: set_eq [symmetric] distinct_map)
  show "distinct (map f (sort_key f xs))" "distinct (map f (sort_key f ys))"
    using assms(2) dist by (metis mset_eq_imp_distinct_iff mset_map mset_sort)+
  show "set (sort_key f xs) = set (sort_key f ys)" by (simp add: set_eq)
qed simp_all

subsection \<open>Runs of a component\<close>

text \<open>
  A component's operations form a step relation. An invariant every step keeps holds along every
  run, and a quantity no step decreases is monotone along every run.
\<close>

locale step_invariant =
  fixes stp :: "'s \<Rightarrow> 's \<Rightarrow> bool" and inv :: "'s \<Rightarrow> bool"
  assumes step_keeps: "stp s t \<Longrightarrow> inv s \<Longrightarrow> inv t"
begin

lemma run_keeps_inv: "stp\<^sup>*\<^sup>* s t \<Longrightarrow> inv s \<Longrightarrow> inv t"
  by (induction rule: rtranclp_induct) (auto intro: step_keeps)

end

locale step_monotone =
  fixes stp :: "'s \<Rightarrow> 's \<Rightarrow> bool" and level :: "'s \<Rightarrow> 'a::preorder"
  assumes step_up: "stp s t \<Longrightarrow> level s \<le> level t"
begin

lemma run_up: "stp\<^sup>*\<^sup>* s t \<Longrightarrow> level s \<le> level t"
  by (induction rule: rtranclp_induct) (auto intro: order_trans step_up)

end

sublocale step_monotone \<subseteq> floor: step_invariant stp "\<lambda>s. l \<le> level s" for l
  by unfold_locales (blast intro: order_trans step_up)

subsection \<open>Calls that return an error\<close>

text \<open>The pattern \<^verbatim>\<open>if err != nil { return err }\<close>: the first error ends the function.\<close>

definition andThen :: "'e + 'a \<Rightarrow> ('a \<Rightarrow> 'e + 'b) \<Rightarrow> 'e + 'b" where
  "andThen r f = (case r of Inl e \<Rightarrow> Inl e | Inr a \<Rightarrow> f a)"

lemma andThen_simps [simp]: "andThen (Inl e) f = Inl e" "andThen (Inr a) f = f a"
  by (simp_all add: andThen_def)

end
