(* ===== verification/Messages.thy ===== *)
theory Messages
  imports Prelude
begin

text \<open>
  The consensus messages of \<^verbatim>\<open>backend/pkg/consensus/types/common.go\<close> and
  \<^verbatim>\<open>backend/pkg/consensus/messages/types.go\<close>: one record per struct, the canonical bytes
  each message signs (\<^verbatim>\<open>SignBytes\<close>) and its content hash. The hash function is the
  argument \<open>sha256\<close> of every definition that calls \<^verbatim>\<open>sha256.Sum256\<close>; no property
  here depends on what it computes.

  Lemmas: the signed bytes of a vote determine the vote, no two kinds of message share their
  signed bytes, and what the hash of a certificate leaves out.
\<close>

subsection \<open>Types\<close>

datatype MessageType =
    MessageTypeProposal | MessageTypeVote | MessageTypeQC | MessageTypeViewChange
  | MessageTypeNewView | MessageTypeHeartbeat | MessageTypeEvidence | MessageTypeGenesisReady
  | MessageTypeGenesisCertificate | MessageTypeProposalIntent | MessageTypeReadyToVote

fun domain_of :: "MessageType \<Rightarrow> string" where
  "domain_of MessageTypeProposal = ''CONSENSUS_PROPOSAL_V1''"
| "domain_of MessageTypeVote = ''CONSENSUS_VOTE_V1''"
| "domain_of MessageTypeQC = ''CONSENSUS_QC_V1''"
| "domain_of MessageTypeViewChange = ''CONSENSUS_VIEWCHANGE_V1''"
| "domain_of MessageTypeNewView = ''CONSENSUS_NEWVIEW_V1''"
| "domain_of MessageTypeHeartbeat = ''CONSENSUS_HEARTBEAT_V1''"
| "domain_of MessageTypeEvidence = ''CONSENSUS_EVIDENCE_V1''"
| "domain_of MessageTypeGenesisReady = ''CONSENSUS_GENESIS_READY_V1''"
| "domain_of MessageTypeGenesisCertificate = ''CONSENSUS_GENESIS_CERT_V1''"
| "domain_of MessageTypeProposalIntent = ''CONSENSUS_PROPOSAL_INTENT_V1''"
| "domain_of MessageTypeReadyToVote = ''CONSENSUS_READY_TO_VOTE_V1''"

datatype EvidenceType =
  EvidenceDoubleVote | EvidenceDoublePropose | EvidenceInvalidSignature | EvidenceTimestampViolation

fun evidence_code :: "EvidenceType \<Rightarrow> byte" where
  "evidence_code EvidenceDoubleVote = 1"
| "evidence_code EvidenceDoublePropose = 2"
| "evidence_code EvidenceInvalidSignature = 3"
| "evidence_code EvidenceTimestampViolation = 4"

record signature =
  sig_bytes :: bytes
  sig_keyID :: validatorID
  sig_timestamp :: instant

text \<open>The \<^verbatim>\<open>Block\<close> interface: what its five getters return.\<close>

record block =
  b_height :: u64
  b_hash :: hash32
  b_parentHash :: hash32
  b_txCount :: int
  b_timestamp :: instant

text \<open>\<^verbatim>\<open>messages.QC\<close>; \<^verbatim>\<open>pbft.QuorumCertificate\<close> has the same fields.\<close>

record qc_fields =
  qc_view :: u64
  qc_height :: u64
  qc_round :: u64
  qc_blockHash :: hash32
  qc_signatures :: "signature list"
  qc_timestamp :: instant
  qc_aggregatorID :: validatorID

record proposal =
  p_view :: u64
  p_height :: u64
  p_round :: u64
  p_blockHash :: hash32
  p_parentHash :: hash32
  p_proposerID :: validatorID
  p_timestamp :: instant
  p_justifyQC :: "qc_fields option"
  p_block :: "block option"
  p_signature :: signature

record vote =
  v_view :: u64
  v_height :: u64
  v_round :: u64
  v_blockHash :: hash32
  v_voterID :: validatorID
  v_timestamp :: instant
  v_signature :: signature

record viewChange =
  vc_oldView :: u64
  vc_newView :: u64
  vc_height :: u64
  vc_highestQC :: "qc_fields option"
  vc_senderID :: validatorID
  vc_timestamp :: instant
  vc_signature :: signature

record newView =
  nv_view :: u64
  nv_height :: u64
  nv_viewChanges :: "viewChange list"
  nv_highestQC :: "qc_fields option"
  nv_leaderID :: validatorID
  nv_timestamp :: instant
  nv_signature :: signature

record heartbeat =
  hb_view :: u64
  hb_height :: u64
  hb_leaderID :: validatorID
  hb_timestamp :: instant
  hb_signature :: signature

record evidence =
  ev_kind :: EvidenceType
  ev_view :: u64
  ev_height :: u64
  ev_offenderID :: validatorID
  ev_proof :: bytes
  ev_reporterID :: validatorID
  ev_timestamp :: instant
  ev_signature :: signature

record genesisReady =
  gr_validatorID :: validatorID
  gr_timestamp :: instant
  gr_configHash :: hash32
  gr_peerHash :: hash32
  gr_nonce :: hash32
  gr_signature :: signature

record genesisCertificate =
  gc_attestations :: "genesisReady list"
  gc_aggregator :: validatorID
  gc_timestamp :: instant
  gc_signature :: signature

record proposalIntent =
  pi_view :: u64
  pi_height :: u64
  pi_leaderID :: validatorID
  pi_nonce :: hash32
  pi_timestamp :: instant
  pi_signature :: signature

record readyToVote =
  rv_view :: u64
  rv_height :: u64
  rv_validatorID :: validatorID
  rv_leaderID :: validatorID
  rv_nonce :: hash32
  rv_timestamp :: instant
  rv_signature :: signature

subsection \<open>Signed bytes and hashes\<close>

definition appendInt64 :: "int \<Rightarrow> bytes" where
  "appendInt64 n = be_bytes 8 (word_of_int n :: u64)"

definition unixMilli :: "instant \<Rightarrow> int" where
  "unixMilli t = t div millisecond"

definition qc_SignBytes :: "qc_fields \<Rightarrow> bytes" where
  "qc_SignBytes q = domain_prefix (domain_of MessageTypeQC) @ be_bytes 8 (qc_view q)
     @ be_bytes 8 (qc_height q) @ be_bytes 8 (qc_round q) @ be_bytes 32 (qc_blockHash q)
     @ appendInt64 (qc_timestamp q)"

definition qc_Hash :: "(bytes \<Rightarrow> hash32) \<Rightarrow> qc_fields \<Rightarrow> hash32" where
  "qc_Hash sha256 q = sha256 (qc_SignBytes q)"

definition opt_qc_hash :: "(bytes \<Rightarrow> hash32) \<Rightarrow> qc_fields option \<Rightarrow> bytes" where
  "opt_qc_hash sha256 oq = (case oq of None \<Rightarrow> [] | Some q \<Rightarrow> be_bytes 32 (qc_Hash sha256 q))"

definition proposal_SignBytes :: "(bytes \<Rightarrow> hash32) \<Rightarrow> proposal \<Rightarrow> bytes" where
  "proposal_SignBytes sha256 p = domain_prefix (domain_of MessageTypeProposal)
     @ be_bytes 8 (p_view p) @ be_bytes 8 (p_height p) @ be_bytes 8 (p_round p)
     @ be_bytes 32 (p_blockHash p) @ be_bytes 32 (p_parentHash p) @ be_bytes 32 (p_proposerID p)
     @ appendInt64 (p_timestamp p) @ opt_qc_hash sha256 (p_justifyQC p)"

definition proposal_Hash :: "(bytes \<Rightarrow> hash32) \<Rightarrow> proposal \<Rightarrow> hash32" where
  "proposal_Hash sha256 p = sha256 (proposal_SignBytes sha256 p)"

definition vote_SignBytes :: "vote \<Rightarrow> bytes" where
  "vote_SignBytes v = domain_prefix (domain_of MessageTypeVote) @ be_bytes 8 (v_view v)
     @ be_bytes 8 (v_height v) @ be_bytes 8 (v_round v) @ be_bytes 32 (v_blockHash v)
     @ be_bytes 32 (v_voterID v) @ appendInt64 (v_timestamp v)"

definition vote_Hash :: "(bytes \<Rightarrow> hash32) \<Rightarrow> vote \<Rightarrow> hash32" where
  "vote_Hash sha256 v = sha256 (vote_SignBytes v)"

definition viewChange_SignBytes :: "(bytes \<Rightarrow> hash32) \<Rightarrow> viewChange \<Rightarrow> bytes" where
  "viewChange_SignBytes sha256 vc = domain_prefix (domain_of MessageTypeViewChange)
     @ be_bytes 8 (vc_oldView vc) @ be_bytes 8 (vc_newView vc) @ be_bytes 8 (vc_height vc)
     @ be_bytes 32 (vc_senderID vc) @ appendInt64 (vc_timestamp vc)
     @ opt_qc_hash sha256 (vc_highestQC vc)"

definition viewChange_Hash :: "(bytes \<Rightarrow> hash32) \<Rightarrow> viewChange \<Rightarrow> hash32" where
  "viewChange_Hash sha256 vc = sha256 (viewChange_SignBytes sha256 vc)"

definition newView_SignBytes :: "(bytes \<Rightarrow> hash32) \<Rightarrow> newView \<Rightarrow> bytes" where
  "newView_SignBytes sha256 nv = domain_prefix (domain_of MessageTypeNewView)
     @ be_bytes 8 (nv_view nv) @ be_bytes 8 (nv_height nv) @ be_bytes 32 (nv_leaderID nv)
     @ appendInt64 (nv_timestamp nv)
     @ concat (map (\<lambda>vc. be_bytes 32 (viewChange_Hash sha256 vc)) (nv_viewChanges nv))
     @ opt_qc_hash sha256 (nv_highestQC nv)"

definition newView_Hash :: "(bytes \<Rightarrow> hash32) \<Rightarrow> newView \<Rightarrow> hash32" where
  "newView_Hash sha256 nv = sha256 (newView_SignBytes sha256 nv)"

definition heartbeat_SignBytes :: "heartbeat \<Rightarrow> bytes" where
  "heartbeat_SignBytes hb = domain_prefix (domain_of MessageTypeHeartbeat)
     @ be_bytes 8 (hb_view hb) @ be_bytes 8 (hb_height hb) @ be_bytes 32 (hb_leaderID hb)
     @ appendInt64 (unixMilli (hb_timestamp hb))"

definition heartbeat_Hash :: "(bytes \<Rightarrow> hash32) \<Rightarrow> heartbeat \<Rightarrow> hash32" where
  "heartbeat_Hash sha256 hb = sha256 (heartbeat_SignBytes hb)"

definition evidence_SignBytes :: "(bytes \<Rightarrow> hash32) \<Rightarrow> evidence \<Rightarrow> bytes" where
  "evidence_SignBytes sha256 e = domain_prefix (domain_of MessageTypeEvidence)
     @ [evidence_code (ev_kind e)] @ be_bytes 8 (ev_view e) @ be_bytes 8 (ev_height e)
     @ be_bytes 32 (ev_offenderID e) @ be_bytes 32 (sha256 (ev_proof e))
     @ be_bytes 32 (ev_reporterID e) @ appendInt64 (ev_timestamp e)"

definition evidence_Hash :: "(bytes \<Rightarrow> hash32) \<Rightarrow> evidence \<Rightarrow> hash32" where
  "evidence_Hash sha256 e = sha256 (evidence_SignBytes sha256 e)"

definition genesisReady_SignBytes :: "genesisReady \<Rightarrow> bytes" where
  "genesisReady_SignBytes g = domain_prefix (domain_of MessageTypeGenesisReady)
     @ be_bytes 32 (gr_validatorID g) @ appendInt64 (gr_timestamp g)
     @ be_bytes 32 (gr_configHash g) @ be_bytes 32 (gr_peerHash g) @ be_bytes 32 (gr_nonce g)"

definition genesisReady_Hash :: "(bytes \<Rightarrow> hash32) \<Rightarrow> genesisReady \<Rightarrow> hash32" where
  "genesisReady_Hash sha256 g = sha256 (genesisReady_SignBytes g)"

definition genesisCertificate_SignBytes ::
    "(bytes \<Rightarrow> hash32) \<Rightarrow> genesisCertificate \<Rightarrow> bytes" where
  "genesisCertificate_SignBytes sha256 g =
     domain_prefix (domain_of MessageTypeGenesisCertificate)
     @ be_bytes 32 (gc_aggregator g) @ appendInt64 (gc_timestamp g)
     @ concat (map (\<lambda>a. be_bytes 32 (genesisReady_Hash sha256 a)) (gc_attestations g))"

definition proposalIntent_SignBytes :: "proposalIntent \<Rightarrow> bytes" where
  "proposalIntent_SignBytes p = domain_prefix (domain_of MessageTypeProposalIntent)
     @ be_bytes 8 (pi_view p) @ be_bytes 8 (pi_height p) @ be_bytes 32 (pi_leaderID p)
     @ be_bytes 32 (pi_nonce p) @ appendInt64 (pi_timestamp p)"

definition readyToVote_SignBytes :: "readyToVote \<Rightarrow> bytes" where
  "readyToVote_SignBytes r = domain_prefix (domain_of MessageTypeReadyToVote)
     @ be_bytes 8 (rv_view r) @ be_bytes 8 (rv_height r) @ be_bytes 32 (rv_validatorID r)
     @ be_bytes 32 (rv_leaderID r) @ be_bytes 32 (rv_nonce r) @ appendInt64 (rv_timestamp r)"

text \<open>The \<^verbatim>\<open>Message\<close> interface, as the union of its implementations.\<close>

datatype message =
    MsgProposal proposal | MsgVote vote | MsgQC qc_fields | MsgViewChange viewChange
  | MsgNewView newView | MsgHeartbeat heartbeat | MsgEvidence evidence
  | MsgGenesisReady genesisReady | MsgGenesisCertificate genesisCertificate
  | MsgProposalIntent proposalIntent | MsgReadyToVote readyToVote

fun message_SignBytes :: "(bytes \<Rightarrow> hash32) \<Rightarrow> message \<Rightarrow> bytes" where
  "message_SignBytes sha256 (MsgProposal p) = proposal_SignBytes sha256 p"
| "message_SignBytes sha256 (MsgVote v) = vote_SignBytes v"
| "message_SignBytes sha256 (MsgQC q) = qc_SignBytes q"
| "message_SignBytes sha256 (MsgViewChange vc) = viewChange_SignBytes sha256 vc"
| "message_SignBytes sha256 (MsgNewView nv) = newView_SignBytes sha256 nv"
| "message_SignBytes sha256 (MsgHeartbeat hb) = heartbeat_SignBytes hb"
| "message_SignBytes sha256 (MsgEvidence e) = evidence_SignBytes sha256 e"
| "message_SignBytes sha256 (MsgGenesisReady g) = genesisReady_SignBytes g"
| "message_SignBytes sha256 (MsgGenesisCertificate g) = genesisCertificate_SignBytes sha256 g"
| "message_SignBytes sha256 (MsgProposalIntent p) = proposalIntent_SignBytes p"
| "message_SignBytes sha256 (MsgReadyToVote r) = readyToVote_SignBytes r"

fun message_Type :: "message \<Rightarrow> MessageType" where
  "message_Type (MsgProposal p) = MessageTypeProposal"
| "message_Type (MsgVote v) = MessageTypeVote"
| "message_Type (MsgQC q) = MessageTypeQC"
| "message_Type (MsgViewChange vc) = MessageTypeViewChange"
| "message_Type (MsgNewView nv) = MessageTypeNewView"
| "message_Type (MsgHeartbeat hb) = MessageTypeHeartbeat"
| "message_Type (MsgEvidence e) = MessageTypeEvidence"
| "message_Type (MsgGenesisReady g) = MessageTypeGenesisReady"
| "message_Type (MsgGenesisCertificate g) = MessageTypeGenesisCertificate"
| "message_Type (MsgProposalIntent p) = MessageTypeProposalIntent"
| "message_Type (MsgReadyToVote r) = MessageTypeReadyToVote"

subsection \<open>Certificates behind an interface\<close>

text \<open>
  \<^verbatim>\<open>types.QC\<close> is an interface with two implementations that differ in \<^verbatim>\<open>Hash\<close>:
  \<^verbatim>\<open>messages.QC\<close> hashes its canonical bytes, \<^verbatim>\<open>pbft.QuorumCertificate\<close> returns
  its block hash. A nil interface value is \<open>None\<close> wherever the code allows one.
\<close>

datatype qc = MessagesQC qc_fields | QuorumCertificate qc_fields

fun qc_body :: "qc \<Rightarrow> qc_fields" where
  "qc_body (MessagesQC q) = q"
| "qc_body (QuorumCertificate q) = q"

abbreviation "getView \<equiv> \<lambda>q. qc_view (qc_body q)"
abbreviation "getHeight \<equiv> \<lambda>q. qc_height (qc_body q)"
abbreviation "getBlockHash \<equiv> \<lambda>q. qc_blockHash (qc_body q)"
abbreviation "getSignatures \<equiv> \<lambda>q. qc_signatures (qc_body q)"
abbreviation "getTimestamp \<equiv> \<lambda>q. qc_timestamp (qc_body q)"

fun iface_Hash :: "(bytes \<Rightarrow> hash32) \<Rightarrow> qc \<Rightarrow> hash32" where
  "iface_Hash sha256 (MessagesQC q) = qc_Hash sha256 q"
| "iface_Hash sha256 (QuorumCertificate q) = qc_blockHash q"

fun getQCView :: "qc option \<Rightarrow> u64" where
  "getQCView None = 0"
| "getQCView (Some q) = getView q"

subsection \<open>The validator set interface\<close>

record validatorInfo =
  vi_ID :: validatorID
  vi_publicKey :: bytes
  vi_reputation :: rat
  vi_isActive :: bool
  vi_joinedView :: u64

text \<open>
  \<^verbatim>\<open>types.ValidatorSet\<close> (\<^verbatim>\<open>types/interfaces.go\<close>) as the values its methods return
  during one operation.
\<close>

record validatorSet =
  getValidators :: "validatorInfo list"
  getValidatorCount :: int
  isValidator :: "validatorID \<Rightarrow> bool"
  isActiveInView :: "validatorID \<Rightarrow> u64 \<Rightarrow> bool"

subsection \<open>Lemmas\<close>

lemma be_bytes_append_eq [simp]:
  "be_bytes n v @ r = be_bytes n w @ t \<longleftrightarrow> be_bytes n v = be_bytes n w \<and> r = t"
  by (rule append_eq_append_conv) simp

lemma be_bytes_append_end [simp]:
  "be_bytes n v @ r = be_bytes n w \<longleftrightarrow> be_bytes n v = be_bytes n w \<and> r = []"
  "be_bytes n v = be_bytes n w @ t \<longleftrightarrow> be_bytes n v = be_bytes n w \<and> t = []"
  using append_eq_append_conv [of "be_bytes n v" "be_bytes n w" r "[]"]
    append_eq_append_conv [of "be_bytes n v" "be_bytes n w" "[]" t] by auto

lemma appendInt64_inject: "appendInt64 a = appendInt64 b \<longleftrightarrow> a mod 2 ^ 64 = b mod 2 ^ 64"
  by (simp add: appendInt64_def word_of_int_eq_iff take_bit_eq_mod)

lemma length_appendInt64 [simp]: "length (appendInt64 a) = 8"
  by (simp add: appendInt64_def)

lemma domain_of_no_nul: "no_nul (domain_of t)"
  by (cases t) (simp_all add: no_nul_def string_bytes_def)

lemma domain_of_inject: "domain_of s = domain_of t \<longleftrightarrow> s = t"
  by (cases s; cases t) simp_all

lemma message_SignBytes_prefix:
  "\<exists>r. message_SignBytes sha256 m = domain_prefix (domain_of (message_Type m)) @ r"
  by (cases m) (simp_all add: proposal_SignBytes_def vote_SignBytes_def qc_SignBytes_def
    viewChange_SignBytes_def newView_SignBytes_def heartbeat_SignBytes_def evidence_SignBytes_def
    genesisReady_SignBytes_def genesisCertificate_SignBytes_def proposalIntent_SignBytes_def
    readyToVote_SignBytes_def)

text \<open>
  A signature made for one kind of consensus message is never a signature for another kind:
  two messages with the same canonical bytes have the same type, whatever the hash function.
\<close>

theorem sign_bytes_domain_separated:
  assumes "message_SignBytes sha256 m = message_SignBytes sha256 m'"
  shows "message_Type m = message_Type m'"
proof -
  obtain r t where "domain_prefix (domain_of (message_Type m)) @ r
      = domain_prefix (domain_of (message_Type m')) @ t"
    using assms message_SignBytes_prefix by metis
  then have "string_bytes (domain_of (message_Type m)) = string_bytes (domain_of (message_Type m'))"
    using domain_prefix_split [OF domain_of_no_nul domain_of_no_nul] by blast
  then show ?thesis by (simp add: string_bytes_inject domain_of_inject)
qed

theorem sign_bytes_domain_separated_witness:
  "message_Type (MsgVote \<lparr>v_view = 1, v_height = 2, v_round = 0, v_blockHash = 5, v_voterID = 7,
      v_timestamp = 0, v_signature = \<lparr>sig_bytes = [1], sig_keyID = 7, sig_timestamp = 0\<rparr>\<rparr>)
   = message_Type (MsgVote \<lparr>v_view = 1, v_height = 2, v_round = 0, v_blockHash = 5, v_voterID = 7,
      v_timestamp = 0, v_signature = \<lparr>sig_bytes = [2], sig_keyID = 7, sig_timestamp = 3\<rparr>\<rparr>)"
  by (rule sign_bytes_domain_separated [of "\<lambda>_. 0"]) (simp add: vote_SignBytes_def)

text \<open>
  The canonical bytes of a vote bind every field a quorum certificate counts: two votes with
  the same signed bytes agree on view, height, round, block and voter, and on the timestamp up to
  the 64-bit wrap of \<^verbatim>\<open>UnixNano\<close>.
\<close>

theorem vote_SignBytes_binds:
  "vote_SignBytes v = vote_SignBytes w \<longleftrightarrow>
    v_view v = v_view w \<and> v_height v = v_height w \<and> v_round v = v_round w
    \<and> v_blockHash v = v_blockHash w \<and> v_voterID v = v_voterID w
    \<and> v_timestamp v mod 2 ^ 64 = v_timestamp w mod 2 ^ 64"
  by (simp add: vote_SignBytes_def appendInt64_inject)

lemma qc_Hash_ignores_signatures:
  "qc_Hash sha256 (q\<lparr>qc_signatures := ss, qc_aggregatorID := a\<rparr>) = qc_Hash sha256 q"
  by (simp add: qc_Hash_def qc_SignBytes_def)

end
