(* ===== verification/Quorum.thy ===== *)
theory Quorum
  imports Messages
begin

text \<open>
  The quorum verifier, \<^verbatim>\<open>backend/pkg/consensus/pbft/quorum.go\<close>: the threshold rule
  \<^verbatim>\<open>f = (N-1)/3\<close>, \<^verbatim>\<open>quorum = 2f+1\<close>, the verification of a certificate with its
  cache, and the aggregation of votes.

  The cache is \<^verbatim>\<open>golang-lru\<close>, a library outside the repository: its operations are
  arguments (\<open>lru\<close>). The encoder's cryptographic check is the argument \<open>encVerify\<close>.
  Loops over maps take their order as \<open>ord i\<close>, where \<open>i\<close> numbers the loop.

  Interface: \<open>quorum_rule\<close>, what agreement needs of a threshold rule, interpreted on the
  thresholds the code computes for \<open>N = 3f+1\<close>.
\<close>

subsection \<open>State and configuration\<close>

record quorumConfig =
  qf_EnableCache :: bool
  qf_CacheSize :: int
  qf_CacheTTL :: int
  qf_StrictValidation :: bool
  qf_RequireUniqueVoters :: bool
  qf_AllowSelfVoting :: bool

definition DefaultQuorumConfig :: quorumConfig where
  "DefaultQuorumConfig = \<lparr>qf_EnableCache = True, qf_CacheSize = 10000, qf_CacheTTL = 300,
     qf_StrictValidation = True, qf_RequireUniqueVoters = True, qf_AllowSelfVoting = False\<rparr>"

record 'c lru =
  lru_get :: "'c \<Rightarrow> hash32 \<Rightarrow> bool option"
  lru_add :: "hash32 \<Rightarrow> bool \<Rightarrow> 'c \<Rightarrow> 'c"
  lru_purge :: "'c \<Rightarrow> 'c"
  lru_len :: "'c \<Rightarrow> int"

record quorumStats =
  qs_TotalValidators :: int
  qs_ByzantineTolerance :: int
  qs_QuorumThreshold :: int
  qs_CacheSize :: int
  qs_CacheCapacity :: int

datatype quorum_error =
    QCNil
  | QCNoSignatures
  | QCInsufficient int int
  | QCDuplicateSigner validatorID
  | QCNonValidator nat validatorID
  | QCInactiveSigner nat validatorID
  | QCSignatureInvalid
  | InsufficientValidators int
  | QuorumExceedsTotal int int
  | CannotTolerate int int
  | InsufficientVotes int int
  | NoVotes
  | VotesDifferentBlocks
  | VotesDifferentViews
  | VotesDifferentHeights

subsection \<open>Thresholds\<close>

definition calculateF :: "int \<Rightarrow> int" where
  "calculateF totalValidators =
     (if totalValidators \<le> 0 then 0 else go_div (totalValidators - 1) 3)"

definition calculateQuorum :: "int \<Rightarrow> int" where
  "calculateQuorum f = 2 * f + 1"

definition GetQuorumThreshold :: "validatorSet \<Rightarrow> int" where
  "GetQuorumThreshold vs = calculateQuorum (calculateF (getValidatorCount vs))"

definition GetByzantineTolerance :: "validatorSet \<Rightarrow> int" where
  "GetByzantineTolerance vs = calculateF (getValidatorCount vs)"

definition HasQuorum :: "validatorSet \<Rightarrow> (validatorID, vote) gomap \<Rightarrow> bool" where
  "HasQuorum vs votes =
     (let f = calculateF (getValidatorCount vs); quorum = calculateQuorum f
      in quorum \<le> int (length votes))"

definition ValidateQuorumMath :: "validatorSet \<Rightarrow> quorum_error option" where
  "ValidateQuorumMath vs =
     (let n = getValidatorCount vs; f = calculateF n; quorum = calculateQuorum f in
      if n < 4 then Some (InsufficientValidators n)
      else if quorum > n then Some (QuorumExceedsTotal quorum n)
      else if n - f < quorum then Some (CannotTolerate f n)
      else None)"

subsection \<open>Certificate verification\<close>

definition createDuplicateSignerEvidence ::
    "instant \<Rightarrow> qc \<Rightarrow> validatorID \<Rightarrow> nat \<Rightarrow> evidence" where
  "createDuplicateSignerEvidence now q offender i =
     \<lparr>ev_kind = EvidenceInvalidSignature, ev_view = getView q, ev_height = getHeight q,
      ev_offenderID = offender,
      ev_proof = string_bytes (''duplicate_signer_in_qc:view='' @ go_itoa (unat (getView q))
        @ '':index='' @ go_itoa i),
      ev_reporterID = 0, ev_timestamp = now,
      ev_signature = \<lparr>sig_bytes = [], sig_keyID = 0, sig_timestamp = zeroTime\<rparr>\<rparr>"

text \<open>
  The loop over the signatures of a certificate: \<open>seen\<close> is \<^verbatim>\<open>seenValidators\<close>, \<open>i\<close> the
  index. The result is the error and the evidence handed to \<^verbatim>\<open>storeEvidence\<close>.
\<close>

fun checkSigners ::
    "validatorSet \<Rightarrow> quorumConfig \<Rightarrow> instant \<Rightarrow> qc \<Rightarrow> nat \<Rightarrow> validatorID list \<Rightarrow> signature list
      \<Rightarrow> quorum_error option \<times> evidence list" where
  "checkSigners vs cfg now q i seen [] = (None, [])"
| "checkSigners vs cfg now q i seen (s # ss) =
     (if qf_RequireUniqueVoters cfg \<and> sig_keyID s \<in> set seen
      then (Some (QCDuplicateSigner (sig_keyID s)),
            [createDuplicateSignerEvidence now q (sig_keyID s) i])
      else if \<not> isValidator vs (sig_keyID s) then (Some (QCNonValidator i (sig_keyID s)), [])
      else if \<not> isActiveInView vs (sig_keyID s) (getView q)
      then (Some (QCInactiveSigner i (sig_keyID s)), [])
      else checkSigners vs cfg now q (Suc i) (sig_keyID s # seen) ss)"

definition verifyQCInternal ::
    "validatorSet \<Rightarrow> quorumConfig \<Rightarrow> (qc \<Rightarrow> bool) \<Rightarrow> instant \<Rightarrow> qc option
      \<Rightarrow> quorum_error option \<times> evidence list" where
  "verifyQCInternal vs cfg encVerify now oq =
     (case oq of
        None \<Rightarrow> (Some QCNil, [])
      | Some q \<Rightarrow>
          let sigCount = int (length (getSignatures q));
              requiredQuorum = calculateQuorum (calculateF (getValidatorCount vs)) in
          if getSignatures q = [] then (Some QCNoSignatures, [])
          else if sigCount < requiredQuorum then (Some (QCInsufficient sigCount requiredQuorum), [])
          else (case checkSigners vs cfg now q 0 [] (getSignatures q) of
                  (Some e, evs) \<Rightarrow> (Some e, evs)
                | (None, evs) \<Rightarrow> if encVerify q then (None, evs) else (Some QCSignatureInvalid, evs)))"

text \<open>
  \<open>VerifyQC\<close>: a nil certificate panics on \<^verbatim>\<open>qc.Hash()\<close> when the cache is on, so the
  caller passes a certificate. \<open>oc\<close> is the cache, \<open>None\<close> when it is disabled.
\<close>

definition VerifyQC ::
    "(bytes \<Rightarrow> hash32) \<Rightarrow> 'c lru \<Rightarrow> validatorSet \<Rightarrow> quorumConfig \<Rightarrow> (qc \<Rightarrow> bool) \<Rightarrow> instant
      \<Rightarrow> 'c option \<Rightarrow> qc \<Rightarrow> (quorum_error option \<times> evidence list) \<times> 'c option" where
  "VerifyQC sha256 L vs cfg encVerify now oc q =
     (case (if qf_EnableCache cfg then oc else None) of
        None \<Rightarrow> (verifyQCInternal vs cfg encVerify now (Some q), oc)
      | Some c \<Rightarrow>
          if lru_get L c (iface_Hash sha256 q) = Some True then ((None, []), oc)
          else (case verifyQCInternal vs cfg encVerify now (Some q) of
                  (Some e, evs) \<Rightarrow> ((Some e, evs), oc)
                | (None, evs) \<Rightarrow> ((None, evs), Some (lru_add L (iface_Hash sha256 q) True c))))"

definition ClearCache :: "'c lru \<Rightarrow> 'c option \<Rightarrow> 'c option" where
  "ClearCache L oc = map_option (lru_purge L) oc"

definition GetCacheStats :: "'c lru \<Rightarrow> quorumConfig \<Rightarrow> 'c option \<Rightarrow> int \<times> int" where
  "GetCacheStats L cfg oc = (case oc of None \<Rightarrow> (0, 0) | Some c \<Rightarrow> (lru_len L c, qf_CacheSize cfg))"

definition GetStats :: "'c lru \<Rightarrow> validatorSet \<Rightarrow> quorumConfig \<Rightarrow> 'c option \<Rightarrow> quorumStats" where
  "GetStats L vs cfg oc =
     (let n = getValidatorCount vs; f = calculateF n; (sz, cap) = GetCacheStats L cfg oc in
      \<lparr>qs_TotalValidators = n, qs_ByzantineTolerance = f, qs_QuorumThreshold = calculateQuorum f,
       qs_CacheSize = sz, qs_CacheCapacity = cap\<rparr>)"

subsection \<open>Aggregation\<close>

fun checkSameTarget :: "vote \<Rightarrow> vote list \<Rightarrow> quorum_error option" where
  "checkSameTarget fv [] = None"
| "checkSameTarget fv (v # vs) =
     (if v_blockHash v \<noteq> v_blockHash fv then Some VotesDifferentBlocks
      else if v_view v \<noteq> v_view fv then Some VotesDifferentViews
      else if v_height v \<noteq> v_height fv then Some VotesDifferentHeights
      else checkSameTarget fv vs)"

definition AggregateVotes ::
    "(nat \<Rightarrow> (validatorID, vote) gomap \<Rightarrow> (validatorID, vote) gomap) \<Rightarrow> validatorSet
      \<Rightarrow> (validatorID, vote) gomap \<Rightarrow> validatorID \<Rightarrow> quorum_error + qc" where
  "AggregateVotes ord vs votes aggregatorID =
     (if \<not> HasQuorum vs votes
      then Inl (InsufficientVotes (int (length votes)) (GetQuorumThreshold vs))
      else case ord 0 votes of
             [] \<Rightarrow> Inl NoVotes
           | (_, fv) # _ \<Rightarrow>
               (case checkSameTarget fv (map snd (ord 1 votes)) of
                  Some e \<Rightarrow> Inl e
                | None \<Rightarrow> Inr (QuorumCertificate
                    \<lparr>qc_view = v_view fv, qc_height = v_height fv, qc_round = v_round fv,
                     qc_blockHash = v_blockHash fv,
                     qc_signatures = map (v_signature \<circ> snd) (ord 2 votes),
                     qc_timestamp = v_timestamp fv, qc_aggregatorID = aggregatorID\<rparr>)))"

subsection \<open>What agreement needs of the thresholds\<close>

text \<open>
  A threshold rule maps the number of validators to the quorum size and to the number of faults
  tolerated. Where it is admissible, two quorums overlap in more than the faulty validators, and
  the correct validators alone reach a quorum.
\<close>

locale quorum_rule =
  fixes threshold :: "nat \<Rightarrow> nat"
    and faults :: "nat \<Rightarrow> nat"
    and admissible :: "nat \<Rightarrow> bool"
  assumes overlap: "admissible n \<Longrightarrow> n + faults n < 2 * threshold n"
    and reachable_quorum: "admissible n \<Longrightarrow> threshold n + faults n \<le> n"
begin

lemma overlap_card:
  assumes "finite V" and "A \<subseteq> V" and "B \<subseteq> V"
    and "threshold (card V) \<le> card A" and "threshold (card V) \<le> card B"
  shows "2 * threshold (card V) \<le> card V + card (A \<inter> B)"
proof -
  have fin: "finite A" "finite B"
    using assms(1-3) finite_subset by auto
  have "card A + card B = card (A \<union> B) + card (A \<inter> B)"
    using fin by (rule card_Un_Int)
  moreover have "card (A \<union> B) \<le> card V"
    using assms(1-3) by (intro card_mono) auto
  ultimately show ?thesis using assms(4,5) by linarith
qed

lemma honest_overlap:
  assumes "finite V" and "admissible (card V)" and "A \<subseteq> V" and "B \<subseteq> V"
    and "threshold (card V) \<le> card A" and "threshold (card V) \<le> card B"
    and "finite Z" and "card Z \<le> faults (card V)"
  shows "\<exists>v \<in> A \<inter> B. v \<notin> Z"
proof (rule ccontr)
  assume "\<not> ?thesis"
  then have "A \<inter> B \<subseteq> Z" by blast
  then have "card (A \<inter> B) \<le> card Z"
    by (rule card_mono [OF assms(7)])
  then have "card (A \<inter> B) \<le> faults (card V)"
    using assms(8) by (rule le_trans)
  then show False
    using overlap_card [OF assms(1,3-6)] overlap [OF assms(2)] by linarith
qed

lemma honest_quorum:
  assumes "finite V" and "admissible (card V)" and "Z \<subseteq> V" and "card Z \<le> faults (card V)"
  shows "threshold (card V) \<le> card (V - Z)"
  using card_Diff_subset [of Z V] finite_subset [OF assms(3,1)] assms(3,4)
    reachable_quorum [OF assms(2)] by simp

text \<open>One value per quorum of voters, if every correct voter votes for one value only.\<close>

lemma single_value:
  assumes "finite V" and "admissible (card V)" and "A \<subseteq> V" and "B \<subseteq> V"
    and "threshold (card V) \<le> card A" and "threshold (card V) \<le> card B"
    and "finite Z" and "card Z \<le> faults (card V)"
    and once: "\<And>v x y. v \<notin> Z \<Longrightarrow> voted v x \<Longrightarrow> voted v y \<Longrightarrow> x = y"
    and "\<And>v. v \<in> A \<Longrightarrow> voted v a" and "\<And>v. v \<in> B \<Longrightarrow> voted v b"
  shows "a = b"
  using honest_overlap [OF assms(1-8)] assms(9-11) by blast

end

lemma calculateF_nonneg: "0 \<le> calculateF n"
  by (auto simp: calculateF_def pos_imp_zdiv_nonneg_iff)

lemma calculateF_pos: "0 < n \<Longrightarrow> calculateF n = (n - 1) div 3"
  by (simp add: calculateF_def)

abbreviation code_threshold :: "nat \<Rightarrow> nat" where
  "code_threshold n \<equiv> nat (calculateQuorum (calculateF (int n)))"

abbreviation code_faults :: "nat \<Rightarrow> nat" where
  "code_faults n \<equiv> nat (calculateF (int n))"

lemma code_faults_eq: "0 < n \<Longrightarrow> code_faults n = (n - 1) div 3"
  by (simp add: calculateF_pos nat_div_distrib nat_diff_distrib')

lemma code_threshold_eq: "code_threshold n = 2 * code_faults n + 1"
  using calculateF_nonneg [of "int n"] by (simp add: calculateQuorum_def nat_add_distrib nat_mult_distrib)

interpretation code_rule: quorum_rule code_threshold code_faults "\<lambda>n. n mod 3 = 1"
proof unfold_locales
  fix n :: nat
  assume "n mod 3 = 1"
  moreover from this have "0 < n" by (cases n) auto
  ultimately have "n = 3 * code_faults n + 1"
    by (simp only: code_faults_eq) presburger
  then obtain f where "code_faults n = f" and "n = 3 * f + 1"
    by blast
  then show "n + code_faults n < 2 * code_threshold n" and "code_threshold n + code_faults n \<le> n"
    unfolding code_threshold_eq by simp_all
qed

lemma code_quorums_meet:
  assumes "finite V" and "card V mod 3 = 1" and "A \<subseteq> V" and "B \<subseteq> V"
    and "calculateQuorum (calculateF (int (card V))) \<le> int (card A)"
    and "calculateQuorum (calculateF (int (card V))) \<le> int (card B)"
    and "finite Z" and "int (card Z) \<le> calculateF (int (card V))"
  shows "\<exists>v \<in> A \<inter> B. v \<notin> Z"
  using code_rule.honest_overlap [of V A B Z] assms by (simp add: nat_le_iff le_nat_iff calculateF_nonneg)

text \<open>
  C18. Quorum intersection. With \<open>N = 3f+1\<close> validators, any two vote sets that reach the code's
  threshold share a validator outside any set of at most \<open>f\<close> faulty ones.
\<close>

theorem quorum_honest_intersection:
  assumes "finite V" and "card V mod 3 = 1" and "A \<subseteq> V" and "B \<subseteq> V"
    and "calculateQuorum (calculateF (int (card V))) \<le> int (card A)"
    and "calculateQuorum (calculateF (int (card V))) \<le> int (card B)"
    and "finite Z" and "int (card Z) \<le> calculateF (int (card V))"
  shows "\<exists>v \<in> A \<inter> B. v \<notin> Z"
  using assms by (rule code_quorums_meet)

theorem quorum_honest_intersection_witness:
  "\<exists>v \<in> {0, 1, 2} \<inter> {1, 2, 3::nat}. v \<notin> {2}"
  by (rule quorum_honest_intersection [of "{0, 1, 2, 3}"])
    (simp_all add: calculateQuorum_def calculateF_def go_div_def)

text \<open>
  The threshold is too small whenever \<open>N\<close> is not of the form \<open>3f+1\<close>: there are two vote sets
  that both reach it and whose common members number at most \<open>f\<close>, so they may all be faulty. The
  README's deployment of five validators is such an \<open>N\<close>.
\<close>

theorem quorum_overlap_within_faults:
  assumes "0 < n" and "n mod 3 \<noteq> 1"
  shows "\<exists>A B. A \<subseteq> {..<n} \<and> B \<subseteq> {..<n}
    \<and> int (card A) = calculateQuorum (calculateF (int n))
    \<and> int (card B) = calculateQuorum (calculateF (int n))
    \<and> int (card (A \<inter> B)) \<le> calculateF (int n)"
proof -
  define f where "f = (n - 1) div 3"
  have f: "calculateF (int n) = int f"
    using assms(1) by (simp add: calculateF_pos f_def zdiv_int of_nat_diff)
  have "n = 3 * f + 2 \<or> n = 3 * f + 3"
    using assms unfolding f_def by presburger
  then have "2 * f + 1 \<le> n" and "card ({..<2 * f + 1} \<inter> {n - (2 * f + 1)..<n}) \<le> f"
    by (auto simp flip: atLeast0LessThan)
  then show ?thesis
    unfolding f calculateQuorum_def
    by (intro exI [of _ "{..<2 * f + 1}"] exI [of _ "{n - (2 * f + 1)..<n}"]) auto
qed

theorem quorum_overlap_within_faults_witness:
  "\<exists>A B. A \<subseteq> {..<5::nat} \<and> B \<subseteq> {..<5}
    \<and> int (card A) = calculateQuorum (calculateF (int 5))
    \<and> int (card B) = calculateQuorum (calculateF (int 5))
    \<and> int (card (A \<inter> B)) \<le> calculateF (int 5)"
  by (rule quorum_overlap_within_faults) simp_all

subsection \<open>Verification and aggregation are exact\<close>

lemma checkSigners_None_iff:
  "fst (checkSigners vs cfg now q i seen ss) = None \<longleftrightarrow>
    (\<forall>s \<in> set ss. isValidator vs (sig_keyID s) \<and> isActiveInView vs (sig_keyID s) (getView q))
    \<and> (qf_RequireUniqueVoters cfg \<longrightarrow>
        distinct (map sig_keyID ss) \<and> sig_keyID ` set ss \<inter> set seen = {})"
  by (induction ss arbitrary: i seen) auto

lemma checkSigners_no_evidence:
  "fst (checkSigners vs cfg now q i seen ss) = None \<Longrightarrow> snd (checkSigners vs cfg now q i seen ss) = []"
  by (induction ss arbitrary: i seen) (auto split: if_splits)

lemma GetQuorumThreshold_pos: "1 \<le> GetQuorumThreshold vs"
  using calculateF_nonneg [of "getValidatorCount vs"]
  by (simp add: GetQuorumThreshold_def calculateQuorum_def)

lemma verifyQCInternal_None_iff:
  "fst (verifyQCInternal vs cfg encVerify now (Some q)) = None \<longleftrightarrow>
    GetQuorumThreshold vs \<le> int (length (getSignatures q))
    \<and> fst (checkSigners vs cfg now q 0 [] (getSignatures q)) = None \<and> encVerify q"
  using GetQuorumThreshold_pos [of vs]
  by (auto simp: verifyQCInternal_def GetQuorumThreshold_def Let_def split: prod.splits option.splits)

text \<open>
  Certificate verification is exact: with unique voters required (the default), a certificate
  is accepted precisely when its signers are distinct, number at least the quorum, are all
  validators active in its view, and the encoder accepts the signatures.
\<close>

theorem verifyQCInternal_accepts_iff:
  assumes "qf_RequireUniqueVoters cfg"
  shows "fst (verifyQCInternal vs cfg encVerify now (Some q)) = None \<longleftrightarrow>
    (let ids = map sig_keyID (getSignatures q) in
      distinct ids \<and> GetQuorumThreshold vs \<le> int (card (set ids))
      \<and> list_all (\<lambda>i. isValidator vs i \<and> isActiveInView vs i (getView q)) ids \<and> encVerify q)"
  using assms distinct_card [of "map sig_keyID (getSignatures q)"]
  by (auto simp: verifyQCInternal_None_iff checkSigners_None_iff Let_def list_all_iff)

definition ex_vs :: validatorSet where
  "ex_vs = \<lparr>getValidators = [], getValidatorCount = 4, isValidator = (\<lambda>i. i < 4),
     isActiveInView = (\<lambda>i v. True)\<rparr>"

definition ex_sig :: "validatorID \<Rightarrow> signature" where
  "ex_sig i = \<lparr>sig_bytes = [1], sig_keyID = i, sig_timestamp = 0\<rparr>"

definition ex_qc :: "signature list \<Rightarrow> qc" where
  "ex_qc ss = QuorumCertificate \<lparr>qc_view = 7, qc_height = 3, qc_round = 0, qc_blockHash = 42,
     qc_signatures = ss, qc_timestamp = 0, qc_aggregatorID = 1\<rparr>"

lemmas ex_quorum_simps = ex_vs_def ex_sig_def ex_qc_def DefaultQuorumConfig_def
  GetQuorumThreshold_def calculateQuorum_def calculateF_def go_div_def

theorem verifyQCInternal_accepts_iff_witness:
  "fst (verifyQCInternal ex_vs DefaultQuorumConfig (\<lambda>q. True) 0
     (Some (ex_qc [ex_sig 0, ex_sig 1, ex_sig 2]))) = None"
  by (subst verifyQCInternal_accepts_iff) (simp_all add: ex_quorum_simps)

text \<open>
  The verification cache forgets the signatures: once a certificate has been accepted and is
  still cached, every \<^verbatim>\<open>QuorumCertificate\<close> for the same block hash is accepted, whatever
  signatures it carries, because the cache key is \<^verbatim>\<open>qc.Hash()\<close>, the block hash.
\<close>

theorem VerifyQC_cache_ignores_signatures:
  assumes "qf_EnableCache cfg"
    and "VerifyQC sha256 L vs cfg encVerify now (Some c) (QuorumCertificate b) = ((None, evs), Some c')"
    and "lru_get L c' (qc_blockHash b) = Some True"
  shows "VerifyQC sha256 L vs cfg encVerify' now' (Some c')
    (QuorumCertificate (b\<lparr>qc_signatures := ss, qc_view := w\<rparr>)) = ((None, []), Some c')"
  using assms by (simp add: VerifyQC_def)

definition ex_lru :: "(hash32 \<Rightarrow> bool option) lru" where
  "ex_lru = \<lparr>lru_get = (\<lambda>c k. c k), lru_add = (\<lambda>k b c. c(k := Some b)),
     lru_purge = (\<lambda>c. (\<lambda>_. None)), lru_len = (\<lambda>c. 0)\<rparr>"

theorem VerifyQC_cache_ignores_signatures_witness:
  "VerifyQC (\<lambda>_. 0) ex_lru ex_vs DefaultQuorumConfig (\<lambda>q. False) 1
     (Some ((\<lambda>_. None)(42 := Some True)))
     (QuorumCertificate ((qc_body (ex_qc [ex_sig 0, ex_sig 1, ex_sig 2]))
        \<lparr>qc_signatures := [], qc_view := 9\<rparr>))
   = ((None, []), Some ((\<lambda>_. None)(42 := Some True)))"
  by (rule VerifyQC_cache_ignores_signatures
      [where encVerify = "\<lambda>q. True" and now = 0 and c = "\<lambda>_. None" and evs = "[]"])
    (simp_all add: VerifyQC_def verifyQCInternal_def ex_lru_def ex_quorum_simps)

text \<open>
  The start-up check \<^verbatim>\<open>ValidateQuorumMath\<close> rejects exactly the sets of fewer than
  four validators; its two later branches are unreachable.
\<close>

theorem ValidateQuorumMath_exact:
  "ValidateQuorumMath vs =
    (if getValidatorCount vs < 4 then Some (InsufficientValidators (getValidatorCount vs)) else None)"
proof (cases "getValidatorCount vs < 4")
  case False
  then have "calculateF (getValidatorCount vs) = (getValidatorCount vs - 1) div 3"
    by (simp add: calculateF_pos)
  moreover have "3 * ((getValidatorCount vs - 1) div 3) \<le> getValidatorCount vs - 1"
    by simp
  ultimately show ?thesis
    using False by (simp add: ValidateQuorumMath_def calculateQuorum_def Let_def)
qed (simp add: ValidateQuorumMath_def Let_def)

lemma checkSameTarget_None_iff:
  "checkSameTarget fv vs = None \<longleftrightarrow>
    (\<forall>v \<in> set vs. v_blockHash v = v_blockHash fv \<and> v_view v = v_view fv \<and> v_height v = v_height fv)"
  by (induction vs) auto

text \<open>
  Aggregation is sound in every iteration order: the certificate carries exactly the
  signatures of the votes, at least a quorum of them, and every vote is for its block, view and
  height.
\<close>

theorem AggregateVotes_sound:
  assumes "\<And>i. iter_order (ord i)" and "AggregateVotes ord vs votes a = Inr q"
  shows "mset (getSignatures q) = mset (map (v_signature \<circ> snd) votes)
    \<and> GetQuorumThreshold vs \<le> int (length (getSignatures q))
    \<and> list_all (\<lambda>(i, v). v_blockHash v = getBlockHash q \<and> v_view v = getView q
        \<and> v_height v = getHeight q) votes"
proof -
  from assms(2) have hq: "HasQuorum vs votes"
    by (auto simp: AggregateVotes_def split: if_splits)
  with assms(2) obtain i fv rest where o0: "ord 0 votes = (i, fv) # rest"
    and same: "checkSameTarget fv (map snd (ord 1 votes)) = None"
    and q: "getSignatures q = map (v_signature \<circ> snd) (ord 2 votes)"
      "getBlockHash q = v_blockHash fv" "getView q = v_view fv" "getHeight q = v_height fv"
    by (auto simp: AggregateVotes_def split: list.splits option.splits)
  have "mset (getSignatures q) = mset (map (v_signature \<circ> snd) votes)"
    using assms(1) [of 2] by (simp add: q iter_order_def)
  moreover have "length (getSignatures q) = length votes"
    using iter_order_length [OF assms(1)] by (simp add: q)
  moreover have "list_all (\<lambda>(i, v). v_blockHash v = getBlockHash q \<and> v_view v = getView q
        \<and> v_height v = getHeight q) votes"
    using same iter_order_set [OF assms(1), of 1 votes]
    by (auto simp: checkSameTarget_None_iff list_all_iff q)
  ultimately show ?thesis
    using hq by (simp add: HasQuorum_def GetQuorumThreshold_def Let_def)
qed

definition ex_vote :: "validatorID \<Rightarrow> vote" where
  "ex_vote i = \<lparr>v_view = 7, v_height = 3, v_round = 0, v_blockHash = 42, v_voterID = i,
     v_timestamp = 0, v_signature = ex_sig i\<rparr>"

theorem AggregateVotes_sound_witness:
  "mset [ex_sig 0, ex_sig 1, ex_sig 2]
     = mset (map (v_signature \<circ> snd) [(0, ex_vote 0), (1, ex_vote 1), (2, ex_vote 2)])
   \<and> GetQuorumThreshold ex_vs \<le> 3"
  using AggregateVotes_sound [where ord = "\<lambda>i m. m" and vs = ex_vs and a = 1
      and votes = "[(0, ex_vote 0), (1, ex_vote 1), (2, ex_vote 2)]"
      and q = "(ex_qc [ex_sig 0, ex_sig 1, ex_sig 2])"]
  by (simp add: AggregateVotes_def HasQuorum_def ex_vote_def ex_quorum_simps)

end
