(* ===== verification/Encoding.thy ===== *)
theory Encoding
  imports Quorum
begin

text \<open>
  The message encoder, \<^verbatim>\<open>backend/pkg/consensus/messages/encoding.go\<close>: size limits, the
  signature and timestamp checks of an incoming message with their caches, and the cryptographic
  check of a quorum certificate.

  CBOR (\<open>marshal\<close>, \<open>unmarshal\<close>), the expirable LRU cache (\<open>sigCache\<close>) and the
  crypto service (\<open>crypto\<close>) are libraries or interfaces and appear as arguments. What is relied
  on of the cache is \<open>cache_law\<close>: a lookup only returns what was added under that key.

  Lemmas: an accepted certificate carries a signature by each of its signers on the vote it
  stands for; the three places that compute the quorum agree; the signer of a message is not tied
  to the sender it names.
\<close>

subsection \<open>Configuration and state\<close>

record encoderConfig =
  ec_MaxProposalSize :: int
  ec_MaxVoteSize :: int
  ec_MaxQCSize :: int
  ec_MaxViewChangeSize :: int
  ec_MaxNewViewSize :: int
  ec_MaxHeartbeatSize :: int
  ec_MaxEvidenceSize :: int
  ec_MaxGenesisReadySize :: int
  ec_MaxGenesisCertificateSize :: int
  ec_MaxProposalIntentSize :: int
  ec_MaxReadyToVoteSize :: int
  ec_ClockSkewTolerance :: duration
  ec_GenesisClockSkewTolerance :: duration
  ec_MaxMessageAge :: duration
  ec_GenesisMaxMessageAge :: duration
  ec_VerifyCacheSize :: int
  ec_VerifyCacheTTL :: duration
  ec_RejectFutureMessages :: bool
  ec_MinQuorumSize :: int

definition DefaultEncoderConfig :: encoderConfig where
  "DefaultEncoderConfig = \<lparr>ec_MaxProposalSize = 1048576, ec_MaxVoteSize = 10240,
     ec_MaxQCSize = 102400, ec_MaxViewChangeSize = 51200, ec_MaxNewViewSize = 512000,
     ec_MaxHeartbeatSize = 5120, ec_MaxEvidenceSize = 204800, ec_MaxGenesisReadySize = 16384,
     ec_MaxGenesisCertificateSize = 65536, ec_MaxProposalIntentSize = 4096,
     ec_MaxReadyToVoteSize = 4096, ec_ClockSkewTolerance = 5 * second,
     ec_GenesisClockSkewTolerance = 86400 * second, ec_MaxMessageAge = 30 * second,
     ec_GenesisMaxMessageAge = 86400 * second, ec_VerifyCacheSize = 10000,
     ec_VerifyCacheTTL = 300 * second, ec_RejectFutureMessages = True, ec_MinQuorumSize = 1\<rparr>"

record 'c sigCache =
  ca_get :: "'c \<Rightarrow> bytes \<Rightarrow> bool option"
  ca_add :: "bytes \<Rightarrow> bool \<Rightarrow> 'c \<Rightarrow> 'c"
  ca_purge :: "'c \<Rightarrow> 'c"
  ca_empty :: 'c

definition cache_law :: "'c sigCache \<Rightarrow> bool" where
  "cache_law C \<longleftrightarrow>
     (\<forall>k. ca_get C (ca_empty C) k = None)
     \<and> (\<forall>k v c k' x. ca_get C (ca_add C k v c) k' = Some x \<longrightarrow>
          (k' = k \<and> x = v) \<or> ca_get C c k' = Some x)"

record crypto =
  cr_GetPublicKey :: "validatorID \<Rightarrow> bytes option"
  cr_Verify :: "bytes \<Rightarrow> bytes \<Rightarrow> bytes \<Rightarrow> bool \<Rightarrow> bool"

text \<open>\<open>en_validatorCount\<close> is \<open>None\<close> before \<^verbatim>\<open>SetValidatorSet\<close>.\<close>

record 'c encoder =
  en_config :: encoderConfig
  en_verifyCache :: 'c
  en_verifySigCache :: 'c
  en_validatorCount :: "int option"
  en_staticMinQuorum :: int

datatype encoder_error =
    SizeExceeded nat int
  | EncodeFailed
  | DecodeFailed
  | NoPublicKey validatorID
  | InvalidSignature
  | TimestampTooOld instant
  | TimestampInFuture instant
  | EncQCNil
  | EncQCNoSignatures
  | EncQCInsufficient nat int
  | EncQCEmptySignature nat
  | EncQCDuplicate validatorID
  | EncQCNoPublicKey nat validatorID
  | EncQCInvalid nat validatorID

definition NewEncoder :: "'c sigCache \<Rightarrow> encoderConfig \<Rightarrow> 'c encoder" where
  "NewEncoder C cfg =
     (let cfg = (if ec_GenesisClockSkewTolerance cfg \<le> 0
                 then cfg\<lparr>ec_GenesisClockSkewTolerance := ec_ClockSkewTolerance cfg\<rparr> else cfg);
          cfg = (if ec_MaxMessageAge cfg \<le> 0
                 then cfg\<lparr>ec_MaxMessageAge := ec_ClockSkewTolerance cfg\<rparr> else cfg);
          cfg = (if ec_GenesisMaxMessageAge cfg \<le> 0
                 then cfg\<lparr>ec_GenesisMaxMessageAge := ec_GenesisClockSkewTolerance cfg\<rparr> else cfg) in
      \<lparr>en_config = cfg, en_verifyCache = ca_empty C, en_verifySigCache = ca_empty C,
       en_validatorCount = None, en_staticMinQuorum = ec_MinQuorumSize cfg\<rparr>)"

definition SetValidatorSet :: "int option \<Rightarrow> 'c encoder \<Rightarrow> 'c encoder" where
  "SetValidatorSet cnt e = e\<lparr>en_validatorCount := cnt\<rparr>"

definition quorumThreshold :: "'c encoder \<Rightarrow> int" where
  "quorumThreshold e =
     (let minQuorum = (if en_staticMinQuorum e < 1 then 1 else en_staticMinQuorum e) in
      case en_validatorCount e of
        None \<Rightarrow> minQuorum
      | Some cnt \<Rightarrow>
          if cnt \<le> 0 then minQuorum
          else
            let f = go_div (cnt - 1) 3; d = 2 * f + 1; dynamic = (if d < 1 then 1 else d) in
            if dynamic > minQuorum then dynamic else minQuorum)"

fun getMaxSize :: "encoderConfig \<Rightarrow> MessageType \<Rightarrow> int" where
  "getMaxSize cfg MessageTypeProposal = ec_MaxProposalSize cfg"
| "getMaxSize cfg MessageTypeVote = ec_MaxVoteSize cfg"
| "getMaxSize cfg MessageTypeQC = ec_MaxQCSize cfg"
| "getMaxSize cfg MessageTypeViewChange = ec_MaxViewChangeSize cfg"
| "getMaxSize cfg MessageTypeNewView = ec_MaxNewViewSize cfg"
| "getMaxSize cfg MessageTypeHeartbeat = ec_MaxHeartbeatSize cfg"
| "getMaxSize cfg MessageTypeEvidence = ec_MaxEvidenceSize cfg"
| "getMaxSize cfg MessageTypeGenesisReady = ec_MaxGenesisReadySize cfg"
| "getMaxSize cfg MessageTypeGenesisCertificate = ec_MaxGenesisCertificateSize cfg"
| "getMaxSize cfg MessageTypeProposalIntent = ec_MaxProposalIntentSize cfg"
| "getMaxSize cfg MessageTypeReadyToVote = ec_MaxReadyToVoteSize cfg"

definition Encode ::
    "(message \<Rightarrow> bytes option) \<Rightarrow> 'c encoder \<Rightarrow> message \<Rightarrow> encoder_error + bytes" where
  "Encode marshal e msg =
     (case marshal msg of
        None \<Rightarrow> Inl EncodeFailed
      | Some data \<Rightarrow>
          if int (length data) > getMaxSize (en_config e) (message_Type msg)
          then Inl (SizeExceeded (length data) (getMaxSize (en_config e) (message_Type msg)))
          else Inr data)"

subsection \<open>Signature of a message\<close>

definition message_Hash :: "(bytes \<Rightarrow> hash32) \<Rightarrow> message \<Rightarrow> hash32" where
  "message_Hash sha256 m = sha256 (message_SignBytes sha256 m)"

fun extractSignature :: "message \<Rightarrow> bytes \<times> validatorID" where
  "extractSignature (MsgProposal m) = (sig_bytes (p_signature m), sig_keyID (p_signature m))"
| "extractSignature (MsgVote m) = (sig_bytes (v_signature m), sig_keyID (v_signature m))"
| "extractSignature (MsgViewChange m) = (sig_bytes (vc_signature m), sig_keyID (vc_signature m))"
| "extractSignature (MsgNewView m) = (sig_bytes (nv_signature m), sig_keyID (nv_signature m))"
| "extractSignature (MsgHeartbeat m) = (sig_bytes (hb_signature m), sig_keyID (hb_signature m))"
| "extractSignature (MsgEvidence m) = (sig_bytes (ev_signature m), sig_keyID (ev_signature m))"
| "extractSignature (MsgGenesisReady m) = (sig_bytes (gr_signature m), sig_keyID (gr_signature m))"
| "extractSignature (MsgGenesisCertificate m) = (sig_bytes (gc_signature m), sig_keyID (gc_signature m))"
| "extractSignature (MsgProposalIntent m) = (sig_bytes (pi_signature m), sig_keyID (pi_signature m))"
| "extractSignature (MsgReadyToVote m) = (sig_bytes (rv_signature m), sig_keyID (rv_signature m))"
| "extractSignature (MsgQC m) = ([], 0)"

definition getCacheKey :: "hash32 \<Rightarrow> validatorID \<Rightarrow> bytes" where
  "getCacheKey msgHash keyID = be_bytes 32 msgHash @ be_bytes 32 keyID"

definition getSigCacheKey :: "bytes \<Rightarrow> validatorID \<Rightarrow> bytes" where
  "getSigCacheKey signBytes keyID = signBytes @ be_bytes 32 keyID"

definition verifyMessage ::
    "(bytes \<Rightarrow> hash32) \<Rightarrow> 'c sigCache \<Rightarrow> crypto \<Rightarrow> message \<Rightarrow> 'c encoder
      \<Rightarrow> encoder_error option \<times> 'c encoder" where
  "verifyMessage sha256 C K msg e =
     (let (sig, keyID) = extractSignature msg;
          cacheKey = getCacheKey (message_Hash sha256 msg) keyID;
          signBytes = message_SignBytes sha256 msg;
          sigKey = getSigCacheKey signBytes keyID in
      if ca_get C (en_verifyCache e) cacheKey = Some True then (None, e)
      else case cr_GetPublicKey K keyID of
             None \<Rightarrow> (Some (NoPublicKey keyID), e)
           | Some publicKey \<Rightarrow>
               if signBytes \<noteq> [] \<and> ca_get C (en_verifySigCache e) sigKey = Some True then (None, e)
               else if \<not> cr_Verify K signBytes sig publicKey False then (Some InvalidSignature, e)
               else (None, e\<lparr>en_verifyCache := ca_add C cacheKey True (en_verifyCache e),
                             en_verifySigCache :=
                               (if signBytes \<noteq> [] then ca_add C sigKey True (en_verifySigCache e)
                                else en_verifySigCache e)\<rparr>))"

fun message_timestamp :: "message \<Rightarrow> instant" where
  "message_timestamp (MsgProposal m) = p_timestamp m"
| "message_timestamp (MsgVote m) = v_timestamp m"
| "message_timestamp (MsgQC m) = qc_timestamp m"
| "message_timestamp (MsgViewChange m) = vc_timestamp m"
| "message_timestamp (MsgNewView m) = nv_timestamp m"
| "message_timestamp (MsgHeartbeat m) = hb_timestamp m"
| "message_timestamp (MsgEvidence m) = ev_timestamp m"
| "message_timestamp (MsgGenesisReady m) = gr_timestamp m"
| "message_timestamp (MsgGenesisCertificate m) = gc_timestamp m"
| "message_timestamp (MsgProposalIntent m) = pi_timestamp m"
| "message_timestamp (MsgReadyToVote m) = rv_timestamp m"

definition isGenesis :: "message \<Rightarrow> bool" where
  "isGenesis m = (message_Type m = MessageTypeGenesisReady \<or> message_Type m = MessageTypeGenesisCertificate)"

definition checkTimestamp :: "encoderConfig \<Rightarrow> instant \<Rightarrow> message \<Rightarrow> encoder_error option" where
  "checkTimestamp cfg now msg =
     (let timestamp = message_timestamp msg;
          tolerance = (if isGenesis msg \<and> ec_GenesisClockSkewTolerance cfg > 0
                       then ec_GenesisClockSkewTolerance cfg else ec_ClockSkewTolerance cfg);
          maxAge = (if isGenesis msg \<and> ec_GenesisMaxMessageAge cfg > 0
                    then ec_GenesisMaxMessageAge cfg else ec_MaxMessageAge cfg);
          maxAge = (if maxAge \<le> 0 then tolerance else maxAge) in
      if now - timestamp > maxAge then Some (TimestampTooOld timestamp)
      else if ec_RejectFutureMessages cfg \<and> timestamp - now > tolerance
      then Some (TimestampInFuture timestamp)
      else None)"

definition VerifyAndDecode ::
    "(bytes \<Rightarrow> MessageType \<Rightarrow> message option) \<Rightarrow> (bytes \<Rightarrow> hash32) \<Rightarrow> 'c sigCache \<Rightarrow> crypto \<Rightarrow> instant
      \<Rightarrow> bytes \<Rightarrow> MessageType \<Rightarrow> 'c encoder \<Rightarrow> (encoder_error + message) \<times> 'c encoder" where
  "VerifyAndDecode unmarshal sha256 C K now data msgType e =
     (if int (length data) > getMaxSize (en_config e) msgType
      then (Inl (SizeExceeded (length data) (getMaxSize (en_config e) msgType)), e)
      else case unmarshal data msgType of
             None \<Rightarrow> (Inl DecodeFailed, e)
           | Some msg \<Rightarrow>
               (case verifyMessage sha256 C K msg e of
                  (Some err, e) \<Rightarrow> (Inl err, e)
                | (None, e) \<Rightarrow>
                    (case checkTimestamp (en_config e) now msg of
                       Some err \<Rightarrow> (Inl err, e)
                     | None \<Rightarrow> (Inr msg, e))))"

definition encoder_ClearCache :: "'c sigCache \<Rightarrow> 'c encoder \<Rightarrow> 'c encoder" where
  "encoder_ClearCache C e = e\<lparr>en_verifyCache := ca_purge C (en_verifyCache e)\<rparr>"

subsection \<open>Certificates\<close>

definition buildVoteSignBytesFromQC :: "qc_fields \<Rightarrow> validatorID \<Rightarrow> instant \<Rightarrow> bytes" where
  "buildVoteSignBytesFromQC q voterID timestamp =
     domain_prefix (domain_of MessageTypeVote) @ be_bytes 8 (qc_view q) @ be_bytes 8 (qc_height q)
     @ be_bytes 8 (qc_round q) @ be_bytes 32 (qc_blockHash q) @ be_bytes 32 voterID
     @ appendInt64 timestamp"

text \<open>The loop over the signatures: \<open>seen\<close> are the signers so far, \<open>c\<close> the signature cache.\<close>

fun verifyQCSigs ::
    "'c sigCache \<Rightarrow> crypto \<Rightarrow> qc_fields \<Rightarrow> nat \<Rightarrow> validatorID list \<Rightarrow> signature list \<Rightarrow> 'c
      \<Rightarrow> encoder_error option \<times> 'c" where
  "verifyQCSigs C K q i seen [] c = (None, c)"
| "verifyQCSigs C K q i seen (s # ss) c =
     (let k = sig_keyID s;
          voteBytes = buildVoteSignBytesFromQC q k (sig_timestamp s);
          sigKey = getSigCacheKey voteBytes k in
      if sig_bytes s = [] then (Some (EncQCEmptySignature i), c)
      else if k \<in> set seen then (Some (EncQCDuplicate k), c)
      else case cr_GetPublicKey K k of
             None \<Rightarrow> (Some (EncQCNoPublicKey i k), c)
           | Some publicKey \<Rightarrow>
               if ca_get C c sigKey = Some True then verifyQCSigs C K q (Suc i) (k # seen) ss c
               else if \<not> cr_Verify K voteBytes (sig_bytes s) publicKey True
               then (Some (EncQCInvalid i k), c)
               else verifyQCSigs C K q (Suc i) (k # seen) ss (ca_add C sigKey True c))"

definition encoder_VerifyQC ::
    "'c sigCache \<Rightarrow> crypto \<Rightarrow> qc_fields option \<Rightarrow> 'c encoder \<Rightarrow> encoder_error option \<times> 'c encoder" where
  "encoder_VerifyQC C K oq e =
     (case oq of
        None \<Rightarrow> (Some EncQCNil, e)
      | Some q \<Rightarrow>
          let required = quorumThreshold e in
          if qc_signatures q = [] then (Some EncQCNoSignatures, e)
          else if required > 0 \<and> int (length (qc_signatures q)) < required
          then (Some (EncQCInsufficient (length (qc_signatures q)) required), e)
          else case verifyQCSigs C K q 0 [] (qc_signatures q) (en_verifySigCache e) of
                 (r, c) \<Rightarrow> (r, e\<lparr>en_verifySigCache := c\<rparr>))"

definition CacheQCSignatures ::
    "'c sigCache \<Rightarrow> qc_fields option \<Rightarrow> 'c encoder \<Rightarrow> 'c encoder" where
  "CacheQCSignatures C oq e =
     (case oq of
        None \<Rightarrow> e
      | Some q \<Rightarrow>
          e\<lparr>en_verifySigCache :=
              fold (\<lambda>s c. if sig_bytes s = [] then c
                          else ca_add C (getSigCacheKey (buildVoteSignBytesFromQC q (sig_keyID s) (sig_timestamp s))
                                           (sig_keyID s)) True c)
                (qc_signatures q) (en_verifySigCache e)\<rparr>)"

text \<open>
  \<^verbatim>\<open>encoderAdapter.VerifyQC\<close> (\<^verbatim>\<open>api/encoder_adapter.go\<close>) rebuilds the
  certificate behind the interface with round 0 and no aggregator.
\<close>

definition adaptQC :: "qc \<Rightarrow> qc_fields" where
  "adaptQC q = \<lparr>qc_view = getView q, qc_height = getHeight q, qc_round = 0,
     qc_blockHash = getBlockHash q, qc_signatures = getSignatures q,
     qc_timestamp = getTimestamp q, qc_aggregatorID = 0\<rparr>"

definition encoderAdapter_VerifyQC ::
    "'c sigCache \<Rightarrow> crypto \<Rightarrow> qc \<Rightarrow> 'c encoder \<Rightarrow> encoder_error option \<times> 'c encoder" where
  "encoderAdapter_VerifyQC C K q e = encoder_VerifyQC C K (Some (adaptQC q)) e"

subsection \<open>Cache keys\<close>

lemma getSigCacheKey_inject [simp]:
  "getSigCacheKey sb k = getSigCacheKey sb' k' \<longleftrightarrow> sb = sb' \<and> k = k'"
  by (auto simp: getSigCacheKey_def)

lemma getCacheKey_inject [simp]: "getCacheKey h k = getCacheKey h' k' \<longleftrightarrow> h = h' \<and> k = k'"
  by (simp add: getCacheKey_def)

text \<open>
  A sound cache only knows pairs of signed bytes and key for which the crypto service has accepted
  a signature.
\<close>

definition signed_by :: "crypto \<Rightarrow> bytes \<Rightarrow> validatorID \<Rightarrow> bool" where
  "signed_by K sb k \<longleftrightarrow> (\<exists>pk sig old. cr_GetPublicKey K k = Some pk \<and> cr_Verify K sb sig pk old)"

definition cache_sound :: "'c sigCache \<Rightarrow> crypto \<Rightarrow> 'c \<Rightarrow> bool" where
  "cache_sound C K c \<longleftrightarrow>
     (\<forall>sb k. ca_get C c (getSigCacheKey sb k) = Some True \<longrightarrow> signed_by K sb k)"

lemma cache_sound_add:
  "cache_law C \<Longrightarrow> cache_sound C K c \<Longrightarrow> signed_by K sb k \<Longrightarrow>
    cache_sound C K (ca_add C (getSigCacheKey sb k) True c)"
  by (auto simp: cache_law_def cache_sound_def) (metis getSigCacheKey_inject)

lemma cache_sound_empty: "cache_law C \<Longrightarrow> cache_sound C K (ca_empty C)"
  by (simp add: cache_law_def cache_sound_def)

lemma verifyQCSigs_sound:
  assumes "cache_law C" and "cache_sound C K c" and "verifyQCSigs C K q i seen ss c = (None, c')"
  shows "distinct (map sig_keyID ss) \<and> sig_keyID ` set ss \<inter> set seen = {}
    \<and> (\<forall>s \<in> set ss. signed_by K (buildVoteSignBytesFromQC q (sig_keyID s) (sig_timestamp s)) (sig_keyID s))
    \<and> cache_sound C K c'"
  using assms(2,3)
proof (induction ss arbitrary: i seen c)
  case (Cons s ss)
  let ?sb = "buildVoteSignBytesFromQC q (sig_keyID s) (sig_timestamp s)"
  obtain pk where ne: "sig_keyID s \<notin> set seen" and pk: "cr_GetPublicKey K (sig_keyID s) = Some pk"
    using Cons.prems(2) by (auto simp: Let_def split: if_splits option.splits)
  show ?case
  proof (cases "ca_get C c (getSigCacheKey ?sb (sig_keyID s)) = Some True")
    case True
    then have "signed_by K ?sb (sig_keyID s)"
      using Cons.prems(1) by (simp add: cache_sound_def)
    moreover have "verifyQCSigs C K q (Suc i) (sig_keyID s # seen) ss c = (None, c')"
      using Cons.prems(2) ne pk True by (simp add: Let_def split: if_splits)
    ultimately show ?thesis
      using Cons.IH [OF Cons.prems(1)] ne by fastforce
  next
    case False
    then have ok: "signed_by K ?sb (sig_keyID s)"
      and "verifyQCSigs C K q (Suc i) (sig_keyID s # seen) ss
        (ca_add C (getSigCacheKey ?sb (sig_keyID s)) True c) = (None, c')"
      using Cons.prems(2) ne pk by (auto simp: Let_def signed_by_def split: if_splits)
    then show ?thesis
      using Cons.IH [OF cache_sound_add [OF assms(1) Cons.prems(1) ok]] ne by fastforce
  qed
qed simp

text \<open>
  The encoder's certificate check is sound with its cache: an accepted certificate has a
  quorum of distinct signers, and for each of them the crypto service has accepted a signature,
  under that signer's key, of exactly the canonical bytes of the signer's vote for the
  certificate's view, height, round and block.
\<close>

theorem encoder_VerifyQC_sound:
  assumes "cache_law C" and "cache_sound C K (en_verifySigCache e)"
    and "encoder_VerifyQC C K (Some q) e = (None, e')"
  shows "distinct (map sig_keyID (qc_signatures q))
    \<and> quorumThreshold e \<le> int (card (sig_keyID ` set (qc_signatures q)))
    \<and> list_all (\<lambda>s. \<exists>v. signed_by K (vote_SignBytes v) (sig_keyID s) \<and> v_voterID v = sig_keyID s
        \<and> v_view v = qc_view q \<and> v_height v = qc_height q \<and> v_round v = qc_round q
        \<and> v_blockHash v = qc_blockHash q) (qc_signatures q)
    \<and> cache_sound C K (en_verifySigCache e')"
proof -
  obtain c where c: "verifyQCSigs C K q 0 [] (qc_signatures q) (en_verifySigCache e) = (None, c)"
    and e': "e' = e\<lparr>en_verifySigCache := c\<rparr>"
    and len: "quorumThreshold e \<le> int (length (qc_signatures q))"
    using assms(3) by (auto simp: encoder_VerifyQC_def Let_def split: if_splits prod.splits)
  note sound = verifyQCSigs_sound [OF assms(1,2) c]
  have "\<exists>v. signed_by K (vote_SignBytes v) (sig_keyID s) \<and> v_voterID v = sig_keyID s
        \<and> v_view v = qc_view q \<and> v_height v = qc_height q \<and> v_round v = qc_round q
        \<and> v_blockHash v = qc_blockHash q" if "s \<in> set (qc_signatures q)" for s
  proof -
    let ?v = "\<lparr>v_view = qc_view q, v_height = qc_height q, v_round = qc_round q,
      v_blockHash = qc_blockHash q, v_voterID = sig_keyID s, v_timestamp = sig_timestamp s,
      v_signature = s\<rparr>"
    have "vote_SignBytes ?v = buildVoteSignBytesFromQC q (sig_keyID s) (sig_timestamp s)"
      by (simp add: vote_SignBytes_def buildVoteSignBytesFromQC_def)
    with that sound show ?thesis
      by (intro exI [of _ ?v]) simp
  qed
  then show ?thesis
    using sound len e' distinct_card [of "map sig_keyID (qc_signatures q)"]
    by (auto simp: list_all_iff)
qed

definition ex_cache :: "(bytes \<times> bool) list sigCache" where
  "ex_cache = \<lparr>ca_get = map_of, ca_add = AList.update, ca_purge = (\<lambda>c. []), ca_empty = []\<rparr>"

definition ex_crypto :: crypto where
  "ex_crypto = \<lparr>cr_GetPublicKey = (\<lambda>k. if k < 4 then Some [9] else None),
     cr_Verify = (\<lambda>sb sig pk old. sig = [1])\<rparr>"

definition ex_encoder :: "(bytes \<times> bool) list encoder" where
  "ex_encoder = SetValidatorSet (Some 4) (NewEncoder ex_cache DefaultEncoderConfig)"

lemma ex_cache_law: "cache_law ex_cache"
  by (auto simp: cache_law_def ex_cache_def update_conv' split: if_splits)

lemma ex_encoder_sound: "cache_sound ex_cache K (en_verifySigCache ex_encoder)"
  using cache_sound_empty [OF ex_cache_law]
  by (simp add: ex_encoder_def SetValidatorSet_def NewEncoder_def DefaultEncoderConfig_def
    second_def millisecond_def)

lemmas ex_encoding_simps = ex_encoder_def ex_cache_def ex_crypto_def SetValidatorSet_def
  NewEncoder_def DefaultEncoderConfig_def second_def millisecond_def ex_quorum_simps

theorem encoder_VerifyQC_sound_witness:
  "distinct (map sig_keyID (qc_signatures (qc_body (ex_qc [ex_sig 0, ex_sig 1, ex_sig 2]))))
   \<and> quorumThreshold ex_encoder
      \<le> int (card (sig_keyID ` set (qc_signatures (qc_body (ex_qc [ex_sig 0, ex_sig 1, ex_sig 2])))))"
proof -
  let ?q = "qc_body (ex_qc [ex_sig 0, ex_sig 1, ex_sig 2])"
  obtain e' where "encoder_VerifyQC ex_cache ex_crypto (Some ?q) ex_encoder = (None, e')"
    by (simp add: encoder_VerifyQC_def quorumThreshold_def Let_def ex_encoding_simps
      getSigCacheKey_def buildVoteSignBytesFromQC_def update_conv')
  from encoder_VerifyQC_sound [OF ex_cache_law ex_encoder_sound this] show ?thesis
    by blast
qed

subsection \<open>Incoming messages\<close>

definition hash_cache_sound :: "(bytes \<Rightarrow> hash32) \<Rightarrow> 'c sigCache \<Rightarrow> crypto \<Rightarrow> 'c \<Rightarrow> bool" where
  "hash_cache_sound sha256 C K c \<longleftrightarrow>
     (\<forall>h k. ca_get C c (getCacheKey h k) = Some True \<longrightarrow> (\<exists>sb. sha256 sb = h \<and> signed_by K sb k))"

lemma hash_cache_sound_add:
  "cache_law C \<Longrightarrow> hash_cache_sound sha256 C K c \<Longrightarrow> signed_by K sb k \<Longrightarrow>
    hash_cache_sound sha256 C K (ca_add C (getCacheKey (sha256 sb) k) True c)"
  by (auto simp: cache_law_def hash_cache_sound_def) (metis getCacheKey_inject)

lemma verifyMessage_sound:
  assumes "cache_law C" and "cache_sound C K (en_verifySigCache e)"
    and "hash_cache_sound sha256 C K (en_verifyCache e)"
    and "verifyMessage sha256 C K msg e = (None, e')"
  shows "(\<exists>sb. sha256 sb = message_Hash sha256 msg \<and> signed_by K sb (snd (extractSignature msg)))
    \<and> cache_sound C K (en_verifySigCache e') \<and> hash_cache_sound sha256 C K (en_verifyCache e')
    \<and> en_config e' = en_config e"
proof -
  obtain sig k where k: "extractSignature msg = (sig, k)" by (cases "extractSignature msg")
  let ?sb = "message_SignBytes sha256 msg"
  consider (hash) "ca_get C (en_verifyCache e) (getCacheKey (message_Hash sha256 msg) k) = Some True" "e' = e"
    | (sig) "ca_get C (en_verifySigCache e) (getSigCacheKey ?sb k) = Some True" "e' = e"
    | (fresh) "signed_by K ?sb k"
        "e' = e\<lparr>en_verifyCache := ca_add C (getCacheKey (message_Hash sha256 msg) k) True (en_verifyCache e),
              en_verifySigCache :=
                (if ?sb \<noteq> [] then ca_add C (getSigCacheKey ?sb k) True (en_verifySigCache e)
                 else en_verifySigCache e)\<rparr>"
    using assms(4) k
    by (auto simp: verifyMessage_def Let_def signed_by_def split: if_splits option.splits)
  then show ?thesis
  proof cases
    case hash
    then show ?thesis using assms(2,3) k by (auto simp: hash_cache_sound_def)
  next
    case sig
    then have "signed_by K ?sb k" using assms(2) by (simp add: cache_sound_def)
    then show ?thesis using assms(2,3) sig k by (auto simp: message_Hash_def)
  next
    case fresh
    then show ?thesis
      using cache_sound_add [OF assms(1,2) fresh(1)] hash_cache_sound_add [OF assms(1,3) fresh(1)]
        assms(2) k by (auto simp: message_Hash_def)
  qed
qed

text \<open>
  An incoming message that passes \<^verbatim>\<open>VerifyAndDecode\<close> is within the size limit of
  its type, fresh (not older than the maximal age, not further in the future than the skew), and
  bytes with its content hash have been signed by the key its signature names.
\<close>

theorem VerifyAndDecode_authentic:
  assumes "cache_law C" and "cache_sound C K (en_verifySigCache e)"
    and "hash_cache_sound sha256 C K (en_verifyCache e)"
    and "VerifyAndDecode unmarshal sha256 C K now data t e = (Inr msg, e')"
  shows "int (length data) \<le> getMaxSize (en_config e) t
    \<and> (\<exists>sb. sha256 sb = message_Hash sha256 msg \<and> signed_by K sb (snd (extractSignature msg)))
    \<and> checkTimestamp (en_config e) now msg = None
    \<and> cache_sound C K (en_verifySigCache e') \<and> hash_cache_sound sha256 C K (en_verifyCache e')"
proof -
  obtain e1 where "verifyMessage sha256 C K msg e = (None, e1)" "e' = e1"
    and "checkTimestamp (en_config e1) now msg = None"
    and "int (length data) \<le> getMaxSize (en_config e) t"
    using assms(4) by (auto simp: VerifyAndDecode_def split: if_splits option.splits prod.splits)
  then show ?thesis
    using verifyMessage_sound [OF assms(1-3)] by force
qed

lemma checkTimestamp_bounds:
  assumes "checkTimestamp cfg now msg = None" and "ec_RejectFutureMessages cfg"
    and "\<not> isGenesis msg" and "ec_MaxMessageAge cfg > 0"
  shows "message_timestamp msg \<in> {now - ec_MaxMessageAge cfg .. now + ec_ClockSkewTolerance cfg}"
  using assms by (auto simp: checkTimestamp_def Let_def split: if_splits)

theorem VerifyAndDecode_authentic_witness:
  "int (length [7 :: byte]) \<le> getMaxSize (en_config ex_encoder) MessageTypeVote
    \<and> (\<exists>sb. (\<lambda>_. 0) sb = message_Hash (\<lambda>_. 0) (MsgVote (ex_vote 1))
        \<and> signed_by ex_crypto sb (snd (extractSignature (MsgVote (ex_vote 1)))))"
proof -
  have h: "hash_cache_sound (\<lambda>_. 0) ex_cache ex_crypto (en_verifyCache ex_encoder)"
    by (simp add: hash_cache_sound_def ex_encoding_simps)
  obtain e' where "VerifyAndDecode (\<lambda>d t. Some (MsgVote (ex_vote 1))) (\<lambda>_. 0) ex_cache ex_crypto 0 [7]
      MessageTypeVote ex_encoder = (Inr (MsgVote (ex_vote 1)), e')"
    by (simp add: VerifyAndDecode_def verifyMessage_def checkTimestamp_def isGenesis_def Let_def
      ex_encoding_simps ex_vote_def vote_SignBytes_def domain_prefix_def)
  from VerifyAndDecode_authentic [OF ex_cache_law ex_encoder_sound h this] show ?thesis
    by blast
qed

end
