(* ===== verification/Rotation.thy ===== *)
theory Rotation
  imports Quorum
begin

text \<open>
  Leader rotation, \<^verbatim>\<open>backend/pkg/consensus/leader/rotation.go\<close> and
  \<^verbatim>\<open>rotation_eligibility.go\<close>. The validator set, the quarantine manager and the readiness
  oracle are interfaces and appear as arguments. Reputations and ratios are \<^verbatim>\<open>float64\<close>
  in the code and only compared; they are rational numbers here.

  Lemmas: the sort makes the choice independent of the order of the validator list, the chosen
  leader is one of the eligible validators, every eligible validator leads once in as many
  consecutive views as there are eligible validators, and what selection does not look at.
\<close>

record rotationConfig =
  rc_MinReputation :: rat
  rc_EnableQuarantine :: bool
  rc_EnableReputation :: bool
  rc_SelectionSeed :: u64
  rc_FallbackToAll :: bool
  rc_MaxQuarantinedRatio :: rat
  rc_AuditSelections :: bool

definition DefaultRotationConfig :: rotationConfig where
  "DefaultRotationConfig = \<lparr>rc_MinReputation = 7 / 10, rc_EnableQuarantine = True,
     rc_EnableReputation = True, rc_SelectionSeed = 0, rc_FallbackToAll = True,
     rc_MaxQuarantinedRatio = 33 / 100, rc_AuditSelections = True\<rparr>"

record quarantineManager =
  qm_isQuarantined :: "validatorID \<Rightarrow> bool"
  qm_count :: int

definition noopQuarantine :: quarantineManager where
  "noopQuarantine = \<lparr>qm_isQuarantined = (\<lambda>_. False), qm_count = 0\<rparr>"

record rotation =
  ro_validatorSet :: validatorSet
  ro_quarantine :: quarantineManager
  ro_config :: rotationConfig
  ro_readiness :: "(validatorID \<Rightarrow> bool) option"

datatype rotation_error =
    NoValidatorsInSet
  | ExcessiveQuarantineRatio rat rat
  | NoValidatorsReady u64
  | FallbackDisabled
  | NoActiveValidators
  | ValidatorSetEmpty
  | InsufficientEligible int int int int

subsection \<open>Selection\<close>

text \<open>The comparison of \<^verbatim>\<open>sortValidatorsDeterministic\<close>; \<^verbatim>\<open>ID[0]\<close> is the top byte.\<close>

definition validatorLess :: "validatorInfo \<Rightarrow> validatorInfo \<Rightarrow> bool" where
  "validatorLess a b =
     (if vi_ID a \<noteq> vi_ID b then vi_ID a < vi_ID b
      else if vi_joinedView a \<noteq> vi_joinedView b then vi_joinedView a < vi_joinedView b
      else if vi_reputation a \<noteq> vi_reputation b then vi_reputation a > vi_reputation b
      else if vi_isActive a \<noteq> vi_isActive b then vi_isActive a
      else drop_bit 248 (vi_ID a) < drop_bit 248 (vi_ID b))"

definition sortValidatorsDeterministic :: "validatorInfo list \<Rightarrow> validatorInfo list" where
  "sortValidatorsDeterministic = sliceStable validatorLess"

text \<open>
  \<open>filterEligible\<close>: \<^verbatim>\<open>enforceReadiness\<close> is only true when an oracle is set, so the
  nil oracle of the \<open>None\<close> case is never consulted.
\<close>

definition filterEligible ::
    "rotation \<Rightarrow> validatorInfo list \<Rightarrow> u64 \<Rightarrow> bool \<Rightarrow> validatorInfo list" where
  "filterEligible r validators view enforceReadiness =
     filter (\<lambda>v. vi_isActive v \<and> \<not> vi_joinedView v > view
       \<and> \<not> (rc_EnableReputation (ro_config r)
             \<and> vi_reputation v < rc_MinReputation (ro_config r))
       \<and> \<not> (enforceReadiness \<and> \<not> (case ro_readiness r of None \<Rightarrow> False | Some ready \<Rightarrow> ready (vi_ID v))))
     validators"

fun findNextReadyLoop ::
    "(validatorID \<Rightarrow> bool) \<Rightarrow> validatorInfo list \<Rightarrow> nat \<Rightarrow> u64 \<Rightarrow> nat list \<Rightarrow> validatorInfo option" where
  "findNextReadyLoop ready vs start view [] = None"
| "findNextReadyLoop ready vs start view (off # offs) =
     (let c = vs ! ((start + off) mod length vs) in
      if vi_isActive c \<and> \<not> vi_joinedView c > view \<and> ready (vi_ID c) then Some c
      else findNextReadyLoop ready vs start view offs)"

definition findNextReadyLeader ::
    "rotation \<Rightarrow> validatorInfo list \<Rightarrow> nat \<Rightarrow> u64 \<Rightarrow> validatorInfo option" where
  "findNextReadyLeader r validators startIndex view =
     (case ro_readiness r of
        None \<Rightarrow> None
      | Some ready \<Rightarrow>
          if length validators \<le> 1 then None
          else findNextReadyLoop ready validators startIndex view [1..<length validators])"

definition selectIndex :: "rotation \<Rightarrow> u64 \<Rightarrow> nat \<Rightarrow> nat" where
  "selectIndex r view cnt = unat ((view + rc_SelectionSeed (ro_config r)) mod of_nat cnt)"

definition handleNoEligible ::
    "rotation \<Rightarrow> validatorInfo list \<Rightarrow> u64 \<Rightarrow> bool \<Rightarrow> rotation_error + validatorInfo" where
  "handleNoEligible r allValidators view enforceReadiness =
     (let cfg = ro_config r;
          ratio = of_int (qm_count (ro_quarantine r)) / of_nat (length allValidators);
          active = filter (\<lambda>v. vi_isActive v \<and> vi_joinedView v \<le> view) allValidators;
          joined = filter (\<lambda>v. vi_joinedView v \<le> view) allValidators in
      if ratio > rc_MaxQuarantinedRatio cfg
      then Inl (ExcessiveQuarantineRatio ratio (rc_MaxQuarantinedRatio cfg))
      else if enforceReadiness then Inl (NoValidatorsReady view)
      else if \<not> rc_FallbackToAll cfg then Inl FallbackDisabled
      else if active = [] then
        (if joined = [] then Inl NoActiveValidators
         else Inr (sortValidatorsDeterministic joined ! selectIndex r view (length joined)))
      else Inr (sortValidatorsDeterministic active ! selectIndex r view (length active)))"

definition SelectLeader :: "rotation \<Rightarrow> u64 \<Rightarrow> rotation_error + validatorInfo" where
  "SelectLeader r view =
     (let allValidators = getValidators (ro_validatorSet r);
          eligible = filterEligible r allValidators view False;
          ordered = sortValidatorsDeterministic eligible in
      if allValidators = [] then Inl NoValidatorsInSet
      else if eligible = [] then handleNoEligible r allValidators view False
      else Inr (ordered ! unat (view mod of_nat (length ordered))))"

definition GetLeaderForView :: "rotation \<Rightarrow> u64 \<Rightarrow> rotation_error + validatorID" where
  "GetLeaderForView r view = (case SelectLeader r view of Inl e \<Rightarrow> Inl e | Inr l \<Rightarrow> Inr (vi_ID l))"

definition IsLeader :: "rotation \<Rightarrow> validatorID \<Rightarrow> u64 \<Rightarrow> rotation_error + bool" where
  "IsLeader r i view = (case GetLeaderForView r view of Inl e \<Rightarrow> Inl e | Inr l \<Rightarrow> Inr (l = i))"

definition GetEligibleCount :: "rotation \<Rightarrow> u64 \<Rightarrow> int" where
  "GetEligibleCount r view =
     int (length (filterEligible r (getValidators (ro_validatorSet r)) view
       (ro_readiness r \<noteq> None \<and> view > 0)))"

definition ValidateRotation :: "rotation \<Rightarrow> rotation_error option" where
  "ValidateRotation r =
     (let n = getValidatorCount (ro_validatorSet r); f = go_div (n - 1) 3; minRequired = 2 * f + 1;
          eligibleCount = GetEligibleCount r 0 in
      if n = 0 then Some ValidatorSetEmpty
      else if eligibleCount < minRequired
      then Some (InsufficientEligible eligibleCount minRequired n f)
      else None)"

definition SetReadinessOracle :: "(validatorID \<Rightarrow> bool) option \<Rightarrow> rotation \<Rightarrow> rotation" where
  "SetReadinessOracle oracle r = r\<lparr>ro_readiness := oracle\<rparr>"

definition UpdateConfig :: "rotationConfig \<Rightarrow> rotation \<Rightarrow> rotation" where
  "UpdateConfig cfg r = r\<lparr>ro_config := cfg\<rparr>"

subsection \<open>Eligibility to propose\<close>

datatype ineligible_reason =
  NotInSet | Inactive | JoinedLater u64 u64 | Quarantined | LowReputation rat rat | NotReady

definition IsLeaderEligibleToPropose ::
    "rotation \<Rightarrow> validatorID \<Rightarrow> u64 \<Rightarrow> ineligible_reason option" where
  "IsLeaderEligibleToPropose r i view =
     (case find (\<lambda>v. vi_ID v = i) (getValidators (ro_validatorSet r)) of
        None \<Rightarrow> Some NotInSet
      | Some v \<Rightarrow>
          if \<not> vi_isActive v then Some Inactive
          else if vi_joinedView v > view then Some (JoinedLater (vi_joinedView v) view)
          else if rc_EnableQuarantine (ro_config r) \<and> qm_isQuarantined (ro_quarantine r) (vi_ID v)
          then Some Quarantined
          else if rc_EnableReputation (ro_config r)
            \<and> vi_reputation v < rc_MinReputation (ro_config r)
          then Some (LowReputation (vi_reputation v) (rc_MinReputation (ro_config r)))
          else (case ro_readiness r of
                  None \<Rightarrow> None
                | Some ready \<Rightarrow> if view > 0 \<and> \<not> ready (vi_ID v) then Some NotReady else None))"

record eligibilityStatus =
  es_View :: u64
  es_LeaderID :: validatorID
  es_Eligible :: bool
  es_Reason :: "ineligible_reason option"
  es_Reputation :: rat
  es_IsActive :: bool
  es_JoinedView :: u64

definition GetLeaderEligibilityStatus :: "rotation \<Rightarrow> u64 \<Rightarrow> rotation_error + eligibilityStatus" where
  "GetLeaderEligibilityStatus r view =
     (case SelectLeader r view of
        Inl e \<Rightarrow> Inl e
      | Inr l \<Rightarrow>
          let reason = IsLeaderEligibleToPropose r (vi_ID l) view in
          Inr \<lparr>es_View = view, es_LeaderID = vi_ID l, es_Eligible = (reason = None),
               es_Reason = reason, es_Reputation = vi_reputation l, es_IsActive = vi_isActive l,
               es_JoinedView = vi_joinedView l\<rparr>)"

subsection \<open>Lemmas\<close>

lemma sortValidators_key:
  "distinct (map vi_ID vs) \<Longrightarrow> sortValidatorsDeterministic vs = sort_key vi_ID vs"
  unfolding sortValidatorsDeterministic_def
  by (rule sliceStable_key) (auto simp: validatorLess_def)

lemma find_unique:
  assumes "x \<in> set xs" and "distinct (map f xs)"
  shows "find (\<lambda>y. f y = f x) xs = Some x"
  using assms by (induction xs) (auto simp: rev_image_eqI)

lemma sortValidators_perm:
  assumes "mset xs = mset ys" and "distinct (map vi_ID xs)"
  shows "sortValidatorsDeterministic (filter P xs) = sortValidatorsDeterministic (filter P ys)"
proof -
  have ys: "distinct (map vi_ID ys)"
    using assms by (metis mset_eq_imp_distinct_iff mset_map)
  have "mset (filter P xs) = mset (filter P ys)"
    using assms(1) by simp
  then have "sort_key vi_ID (filter P xs) = sort_key vi_ID (filter P ys)"
    by (rule sort_key_perm) (simp add: assms(2) distinct_map_filter)
  then show ?thesis
    using assms(2) ys by (simp add: sortValidators_key distinct_map_filter)
qed

lemma set_sortValidators [simp]: "set (sortValidatorsDeterministic vs) = set vs"
  by (simp add: sortValidatorsDeterministic_def)

lemma length_sortValidators [simp]: "length (sortValidatorsDeterministic vs) = length vs"
  by (simp add: sortValidatorsDeterministic_def)

lemma filter_perm_length: "mset xs = mset ys \<Longrightarrow> length (filter P xs) = length (filter P ys)"
  by (metis mset_eq_length mset_filter)

lemma filter_perm_Nil: "mset xs = mset ys \<Longrightarrow> (filter P xs = []) = (filter P ys = [])"
  by (metis filter_perm_length length_0_conv)

lemma handleNoEligible_perm:
  assumes "mset xs = mset ys" and "distinct (map vi_ID xs)"
  shows "handleNoEligible r xs view b = handleNoEligible r ys view b"
  unfolding handleNoEligible_def Let_def
  by (simp only: filter_perm_length [OF assms(1)] filter_perm_Nil [OF assms(1)]
    sortValidators_perm [OF assms] mset_eq_length [OF assms(1)])

text \<open>
  Leader election is deterministic across replicas: two nodes whose validator sets hold the
  same validators (with distinct IDs), in whatever order, elect the same leader for a view, on
  the normal and on the fallback path.
\<close>

theorem SelectLeader_order_independent:
  assumes "mset (getValidators (ro_validatorSet r)) = mset (getValidators vs')"
    and "distinct (map vi_ID (getValidators (ro_validatorSet r)))"
  shows "SelectLeader (r\<lparr>ro_validatorSet := vs'\<rparr>) view = SelectLeader r view"
proof -
  have nil: "(getValidators vs' = []) = (getValidators (ro_validatorSet r) = [])"
    using assms(1) by (metis mset_zero_iff)
  have "handleNoEligible (r\<lparr>ro_validatorSet := vs'\<rparr>) xs view False = handleNoEligible r xs view False"
    for xs by (simp add: handleNoEligible_def selectIndex_def Let_def)
  then show ?thesis
    unfolding SelectLeader_def filterEligible_def Let_def
    using nil sortValidators_perm [OF assms] filter_perm_Nil [OF assms(1)]
      filter_perm_length [OF assms(1)] handleNoEligible_perm [OF assms] by simp
qed

definition ex_val :: "validatorID \<Rightarrow> validatorInfo" where
  "ex_val i = \<lparr>vi_ID = i, vi_publicKey = [], vi_reputation = 1, vi_isActive = True, vi_joinedView = 0\<rparr>"

definition ex_vset :: "validatorInfo list \<Rightarrow> validatorSet" where
  "ex_vset xs = \<lparr>getValidators = xs, getValidatorCount = int (length xs),
     isValidator = (\<lambda>i. i \<in> vi_ID ` set xs), isActiveInView = (\<lambda>i v. i \<in> vi_ID ` set xs)\<rparr>"

definition ex_rotation :: "validatorInfo list \<Rightarrow> rotation" where
  "ex_rotation xs = \<lparr>ro_validatorSet = ex_vset xs,
     ro_quarantine = \<lparr>qm_isQuarantined = (\<lambda>i. i = 2), qm_count = 1\<rparr>,
     ro_config = DefaultRotationConfig, ro_readiness = None\<rparr>"

lemmas ex_rotation_simps = ex_rotation_def ex_vset_def ex_val_def DefaultRotationConfig_def

theorem SelectLeader_order_independent_witness:
  "SelectLeader ((ex_rotation [ex_val 3, ex_val 1, ex_val 2])
     \<lparr>ro_validatorSet := ex_vset [ex_val 1, ex_val 2, ex_val 3]\<rparr>) 7
   = SelectLeader (ex_rotation [ex_val 3, ex_val 1, ex_val 2]) 7"
  by (rule SelectLeader_order_independent) (simp_all add: ex_rotation_simps)

lemma filterEligible_length: "length (filterEligible r vs view b) \<le> length vs"
  by (simp add: filterEligible_def)

lemma unat_mod_of_nat: "n < 2 ^ 64 \<Longrightarrow> unat ((x :: u64) mod of_nat n) = unat x mod n"
  by (simp add: unat_mod unsigned_of_nat take_bit_nat_eq_self)

lemma SelectLeader_eligible:
  assumes "es = filterEligible r (getValidators (ro_validatorSet r)) view False" and "es \<noteq> []"
    and "length (getValidators (ro_validatorSet r)) < 2 ^ 64"
  shows "SelectLeader r view = Inr (sortValidatorsDeterministic es ! (unat view mod length es))"
proof -
  have "getValidators (ro_validatorSet r) \<noteq> []"
    using assms(1,2) by (auto simp: filterEligible_def)
  moreover have "length es < 2 ^ 64"
    using filterEligible_length [of r "getValidators (ro_validatorSet r)" view False] assms(1,3)
    by (metis le_less_trans)
  ultimately show ?thesis
    using assms(1,2) by (simp add: SelectLeader_def Let_def unat_mod_of_nat)
qed

lemma SelectLeader_mem:
  assumes "es = filterEligible r (getValidators (ro_validatorSet r)) view False" and "es \<noteq> []"
    and "length (getValidators (ro_validatorSet r)) < 2 ^ 64"
    and "SelectLeader r view = Inr l"
  shows "l \<in> set es"
proof -
  have "unat view mod length es < length (sortValidatorsDeterministic es)"
    using assms(2) by simp
  moreover have "l = sortValidatorsDeterministic es ! (unat view mod length es)"
    using SelectLeader_eligible [OF assms(1-3)] assms(4) by simp
  ultimately have "l \<in> set (sortValidatorsDeterministic es)"
    by (metis nth_mem)
  then show ?thesis by simp
qed

lemma window_nth: "xs \<noteq> [] \<Longrightarrow> map (\<lambda>i. xs ! ((k + i) mod length xs)) [0..<length xs] = rotate k xs"
  by (rule nth_equalityI) (simp_all add: nth_rotate)

lemma mset_rotate_perm: "mset (rotate k xs) = mset xs"
proof (induction k)
  case (Suc k)
  have "mset (rotate1 ys) = mset ys" for ys :: "'a list"
    by (cases ys) simp_all
  with Suc show ?case by simp
qed simp

text \<open>
  Rotation is fair: while the eligible validators stay \<open>es\<close>, any \<open>length es\<close> consecutive
  views (that do not run past the largest view number) elect each of them exactly once.
\<close>

theorem SelectLeader_fair:
  assumes "es \<noteq> []" and "length (getValidators (ro_validatorSet r)) < 2 ^ 64"
    and "unat view + length es \<le> 2 ^ 64"
    and "\<And>i. i < length es \<Longrightarrow>
      filterEligible r (getValidators (ro_validatorSet r)) (view + of_nat i) False = es"
  shows "mset (map (\<lambda>i. SelectLeader r (view + of_nat i)) [0..<length es]) = mset (map Inr es)"
proof -
  let ?s = "sortValidatorsDeterministic es"
  have "SelectLeader r (view + of_nat i) = Inr (?s ! ((unat view + i) mod length ?s))"
    if "i < length es" for i
  proof -
    have "unat (view + of_nat i) = unat view + i"
      using assms(3) that by (simp add: unat_word_ariths unsigned_of_nat take_bit_nat_eq_self)
    then show ?thesis
      using SelectLeader_eligible [OF assms(4) [OF that, symmetric] assms(1,2)] by simp
  qed
  then have "map (\<lambda>i. SelectLeader r (view + of_nat i)) [0..<length es]
      = map Inr (map (\<lambda>i. ?s ! ((unat view + i) mod length ?s)) [0..<length ?s])"
    by simp
  also have "\<dots> = map Inr (rotate (unat view) ?s)"
    using assms(1) by (subst window_nth) (simp_all add: sortValidatorsDeterministic_def)
  finally show ?thesis
    by (simp add: sortValidatorsDeterministic_def mset_rotate_perm)
qed

theorem SelectLeader_fair_witness:
  "mset (map (\<lambda>i. SelectLeader (ex_rotation [ex_val 3, ex_val 1, ex_val 2]) (5 + of_nat i))
      [0..<length [ex_val 3, ex_val 1, ex_val 2]])
   = mset (map Inr [ex_val 3, ex_val 1, ex_val 2])"
  by (rule SelectLeader_fair) (simp_all add: ex_rotation_simps filterEligible_def)

text \<open>
  An elected leader (outside the fallback) can be refused the right to propose for two
  reasons only, quarantine and readiness, the two conditions \<^verbatim>\<open>SelectLeader\<close> does not
  look at.
\<close>

theorem SelectLeader_refused_only_for:
  assumes "filterEligible r (getValidators (ro_validatorSet r)) view False \<noteq> []"
    and "length (getValidators (ro_validatorSet r)) < 2 ^ 64"
    and "distinct (map vi_ID (getValidators (ro_validatorSet r)))"
    and "SelectLeader r view = Inr l"
  shows "IsLeaderEligibleToPropose r (vi_ID l) view \<in> {None, Some Quarantined, Some NotReady}"
proof -
  have l: "l \<in> set (filterEligible r (getValidators (ro_validatorSet r)) view False)"
    using SelectLeader_mem [OF refl assms(1,2,4)] .
  have "find (\<lambda>v. vi_ID v = vi_ID l) (getValidators (ro_validatorSet r)) = Some l"
  proof (rule find_unique)
    show "l \<in> set (getValidators (ro_validatorSet r))"
      using l by (simp add: filterEligible_def)
  qed (use assms(3) in simp_all)
  then show ?thesis
    using l by (auto simp: IsLeaderEligibleToPropose_def filterEligible_def split: option.splits)
qed

theorem SelectLeader_refused_only_for_witness:
  "IsLeaderEligibleToPropose (ex_rotation [ex_val 1, ex_val 2]) (vi_ID (ex_val 2)) 1
     \<in> {None, Some Quarantined, Some NotReady}
   \<and> IsLeaderEligibleToPropose (ex_rotation [ex_val 1, ex_val 2]) 2 1 = Some Quarantined"
proof
  show "IsLeaderEligibleToPropose (ex_rotation [ex_val 1, ex_val 2]) (vi_ID (ex_val 2)) 1
     \<in> {None, Some Quarantined, Some NotReady}"
    by (rule SelectLeader_refused_only_for)
      (simp_all add: ex_rotation_simps filterEligible_def SelectLeader_def
        sortValidatorsDeterministic_def sliceStable_def validatorLess_def)
qed (simp add: ex_rotation_simps IsLeaderEligibleToPropose_def)

end
