(* ===== verification/Validation.thy ===== *)
theory Validation
  imports Encoding Rotation
begin

text \<open>
  The message validator, \<^verbatim>\<open>backend/pkg/consensus/messages/validation.go\<close>, with the
  adapters of \<^verbatim>\<open>api/adapters.go\<close> and \<^verbatim>\<open>api/validator_adapter.go\<close>. The
  validator reads the pacemaker's view and height and keeps the set of message hashes it has
  seen; \<open>va_enforceActive\<close> is the environment switch \<^verbatim>\<open>CONSENSUS_ENFORCE_ACTIVE_SIGNERS\<close>.

  Lemmas: what an accepted proposal, vote, certificate and new-view message satisfies, that
  nothing is accepted twice, and what validation does not look at.
\<close>

subsection \<open>State\<close>

record validationConfig =
  vf_MaxViewJump :: u64
  vf_MaxHeightJump :: u64
  vf_RequireJustifyQC :: bool
  vf_StrictMonotonicity :: bool
  vf_MinQuorumSize :: int
  vf_MaxQuorumSize :: int
  vf_AllowSelfVoting :: bool
  vf_MaxViewChangeProofs :: int
  vf_MaxEvidenceAge :: duration

definition DefaultValidationConfig :: validationConfig where
  "DefaultValidationConfig = \<lparr>vf_MaxViewJump = 100, vf_MaxHeightJump = 10,
     vf_RequireJustifyQC = True, vf_StrictMonotonicity = True, vf_MinQuorumSize = 1,
     vf_MaxQuorumSize = 10000, vf_AllowSelfVoting = True, vf_MaxViewChangeProofs = 1000,
     vf_MaxEvidenceAge = 86400 * second\<rparr>"

record 'c validatorEnv =
  va_set :: validatorSet
  va_leader :: "u64 \<Rightarrow> validatorID option"
  va_config :: validationConfig
  va_enforceActive :: bool
  va_bootstrap :: "hash32 \<Rightarrow> u64 \<Rightarrow> bool"
  va_sha256 :: "bytes \<Rightarrow> hash32"
  va_cache :: "'c sigCache"
  va_crypto :: crypto

record 'c validatorState =
  vs_currentView :: u64
  vs_currentHeight :: u64
  vs_seen :: "hash32 list"
  vs_encoder :: "'c encoder"

datatype validation_error =
    Duplicate
  | NotValidator validatorID
  | NotActive validatorID u64
  | LeaderUnknown u64
  | WrongLeader validatorID u64
  | ViewRegression u64 u64
  | ViewJump u64 u64
  | HeightRegression u64 u64
  | HeightJump u64 u64
  | InvalidJustifyQC
  | JustifyParentMismatch
  | JustifyViewTooHigh u64 u64
  | MissingJustifyQC u64
  | SelfVoting validatorID
  | VoteTooOld u64
  | ValQCNil
  | ValQCBelowMin nat
  | ValQCAboveMax nat
  | ValQCBelowQuorum nat int
  | ValQCDuplicate validatorID
  | ValQCNonValidator nat validatorID
  | ValQCInactive nat validatorID
  | ValQCCrypto encoder_error
  | BadTransition u64 u64
  | InvalidHighestQC
  | HighestQCTooHigh u64 u64
  | NoProofs
  | TooManyProofs nat
  | ProofsBelowQuorum nat int
  | DuplicateSender validatorID
  | InvalidViewChange nat validation_error
  | WrongTarget nat u64
  | HighestQCWithoutProof
  | HighestQCMismatch
  | EvidenceTooOld
  | EmptyProof

definition HasSeenMessage :: "'c validatorState \<Rightarrow> hash32 \<Rightarrow> bool" where
  "HasSeenMessage s h = (h \<in> set (vs_seen s))"

definition MarkMessageSeen :: "hash32 \<Rightarrow> 'c validatorState \<Rightarrow> 'c validatorState" where
  "MarkMessageSeen h s = s\<lparr>vs_seen := List.insert h (vs_seen s)\<rparr>"

text \<open>\<^verbatim>\<open>validatorSetAdapter.GetLeaderForView\<close> asks the rotation.\<close>

definition adapterLeader :: "rotation \<Rightarrow> u64 \<Rightarrow> validatorID option" where
  "adapterLeader r view = (case GetLeaderForView r view of Inl e \<Rightarrow> None | Inr i \<Rightarrow> Some i)"

subsection \<open>Certificates\<close>

definition requiredQuorum :: "validatorSet \<Rightarrow> int" where
  "requiredQuorum V = (let f = go_div (getValidatorCount V - 1) 3 in 2 * f + 1)"

fun validateSigners ::
    "'c validatorEnv \<Rightarrow> u64 \<Rightarrow> nat \<Rightarrow> validatorID list \<Rightarrow> signature list \<Rightarrow> validation_error option" where
  "validateSigners A view i seen [] = None"
| "validateSigners A view i seen (s # ss) =
     (if sig_keyID s \<in> set seen then Some (ValQCDuplicate (sig_keyID s))
      else if \<not> isValidator (va_set A) (sig_keyID s) then Some (ValQCNonValidator i (sig_keyID s))
      else if \<not> isActiveInView (va_set A) (sig_keyID s) view \<and> va_enforceActive A
      then Some (ValQCInactive i (sig_keyID s))
      else validateSigners A view (Suc i) (sig_keyID s # seen) ss)"

definition ValidateQC ::
    "'c validatorEnv \<Rightarrow> qc_fields option \<Rightarrow> 'c validatorState
      \<Rightarrow> validation_error option \<times> 'c validatorState" where
  "ValidateQC A oq s =
     (case oq of
        None \<Rightarrow> (Some ValQCNil, s)
      | Some q \<Rightarrow>
          let sigCount = length (qc_signatures q) in
          if int sigCount < vf_MinQuorumSize (va_config A) then (Some (ValQCBelowMin sigCount), s)
          else if int sigCount > vf_MaxQuorumSize (va_config A) then (Some (ValQCAboveMax sigCount), s)
          else if int sigCount < requiredQuorum (va_set A)
          then (Some (ValQCBelowQuorum sigCount (requiredQuorum (va_set A))), s)
          else case validateSigners A (qc_view q) 0 [] (qc_signatures q) of
                 Some e \<Rightarrow> (Some e, s)
               | None \<Rightarrow>
                   (case encoder_VerifyQC (va_cache A) (va_crypto A) (Some q) (vs_encoder s) of
                      (Some e, enc) \<Rightarrow> (Some (ValQCCrypto e), s\<lparr>vs_encoder := enc\<rparr>)
                    | (None, enc) \<Rightarrow> (None, s\<lparr>vs_encoder := enc\<rparr>)))"

text \<open>\<^verbatim>\<open>validatorAdapter.ValidateQC\<close> rebuilds the certificate with round 0.\<close>

definition validatorAdapter_ValidateQC ::
    "'c validatorEnv \<Rightarrow> qc \<Rightarrow> 'c validatorState \<Rightarrow> validation_error option \<times> 'c validatorState" where
  "validatorAdapter_ValidateQC A q s = ValidateQC A (Some (adaptQC q)) s"

subsection \<open>Proposals and votes\<close>

text \<open>The checks on the justifying certificate.\<close>

definition validateJustify ::
    "'c validatorEnv \<Rightarrow> proposal \<Rightarrow> 'c validatorState
      \<Rightarrow> validation_error option \<times> 'c validatorState" where
  "validateJustify A p s =
     (case p_justifyQC p of
        Some q \<Rightarrow>
          (case ValidateQC A (Some q) s of
             (Some e, s) \<Rightarrow> (Some InvalidJustifyQC, s)
           | (None, s) \<Rightarrow>
               if qc_blockHash q \<noteq> p_parentHash p then (Some JustifyParentMismatch, s)
               else if qc_view q \<ge> p_view p then (Some (JustifyViewTooHigh (qc_view q) (p_view p)), s)
               else (None, s))
      | None \<Rightarrow>
          if vf_RequireJustifyQC (va_config A) \<and> p_height p > 1
             \<and> \<not> va_bootstrap A (p_parentHash p) (p_height p)
          then (Some (MissingJustifyQC (p_height p)), s)
          else (None, s))"

definition ValidateProposal ::
    "'c validatorEnv \<Rightarrow> proposal \<Rightarrow> 'c validatorState
      \<Rightarrow> validation_error option \<times> 'c validatorState" where
  "ValidateProposal A p s =
     (let V = va_set A; cfg = va_config A; h = proposal_Hash (va_sha256 A) p;
          currentView = vs_currentView s; currentHeight = vs_currentHeight s in
      if HasSeenMessage s h then (Some Duplicate, s)
      else if \<not> isValidator V (p_proposerID p) then (Some (NotValidator (p_proposerID p)), s)
      else if \<not> isActiveInView V (p_proposerID p) (p_view p)
      then (Some (NotActive (p_proposerID p) (p_view p)), s)
      else case va_leader A (p_view p) of
             None \<Rightarrow> (Some (LeaderUnknown (p_view p)), s)
           | Some expectedLeader \<Rightarrow>
               if p_proposerID p \<noteq> expectedLeader then (Some (WrongLeader expectedLeader (p_view p)), s)
               else if vf_StrictMonotonicity cfg \<and> p_view p < currentView
               then (Some (ViewRegression (p_view p) currentView), s)
               else if p_view p > currentView + vf_MaxViewJump cfg
               then (Some (ViewJump (p_view p) currentView), s)
               else if vf_StrictMonotonicity cfg \<and> p_height p < currentHeight
               then (Some (HeightRegression (p_height p) currentHeight), s)
               else if p_height p > currentHeight + vf_MaxHeightJump cfg
               then (Some (HeightJump (p_height p) currentHeight), s)
               else case validateJustify A p s of
                      (Some e, s) \<Rightarrow> (Some e, s)
                    | (None, s) \<Rightarrow> (None, MarkMessageSeen h s))"

definition ValidateVote ::
    "'c validatorEnv \<Rightarrow> vote \<Rightarrow> 'c validatorState \<Rightarrow> validation_error option \<times> 'c validatorState" where
  "ValidateVote A v s =
     (let V = va_set A; cfg = va_config A; h = vote_Hash (va_sha256 A) v;
          currentView = vs_currentView s;
          minView = (if currentView > vf_MaxViewJump cfg then currentView - vf_MaxViewJump cfg else 0) in
      if HasSeenMessage s h then (Some Duplicate, s)
      else if \<not> isValidator V (v_voterID v) then (Some (NotValidator (v_voterID v)), s)
      else if \<not> isActiveInView V (v_voterID v) (v_view v)
      then (Some (NotActive (v_voterID v) (v_view v)), s)
      else if \<not> vf_AllowSelfVoting cfg \<and> va_leader A (v_view v) = Some (v_voterID v)
      then (Some (SelfVoting (v_voterID v)), s)
      else if v_view v < minView then (Some (VoteTooOld (v_view v)), s)
      else if v_view v > currentView + vf_MaxViewJump cfg
      then (Some (ViewJump (v_view v) currentView), s)
      else (None, MarkMessageSeen h s))"

subsection \<open>View changes\<close>

definition ValidateViewChange ::
    "'c validatorEnv \<Rightarrow> viewChange \<Rightarrow> 'c validatorState
      \<Rightarrow> validation_error option \<times> 'c validatorState" where
  "ValidateViewChange A vc s =
     (let V = va_set A; h = viewChange_Hash (va_sha256 A) vc in
      if HasSeenMessage s h then (Some Duplicate, s)
      else if \<not> isValidator V (vc_senderID vc) then (Some (NotValidator (vc_senderID vc)), s)
      else if \<not> isActiveInView V (vc_senderID vc) (vc_oldView vc)
      then (Some (NotActive (vc_senderID vc) (vc_oldView vc)), s)
      else if vc_newView vc \<le> vc_oldView vc then (Some (BadTransition (vc_oldView vc) (vc_newView vc)), s)
      else if vc_newView vc > vc_oldView vc + vf_MaxViewJump (va_config A)
      then (Some (ViewJump (vc_newView vc) (vc_oldView vc)), s)
      else case vc_highestQC vc of
             None \<Rightarrow> (None, MarkMessageSeen h s)
           | Some q \<Rightarrow>
               (case ValidateQC A (Some q) s of
                  (Some e, s) \<Rightarrow> (Some InvalidHighestQC, s)
                | (None, s) \<Rightarrow>
                    if qc_view q > vc_oldView vc
                    then (Some (HighestQCTooHigh (qc_view q) (vc_oldView vc)), s)
                    else (None, MarkMessageSeen h s)))"

definition trackHighest :: "qc_fields option \<Rightarrow> qc_fields option \<Rightarrow> qc_fields option" where
  "trackHighest highest oq =
     (case oq of
        None \<Rightarrow> highest
      | Some q \<Rightarrow>
          (case highest of
             None \<Rightarrow> Some q
           | Some b \<Rightarrow> if qc_view q > qc_view b then Some q else highest))"

fun validateProofs ::
    "'c validatorEnv \<Rightarrow> u64 \<Rightarrow> nat \<Rightarrow> validatorID list \<Rightarrow> qc_fields option \<Rightarrow> viewChange list
      \<Rightarrow> 'c validatorState \<Rightarrow> (validation_error + qc_fields option) \<times> 'c validatorState" where
  "validateProofs A view i seen highest [] s = (Inr highest, s)"
| "validateProofs A view i seen highest (vc # vcs) s =
     (if vc_senderID vc \<in> set seen then (Inl (DuplicateSender (vc_senderID vc)), s)
      else case ValidateViewChange A vc s of
             (Some e, s) \<Rightarrow> (Inl (InvalidViewChange i e), s)
           | (None, s) \<Rightarrow>
               if vc_newView vc \<noteq> view then (Inl (WrongTarget i (vc_newView vc)), s)
               else validateProofs A view (Suc i) (vc_senderID vc # seen)
                      (trackHighest highest (vc_highestQC vc)) vcs s)"

definition ValidateNewView ::
    "'c validatorEnv \<Rightarrow> newView \<Rightarrow> 'c validatorState \<Rightarrow> validation_error option \<times> 'c validatorState" where
  "ValidateNewView A nv s =
     (let V = va_set A; h = newView_Hash (va_sha256 A) nv; vcCount = length (nv_viewChanges nv) in
      if HasSeenMessage s h then (Some Duplicate, s)
      else if \<not> isValidator V (nv_leaderID nv) then (Some (NotValidator (nv_leaderID nv)), s)
      else case va_leader A (nv_view nv) of
             None \<Rightarrow> (Some (LeaderUnknown (nv_view nv)), s)
           | Some expectedLeader \<Rightarrow>
               if nv_leaderID nv \<noteq> expectedLeader then (Some (WrongLeader expectedLeader (nv_view nv)), s)
               else if vcCount = 0 then (Some NoProofs, s)
               else if int vcCount > vf_MaxViewChangeProofs (va_config A) then (Some (TooManyProofs vcCount), s)
               else if int vcCount < requiredQuorum V
               then (Some (ProofsBelowQuorum vcCount (requiredQuorum V)), s)
               else case validateProofs A (nv_view nv) 0 [] None (nv_viewChanges nv) s of
                      (Inl e, s) \<Rightarrow> (Some e, s)
                    | (Inr highest, s) \<Rightarrow>
                        (case nv_highestQC nv of
                           None \<Rightarrow> (None, MarkMessageSeen h s)
                         | Some q \<Rightarrow>
                             (case highest of
                                None \<Rightarrow> (Some HighestQCWithoutProof, s)
                              | Some b \<Rightarrow>
                                  if qc_Hash (va_sha256 A) q \<noteq> qc_Hash (va_sha256 A) b
                                  then (Some HighestQCMismatch, s)
                                  else (case ValidateQC A (Some q) s of
                                          (Some e, s) \<Rightarrow> (Some InvalidHighestQC, s)
                                        | (None, s) \<Rightarrow> (None, MarkMessageSeen h s)))))"

subsection \<open>Heartbeats and evidence\<close>

definition ValidateHeartbeat ::
    "'c validatorEnv \<Rightarrow> heartbeat \<Rightarrow> 'c validatorState \<Rightarrow> validation_error option \<times> 'c validatorState" where
  "ValidateHeartbeat A hb s =
     (let V = va_set A; h = heartbeat_Hash (va_sha256 A) hb; currentView = vs_currentView s in
      if HasSeenMessage s h then (Some Duplicate, s)
      else if \<not> isValidator V (hb_leaderID hb) then (Some (NotValidator (hb_leaderID hb)), s)
      else if \<not> isActiveInView V (hb_leaderID hb) (hb_view hb)
      then (Some (NotActive (hb_leaderID hb) (hb_view hb)), s)
      else case va_leader A (hb_view hb) of
             None \<Rightarrow> (Some (LeaderUnknown (hb_view hb)), s)
           | Some expectedLeader \<Rightarrow>
               if hb_leaderID hb \<noteq> expectedLeader then (Some (WrongLeader expectedLeader (hb_view hb)), s)
               else if hb_view hb < currentView then (Some (ViewRegression (hb_view hb) currentView), s)
               else if hb_view hb > currentView + vf_MaxViewJump (va_config A)
               then (Some (ViewJump (hb_view hb) currentView), s)
               else (None, MarkMessageSeen h s))"

definition ValidateEvidence ::
    "'c validatorEnv \<Rightarrow> instant \<Rightarrow> evidence \<Rightarrow> 'c validatorState
      \<Rightarrow> validation_error option \<times> 'c validatorState" where
  "ValidateEvidence A now ev s =
     (let V = va_set A; h = evidence_Hash (va_sha256 A) ev; currentView = vs_currentView s in
      if HasSeenMessage s h then (Some Duplicate, s)
      else if \<not> isValidator V (ev_reporterID ev) then (Some (NotValidator (ev_reporterID ev)), s)
      else if \<not> isValidator V (ev_offenderID ev) then (Some (NotValidator (ev_offenderID ev)), s)
      else if now - ev_timestamp ev > vf_MaxEvidenceAge (va_config A) then (Some EvidenceTooOld, s)
      else if ev_view ev > currentView + vf_MaxViewJump (va_config A)
      then (Some (ViewJump (ev_view ev) currentView), s)
      else if ev_proof ev = [] then (Some EmptyProof, s)
      else (None, MarkMessageSeen h s))"

subsection \<open>One quorum rule\<close>

text \<open>
  The three components that compute a quorum agree: for a non-empty validator set, the
  validator's bound, the quorum verifier's threshold and (with the default minimum of one) the
  encoder's threshold are the same number.
\<close>

theorem quorum_rules_agree:
  assumes "0 < getValidatorCount V" and "en_validatorCount e = Some (getValidatorCount V)"
    and "en_staticMinQuorum e \<le> 1"
  shows "requiredQuorum V = GetQuorumThreshold V \<and> quorumThreshold e = GetQuorumThreshold V"
proof -
  have "0 \<le> (getValidatorCount V - 1) div 3"
    using assms(1) by (simp add: pos_imp_zdiv_nonneg_iff)
  then show ?thesis
    using assms by (simp add: requiredQuorum_def GetQuorumThreshold_def quorumThreshold_def
      calculateQuorum_def calculateF_def Let_def)
qed

theorem quorum_rules_agree_witness:
  "requiredQuorum ex_vs = GetQuorumThreshold ex_vs \<and> quorumThreshold ex_encoder = GetQuorumThreshold ex_vs"
  by (rule quorum_rules_agree) (simp_all add: ex_encoding_simps)

subsection \<open>Certificates\<close>

lemma validateSigners_None:
  "validateSigners A view i seen ss = None \<longleftrightarrow>
    distinct (map sig_keyID ss) \<and> sig_keyID ` set ss \<inter> set seen = {}
    \<and> (\<forall>s \<in> set ss. isValidator (va_set A) (sig_keyID s)
        \<and> (va_enforceActive A \<longrightarrow> isActiveInView (va_set A) (sig_keyID s) view))"
  by (induction ss arbitrary: i seen) auto

lemma encoder_VerifyQC_config [frame_simps]:
  "en_validatorCount (snd (encoder_VerifyQC C K oq e)) = en_validatorCount e"
  "en_staticMinQuorum (snd (encoder_VerifyQC C K oq e)) = en_staticMinQuorum e"
  by (auto simp: encoder_VerifyQC_def Let_def split: option.splits prod.splits)

lemma ValidateQC_frame [frame_simps]:
  "vs_seen (snd (ValidateQC A oq s)) = vs_seen s"
  "vs_currentView (snd (ValidateQC A oq s)) = vs_currentView s"
  "vs_currentHeight (snd (ValidateQC A oq s)) = vs_currentHeight s"
  by (auto simp: ValidateQC_def Let_def split: option.splits prod.splits)

lemma ValidateQC_frame' :
  "ValidateQC A oq s = (r, s') \<Longrightarrow> vs_seen s' = vs_seen s \<and> vs_currentView s' = vs_currentView s
    \<and> vs_currentHeight s' = vs_currentHeight s"
  using ValidateQC_frame [of A oq s] by simp

definition encoder_sound :: "'c validatorEnv \<Rightarrow> 'c validatorState \<Rightarrow> bool" where
  "encoder_sound A s \<longleftrightarrow> cache_sound (va_cache A) (va_crypto A) (en_verifySigCache (vs_encoder s))"

text \<open>
  A certificate the validator accepts is backed by a quorum: its signers are distinct
  validators, at least \<open>2f+1\<close> of them, and each has signed a vote for the certificate's view,
  height, round and block.
\<close>

theorem ValidateQC_sound:
  assumes "cache_law (va_cache A)" and "encoder_sound A s" and "ValidateQC A (Some q) s = (None, s')"
  shows "requiredQuorum (va_set A) \<le> int (card (sig_keyID ` set (qc_signatures q)))
    \<and> list_all (\<lambda>g. isValidator (va_set A) (sig_keyID g)
        \<and> (\<exists>v. signed_by (va_crypto A) (vote_SignBytes v) (sig_keyID g) \<and> v_voterID v = sig_keyID g
            \<and> v_view v = qc_view q \<and> v_height v = qc_height q \<and> v_round v = qc_round q
            \<and> v_blockHash v = qc_blockHash q)) (qc_signatures q)
    \<and> encoder_sound A s'"
proof -
  obtain enc where enc: "encoder_VerifyQC (va_cache A) (va_crypto A) (Some q) (vs_encoder s) = (None, enc)"
    and s': "s' = s\<lparr>vs_encoder := enc\<rparr>"
    and len: "requiredQuorum (va_set A) \<le> int (length (qc_signatures q))"
    and "validateSigners A (qc_view q) 0 [] (qc_signatures q) = None"
    using assms(3) by (auto simp: ValidateQC_def Let_def split: if_splits option.splits prod.splits)
  moreover from this have "distinct (map sig_keyID (qc_signatures q))"
    by (simp add: validateSigners_None)
  moreover have "length (qc_signatures q) = card (sig_keyID ` set (qc_signatures q))"
    using calculation(5) distinct_card [of "map sig_keyID (qc_signatures q)"] by simp
  ultimately show ?thesis
    using encoder_VerifyQC_sound [OF assms(1) _ enc] assms(2)
    by (simp add: encoder_sound_def validateSigners_None list_all_iff)
qed

definition ex_A :: "(bytes \<times> bool) list validatorEnv" where
  "ex_A = \<lparr>va_set = ex_vs, va_leader = (\<lambda>v. Some 1), va_config = DefaultValidationConfig,
     va_enforceActive = True, va_bootstrap = (\<lambda>h n. False),
     va_sha256 = (\<lambda>bs. of_nat (be_value bs)), va_cache = ex_cache, va_crypto = ex_crypto\<rparr>"

definition ex_vstate :: "(bytes \<times> bool) list validatorState" where
  "ex_vstate = \<lparr>vs_currentView = 8, vs_currentHeight = 4, vs_seen = [], vs_encoder = ex_encoder\<rparr>"

lemmas ex_validation_simps = ex_A_def ex_vstate_def DefaultValidationConfig_def ex_encoding_simps

definition ex_quorum_qc :: qc_fields where
  "ex_quorum_qc = qc_body (ex_qc [ex_sig 0, ex_sig 1, ex_sig 2])"

lemma ex_ValidateQC: "\<exists>s'. ValidateQC ex_A (Some ex_quorum_qc) ex_vstate = (None, s')"
  by (simp add: ValidateQC_def requiredQuorum_def encoder_VerifyQC_def quorumThreshold_def Let_def
    ex_quorum_qc_def ex_validation_simps getSigCacheKey_def buildVoteSignBytesFromQC_def update_conv')

lemma ex_sound: "cache_law (va_cache ex_A)" "encoder_sound ex_A ex_vstate"
  using ex_cache_law ex_encoder_sound by (simp_all add: ex_A_def encoder_sound_def ex_vstate_def)

theorem ValidateQC_sound_witness:
  "requiredQuorum (va_set ex_A) \<le> int (card (sig_keyID ` set (qc_signatures ex_quorum_qc)))"
  using ex_ValidateQC ValidateQC_sound [OF ex_sound] by blast

subsection \<open>Proposals\<close>

lemma MarkMessageSeen_simps [simp]:
  "vs_seen (MarkMessageSeen h s) = List.insert h (vs_seen s)"
  "vs_currentView (MarkMessageSeen h s) = vs_currentView s"
  "vs_currentHeight (MarkMessageSeen h s) = vs_currentHeight s"
  "vs_encoder (MarkMessageSeen h s) = vs_encoder s"
  by (simp_all add: MarkMessageSeen_def)

lemma validateJustify_frame':
  "validateJustify A p s = (r, s') \<Longrightarrow> vs_seen s' = vs_seen s"
  by (auto simp: validateJustify_def split: option.splits prod.splits if_splits dest: ValidateQC_frame')


definition ex_child :: proposal where
  "ex_child = \<lparr>p_view = 8, p_height = 4, p_round = 0, p_blockHash = 43, p_parentHash = 42,
     p_proposerID = 1, p_timestamp = 0, p_justifyQC = Some ex_quorum_qc, p_block = None,
     p_signature = ex_sig 1\<rparr>"

lemma ex_ValidateProposal: "\<exists>s'. ValidateProposal ex_A ex_child ex_vstate = (None, s')"
proof -
  obtain s' where "ValidateQC ex_A (Some ex_quorum_qc) ex_vstate = (None, s')"
    using ex_ValidateQC by blast
  moreover have "qc_blockHash ex_quorum_qc = 42" "qc_view ex_quorum_qc = 7"
    by (simp_all add: ex_quorum_qc_def ex_qc_def)
  ultimately show ?thesis
    by (simp add: ValidateProposal_def validateJustify_def ex_child_def HasSeenMessage_def Let_def
      ex_A_def ex_vstate_def ex_vs_def DefaultValidationConfig_def)
qed


lemma proposal_unsigned [simp]:
  "proposal_SignBytes sha256 (p\<lparr>p_signature := g\<rparr>) = proposal_SignBytes sha256 p"
  "proposal_Hash sha256 (p\<lparr>p_signature := g\<rparr>) = proposal_Hash sha256 p"
  by (simp_all add: proposal_SignBytes_def proposal_Hash_def)

lemma proposal_validation_unsigned:
  "ValidateProposal A (p\<lparr>p_signature := g\<rparr>) s = ValidateProposal A p s"
proof -
  have "validateJustify A (p\<lparr>p_signature := g\<rparr>) s = validateJustify A p s"
    by (auto simp: validateJustify_def split: option.splits prod.splits)
  then show ?thesis
    by (auto simp: ValidateProposal_def Let_def split: option.splits prod.splits)
qed

text \<open>
  Neither the signature check nor validation ties the signer of a proposal to the proposer it
  names: if a proposal is accepted, the same proposal re-signed by any holder of a registered key
  passes \<^verbatim>\<open>verifyMessage\<close> and \<^verbatim>\<open>ValidateProposal\<close> as well.
\<close>

theorem proposal_signer_unbound:
  assumes "ValidateProposal A p s = (None, s')"
    and "cr_GetPublicKey (va_crypto A) k = Some pk"
    and "cr_Verify (va_crypto A) (proposal_SignBytes (va_sha256 A) p) sig pk False"
  shows "let p' = p\<lparr>p_signature := \<lparr>sig_bytes = sig, sig_keyID = k, sig_timestamp = t\<rparr>\<rparr> in
    fst (verifyMessage (va_sha256 A) C (va_crypto A) (MsgProposal p') e) = None
    \<and> ValidateProposal A p' s = (None, s')"
  using assms by (simp add: Let_def proposal_validation_unsigned verifyMessage_def proposal_unsigned)

theorem proposal_signer_unbound_witness:
  "fst (ValidateProposal ex_A (ex_child\<lparr>p_signature := \<lparr>sig_bytes = [1], sig_keyID = 3, sig_timestamp = 0\<rparr>\<rparr>) ex_vstate)
    = None \<and> p_proposerID ex_child \<noteq> 3"
proof -
  obtain s' where acc: "ValidateProposal ex_A ex_child ex_vstate = (None, s')"
    using ex_ValidateProposal by blast
  have "cr_GetPublicKey (va_crypto ex_A) 3 = Some [9]"
    and "cr_Verify (va_crypto ex_A) (proposal_SignBytes (va_sha256 ex_A) ex_child) [1] [9] False"
    by (simp_all add: ex_A_def ex_crypto_def)
  from proposal_signer_unbound [OF acc this, of 0 ex_cache ex_encoder]
  have "ValidateProposal ex_A
      (ex_child\<lparr>p_signature := \<lparr>sig_bytes = [1], sig_keyID = 3, sig_timestamp = 0\<rparr>\<rparr>) ex_vstate = (None, s')"
    by (simp only: Let_def)
  moreover have "p_proposerID ex_child \<noteq> 3" by (simp add: ex_child_def)
  ultimately show ?thesis by simp
qed

subsection \<open>Nothing is accepted twice\<close>

inductive validator_step :: "'c validatorEnv \<Rightarrow> 'c validatorState \<Rightarrow> 'c validatorState \<Rightarrow> bool"
  for A where
  proposal: "validator_step A s (snd (ValidateProposal A p s))"
| vote: "validator_step A s (snd (ValidateVote A v s))"
| certificate: "validator_step A s (snd (ValidateQC A oq s))"
| viewChange: "validator_step A s (snd (ValidateViewChange A vc s))"
| newView: "validator_step A s (snd (ValidateNewView A nv s))"
| heartbeat: "validator_step A s (snd (ValidateHeartbeat A hb s))"
| evidence: "validator_step A s (snd (ValidateEvidence A now ev s))"
| advance: "validator_step A s (s\<lparr>vs_currentView := v, vs_currentHeight := h\<rparr>)"

text \<open>
  What the six validations of messages share: an accepted message is remembered by its key, a
  remembered one is refused, and nothing is forgotten.
\<close>

locale replay_guard =
  fixes validate :: "'m \<Rightarrow> 's \<Rightarrow> 'e option \<times> 's"
    and key :: "'m \<Rightarrow> 'k"
    and seen :: "'s \<Rightarrow> 'k set"
    and stp :: "'s \<Rightarrow> 's \<Rightarrow> bool"
    and dup :: 'e
  assumes accept_marks: "fst (validate m s) = None \<Longrightarrow> key m \<in> seen (snd (validate m s))"
    and seen_rejects: "key m \<in> seen s \<Longrightarrow> validate m s = (Some dup, s)"
    and remembers: "stp s t \<Longrightarrow> seen s \<subseteq> seen t"
begin

lemma remembers_star: "stp\<^sup>*\<^sup>* s t \<Longrightarrow> seen s \<subseteq> seen t"
  by (induction rule: rtranclp_induct) (auto dest: remembers)

lemma once: "fst (validate m s) = None \<Longrightarrow> stp\<^sup>*\<^sup>* (snd (validate m s)) t \<Longrightarrow>
    validate m t = (Some dup, t)"
  using accept_marks remembers_star seen_rejects by blast

end

lemma ValidateProposal_seen:
  "set (vs_seen (snd (ValidateProposal A p s))) =
    (if fst (ValidateProposal A p s) = None
     then insert (proposal_Hash (va_sha256 A) p) (set (vs_seen s)) else set (vs_seen s))"
  by (auto simp: ValidateProposal_def Let_def split: option.splits prod.splits
    dest!: validateJustify_frame')

lemma ValidateVote_seen:
  "set (vs_seen (snd (ValidateVote A v s))) =
    (if fst (ValidateVote A v s) = None
     then insert (vote_Hash (va_sha256 A) v) (set (vs_seen s)) else set (vs_seen s))"
  by (simp add: ValidateVote_def Let_def)

lemma ValidateViewChange_seen:
  "set (vs_seen (snd (ValidateViewChange A vc s))) =
    (if fst (ValidateViewChange A vc s) = None
     then insert (viewChange_Hash (va_sha256 A) vc) (set (vs_seen s)) else set (vs_seen s))"
  by (auto simp: ValidateViewChange_def Let_def split: option.splits prod.splits
    dest!: ValidateQC_frame')

lemma validateProofs_seen_mono:
  "set (vs_seen s) \<subseteq> set (vs_seen (snd (validateProofs A view i seen b vcs s)))"
proof (induction vcs arbitrary: i seen b s)
  case (Cons vc vcs)
  obtain r t where t: "ValidateViewChange A vc s = (r, t)" by (cases "ValidateViewChange A vc s")
  then have "set (vs_seen s) \<subseteq> set (vs_seen t)"
    using ValidateViewChange_seen [of A vc s] by (auto split: if_splits)
  then have "set (vs_seen s) \<subseteq> set (vs_seen (snd (validateProofs A view i seen b vcs t)))"
    for i seen b using Cons [where s = t] by (rule subset_trans)
  then show ?case
    using t \<open>set (vs_seen s) \<subseteq> set (vs_seen t)\<close> by (cases r) simp_all
qed simp

lemma ValidateNewView_seen:
  "set (vs_seen s) \<subseteq> set (vs_seen (snd (ValidateNewView A nv s)))"
  "fst (ValidateNewView A nv s) = None \<Longrightarrow>
    newView_Hash (va_sha256 A) nv \<in> set (vs_seen (snd (ValidateNewView A nv s)))"
proof -
  show "fst (ValidateNewView A nv s) = None \<Longrightarrow>
      newView_Hash (va_sha256 A) nv \<in> set (vs_seen (snd (ValidateNewView A nv s)))"
    by (auto simp: ValidateNewView_def Let_def split: if_splits option.splits prod.splits sum.splits)
  show "set (vs_seen s) \<subseteq> set (vs_seen (snd (ValidateNewView A nv s)))"
    using validateProofs_seen_mono [of s A "nv_view nv" 0 "[]" None "nv_viewChanges nv"]
    by (auto simp: ValidateNewView_def Let_def split: option.splits prod.splits sum.splits
      dest!: ValidateQC_frame')
qed

lemma validator_step_seen: "validator_step A s t \<Longrightarrow> set (vs_seen s) \<subseteq> set (vs_seen t)"
proof (induction rule: validator_step.induct)
  case (newView s nv)
  show ?case by (rule ValidateNewView_seen(1))
next
  case (heartbeat s hb)
  show ?case by (auto simp: ValidateHeartbeat_def Let_def split: option.splits)
next
  case (evidence s now ev)
  show ?case by (auto simp: ValidateEvidence_def Let_def)
qed (auto simp: ValidateProposal_seen ValidateVote_seen ValidateViewChange_seen frame_simps)

lemma seen_rejected:
  "proposal_Hash (va_sha256 A) p \<in> set (vs_seen s) \<Longrightarrow> ValidateProposal A p s = (Some Duplicate, s)"
  "vote_Hash (va_sha256 A) v \<in> set (vs_seen s) \<Longrightarrow> ValidateVote A v s = (Some Duplicate, s)"
  "viewChange_Hash (va_sha256 A) vc \<in> set (vs_seen s) \<Longrightarrow> ValidateViewChange A vc s = (Some Duplicate, s)"
  "newView_Hash (va_sha256 A) nv \<in> set (vs_seen s) \<Longrightarrow> ValidateNewView A nv s = (Some Duplicate, s)"
  by (simp_all add: ValidateProposal_def ValidateVote_def ValidateViewChange_def ValidateNewView_def
    HasSeenMessage_def Let_def)

interpretation rg_proposal: replay_guard "ValidateProposal A" "proposal_Hash (va_sha256 A)"
  "\<lambda>s. set (vs_seen s)" "validator_step A" Duplicate
  by unfold_locales
    (simp_all add: ValidateProposal_seen validator_step_seen seen_rejected)

interpretation rg_vote: replay_guard "ValidateVote A" "vote_Hash (va_sha256 A)"
  "\<lambda>s. set (vs_seen s)" "validator_step A" Duplicate
  by unfold_locales
    (simp_all add: ValidateVote_seen validator_step_seen seen_rejected)

interpretation rg_viewChange: replay_guard "ValidateViewChange A" "viewChange_Hash (va_sha256 A)"
  "\<lambda>s. set (vs_seen s)" "validator_step A" Duplicate
  by unfold_locales
    (simp_all add: ValidateViewChange_seen validator_step_seen seen_rejected)

interpretation rg_newView: replay_guard "ValidateNewView A" "newView_Hash (va_sha256 A)"
  "\<lambda>s. set (vs_seen s)" "validator_step A" Duplicate
  by unfold_locales
    (simp_all add: ValidateNewView_seen validator_step_seen seen_rejected)

text \<open>
  Replay protection: after a proposal has been accepted, no later attempt to validate it
  succeeds, whatever messages of any kind are validated and however the view and height move in
  between.
\<close>

theorem ValidateProposal_once:
  assumes "fst (ValidateProposal A p s) = None"
    and "(validator_step A)\<^sup>*\<^sup>* (snd (ValidateProposal A p s)) t"
  shows "ValidateProposal A p t = (Some Duplicate, t)"
  using assms by (rule rg_proposal.once)

theorem ValidateProposal_once_witness:
  "\<exists>t. ValidateProposal ex_A ex_child t = (Some Duplicate, t)"
proof -
  have "fst (ValidateProposal ex_A ex_child ex_vstate) = None"
    using ex_ValidateProposal by auto
  from ValidateProposal_once [OF this rtranclp.rtrancl_refl] show ?thesis by blast
qed

subsection \<open>New views\<close>

lemma validateProofs_ok:
  assumes "validateProofs A view i seen b vcs s = (Inr h, s')"
  shows "distinct (map vc_senderID vcs) \<and> vc_senderID ` set vcs \<inter> set seen = {}
    \<and> (\<forall>vc \<in> set vcs. vc_newView vc = view \<and> isValidator (va_set A) (vc_senderID vc))
    \<and> h = foldl trackHighest b (map vc_highestQC vcs)
    \<and> (\<forall>vc \<in> set vcs. viewChange_Hash (va_sha256 A) vc \<notin> set (vs_seen s))"
  using assms
proof (induction vcs arbitrary: i seen b s)
  case (Cons vc vcs)
  then obtain t where t: "ValidateViewChange A vc s = (None, t)"
    and rest: "validateProofs A view (Suc i) (vc_senderID vc # seen)
        (trackHighest b (vc_highestQC vc)) vcs t = (Inr h, s')"
    and here: "vc_senderID vc \<notin> set seen" "vc_newView vc = view"
    by (auto split: if_splits option.splits prod.splits)
  have "isValidator (va_set A) (vc_senderID vc)" "viewChange_Hash (va_sha256 A) vc \<notin> set (vs_seen s)"
    using t by (auto simp: ValidateViewChange_def HasSeenMessage_def Let_def split: if_splits)
  moreover have "set (vs_seen s) \<subseteq> set (vs_seen t)"
    using ValidateViewChange_seen [of A vc s] t by auto
  ultimately show ?case
    using Cons.IH [OF rest] here by fastforce
qed simp

lemma foldl_trackHighest_max:
  "qc_view q \<le> qc_view m" if "foldl trackHighest b qs = Some m" "Some q \<in> insert b (set qs)"
  using that
proof (induction qs arbitrary: b q)
  case (Cons x xs)
  show ?case
  proof (cases "Some q = b \<or> Some q = x")
    case True
    then have "\<exists>r. trackHighest b x = Some r \<and> qc_view q \<le> qc_view r"
      by (cases b; cases x) (auto simp: trackHighest_def)
    then obtain r where r: "trackHighest b x = Some r" "qc_view q \<le> qc_view r" by blast
    then have "qc_view r \<le> qc_view m"
      using Cons.prems(1) by (intro Cons.IH [of "Some r" r]) simp_all
    with r(2) show ?thesis by (rule order_trans)
  next
    case False
    then show ?thesis using Cons by simp
  qed
qed simp

text \<open>
  An accepted new-view message comes from the leader of its view, carries a quorum of view
  changes by distinct validators that all target that view, none of which this validator has seen
  before, and announces a certificate with the hash of the highest one among them.
\<close>

theorem ValidateNewView_sound:
  assumes "ValidateNewView A nv s = (None, s')"
  shows "va_leader A (nv_view nv) = Some (nv_leaderID nv)
    \<and> requiredQuorum (va_set A) \<le> int (card (vc_senderID ` set (nv_viewChanges nv)))
    \<and> list_all (\<lambda>vc. vc_newView vc = nv_view nv \<and> isValidator (va_set A) (vc_senderID vc)
        \<and> \<not> HasSeenMessage s (viewChange_Hash (va_sha256 A) vc)) (nv_viewChanges nv)
    \<and> (\<forall>q. nv_highestQC nv = Some q \<longrightarrow>
        (\<exists>b. qc_Hash (va_sha256 A) q = qc_Hash (va_sha256 A) b
          \<and> (\<forall>vc r. vc \<in> set (nv_viewChanges nv) \<longrightarrow> vc_highestQC vc = Some r \<longrightarrow> qc_view r \<le> qc_view b)))"
proof -
  from assms obtain h t where
    proofs: "validateProofs A (nv_view nv) 0 [] None (nv_viewChanges nv) s = (Inr h, t)"
    and leader: "va_leader A (nv_view nv) = Some (nv_leaderID nv)"
    and len: "requiredQuorum (va_set A) \<le> int (length (nv_viewChanges nv))"
    and high: "\<And>q. nv_highestQC nv = Some q \<Longrightarrow>
        \<exists>b. h = Some b \<and> qc_Hash (va_sha256 A) q = qc_Hash (va_sha256 A) b"
    by (auto simp: ValidateNewView_def Let_def split: if_splits option.splits prod.splits sum.splits)
  note ok = validateProofs_ok [OF proofs]
  have "length (nv_viewChanges nv) = card (vc_senderID ` set (nv_viewChanges nv))"
    using ok distinct_card [of "map vc_senderID (nv_viewChanges nv)"] by simp
  moreover have "qc_view r \<le> qc_view b"
    if "h = Some b" "vc \<in> set (nv_viewChanges nv)" "vc_highestQC vc = Some r" for b vc r
    using that ok foldl_trackHighest_max [of None "map vc_highestQC (nv_viewChanges nv)" b r]
    by (metis (no_types) image_eqI insertI2 set_map)
  ultimately show ?thesis
    using ok leader len high by (fastforce simp: list_all_iff HasSeenMessage_def)
qed

definition ex_vc :: "validatorID \<Rightarrow> viewChange" where
  "ex_vc i = \<lparr>vc_oldView = 7, vc_newView = 8, vc_height = 4, vc_highestQC = None, vc_senderID = i,
     vc_timestamp = 0, vc_signature = ex_sig i\<rparr>"

definition ex_nv :: newView where
  "ex_nv = \<lparr>nv_view = 8, nv_height = 4, nv_viewChanges = [ex_vc 0, ex_vc 1, ex_vc 2],
     nv_highestQC = None, nv_leaderID = 1, nv_timestamp = 0, nv_signature = ex_sig 1\<rparr>"

text \<open>A hash that separates the three view changes of the example by their sender.\<close>

definition ex_B :: "(bytes \<times> bool) list validatorEnv" where
  "ex_B = ex_A\<lparr>va_sha256 := (\<lambda>bs. if length bs = 88 then ucast (bs ! 79) else 99)\<rparr>"

lemma be_bytes_last: "be_bytes (Suc n) w ! n = ucast w"
proof (induction n)
  case (Suc n)
  then show ?case by (metis be_bytes.simps(2) nth_Cons_Suc)
qed simp

lemma be_bytes_32_last: "be_bytes 32 w ! 31 = ucast w"
  using be_bytes_last [of 31 w] by simp

theorem ValidateNewView_sound_witness:
  "requiredQuorum (va_set ex_B) \<le> int (card (vc_senderID ` set (nv_viewChanges ex_nv)))"
proof -
  have "\<exists>s'. ValidateNewView ex_B ex_nv ex_vstate = (None, s')"
    by (simp add: ValidateNewView_def ValidateViewChange_def HasSeenMessage_def requiredQuorum_def
      viewChange_Hash_def viewChange_SignBytes_def newView_Hash_def newView_SignBytes_def
      ex_B_def ex_nv_def ex_vc_def Let_def ex_validation_simps opt_qc_hash_def domain_prefix_def
      string_bytes_def nth_append be_bytes_32_last)
  then show ?thesis
    using ValidateNewView_sound by blast
qed

end
