(* ===== verification/Storage.thy ===== *)
theory Storage
  imports Quorum
begin

text \<open>
  Consensus storage, \<^verbatim>\<open>backend/pkg/consensus/pbft/storage.go\<close>: the in-memory replay
  window, the committed heights, persistence, restart and pruning.

  The persistent backend is an interface of the code, the record \<open>storageBackend\<close> over an
  opaque backend state \<open>'b\<close>; a save returns whether it succeeded and the new state, a load or
  list returns \<open>None\<close> for an error. The wire codec (CBOR) is the record \<open>codec\<close>. Audit and
  log calls are left out. \<open>now\<close> is \<^verbatim>\<open>time.Now()\<close>.

  Interface: \<open>commit_log\<close>, what consensus relies on when it commits (no hash is replaced while it
  is retained, the tip never goes back), interpreted on \<^verbatim>\<open>CommitBlock\<close>.
\<close>

subsection \<open>State\<close>

record storageConfig =
  sc_ReplayWindowSize :: int
  sc_MaxProposals :: int
  sc_MaxVotesPerView :: int
  sc_MaxQCs :: int
  sc_MaxEvidence :: int
  sc_MaxProposalSize :: int
  sc_MaxVoteSize :: int
  sc_MaxQCSize :: int
  sc_MaxEvidenceSize :: int
  sc_EnablePersistence :: bool
  sc_PersistInterval :: duration
  sc_AutoPrune :: bool
  sc_MinRetainBlocks :: int

definition DefaultStorageConfig :: storageConfig where
  "DefaultStorageConfig = \<lparr>sc_ReplayWindowSize = 100, sc_MaxProposals = 1000,
     sc_MaxVotesPerView = 10000, sc_MaxQCs = 1000, sc_MaxEvidence = 10000,
     sc_MaxProposalSize = 1048576, sc_MaxVoteSize = 10240, sc_MaxQCSize = 102400,
     sc_MaxEvidenceSize = 204800, sc_EnablePersistence = True, sc_PersistInterval = 10 * second,
     sc_AutoPrune = True, sc_MinRetainBlocks = 10\<rparr>"

record proposalRecord =
  pr_Hash :: bytes
  pr_Data :: bytes

record voteRecord =
  vr_View :: u64
  vr_Height :: u64
  vr_BlockHash :: bytes
  vr_Data :: bytes

record durableTip =
  GetLatestHeight :: "u64 option"
  GetDurableHash :: "u64 \<Rightarrow> bytes option option"

text \<open>
  \<open>be_tip\<close> is \<open>None\<close> when the backend does not implement \<^verbatim>\<open>durableTipBackend\<close>.
  Proposal, certificate and evidence records are read alike, by hash and data.
\<close>

record 'b storageBackend =
  be_SaveProposal :: "bytes \<Rightarrow> u64 \<Rightarrow> u64 \<Rightarrow> bytes \<Rightarrow> bytes \<Rightarrow> 'b \<Rightarrow> bool \<times> 'b"
  be_LoadProposal :: "bytes \<Rightarrow> 'b \<Rightarrow> bytes option"
  be_ListProposals :: "u64 \<Rightarrow> nat \<Rightarrow> 'b \<Rightarrow> proposalRecord list option"
  be_SaveQC :: "bytes \<Rightarrow> u64 \<Rightarrow> u64 \<Rightarrow> bytes \<Rightarrow> 'b \<Rightarrow> bool \<times> 'b"
  be_ListQCs :: "u64 \<Rightarrow> nat \<Rightarrow> 'b \<Rightarrow> proposalRecord list option"
  be_SaveVote :: "u64 \<Rightarrow> u64 \<Rightarrow> bytes \<Rightarrow> bytes \<Rightarrow> bytes \<Rightarrow> bytes \<Rightarrow> 'b \<Rightarrow> bool \<times> 'b"
  be_ListVotes :: "u64 \<Rightarrow> nat \<Rightarrow> 'b \<Rightarrow> voteRecord list option"
  be_SaveEvidence :: "bytes \<Rightarrow> u64 \<Rightarrow> bytes \<Rightarrow> 'b \<Rightarrow> bool \<times> 'b"
  be_ListEvidence :: "u64 \<Rightarrow> nat \<Rightarrow> 'b \<Rightarrow> proposalRecord list option"
  be_LoadLastCommitted :: "'b \<Rightarrow> (u64 \<times> bytes \<times> bytes) option"
  be_DeleteBefore :: "u64 \<Rightarrow> 'b \<Rightarrow> bool \<times> 'b"
  be_tip :: "('b \<Rightarrow> durableTip) option"

record codec =
  EncodeProposalWire :: "proposal \<Rightarrow> bytes option"
  DecodeProposalWire :: "bytes \<Rightarrow> string + proposal"
  DecodeProposalWireMetadataOnly :: "bytes \<Rightarrow> string + proposal"
  marshalVote :: "vote \<Rightarrow> bytes option"
  unmarshalVote :: "bytes \<Rightarrow> vote option"
  marshalQC :: "qc_fields \<Rightarrow> bytes option"
  unmarshalQC :: "bytes \<Rightarrow> qc_fields option"
  marshalEvidence :: "evidence \<Rightarrow> bytes option"
  unmarshalEvidence :: "bytes \<Rightarrow> evidence option"

record encoderLimits =
  el_MaxProposalSize :: int
  el_MaxVoteSize :: int
  el_MaxQCSize :: int
  el_MaxEvidenceSize :: int

text \<open>The operations a storage object calls, and the object itself.\<close>

record 'b storageEnv =
  se_backend :: "'b storageBackend"
  se_codec :: codec
  se_sha256 :: "bytes \<Rightarrow> hash32"

record 'b storage =
  st_config :: storageConfig
  st_limits :: encoderLimits
  st_proposals :: "(hash32, proposal) gomap"
  st_votes :: "(u64, vote list) gomap"
  st_qcs :: "(hash32, qc) gomap"
  st_evidence :: "(hash32, evidence) gomap"
  st_lastCommitted :: u64
  st_lastQC :: "qc option"
  st_committedBlocks :: "(u64, hash32) gomap"
  st_allowRestartBootstrap :: bool
  st_backend :: "'b option"
  st_rejectCount :: u64
  st_recoverSuccessCount :: u64
  st_recoverFailureCount :: u64
  st_lastRecoverAttemptAt :: instant

datatype storage_error =
    OutsideReplayWindow u64 u64 u64
  | ProposalStorageFull nat
  | EncodeProposal
  | PersistProposal
  | LoadProposalFailed
  | DecodeRecovered
  | RecoveredHashMismatch
  | VoteStorageFull u64
  | EncodeVote
  | PersistVote
  | QCStorageFull nat
  | EncodeQC
  | PersistQC
  | EvidenceStorageFull nat
  | EncodeEvidence
  | PersistEvidence
  | ConflictingCommit u64
  | BackendTip
  | ListFailed

definition NewStorage :: "encoderLimits \<Rightarrow> 'b option \<Rightarrow> storageConfig \<Rightarrow> 'b storage" where
  "NewStorage dflt backend cfg =
     \<lparr>st_config = cfg,
      st_limits =
        \<lparr>el_MaxProposalSize = (if sc_MaxProposalSize cfg > 0 then sc_MaxProposalSize cfg else el_MaxProposalSize dflt),
         el_MaxVoteSize = (if sc_MaxVoteSize cfg > 0 then sc_MaxVoteSize cfg else el_MaxVoteSize dflt),
         el_MaxQCSize = (if sc_MaxQCSize cfg > 0 then sc_MaxQCSize cfg else el_MaxQCSize dflt),
         el_MaxEvidenceSize = (if sc_MaxEvidenceSize cfg > 0 then sc_MaxEvidenceSize cfg else el_MaxEvidenceSize dflt)\<rparr>,
      st_proposals = [], st_votes = [], st_qcs = [], st_evidence = [], st_lastCommitted = 0,
      st_lastQC = None, st_committedBlocks = [], st_allowRestartBootstrap = False,
      st_backend = backend, st_rejectCount = 0, st_recoverSuccessCount = 0,
      st_recoverFailureCount = 0, st_lastRecoverAttemptAt = zeroTime\<rparr>"

definition SetBackend :: "'b option \<Rightarrow> 'b storage \<Rightarrow> 'b storage" where
  "SetBackend backend s = s\<lparr>st_backend := backend\<rparr>"

subsection \<open>Codec with size limits\<close>

definition limitSize :: "int \<Rightarrow> bytes option \<Rightarrow> bytes option" where
  "limitSize limit od =
     (case od of None \<Rightarrow> None | Some d \<Rightarrow> if int (length d) > limit then None else Some d)"

definition encodeProposal :: "'b storageEnv \<Rightarrow> 'b storage \<Rightarrow> proposal \<Rightarrow> bytes option" where
  "encodeProposal E s p =
     limitSize (el_MaxProposalSize (st_limits s)) (EncodeProposalWire (se_codec E) p)"

fun go_contains :: "string \<Rightarrow> string \<Rightarrow> bool" where
  "go_contains [] sub = (sub = [])"
| "go_contains (c # cs) sub = (take (length sub) (c # cs) = sub \<or> go_contains cs sub)"

definition decodeProposal :: "'b storageEnv \<Rightarrow> bytes \<Rightarrow> string + proposal" where
  "decodeProposal E data =
     (case DecodeProposalWire (se_codec E) data of
        Inr p \<Rightarrow> Inr p
      | Inl err \<Rightarrow>
          if go_contains err ''block hash mismatch'' \<or> go_contains err ''decode block payload''
          then (case DecodeProposalWireMetadataOnly (se_codec E) data of
                  Inr p \<Rightarrow> Inr p | Inl _ \<Rightarrow> Inl err)
          else Inl err)"

definition encodeVote :: "'b storageEnv \<Rightarrow> 'b storage \<Rightarrow> vote \<Rightarrow> bytes option" where
  "encodeVote E s v = limitSize (el_MaxVoteSize (st_limits s)) (marshalVote (se_codec E) v)"

text \<open>\<open>convertToMessageQC\<close> copies the fields of either implementation.\<close>

fun convertToMessageQC :: "qc option \<Rightarrow> qc_fields option" where
  "convertToMessageQC None = None"
| "convertToMessageQC (Some (MessagesQC q)) = Some q"
| "convertToMessageQC (Some (QuorumCertificate q)) = Some q"

definition encodeQC :: "'b storageEnv \<Rightarrow> 'b storage \<Rightarrow> qc \<Rightarrow> bytes option" where
  "encodeQC E s q = limitSize (el_MaxQCSize (st_limits s)) (marshalQC (se_codec E) (qc_body q))"

definition decodeQC :: "'b storageEnv \<Rightarrow> bytes \<Rightarrow> qc option" where
  "decodeQC E data = map_option MessagesQC (unmarshalQC (se_codec E) data)"

definition encodeEvidence :: "'b storageEnv \<Rightarrow> 'b storage \<Rightarrow> evidence \<Rightarrow> bytes option" where
  "encodeEvidence E s e =
     limitSize (el_MaxEvidenceSize (st_limits s)) (marshalEvidence (se_codec E) e)"

definition hash_of_bytes :: "bytes \<Rightarrow> hash32" where
  "hash_of_bytes bs = of_nat (be_value bs)"

subsection \<open>Replay window\<close>

definition isWithinWindow :: "'b storage \<Rightarrow> u64 \<Rightarrow> bool" where
  "isWithinWindow s height =
     (let windowStart = st_lastCommitted s + 1;
          windowEnd = st_lastCommitted s + word_of_int (sc_ReplayWindowSize (st_config s))
      in height \<ge> windowStart \<and> height \<le> windowEnd)"

definition replayRecoverThrottleWindow :: duration where
  "replayRecoverThrottleWindow = 500 * millisecond"

definition tryReconcileReplayWindowLocked ::
    "'b storageEnv \<Rightarrow> instant \<Rightarrow> bool \<Rightarrow> 'b storage \<Rightarrow> (storage_error + bool) \<times> 'b storage" where
  "tryReconcileReplayWindowLocked E now force s =
     (case (st_backend s, be_tip (se_backend E)) of
        (Some b, Some tipOf) \<Rightarrow>
          if \<not> force \<and> st_lastRecoverAttemptAt s \<noteq> zeroTime
             \<and> now - st_lastRecoverAttemptAt s < replayRecoverThrottleWindow
          then (Inr False, s)
          else
            let s = s\<lparr>st_lastRecoverAttemptAt := now\<rparr>; tip = tipOf b in
            (case GetLatestHeight tip of
               None \<Rightarrow> (Inl BackendTip, s)
             | Some durableHeight \<Rightarrow>
                 if durableHeight \<le> st_lastCommitted s then (Inr False, s)
                 else (case GetDurableHash tip durableHeight of
                         None \<Rightarrow> (Inl BackendTip, s)
                       | Some found \<Rightarrow>
                           (case found of
                              Some h \<Rightarrow>
                                if length h \<noteq> 32 then (Inr False, s)
                                else (Inr True,
                                  s\<lparr>st_lastCommitted := durableHeight,
                                    st_committedBlocks :=
                                      AList.update durableHeight (hash_of_bytes h) (st_committedBlocks s)\<rparr>)
                            | None \<Rightarrow> (Inr False, s))))
      | _ \<Rightarrow> (Inr False, s))"

definition ReconcileReplayWindow ::
    "'b storageEnv \<Rightarrow> instant \<Rightarrow> u64 \<Rightarrow> bool \<Rightarrow> 'b storage \<Rightarrow> (storage_error + bool) \<times> 'b storage" where
  "ReconcileReplayWindow E now proposalHeight force s = tryReconcileReplayWindowLocked E now force s"

text \<open>
  The recovery attempt of \<open>StoreProposal\<close> for a height outside the window, and the counters it
  updates with the outcome.
\<close>

fun countRecovery :: "u64 \<Rightarrow> (storage_error + bool) \<times> 'b storage \<Rightarrow> 'b storage" where
  "countRecovery height (Inl e, s) = s\<lparr>st_recoverFailureCount := st_recoverFailureCount s + 1\<rparr>"
| "countRecovery height (Inr recovered, s) =
     (if recovered \<and> isWithinWindow s height
      then s\<lparr>st_recoverSuccessCount := st_recoverSuccessCount s + 1\<rparr>
      else if recovered then s\<lparr>st_recoverFailureCount := st_recoverFailureCount s + 1\<rparr>
      else s)"

definition recoverWindow :: "'b storageEnv \<Rightarrow> instant \<Rightarrow> u64 \<Rightarrow> 'b storage \<Rightarrow> 'b storage" where
  "recoverWindow E now height s =
     (let w = word_of_int (sc_ReplayWindowSize (st_config s)) :: u64;
          windowSize = (if w = 0 then 1 else w);
          forceRecover = height > st_lastCommitted s + windowSize in
      countRecovery height
        (tryReconcileReplayWindowLocked E now forceRecover
           (s\<lparr>st_rejectCount := st_rejectCount s + 1\<rparr>)))"

definition persistProposal ::
    "'b storageEnv \<Rightarrow> proposal \<Rightarrow> 'b storage \<Rightarrow> storage_error option \<times> 'b storage" where
  "persistProposal E p s =
     (case (if sc_EnablePersistence (st_config s) then st_backend s else None) of
        None \<Rightarrow> (None, s)
      | Some b \<Rightarrow>
          (case encodeProposal E s p of
             None \<Rightarrow> (Some EncodeProposal,
               s\<lparr>st_proposals := AList.delete (p_blockHash p) (st_proposals s)\<rparr>)
           | Some data \<Rightarrow>
               (case be_SaveProposal (se_backend E) (be_bytes 32 (p_blockHash p)) (p_height p)
                       (p_view p) (be_bytes 32 (p_proposerID p)) data b of
                  (False, b') \<Rightarrow> (Some PersistProposal,
                    s\<lparr>st_proposals := AList.delete (p_blockHash p) (st_proposals s),
                      st_backend := Some b'\<rparr>)
                | (True, b') \<Rightarrow> (None, s\<lparr>st_backend := Some b'\<rparr>))))"

definition StoreProposal ::
    "'b storageEnv \<Rightarrow> instant \<Rightarrow> proposal \<Rightarrow> 'b storage \<Rightarrow> storage_error option \<times> 'b storage" where
  "StoreProposal E now p s =
     (let s = (if isWithinWindow s (p_height p) then s else recoverWindow E now (p_height p) s) in
      if \<not> isWithinWindow s (p_height p)
      then (Some (OutsideReplayWindow (p_height p) (st_lastCommitted s + 1)
              (st_lastCommitted s + word_of_int (sc_ReplayWindowSize (st_config s)))), s)
      else if int (length (st_proposals s)) \<ge> sc_MaxProposals (st_config s)
      then (Some (ProposalStorageFull (length (st_proposals s))), s)
      else persistProposal E p
             (s\<lparr>st_proposals := AList.update (p_blockHash p) p (st_proposals s)\<rparr>))"

definition GetProposal :: "'b storage \<Rightarrow> hash32 \<Rightarrow> proposal option" where
  "GetProposal s h = map_of (st_proposals s) h"

definition GetProposalOrRecover ::
    "'b storageEnv \<Rightarrow> hash32 \<Rightarrow> 'b storage \<Rightarrow> (storage_error + proposal option) \<times> 'b storage" where
  "GetProposalOrRecover E h s =
     (case GetProposal s h of
        Some p \<Rightarrow> (Inr (Some p), s)
      | None \<Rightarrow>
          (case st_backend s of
             None \<Rightarrow> (Inr None, s)
           | Some b \<Rightarrow>
               (case be_LoadProposal (se_backend E) (be_bytes 32 h) b of
                  None \<Rightarrow> (Inl LoadProposalFailed, s)
                | Some raw \<Rightarrow>
                    if raw = [] then (Inr None, s)
                    else (case decodeProposal E raw of
                            Inl _ \<Rightarrow> (Inl DecodeRecovered, s)
                          | Inr p \<Rightarrow>
                              if p_blockHash p \<noteq> h then (Inl RecoveredHashMismatch, s)
                              else (Inr (Some p),
                                s\<lparr>st_proposals := AList.update h p (st_proposals s)\<rparr>)))))"

subsection \<open>Votes, certificates, evidence\<close>

definition votes_at :: "(u64, vote list) gomap \<Rightarrow> u64 \<Rightarrow> vote list" where
  "votes_at m view = (case map_of m view of None \<Rightarrow> [] | Some vs \<Rightarrow> vs)"

definition StoreVote ::
    "'b storageEnv \<Rightarrow> vote \<Rightarrow> 'b storage \<Rightarrow> storage_error option \<times> 'b storage" where
  "StoreVote E v s =
     (if int (length (votes_at (st_votes s) (v_view v))) \<ge> sc_MaxVotesPerView (st_config s)
      then (Some (VoteStorageFull (v_view v)), s)
      else
        let s = s\<lparr>st_votes := AList.update (v_view v) (votes_at (st_votes s) (v_view v) @ [v]) (st_votes s)\<rparr> in
        (case (if sc_EnablePersistence (st_config s) then st_backend s else None) of
           None \<Rightarrow> (None, s)
         | Some b \<Rightarrow>
             (case encodeVote E s v of
                None \<Rightarrow> (Some EncodeVote, s)
              | Some data \<Rightarrow>
                  (case be_SaveVote (se_backend E) (v_view v) (v_height v) (be_bytes 32 (v_voterID v))
                          (be_bytes 32 (v_blockHash v)) (be_bytes 32 (vote_Hash (se_sha256 E) v)) data b of
                     (ok, b') \<Rightarrow>
                       (if ok then None else Some PersistVote, s\<lparr>st_backend := Some b'\<rparr>)))))"

definition GetVotesByView :: "'b storage \<Rightarrow> u64 \<Rightarrow> vote list" where
  "GetVotesByView s view = votes_at (st_votes s) view"

text \<open>
  The inner loop of \<open>GetVotesForQCRepair\<close>: \<open>seen\<close> are the hashes already collected,
  \<open>matches\<close> the votes.
\<close>

fun repairRecords ::
    "'b storageEnv \<Rightarrow> u64 \<Rightarrow> u64 \<Rightarrow> hash32 \<Rightarrow> voteRecord list \<Rightarrow> hash32 list \<times> vote list
      \<Rightarrow> hash32 list \<times> vote list" where
  "repairRecords E view height bh [] acc = acc"
| "repairRecords E view height bh (r # rs) (seen, matches) =
     repairRecords E view height bh rs
       (if vr_View r \<noteq> view \<or> vr_Height r \<noteq> height then (seen, matches)
        else if length (vr_BlockHash r) \<noteq> 32 \<or> hash_of_bytes (vr_BlockHash r) \<noteq> bh
        then (seen, matches)
        else (case unmarshalVote (se_codec E) (vr_Data r) of
                None \<Rightarrow> (seen, matches)
              | Some v \<Rightarrow>
                  if vote_Hash (se_sha256 E) v \<in> set seen then (seen, matches)
                  else (vote_Hash (se_sha256 E) v # seen, matches @ [v])))"

fun repairLimits ::
    "'b storageEnv \<Rightarrow> 'b \<Rightarrow> u64 \<Rightarrow> u64 \<Rightarrow> hash32 \<Rightarrow> int \<Rightarrow> nat list \<Rightarrow> hash32 list \<times> vote list
      \<Rightarrow> hash32 list \<times> vote list" where
  "repairLimits E b view height bh needed [] acc = acc"
| "repairLimits E b view height bh needed (limit # ls) acc =
     (case be_ListVotes (se_backend E) height limit b of
        None \<Rightarrow> acc
      | Some rs \<Rightarrow>
          if rs = [] then acc
          else
            let acc = repairRecords E view height bh rs acc in
            if needed > 0 \<and> int (length (snd acc)) \<ge> needed then acc
            else if length rs < limit then acc
            else repairLimits E b view height bh needed ls acc)"

definition GetVotesForQCRepair ::
    "'b storageEnv \<Rightarrow> u64 \<Rightarrow> u64 \<Rightarrow> hash32 \<Rightarrow> int \<Rightarrow> 'b storage \<Rightarrow> vote list" where
  "GetVotesForQCRepair E view height bh needed s =
     (let matches = filter (\<lambda>v. v_view v = view \<and> v_height v = height \<and> v_blockHash v = bh)
            (votes_at (st_votes s) view) in
      if needed > 0 \<and> int (length matches) \<ge> needed then matches
      else (case st_backend s of
              None \<Rightarrow> matches
            | Some b \<Rightarrow>
                snd (repairLimits E b view height bh needed [2048, 8192, 32768, 131072]
                  (map (vote_Hash (se_sha256 E)) matches, matches))))"

definition StoreQC ::
    "'b storageEnv \<Rightarrow> qc \<Rightarrow> 'b storage \<Rightarrow> storage_error option \<times> 'b storage" where
  "StoreQC E q s =
     (if int (length (st_qcs s)) \<ge> sc_MaxQCs (st_config s)
      then (Some (QCStorageFull (length (st_qcs s))), s)
      else
        let h = iface_Hash (se_sha256 E) q;
            s = s\<lparr>st_qcs := AList.update h q (st_qcs s),
                  st_lastQC := (if st_lastQC s = None \<or> getView q > getQCView (st_lastQC s)
                                then Some q else st_lastQC s)\<rparr> in
        (case (if sc_EnablePersistence (st_config s) then st_backend s else None) of
           None \<Rightarrow> (None, s)
         | Some b \<Rightarrow>
             (case encodeQC E s q of
                None \<Rightarrow> (Some EncodeQC, s)
              | Some data \<Rightarrow>
                  (case be_SaveQC (se_backend E) (be_bytes 32 h) (getHeight q) (getView q) data b of
                     (ok, b') \<Rightarrow>
                       (if ok then None else Some PersistQC, s\<lparr>st_backend := Some b'\<rparr>)))))"

definition GetQC :: "'b storage \<Rightarrow> hash32 \<Rightarrow> qc option" where
  "GetQC s h = map_of (st_qcs s) h"

definition GetQCsSnapshot ::
    "((hash32, qc) gomap \<Rightarrow> (hash32, qc) gomap) \<Rightarrow> 'b storage \<Rightarrow> qc list" where
  "GetQCsSnapshot ord s = map snd (ord (st_qcs s))"

definition StoreEvidence ::
    "'b storageEnv \<Rightarrow> evidence \<Rightarrow> 'b storage \<Rightarrow> storage_error option \<times> 'b storage" where
  "StoreEvidence E e s =
     (if int (length (st_evidence s)) \<ge> sc_MaxEvidence (st_config s)
      then (Some (EvidenceStorageFull (length (st_evidence s))), s)
      else
        let h = evidence_Hash (se_sha256 E) e;
            s = s\<lparr>st_evidence := AList.update h e (st_evidence s)\<rparr> in
        (case (if sc_EnablePersistence (st_config s) then st_backend s else None) of
           None \<Rightarrow> (None, s)
         | Some b \<Rightarrow>
             (case encodeEvidence E s e of
                None \<Rightarrow> (Some EncodeEvidence, s)
              | Some data \<Rightarrow>
                  (case be_SaveEvidence (se_backend E) (be_bytes 32 h) (ev_height e) data b of
                     (ok, b') \<Rightarrow>
                       (if ok then None else Some PersistEvidence, s\<lparr>st_backend := Some b'\<rparr>)))))"

definition GetAllEvidence ::
    "((hash32, evidence) gomap \<Rightarrow> (hash32, evidence) gomap) \<Rightarrow> 'b storage \<Rightarrow> evidence list" where
  "GetAllEvidence ord s = map snd (ord (st_evidence s))"

subsection \<open>Commit and pruning\<close>

definition pruneOldDataUnsafe :: "'b storageEnv \<Rightarrow> u64 \<Rightarrow> 'b storage \<Rightarrow> 'b storage" where
  "pruneOldDataUnsafe E currentHeight s =
     (let keep = word_of_int (sc_MinRetainBlocks (st_config s)) :: u64;
          pruneHeight = currentHeight - keep in
      if currentHeight \<le> keep then s
      else
        let s = s\<lparr>st_proposals := filter (\<lambda>(h, p). \<not> p_height p < pruneHeight) (st_proposals s),
                  st_votes := filter (\<lambda>(view, vs). \<not> view < pruneHeight) (st_votes s),
                  st_qcs := filter (\<lambda>(h, q). \<not> getHeight q < pruneHeight) (st_qcs s),
                  st_committedBlocks :=
                    filter (\<lambda>(height, h). \<not> height < pruneHeight) (st_committedBlocks s)\<rparr> in
        if sc_EnablePersistence (st_config s)
        then s\<lparr>st_backend := map_option (snd \<circ> be_DeleteBefore (se_backend E) pruneHeight) (st_backend s)\<rparr>
        else s)"

definition Prune :: "'b storageEnv \<Rightarrow> u64 \<Rightarrow> 'b storage \<Rightarrow> 'b storage" where
  "Prune E currentHeight s = pruneOldDataUnsafe E currentHeight s"

definition CommitBlock ::
    "'b storageEnv \<Rightarrow> hash32 \<Rightarrow> u64 \<Rightarrow> 'b storage \<Rightarrow> storage_error option \<times> 'b storage" where
  "CommitBlock E h height s =
     (case map_of (st_committedBlocks s) height of
        Some existing \<Rightarrow>
          if existing \<noteq> h then (Some (ConflictingCommit height), s) else (None, s)
      | None \<Rightarrow>
          let s = s\<lparr>st_lastCommitted :=
                      (if height > st_lastCommitted s then height else st_lastCommitted s),
                    st_committedBlocks := AList.update height h (st_committedBlocks s)\<rparr> in
          (None, if sc_AutoPrune (st_config s) then pruneOldDataUnsafe E height s else s))"

definition GetLastCommittedHeight :: "'b storage \<Rightarrow> u64" where
  "GetLastCommittedHeight s = st_lastCommitted s"

definition GetLastCommittedQC :: "'b storage \<Rightarrow> qc option" where
  "GetLastCommittedQC s = st_lastQC s"

definition IsCommitted :: "'b storage \<Rightarrow> u64 \<Rightarrow> bool" where
  "IsCommitted s height = (map_of (st_committedBlocks s) height \<noteq> None)"

definition GetCommittedBlockHash :: "'b storage \<Rightarrow> u64 \<Rightarrow> hash32 option" where
  "GetCommittedBlockHash s height = map_of (st_committedBlocks s) height"

definition AllowRestartBootstrap :: "'b storage \<Rightarrow> hash32 \<Rightarrow> u64 \<Rightarrow> bool" where
  "AllowRestartBootstrap s parentHash proposalHeight =
     (if \<not> st_allowRestartBootstrap s \<or> st_lastQC s \<noteq> None \<or> st_lastCommitted s = 0 then False
      else if proposalHeight \<noteq> st_lastCommitted s + 1 then False
      else (case map_of (st_committedBlocks s) (st_lastCommitted s) of
              None \<Rightarrow> False
            | Some h \<Rightarrow> h = parentHash))"

record storageStats =
  ss_ProposalCount :: nat
  ss_VoteCount :: nat
  ss_QCCount :: nat
  ss_EvidenceCount :: nat
  ss_CommittedBlockCount :: nat
  ss_LastCommittedHeight :: u64
  ss_ReplayWindowSize :: int
  ss_RejectCount :: u64
  ss_RecoverSuccessCount :: u64
  ss_RecoverFailureCount :: u64

definition storage_GetStats :: "'b storage \<Rightarrow> storageStats" where
  "storage_GetStats s =
     \<lparr>ss_ProposalCount = length (st_proposals s),
      ss_VoteCount = sum_list (map (length \<circ> snd) (st_votes s)),
      ss_QCCount = length (st_qcs s), ss_EvidenceCount = length (st_evidence s),
      ss_CommittedBlockCount = length (st_committedBlocks s),
      ss_LastCommittedHeight = st_lastCommitted s,
      ss_ReplayWindowSize = sc_ReplayWindowSize (st_config s),
      ss_RejectCount = st_rejectCount s, ss_RecoverSuccessCount = st_recoverSuccessCount s,
      ss_RecoverFailureCount = st_recoverFailureCount s\<rparr>"

subsection \<open>Restart\<close>

definition restoreCommittedState ::
    "'b storageEnv \<Rightarrow> 'b \<Rightarrow> 'b storage \<Rightarrow> bool \<times> 'b storage" where
  "restoreCommittedState E b s =
     (case be_LoadLastCommitted (se_backend E) b of
        None \<Rightarrow> (False, s)
      | Some (metaHeight, metaHash, metaQC) \<Rightarrow>
          let durable =
                (case be_tip (se_backend E) of
                   None \<Rightarrow> None
                 | Some tipOf \<Rightarrow>
                     (case GetLatestHeight (tipOf b) of
                        None \<Rightarrow> None
                      | Some dh \<Rightarrow>
                          if dh > metaHeight
                          then (case GetDurableHash (tipOf b) dh of
                                  Some (Some h) \<Rightarrow> if length h = 32 then Some (dh, h) else None
                                | _ \<Rightarrow> None)
                          else None));
              (lastHeight, blockHash, qcData, bootstrap) =
                (case durable of
                   None \<Rightarrow> (metaHeight, metaHash, metaQC, False)
                 | Some (dh, h) \<Rightarrow> (dh, h, [], True));
              s = s\<lparr>st_allowRestartBootstrap := bootstrap, st_lastCommitted := lastHeight,
                    st_committedBlocks :=
                      (if length blockHash = 32
                       then AList.update lastHeight (hash_of_bytes blockHash) (st_committedBlocks s)
                       else st_committedBlocks s)\<rparr> in
          (True,
           (case (if qcData = [] then None else decodeQC E qcData) of
              None \<Rightarrow> s
            | Some q \<Rightarrow> s\<lparr>st_lastQC := Some q, st_allowRestartBootstrap := False\<rparr>)))"

text \<open>
  \<^verbatim>\<open>restoreProposals\<close>, \<^verbatim>\<open>restoreQCs\<close> and \<^verbatim>\<open>restoreEvidence\<close> share their loop: pages of
  256 records from a growing offset, which ends at an error, an empty or a short page. A backend
  that keeps returning full pages keeps the loop going; not returning is \<open>None\<close>.
\<close>

partial_function (option) restorePages ::
    "(u64 \<Rightarrow> 'r list option) \<Rightarrow> ('r \<Rightarrow> 'm \<Rightarrow> 'm) \<Rightarrow> u64 \<Rightarrow> 'm \<Rightarrow> (bool \<times> 'm) option" where
  "restorePages list load offset m =
     (case list offset of
        None \<Rightarrow> Some (False, m)
      | Some rs \<Rightarrow>
          if rs = [] then Some (True, m)
          else if length rs < 256 then Some (True, fold load rs m)
          else restorePages list load (offset + 256) (fold load rs m))"

definition loadProposalRecord ::
    "'b storageEnv \<Rightarrow> proposalRecord \<Rightarrow> (hash32, proposal) gomap \<Rightarrow> (hash32, proposal) gomap" where
  "loadProposalRecord E r m =
     (if length (pr_Hash r) \<noteq> 32 then m
      else case decodeProposal E (pr_Data r) of
             Inl _ \<Rightarrow> m
           | Inr p \<Rightarrow> AList.update (hash_of_bytes (pr_Hash r)) p m)"

definition loadQCRecord ::
    "'b storageEnv \<Rightarrow> proposalRecord \<Rightarrow> (hash32, qc) gomap \<Rightarrow> (hash32, qc) gomap" where
  "loadQCRecord E r m =
     (if length (pr_Hash r) \<noteq> 32 then m
      else case decodeQC E (pr_Data r) of
             None \<Rightarrow> m
           | Some q \<Rightarrow> AList.update (hash_of_bytes (pr_Hash r)) q m)"

definition loadEvidenceRecord ::
    "'b storageEnv \<Rightarrow> proposalRecord \<Rightarrow> (hash32, evidence) gomap \<Rightarrow> (hash32, evidence) gomap" where
  "loadEvidenceRecord E r m =
     (if length (pr_Hash r) \<noteq> 32 then m
      else case unmarshalEvidence (se_codec E) (pr_Data r) of
             None \<Rightarrow> m
           | Some e \<Rightarrow> AList.update (hash_of_bytes (pr_Hash r)) e m)"

definition restoreProposals ::
    "'b storageEnv \<Rightarrow> 'b \<Rightarrow> u64 \<Rightarrow> 'b storage \<Rightarrow> (bool \<times> 'b storage) option" where
  "restoreProposals E b minHeight s =
     map_option (\<lambda>(ok, m). (ok, s\<lparr>st_proposals := m\<rparr>))
       (restorePages (\<lambda>off. be_ListProposals (se_backend E) off 256 b) (loadProposalRecord E)
          minHeight (st_proposals s))"

definition restoreQCs ::
    "'b storageEnv \<Rightarrow> 'b \<Rightarrow> u64 \<Rightarrow> 'b storage \<Rightarrow> (bool \<times> 'b storage) option" where
  "restoreQCs E b minHeight s =
     map_option (\<lambda>(ok, m). (ok, s\<lparr>st_qcs := m\<rparr>))
       (restorePages (\<lambda>off. be_ListQCs (se_backend E) off 256 b) (loadQCRecord E)
          minHeight (st_qcs s))"

definition restoreEvidence ::
    "'b storageEnv \<Rightarrow> 'b \<Rightarrow> u64 \<Rightarrow> 'b storage \<Rightarrow> (bool \<times> 'b storage) option" where
  "restoreEvidence E b minHeight s =
     map_option (\<lambda>(ok, m). (ok, s\<lparr>st_evidence := m\<rparr>))
       (restorePages (\<lambda>off. be_ListEvidence (se_backend E) off 256 b) (loadEvidenceRecord E)
          minHeight (st_evidence s))"

text \<open>One page of \<open>restoreVotes\<close>: the votes and the largest height among the decoded records.\<close>

definition loadVoteRecord ::
    "'b storageEnv \<Rightarrow> voteRecord \<Rightarrow> u64 \<times> (u64, vote list) gomap \<Rightarrow> u64 \<times> (u64, vote list) gomap" where
  "loadVoteRecord E r acc =
     (case unmarshalVote (se_codec E) (vr_Data r) of
        None \<Rightarrow> acc
      | Some v \<Rightarrow>
          (if vr_Height r > fst acc then vr_Height r else fst acc,
           AList.update (vr_View r) (votes_at (snd acc) (vr_View r) @ [v]) (snd acc)))"

lemma loadVoteRecords_mono: "fst acc \<le> fst (fold (loadVoteRecord E) rs acc)"
proof (induction rs arbitrary: acc)
  case (Cons r rs)
  have "fst acc \<le> fst (loadVoteRecord E r acc)"
    by (auto simp: loadVoteRecord_def split: option.splits)
  also have "\<dots> \<le> fst (fold (loadVoteRecord E) rs (loadVoteRecord E r acc))"
    by (rule Cons)
  finally show ?case by simp
qed simp

text \<open>The vote loop moves its cursor past the largest height seen, so it ends.\<close>

function restoreVotesLoop ::
    "'b storageEnv \<Rightarrow> 'b \<Rightarrow> u64 \<Rightarrow> (u64, vote list) gomap \<Rightarrow> bool \<times> (u64, vote list) gomap" where
  "restoreVotesLoop E b nextMinHeight m =
     (case be_ListVotes (se_backend E) nextMinHeight 512 b of
        None \<Rightarrow> (False, m)
      | Some rs \<Rightarrow>
          if rs = [] then (True, m)
          else
            let (maxHeightSeen, m') = fold (loadVoteRecord E) rs (nextMinHeight, m) in
            if maxHeightSeen = - 1 then (True, m')
            else if length rs < 512 then (True, m')
            else restoreVotesLoop E b (maxHeightSeen + 1) m')"
  by pat_completeness auto
termination
proof (relation "measure (\<lambda>(E, b, h, m). 2 ^ 64 - unat h)", goal_cases)
  case (2 E b nxt m rs x maxSeen m')
  have "nxt \<le> maxSeen"
    using loadVoteRecords_mono [of "(nxt, m)" E rs] 2 by (metis fst_conv)
  moreover have "unat (maxSeen + 1) = unat maxSeen + 1"
    using 2 by (intro unat_plus_one)
  moreover have "unat maxSeen < 2 ^ 64"
    using unsigned_less [of maxSeen] by simp
  ultimately show ?case
    by (simp add: word_le_nat_alt)
qed simp

declare restoreVotesLoop.simps [simp del]

definition sortVotesByTimestamp :: "vote list \<Rightarrow> vote list" where
  "sortVotesByTimestamp vs = sliceStable (\<lambda>a b. v_timestamp a < v_timestamp b) vs"

definition restoreVotes :: "'b storageEnv \<Rightarrow> 'b \<Rightarrow> u64 \<Rightarrow> 'b storage \<Rightarrow> bool \<times> 'b storage" where
  "restoreVotes E b minHeight s =
     (case restoreVotesLoop E b minHeight (st_votes s) of
        (False, m) \<Rightarrow> (False, s\<lparr>st_votes := m\<rparr>)
      | (True, m) \<Rightarrow>
          (True, s\<lparr>st_votes := map (\<lambda>(view, vs). (view, sortVotesByTimestamp vs)) m\<rparr>))"

definition restoreReplayWindow ::
    "'b storageEnv \<Rightarrow> 'b \<Rightarrow> 'b storage \<Rightarrow> (bool \<times> 'b storage) option" where
  "restoreReplayWindow E b s =
     (let w = word_of_int (sc_ReplayWindowSize (st_config s)) :: u64;
          minHeight = (if st_lastCommitted s \<ge> w then st_lastCommitted s - w + 1 else 0) in
      case restoreProposals E b minHeight s of
        None \<Rightarrow> None
      | Some (False, s) \<Rightarrow> Some (False, s)
      | Some (True, s) \<Rightarrow>
      (case restoreQCs E b minHeight s of
        None \<Rightarrow> None
      | Some (False, s) \<Rightarrow> Some (False, s)
      | Some (True, s) \<Rightarrow>
      (case restoreVotes E b minHeight s of
        (False, s) \<Rightarrow> Some (False, s)
      | (True, s) \<Rightarrow>
      (case restoreEvidence E b minHeight s of
        None \<Rightarrow> None
      | Some (False, s) \<Rightarrow> Some (False, s)
      | Some (True, s) \<Rightarrow>
          Some (True,
            (if st_lastQC s = None \<and> st_lastCommitted s > 0
             then (case map_of (st_committedBlocks s) (st_lastCommitted s) of
                     None \<Rightarrow> s
                   | Some h \<Rightarrow>
                       (case map_of (st_qcs s) h of
                          None \<Rightarrow> s
                        | Some q \<Rightarrow> s\<lparr>st_lastQC := Some q, st_allowRestartBootstrap := False\<rparr>))
             else s))))))"

text \<open>\<open>Start\<close> logs a failed restore and goes on with what was restored.\<close>

definition storage_Start :: "'b storageEnv \<Rightarrow> 'b storage \<Rightarrow> 'b storage option" where
  "storage_Start E s =
     (case (if sc_EnablePersistence (st_config s) then st_backend s else None) of
        None \<Rightarrow> Some s
      | Some b \<Rightarrow> map_option snd (restoreReplayWindow E b (snd (restoreCommittedState E b s))))"

subsection \<open>The commit contract\<close>

text \<open>
  What consensus relies on: a conflicting commit is refused and changes nothing, a repeated one
  changes nothing, a fresh one records the hash and keeps every hash within \<open>retain\<close> heights
  below it, and no commit invents or alters another height.
\<close>

locale commit_log =
  fixes commit :: "'h \<Rightarrow> u64 \<Rightarrow> 's \<Rightarrow> 'e option \<times> 's"
    and committed :: "'s \<Rightarrow> u64 \<Rightarrow> 'h option"
    and tip :: "'s \<Rightarrow> u64"
    and retain :: "'s \<Rightarrow> nat"
    and ok :: "'s \<Rightarrow> bool"
  assumes refuse: "committed s n = Some x \<Longrightarrow> x \<noteq> y \<Longrightarrow> \<exists>e. commit y n s = (Some e, s)"
    and repeat: "committed s n = Some x \<Longrightarrow> commit x n s = (None, s)"
    and fresh: "ok s \<Longrightarrow> committed s n = None \<Longrightarrow>
      fst (commit y n s) = None \<and> committed (snd (commit y n s)) n = Some y"
    and keeps: "ok s \<Longrightarrow> committed s k = Some x \<Longrightarrow> unat n \<le> unat k + retain s \<Longrightarrow>
      committed (snd (commit y n s)) k = Some x"
    and invents: "ok s \<Longrightarrow> committed (snd (commit y n s)) k = Some x \<Longrightarrow>
      committed s k = Some x \<or> (k = n \<and> x = y)"
    and tip_up: "tip s \<le> tip (snd (commit y n s))"
    and retain_const: "retain (snd (commit y n s)) = retain s"
    and ok_commit: "ok s \<Longrightarrow> ok (snd (commit y n s))"
begin

lemma run_keeps:
  assumes "ok s" and "committed s k = Some x"
    and "list_all (\<lambda>(y, n). unat n \<le> unat k + retain s) cs"
  shows "committed (fold (\<lambda>(y, n) s. snd (commit y n s)) cs s) k = Some x"
  using assms
proof (induction cs arbitrary: s)
  case (Cons c cs)
  obtain y n where c: "c = (y, n)" by (cases c)
  have "committed (snd (commit y n s)) k = Some x"
    using Cons.prems c by (intro keeps) auto
  then show ?case
    using Cons c by (simp add: ok_commit retain_const)
qed simp

lemma run_tip: "tip s \<le> tip (fold (\<lambda>(y, n) s. snd (commit y n s)) cs s)"
proof (induction cs arbitrary: s)
  case (Cons c cs)
  then show ?case
    by (cases c) (auto intro: order_trans [OF tip_up])
qed simp

lemma conflict_after:
  assumes "ok s" and "fst (commit x n s) = None"
    and "list_all (\<lambda>(y, m). unat m \<le> unat n + retain s) cs" and "x \<noteq> z"
  shows "fst (commit z n (fold (\<lambda>(y, n) s. snd (commit y n s)) cs (snd (commit x n s)))) \<noteq> None"
proof -
  have "committed (snd (commit x n s)) n = Some x"
  proof (cases "committed s n")
    case None
    then show ?thesis using fresh [OF assms(1)] by blast
  next
    case (Some w)
    then have "w = x"
      using refuse [OF Some, of x] assms(2) by fastforce
    with Some show ?thesis using repeat by simp
  qed
  then have "committed (fold (\<lambda>(y, n) s. snd (commit y n s)) cs (snd (commit x n s))) n = Some x"
    using assms by (intro run_keeps) (simp_all add: ok_commit retain_const)
  then show ?thesis using refuse [OF _ assms(4)] by fastforce
qed

end

lemma prune_frame [frame_simps]:
  "st_lastCommitted (pruneOldDataUnsafe E n s) = st_lastCommitted s"
  "st_config (pruneOldDataUnsafe E n s) = st_config s"
  "st_limits (pruneOldDataUnsafe E n s) = st_limits s"
  "st_evidence (pruneOldDataUnsafe E n s) = st_evidence s"
  "st_lastQC (pruneOldDataUnsafe E n s) = st_lastQC s"
  by (simp_all add: pruneOldDataUnsafe_def Let_def)

lemma prune_committed:
  "st_committedBlocks (pruneOldDataUnsafe E n s) =
    (let keep = word_of_int (sc_MinRetainBlocks (st_config s)) in
     if n \<le> keep then st_committedBlocks s
     else filter (\<lambda>(height, h). \<not> height < n - keep) (st_committedBlocks s))"
  by (simp add: pruneOldDataUnsafe_def Let_def)

lemma prune_get_committed:
  assumes "gm_wf (st_committedBlocks s)"
  shows "map_of (st_committedBlocks (pruneOldDataUnsafe E n s)) k =
    (let keep = word_of_int (sc_MinRetainBlocks (st_config s)) in
     if n > keep \<and> k < n - keep then None else map_of (st_committedBlocks s) k)"
  using assms
  by (auto simp: prune_committed Let_def map_of_filter_wf split: option.splits)

definition retain_blocks :: "'b storage \<Rightarrow> nat" where
  "retain_blocks s = unat (word_of_int (sc_MinRetainBlocks (st_config s)) :: u64)"

lemma prune_bound:
  assumes "unat n \<le> unat k + unat (keep :: u64)" and "keep < n"
  shows "\<not> k < n - keep"
proof -
  have "unat (n - keep) = unat n - unat keep"
    using assms(2) by (intro unat_sub) simp
  then show ?thesis
    using assms by (simp add: word_less_nat_alt)
qed

lemma CommitBlock_committed:
  assumes "gm_wf (st_committedBlocks s)" and "map_of (st_committedBlocks s) n = None"
  shows "map_of (st_committedBlocks (snd (CommitBlock E y n s))) k =
    (let keep = word_of_int (sc_MinRetainBlocks (st_config s)) in
     if sc_AutoPrune (st_config s) \<and> n > keep \<and> k < n - keep then None
     else if k = n then Some y else map_of (st_committedBlocks s) k)"
  using assms by (simp add: CommitBlock_def Let_def prune_get_committed)

lemma CommitBlock_cases:
  "CommitBlock E y n s = (None, s) \<or> CommitBlock E y n s = (Some (ConflictingCommit n), s)
    \<or> map_of (st_committedBlocks s) n = None"
  by (auto simp: CommitBlock_def split: option.splits)

interpretation cb: commit_log "CommitBlock E" "\<lambda>s. map_of (st_committedBlocks s)"
  st_lastCommitted retain_blocks "\<lambda>s. gm_wf (st_committedBlocks s)"
proof (unfold_locales, goal_cases)
  case (1 s n x y)
  then show ?case by (simp add: CommitBlock_def)
next
  case (2 s n x)
  then show ?case by (simp add: CommitBlock_def)
next
  case (3 s n y)
  have "\<not> n < n - word_of_int (sc_MinRetainBlocks (st_config s))"
    if "n > word_of_int (sc_MinRetainBlocks (st_config s))"
    using that by (intro prune_bound) simp_all
  then show ?case
    using 3 CommitBlock_committed [OF 3, of E y n]
    by (auto simp: CommitBlock_def Let_def)
next
  case (4 s k x n y)
  show ?case
  proof (cases "map_of (st_committedBlocks s) n = None")
    case True
    then have "\<not> k < n - word_of_int (sc_MinRetainBlocks (st_config s))"
      if "n > word_of_int (sc_MinRetainBlocks (st_config s))"
      using that 4 by (intro prune_bound) (simp_all add: retain_blocks_def)
    moreover have "k \<noteq> n" using True 4 by auto
    ultimately show ?thesis
      using 4 True by (auto simp: CommitBlock_committed Let_def)
  next
    case False
    then show ?thesis using 4 by (auto simp: CommitBlock_def)
  qed
next
  case (5 s y n k x)
  then show ?case
    using CommitBlock_cases [of E y n s]
    by (auto simp: CommitBlock_committed Let_def split: if_splits)
next
  case (6 s y n)
  then show ?case
    by (auto simp: CommitBlock_def Let_def frame_simps split: option.splits)
next
  case (7 y n s)
  then show ?case
    by (auto simp: CommitBlock_def Let_def retain_blocks_def frame_simps split: option.splits)
next
  case (8 s y n)
  then show ?case
    by (auto simp: CommitBlock_def Let_def prune_committed split: option.splits)
qed

text \<open>
  C20. Once a block is committed at a height, every later commit of another hash at that height
  is refused, whatever was committed in between, as long as those commits stay within
  \<^verbatim>\<open>MinRetainBlocks\<close> above it.
\<close>

theorem CommitBlock_no_conflict:
  assumes "gm_wf (st_committedBlocks s)" and "fst (CommitBlock E x n s) = None" and "x \<noteq> z"
    and "list_all (\<lambda>(y, m). unat m \<le> unat n + unat (word_of_int (sc_MinRetainBlocks (st_config s)) :: u64)) cs"
  shows "fst (CommitBlock E z n
    (fold (\<lambda>(y, n) s. snd (CommitBlock E y n s)) cs (snd (CommitBlock E x n s)))) \<noteq> None"
  using cb.conflict_after [OF assms(1,2) _ assms(3)] assms(4) by (simp add: retain_blocks_def)

definition ex_codec :: codec where
  "ex_codec = \<lparr>EncodeProposalWire = (\<lambda>p. Some [1]), DecodeProposalWire = (\<lambda>d. Inl ''none''),
     DecodeProposalWireMetadataOnly = (\<lambda>d. Inl ''none''), marshalVote = (\<lambda>v. Some [2]),
     unmarshalVote = (\<lambda>d. None), marshalQC = (\<lambda>q. Some [3]), unmarshalQC = (\<lambda>d. None),
     marshalEvidence = (\<lambda>e. Some [4]), unmarshalEvidence = (\<lambda>d. None)\<rparr>"

definition ex_backend :: "nat storageBackend" where
  "ex_backend = \<lparr>be_SaveProposal = (\<lambda>h n v p d b. (True, Suc b)), be_LoadProposal = (\<lambda>h b. Some []),
     be_ListProposals = (\<lambda>n l b. Some []), be_SaveQC = (\<lambda>h n v d b. (True, Suc b)),
     be_ListQCs = (\<lambda>n l b. Some []), be_SaveVote = (\<lambda>v n w h x d b. (True, Suc b)),
     be_ListVotes = (\<lambda>n l b. Some []), be_SaveEvidence = (\<lambda>h n d b. (True, Suc b)),
     be_ListEvidence = (\<lambda>n l b. Some []), be_LoadLastCommitted = (\<lambda>b. None),
     be_DeleteBefore = (\<lambda>n b. (True, b)), be_tip = None\<rparr>"

definition ex_env :: "nat storageEnv" where
  "ex_env = \<lparr>se_backend = ex_backend, se_codec = ex_codec, se_sha256 = (\<lambda>bs. of_nat (length bs))\<rparr>"

definition ex_limits :: encoderLimits where
  "ex_limits = \<lparr>el_MaxProposalSize = 1048576, el_MaxVoteSize = 10240, el_MaxQCSize = 102400,
     el_MaxEvidenceSize = 204800\<rparr>"

definition ex_storage :: "nat storage" where
  "ex_storage = NewStorage ex_limits (Some 0) DefaultStorageConfig"

lemmas ex_storage_simps = ex_storage_def ex_limits_def ex_env_def ex_backend_def ex_codec_def
  NewStorage_def DefaultStorageConfig_def

theorem CommitBlock_no_conflict_witness:
  "fst (CommitBlock ex_env 77 5
    (fold (\<lambda>(y, n) s. snd (CommitBlock ex_env y n s)) [(60, 6), (70, 15)]
      (snd (CommitBlock ex_env 50 5 ex_storage)))) \<noteq> None"
  by (rule CommitBlock_no_conflict) (simp_all add: ex_storage_simps CommitBlock_def Let_def)

text \<open>
  Pruning makes the log forget: a commit more than \<^verbatim>\<open>MinRetainBlocks\<close> above a
  height removes its entry, and a commit of any other hash at that height then succeeds, although
  the code comments that conflicting commits at one height fail closed.
\<close>

theorem CommitBlock_accepts_conflict_after_prune:
  assumes "gm_wf (st_committedBlocks s)" and "sc_AutoPrune (st_config s)"
    and "map_of (st_committedBlocks s) n = None" and "map_of (st_committedBlocks s) m = None"
    and "n \<noteq> m"
    and "unat n + unat (word_of_int (sc_MinRetainBlocks (st_config s)) :: u64) < unat m"
  shows "fst (CommitBlock E z n (snd (CommitBlock E y m (snd (CommitBlock E x n s))))) = None"
proof -
  let ?keep = "word_of_int (sc_MinRetainBlocks (st_config s)) :: u64"
  let ?s1 = "snd (CommitBlock E x n s)"
  have keep: "?keep < m" and small: "n < m - ?keep"
    using assms(6) by (simp_all add: word_less_nat_alt unat_sub word_le_nat_alt)
  have wf: "gm_wf (st_committedBlocks ?s1)"
    using cb.ok_commit assms(1) .
  have none: "map_of (st_committedBlocks ?s1) m = None"
    using CommitBlock_committed [OF assms(1,3), of E x m] assms(4,5) by (simp add: Let_def)
  have cfg: "st_config ?s1 = st_config s"
    using assms(3) by (simp add: CommitBlock_def Let_def frame_simps)
  have "map_of (st_committedBlocks (snd (CommitBlock E y m ?s1))) n = None"
    using CommitBlock_committed [OF wf none, of E y n] keep small assms(2)
    by (simp add: Let_def cfg)
  then show ?thesis by (simp add: CommitBlock_def Let_def)
qed

theorem CommitBlock_accepts_conflict_after_prune_witness:
  "fst (CommitBlock ex_env 77 5 (snd (CommitBlock ex_env 60 16 (snd (CommitBlock ex_env 50 5 ex_storage)))))
    = None"
  by (rule CommitBlock_accepts_conflict_after_prune) (simp_all add: ex_storage_simps)

subsection \<open>Invariant\<close>

text \<open>
  Every map has distinct keys, a proposal is filed under its block hash and a vote under its view,
  the bounded stores stay within their bounds, and no committed height exceeds the tip.
\<close>

definition storage_inv :: "'b storage \<Rightarrow> bool" where
  "storage_inv s \<longleftrightarrow>
     gm_wf (st_proposals s) \<and> gm_wf (st_votes s) \<and> gm_wf (st_qcs s) \<and> gm_wf (st_evidence s)
     \<and> gm_wf (st_committedBlocks s)
     \<and> list_all (\<lambda>(k, p). p_blockHash p = k) (st_proposals s)
     \<and> list_all (\<lambda>(view, vs). list_all (\<lambda>v. v_view v = view) vs
         \<and> length vs \<le> nat (sc_MaxVotesPerView (st_config s))) (st_votes s)
     \<and> length (st_qcs s) \<le> nat (sc_MaxQCs (st_config s))
     \<and> length (st_evidence s) \<le> nat (sc_MaxEvidence (st_config s))
     \<and> list_all (\<lambda>(height, h). height \<le> st_lastCommitted s) (st_committedBlocks s)"

inductive storage_step :: "'b storageEnv \<Rightarrow> 'b storage \<Rightarrow> 'b storage \<Rightarrow> bool" for E where
  storeProposal: "storage_step E s (snd (StoreProposal E now p s))"
| recoverProposal: "storage_step E s (snd (GetProposalOrRecover E h s))"
| reconcile: "storage_step E s (snd (ReconcileReplayWindow E now n force s))"
| storeVote: "storage_step E s (snd (StoreVote E v s))"
| storeQC: "storage_step E s (snd (StoreQC E q s))"
| storeEvidence: "storage_step E s (snd (StoreEvidence E e s))"
| commitBlock: "storage_step E s (snd (CommitBlock E h n s))"
| prune: "storage_step E s (Prune E n s)"
| setBackend: "storage_step E s (SetBackend b s)"

lemma storage_inv_New [inv_intros]: "storage_inv (NewStorage l b c)"
  by (simp add: storage_inv_def NewStorage_def)

lemma storage_inv_indep [frame_simps]:
  "storage_inv (s\<lparr>st_backend := b\<rparr>) = storage_inv s"
  "storage_inv (s\<lparr>st_lastRecoverAttemptAt := t\<rparr>) = storage_inv s"
  "storage_inv (s\<lparr>st_rejectCount := c\<rparr>) = storage_inv s"
  "storage_inv (s\<lparr>st_recoverSuccessCount := c\<rparr>) = storage_inv s"
  "storage_inv (s\<lparr>st_recoverFailureCount := c\<rparr>) = storage_inv s"
  "storage_inv (s\<lparr>st_lastQC := q\<rparr>) = storage_inv s"
  "storage_inv (s\<lparr>st_lastRecoverAttemptAt := t, st_lastCommitted := n, st_committedBlocks := m\<rparr>)
    = storage_inv (s\<lparr>st_lastCommitted := n, st_committedBlocks := m\<rparr>)"
  "storage_inv (s\<lparr>st_proposals := ps, st_backend := b\<rparr>) = storage_inv (s\<lparr>st_proposals := ps\<rparr>)"
  "storage_inv (s\<lparr>st_qcs := qs, st_lastQC := q\<rparr>) = storage_inv (s\<lparr>st_qcs := qs\<rparr>)"
  by (simp_all add: storage_inv_def)

lemma storage_inv_put_proposal [inv_intros]:
  "storage_inv s \<Longrightarrow> p_blockHash p = h \<Longrightarrow>
    storage_inv (s\<lparr>st_proposals := AList.update h p (st_proposals s)\<rparr>)"
  by (auto simp: storage_inv_def)

lemma storage_inv_del_proposal [inv_intros]:
  "storage_inv s \<Longrightarrow> storage_inv (s\<lparr>st_proposals := AList.delete h (st_proposals s)\<rparr>)"
  by (auto simp: storage_inv_def)

lemma storage_inv_commit [inv_intros]:
  assumes "storage_inv s" and "st_lastCommitted s \<le> t" and "n \<le> t"
  shows "storage_inv (s\<lparr>st_lastCommitted := t, st_committedBlocks := AList.update n h (st_committedBlocks s)\<rparr>)"
proof -
  have "list_all (\<lambda>(height, h). height \<le> t) (st_committedBlocks s)"
    using assms(1,2) by (auto simp: storage_inv_def list_all_iff)
  then show ?thesis
    using assms(1,3) by (auto simp: storage_inv_def)
qed

lemma storage_inv_reconcile [inv_intros]:
  "storage_inv s \<Longrightarrow> storage_inv (snd (tryReconcileReplayWindowLocked E now force s))"
  by (auto simp: tryReconcileReplayWindowLocked_def Let_def frame_simps
    split: option.splits intro!: storage_inv_commit)

lemma storage_inv_countRecovery: "storage_inv (countRecovery n r) = storage_inv (snd r)"
  by (cases "(n, r)" rule: countRecovery.cases) (simp_all add: frame_simps)

lemma storage_inv_recoverWindow [inv_intros]:
  "storage_inv s \<Longrightarrow> storage_inv (recoverWindow E now n s)"
  by (simp add: recoverWindow_def Let_def storage_inv_countRecovery storage_inv_reconcile frame_simps)

lemma storage_inv_persistProposal [inv_intros]:
  "storage_inv s \<Longrightarrow> storage_inv (snd (persistProposal E p s))"
  by (auto simp: persistProposal_def frame_simps split: option.splits prod.splits bool.splits
    intro!: inv_intros)

lemma storage_inv_StoreProposal [inv_intros]:
  "storage_inv s \<Longrightarrow> storage_inv (snd (StoreProposal E now p s))"
  by (auto simp: StoreProposal_def Let_def intro!: inv_intros)

lemma storage_inv_GetProposalOrRecover [inv_intros]:
  "storage_inv s \<Longrightarrow> storage_inv (snd (GetProposalOrRecover E h s))"
  by (auto simp: GetProposalOrRecover_def split: option.splits sum.splits intro!: inv_intros)

lemma storage_inv_put_vote:
  assumes "storage_inv s"
    and "\<not> int (length (votes_at (st_votes s) (v_view v))) \<ge> sc_MaxVotesPerView (st_config s)"
  shows "storage_inv
    (s\<lparr>st_votes := AList.update (v_view v) (votes_at (st_votes s) (v_view v) @ [v]) (st_votes s)\<rparr>)"
proof -
  have "list_all (\<lambda>w. v_view w = v_view v) (votes_at (st_votes s) (v_view v))"
    using assms(1) gm_all_get [of _ "st_votes s" "v_view v"]
    by (fastforce simp: votes_at_def storage_inv_def split: option.splits)
  moreover have "Suc (length (votes_at (st_votes s) (v_view v))) \<le> nat (sc_MaxVotesPerView (st_config s))"
    using assms(2) by linarith
  ultimately show ?thesis
    using assms(1) by (auto simp: storage_inv_def)
qed

lemma storage_inv_StoreVote [inv_intros]:
  "storage_inv s \<Longrightarrow> storage_inv (snd (StoreVote E v s))"
  using storage_inv_put_vote [of s v]
  by (auto simp: StoreVote_def Let_def frame_simps storage_inv_def split: option.splits prod.splits)

lemma storage_inv_StoreQC [inv_intros]:
  "storage_inv s \<Longrightarrow> storage_inv (snd (StoreQC E q s))"
  using length_update_bound [of "st_qcs s" "nat (sc_MaxQCs (st_config s))" "iface_Hash (se_sha256 E) q" q]
  by (auto simp: StoreQC_def Let_def storage_inv_def split: option.splits prod.splits)

lemma storage_inv_StoreEvidence [inv_intros]:
  "storage_inv s \<Longrightarrow> storage_inv (snd (StoreEvidence E e s))"
  using length_update_bound [of "st_evidence s" "nat (sc_MaxEvidence (st_config s))"
      "evidence_Hash (se_sha256 E) e" e]
  by (auto simp: StoreEvidence_def Let_def storage_inv_def split: option.splits prod.splits)

lemma storage_inv_prune [inv_intros]:
  "storage_inv s \<Longrightarrow> storage_inv (pruneOldDataUnsafe E n s)"
  by (auto simp: pruneOldDataUnsafe_def Let_def storage_inv_def
    intro: le_trans [OF length_filter_le])

lemma storage_inv_CommitBlock [inv_intros]:
  "storage_inv s \<Longrightarrow> storage_inv (snd (CommitBlock E h n s))"
  using storage_inv_commit [of s "st_lastCommitted s" n h]
  by (auto simp: CommitBlock_def Let_def split: option.splits intro!: inv_intros)

lemma storage_step_inv: "storage_step E s t \<Longrightarrow> storage_inv s \<Longrightarrow> storage_inv t"
  by (induction rule: storage_step.induct)
    (auto simp: ReconcileReplayWindow_def Prune_def SetBackend_def frame_simps intro!: inv_intros)

interpretation st_run: step_invariant "storage_step E" storage_inv
  by unfold_locales (rule storage_step_inv)

text \<open>
  Every state a storage object reaches from \<^verbatim>\<open>NewStorage\<close> through its public
  operations, in any order and with any outcome of the backend, satisfies the invariant: proposals
  and votes are filed under their own keys, the stores respect their capacities, and no height
  above the tip is committed.
\<close>

theorem storage_invariant:
  assumes "(storage_step E)\<^sup>*\<^sup>* (NewStorage l b c) s"
  shows "storage_inv s"
  using assms storage_inv_New by (rule st_run.run_keeps_inv)

theorem storage_invariant_witness:
  "storage_inv (snd (CommitBlock ex_env 42 3 (snd (StoreVote ex_env (ex_vote 1) ex_storage))))"
proof (rule storage_invariant)
  show "(storage_step ex_env)\<^sup>*\<^sup>* (NewStorage ex_limits (Some 0) DefaultStorageConfig)
    (snd (CommitBlock ex_env 42 3 (snd (StoreVote ex_env (ex_vote 1) ex_storage))))"
    unfolding ex_storage_def
    by (rule rtranclp.rtrancl_into_rtrancl, rule r_into_rtranclp, rule storage_step.storeVote,
      rule storage_step.commitBlock)
qed

subsection \<open>The tip, the window and the newest certificate\<close>

lemma tip_reconcile:
  "st_lastCommitted s \<le> st_lastCommitted (snd (tryReconcileReplayWindowLocked E now force s))"
  by (auto simp: tryReconcileReplayWindowLocked_def Let_def split: option.splits)

lemma tip_countRecovery [frame_simps]: "st_lastCommitted (countRecovery n r) = st_lastCommitted (snd r)"
  by (cases "(n, r)" rule: countRecovery.cases) simp_all

lemma tip_recoverWindow: "st_lastCommitted s \<le> st_lastCommitted (recoverWindow E now n s)"
  using tip_reconcile [of "s\<lparr>st_rejectCount := st_rejectCount s + 1\<rparr>" E now]
  by (simp add: recoverWindow_def Let_def frame_simps)

lemma persistProposal_frame [frame_simps]:
  "st_lastCommitted (snd (persistProposal E p s)) = st_lastCommitted s"
  "st_config (snd (persistProposal E p s)) = st_config s"
  by (auto simp: persistProposal_def split: option.splits prod.splits bool.splits)

lemma tip_step: "storage_step E s t \<Longrightarrow> st_lastCommitted s \<le> st_lastCommitted t"
proof (induction rule: storage_step.induct)
  case (storeProposal s now p)
  then show ?case
    using tip_recoverWindow [of s E now "p_height p"]
    by (simp add: StoreProposal_def Let_def frame_simps)
next
  case (recoverProposal s h)
  then show ?case
    by (auto simp: GetProposalOrRecover_def split: option.splits sum.splits)
next
  case (commitBlock s h n)
  show ?case by (rule cb.tip_up)
qed (auto simp: ReconcileReplayWindow_def tip_reconcile StoreVote_def StoreQC_def StoreEvidence_def
    Prune_def SetBackend_def Let_def frame_simps split: option.splits prod.splits)

interpretation st_tip: step_monotone "storage_step E" st_lastCommitted
  by unfold_locales (rule tip_step)

text \<open>
  The committed tip never moves backwards, whatever sequence of storage operations runs.
\<close>

theorem storage_tip_monotone:
  assumes "(storage_step E)\<^sup>*\<^sup>* s t"
  shows "st_lastCommitted s \<le> st_lastCommitted t"
  using assms by (rule st_tip.run_up)

theorem storage_tip_monotone_witness:
  "st_lastCommitted ex_storage \<le> st_lastCommitted (snd (CommitBlock ex_env 42 3 ex_storage))"
  by (rule storage_tip_monotone) (rule r_into_rtranclp, rule storage_step.commitBlock)

lemma persistProposal_ok:
  assumes "fst (persistProposal E p s) = None"
  shows "st_proposals (snd (persistProposal E p s)) = st_proposals s"
  using assms by (auto simp: persistProposal_def split: option.splits prod.splits bool.splits)

lemma persistProposal_failed:
  assumes "fst (persistProposal E p s) = Some e"
  shows "st_proposals (snd (persistProposal E p s)) = AList.delete (p_blockHash p) (st_proposals s)"
  using assms by (auto simp: persistProposal_def split: option.splits prod.splits bool.splits if_splits)

text \<open>
  \<^verbatim>\<open>StoreProposal\<close> is atomic over memory and backend: when it succeeds the
  proposal is found under its hash and its height lies in the replay window above the tip, when
  encoding or saving fails it is not in memory.
\<close>

theorem StoreProposal_atomic:
  assumes "storage_inv s" and "StoreProposal E now p s = (r, s')"
  shows "(r = None \<longrightarrow> GetProposal s' (p_blockHash p) = Some p \<and> isWithinWindow s' (p_height p))
    \<and> (r \<in> {Some EncodeProposal, Some PersistProposal} \<longrightarrow> GetProposal s' (p_blockHash p) = None)"
proof -
  define u where "u = (if isWithinWindow s (p_height p) then s else recoverWindow E now (p_height p) s)"
  define w where "w = u\<lparr>st_proposals := AList.update (p_blockHash p) p (st_proposals u)\<rparr>"
  have inv: "storage_inv w"
    using assms(1) by (auto simp: u_def w_def intro!: inv_intros)
  have eq: "StoreProposal E now p s =
    (if \<not> isWithinWindow u (p_height p)
     then (Some (OutsideReplayWindow (p_height p) (st_lastCommitted u + 1)
             (st_lastCommitted u + word_of_int (sc_ReplayWindowSize (st_config u)))), u)
     else if int (length (st_proposals u)) \<ge> sc_MaxProposals (st_config u)
     then (Some (ProposalStorageFull (length (st_proposals u))), u)
     else persistProposal E p w)"
    by (simp add: StoreProposal_def Let_def u_def w_def)
  have win: "isWithinWindow (snd (persistProposal E p w)) n = isWithinWindow u n" for n
    by (simp add: isWithinWindow_def frame_simps w_def)
  have wf: "gm_wf (st_proposals w)"
    using inv by (simp add: storage_inv_def)
  show ?thesis
    using assms(2) persistProposal_ok [of E p w] persistProposal_failed [of E p w] win wf
    unfolding eq by (auto simp: GetProposal_def w_def split: if_splits)
qed

definition ex_proposal :: proposal where
  "ex_proposal = \<lparr>p_view = 7, p_height = 3, p_round = 0, p_blockHash = 42, p_parentHash = 41,
     p_proposerID = 1, p_timestamp = 0, p_justifyQC = None, p_block = None, p_signature = ex_sig 1\<rparr>"

theorem StoreProposal_atomic_witness:
  "\<exists>s'. StoreProposal ex_env 0 ex_proposal ex_storage = (None, s') \<and> GetProposal s' 42 = Some ex_proposal"
proof -
  obtain s' where s': "StoreProposal ex_env 0 ex_proposal ex_storage = (None, s')"
    by (simp add: StoreProposal_def persistProposal_def isWithinWindow_def encodeProposal_def
      limitSize_def Let_def ex_storage_simps ex_proposal_def)
  have "storage_inv ex_storage"
    by (simp add: ex_storage_def storage_inv_New)
  from StoreProposal_atomic [OF this s'] have "GetProposal s' (p_blockHash ex_proposal) = Some ex_proposal"
    by simp
  with s' show ?thesis by (simp add: ex_proposal_def)
qed

lemma StoreQC_lastQC_view:
  "getQCView (st_lastQC s) \<le> getQCView (st_lastQC (snd (StoreQC E q s)))"
  by (cases "st_lastQC s")
    (auto simp: StoreQC_def Let_def split: option.splits prod.splits)

lemma StoreQC_lastQC_ge:
  "fst (StoreQC E q s) = None \<Longrightarrow> getView q \<le> getQCView (st_lastQC (snd (StoreQC E q s)))"
  by (cases "st_lastQC s")
    (auto simp: StoreQC_def Let_def split: option.splits prod.splits if_splits)

end
