(* ===== verification/Pacemaker.thy ===== *)
theory Pacemaker
  imports Rotation
begin

text \<open>
  The pacemaker, \<^verbatim>\<open>backend/pkg/consensus/leader/leader.go\<close>: views, heights, timeouts,
  view changes, new-view messages and catch-up broadcasts, with the network adapter of
  \<^verbatim>\<open>api/pacemaker_publisher_adapter.go\<close>.

  The engine callback \<^verbatim>\<open>OnViewChange\<close> is the argument \<open>cb\<close>, a function on the callback's
  own state \<open>'h\<close> that also returns whether it succeeded (\<open>None\<close>: no callback). Signing, publishing and
  the jitter of \<^verbatim>\<open>math.Sin\<close> are fields of \<open>pmEnv\<close>; what is published is logged in
  \<open>pm_sent\<close>. One handler reads the clock once, as \<open>now\<close>. The armed timer is the pair of the
  instant it was set and its duration. \<^verbatim>\<open>float64\<close> factors are rationals. Durations are small
  enough for \<^verbatim>\<open>int64\<close> and are plain integers.
\<close>

subsection \<open>State\<close>

definition catchupResendBaseInterval :: duration where
  "catchupResendBaseInterval = 1 * second"

definition maxCatchupRetries :: int where
  "maxCatchupRetries = 5"

definition stalePeerWindow :: duration where
  "stalePeerWindow = 30 * second"

record viewRetryState =
  rs_attempts :: int
  rs_firstTry :: instant
  rs_lastRetry :: instant

definition emptyRetry :: viewRetryState where
  "emptyRetry = \<lparr>rs_attempts = 0, rs_firstTry = zeroTime, rs_lastRetry = zeroTime\<rparr>"

record viewChangeMsg =
  lvc_OldView :: u64
  lvc_NewView :: u64
  lvc_HighestQC :: "qc option"
  lvc_SenderID :: validatorID
  lvc_Timestamp :: instant
  lvc_Signature :: bytes

record newViewMsg =
  lnv_View :: u64
  lnv_ViewChanges :: "viewChangeMsg list"
  lnv_HighestQC :: "qc option"
  lnv_LeaderID :: validatorID
  lnv_Timestamp :: instant
  lnv_Signature :: bytes

record pacemakerConfig =
  pc_BaseTimeout :: duration
  pc_MaxTimeout :: duration
  pc_MinTimeout :: duration
  pc_TimeoutIncreaseFactor :: rat
  pc_TimeoutDecreaseDelta :: duration
  pc_JitterPercent :: rat
  pc_ViewChangeTimeout :: duration
  pc_EnableAIMD :: bool
  pc_RequireQuorum :: bool

definition DefaultPacemakerConfig :: pacemakerConfig where
  "DefaultPacemakerConfig = \<lparr>pc_BaseTimeout = 10 * second, pc_MaxTimeout = 60 * second,
     pc_MinTimeout = 5 * second, pc_TimeoutIncreaseFactor = 3 / 2,
     pc_TimeoutDecreaseDelta = 200 * millisecond, pc_JitterPercent = 1 / 10,
     pc_ViewChangeTimeout = 30 * second, pc_EnableAIMD = True, pc_RequireQuorum = True\<rparr>"

datatype pmOut = SentViewChange viewChangeMsg | SentNewView newViewMsg

record pacemaker =
  pm_currentView :: u64
  pm_currentHeight :: u64
  pm_highestQC :: "qc option"
  pm_viewTimer :: "(instant \<times> duration) option"
  pm_timeout :: duration
  pm_viewChanges :: "(u64, (validatorID, viewChangeMsg) gomap) gomap"
  pm_lastCatchupBroadcast :: "(u64, instant) gomap"
  pm_retryState :: "(u64, viewRetryState) gomap"
  pm_staleViewChanges :: "(u64, instant) gomap"
  pm_newViewSent :: bool
  pm_startTime :: instant
  pm_lastViewTime :: instant
  pm_circuitBreakerHits :: int
  pm_stopped :: bool
  pm_sent :: "pmOut list"

text \<open>
  \<open>pe_publishVC\<close> and \<open>pe_publishNV\<close> say whether a publication succeeds, \<open>None\<close> when there
  is no publisher; \<open>pe_onNewViewOk\<close> is the outcome of the callback \<^verbatim>\<open>OnNewView\<close>.
\<close>

record pmEnv =
  pe_rotation :: rotation
  pe_config :: pacemakerConfig
  pe_keyID :: validatorID
  pe_sign :: "bytes \<Rightarrow> bytes option"
  pe_publishVC :: "(viewChangeMsg \<Rightarrow> bool) option"
  pe_publishNV :: "(newViewMsg \<Rightarrow> bool) option"
  pe_jitter :: "instant \<Rightarrow> rat"
  pe_sha256 :: "bytes \<Rightarrow> hash32"
  pe_onNewViewOk :: bool

type_synonym 'h viewCallback = "(u64 \<Rightarrow> qc option \<Rightarrow> 'h \<Rightarrow> bool \<times> 'h) option"

datatype pacemaker_error =
    CreateViewChange
  | OldViewChange u64 u64
  | LeaderCheck
  | NoViewChanges u64
  | SignNewView
  | NewViewCallback
  | ViewChangeCallback
  | OldNewView u64 u64
  | NewViewNonLeader
  | NewViewQuorum nat int

definition NewPacemaker :: "pacemakerConfig \<Rightarrow> pacemaker" where
  "NewPacemaker cfg = \<lparr>pm_currentView = 0, pm_currentHeight = 0, pm_highestQC = None,
     pm_viewTimer = None, pm_timeout = pc_BaseTimeout cfg, pm_viewChanges = [],
     pm_lastCatchupBroadcast = [], pm_retryState = [], pm_staleViewChanges = [],
     pm_newViewSent = False, pm_startTime = zeroTime, pm_lastViewTime = zeroTime,
     pm_circuitBreakerHits = 0, pm_stopped = False, pm_sent = []\<rparr>"

subsection \<open>Timeouts\<close>

definition go_trunc :: "rat \<Rightarrow> int" where
  "go_trunc x = (if x \<ge> 0 then \<lfloor>x\<rfloor> else \<lceil>x\<rceil>)"

definition addJitter :: "pmEnv \<Rightarrow> instant \<Rightarrow> duration \<Rightarrow> duration" where
  "addJitter E now d =
     (if pc_JitterPercent (pe_config E) \<le> 0 then d
      else
        let jitter = of_int d * pc_JitterPercent (pe_config E); offset = pe_jitter E now * jitter in
        d + go_trunc offset)"

definition resetTimerLocked :: "pmEnv \<Rightarrow> instant \<Rightarrow> pacemaker \<Rightarrow> pacemaker" where
  "resetTimerLocked E now pm = pm\<lparr>pm_viewTimer := Some (now, addJitter E now (pm_timeout pm))\<rparr>"

definition increaseTimeout :: "pacemakerConfig \<Rightarrow> pacemaker \<Rightarrow> pacemaker" where
  "increaseTimeout cfg pm =
     (let newTimeout = go_trunc (of_int (pm_timeout pm) * pc_TimeoutIncreaseFactor cfg) in
      pm\<lparr>pm_timeout := (if newTimeout > pc_MaxTimeout cfg then pc_MaxTimeout cfg else newTimeout)\<rparr>)"

definition decreaseTimeout :: "pacemakerConfig \<Rightarrow> pacemaker \<Rightarrow> pacemaker" where
  "decreaseTimeout cfg pm =
     (let p = go_div (pm_timeout pm) 5;
          propStep = (if p < millisecond then millisecond else p);
          step = (if propStep > pc_TimeoutDecreaseDelta cfg then propStep else pc_TimeoutDecreaseDelta cfg);
          newTimeout = pm_timeout pm - step in
      pm\<lparr>pm_timeout := (if newTimeout < pc_MinTimeout cfg then pc_MinTimeout cfg else newTimeout)\<rparr>)"

definition catchupResendIntervalFor :: "duration \<Rightarrow> int \<Rightarrow> duration" where
  "catchupResendIntervalFor currentTimeout attempts =
     (let interval =
            (if attempts > 0
             then let backoff = 2 ^ nat attempts * catchupResendBaseInterval in
                  (if backoff < currentTimeout then backoff else currentTimeout)
             else catchupResendBaseInterval);
          maxInterval = go_div currentTimeout 2 in
      if interval > maxInterval then maxInterval else interval)"

subsection \<open>Messages\<close>

definition viewChangeSignBytes :: "viewChangeMsg \<Rightarrow> bytes" where
  "viewChangeSignBytes vc = domain_prefix (domain_of MessageTypeViewChange)
     @ be_bytes 8 (lvc_OldView vc) @ be_bytes 8 (lvc_NewView vc) @ be_bytes 8 (0 :: u64)
     @ be_bytes 32 (lvc_SenderID vc) @ appendInt64 (lvc_Timestamp vc)"

definition hashViewChange :: "(bytes \<Rightarrow> hash32) \<Rightarrow> viewChangeMsg \<Rightarrow> hash32" where
  "hashViewChange sha256 vc = sha256 (domain_prefix (domain_of MessageTypeViewChange)
     @ be_bytes 8 (lvc_OldView vc) @ be_bytes 8 (lvc_NewView vc) @ be_bytes 8 (0 :: u64)
     @ be_bytes 32 (lvc_SenderID vc) @ appendInt64 (lvc_Timestamp vc))"

definition newViewSignBytes :: "(bytes \<Rightarrow> hash32) \<Rightarrow> newViewMsg \<Rightarrow> bytes" where
  "newViewSignBytes sha256 nv = domain_prefix (domain_of MessageTypeNewView)
     @ be_bytes 8 (lnv_View nv) @ be_bytes 8 (0 :: u64) @ be_bytes 32 (lnv_LeaderID nv)
     @ appendInt64 (lnv_Timestamp nv)
     @ concat (map (\<lambda>vc. be_bytes 32 (hashViewChange sha256 vc)) (lnv_ViewChanges nv))
     @ (case lnv_HighestQC nv of None \<Rightarrow> [] | Some q \<Rightarrow> be_bytes 32 (iface_Hash sha256 q))"

text \<open>What the publisher adapter puts on the wire: height 0 and no certificate.\<close>

definition PublishViewChange :: "viewChangeMsg \<Rightarrow> viewChange" where
  "PublishViewChange vc = \<lparr>vc_oldView = lvc_OldView vc, vc_newView = lvc_NewView vc, vc_height = 0,
     vc_highestQC = None, vc_senderID = lvc_SenderID vc, vc_timestamp = lvc_Timestamp vc,
     vc_signature = \<lparr>sig_bytes = lvc_Signature vc, sig_keyID = lvc_SenderID vc,
       sig_timestamp = lvc_Timestamp vc\<rparr>\<rparr>"

definition PublishNewView :: "newViewMsg \<Rightarrow> newView" where
  "PublishNewView nv = \<lparr>nv_view = lnv_View nv, nv_height = 0,
     nv_viewChanges = map PublishViewChange (lnv_ViewChanges nv), nv_highestQC = None,
     nv_leaderID = lnv_LeaderID nv, nv_timestamp = lnv_Timestamp nv,
     nv_signature = \<lparr>sig_bytes = lnv_Signature nv, sig_keyID = lnv_LeaderID nv,
       sig_timestamp = lnv_Timestamp nv\<rparr>\<rparr>"

definition buildViewChangeMsg ::
    "pmEnv \<Rightarrow> instant \<Rightarrow> u64 \<Rightarrow> u64 \<Rightarrow> qc option \<Rightarrow> viewChangeMsg option" where
  "buildViewChangeMsg E now oldView newView oq =
     (let vc = \<lparr>lvc_OldView = oldView, lvc_NewView = newView, lvc_HighestQC = oq,
                lvc_SenderID = pe_keyID E, lvc_Timestamp = now, lvc_Signature = []\<rparr> in
      map_option (\<lambda>sig. vc\<lparr>lvc_Signature := sig\<rparr>) (pe_sign E (viewChangeSignBytes vc)))"

definition createViewChangeMsg ::
    "pmEnv \<Rightarrow> instant \<Rightarrow> u64 \<Rightarrow> u64 \<Rightarrow> pacemaker \<Rightarrow> viewChangeMsg option" where
  "createViewChangeMsg E now oldView newView pm =
     buildViewChangeMsg E now oldView newView (pm_highestQC pm)"

definition rebuildViewChangeForRebroadcast ::
    "pmEnv \<Rightarrow> instant \<Rightarrow> viewChangeMsg \<Rightarrow> u64 \<Rightarrow> u64 \<Rightarrow> viewChangeMsg option" where
  "rebuildViewChangeForRebroadcast E now existing oldView newView =
     buildViewChangeMsg E now oldView newView (lvc_HighestQC existing)"

definition vcs_at :: "pacemaker \<Rightarrow> u64 \<Rightarrow> (validatorID, viewChangeMsg) gomap" where
  "vcs_at pm view = (case map_of (pm_viewChanges pm) view of None \<Rightarrow> [] | Some m \<Rightarrow> m)"

definition storeViewChange :: "u64 \<Rightarrow> validatorID \<Rightarrow> viewChangeMsg \<Rightarrow> pacemaker \<Rightarrow> pacemaker" where
  "storeViewChange view i vc pm =
     pm\<lparr>pm_viewChanges := AList.update view (AList.update i vc (vcs_at pm view)) (pm_viewChanges pm)\<rparr>"

definition viewChangeQuorum :: "pmEnv \<Rightarrow> int" where
  "viewChangeQuorum E =
     (let f = go_div (getValidatorCount (ro_validatorSet (pe_rotation E)) - 1) 3 in 2 * f + 1)"

definition hasViewChangeQuorum :: "pmEnv \<Rightarrow> u64 \<Rightarrow> pacemaker \<Rightarrow> bool" where
  "hasViewChangeQuorum E view pm =
     (if \<not> pc_RequireQuorum (pe_config E) then True
      else int (length (vcs_at pm view)) \<ge> viewChangeQuorum E)"

definition betterQC :: "qc option \<Rightarrow> qc option \<Rightarrow> qc option" where
  "betterQC best oq =
     (case oq of
        None \<Rightarrow> best
      | Some q \<Rightarrow>
          (case best of
             None \<Rightarrow> Some q
           | Some b \<Rightarrow> if getView q > getView b then Some q else best))"

definition selectHighestQCForViewLocked ::
    "((validatorID, viewChangeMsg) gomap \<Rightarrow> (validatorID, viewChangeMsg) gomap) \<Rightarrow> u64 \<Rightarrow> pacemaker
      \<Rightarrow> qc option" where
  "selectHighestQCForViewLocked ord view pm =
     foldl betterQC (pm_highestQC pm) (map (lvc_HighestQC \<circ> snd) (ord (vcs_at pm view)))"

subsection \<open>View changes\<close>

text \<open>\<open>advanceView\<close> restores the old values when the callback fails.\<close>

definition advanceView ::
    "pmEnv \<Rightarrow> 'h viewCallback \<Rightarrow> instant \<Rightarrow> u64 \<Rightarrow> qc option \<Rightarrow> pacemaker \<times> 'h
      \<Rightarrow> pacemaker_error option \<times> pacemaker \<times> 'h" where
  "advanceView E cb now newView oq ph =
     (let (pm, h) = ph;
          moved = pm\<lparr>pm_currentView := newView, pm_lastViewTime := now, pm_newViewSent := False\<rparr>;
          moved = (case oq of
                     None \<Rightarrow> moved
                   | Some q \<Rightarrow>
                       if pm_highestQC pm = None \<or> getView q > getQCView (pm_highestQC pm)
                       then moved\<lparr>pm_highestQC := Some q, pm_currentHeight := getHeight q + 1\<rparr>
                       else moved);
          settle = (\<lambda>pm. resetTimerLocked E now
                    (if pc_EnableAIMD (pe_config E) then decreaseTimeout (pe_config E) pm else pm)) in
      case cb of
        None \<Rightarrow> (None, settle moved, h)
      | Some f \<Rightarrow>
          (case f newView oq h of
             (False, h') \<Rightarrow>
               (Some ViewChangeCallback,
                moved\<lparr>pm_currentView := pm_currentView pm, pm_lastViewTime := pm_lastViewTime pm,
                      pm_highestQC := pm_highestQC pm, pm_currentHeight := pm_currentHeight pm,
                      pm_newViewSent := pm_newViewSent pm\<rparr>, h')
           | (True, h') \<Rightarrow> (None, settle moved, h')))"

definition TriggerViewChange :: "pmEnv \<Rightarrow> instant \<Rightarrow> pacemaker \<Rightarrow> pacemaker_error option \<times> pacemaker" where
  "TriggerViewChange E now pm =
     (let oldView = pm_currentView pm; newView = oldView + 1 in
      case createViewChangeMsg E now oldView newView pm of
        None \<Rightarrow> (Some CreateViewChange, pm)
      | Some vc \<Rightarrow>
          let pm = storeViewChange newView (pe_keyID E) vc pm;
              pm = (case pe_publishVC E of
                      None \<Rightarrow> pm
                    | Some pub \<Rightarrow>
                        if pub vc
                        then pm\<lparr>pm_sent := pm_sent pm @ [SentViewChange vc],
                                pm_lastCatchupBroadcast :=
                                  AList.update newView now (pm_lastCatchupBroadcast pm)\<rparr>
                        else pm) in
          (None, resetTimerLocked E now pm))"

definition clampWindow :: "duration \<Rightarrow> duration \<Rightarrow> duration \<Rightarrow> duration" where
  "clampWindow lo hi d = (let d = (if d < lo then lo else d) in if d > hi then hi else d)"

definition handleTimeout :: "pmEnv \<Rightarrow> instant \<Rightarrow> pacemaker \<Rightarrow> pacemaker" where
  "handleTimeout E now pm =
     (let sinceLastAdvance = (if pm_lastViewTime pm = zeroTime then 0 else now - pm_lastViewTime pm);
          staleWindow = clampWindow (100 * millisecond) (750 * millisecond) (go_div (pm_timeout pm) 4);
          progressWindow = clampWindow (100 * millisecond) (500 * millisecond) (go_div (pm_timeout pm) 8) in
      if sinceLastAdvance > 0 \<and> sinceLastAdvance < staleWindow then resetTimerLocked E now pm
      else
        let shouldIncrease = \<not> (sinceLastAdvance > 0 \<and> sinceLastAdvance < progressWindow);
            pm = (if pc_EnableAIMD (pe_config E) \<and> shouldIncrease
                  then increaseTimeout (pe_config E) pm else pm) in
        snd (TriggerViewChange E now pm))"

definition broadcastCatchupViewChange ::
    "pmEnv \<Rightarrow> instant \<Rightarrow> u64 \<Rightarrow> u64 \<Rightarrow> bool \<Rightarrow> pacemaker \<Rightarrow> pacemaker" where
  "broadcastCatchupViewChange E now oldView newView force pm =
     (let localID = pe_keyID E;
          st = (case map_of (pm_retryState pm) newView of None \<Rightarrow> emptyRetry | Some r \<Rightarrow> r) in
      if rs_attempts st \<ge> maxCatchupRetries
      then pm\<lparr>pm_circuitBreakerHits := pm_circuitBreakerHits pm + 1\<rparr>
      else
        let pm = pm\<lparr>pm_viewChanges := AList.update newView (vcs_at pm newView) (pm_viewChanges pm)\<rparr>;
            existing = map_of (vcs_at pm newView) localID;
            resendInterval = catchupResendIntervalFor (pm_timeout pm) (rs_attempts st);
            throttled = (existing \<noteq> None \<and> \<not> force
              \<and> (case map_of (pm_lastCatchupBroadcast pm) newView of
                   None \<Rightarrow> False
                 | Some l \<Rightarrow> l \<noteq> zeroTime \<and> now - l < resendInterval)) in
        if throttled then pm
        else case (case existing of
                     None \<Rightarrow> createViewChangeMsg E now oldView newView pm
                   | Some x \<Rightarrow> rebuildViewChangeForRebroadcast E now x oldView newView) of
               None \<Rightarrow> pm
             | Some vc \<Rightarrow>
                 let st = st\<lparr>rs_firstTry := (if rs_attempts st = 0 then now else rs_firstTry st),
                             rs_attempts := rs_attempts st + 1, rs_lastRetry := now\<rparr>;
                     pm = storeViewChange newView localID vc pm;
                     pm = pm\<lparr>pm_retryState := AList.update newView st (pm_retryState pm),
                             pm_lastCatchupBroadcast :=
                               AList.update newView now (pm_lastCatchupBroadcast pm)\<rparr> in
                 (case pe_publishVC E of
                    None \<Rightarrow> pm
                  | Some pub \<Rightarrow>
                      if \<not> pub vc
                      then pm\<lparr>pm_lastCatchupBroadcast :=
                                AList.update newView (now - resendInterval) (pm_lastCatchupBroadcast pm)\<rparr>
                      else pm\<lparr>pm_sent := pm_sent pm @ [SentViewChange vc],
                              pm_retryState := AList.delete newView (pm_retryState pm)\<rparr>))"

definition hasRecentStalePeers :: "instant \<Rightarrow> u64 \<Rightarrow> pacemaker \<Rightarrow> bool" where
  "hasRecentStalePeers now view pm =
     list_ex (\<lambda>(v, t). v < view \<and> t > now - stalePeerWindow) (pm_staleViewChanges pm)"

definition sendNewView ::
    "((validatorID, viewChangeMsg) gomap \<Rightarrow> (validatorID, viewChangeMsg) gomap) \<Rightarrow> pmEnv
      \<Rightarrow> 'h viewCallback \<Rightarrow> instant \<Rightarrow> u64 \<Rightarrow> pacemaker \<times> 'h
      \<Rightarrow> pacemaker_error option \<times> pacemaker \<times> 'h" where
  "sendNewView ord E cb now newView ph =
     (let (pm, h) = ph; vcList = map snd (ord (vcs_at pm newView));
          highestQC = foldl betterQC None (map lvc_HighestQC vcList) in
      if vcList = [] then (Some (NoViewChanges newView), pm, h)
      else
        let pm = pm\<lparr>pm_newViewSent := True\<rparr>;
            nv = \<lparr>lnv_View = newView, lnv_ViewChanges = vcList, lnv_HighestQC = highestQC,
                  lnv_LeaderID = pe_keyID E, lnv_Timestamp = now, lnv_Signature = []\<rparr> in
        case pe_sign E (newViewSignBytes (pe_sha256 E) nv) of
          None \<Rightarrow> (Some SignNewView, pm, h)
        | Some sig \<Rightarrow>
            let nv = nv\<lparr>lnv_Signature := sig\<rparr>;
                pm = (case pe_publishNV E of
                        None \<Rightarrow> pm
                      | Some pub \<Rightarrow> if pub nv then pm\<lparr>pm_sent := pm_sent pm @ [SentNewView nv]\<rparr> else pm) in
            if cb \<noteq> None \<and> \<not> pe_onNewViewOk E then (Some NewViewCallback, pm, h)
            else advanceView E cb now newView highestQC (pm, h))"

definition pm_OnViewChange ::
    "((validatorID, viewChangeMsg) gomap \<Rightarrow> (validatorID, viewChangeMsg) gomap) \<Rightarrow> pmEnv
      \<Rightarrow> 'h viewCallback \<Rightarrow> instant \<Rightarrow> viewChangeMsg \<Rightarrow> pacemaker \<times> 'h
      \<Rightarrow> pacemaker_error option \<times> pacemaker \<times> 'h" where
  "pm_OnViewChange ord E cb now vc ph =
     (let (pm, h) = ph; v = lvc_NewView vc; current = pm_currentView pm in
      if v < current
      then (Some (OldViewChange v current),
            (let pm = pm\<lparr>pm_staleViewChanges := AList.update v now (pm_staleViewChanges pm)\<rparr> in
             if current > 0 then broadcastCatchupViewChange E now (current - 1) current True pm else pm),
            h)
      else if v = current then (None, pm, h)
      else
        let pm = storeViewChange v (lvc_SenderID vc) vc pm in
        if \<not> hasViewChangeQuorum E v pm then (None, pm, h)
        else case IsLeader (pe_rotation E) (pe_keyID E) v of
               Inl _ \<Rightarrow> (Some LeaderCheck, pm, h)
             | Inr True \<Rightarrow> sendNewView ord E cb now v (pm, h)
             | Inr False \<Rightarrow>
                 advanceView E cb now v (selectHighestQCForViewLocked ord v pm) (pm, h))"

definition pm_OnNewView ::
    "pmEnv \<Rightarrow> 'h viewCallback \<Rightarrow> instant \<Rightarrow> newViewMsg \<Rightarrow> pacemaker \<times> 'h
      \<Rightarrow> pacemaker_error option \<times> pacemaker \<times> 'h" where
  "pm_OnNewView E cb now nv ph =
     (let (pm, h) = ph in
      if lnv_View nv < pm_currentView pm then (Some (OldNewView (lnv_View nv) (pm_currentView pm)), pm, h)
      else if lnv_View nv = pm_currentView pm then (None, pm, h)
      else case IsLeader (pe_rotation E) (lnv_LeaderID nv) (lnv_View nv) of
             Inl _ \<Rightarrow> (Some LeaderCheck, pm, h)
           | Inr False \<Rightarrow> (Some NewViewNonLeader, pm, h)
           | Inr True \<Rightarrow>
               if pc_RequireQuorum (pe_config E)
                  \<and> int (length (lnv_ViewChanges nv)) < viewChangeQuorum E
               then (Some (NewViewQuorum (length (lnv_ViewChanges nv)) (viewChangeQuorum E)), pm, h)
               else advanceView E cb now (lnv_View nv) (lnv_HighestQC nv) (pm, h))"

definition pm_OnProposal :: "pmEnv \<Rightarrow> instant \<Rightarrow> pacemaker \<Rightarrow> pacemaker" where
  "pm_OnProposal E now pm = resetTimerLocked E now pm"

text \<open>The first part of \<open>OnQC\<close>, under the lock: highest certificate and height.\<close>

definition noteQC :: "qc \<Rightarrow> pacemaker \<Rightarrow> pacemaker" where
  "noteQC q pm =
     (let pm = (if pm_highestQC pm = None \<or> getView q > getQCView (pm_highestQC pm)
                then pm\<lparr>pm_highestQC := Some q\<rparr> else pm);
          newHeight = getHeight q + 1 in
      if newHeight > pm_currentHeight pm then pm\<lparr>pm_currentHeight := newHeight\<rparr> else pm)"

definition pm_OnQC ::
    "pmEnv \<Rightarrow> 'h viewCallback \<Rightarrow> instant \<Rightarrow> qc \<Rightarrow> pacemaker \<times> 'h \<Rightarrow> pacemaker \<times> 'h" where
  "pm_OnQC E cb now q ph =
     (let (pm, h) = ph; pm = noteQC q pm; oldView = getView q; nextView = oldView + 1 in
      if nextView \<le> pm_currentView pm then (pm, h)
      else case advanceView E cb now nextView (Some q) (pm, h) of
             (Some _, pm, h) \<Rightarrow> (pm, h)
           | (None, pm, h) \<Rightarrow>
               (broadcastCatchupViewChange E now oldView nextView (hasRecentStalePeers now nextView pm) pm, h))"

subsection \<open>Start, stop and recovery\<close>

definition pm_Start :: "pmEnv \<Rightarrow> instant \<Rightarrow> pacemaker \<Rightarrow> pacemaker" where
  "pm_Start E now pm = resetTimerLocked E now (pm\<lparr>pm_startTime := now, pm_lastViewTime := now\<rparr>)"

definition pm_Stop :: "pacemaker \<Rightarrow> pacemaker" where
  "pm_Stop pm = pm\<lparr>pm_stopped := True, pm_viewTimer := None\<rparr>"

definition SetCurrentView :: "pmEnv \<Rightarrow> instant \<Rightarrow> u64 \<Rightarrow> pacemaker \<Rightarrow> pacemaker" where
  "SetCurrentView E now view pm =
     (if view = pm_currentView pm then pm
      else if view < pm_currentView pm then pm
      else
        let pm = pm\<lparr>pm_currentView := view, pm_lastViewTime := now\<rparr> in
        if pm_viewTimer pm \<noteq> None then resetTimerLocked E now pm else pm)"

definition SetCurrentHeight :: "u64 \<Rightarrow> pacemaker \<Rightarrow> pacemaker" where
  "SetCurrentHeight height pm =
     (if height > pm_currentHeight pm then pm\<lparr>pm_currentHeight := height\<rparr> else pm)"

definition SetHighestQC :: "qc \<Rightarrow> pacemaker \<Rightarrow> pacemaker" where
  "SetHighestQC q pm =
     (if pm_highestQC pm = None \<or> getView q > getQCView (pm_highestQC pm)
      then pm\<lparr>pm_highestQC := Some q\<rparr> else pm)"

definition GetViewChangeCount :: "u64 \<Rightarrow> pacemaker \<Rightarrow> int" where
  "GetViewChangeCount view pm = int (length (vcs_at pm view))"

definition CleanupOldViewChanges :: "pacemaker \<Rightarrow> pacemaker" where
  "CleanupOldViewChanges pm =
     pm\<lparr>pm_viewChanges := filter (\<lambda>(view, m). \<not> view < pm_currentView pm) (pm_viewChanges pm)\<rparr>"

subsection \<open>Runs\<close>

inductive pm_step :: "pmEnv \<Rightarrow> 'h viewCallback \<Rightarrow> pacemaker \<times> 'h \<Rightarrow> pacemaker \<times> 'h \<Rightarrow> bool"
  for E cb where
  start: "pm_step E cb (pm, h) (pm_Start E now pm, h)"
| stop: "pm_step E cb (pm, h) (pm_Stop pm, h)"
| timeout: "pm_step E cb (pm, h) (handleTimeout E now pm, h)"
| trigger: "pm_step E cb (pm, h) (snd (TriggerViewChange E now pm), h)"
| viewChange: "pm_step E cb ph (snd (pm_OnViewChange ord E cb now vc ph))"
| newView: "pm_step E cb ph (snd (pm_OnNewView E cb now nv ph))"
| proposal: "pm_step E cb (pm, h) (pm_OnProposal E now pm, h)"
| certificate: "pm_step E cb ph (pm_OnQC E cb now q ph)"
| setView: "pm_step E cb (pm, h) (SetCurrentView E now v pm, h)"
| setHeight: "pm_step E cb (pm, h) (SetCurrentHeight n pm, h)"
| setHighest: "pm_step E cb (pm, h) (SetHighestQC q pm, h)"
| cleanup: "pm_step E cb (pm, h) (CleanupOldViewChanges pm, h)"
| environment: "pm_step E cb (pm, h) (pm, h')"

text \<open>The fields that bookkeeping operations leave alone.\<close>

lemma pm_frame [frame_simps]:
  "pm_currentView (resetTimerLocked E now pm) = pm_currentView pm"
  "pm_timeout (resetTimerLocked E now pm) = pm_timeout pm"
  "pm_highestQC (resetTimerLocked E now pm) = pm_highestQC pm"
  "pm_retryState (resetTimerLocked E now pm) = pm_retryState pm"
  "pm_currentHeight (resetTimerLocked E now pm) = pm_currentHeight pm"
  "pm_currentView (decreaseTimeout cfg pm) = pm_currentView pm"
  "pm_highestQC (decreaseTimeout cfg pm) = pm_highestQC pm"
  "pm_currentHeight (decreaseTimeout cfg pm) = pm_currentHeight pm"
  "pm_retryState (decreaseTimeout cfg pm) = pm_retryState pm"
  "pm_currentView (increaseTimeout cfg pm) = pm_currentView pm"
  "pm_retryState (increaseTimeout cfg pm) = pm_retryState pm"
  "pm_highestQC (increaseTimeout cfg pm) = pm_highestQC pm"
  "pm_currentView (storeViewChange v i vc pm) = pm_currentView pm"
  "pm_timeout (storeViewChange v i vc pm) = pm_timeout pm"
  "pm_highestQC (storeViewChange v i vc pm) = pm_highestQC pm"
  "pm_retryState (storeViewChange v i vc pm) = pm_retryState pm"
  "pm_currentHeight (storeViewChange v i vc pm) = pm_currentHeight pm"
  by (simp_all add: resetTimerLocked_def decreaseTimeout_def increaseTimeout_def storeViewChange_def Let_def)

lemma catchup_frame [frame_simps]:
  "pm_currentView (broadcastCatchupViewChange E now o' n force pm) = pm_currentView pm"
  "pm_timeout (broadcastCatchupViewChange E now o' n force pm) = pm_timeout pm"
  "pm_highestQC (broadcastCatchupViewChange E now o' n force pm) = pm_highestQC pm"
  "pm_currentHeight (broadcastCatchupViewChange E now o' n force pm) = pm_currentHeight pm"
  by (simp_all add: broadcastCatchupViewChange_def Let_def frame_simps split: option.split)

lemma trigger_frame [frame_simps]:
  "pm_currentView (snd (TriggerViewChange E now pm)) = pm_currentView pm"
  "pm_timeout (snd (TriggerViewChange E now pm)) = pm_timeout pm"
  "pm_highestQC (snd (TriggerViewChange E now pm)) = pm_highestQC pm"
  "pm_retryState (snd (TriggerViewChange E now pm)) = pm_retryState pm"
  by (simp_all add: TriggerViewChange_def Let_def frame_simps split: option.split)

lemma timeout_frame [frame_simps]:
  "pm_currentView (handleTimeout E now pm) = pm_currentView pm"
  "pm_highestQC (handleTimeout E now pm) = pm_highestQC pm"
  "pm_retryState (handleTimeout E now pm) = pm_retryState pm"
  by (simp_all add: handleTimeout_def Let_def frame_simps)

lemma advanceView_failed:
  assumes "advanceView E cb now newView oq (pm, h) = (Some e, pm', h')"
  shows "pm' = pm \<and> e = ViewChangeCallback"
  using assms
  by (cases oq) (auto simp: advanceView_def Let_def split: option.splits prod.splits bool.splits if_splits)

lemma advanceView_success:
  assumes "advanceView E cb now newView oq (pm, h) = (None, pm', h')"
  shows "pm_currentView pm' = newView"
    and "pm_highestQC pm' = (if (case oq of None \<Rightarrow> False
          | Some q \<Rightarrow> pm_highestQC pm = None \<or> getView q > getQCView (pm_highestQC pm))
        then oq else pm_highestQC pm)"
    and "pm_retryState pm' = pm_retryState pm"
    and "pm_timeout pm' = (if pc_EnableAIMD (pe_config E)
        then pm_timeout (decreaseTimeout (pe_config E) pm) else pm_timeout pm)"
  using assms
  by (auto simp: advanceView_def Let_def frame_simps decreaseTimeout_def
    split: option.splits prod.splits bool.splits if_splits)

text \<open>
  A view change that the engine refuses leaves no trace: when the callback fails,
  \<^verbatim>\<open>advanceView\<close> returns the pacemaker exactly as it was, and an accepted one
  lands in the requested view.
\<close>

theorem advanceView_atomic:
  assumes "advanceView E cb now newView oq (pm, h) = (r, pm', h')"
  shows "(r \<noteq> None \<longrightarrow> pm' = pm) \<and> (r = None \<longrightarrow> pm_currentView pm' = newView)"
  using assms by (cases r) (auto dest: advanceView_failed advanceView_success(1))

theorem advanceView_atomic_witness:
  "\<exists>e pm'. advanceView (\<lparr>pe_rotation = ex_rotation [], pe_config = DefaultPacemakerConfig, pe_keyID = 1,
       pe_sign = (\<lambda>b. Some [1]), pe_publishVC = None, pe_publishNV = None, pe_jitter = (\<lambda>t. 0),
       pe_sha256 = (\<lambda>b. 0), pe_onNewViewOk = True\<rparr>) (Some (\<lambda>v q h. (False, h))) 5 9 None
     (NewPacemaker DefaultPacemakerConfig, 0 :: nat) = (Some e, pm', 0)
   \<and> pm' = NewPacemaker DefaultPacemakerConfig"
proof -
  let ?E = "\<lparr>pe_rotation = ex_rotation [], pe_config = DefaultPacemakerConfig, pe_keyID = 1,
       pe_sign = (\<lambda>b. Some [1]), pe_publishVC = None, pe_publishNV = None, pe_jitter = (\<lambda>t. 0),
       pe_sha256 = (\<lambda>b. 0), pe_onNewViewOk = True\<rparr>"
  obtain e pm' where r: "advanceView ?E (Some (\<lambda>v q h. (False, h))) 5 9 None
     (NewPacemaker DefaultPacemakerConfig, 0 :: nat) = (Some e, pm', 0)"
    by (simp add: advanceView_def Let_def)
  from advanceView_atomic [OF r] r show ?thesis by blast
qed

subsection \<open>What a step may change\<close>

definition config_ok :: "pacemakerConfig \<Rightarrow> bool" where
  "config_ok cfg \<longleftrightarrow> 0 < pc_MinTimeout cfg \<and> pc_MinTimeout cfg \<le> pc_BaseTimeout cfg
     \<and> pc_BaseTimeout cfg \<le> pc_MaxTimeout cfg \<and> 1 \<le> pc_TimeoutIncreaseFactor cfg"

definition timeout_ok :: "pacemakerConfig \<Rightarrow> pacemaker \<Rightarrow> bool" where
  "timeout_ok cfg pm \<longleftrightarrow> pc_MinTimeout cfg \<le> pm_timeout pm \<and> pm_timeout pm \<le> pc_MaxTimeout cfg"

definition retries_ok :: "pacemaker \<Rightarrow> bool" where
  "retries_ok pm \<longleftrightarrow> list_all (\<lambda>(v, r). 0 \<le> rs_attempts r \<and> rs_attempts r \<le> maxCatchupRetries) (pm_retryState pm)"

text \<open>
  \<open>pm_rel\<close>: the view and the view of the highest certificate do not decrease, timeouts stay
  within the configured bounds, retry counters within the circuit breaker's limit.
\<close>

definition pm_rel :: "pmEnv \<Rightarrow> pacemaker \<Rightarrow> pacemaker \<Rightarrow> bool" where
  "pm_rel E pm pm' \<longleftrightarrow>
     pm_currentView pm \<le> pm_currentView pm'
     \<and> getQCView (pm_highestQC pm) \<le> getQCView (pm_highestQC pm')
     \<and> (config_ok (pe_config E) \<longrightarrow> timeout_ok (pe_config E) pm \<longrightarrow> timeout_ok (pe_config E) pm')
     \<and> (retries_ok pm \<longrightarrow> retries_ok pm')"

lemma pm_rel_refl [simp]: "pm_rel E pm pm"
  by (simp add: pm_rel_def)

lemma pm_rel_trans [trans]: "pm_rel E a b \<Longrightarrow> pm_rel E b c \<Longrightarrow> pm_rel E a c"
  by (auto simp: pm_rel_def)

lemma pm_rel_same:
  "pm_currentView pm' = pm_currentView pm \<Longrightarrow> pm_highestQC pm' = pm_highestQC pm
    \<Longrightarrow> pm_timeout pm' = pm_timeout pm \<Longrightarrow> pm_retryState pm' = pm_retryState pm \<Longrightarrow> pm_rel E pm pm'"
  by (simp add: pm_rel_def timeout_ok_def retries_ok_def)

lemma pm_rel_irrelevant [simp]:
  "pm_rel E pm (pm\<lparr>pm_newViewSent := b\<rparr>)"
  "pm_rel E pm (pm\<lparr>pm_newViewSent := b, pm_sent := out\<rparr>)"
  "pm_rel E pm (pm\<lparr>pm_staleViewChanges := m\<rparr>)"
  "pm_rel E pm (resetTimerLocked E now pm)"
  "pm_rel E pm (storeViewChange v i vc pm)"
  "pm_rel E pm (snd (TriggerViewChange E now pm))"
  by (rule pm_rel_same; simp add: frame_simps)+

lemma increase_ok:
  assumes "config_ok cfg" and "timeout_ok cfg pm"
  shows "timeout_ok cfg (increaseTimeout cfg pm)"
proof -
  have pos: "0 \<le> pm_timeout pm" using assms by (simp add: config_ok_def timeout_ok_def)
  then have "of_int (pm_timeout pm) * 1 \<le> of_int (pm_timeout pm) * pc_TimeoutIncreaseFactor cfg"
    using assms(1) by (intro mult_left_mono) (simp_all add: config_ok_def)
  then have "pm_timeout pm \<le> \<lfloor>of_int (pm_timeout pm) * pc_TimeoutIncreaseFactor cfg\<rfloor>"
    by (simp add: le_floor_iff)
  moreover have "0 \<le> of_int (pm_timeout pm) * pc_TimeoutIncreaseFactor cfg"
    using pos assms(1) by (simp add: config_ok_def)
  ultimately show ?thesis
    using assms by (simp add: increaseTimeout_def timeout_ok_def go_trunc_def config_ok_def Let_def)
qed

lemma decrease_ok: "config_ok cfg \<Longrightarrow> timeout_ok cfg pm \<Longrightarrow> timeout_ok cfg (decreaseTimeout cfg pm)"
  by (auto simp: decreaseTimeout_def timeout_ok_def config_ok_def Let_def millisecond_def)

lemma pm_rel_increase: "pm_rel E pm (increaseTimeout (pe_config E) pm)"
  by (simp add: pm_rel_def frame_simps increase_ok retries_ok_def)

lemma catchup_retries:
  "retries_ok pm \<Longrightarrow> retries_ok (broadcastCatchupViewChange E now o' n force pm)"
proof -
  assume ok: "retries_ok pm"
  let ?st = "case map_of (pm_retryState pm) n of None \<Rightarrow> emptyRetry | Some r \<Rightarrow> r"
  have "0 \<le> rs_attempts ?st"
    using ok gm_all_get [of _ "pm_retryState pm" n]
    by (fastforce simp: retries_ok_def emptyRetry_def split: option.splits)
  then show ?thesis
    using ok unfolding retries_ok_def
    by (auto simp: broadcastCatchupViewChange_def Let_def frame_simps split: option.splits
      intro!: gm_all_update gm_all_delete)
qed

lemma pm_rel_catchup: "pm_rel E pm (broadcastCatchupViewChange E now o' n force pm)"
  by (simp add: pm_rel_def frame_simps timeout_ok_def catchup_retries)

lemma pm_rel_advanceView:
  assumes "pm_currentView pm \<le> v"
  shows "pm_rel E pm (fst (snd (advanceView E cb now v oq (pm, h))))"
proof -
  obtain r pm' h' where r: "advanceView E cb now v oq (pm, h) = (r, pm', h')"
    by (cases "advanceView E cb now v oq (pm, h)")
  have "pm_rel E pm pm'"
  proof (cases r)
    case None
    note eqs = advanceView_success [OF r [unfolded None]]
    show ?thesis
      using assms decrease_ok [of "pe_config E" pm]
      by (auto simp: pm_rel_def eqs retries_ok_def timeout_ok_def split: option.splits)
  next
    case (Some e)
    then show ?thesis using advanceView_failed [of E cb now v oq pm h e pm' h'] r by simp
  qed
  then show ?thesis by (simp add: r)
qed

lemma pm_rel_sendNewView:
  assumes "pm_currentView pm \<le> v"
  shows "pm_rel E pm (fst (snd (sendNewView ord E cb now v (pm, h))))"
proof -
  have "pm_rel E pm (fst (snd (advanceView E cb now v oq (pm1, h))))"
    if "pm_rel E pm pm1" "pm_currentView pm1 = pm_currentView pm" for pm1 oq
    using pm_rel_trans [OF that(1) pm_rel_advanceView [of pm1 v E cb now oq h]] assms that(2) by simp
  then show ?thesis
    by (simp add: sendNewView_def Let_def split: option.split)
qed

lemma pm_step_rel:
  assumes "pm_step E cb s t" shows "pm_rel E (fst s) (fst t)"
  using assms
proof (induction rule: pm_step.induct)
  case (timeout pm h now)
  have "pm_rel E pm (snd (TriggerViewChange E now (increaseTimeout (pe_config E) pm)))"
    by (rule pm_rel_trans [OF pm_rel_increase]) simp
  then show ?case
    by (simp add: handleTimeout_def Let_def)
next
  case (viewChange ph ord now vc)
  obtain pm h where ph: "ph = (pm, h)" by (cases ph)
  let ?pm1 = "storeViewChange (lvc_NewView vc) (lvc_SenderID vc) vc pm"
  have 1: "pm_rel E pm ?pm1" by simp
  have le: "pm_currentView ?pm1 \<le> lvc_NewView vc" if "\<not> lvc_NewView vc < pm_currentView pm"
    using that by (simp add: frame_simps not_less)
  have stale: "pm_rel E pm (broadcastCatchupViewChange E now a b True
      (pm\<lparr>pm_staleViewChanges := x\<rparr>))" for a b x
    by (rule pm_rel_trans [OF _ pm_rel_catchup]) simp
  show ?case
    using stale pm_rel_trans [OF 1 pm_rel_advanceView [OF le, where E = E and cb = cb and now = now and h = h]]
      pm_rel_trans [OF 1 pm_rel_sendNewView [OF le, where E = E and cb = cb and now = now and h = h and ord = ord]]
    by (auto simp: pm_OnViewChange_def ph Let_def split: sum.split bool.split)
next
  case (newView ph now nv)
  obtain pm h where ph: "ph = (pm, h)" by (cases ph)
  show ?case
    using pm_rel_advanceView [of pm "lnv_View nv" E cb now "lnv_HighestQC nv" h]
    by (auto simp: pm_OnNewView_def ph Let_def not_less split: sum.splits bool.splits)
next
  case (certificate ph now q)
  obtain pm h where ph: "ph = (pm, h)" by (cases ph)
  define pm1 where "pm1 = noteQC q pm"
  have 1: "pm_rel E pm pm1" "pm_currentView pm1 = pm_currentView pm"
    by (auto simp: pm1_def noteQC_def Let_def pm_rel_def timeout_ok_def retries_ok_def)
  obtain r pm2 h2 where adv: "advanceView E cb now (getView q + 1) (Some q) (pm1, h) = (r, pm2, h2)"
    by (cases "advanceView E cb now (getView q + 1) (Some q) (pm1, h)")
  have 2: "pm_rel E pm pm2" if "\<not> getView q + 1 \<le> pm_currentView pm"
    using pm_rel_trans [OF 1(1) pm_rel_advanceView [of pm1 "getView q + 1" E cb now "Some q" h]] that adv 1(2)
    by simp
  have "fst (pm_OnQC E cb now q ph) =
    (if getView q + 1 \<le> pm_currentView pm then pm1
     else if r = None then broadcastCatchupViewChange E now (getView q) (getView q + 1)
            (hasRecentStalePeers now (getView q + 1) pm2) pm2
     else pm2)"
    using adv 1(2) by (simp add: pm_OnQC_def ph pm1_def [symmetric] Let_def split: option.splits)
  then show ?case
    using 1 2 pm_rel_trans [OF 2 pm_rel_catchup] by (simp add: ph)
qed (auto simp: pm_Start_def pm_Stop_def pm_OnProposal_def SetCurrentView_def SetCurrentHeight_def
    SetHighestQC_def CleanupOldViewChanges_def pm_rel_def timeout_ok_def retries_ok_def Let_def frame_simps)

subsection \<open>Invariants of a run\<close>

interpretation pm_view: step_monotone "pm_step E cb" "\<lambda>s. pm_currentView (fst s)"
  by unfold_locales (auto dest!: pm_step_rel simp: pm_rel_def)

interpretation pm_hqc: step_monotone "pm_step E cb" "\<lambda>s. getQCView (pm_highestQC (fst s))"
  by unfold_locales (auto dest!: pm_step_rel simp: pm_rel_def)

interpretation pm_bounds: step_invariant "pm_step E cb"
  "\<lambda>s. config_ok (pe_config E) \<longrightarrow> timeout_ok (pe_config E) (fst s) \<and> retries_ok (fst s)"
  by unfold_locales (auto dest!: pm_step_rel simp: pm_rel_def)

text \<open>
  Views only move forward: whatever timeouts, view changes, new-view messages, certificates
  and recovery calls a pacemaker handles, and whether or not the engine accepts a view change,
  neither its view nor the view of its highest certificate ever decreases.
\<close>

theorem pacemaker_view_monotone:
  assumes "(pm_step E cb)\<^sup>*\<^sup>* (pm, h) (pm', h')"
  shows "pm_currentView pm \<le> pm_currentView pm'
    \<and> getQCView (pm_highestQC pm) \<le> getQCView (pm_highestQC pm')"
  using pm_view.run_up [OF assms] pm_hqc.run_up [OF assms] by simp

definition ex_pmEnv :: pmEnv where
  "ex_pmEnv = \<lparr>pe_rotation = ex_rotation [ex_val 0, ex_val 1, ex_val 2, ex_val 3],
     pe_config = DefaultPacemakerConfig, pe_keyID = 1, pe_sign = (\<lambda>b. Some [1]),
     pe_publishVC = Some (\<lambda>m. True), pe_publishNV = Some (\<lambda>m. True), pe_jitter = (\<lambda>t. 0),
     pe_sha256 = (\<lambda>b. 0), pe_onNewViewOk = True\<rparr>"

theorem pacemaker_view_monotone_witness:
  "pm_currentView (NewPacemaker DefaultPacemakerConfig)
     \<le> pm_currentView (handleTimeout ex_pmEnv 5 (NewPacemaker DefaultPacemakerConfig))"
proof -
  have "(pm_step ex_pmEnv (None :: nat viewCallback))\<^sup>*\<^sup>* (NewPacemaker DefaultPacemakerConfig, 0)
      (handleTimeout ex_pmEnv 5 (NewPacemaker DefaultPacemakerConfig), 0)"
    by (rule r_into_rtranclp) (rule pm_step.timeout)
  from pacemaker_view_monotone [OF this] show ?thesis by blast
qed

text \<open>
  With a sane configuration, the adaptive timeout stays between its minimum and its maximum
  and no retry counter of the catch-up broadcast exceeds the circuit breaker's limit, in every
  state a new pacemaker reaches.
\<close>

theorem pacemaker_bounds:
  assumes "config_ok (pe_config E)" and "(pm_step E cb)\<^sup>*\<^sup>* (NewPacemaker (pe_config E), h) (pm, h')"
  shows "pc_MinTimeout (pe_config E) \<le> pm_timeout pm \<and> pm_timeout pm \<le> pc_MaxTimeout (pe_config E)
    \<and> list_all (\<lambda>(v, r). rs_attempts r \<le> maxCatchupRetries) (pm_retryState pm)"
proof -
  have "timeout_ok (pe_config E) (NewPacemaker (pe_config E))" "retries_ok (NewPacemaker (pe_config E))"
    using assms(1) by (simp_all add: NewPacemaker_def timeout_ok_def retries_ok_def config_ok_def)
  then have "timeout_ok (pe_config E) pm \<and> retries_ok pm"
    using pm_bounds.run_keeps_inv [OF assms(2)] assms(1) by simp
  then show ?thesis by (auto simp: timeout_ok_def retries_ok_def list_all_iff)
qed

theorem pacemaker_bounds_witness:
  "pc_MinTimeout DefaultPacemakerConfig
     \<le> pm_timeout (handleTimeout ex_pmEnv 5 (NewPacemaker DefaultPacemakerConfig))"
proof -
  have cfg: "pe_config ex_pmEnv = DefaultPacemakerConfig" by (simp add: ex_pmEnv_def)
  have ok: "config_ok (pe_config ex_pmEnv)"
    by (simp add: cfg config_ok_def DefaultPacemakerConfig_def second_def millisecond_def)
  have run: "(pm_step ex_pmEnv (None :: nat viewCallback))\<^sup>*\<^sup>* (NewPacemaker (pe_config ex_pmEnv), 0)
      (handleTimeout ex_pmEnv 5 (NewPacemaker DefaultPacemakerConfig), 0)"
    unfolding cfg by (rule r_into_rtranclp) (rule pm_step.timeout)
  show ?thesis
    using pacemaker_bounds [OF ok run] unfolding cfg by blast
qed

text \<open>
  The resend interval of the catch-up broadcast is the exponential back-off capped by the
  current timeout, and never exceeds half of it.
\<close>

theorem catchup_interval_exact:
  assumes "0 \<le> t" and "0 \<le> a"
  shows "catchupResendIntervalFor t a =
      min (t div 2) (if a = 0 then second else min t (2 ^ nat a * second))
    \<and> catchupResendIntervalFor t a \<le> t div 2"
  using assms by (auto simp: catchupResendIntervalFor_def catchupResendBaseInterval_def Let_def min_def)

theorem catchup_interval_exact_witness:
  "catchupResendIntervalFor (10 * second) 2 = 4 * second"
  using catchup_interval_exact [of "10 * second" 2] by (simp add: second_def millisecond_def)

subsection \<open>Signed bytes on the wire\<close>

text \<open>
  What the pacemaker signs for a view change is exactly what a receiver checks: the canonical
  bytes of the message the publisher adapter builds.
\<close>

theorem viewChange_sign_bytes_agree:
  "viewChangeSignBytes vc = viewChange_SignBytes sha256 (PublishViewChange vc)
    \<and> hashViewChange sha256 vc = viewChange_Hash sha256 (PublishViewChange vc)"
  by (simp add: viewChangeSignBytes_def viewChange_SignBytes_def PublishViewChange_def opt_qc_hash_def
    hashViewChange_def viewChange_Hash_def)

lemma newView_sign_bytes:
  "newViewSignBytes sha256 nv = newView_SignBytes sha256 (PublishNewView nv)
    @ (case lnv_HighestQC nv of None \<Rightarrow> [] | Some q \<Rightarrow> be_bytes 32 (iface_Hash sha256 q))"
proof -
  have "be_bytes 32 (viewChange_Hash sha256 (PublishViewChange vc)) = be_bytes 32 (hashViewChange sha256 vc)"
    for vc by (simp add: viewChange_SignBytes_def PublishViewChange_def opt_qc_hash_def
      hashViewChange_def viewChange_Hash_def)
  then show ?thesis
    by (simp add: newViewSignBytes_def newView_SignBytes_def PublishNewView_def opt_qc_hash_def o_def)
qed

text \<open>
  For a new-view message this fails as soon as the leader knows a certificate: the pacemaker
  signs its hash, the adapter sends the message without it, and the bytes a receiver checks differ
  from the signed ones. Without a certificate they agree.
\<close>

theorem newView_sign_bytes_agree_iff:
  "newViewSignBytes sha256 nv = newView_SignBytes sha256 (PublishNewView nv)
    \<longleftrightarrow> lnv_HighestQC nv = None"
proof (cases "lnv_HighestQC nv")
  case (Some q)
  have "be_bytes 32 (iface_Hash sha256 q) \<noteq> []"
    by (metis length_be_bytes length_0_conv zero_neq_numeral)
  then show ?thesis using Some by (simp add: newView_sign_bytes)
qed (simp add: newView_sign_bytes)

subsection \<open>Quorums of view changes\<close>

lemma vcs_at_store: "vcs_at (storeViewChange v i vc pm) v = AList.update i vc (vcs_at pm v)"
  by (simp add: vcs_at_def storeViewChange_def)

text \<open>
  A view-change message moves the view only if, with it, view changes for that view under a
  quorum of distinct sender identities have been collected.
\<close>

theorem OnViewChange_needs_quorum:
  assumes "pc_RequireQuorum (pe_config E)" and "gm_wf (vcs_at pm (lvc_NewView vc))"
    and "pm_OnViewChange ord E cb now vc (pm, h) = (r, pm', h')"
    and "pm_currentView pm' \<noteq> pm_currentView pm"
  shows "pm_currentView pm < lvc_NewView vc
    \<and> viewChangeQuorum E
        \<le> int (card (insert (lvc_SenderID vc) (fst ` set (vcs_at pm (lvc_NewView vc)))))"
proof -
  let ?v = "lvc_NewView vc"
  let ?pm1 = "storeViewChange ?v (lvc_SenderID vc) vc pm"
  have gt: "pm_currentView pm < ?v"
  proof (rule ccontr)
    assume "\<not> pm_currentView pm < ?v"
    then have "pm_currentView (fst (snd (pm_OnViewChange ord E cb now vc (pm, h)))) = pm_currentView pm"
      by (auto simp: pm_OnViewChange_def Let_def frame_simps)
    with assms(3,4) show False by simp
  qed
  have "hasViewChangeQuorum E ?v ?pm1"
  proof (rule ccontr)
    assume "\<not> hasViewChangeQuorum E ?v ?pm1"
    then have "pm_currentView (fst (snd (pm_OnViewChange ord E cb now vc (pm, h)))) = pm_currentView pm"
      using gt by (auto simp: pm_OnViewChange_def Let_def frame_simps)
    with assms(3,4) show False by simp
  qed
  then have "viewChangeQuorum E \<le> int (length (AList.update (lvc_SenderID vc) vc (vcs_at pm ?v)))"
    using assms(1) by (simp add: hasViewChangeQuorum_def vcs_at_store)
  moreover have "length (AList.update (lvc_SenderID vc) vc (vcs_at pm ?v))
      = card (fst ` set (AList.update (lvc_SenderID vc) vc (vcs_at pm ?v)))"
    using distinct_card [of "keys_of (AList.update (lvc_SenderID vc) vc (vcs_at pm ?v))"]
      distinct_update [of "vcs_at pm ?v"] assms(2) by (simp add: gm_wf_def)
  moreover have "fst ` set (AList.update (lvc_SenderID vc) vc (vcs_at pm ?v))
      = insert (lvc_SenderID vc) (fst ` set (vcs_at pm ?v))"
    by (simp add: dom_update)
  ultimately show ?thesis using gt by simp
qed

definition ex_lvc :: "validatorID \<Rightarrow> viewChangeMsg" where
  "ex_lvc i = \<lparr>lvc_OldView = 0, lvc_NewView = 2, lvc_HighestQC = None, lvc_SenderID = i,
     lvc_Timestamp = 0, lvc_Signature = [1]\<rparr>"

definition ex_pm :: pacemaker where
  "ex_pm = (NewPacemaker DefaultPacemakerConfig)\<lparr>pm_viewChanges := [(2, [(0, ex_lvc 0), (2, ex_lvc 2)])]\<rparr>"

lemma ex_IsLeader: "IsLeader (pe_rotation ex_pmEnv) 1 2 = Inr False" "IsLeader (pe_rotation ex_pmEnv) 2 2 = Inr True"
  by (simp_all add: IsLeader_def GetLeaderForView_def SelectLeader_def filterEligible_def Let_def
    ex_pmEnv_def ex_rotation_simps sortValidatorsDeterministic_def sliceStable_def validatorLess_def)

theorem OnViewChange_needs_quorum_witness:
  "\<exists>pm'. pm_OnViewChange (\<lambda>m. m) ex_pmEnv None 0 (ex_lvc 3) (ex_pm, 0 :: nat) = (None, pm', 0)
    \<and> pm_currentView pm' = 2
    \<and> viewChangeQuorum ex_pmEnv \<le> int (card (insert 3 (fst ` set (vcs_at ex_pm 2))))"
proof -
  let ?pm1 = "storeViewChange 2 3 (ex_lvc 3) ex_pm"
  have quorum: "hasViewChangeQuorum ex_pmEnv 2 ?pm1"
    by (simp add: hasViewChangeQuorum_def vcs_at_store viewChangeQuorum_def)
      (simp add: ex_pmEnv_def ex_rotation_simps ex_pm_def vcs_at_def go_div_def)
  have ids: "pe_keyID ex_pmEnv = 1" "lvc_NewView (ex_lvc 3) = 2" "lvc_SenderID (ex_lvc 3) = 3"
    "pm_currentView ex_pm = 0"
    by (simp_all add: ex_pmEnv_def ex_lvc_def ex_pm_def NewPacemaker_def)
  have "pm_OnViewChange (\<lambda>m. m) ex_pmEnv None 0 (ex_lvc 3) (ex_pm, 0 :: nat) =
    advanceView ex_pmEnv None 0 2 (selectHighestQCForViewLocked (\<lambda>m. m) 2 ?pm1) (?pm1, 0)"
    using quorum ids ex_IsLeader(1) by (simp add: pm_OnViewChange_def Let_def)
  moreover have "\<exists>pm'. advanceView ex_pmEnv None 0 2 oq (?pm1, 0 :: nat) = (None, pm', 0)
      \<and> pm_currentView pm' = 2" for oq
    by (simp add: advanceView_def Let_def frame_simps split: option.split)
  ultimately obtain pm' where
    r: "pm_OnViewChange (\<lambda>m. m) ex_pmEnv None 0 (ex_lvc 3) (ex_pm, 0 :: nat) = (None, pm', 0)"
    and v: "pm_currentView pm' = 2"
    by metis
  have "pc_RequireQuorum (pe_config ex_pmEnv)" "gm_wf (vcs_at ex_pm (lvc_NewView (ex_lvc 3)))"
    by (simp_all add: ex_pmEnv_def DefaultPacemakerConfig_def ex_pm_def vcs_at_def ex_lvc_def gm_wf_def)
  from OnViewChange_needs_quorum [OF this r] v r show ?thesis
    by (simp add: ex_pm_def NewPacemaker_def ex_lvc_def)
qed

text \<open>
  A received new-view message is taken at its word: as soon as it names the leader of a later
  view and lists enough view changes, even copies of a single one, the pacemaker enters that view
  and adopts the certificate the message carries, without validating either.
\<close>

theorem OnNewView_unverified:
  assumes "pm_currentView pm < lnv_View nv"
    and "IsLeader (pe_rotation E) (lnv_LeaderID nv) (lnv_View nv) = Inr True"
    and "viewChangeQuorum E \<le> int n" and "getQCView (pm_highestQC pm) < getView q"
  shows "\<exists>pm'. pm_OnNewView E None now
      (nv\<lparr>lnv_ViewChanges := replicate n vc, lnv_HighestQC := Some q\<rparr>) (pm, h) = (None, pm', h)
    \<and> pm_currentView pm' = lnv_View nv \<and> pm_highestQC pm' = Some q"
  using assms by (auto simp: pm_OnNewView_def advanceView_def Let_def frame_simps)

theorem OnNewView_unverified_witness:
  "\<exists>pm'. pm_OnNewView ex_pmEnv None 0
      (\<lparr>lnv_View = 2, lnv_ViewChanges = [], lnv_HighestQC = None, lnv_LeaderID = 2, lnv_Timestamp = 0,
        lnv_Signature = []\<rparr>\<lparr>lnv_ViewChanges := replicate 3 (ex_lvc 9), lnv_HighestQC := Some (ex_qc [])\<rparr>)
      (ex_pm, 0 :: nat) = (None, pm', 0)
    \<and> pm_currentView pm' = 2 \<and> pm_highestQC pm' = Some (ex_qc [])"
proof -
  let ?nv = "\<lparr>lnv_View = 2, lnv_ViewChanges = [], lnv_HighestQC = None, lnv_LeaderID = 2, lnv_Timestamp = 0,
        lnv_Signature = []\<rparr>"
  have "viewChangeQuorum ex_pmEnv \<le> int 3"
    by (simp add: viewChangeQuorum_def ex_pmEnv_def ex_rotation_simps go_div_def)
  then have "\<exists>pm'. pm_OnNewView ex_pmEnv None 0
      (?nv\<lparr>lnv_ViewChanges := replicate 3 (ex_lvc 9), lnv_HighestQC := Some (ex_qc [])\<rparr>)
      (ex_pm, 0 :: nat) = (None, pm', 0)
    \<and> pm_currentView pm' = lnv_View ?nv \<and> pm_highestQC pm' = Some (ex_qc [])"
    using ex_IsLeader(2)
    by (intro OnNewView_unverified) (simp_all add: ex_pm_def NewPacemaker_def ex_qc_def)
  then show ?thesis by simp
qed

end
