(* ===== verification/HotStuff.thy ===== *)
theory HotStuff
  imports Validation Storage Pacemaker
begin

text \<open>
  The consensus engine of a replica, \<^verbatim>\<open>backend/pkg/consensus/pbft/pbft.go\<close>, composed with
  the storage, validator and pacemaker it calls and with the callbacks of
  \<^verbatim>\<open>api/engine.go\<close>. A node is the HotStuff object, its storage, its pacemaker, the replay
  set and the encoder; \<open>nd_out\<close> logs what leaves the node (proposals and votes handed to the network,
  blocks handed to the commit callbacks).

  The locks of the code serialise the handlers, so a handler is a function on the node. Where the
  code ranges over a map, the order is an argument \<open>ord\<close>. Log, audit and metrics calls are left out.
\<close>

subsection \<open>State\<close>

record hotStuffConfig =
  hc_ValidatorID :: validatorID
  hc_EnableVoting :: bool
  hc_EnableProposing :: bool
  hc_MaxPendingVotes :: int
  hc_VoteTimeout :: duration
  hc_BlockValidationFunc :: "(block option \<Rightarrow> bool) option"
  hc_SafetyCheckStrict :: bool
  hc_AutoCleanupOldVotes :: bool
  hc_MaxConcurrentProposals :: int

definition DefaultHotStuffConfig :: hotStuffConfig where
  "DefaultHotStuffConfig = \<lparr>hc_ValidatorID = 0, hc_EnableVoting = True, hc_EnableProposing = True,
     hc_MaxPendingVotes = 1000, hc_VoteTimeout = 5 * second, hc_BlockValidationFunc = None,
     hc_SafetyCheckStrict = True, hc_AutoCleanupOldVotes = True, hc_MaxConcurrentProposals = 10\<rparr>"

record hotstuff =
  hs_currentView :: u64
  hs_currentHeight :: u64
  hs_lockedQC :: "qc option"
  hs_prepareQC :: "qc option"
  hs_votesSent :: "(u64, hash32) gomap"
  hs_pendingVotes :: "(u64 \<times> hash32, (validatorID, vote) gomap) gomap"

definition NewHotStuff :: hotstuff where
  "NewHotStuff = \<lparr>hs_currentView = 0, hs_currentHeight = 0, hs_lockedQC = None, hs_prepareQC = None,
     hs_votesSent = [], hs_pendingVotes = []\<rparr>"

datatype nodeOut = OutProposal proposal | OutVote vote | OutCommit block qc

record ('b, 'c) node =
  nd_hs :: hotstuff
  nd_storage :: "'b storage"
  nd_pm :: pacemaker
  nd_seen :: "hash32 list"
  nd_encoder :: "'c encoder"
  nd_out :: "nodeOut list"

text \<open>
  The parameters of a node: \<open>ne_pm\<close> carries the rotation (with its validator set), the key and the
  hash function; \<open>ne_marshal\<close> is the CBOR encoding of a message; \<open>ne_commitOk\<close> the outcome of
  the commit callback; \<open>ne_callbacks\<close> whether callbacks are set.
\<close>

type_synonym voteOrder = "nat \<Rightarrow> (validatorID, vote) gomap \<Rightarrow> (validatorID, vote) gomap"

record ('b, 'c) nodeEnv =
  ne_pm :: pmEnv
  ne_storage :: "'b storageEnv"
  ne_config :: hotStuffConfig
  ne_validation :: validationConfig
  ne_enforceActive :: bool
  ne_cache :: "'c sigCache"
  ne_crypto :: crypto
  ne_marshal :: "message \<Rightarrow> bytes option"
  ne_callbacks :: bool
  ne_commitOk :: "block \<Rightarrow> qc \<Rightarrow> bool"
  ne_voteOrder :: voteOrder
  ne_qcOrder :: "(hash32, qc) gomap \<Rightarrow> (hash32, qc) gomap"

abbreviation ne_rotation :: "('b, 'c) nodeEnv \<Rightarrow> rotation" where
  "ne_rotation N \<equiv> pe_rotation (ne_pm N)"

abbreviation ne_set :: "('b, 'c) nodeEnv \<Rightarrow> validatorSet" where
  "ne_set N \<equiv> ro_validatorSet (pe_rotation (ne_pm N))"

abbreviation ne_keyID :: "('b, 'c) nodeEnv \<Rightarrow> validatorID" where
  "ne_keyID N \<equiv> pe_keyID (ne_pm N)"

datatype hotstuff_error =
    ProposalInvalid validation_error
  | AlreadyVoted u64
  | InvalidJustify validation_error
  | UnsafeProposal
  | BlockInvalid
  | ProposalStore storage_error
  | SignVote
  | VoteStore storage_error
  | VoteInvalid validation_error
  | Equivocation validatorID
  | MixedBucket
  | NoPendingVotes
  | MixedVoteSet
  | QCInvalid validation_error
  | QCStore storage_error
  | MissingProposal
  | MissingBlock
  | CommitFailed storage_error
  | CommitCallback
  | LeaderStatus
  | NotLeader u64
  | SanitizeQC
  | FatalUnlock
  | ViewSyncTimeout u64 u64
  | CannotAdvance u64 u64
  | RecoverFailed storage_error

subsection \<open>Calling the validator and the storage\<close>

definition node_env :: "('b, 'c) nodeEnv \<Rightarrow> ('b, 'c) node \<Rightarrow> 'c validatorEnv" where
  "node_env N nd = \<lparr>va_set = ne_set N, va_leader = adapterLeader (ne_rotation N),
     va_config = ne_validation N, va_enforceActive = ne_enforceActive N,
     va_bootstrap = AllowRestartBootstrap (nd_storage nd), va_sha256 = pe_sha256 (ne_pm N),
     va_cache = ne_cache N, va_crypto = ne_crypto N\<rparr>"

definition node_vstate :: "('b, 'c) node \<Rightarrow> 'c validatorState" where
  "node_vstate nd = \<lparr>vs_currentView = pm_currentView (nd_pm nd),
     vs_currentHeight = pm_currentHeight (nd_pm nd), vs_seen = nd_seen nd, vs_encoder = nd_encoder nd\<rparr>"

definition set_vstate :: "'c validatorState \<Rightarrow> ('b, 'c) node \<Rightarrow> ('b, 'c) node" where
  "set_vstate s nd = nd\<lparr>nd_seen := vs_seen s, nd_encoder := vs_encoder s\<rparr>"

definition nodeValidateProposal ::
    "('b, 'c) nodeEnv \<Rightarrow> proposal \<Rightarrow> ('b, 'c) node \<Rightarrow> validation_error option \<times> ('b, 'c) node" where
  "nodeValidateProposal N p nd =
     (case ValidateProposal (node_env N nd) p (node_vstate nd) of (r, s) \<Rightarrow> (r, set_vstate s nd))"

definition nodeValidateVote ::
    "('b, 'c) nodeEnv \<Rightarrow> vote \<Rightarrow> ('b, 'c) node \<Rightarrow> validation_error option \<times> ('b, 'c) node" where
  "nodeValidateVote N v nd =
     (case ValidateVote (node_env N nd) v (node_vstate nd) of (r, s) \<Rightarrow> (r, set_vstate s nd))"

definition nodeValidateQC ::
    "('b, 'c) nodeEnv \<Rightarrow> qc \<Rightarrow> ('b, 'c) node \<Rightarrow> validation_error option \<times> ('b, 'c) node" where
  "nodeValidateQC N q nd =
     (case validatorAdapter_ValidateQC (node_env N nd) q (node_vstate nd) of (r, s) \<Rightarrow> (r, set_vstate s nd))"

definition upd_storage ::
    "('b storage \<Rightarrow> 'r \<times> 'b storage) \<Rightarrow> ('b, 'c) node \<Rightarrow> 'r \<times> ('b, 'c) node" where
  "upd_storage f nd = (case f (nd_storage nd) of (r, s) \<Rightarrow> (r, nd\<lparr>nd_storage := s\<rparr>))"

definition emit :: "nodeOut \<Rightarrow> ('b, 'c) node \<Rightarrow> ('b, 'c) node" where
  "emit x nd = nd\<lparr>nd_out := nd_out nd @ [x]\<rparr>"

definition set_hs :: "hotstuff \<Rightarrow> ('b, 'c) node \<Rightarrow> ('b, 'c) node" where
  "set_hs h nd = nd\<lparr>nd_hs := h\<rparr>"

subsection \<open>Views\<close>

definition AdvanceView :: "u64 \<Rightarrow> qc option \<Rightarrow> hotstuff \<Rightarrow> hotstuff_error option \<times> hotstuff" where
  "AdvanceView newView oq h =
     (if newView \<le> hs_currentView h then (Some (CannotAdvance newView (hs_currentView h)), h)
      else
        let h = h\<lparr>hs_currentView := newView\<rparr> in
        (None,
         (case oq of
            None \<Rightarrow> h
          | Some q \<Rightarrow>
              if hs_lockedQC h = None \<or> getView q > getQCView (hs_lockedQC h)
              then h\<lparr>hs_lockedQC := Some q, hs_prepareQC := Some q,
                     hs_currentHeight := (if getHeight q \<ge> hs_currentHeight h then getHeight q + 1
                                          else hs_currentHeight h)\<rparr>
              else h)))"

text \<open>\<^verbatim>\<open>ConsensusEngine.OnViewChange\<close>, the pacemaker's callback.\<close>

definition engine_OnViewChange :: "hotstuff viewCallback" where
  "engine_OnViewChange =
     Some (\<lambda>newView oq h. case AdvanceView newView oq h of (r, h') \<Rightarrow> (r = None, h'))"

definition node_OnQC :: "('b, 'c) nodeEnv \<Rightarrow> instant \<Rightarrow> qc \<Rightarrow> ('b, 'c) node \<Rightarrow> ('b, 'c) node" where
  "node_OnQC N now q nd =
     (case pm_OnQC (ne_pm N) engine_OnViewChange now q (nd_pm nd, nd_hs nd) of
        (pm, h) \<Rightarrow> nd\<lparr>nd_pm := pm, nd_hs := h\<rparr>)"

text \<open>
  After the lock is released: the pacemaker, then the callback \<^verbatim>\<open>OnQCFormed\<close> of the engine,
  which calls the pacemaker again.
\<close>

definition afterQC :: "('b, 'c) nodeEnv \<Rightarrow> instant \<Rightarrow> qc option \<Rightarrow> ('b, 'c) node \<Rightarrow> ('b, 'c) node" where
  "afterQC N now oq nd =
     (case oq of
        None \<Rightarrow> nd
      | Some q \<Rightarrow>
          let nd = node_OnQC N now q nd in
          if ne_callbacks N then node_OnQC N now q nd else nd)"

definition loadState :: "'b storage \<Rightarrow> hotstuff \<Rightarrow> hotstuff" where
  "loadState s h =
     (let h = h\<lparr>hs_currentHeight := GetLastCommittedHeight s + 1\<rparr> in
      case GetLastCommittedQC s of
        None \<Rightarrow> h\<lparr>hs_currentView := 0\<rparr>
      | Some q \<Rightarrow> h\<lparr>hs_lockedQC := Some q, hs_prepareQC := Some q, hs_currentView := getView q + 1\<rparr>)"

definition RecoverProposalWindow ::
    "('b, 'c) nodeEnv \<Rightarrow> instant \<Rightarrow> u64 \<Rightarrow> ('b, 'c) node \<Rightarrow> (hotstuff_error + bool \<times> u64) \<times> ('b, 'c) node" where
  "RecoverProposalWindow N now proposalHeight nd =
     (case upd_storage (ReconcileReplayWindow (ne_storage N) now proposalHeight True) nd of
        (Inl e, nd) \<Rightarrow> (Inl (RecoverFailed e), nd)
      | (Inr recovered, nd) \<Rightarrow>
          let target = GetLastCommittedHeight (nd_storage nd) + 1; h = nd_hs nd in
          (Inr (recovered, target),
           set_hs (if target > hs_currentHeight h then h\<lparr>hs_currentHeight := target\<rparr> else h) nd))"

subsection \<open>Commit\<close>

definition cleanupOldData :: "u64 \<Rightarrow> hotstuff \<Rightarrow> hotstuff" where
  "cleanupOldData currentHeight h =
     h\<lparr>hs_pendingVotes := (if currentHeight > 100 then [] else hs_pendingVotes h),
       hs_votesSent := filter (\<lambda>(view, b). \<not> view < hs_currentView h - 100) (hs_votesSent h)\<rparr>"

definition commitBlock ::
    "('b, 'c) nodeEnv \<Rightarrow> block \<Rightarrow> qc \<Rightarrow> ('b, 'c) node \<Rightarrow> hotstuff_error option \<times> ('b, 'c) node" where
  "commitBlock N blk q nd =
     (case upd_storage (CommitBlock (ne_storage N) (b_hash blk) (b_height blk)) nd of
        (Some e, nd) \<Rightarrow> (Some (CommitFailed e), nd)
      | (None, nd) \<Rightarrow>
          let nd = set_hs ((nd_hs nd)\<lparr>hs_currentHeight := b_height blk + 1\<rparr>) nd;
              nd = (if ne_callbacks N then emit (OutCommit blk q) nd else nd) in
          if ne_callbacks N \<and> \<not> ne_commitOk N blk q then (Some CommitCallback, nd)
          else (None,
            if hc_AutoCleanupOldVotes (ne_config N)
            then set_hs (cleanupOldData (b_height blk) (nd_hs nd)) nd else nd))"

text \<open>A proposal from memory, or one attempt to load it from the backend; errors are logged only.\<close>

definition lookupProposal ::
    "('b, 'c) nodeEnv \<Rightarrow> hash32 \<Rightarrow> ('b, 'c) node \<Rightarrow> proposal option \<times> ('b, 'c) node" where
  "lookupProposal N h nd =
     (case GetProposal (nd_storage nd) h of
        Some p \<Rightarrow> (Some p, nd)
      | None \<Rightarrow>
          (case upd_storage (GetProposalOrRecover (ne_storage N) h) nd of
             (Inl _, nd) \<Rightarrow> (None, nd)
           | (Inr op, nd) \<Rightarrow> (op, nd)))"

definition commitProposal ::
    "('b, 'c) nodeEnv \<Rightarrow> proposal option \<Rightarrow> qc \<Rightarrow> ('b, 'c) node \<Rightarrow> hotstuff_error option \<times> ('b, 'c) node" where
  "commitProposal N op q nd =
     (case op of
        None \<Rightarrow> (Some MissingProposal, nd)
      | Some p \<Rightarrow>
          (case p_block p of
             None \<Rightarrow> (Some MissingBlock, nd)
           | Some blk \<Rightarrow> commitBlock N blk q nd))"

definition updateLock :: "qc \<Rightarrow> qc \<Rightarrow> hotstuff \<Rightarrow> hotstuff" where
  "updateLock q locked h =
     (if getHeight q > getHeight locked \<or> (getHeight q = getHeight locked \<and> getView q > getView locked)
      then h\<lparr>hs_lockedQC := Some q\<rparr> else h)"

definition checkCommitRule ::
    "('b, 'c) nodeEnv \<Rightarrow> qc \<Rightarrow> ('b, 'c) node \<Rightarrow> hotstuff_error option \<times> ('b, 'c) node" where
  "checkCommitRule N q nd =
     (if getValidatorCount (ne_set N) = 1
      then commitProposal N (GetProposal (nd_storage nd) (getBlockHash q)) q nd
      else case hs_lockedQC (nd_hs nd) of
             None \<Rightarrow> (None, set_hs ((nd_hs nd)\<lparr>hs_lockedQC := Some q\<rparr>) nd)
           | Some locked \<Rightarrow>
               (case lookupProposal N (getBlockHash q) nd of
                  (cur, nd) \<Rightarrow>
                    if (case cur of None \<Rightarrow> False
                        | Some p \<Rightarrow> getHeight q = getHeight locked + 1 \<and> p_parentHash p = getBlockHash locked)
                    then (case lookupProposal N (getBlockHash locked) nd of
                            (op, nd) \<Rightarrow> commitProposal N op locked nd)
                    else (None, set_hs (updateLock q locked (nd_hs nd)) nd)))"

subsection \<open>Votes\<close>

definition detectVoteEquivocation ::
    "vote \<Rightarrow> 'b storage \<Rightarrow> vote option" where
  "detectVoteEquivocation v s =
     find (\<lambda>e. v_voterID e = v_voterID v \<and> v_height e = v_height v \<and> v_round e = v_round v
             \<and> v_blockHash e \<noteq> v_blockHash v) (GetVotesByView s (v_view v))"

definition opt_bytes :: "encoder_error + bytes \<Rightarrow> bytes" where
  "opt_bytes r = (case r of Inl _ \<Rightarrow> [] | Inr b \<Rightarrow> b)"

definition createEquivocationEvidence ::
    "('b, 'c) nodeEnv \<Rightarrow> instant \<Rightarrow> vote \<Rightarrow> vote \<Rightarrow> ('b, 'c) node \<Rightarrow> evidence" where
  "createEquivocationEvidence N now v1 v2 nd =
     (let ev = \<lparr>ev_kind = EvidenceDoubleVote, ev_view = v_view v1, ev_height = v_height v1,
                ev_offenderID = v_voterID v1,
                ev_proof = opt_bytes (Encode (ne_marshal N) (nd_encoder nd) (MsgVote v1))
                  @ opt_bytes (Encode (ne_marshal N) (nd_encoder nd) (MsgVote v2)),
                ev_reporterID = ne_keyID N, ev_timestamp = now,
                ev_signature = \<lparr>sig_bytes = [], sig_keyID = 0, sig_timestamp = zeroTime\<rparr>\<rparr>;
          sig = (case pe_sign (ne_pm N) (evidence_SignBytes (pe_sha256 (ne_pm N)) ev) of
                   None \<Rightarrow> [] | Some b \<Rightarrow> b) in
      ev\<lparr>ev_signature := \<lparr>sig_bytes = sig, sig_keyID = ne_keyID N, sig_timestamp = now\<rparr>\<rparr>)"

fun sameVoteTarget :: "vote \<Rightarrow> vote list \<Rightarrow> bool" where
  "sameVoteTarget fv [] = True"
| "sameVoteTarget fv (v # vs) =
     (v_view v = v_view fv \<and> v_height v = v_height fv \<and> v_round v = v_round fv
      \<and> v_blockHash v = v_blockHash fv \<and> sameVoteTarget fv vs)"

definition pending_at :: "hotstuff \<Rightarrow> u64 \<times> hash32 \<Rightarrow> (validatorID, vote) gomap" where
  "pending_at h key = (case map_of (hs_pendingVotes h) key of None \<Rightarrow> [] | Some m \<Rightarrow> m)"

definition dropBucket :: "u64 \<times> hash32 \<Rightarrow> ('b, 'c) node \<Rightarrow> ('b, 'c) node" where
  "dropBucket key nd =
     set_hs ((nd_hs nd)\<lparr>hs_pendingVotes := AList.delete key (hs_pendingVotes (nd_hs nd))\<rparr>) nd"

definition formQC ::
    "('b, 'c) nodeEnv \<Rightarrow> instant \<Rightarrow> hash32 \<Rightarrow> u64 \<Rightarrow> ('b, 'c) node
      \<Rightarrow> (hotstuff_error + qc option) \<times> ('b, 'c) node" where
  "formQC N now bh view nd =
     (let key = (view, bh); votes = pending_at (nd_hs nd) key in
      case ne_voteOrder N 1 votes of
        [] \<Rightarrow> (Inl NoPendingVotes, nd)
      | (_, fv) # _ \<Rightarrow>
          if \<not> sameVoteTarget fv (map snd (ne_voteOrder N 2 votes))
          then (Inl MixedVoteSet, dropBucket key nd)
          else
            let q = QuorumCertificate
                  \<lparr>qc_view = v_view fv, qc_height = v_height fv, qc_round = v_round fv, qc_blockHash = bh,
                   qc_signatures = map (v_signature \<circ> snd) (ne_voteOrder N 2 votes),
                   qc_timestamp = now, qc_aggregatorID = ne_keyID N\<rparr> in
            (case nodeValidateQC N q nd of
               (Some e, nd) \<Rightarrow> (Inl (QCInvalid e), nd)
             | (None, nd) \<Rightarrow>
                 (case upd_storage (StoreQC (ne_storage N) q) nd of
                    (Some e, nd) \<Rightarrow> (Inl (QCStore e), nd)
                  | (None, nd) \<Rightarrow>
                      let nd = set_hs ((nd_hs nd)\<lparr>hs_prepareQC := Some q\<rparr>) nd;
                          nd = snd (checkCommitRule N q nd) in
                      (Inr (Some q), dropBucket key nd))))"

definition addPending :: "vote \<Rightarrow> hotstuff \<Rightarrow> hotstuff" where
  "addPending v h =
     (let key = (v_view v, v_blockHash v) in
      h\<lparr>hs_pendingVotes :=
          AList.update key (AList.update (v_voterID v) v (pending_at h key)) (hs_pendingVotes h)\<rparr>)"

definition onVoteInternal ::
    "('b, 'c) nodeEnv \<Rightarrow> instant \<Rightarrow> vote \<Rightarrow> ('b, 'c) node
      \<Rightarrow> (hotstuff_error + qc option) \<times> ('b, 'c) node" where
  "onVoteInternal N now v nd =
     (case nodeValidateVote N v nd of
        (Some e, nd) \<Rightarrow> (Inl (VoteInvalid e), nd)
      | (None, nd) \<Rightarrow>
          (case detectVoteEquivocation v (nd_storage nd) of
             Some ex \<Rightarrow>
               (Inl (Equivocation (v_voterID v)),
                snd (upd_storage (StoreEvidence (ne_storage N) (createEquivocationEvidence N now ex v nd)) nd))
           | None \<Rightarrow>
               (case upd_storage (StoreVote (ne_storage N) v) nd of
                  (Some e, nd) \<Rightarrow> (Inl (VoteStore e), nd)
                | (None, nd) \<Rightarrow>
                    let key = (v_view v, v_blockHash v); h = nd_hs nd; bucket = pending_at h key;
                        nd = set_hs (h\<lparr>hs_pendingVotes := AList.update key bucket (hs_pendingVotes h)\<rparr>) nd in
                    if (case ne_voteOrder N 0 bucket of
                          [] \<Rightarrow> False
                        | (_, e) # _ \<Rightarrow> v_height e \<noteq> v_height v \<or> v_round e \<noteq> v_round v)
                    then (Inl MixedBucket, nd)
                    else
                      let nd = set_hs (addPending v (nd_hs nd)) nd in
                      if HasQuorum (ne_set N) (pending_at (nd_hs nd) key)
                      then formQC N now (v_blockHash v) (v_view v) nd
                      else (Inr None, nd))))"

definition OnVote ::
    "('b, 'c) nodeEnv \<Rightarrow> instant \<Rightarrow> vote \<Rightarrow> ('b, 'c) node \<Rightarrow> hotstuff_error option \<times> ('b, 'c) node" where
  "OnVote N now v nd =
     (case onVoteInternal N now v nd of
        (Inl e, nd) \<Rightarrow> (Some e, nd)
      | (Inr oq, nd) \<Rightarrow> (None, afterQC N now oq nd))"

definition makeVote :: "('b, 'c) nodeEnv \<Rightarrow> instant \<Rightarrow> proposal \<Rightarrow> vote option" where
  "makeVote N now p =
     (let v = \<lparr>v_view = p_view p, v_height = p_height p, v_round = p_round p,
               v_blockHash = p_blockHash p, v_voterID = ne_keyID N, v_timestamp = now,
               v_signature = \<lparr>sig_bytes = [], sig_keyID = 0, sig_timestamp = zeroTime\<rparr>\<rparr> in
      map_option (\<lambda>b. v\<lparr>v_signature := \<lparr>sig_bytes = b, sig_keyID = ne_keyID N, sig_timestamp = now\<rparr>\<rparr>)
        (pe_sign (ne_pm N) (vote_SignBytes v)))"

definition sendVoteLocked ::
    "('b, 'c) nodeEnv \<Rightarrow> instant \<Rightarrow> proposal \<Rightarrow> ('b, 'c) node
      \<Rightarrow> (hotstuff_error + qc option) \<times> ('b, 'c) node" where
  "sendVoteLocked N now p nd =
     (case makeVote N now p of
        None \<Rightarrow> (Inl SignVote, nd)
      | Some v \<Rightarrow>
          let h = nd_hs nd;
              nd = set_hs (h\<lparr>hs_votesSent := AList.update (p_view p) (p_blockHash p) (hs_votesSent h)\<rparr>) nd in
          (case upd_storage (StoreVote (ne_storage N) v) nd of
             (Some e, nd) \<Rightarrow> (Inl (VoteStore e), nd)
           | (None, nd) \<Rightarrow>
               let nd = (if ne_callbacks N then emit (OutVote v) nd else nd) in
               if IsLeader (ne_rotation N) (ne_keyID N) (p_view p) = Inr True
                  \<or> getValidatorCount (ne_set N) = 1 \<or> GetQuorumThreshold (ne_set N) = 1
               then onVoteInternal N now v nd
               else (Inr None, nd)))"

subsection \<open>Proposals\<close>

definition isSafeToVote :: "hotStuffConfig \<Rightarrow> qc option \<Rightarrow> proposal \<Rightarrow> bool" where
  "isSafeToVote cfg locked p =
     (if \<not> hc_SafetyCheckStrict cfg then True
      else case locked of
             None \<Rightarrow> True
           | Some l \<Rightarrow>
               (case p_justifyQC p of None \<Rightarrow> False | Some j \<Rightarrow> qc_view j \<ge> getView l))"

definition raiseLock :: "qc_fields option \<Rightarrow> hotstuff \<Rightarrow> hotstuff" where
  "raiseLock oj h =
     (case oj of
        None \<Rightarrow> h
      | Some j \<Rightarrow>
          if hs_lockedQC h = None \<or> qc_view j > getQCView (hs_lockedQC h)
          then h\<lparr>hs_lockedQC := Some (MessagesQC j)\<rparr> else h)"

definition engine_OnProposal :: "('b, 'c) nodeEnv \<Rightarrow> proposal \<Rightarrow> ('b, 'c) node \<Rightarrow> ('b, 'c) node" where
  "engine_OnProposal N p nd =
     (if p_view p = pm_currentView (nd_pm nd) then emit (OutProposal p) nd else nd)"

definition onProposalLocked ::
    "('b, 'c) nodeEnv \<Rightarrow> instant \<Rightarrow> proposal \<Rightarrow> ('b, 'c) node
      \<Rightarrow> (hotstuff_error + qc option) \<times> ('b, 'c) node" where
  "onProposalLocked N now p nd =
     (case nodeValidateProposal N p nd of
        (Some e, nd) \<Rightarrow> (Inl (ProposalInvalid e), nd)
      | (None, nd) \<Rightarrow>
          (case map_of (hs_votesSent (nd_hs nd)) (p_view p) of
             Some voted \<Rightarrow>
               if voted = p_blockHash p then (Inr None, nd) else (Inl (AlreadyVoted (p_view p)), nd)
           | None \<Rightarrow>
               (case (case p_justifyQC p of None \<Rightarrow> (None, nd) | Some j \<Rightarrow> nodeValidateQC N (MessagesQC j) nd) of
                  (Some e, nd) \<Rightarrow> (Inl (InvalidJustify e), nd)
                | (None, nd) \<Rightarrow>
                    let nd = set_hs (raiseLock (p_justifyQC p) (nd_hs nd)) nd in
                    if \<not> isSafeToVote (ne_config N) (hs_lockedQC (nd_hs nd)) p then (Inl UnsafeProposal, nd)
                    else if (case hc_BlockValidationFunc (ne_config N) of
                               None \<Rightarrow> False | Some f \<Rightarrow> \<not> f (p_block p))
                    then (Inl BlockInvalid, nd)
                    else (case upd_storage (StoreProposal (ne_storage N) now p) nd of
                            (Some e, nd) \<Rightarrow> (Inl (ProposalStore e), nd)
                          | (None, nd) \<Rightarrow>
                              let nd = nd\<lparr>nd_pm := pm_OnProposal (ne_pm N) now (nd_pm nd)\<rparr>;
                                  nd = (if ne_callbacks N then engine_OnProposal N p nd else nd) in
                              if hc_EnableVoting (ne_config N) then sendVoteLocked N now p nd
                              else (Inr None, nd)))))"

definition OnProposal ::
    "('b, 'c) nodeEnv \<Rightarrow> instant \<Rightarrow> proposal \<Rightarrow> ('b, 'c) node \<Rightarrow> hotstuff_error option \<times> ('b, 'c) node" where
  "OnProposal N now p nd =
     (case onProposalLocked N now p nd of
        (Inl e, nd) \<Rightarrow> (Some e, nd)
      | (Inr oq, nd) \<Rightarrow> (None, afterQC N now oq nd))"

subsection \<open>Creating a proposal\<close>

definition verifyPersistedVoteForQCRepair :: "('b, 'c) nodeEnv \<Rightarrow> vote \<Rightarrow> bool" where
  "verifyPersistedVoteForQCRepair N v =
     (if sig_keyID (v_signature v) \<noteq> v_voterID v then False
      else if \<not> isValidator (ne_set N) (v_voterID v) then False
      else case cr_GetPublicKey (ne_crypto N) (v_voterID v) of
             None \<Rightarrow> False
           | Some pk \<Rightarrow> cr_Verify (ne_crypto N) (vote_SignBytes v) (sig_bytes (v_signature v)) pk True)"

text \<open>One valid vote per validator, the earliest; the first one found among equals.\<close>

definition keepVote :: "vote \<Rightarrow> (validatorID, vote) gomap \<Rightarrow> (validatorID, vote) gomap" where
  "keepVote v m =
     (case map_of m (v_voterID v) of
        None \<Rightarrow> AList.update (v_voterID v) v m
      | Some ex \<Rightarrow> if v_timestamp v < v_timestamp ex then AList.update (v_voterID v) v m else m)"

fun collectRepairVotes ::
    "('b, 'c) nodeEnv \<Rightarrow> qc \<Rightarrow> vote list \<Rightarrow> (validatorID, vote) gomap \<Rightarrow> (validatorID, vote) gomap" where
  "collectRepairVotes N q [] m = m"
| "collectRepairVotes N q (v # vs) m =
     (if v_view v \<noteq> getView q \<or> v_height v \<noteq> getHeight q \<or> v_blockHash v \<noteq> getBlockHash q
      then collectRepairVotes N q vs m
      else if \<not> verifyPersistedVoteForQCRepair N v then collectRepairVotes N q vs m
      else collectRepairVotes N q vs (keepVote v m))"

definition latestVoteTimestamp :: "(validatorID, vote) gomap \<Rightarrow> instant" where
  "latestVoteTimestamp m =
     fold (\<lambda>(i, v) latest. if v_timestamp v > latest then v_timestamp v else latest) m zeroTime"

fun restampQC :: "signature list \<Rightarrow> instant \<Rightarrow> qc \<Rightarrow> qc" where
  "restampQC sigs t (QuorumCertificate q) = QuorumCertificate (q\<lparr>qc_signatures := sigs, qc_timestamp := t\<rparr>)"
| "restampQC sigs t (MessagesQC q) = MessagesQC (q\<lparr>qc_signatures := sigs, qc_timestamp := t\<rparr>)"

definition rebuildQCFromVotes :: "('b, 'c) nodeEnv \<Rightarrow> qc \<Rightarrow> 'b storage \<Rightarrow> qc option" where
  "rebuildQCFromVotes N q s =
     (let votes = collectRepairVotes N q
            (GetVotesForQCRepair (ne_storage N) (getView q) (getHeight q) (getBlockHash q)
              (GetQuorumThreshold (ne_set N)) s) [] in
      if \<not> HasQuorum (ne_set N) votes then None
      else case AggregateVotes (ne_voteOrder N) (ne_set N) votes (ne_keyID N) of
             Inl _ \<Rightarrow> None
           | Inr rebuilt \<Rightarrow>
               Some (restampQC (sliceStable (\<lambda>a b. sig_keyID a < sig_keyID b) (getSignatures rebuilt))
                 (latestVoteTimestamp votes) rebuilt))"

definition sameQCTarget :: "qc \<Rightarrow> qc \<Rightarrow> bool" where
  "sameQCTarget a b \<longleftrightarrow>
     getView a = getView b \<and> getHeight a = getHeight b \<and> getBlockHash a = getBlockHash b"

fun bestValidated ::
    "('b, 'c) nodeEnv \<Rightarrow> qc \<Rightarrow> qc option \<Rightarrow> qc option list \<Rightarrow> ('b, 'c) node \<Rightarrow> qc option \<times> ('b, 'c) node" where
  "bestValidated N exclude best [] nd = (best, nd)"
| "bestValidated N exclude best (None # cs) nd = bestValidated N exclude best cs nd"
| "bestValidated N exclude best (Some c # cs) nd =
     (if sameQCTarget c exclude then bestValidated N exclude best cs nd
      else case nodeValidateQC N c nd of
             (Some e, nd) \<Rightarrow> bestValidated N exclude best cs nd
           | (None, nd) \<Rightarrow>
               bestValidated N exclude
                 (case best of
                    None \<Rightarrow> Some c
                  | Some b \<Rightarrow>
                      if getHeight c > getHeight b \<or> (getHeight c = getHeight b \<and> getView c > getView b)
                      then Some c else best) cs nd)"

definition bestValidatedFallbackQC ::
    "('b, 'c) nodeEnv \<Rightarrow> qc \<Rightarrow> ('b, 'c) node \<Rightarrow> qc option \<times> ('b, 'c) node" where
  "bestValidatedFallbackQC N exclude nd =
     bestValidated N exclude None
       ([hs_lockedQC (nd_hs nd), hs_prepareQC (nd_hs nd), GetLastCommittedQC (nd_storage nd)]
        @ map Some (GetQCsSnapshot (ne_qcOrder N) (nd_storage nd))) nd"

definition fallbackOrFail ::
    "('b, 'c) nodeEnv \<Rightarrow> qc \<Rightarrow> ('b, 'c) node \<Rightarrow> (hotstuff_error + qc option) \<times> ('b, 'c) node" where
  "fallbackOrFail N q nd =
     (case bestValidatedFallbackQC N q nd of
        (Some f, nd) \<Rightarrow> (Inr (Some f), nd)
      | (None, nd) \<Rightarrow> (Inl SanitizeQC, nd))"

definition sanitizeJustifyQC ::
    "('b, 'c) nodeEnv \<Rightarrow> qc option \<Rightarrow> ('b, 'c) node \<Rightarrow> (hotstuff_error + qc option) \<times> ('b, 'c) node" where
  "sanitizeJustifyQC N oq nd =
     (case oq of
        None \<Rightarrow> (Inr None, nd)
      | Some q \<Rightarrow>
          (case nodeValidateQC N q nd of
             (None, nd) \<Rightarrow> (Inr (Some q), nd)
           | (Some _, nd) \<Rightarrow>
               (case rebuildQCFromVotes N q (nd_storage nd) of
                  None \<Rightarrow> fallbackOrFail N q nd
                | Some rebuilt \<Rightarrow>
                    (case nodeValidateQC N rebuilt nd of
                       (Some _, nd) \<Rightarrow> fallbackOrFail N q nd
                     | (None, nd) \<Rightarrow>
                         (Inr (Some rebuilt), snd (upd_storage (StoreQC (ne_storage N) rebuilt) nd))))))"

definition proposalHeightFor :: "qc option \<Rightarrow> ('b, 'c) node \<Rightarrow> u64 \<Rightarrow> u64" where
  "proposalHeightFor justify nd pmHeight =
     (let h = (if pmHeight < hs_currentHeight (nd_hs nd) then hs_currentHeight (nd_hs nd) else pmHeight) in
      case justify of
        None \<Rightarrow> h
      | Some q \<Rightarrow> if h < getHeight q + 1 then getHeight q + 1 else h)"

definition parentHashFor :: "qc_fields option \<Rightarrow> u64 \<Rightarrow> 'b storage \<Rightarrow> hash32" where
  "parentHashFor justify height s =
     (case justify of
        Some q \<Rightarrow> qc_blockHash q
      | None \<Rightarrow>
          if height > 1
          then (case GetCommittedBlockHash s (height - 1) of None \<Rightarrow> 0 | Some h \<Rightarrow> h)
          else 0)"

text \<open>
  The rest of an attempt once the views agree. When signing fails the code unlocks a mutex it does
  not hold, which stops the process: \<open>FatalUnlock\<close>.
\<close>

definition assembleProposal ::
    "('b, 'c) nodeEnv \<Rightarrow> instant \<Rightarrow> block \<Rightarrow> u64 \<Rightarrow> u64 \<Rightarrow> qc option \<Rightarrow> ('b, 'c) node
      \<Rightarrow> (hotstuff_error + proposal) \<times> ('b, 'c) node" where
  "assembleProposal N now blk currentView pmHeight justifyQC nd =
     (let height = proposalHeightFor justifyQC nd pmHeight;
          justify = convertToMessageQC justifyQC;
          p = \<lparr>p_view = currentView, p_height = height, p_round = 0, p_blockHash = b_hash blk,
               p_parentHash = parentHashFor justify height (nd_storage nd), p_proposerID = ne_keyID N,
               p_timestamp = now, p_justifyQC = justify, p_block = Some blk,
               p_signature = \<lparr>sig_bytes = [], sig_keyID = 0, sig_timestamp = zeroTime\<rparr>\<rparr> in
      case pe_sign (ne_pm N) (proposal_SignBytes (pe_sha256 (ne_pm N)) p) of
        None \<Rightarrow> (Inl FatalUnlock, nd)
      | Some b \<Rightarrow>
          let p = p\<lparr>p_signature := \<lparr>sig_bytes = b, sig_keyID = ne_keyID N, sig_timestamp = now\<rparr>\<rparr> in
          (case upd_storage (StoreProposal (ne_storage N) now p) nd of
             (Some e, nd) \<Rightarrow> (Inl (ProposalStore e), nd)
           | (None, nd) \<Rightarrow> (Inr p, nd)))"

text \<open>
  The retry loop. Between attempts the code sleeps and other handlers run: \<open>env k\<close> is what they
  do during the sleep after \<open>k\<close> further attempts are left, \<open>now k\<close> the time of the attempt.
\<close>

fun createProposalLoop ::
    "('b, 'c) nodeEnv \<Rightarrow> (nat \<Rightarrow> instant) \<Rightarrow> (nat \<Rightarrow> ('b, 'c) node \<Rightarrow> ('b, 'c) node) \<Rightarrow> block \<Rightarrow> nat
      \<Rightarrow> u64 \<Rightarrow> u64 \<Rightarrow> ('b, 'c) node \<Rightarrow> (hotstuff_error + proposal) \<times> ('b, 'c) node" where
  "createProposalLoop N now env blk 0 lastPm lastHs nd = (Inl (ViewSyncTimeout lastPm lastHs), nd)"
| "createProposalLoop N now env blk (Suc k) lastPm lastHs nd =
     (let currentView = pm_currentView (nd_pm nd); pmHeight = pm_currentHeight (nd_pm nd) in
      case IsLeader (ne_rotation N) (ne_keyID N) currentView of
        Inl _ \<Rightarrow> (Inl LeaderStatus, nd)
      | Inr False \<Rightarrow> (Inl (NotLeader currentView), nd)
      | Inr True \<Rightarrow>
          (case sanitizeJustifyQC N (pm_highestQC (nd_pm nd)) nd of
             (Inl e, nd) \<Rightarrow> (Inl e, nd)
           | (Inr justifyQC, nd) \<Rightarrow>
               if hs_currentView (nd_hs nd) \<noteq> currentView
               then createProposalLoop N now env blk k currentView (hs_currentView (nd_hs nd)) (env k nd)
               else assembleProposal N (now k) blk currentView pmHeight justifyQC nd))"

definition createProposalMaxSyncRetries :: nat where
  "createProposalMaxSyncRetries = 50"

definition CreateProposal ::
    "('b, 'c) nodeEnv \<Rightarrow> (nat \<Rightarrow> instant) \<Rightarrow> (nat \<Rightarrow> ('b, 'c) node \<Rightarrow> ('b, 'c) node) \<Rightarrow> block
      \<Rightarrow> ('b, 'c) node \<Rightarrow> (hotstuff_error + proposal) \<times> ('b, 'c) node" where
  "CreateProposal N now env blk nd =
     createProposalLoop N now env blk createProposalMaxSyncRetries 0 0 nd"

subsection \<open>Starting a node and the pacemaker's events\<close>

definition hs_Start :: "('b, 'c) node \<Rightarrow> ('b, 'c) node" where
  "hs_Start nd = set_hs (loadState (nd_storage nd) (nd_hs nd)) nd"

definition syncPacemakerWithHotStuff ::
    "('b, 'c) nodeEnv \<Rightarrow> instant \<Rightarrow> ('b, 'c) node \<Rightarrow> ('b, 'c) node" where
  "syncPacemakerWithHotStuff N now nd =
     (let h = nd_hs nd;
          pm = SetCurrentView (ne_pm N) now (hs_currentView h)
                 (SetCurrentHeight (hs_currentHeight h) (nd_pm nd)) in
      case hs_lockedQC h of
        None \<Rightarrow> nd\<lparr>nd_pm := pm\<rparr>
      | Some q \<Rightarrow>
          nd\<lparr>nd_pm := SetHighestQC q pm,
             nd_encoder := (case q of
                              MessagesQC m \<Rightarrow> CacheQCSignatures (ne_cache N) (Some m) (nd_encoder nd)
                            | QuorumCertificate _ \<Rightarrow> nd_encoder nd)\<rparr>)"

text \<open>The pacemaker's handlers with the engine as their callback.\<close>

definition node_OnViewChange ::
    "('b, 'c) nodeEnv \<Rightarrow> ((validatorID, viewChangeMsg) gomap \<Rightarrow> (validatorID, viewChangeMsg) gomap)
      \<Rightarrow> instant \<Rightarrow> viewChangeMsg \<Rightarrow> ('b, 'c) node \<Rightarrow> ('b, 'c) node" where
  "node_OnViewChange N ord now vc nd =
     (case pm_OnViewChange ord (ne_pm N) engine_OnViewChange now vc (nd_pm nd, nd_hs nd) of
        (_, pm, h) \<Rightarrow> nd\<lparr>nd_pm := pm, nd_hs := h\<rparr>)"

definition node_OnNewView ::
    "('b, 'c) nodeEnv \<Rightarrow> instant \<Rightarrow> newViewMsg \<Rightarrow> ('b, 'c) node \<Rightarrow> ('b, 'c) node" where
  "node_OnNewView N now nv nd =
     (case pm_OnNewView (ne_pm N) engine_OnViewChange now nv (nd_pm nd, nd_hs nd) of
        (_, pm, h) \<Rightarrow> nd\<lparr>nd_pm := pm, nd_hs := h\<rparr>)"

definition node_pm :: "(pacemaker \<Rightarrow> pacemaker) \<Rightarrow> ('b, 'c) node \<Rightarrow> ('b, 'c) node" where
  "node_pm f nd = nd\<lparr>nd_pm := f (nd_pm nd)\<rparr>"

end
