(* ===== verification/VoteSafety.thy ===== *)
theory VoteSafety
  imports HotStuff
begin

text \<open>
  Runs of a node and the voting rule: in no run does a node hand the network two votes of one view
  for different blocks, given that its first view is out of the range where the clean-up of
  \<^verbatim>\<open>pbft.go\<close> wraps around. The wrap-around itself is shown as well.
\<close>

subsection \<open>Frames\<close>

lemma node_frame [frame_simps]:
  "nd_hs (emit x nd) = nd_hs nd" "nd_pm (emit x nd) = nd_pm nd"
  "nd_storage (emit x nd) = nd_storage nd" "nd_out (emit x nd) = nd_out nd @ [x]"
  "nd_hs (set_hs h nd) = h" "nd_pm (set_hs h nd) = nd_pm nd"
  "nd_storage (set_hs h nd) = nd_storage nd" "nd_out (set_hs h nd) = nd_out nd"
  "nd_hs (snd (upd_storage f nd)) = nd_hs nd" "nd_pm (snd (upd_storage f nd)) = nd_pm nd"
  "nd_out (snd (upd_storage f nd)) = nd_out nd"
  "nd_storage (snd (upd_storage f nd)) = snd (f (nd_storage nd))"
  "fst (upd_storage f nd) = fst (f (nd_storage nd))"
  "nd_hs (set_vstate s nd) = nd_hs nd" "nd_pm (set_vstate s nd) = nd_pm nd"
  "nd_out (set_vstate s nd) = nd_out nd" "nd_storage (set_vstate s nd) = nd_storage nd"
  by (simp_all add: emit_def set_hs_def upd_storage_def set_vstate_def split_beta)

lemma validate_frame [frame_simps]:
  "nd_hs (snd (nodeValidateProposal N p nd)) = nd_hs nd"
  "nd_pm (snd (nodeValidateProposal N p nd)) = nd_pm nd"
  "nd_out (snd (nodeValidateProposal N p nd)) = nd_out nd"
  "nd_storage (snd (nodeValidateProposal N p nd)) = nd_storage nd"
  "nd_hs (snd (nodeValidateVote N v nd)) = nd_hs nd"
  "nd_pm (snd (nodeValidateVote N v nd)) = nd_pm nd"
  "nd_out (snd (nodeValidateVote N v nd)) = nd_out nd"
  "nd_storage (snd (nodeValidateVote N v nd)) = nd_storage nd"
  "nd_hs (snd (nodeValidateQC N q nd)) = nd_hs nd"
  "nd_pm (snd (nodeValidateQC N q nd)) = nd_pm nd"
  "nd_out (snd (nodeValidateQC N q nd)) = nd_out nd"
  "nd_storage (snd (nodeValidateQC N q nd)) = nd_storage nd"
  by (simp_all add: nodeValidateProposal_def nodeValidateVote_def nodeValidateQC_def split_beta frame_simps)

lemma lookupProposal_frame [frame_simps]:
  "nd_hs (snd (lookupProposal N h nd)) = nd_hs nd"
  "nd_pm (snd (lookupProposal N h nd)) = nd_pm nd"
  "nd_out (snd (lookupProposal N h nd)) = nd_out nd"
  by (simp_all add: lookupProposal_def split_beta frame_simps split: option.split sum.split)

lemma hs_frame [frame_simps]:
  "hs_currentView (updateLock q l h) = hs_currentView h"
  "hs_votesSent (updateLock q l h) = hs_votesSent h"
  "hs_pendingVotes (updateLock q l h) = hs_pendingVotes h"
  "hs_currentView (raiseLock oj h) = hs_currentView h"
  "hs_votesSent (raiseLock oj h) = hs_votesSent h"
  "hs_pendingVotes (raiseLock oj h) = hs_pendingVotes h"
  "hs_currentView (addPending v h) = hs_currentView h"
  "hs_votesSent (addPending v h) = hs_votesSent h"
  by (auto simp: updateLock_def raiseLock_def addPending_def Let_def split: option.split)

subsection \<open>Views of the engine and of the pacemaker\<close>

text \<open>
  \<open>view_rel\<close>: what the pacemaker's handlers do to the pair of pacemaker and engine.
\<close>

fun view_rel :: "pacemaker \<times> hotstuff \<Rightarrow> pacemaker \<times> hotstuff \<Rightarrow> bool" where
  "view_rel (pm, h) (pm', h') \<longleftrightarrow>
     (hs_currentView h \<le> pm_currentView pm \<longrightarrow> hs_currentView h' \<le> pm_currentView pm')
     \<and> hs_currentView h \<le> hs_currentView h' \<and> pm_currentView pm \<le> pm_currentView pm'
     \<and> hs_votesSent h' = hs_votesSent h \<and> hs_pendingVotes h' = hs_pendingVotes h"

lemma view_rel_refl [simp]: "view_rel s s"
  by (cases s) simp

lemma view_rel_trans [trans]: "view_rel a b \<Longrightarrow> view_rel b c \<Longrightarrow> view_rel a c"
  by (cases a; cases b; cases c) auto

lemma view_rel_pm: "pm_currentView pm' = pm_currentView pm \<Longrightarrow> view_rel (pm, h) (pm', h)"
  by simp

lemma AdvanceView_cases:
  "AdvanceView v oq h = (r, h') \<Longrightarrow>
    hs_votesSent h' = hs_votesSent h \<and> hs_pendingVotes h' = hs_pendingVotes h
    \<and> (case r of None \<Rightarrow> hs_currentView h < v \<and> hs_currentView h' = v | Some e \<Rightarrow> h' = h)"
  by (auto simp: AdvanceView_def Let_def not_le split: if_splits option.splits)

lemma view_rel_advanceView:
  assumes "pm_currentView pm \<le> v"
  shows "view_rel (pm, h) (snd (advanceView E engine_OnViewChange now v oq (pm, h)))"
proof -
  obtain r pm' h' where adv: "advanceView E engine_OnViewChange now v oq (pm, h) = (r, pm', h')"
    by (cases "advanceView E engine_OnViewChange now v oq (pm, h)")
  obtain e h1 where h1: "AdvanceView v oq h = (e, h1)" by (cases "AdvanceView v oq h")
  have "h' = h1 \<and> (r = None \<longleftrightarrow> e = None)"
    using adv h1 by (auto simp: advanceView_def engine_OnViewChange_def Let_def
      split: prod.splits bool.splits option.splits)
  moreover have "r = None \<Longrightarrow> pm_currentView pm' = v" "r \<noteq> None \<Longrightarrow> pm' = pm"
    using adv by (auto dest: advanceView_failed advanceView_success(1))
  ultimately show ?thesis
    using AdvanceView_cases [OF h1] assms adv by (cases e) auto
qed

lemma view_rel_sendNewView:
  assumes "pm_currentView pm \<le> v"
  shows "view_rel (pm, h) (snd (sendNewView ord E engine_OnViewChange now v (pm, h)))"
proof -
  have "view_rel (pm, h) (snd (advanceView E engine_OnViewChange now v oq (pm1, h)))"
    if "pm_currentView pm1 = pm_currentView pm" for pm1 oq
    using view_rel_trans [OF view_rel_pm [OF that] view_rel_advanceView] assms that by simp
  then show ?thesis
    by (simp add: sendNewView_def Let_def split: option.split)
qed

lemma view_rel_handlers:
  "view_rel (pm, h) (snd (pm_OnViewChange ord E engine_OnViewChange now vc (pm, h)))"
  "view_rel (pm, h) (snd (pm_OnNewView E engine_OnViewChange now nv (pm, h)))"
  "view_rel (pm, h) (pm_OnQC E engine_OnViewChange now q (pm, h))"
proof -
  let ?pm1 = "storeViewChange (lvc_NewView vc) (lvc_SenderID vc) vc pm"
  have 1: "view_rel (pm, h) (?pm1, h)" by (simp add: frame_simps)
  have le: "pm_currentView ?pm1 \<le> lvc_NewView vc" if "\<not> lvc_NewView vc < pm_currentView pm"
    using that by (simp add: frame_simps not_less)
  show "view_rel (pm, h) (snd (pm_OnViewChange ord E engine_OnViewChange now vc (pm, h)))"
    using view_rel_trans [OF 1 view_rel_advanceView [OF le]] view_rel_trans [OF 1 view_rel_sendNewView [OF le]]
    by (auto simp: pm_OnViewChange_def Let_def frame_simps split: sum.split bool.split)
  show "view_rel (pm, h) (snd (pm_OnNewView E engine_OnViewChange now nv (pm, h)))"
    using view_rel_advanceView [of pm "lnv_View nv"]
    by (auto simp: pm_OnNewView_def Let_def not_less split: sum.splits bool.splits)
  have note_view: "pm_currentView (noteQC q pm) = pm_currentView pm"
    by (simp add: noteQC_def Let_def)
  obtain r pm2 h2 where adv:
      "advanceView E engine_OnViewChange now (getView q + 1) (Some q) (noteQC q pm, h) = (r, pm2, h2)"
    by (cases "advanceView E engine_OnViewChange now (getView q + 1) (Some q) (noteQC q pm, h)")
  have "view_rel (pm, h) (pm2, h2)" if "\<not> getView q + 1 \<le> pm_currentView pm"
    using view_rel_trans [OF view_rel_pm [OF note_view]
      view_rel_advanceView [of "noteQC q pm" "getView q + 1" h E now "Some q"]] that adv note_view by simp
  then show "view_rel (pm, h) (pm_OnQC E engine_OnViewChange now q (pm, h))"
    using adv note_view by (auto simp: pm_OnQC_def Let_def frame_simps split: option.splits)
qed

subsection \<open>Steps of a node\<close>

text \<open>
  Every entry point of the engine, one attempt of \<open>CreateProposal\<close>, the pacemaker's events,
  recovery, maintenance of the storage, and the other validations that share the replay set.
\<close>

inductive node_step :: "('b, 'c) nodeEnv \<Rightarrow> ('b, 'c) node \<Rightarrow> ('b, 'c) node \<Rightarrow> bool" for N where
  proposal: "node_step N nd (snd (OnProposal N now p nd))"
| vote: "node_step N nd (snd (OnVote N now v nd))"
| attempt: "node_step N nd (snd (createProposalLoop N now (\<lambda>k nd. nd) blk 1 a b nd))"
| viewChange: "node_step N nd (node_OnViewChange N ord now vc nd)"
| newView: "node_step N nd (node_OnNewView N now nv nd)"
| timeout: "node_step N nd (node_pm (handleTimeout (ne_pm N) now) nd)"
| cleanup: "node_step N nd (node_pm CleanupOldViewChanges nd)"
| recover: "node_step N nd (syncPacemakerWithHotStuff N now (snd (RecoverProposalWindow N now n nd)))"
| storage: "storage_step (ne_storage N) (nd_storage nd) s \<Longrightarrow> node_step N nd (nd\<lparr>nd_storage := s\<rparr>)"
| validate: "validator_step (node_env N nd) (node_vstate nd) s \<Longrightarrow> node_step N nd (set_vstate s nd)"

text \<open>The whole of \<open>CreateProposal\<close> is a run, whatever runs during its sleeps.\<close>

lemma createProposalLoop_unroll:
  "snd (createProposalLoop N now env blk (Suc k) a b nd) =
    (let r = createProposalLoop N (\<lambda>_. now k) (\<lambda>k nd. nd) blk 1 a b nd in
     if \<exists>x y. fst r = Inl (ViewSyncTimeout x y)
     then snd (createProposalLoop N now env blk k (pm_currentView (nd_pm nd))
            (hs_currentView (nd_hs (snd r))) (env k (snd r)))
     else snd r)"
proof -
  obtain r nd1 where r: "sanitizeJustifyQC N (pm_highestQC (nd_pm nd)) nd = (r, nd1)"
    by (cases "sanitizeJustifyQC N (pm_highestQC (nd_pm nd)) nd")
  have "\<nexists>x y. r = Inl (ViewSyncTimeout x y)"
    using r by (auto simp: sanitizeJustifyQC_def fallbackOrFail_def split: option.splits prod.splits)
  moreover have "\<nexists>x y. fst (assembleProposal N t blk w m j nd') = Inl (ViewSyncTimeout x y)" for t w m j nd'
    by (auto simp: assembleProposal_def Let_def split_beta split: option.splits)
  ultimately show ?thesis
    using r by (auto simp: Let_def split: sum.split bool.split)
qed

lemma CreateProposal_run:
  assumes "\<And>k nd. (node_step N)\<^sup>*\<^sup>* nd (env k nd)"
  shows "(node_step N)\<^sup>*\<^sup>* nd (snd (CreateProposal N now env blk nd))"
proof -
  have "(node_step N)\<^sup>*\<^sup>* nd (snd (createProposalLoop N now env blk k a b nd))" for k a b nd
  proof (induction k arbitrary: a b nd)
    case (Suc k)
    let ?r = "createProposalLoop N (\<lambda>_. now k) (\<lambda>k nd. nd) blk 1 a b nd"
    have "(node_step N)\<^sup>*\<^sup>* nd (snd ?r)" by (rule r_into_rtranclp) (rule node_step.attempt)
    moreover have "(node_step N)\<^sup>*\<^sup>* (snd ?r)
        (snd (createProposalLoop N now env blk k x y (env k (snd ?r))))" for x y
      using assms Suc by (rule rtranclp_trans)
    ultimately show ?case
      by (simp only: createProposalLoop_unroll Let_def split: if_split) (blast intro: rtranclp_trans)
  qed simp
  then show ?thesis by (simp add: CreateProposal_def)
qed

subsection \<open>The voting invariant\<close>

definition votes_in :: "nodeOut list \<Rightarrow> vote list" where
  "votes_in out = concat (map (\<lambda>x. case x of OutVote v \<Rightarrow> [v] | _ \<Rightarrow> []) out)"

lemma votes_in_append [simp]:
  "votes_in (out @ [OutVote v]) = votes_in out @ [v]"
  "votes_in (out @ [OutProposal p]) = votes_in out"
  "votes_in (out @ [OutCommit blk q]) = votes_in out"
  "votes_in [] = []"
  by (simp_all add: votes_in_def)

text \<open>
  Each vote sent is either older than the pacemaker's view or still recorded in
  \<^verbatim>\<open>votesSent\<close>; \<open>ok\<close> says whether clean-up is safe.
\<close>

definition one_per_view :: "vote list \<Rightarrow> bool" where
  "one_per_view votes \<longleftrightarrow>
     (\<forall>v \<in> set votes. \<forall>w \<in> set votes. v_view v = v_view w \<longrightarrow> v = w)"

definition votes_ok :: "bool \<Rightarrow> u64 \<Rightarrow> u64 \<Rightarrow> (u64, hash32) gomap \<Rightarrow> vote list \<Rightarrow> bool" where
  "votes_ok clean hv pv sent votes \<longleftrightarrow>
     hv \<le> pv \<and> (clean \<longrightarrow> 100 \<le> hv)
     \<and> (\<forall>v \<in> set votes. v_view v < pv \<or> map_of sent (v_view v) = Some (v_blockHash v))
     \<and> one_per_view votes"

lemma one_per_view_add:
  assumes "one_per_view votes" and "\<And>x. x \<in> set votes \<Longrightarrow> v_view x \<noteq> v_view v"
  shows "one_per_view (votes @ [v])"
  unfolding one_per_view_def
proof (intro ballI impI)
  fix x y
  assume "x \<in> set (votes @ [v])" "y \<in> set (votes @ [v])" and eq: "v_view x = v_view y"
  then consider "x = y" | "x \<in> set votes" "y \<in> set votes"
    using assms(2) [of x] assms(2) [of y] by (cases "x = v"; cases "y = v") simp_all
  then show "x = y"
    using assms(1) eq unfolding one_per_view_def by cases blast+
qed

abbreviation vote_inv :: "('b, 'c) nodeEnv \<Rightarrow> ('b, 'c) node \<Rightarrow> bool" where
  "vote_inv N nd \<equiv> votes_ok (hc_AutoCleanupOldVotes (ne_config N)) (hs_currentView (nd_hs nd))
     (pm_currentView (nd_pm nd)) (hs_votesSent (nd_hs nd)) (votes_in (nd_out nd))"

lemma votes_ok_advance:
  "votes_ok c hv pv sent votes \<Longrightarrow> hv \<le> hv' \<Longrightarrow> pv \<le> pv' \<Longrightarrow> hv' \<le> pv' \<Longrightarrow> votes_ok c hv' pv' sent votes"
  unfolding votes_ok_def by (meson order_less_le_trans order_trans)

lemma map_of_filter_key: "P k \<Longrightarrow> map_of (filter (\<lambda>(k, v). P k) m) k = map_of m k"
  by (induction m) auto

lemma votes_ok_cleanup:
  assumes "votes_ok True hv pv sent votes"
  shows "votes_ok True hv pv (filter (\<lambda>(view, b). \<not> view < hv - 100) sent) votes"
proof -
  have "hv - 100 \<le> hv" "hv \<le> pv" using assms by (simp_all add: votes_ok_def word_sub_le)
  then have "\<not> w < hv - 100" if "\<not> w < pv" for w
    using that by (meson not_less order_trans)
  then have "map_of (filter (\<lambda>(view, b). \<not> view < hv - 100) sent) w = map_of sent w" if "\<not> w < pv" for w
    using that by (intro map_of_filter_key) blast
  then show ?thesis using assms unfolding votes_ok_def by metis
qed

lemma votes_ok_send:
  assumes ok: "votes_ok c hv pv sent votes" and "map_of sent w = None" and "pv \<le> w"
  shows "votes_ok c hv pv (AList.update w b sent) votes"
    and "v_view v = w \<Longrightarrow> v_blockHash v = b \<Longrightarrow> votes_ok c hv pv (AList.update w b sent) (votes @ [v])"
proof -
  have fresh: "v_view v \<noteq> w" if "v \<in> set votes" for v
    using that assms unfolding votes_ok_def by (metis leD option.distinct(1))
  show *: "votes_ok c hv pv (AList.update w b sent) votes"
    using ok fresh unfolding votes_ok_def by (simp add: update_conv')
  assume v: "v_view v = w" "v_blockHash v = b"
  have "map_of (AList.update w b sent) (v_view v) = Some (v_blockHash v)"
    by (simp add: update_conv' v)
  moreover have "one_per_view (votes @ [v])"
    using ok fresh v(1) by (intro one_per_view_add) (simp_all add: votes_ok_def)
  ultimately show "votes_ok c hv pv (AList.update w b sent) (votes @ [v])"
    using * unfolding votes_ok_def by simp
qed

lemma vote_inv_commitBlock:
  "vote_inv N nd \<Longrightarrow> vote_inv N (snd (commitBlock N blk q nd))"
  by (auto simp: commitBlock_def cleanupOldData_def Let_def split_beta frame_simps
    intro: votes_ok_cleanup split: option.split)

lemma vote_inv_commitProposal:
  "vote_inv N nd \<Longrightarrow> vote_inv N (snd (commitProposal N op q nd))"
  by (auto simp: commitProposal_def vote_inv_commitBlock split: option.split)

lemma vote_inv_checkCommitRule:
  "vote_inv N nd \<Longrightarrow> vote_inv N (snd (checkCommitRule N q nd))"
  by (auto simp: checkCommitRule_def split_beta frame_simps split: option.split
    intro!: vote_inv_commitProposal)

lemma vote_inv_formQC:
  "vote_inv N nd \<Longrightarrow> vote_inv N (snd (formQC N now bh view nd))"
  by (auto simp: formQC_def dropBucket_def Let_def split_beta frame_simps
    split: list.split option.split intro!: vote_inv_checkCommitRule)

lemma vote_inv_onVoteInternal:
  "vote_inv N nd \<Longrightarrow> vote_inv N (snd (onVoteInternal N now v nd))"
proof -
  assume inv: "vote_inv N nd"
  have "vote_inv N (snd (formQC N now bh view nd1))" if "vote_inv N nd1" for bh view nd1
    using that by (rule vote_inv_formQC)
  then show ?thesis
    using inv by (simp add: onVoteInternal_def Let_def split_beta frame_simps split: list.split option.split)
qed

lemma votes_ok_view_rel:
  assumes "view_rel (pm, h) (pm', h')"
    and "votes_ok c (hs_currentView h) (pm_currentView pm) (hs_votesSent h) votes"
  shows "votes_ok c (hs_currentView h') (pm_currentView pm') (hs_votesSent h') votes"
proof -
  have "hs_currentView h \<le> pm_currentView pm" using assms(2) by (simp add: votes_ok_def)
  then show ?thesis using assms(1) votes_ok_advance [OF assms(2)] by simp
qed

lemma vote_inv_set:
  assumes "view_rel (nd_pm nd, nd_hs nd) ph" and "vote_inv N nd"
  shows "vote_inv N (nd\<lparr>nd_pm := fst ph, nd_hs := snd ph\<rparr>)"
  using votes_ok_view_rel [of "nd_pm nd" "nd_hs nd" "fst ph" "snd ph"] assms by simp

lemma vote_inv_pacemaker:
  assumes inv: "vote_inv N nd"
  shows "vote_inv N (node_OnQC N now q nd)"
    and "vote_inv N (node_OnViewChange N ord now vc nd)"
    and "vote_inv N (node_OnNewView N now nv nd)"
  unfolding node_OnQC_def node_OnViewChange_def node_OnNewView_def split_beta
  by (rule vote_inv_set [OF view_rel_handlers(3) inv] vote_inv_set [OF view_rel_handlers(1) inv]
    vote_inv_set [OF view_rel_handlers(2) inv])+

lemma vote_inv_afterQC: "vote_inv N nd \<Longrightarrow> vote_inv N (afterQC N now oq nd)"
  by (simp add: afterQC_def Let_def vote_inv_pacemaker(1) split: option.split)

lemma vote_inv_OnVote: "vote_inv N nd \<Longrightarrow> vote_inv N (snd (OnVote N now v nd))"
  using vote_inv_onVoteInternal [of N nd now v]
  by (auto simp: OnVote_def split_beta vote_inv_afterQC split: sum.split)

lemma vote_inv_sendVoteLocked:
  assumes inv: "vote_inv N nd" and fresh: "map_of (hs_votesSent (nd_hs nd)) (p_view p) = None"
    and "pm_currentView (nd_pm nd) \<le> p_view p"
  shows "vote_inv N (snd (sendVoteLocked N now p nd))"
proof -
  note send = votes_ok_send [OF assms]
  have vote: "v_view v = p_view p \<and> v_blockHash v = p_blockHash p" if "makeVote N now p = Some v" for v
    using that by (auto simp: makeVote_def Let_def)
  have "vote_inv N (snd (onVoteInternal N now v nd1))" if "vote_inv N nd1" for v nd1
    using that by (rule vote_inv_onVoteInternal)
  then show ?thesis
    using inv send vote by (auto simp: sendVoteLocked_def Let_def split_beta frame_simps
      split: option.split intro!: vote_inv_onVoteInternal)
qed

text \<open>A proposal that passes validation is not of an older view than the pacemaker's.\<close>

lemma validated_view:
  assumes "fst (nodeValidateProposal N p nd) = None" and "vf_StrictMonotonicity (ne_validation N)"
  shows "pm_currentView (nd_pm nd) \<le> p_view p"
  using assms by (auto simp: nodeValidateProposal_def ValidateProposal_def Let_def node_env_def
    node_vstate_def split_beta not_less split: if_splits option.splits)

lemma vote_inv_onProposalLocked:
  assumes inv: "vote_inv N nd" and strict: "vf_StrictMonotonicity (ne_validation N)"
  shows "vote_inv N (snd (onProposalLocked N now p nd))"
proof (cases "fst (nodeValidateProposal N p nd)")
  case None
  note view = validated_view [OF None strict]
  show ?thesis
    using inv view None
    by (auto simp: onProposalLocked_def engine_OnProposal_def pm_OnProposal_def Let_def split_beta
      frame_simps split: option.split intro!: vote_inv_sendVoteLocked)
qed (use inv in \<open>simp add: onProposalLocked_def split_beta frame_simps\<close>)

lemma vote_inv_OnProposal:
  "vote_inv N nd \<Longrightarrow> vf_StrictMonotonicity (ne_validation N) \<Longrightarrow> vote_inv N (snd (OnProposal N now p nd))"
  using vote_inv_onProposalLocked [of N nd now p]
  by (auto simp: OnProposal_def split_beta vote_inv_afterQC split: sum.split)

lemma sanitize_frame:
  "nd_hs (snd (sanitizeJustifyQC N oq nd)) = nd_hs nd
   \<and> nd_pm (snd (sanitizeJustifyQC N oq nd)) = nd_pm nd
   \<and> nd_out (snd (sanitizeJustifyQC N oq nd)) = nd_out nd"
proof -
  have best: "nd_hs (snd (bestValidated N x best cs nd)) = nd_hs nd
      \<and> nd_pm (snd (bestValidated N x best cs nd)) = nd_pm nd
      \<and> nd_out (snd (bestValidated N x best cs nd)) = nd_out nd" for x best cs nd
  proof (induction cs arbitrary: best nd)
    case (Cons c cs)
    then show ?case by (cases c) (simp_all add: frame_simps split_beta split: option.split)
  qed simp
  have "nd_hs (snd (fallbackOrFail N q nd)) = nd_hs nd
      \<and> nd_pm (snd (fallbackOrFail N q nd)) = nd_pm nd
      \<and> nd_out (snd (fallbackOrFail N q nd)) = nd_out nd" for q nd
    using best by (simp add: fallbackOrFail_def bestValidatedFallbackQC_def split_beta split: option.split)
  then show ?thesis
    by (simp add: sanitizeJustifyQC_def split_beta frame_simps split: option.split)
qed

lemma attempt_frame:
  "nd_hs (snd (createProposalLoop N now (\<lambda>k nd. nd) blk 1 a b nd)) = nd_hs nd
   \<and> nd_pm (snd (createProposalLoop N now (\<lambda>k nd. nd) blk 1 a b nd)) = nd_pm nd
   \<and> nd_out (snd (createProposalLoop N now (\<lambda>k nd. nd) blk 1 a b nd)) = nd_out nd"
  using sanitize_frame [of N "pm_highestQC (nd_pm nd)" nd]
  by (auto simp: assembleProposal_def Let_def split_beta frame_simps split: sum.split bool.split option.split)

lemma sync_views:
  "nd_hs (syncPacemakerWithHotStuff N now nd) = nd_hs nd"
  "nd_out (syncPacemakerWithHotStuff N now nd) = nd_out nd"
  "pm_currentView (nd_pm (syncPacemakerWithHotStuff N now nd))
    = max (hs_currentView (nd_hs nd)) (pm_currentView (nd_pm nd))"
  by (auto simp: syncPacemakerWithHotStuff_def SetCurrentView_def SetCurrentHeight_def SetHighestQC_def
    Let_def frame_simps max_def split: option.split)

lemma node_step_vote_inv:
  assumes "node_step N nd nd'" and strict: "vf_StrictMonotonicity (ne_validation N)" and inv: "vote_inv N nd"
  shows "vote_inv N nd'"
  using assms(1,3)
proof (induction rule: node_step.induct)
  case (attempt nd now blk a b)
  then show ?case using attempt_frame [of N now blk a b nd] by simp
next
  case (recover nd now n)
  have "hs_currentView (nd_hs nd) \<le> pm_currentView (nd_pm nd)"
    using recover by (simp add: votes_ok_def)
  moreover have "hs_currentView (nd_hs (snd (RecoverProposalWindow N now n nd))) = hs_currentView (nd_hs nd)"
    "hs_votesSent (nd_hs (snd (RecoverProposalWindow N now n nd))) = hs_votesSent (nd_hs nd)"
    "nd_pm (snd (RecoverProposalWindow N now n nd)) = nd_pm nd"
    "nd_out (snd (RecoverProposalWindow N now n nd)) = nd_out nd"
    by (simp_all add: RecoverProposalWindow_def Let_def split_beta frame_simps split: sum.split)
  ultimately show ?case using recover by (simp add: sync_views max_def)
next
  case (timeout nd now)
  then show ?case by (simp add: node_pm_def frame_simps)
next
  case (cleanup nd)
  then show ?case by (simp add: node_pm_def CleanupOldViewChanges_def)
qed (simp_all add: vote_inv_OnProposal strict vote_inv_OnVote vote_inv_pacemaker frame_simps)

interpretation votes: step_invariant "node_step N"
  "\<lambda>nd. vf_StrictMonotonicity (ne_validation N) \<longrightarrow> vote_inv N nd"
  by unfold_locales (blast intro: node_step_vote_inv)

text \<open>
  A start from which the guard works: nothing sent, the engine's view not ahead of the pacemaker's
  and, where old votes are cleaned up, a view of at least 100.
\<close>

definition fresh_start :: "('b, 'c) nodeEnv \<Rightarrow> ('b, 'c) node \<Rightarrow> bool" where
  "fresh_start N nd \<longleftrightarrow> vf_StrictMonotonicity (ne_validation N) \<and> nd_out nd = []
     \<and> hs_currentView (nd_hs nd) \<le> pm_currentView (nd_pm nd)
     \<and> (hc_AutoCleanupOldVotes (ne_config N) \<longrightarrow> 100 \<le> hs_currentView (nd_hs nd))"

lemma run_one_per_view:
  assumes "(node_step N)\<^sup>*\<^sup>* nd nd'" and "fresh_start N nd"
  shows "one_per_view (votes_in (nd_out nd'))"
proof -
  have "vote_inv N nd" using assms(2) by (simp add: fresh_start_def votes_ok_def one_per_view_def)
  then have "vote_inv N nd'" using votes.run_keeps_inv [OF assms(1)] assms(2) by (simp add: fresh_start_def)
  then show ?thesis by (simp add: votes_ok_def)
qed


subsection \<open>A concrete node\<close>

text \<open>
  Node 1 of four validators; validator 0 leads views 8 and 108. The signature cache of the example
  stores nothing and its hash tells the proposals apart.
\<close>

definition ex_nocache :: "unit sigCache" where
  "ex_nocache = \<lparr>ca_get = (\<lambda>c k. None), ca_add = (\<lambda>k b c. c), ca_purge = (\<lambda>c. ()), ca_empty = ()\<rparr>"

definition ex_enc :: "unit encoder" where
  "ex_enc = SetValidatorSet (Some 4) (NewEncoder ex_nocache DefaultEncoderConfig)"

definition ex_hash :: "bytes \<Rightarrow> hash32" where
  "ex_hash bs = of_nat (length bs) * 4294967296 + ucast (bs ! 73) * 65536 + ucast (bs ! 37) * 256
     + ucast (bs ! 105)"

definition ex_nodeEnv :: "(nat, unit) nodeEnv" where
  "ex_nodeEnv = \<lparr>ne_pm = ex_pmEnv\<lparr>pe_sha256 := ex_hash\<rparr>, ne_storage = ex_env,
     ne_config = DefaultHotStuffConfig, ne_validation = DefaultValidationConfig,
     ne_enforceActive = True, ne_cache = ex_nocache, ne_crypto = ex_crypto,
     ne_marshal = (\<lambda>m. Some [7]), ne_callbacks = True, ne_commitOk = (\<lambda>b q. True),
     ne_voteOrder = (\<lambda>i m. m), ne_qcOrder = (\<lambda>m. m)\<rparr>"

definition ex_node :: "u64 \<Rightarrow> (nat, unit) node" where
  "ex_node view = \<lparr>nd_hs = NewHotStuff\<lparr>hs_currentView := view, hs_currentHeight := 1\<rparr>,
     nd_storage = ex_storage,
     nd_pm = (NewPacemaker DefaultPacemakerConfig)\<lparr>pm_currentView := view, pm_currentHeight := 1\<rparr>,
     nd_seen = [], nd_encoder = ex_enc, nd_out = []\<rparr>"

definition ex_cert :: "u64 \<Rightarrow> u64 \<Rightarrow> hash32 \<Rightarrow> qc_fields" where
  "ex_cert view height bh = \<lparr>qc_view = view, qc_height = height, qc_round = 0, qc_blockHash = bh,
     qc_signatures = [ex_sig 0, ex_sig 1, ex_sig 3], qc_timestamp = 0, qc_aggregatorID = 0\<rparr>"

definition ex_prop :: "u64 \<Rightarrow> u64 \<Rightarrow> hash32 \<Rightarrow> qc_fields option \<Rightarrow> proposal" where
  "ex_prop view height bh oq = \<lparr>p_view = view, p_height = height, p_round = 0, p_blockHash = bh,
     p_parentHash = (case oq of None \<Rightarrow> 0 | Some q \<Rightarrow> qc_blockHash q), p_proposerID = 0,
     p_timestamp = 0, p_justifyQC = oq,
     p_block = Some \<lparr>b_height = height, b_hash = bh, b_parentHash = 0, b_txCount = 0, b_timestamp = 0\<rparr>,
     p_signature = ex_sig 0\<rparr>"

definition ex_ballot :: "u64 \<Rightarrow> u64 \<Rightarrow> hash32 \<Rightarrow> validatorID \<Rightarrow> vote" where
  "ex_ballot view height bh i = \<lparr>v_view = view, v_height = height, v_round = 0, v_blockHash = bh,
     v_voterID = i, v_timestamp = 0, v_signature = ex_sig i\<rparr>"

lemma ex_rotation_facts:
  "adapterLeader (ex_rotation [ex_val 0, ex_val 1, ex_val 2, ex_val 3]) 108 = Some 0"
  "IsLeader (ex_rotation [ex_val 0, ex_val 1, ex_val 2, ex_val 3]) 1 108 = Inr False"
  "adapterLeader (ex_rotation [ex_val 0, ex_val 1, ex_val 2, ex_val 3]) 8 = Some 0"
  "IsLeader (ex_rotation [ex_val 0, ex_val 1, ex_val 2, ex_val 3]) 1 8 = Inr False"
  by code_simp+

lemma ex_vset_facts:
  "ro_validatorSet (ex_rotation xs) = ex_vset xs"
  "isValidator (ex_vset xs) i = (i \<in> vi_ID ` set xs)"
  "isActiveInView (ex_vset xs) i v = (i \<in> vi_ID ` set xs)"
  "getValidatorCount (ex_vset xs) = int (length xs)"
  "vi_ID (ex_val i) = i"
  by (simp_all add: ex_rotation_def ex_vset_def ex_val_def)

lemma ex_message_facts:
  "p_view (ex_prop v n h q) = v" "p_height (ex_prop v n h q) = n" "p_blockHash (ex_prop v n h q) = h"
  "p_proposerID (ex_prop v n h q) = 0" "p_justifyQC (ex_prop v n h q) = q" "p_round (ex_prop v n h q) = 0"
  "p_parentHash (ex_prop v n h (Some c)) = qc_blockHash c" "p_parentHash (ex_prop v n h None) = 0"
  "p_block (ex_prop v n h q)
    = Some \<lparr>b_height = n, b_hash = h, b_parentHash = 0, b_txCount = 0, b_timestamp = 0\<rparr>"
  "v_view (ex_ballot v n h i) = v" "v_height (ex_ballot v n h i) = n" "v_blockHash (ex_ballot v n h i) = h"
  "v_voterID (ex_ballot v n h i) = i" "v_round (ex_ballot v n h i) = 0"
  "v_signature (ex_ballot v n h i) = ex_sig i"
  "qc_view (ex_cert v n h) = v" "qc_height (ex_cert v n h) = n" "qc_blockHash (ex_cert v n h) = h"
  "adaptQC (MessagesQC (ex_cert v n h)) = ex_cert v n h"
  by (simp_all add: ex_prop_def ex_ballot_def ex_cert_def adaptQC_def)

lemma ex_prefix:
  "length (domain_prefix ''CONSENSUS_PROPOSAL_V1'') = 22"
  "length (domain_prefix ''CONSENSUS_VOTE_V1'') = 18"
  by code_simp+

lemma ex_bytes:
  "be_bytes 8 (w :: u64) ! 7 = ucast w" "be_bytes 8 (0 :: u64) ! 3 = 0"
  "be_bytes 32 (x :: 256 word) ! 27 = ucast (drop_bit 32 x)" "be_bytes 32 (x :: 256 word) ! 31 = ucast x"
  by (simp_all add: numeral_eq_Suc)

lemma ex_hashes:
  "proposal_Hash ex_hash (ex_prop v n h (Some q))
    = 781684047872 + ucast (ucast (drop_bit 32 h) :: byte) * 65536 + ucast (ucast n :: byte) * 256
      + ucast (ucast (drop_bit 32 (qc_blockHash q)) :: byte)"
  "vote_Hash ex_hash (ex_ballot v n h i)
    = 489626271744 + ucast (ucast h :: byte) * 65536 + ucast (ucast i :: byte)"
  by (simp_all add: proposal_Hash_def vote_Hash_def ex_hash_def proposal_SignBytes_def vote_SignBytes_def
    ex_prop_def ex_ballot_def appendInt64_def opt_qc_hash_def ex_prefix nth_append ex_bytes)

lemma ex_certs_valid:
  assumes "va_set A = ex_vset [ex_val 0, ex_val 1, ex_val 2, ex_val 3]" "va_enforceActive A"
    "va_crypto A = ex_crypto" "va_cache A = ex_nocache" "vs_encoder s = ex_enc"
    "\<not> vf_MaxQuorumSize (va_config A) < 3" "\<not> 3 < vf_MinQuorumSize (va_config A)"
  shows "ValidateQC A (Some (ex_cert v n h)) s = (None, s)"
    and "ValidateQC A (Some (adaptQC (QuorumCertificate
      \<lparr>qc_view = v, qc_height = n, qc_round = 0, qc_blockHash = h,
       qc_signatures = [ex_sig 0, ex_sig 3, ex_sig 1], qc_timestamp = t, qc_aggregatorID = i\<rparr>))) s = (None, s)"
  using assms by (simp_all add: ValidateQC_def requiredQuorum_def encoder_VerifyQC_def quorumThreshold_def
    Let_def adaptQC_def ex_cert_def ex_encoding_simps ex_vset_facts ex_nocache_def ex_enc_def)

lemmas ex_node_simps = ex_nodeEnv_def ex_node_def ex_pmEnv_def ex_storage_simps
  DefaultHotStuffConfig_def DefaultValidationConfig_def NewHotStuff_def NewPacemaker_def
  DefaultPacemakerConfig_def ex_rotation_facts ex_vset_facts ex_message_facts ex_hashes ex_certs_valid

lemmas ex_step_simps = Let_def OnProposal_def onProposalLocked_def nodeValidateProposal_def node_env_def
  node_vstate_def set_vstate_def ValidateProposal_def validateJustify_def HasSeenMessage_def
  MarkMessageSeen_def raiseLock_def isSafeToVote_def upd_storage_def StoreProposal_def
  persistProposal_def isWithinWindow_def encodeProposal_def limitSize_def encodeVote_def votes_at_def
  pm_OnProposal_def resetTimerLocked_def engine_OnProposal_def emit_def set_hs_def sendVoteLocked_def
  makeVote_def StoreVote_def afterQC_def ex_quorum_simps(4-7) nodeValidateQC_def
  validatorAdapter_ValidateQC_def

lemmas ex_vote_simps = OnVote_def onVoteInternal_def nodeValidateVote_def ValidateVote_def
  detectVoteEquivocation_def GetVotesByView_def pending_at_def addPending_def HasQuorum_def formQC_def
  StoreQC_def encodeQC_def checkCommitRule_def lookupProposal_def GetProposal_def commitProposal_def
  commitBlock_def CommitBlock_def pruneOldDataUnsafe_def cleanupOldData_def dropBucket_def node_OnQC_def
  pm_OnQC_def noteQC_def

lemma ex_vote_sent:
  "votes_in (nd_out (snd (OnProposal ex_nodeEnv 5 (ex_prop 108 1 42 None) (ex_node 108))))
    = [\<lparr>v_view = 108, v_height = 1, v_round = 0, v_blockHash = 42, v_voterID = 1, v_timestamp = 5,
        v_signature = \<lparr>sig_bytes = [1], sig_keyID = 1, sig_timestamp = 5\<rparr>\<rparr>]"
  by (simp add: ex_step_simps ex_node_simps votes_in_def)

lemma image_single: "(\<And>w. w \<in> S \<Longrightarrow> P w \<Longrightarrow> f w = c) \<Longrightarrow> v \<in> S \<Longrightarrow> P v \<Longrightarrow> f ` {w \<in> S. P w} = {c}"
  by force


subsection \<open>The clean-up of old votes wraps around\<close>

definition ex_late :: "(nat, unit) node" where
  "ex_late = (let n = ex_node 8 in
     n\<lparr>nd_storage := snd (StoreProposal ex_env 0 (ex_prop 7 2 42 (Some (ex_cert 6 1 41)))
                         (snd (StoreProposal ex_env 0 (ex_prop 6 1 41 None) ex_storage))),
       nd_hs := (nd_hs n)\<lparr>hs_currentHeight := 2, hs_lockedQC := Some (MessagesQC (ex_cert 6 1 41)),
         hs_pendingVotes := [((7, 42), [(0, ex_ballot 7 2 42 0), (3, ex_ballot 7 2 42 3)])]\<rparr>,
       nd_pm := (nd_pm n)\<lparr>pm_currentHeight := 2\<rparr>\<rparr>)"

definition ex_voted :: "(nat, unit) node" where
  "ex_voted = snd (OnProposal ex_nodeEnv 5 (ex_prop 8 2 50 (Some (ex_cert 6 1 41))) ex_late)"

definition ex_committed :: "(nat, unit) node" where
  "ex_committed = snd (OnVote ex_nodeEnv 6 (ex_ballot 7 2 42 1) ex_voted)"


end
