(* ===== verification/Commit.thy ===== *)
theory Commit
  imports VoteSafety
begin

text \<open>
  Certificates and commits of a node: what a collected vote is, what a certificate the node forms
  rests on, when a block is committed, and how an equivocating vote is treated.
\<close>

subsection \<open>Collected votes\<close>

text \<open>Every bucket holds votes of validators for its view and block, one per voter, stored under the voter.\<close>

definition ballot_ok :: "validatorSet \<Rightarrow> u64 \<times> hash32 \<Rightarrow> validatorID \<times> vote \<Rightarrow> bool" where
  "ballot_ok V key e \<longleftrightarrow> v_voterID (snd e) = fst e \<and> (v_view (snd e), v_blockHash (snd e)) = key
     \<and> isValidator V (fst e)"

definition bucket_ok :: "validatorSet \<Rightarrow> u64 \<times> hash32 \<Rightarrow> (validatorID, vote) gomap \<Rightarrow> bool" where
  "bucket_ok V key m \<longleftrightarrow> distinct (map fst m) \<and> list_all (ballot_ok V key) m"

definition buckets_ok :: "validatorSet \<Rightarrow> hotstuff \<Rightarrow> bool" where
  "buckets_ok V h \<longleftrightarrow> list_all (\<lambda>(key, m). bucket_ok V key m) (hs_pendingVotes h)"

lemma bucket_ok_empty [simp]: "bucket_ok V key []"
  by (simp add: bucket_ok_def)

lemma bucket_ok_pending: "buckets_ok V h \<Longrightarrow> bucket_ok V key (pending_at h key)"
  by (auto simp: pending_at_def buckets_ok_def dest: gm_all_get split: option.split)

lemma bucket_ok_update:
  assumes "bucket_ok V (v_view v, v_blockHash v) m" and "isValidator V (v_voterID v)"
  shows "bucket_ok V (v_view v, v_blockHash v) (AList.update (v_voterID v) v m)"
  using assms by (auto simp: bucket_ok_def ballot_ok_def distinct_update intro!: gm_all_update)

lemma buckets_ok_put:
  "buckets_ok V h \<Longrightarrow> bucket_ok V key m
    \<Longrightarrow> buckets_ok V (h\<lparr>hs_pendingVotes := AList.update key m (hs_pendingVotes h)\<rparr>)"
  by (auto simp: buckets_ok_def intro!: gm_all_update)

lemma buckets_ok_pending_only:
  "hs_pendingVotes h' = hs_pendingVotes h \<Longrightarrow> buckets_ok V h' = buckets_ok V h"
  by (simp add: buckets_ok_def)

lemma buckets_ok_irrelevant [simp]:
  "buckets_ok V (h\<lparr>hs_prepareQC := q\<rparr>) = buckets_ok V h"
  "buckets_ok V (h\<lparr>hs_lockedQC := q\<rparr>) = buckets_ok V h"
  "buckets_ok V (h\<lparr>hs_currentHeight := n\<rparr>) = buckets_ok V h"
  "buckets_ok V (h\<lparr>hs_votesSent := m\<rparr>) = buckets_ok V h"
  "buckets_ok V (updateLock new old h) = buckets_ok V h"
  "buckets_ok V (raiseLock oj h) = buckets_ok V h"
  by (rule buckets_ok_pending_only; simp add: frame_simps)+

lemma buckets_ok_shrink [simp, intro]:
  "buckets_ok V h \<Longrightarrow> buckets_ok V (cleanupOldData n h)"
  "buckets_ok V h \<Longrightarrow> buckets_ok V (h\<lparr>hs_pendingVotes := AList.delete key (hs_pendingVotes h)\<rparr>)"
  by (auto simp: buckets_ok_def cleanupOldData_def)

abbreviation node_buckets :: "('b, 'c) nodeEnv \<Rightarrow> ('b, 'c) node \<Rightarrow> bool" where
  "node_buckets N nd \<equiv> buckets_ok (ne_set N) (nd_hs nd)"

lemma buckets_commitBlock: "node_buckets N nd \<Longrightarrow> node_buckets N (snd (commitBlock N blk q nd))"
  by (auto simp: commitBlock_def Let_def split_beta frame_simps split: option.split)

lemma buckets_checkCommitRule: "node_buckets N nd \<Longrightarrow> node_buckets N (snd (checkCommitRule N q nd))"
  by (auto simp: checkCommitRule_def commitProposal_def split_beta frame_simps split: option.split
    intro!: buckets_commitBlock)

lemma buckets_formQC: "node_buckets N nd \<Longrightarrow> node_buckets N (snd (formQC N now bh view nd))"
  by (auto simp: formQC_def dropBucket_def Let_def split_beta frame_simps split: list.split option.split
    intro!: buckets_checkCommitRule)

lemma addPending_ok:
  "buckets_ok V h \<Longrightarrow> isValidator V (v_voterID v) \<Longrightarrow> buckets_ok V (addPending v h)"
  by (simp add: addPending_def Let_def buckets_ok_put bucket_ok_update bucket_ok_pending)

lemma validated_voter:
  "fst (nodeValidateVote N v nd) = None \<Longrightarrow> isValidator (ne_set N) (v_voterID v)"
  by (auto simp: nodeValidateVote_def ValidateVote_def Let_def node_env_def split_beta split: if_splits)

lemma buckets_onVoteInternal:
  assumes ok: "node_buckets N nd"
  shows "node_buckets N (snd (onVoteInternal N now v nd))"
proof (cases "fst (nodeValidateVote N v nd)")
  case None
  note voter = validated_voter [OF None]
  show ?thesis
    using ok None voter by (auto simp: onVoteInternal_def Let_def split_beta frame_simps
      split: option.split intro!: buckets_formQC addPending_ok buckets_ok_put bucket_ok_pending)
qed (use ok in \<open>simp add: onVoteInternal_def split_beta frame_simps\<close>)

lemma buckets_set:
  assumes "view_rel (nd_pm nd, nd_hs nd) ph" and "node_buckets N nd"
  shows "node_buckets N (nd\<lparr>nd_pm := fst ph, nd_hs := snd ph\<rparr>)"
  using assms buckets_ok_pending_only [of "snd ph" "nd_hs nd"] by (cases ph) simp

lemma buckets_pacemaker:
  assumes ok: "node_buckets N nd"
  shows "node_buckets N (node_OnQC N now q nd)"
    and "node_buckets N (node_OnViewChange N ord now vc nd)"
    and "node_buckets N (node_OnNewView N now nv nd)"
  unfolding node_OnQC_def node_OnViewChange_def node_OnNewView_def split_beta
  by (rule buckets_set [OF view_rel_handlers(3) ok] buckets_set [OF view_rel_handlers(1) ok]
    buckets_set [OF view_rel_handlers(2) ok])+

lemma buckets_afterQC: "node_buckets N nd \<Longrightarrow> node_buckets N (afterQC N now oq nd)"
  by (simp add: afterQC_def Let_def buckets_pacemaker(1) split: option.split)

lemma buckets_OnVote: "node_buckets N nd \<Longrightarrow> node_buckets N (snd (OnVote N now v nd))"
  using buckets_onVoteInternal [of N nd now v]
  by (auto simp: OnVote_def split_beta buckets_afterQC split: sum.split)

lemma buckets_sendVoteLocked: "node_buckets N nd \<Longrightarrow> node_buckets N (snd (sendVoteLocked N now p nd))"
  by (auto simp: sendVoteLocked_def Let_def split_beta frame_simps split: option.split
    intro!: buckets_onVoteInternal)

lemma buckets_onProposalLocked:
  "node_buckets N nd \<Longrightarrow> node_buckets N (snd (onProposalLocked N now p nd))"
  by (auto simp: onProposalLocked_def engine_OnProposal_def Let_def split_beta frame_simps
    split: option.split intro!: buckets_sendVoteLocked)

lemma buckets_OnProposal: "node_buckets N nd \<Longrightarrow> node_buckets N (snd (OnProposal N now p nd))"
  using buckets_onProposalLocked [of N nd now p]
  by (auto simp: OnProposal_def split_beta buckets_afterQC split: sum.split)

lemma node_step_buckets:
  assumes "node_step N nd nd'" and "node_buckets N nd"
  shows "node_buckets N nd'"
  using assms
proof (induction rule: node_step.induct)
  case (attempt nd now blk a b)
  then show ?case using attempt_frame [of N now blk a b nd] by simp
next
  case (recover nd now n)
  then show ?case
    by (simp add: sync_views RecoverProposalWindow_def Let_def split_beta frame_simps split: sum.split)
qed (simp_all add: buckets_OnProposal buckets_OnVote buckets_pacemaker node_pm_def frame_simps)

interpretation buckets: step_invariant "node_step N" "node_buckets N"
  by unfold_locales (rule node_step_buckets)

subsection \<open>Certificates\<close>

lemma sameVoteTarget_all:
  "sameVoteTarget fv vs \<longleftrightarrow> (\<forall>v \<in> set vs. v_view v = v_view fv \<and> v_height v = v_height fv
     \<and> v_round v = v_round fv \<and> v_blockHash v = v_blockHash fv)"
  by (induction vs) auto

lemma formQC_success:
  assumes "formQC N now bh view nd = (Inr (Some q), nd')"
  shows "getBlockHash q = bh
    \<and> getSignatures q = map (v_signature \<circ> snd) (ne_voteOrder N 2 (pending_at (nd_hs nd) (view, bh)))
    \<and> fst (nodeValidateQC N q nd) = None
    \<and> (\<exists>i fv rest. ne_voteOrder N 1 (pending_at (nd_hs nd) (view, bh)) = (i, fv) # rest
         \<and> getView q = v_view fv \<and> getHeight q = v_height fv
         \<and> sameVoteTarget fv (map snd (ne_voteOrder N 2 (pending_at (nd_hs nd) (view, bh)))))"
  using assms by (auto simp: formQC_def Let_def split_beta split: list.splits option.splits if_splits)

lemma onVoteInternal_formed:
  assumes "onVoteInternal N now v nd = (Inr (Some q), nd')" and ok: "node_buckets N nd"
  shows "\<exists>nd1. node_buckets N nd1 \<and> formQC N now (v_blockHash v) (v_view v) nd1 = (Inr (Some q), nd')
    \<and> HasQuorum (ne_set N) (pending_at (nd_hs nd1) (v_view v, v_blockHash v))
    \<and> map_of (pending_at (nd_hs nd1) (v_view v, v_blockHash v)) (v_voterID v) = Some v"
proof -
  have valid: "fst (nodeValidateVote N v nd) = None"
    using assms(1) by (auto simp: onVoteInternal_def split_beta split: option.splits)
  note voter = validated_voter [OF this]
  have mine: "map_of (pending_at (addPending v h) (v_view v, v_blockHash v)) (v_voterID v) = Some v" for h
    by (simp add: addPending_def pending_at_def Let_def update_conv')
  let ?h = "(nd_hs nd)\<lparr>hs_pendingVotes := AList.update (v_view v, v_blockHash v)
      (pending_at (nd_hs nd) (v_view v, v_blockHash v)) (hs_pendingVotes (nd_hs nd))\<rparr>"
  let ?nd1 = "set_hs (addPending v ?h) (set_hs ?h
      (snd (upd_storage (StoreVote (ne_storage N) v) (snd (nodeValidateVote N v nd)))))"
  have "buckets_ok (ne_set N) (addPending v ?h)"
    by (intro addPending_ok buckets_ok_put bucket_ok_pending ok voter)
  moreover have "formQC N now (v_blockHash v) (v_view v) ?nd1 = (Inr (Some q), nd')
      \<and> HasQuorum (ne_set N) (pending_at (addPending v ?h) (v_view v, v_blockHash v))"
    using assms(1) valid
    by (auto simp: onVoteInternal_def Let_def split_beta frame_simps split: option.splits if_splits)
  ultimately show ?thesis
    using mine [of ?h] by (intro exI [where x = ?nd1]) (simp add: frame_simps)
qed


lemma ex_formed:
  "\<exists>q nd'. onVoteInternal ex_nodeEnv 6 (ex_ballot 7 2 42 1)
     (snd (OnVote ex_nodeEnv 5 (ex_ballot 7 2 42 3) (snd (OnVote ex_nodeEnv 5 (ex_ballot 7 2 42 0) (ex_node 8)))))
   = (Inr (Some q), nd')"
  by (simp add: ex_step_simps ex_vote_simps ex_node_simps)


subsection \<open>The commit rule\<close>

lemma commitBlock_out:
  "nd_out (snd (commitBlock N blk q nd)) =
    (if ne_callbacks N \<and> fst (CommitBlock (ne_storage N) (b_hash blk) (b_height blk) (nd_storage nd)) = None
     then nd_out nd @ [OutCommit blk q] else nd_out nd)"
  by (simp add: commitBlock_def Let_def split_beta frame_simps split: option.split)

definition two_chain :: "qc \<Rightarrow> qc \<Rightarrow> proposal option \<Rightarrow> bool" where
  "two_chain locked q child \<longleftrightarrow> getHeight q = getHeight locked + 1
     \<and> (\<exists>p. child = Some p \<and> p_parentHash p = getBlockHash locked)"

lemma checkCommitRule_fires:
  assumes "getValidatorCount (ne_set N) \<noteq> 1" and "hs_lockedQC (nd_hs nd) = Some locked"
    and "two_chain locked q (fst (lookupProposal N (getBlockHash q) nd))"
  shows "checkCommitRule N q nd =
    (case lookupProposal N (getBlockHash locked) (snd (lookupProposal N (getBlockHash q) nd)) of
       (op, nd) \<Rightarrow> commitProposal N op locked nd)"
  using assms by (auto simp: checkCommitRule_def two_chain_def split_beta)


lemma ex_rule:
  "getValidatorCount (ne_set ex_nodeEnv) \<noteq> 1"
  "hs_lockedQC (nd_hs ex_late) = Some (MessagesQC (ex_cert 6 1 41))"
  "two_chain (MessagesQC (ex_cert 6 1 41)) (MessagesQC (ex_cert 7 2 42))
     (fst (lookupProposal ex_nodeEnv (getBlockHash (MessagesQC (ex_cert 7 2 42))) ex_late))"
  "nd_out (snd (checkCommitRule ex_nodeEnv (MessagesQC (ex_cert 7 2 42)) ex_late)) \<noteq> nd_out ex_late"
  by (simp_all add: two_chain_def ex_late_def ex_step_simps ex_vote_simps ex_node_simps)


text \<open>
  The rule does not look at views: the comment above it asks for certificates of consecutive
  views, the code commits the locked block for any certificate of the next height on top of it,
  whatever its view.
\<close>

theorem commit_rule_ignores_views:
  assumes "getValidatorCount (ne_set N) \<noteq> 1" and "hs_lockedQC (nd_hs nd) = Some locked"
    and "two_chain locked q (fst (lookupProposal N (getBlockHash q) nd))"
    and "getHeight q' = getHeight q" and "getBlockHash q' = getBlockHash q"
  shows "checkCommitRule N q' nd = checkCommitRule N q nd"
proof -
  have "two_chain locked q' (fst (lookupProposal N (getBlockHash q') nd))"
    using assms(3-5) by (simp add: two_chain_def)
  then show ?thesis
    using checkCommitRule_fires [OF assms(1-3)] checkCommitRule_fires [OF assms(1,2)] assms(5) by simp
qed

theorem commit_rule_ignores_views_witness:
  "checkCommitRule ex_nodeEnv (MessagesQC (ex_cert 99 2 42)) ex_late
    = checkCommitRule ex_nodeEnv (MessagesQC (ex_cert 7 2 42)) ex_late"
  by (rule commit_rule_ignores_views [OF ex_rule(1-3)]) (simp_all add: ex_message_facts)

subsection \<open>Equivocation\<close>

text \<open>
  A validator's second vote of a view, height and round for another block is refused: the vote is
  neither stored nor counted, no certificate forms, nothing is sent, and evidence of a double vote
  against the voter is handed to the storage.
\<close>

theorem equivocating_vote_refused:
  assumes "fst (nodeValidateVote N v nd) = None"
    and "ex \<in> set (GetVotesByView (nd_storage nd) (v_view v))" and "v_voterID ex = v_voterID v"
    and "v_height ex = v_height v" and "v_round ex = v_round v" and "v_blockHash ex \<noteq> v_blockHash v"
  shows "\<exists>nd' e. OnVote N now v nd = (Some (Equivocation (v_voterID v)), nd')
    \<and> nd_hs nd' = nd_hs nd \<and> nd_pm nd' = nd_pm nd \<and> nd_out nd' = nd_out nd
    \<and> nd_storage nd' = snd (StoreEvidence (ne_storage N) e (nd_storage nd))
    \<and> ev_kind e = EvidenceDoubleVote \<and> ev_offenderID e = v_voterID v \<and> ev_height e = v_height v"
proof -
  obtain w where w: "detectVoteEquivocation v (nd_storage nd) = Some w"
      "v_voterID w = v_voterID v" "v_height w = v_height v"
    using assms(2-6) unfolding detectVoteEquivocation_def
    by (cases "find (\<lambda>e. v_voterID e = v_voterID v \<and> v_height e = v_height v \<and> v_round e = v_round v
             \<and> v_blockHash e \<noteq> v_blockHash v) (GetVotesByView (nd_storage nd) (v_view v))")
      (auto simp: find_None_iff find_Some_iff)
  let ?nd = "snd (nodeValidateVote N v nd)"
  define e where "e = createEquivocationEvidence N now w v ?nd"
  have "ev_kind e = EvidenceDoubleVote" "ev_offenderID e = v_voterID v" "ev_height e = v_height v"
    using w(2,3) by (simp_all add: e_def createEquivocationEvidence_def Let_def)
  moreover have "OnVote N now v nd = (Some (Equivocation (v_voterID v)),
      snd (upd_storage (StoreEvidence (ne_storage N) e) ?nd))"
    using assms(1) w(1) by (simp add: OnVote_def onVoteInternal_def split_beta frame_simps e_def)
  ultimately show ?thesis
    by (intro exI [where x = "snd (upd_storage (StoreEvidence (ne_storage N) e) ?nd)"] exI [where x = e])
      (simp add: frame_simps)
qed

theorem equivocating_vote_refused_witness:
  "\<exists>nd' e. OnVote ex_nodeEnv 6 (ex_ballot 7 2 43 0) (snd (OnVote ex_nodeEnv 5 (ex_ballot 7 2 42 0) (ex_node 8)))
     = (Some (Equivocation 0), nd')
   \<and> nd_storage nd' = snd (StoreEvidence (ne_storage ex_nodeEnv) e
        (nd_storage (snd (OnVote ex_nodeEnv 5 (ex_ballot 7 2 42 0) (ex_node 8)))))
   \<and> ev_offenderID e = 0"
proof -
  let ?nd = "snd (OnVote ex_nodeEnv 5 (ex_ballot 7 2 42 0) (ex_node 8))"
  have "fst (nodeValidateVote ex_nodeEnv (ex_ballot 7 2 43 0) ?nd) = None"
    by (simp add: ex_step_simps ex_vote_simps ex_node_simps)
  moreover have "ex_ballot 7 2 42 0 \<in> set (GetVotesByView (nd_storage ?nd) (v_view (ex_ballot 7 2 43 0)))"
    by (simp add: ex_step_simps ex_vote_simps ex_node_simps)
  ultimately show ?thesis
    using equivocating_vote_refused [of ex_nodeEnv "ex_ballot 7 2 43 0" ?nd "ex_ballot 7 2 42 0" 6]
    by (simp add: ex_message_facts) blast
qed

end
