(* ===== verification/StateStore.thy ===== *)
theory StateStore
  imports Prelude "HOL-Library.List_Lexorder"
begin

text \<open>
  The versioned state store of \<^verbatim>\<open>backend/pkg/state\<close>: hashing
  (\<^verbatim>\<open>codec.go\<close>), the Merkle root (\<^verbatim>\<open>merkle.go\<close>), transactions over an
  in-memory store (\<^verbatim>\<open>store.go\<close>), snapshots (\<^verbatim>\<open>snapshot.go\<close>) and queries with
  Merkle proofs (\<^verbatim>\<open>query.go\<close>).

  SHA-256 is the argument \<open>sha256\<close>. A written value is an \<open>option\<close>, \<open>None\<close> for Go's
  \<^verbatim>\<open>nil\<close>: copying an empty slice with \<^verbatim>\<open>append([]byte(nil), v...)\<close> gives
  \<^verbatim>\<open>nil\<close>. Keys are compared as \<^verbatim>\<open>bytes.Compare\<close> does, lexicographically; where the
  code ranges over a map before it sorts, the order is an argument \<open>ord\<close>.
\<close>

subsection \<open>Hashing\<close>

datatype state_error =
    ErrOversize | ErrSkew | ErrStaleVersion | ErrInvalidKey | ErrInvalidValue
  | ErrBlockTooLarge | ErrNonceReplay | ErrNotFound | InvalidProducerId | InvalidNonceSize

type_synonym sha = "bytes \<Rightarrow> hash32"

definition MaxTxPayloadSize :: nat where "MaxTxPayloadSize = 2 ^ 20"
definition MaxProducerIDSize :: nat where "MaxProducerIDSize = 64"
definition NonceSize :: nat where "NonceSize = 16"
definition MaxAlgSize :: nat where "MaxAlgSize = 16"
definition MaxCoCEntries :: nat where "MaxCoCEntries = 64"
definition MaxActorIDSize :: nat where "MaxActorIDSize = 64"

definition ValidateSize :: "int \<Rightarrow> int \<Rightarrow> state_error option" where
  "ValidateSize n maxSize = (if n < 0 \<or> n > maxSize then Some ErrOversize else None)"

text \<open>\<^verbatim>\<open>time.Time.Sub\<close> saturates at the ends of \<^verbatim>\<open>int64\<close>.\<close>

definition go_Sub :: "instant \<Rightarrow> instant \<Rightarrow> duration" where
  "go_Sub a b = max (- (2 ^ 63)) (min (2 ^ 63 - 1) (a - b))"

text \<open>
  \<^verbatim>\<open>time.Unix\<close> counts seconds from the start of year 1 in an \<^verbatim>\<open>int64\<close>; for the
  last seconds of the range the count wraps.
\<close>

definition go_Unix :: "int \<Rightarrow> instant" where
  "go_Unix s = (sint (word_of_int (s + 62135596800) :: u64) - 62135596800) * second"

definition CheckSkew :: "int \<Rightarrow> instant \<Rightarrow> duration \<Rightarrow> state_error option" where
  "CheckSkew unixSeconds now skew =
     (let ts = go_Unix unixSeconds in
      if go_Sub now ts > skew then Some ErrSkew
      else if go_Sub ts now > skew then Some ErrSkew
      else None)"

definition i64 :: "int \<Rightarrow> bytes" where
  "i64 n = be_bytes 8 (word_of_int n :: u64)"

definition CanonicalTxBytes :: "string \<Rightarrow> int \<Rightarrow> bytes \<Rightarrow> state_error + bytes" where
  "CanonicalTxBytes domain ts payload =
     (case ValidateSize (int (length payload)) (int MaxTxPayloadSize) of
        Some e \<Rightarrow> Inl e
      | None \<Rightarrow> Inr (domain_prefix domain @ i64 ts @ payload))"

definition TxHash :: "sha \<Rightarrow> string \<Rightarrow> int \<Rightarrow> bytes \<Rightarrow> state_error + hash32" where
  "TxHash sha256 domain ts payload =
     (case CanonicalTxBytes domain ts payload of Inl e \<Rightarrow> Inl e | Inr b \<Rightarrow> Inr (sha256 b))"

definition ContentHash :: "sha \<Rightarrow> bytes \<Rightarrow> hash32" where
  "ContentHash sha256 payload = sha256 payload"

definition leafBytes :: "sha \<Rightarrow> bytes \<Rightarrow> bytes \<Rightarrow> bytes" where
  "leafBytes sha256 key v = domain_prefix ''STATE_LEAF_V1''
     @ be_bytes 4 (of_nat (length key) :: 32 word) @ key @ be_bytes 32 (sha256 v)"

definition LeafHash :: "sha \<Rightarrow> bytes \<Rightarrow> bytes \<Rightarrow> hash32" where
  "LeafHash sha256 key v = sha256 (leafBytes sha256 key v)"

definition nodeBytes :: "hash32 \<Rightarrow> hash32 \<Rightarrow> bytes" where
  "nodeBytes l r = domain_prefix ''STATE_NODE_V1'' @ be_bytes 32 l @ be_bytes 32 r"

definition NodeHash :: "sha \<Rightarrow> hash32 \<Rightarrow> hash32 \<Rightarrow> hash32" where
  "NodeHash sha256 l r = sha256 (nodeBytes l r)"

definition BuildSignBytes ::
    "string \<Rightarrow> int \<Rightarrow> bytes \<Rightarrow> bytes \<Rightarrow> hash32 \<Rightarrow> state_error + bytes" where
  "BuildSignBytes domain ts producerID nonce contentHash =
     (if producerID = [] \<or> length producerID > MaxProducerIDSize then Inl InvalidProducerId
      else if length nonce \<noteq> NonceSize then Inl InvalidNonceSize
      else Inr (domain_prefix domain @ i64 ts @ be_bytes 2 (of_nat (length producerID) :: 16 word)
             @ producerID @ nonce @ be_bytes 32 contentHash))"

subsection \<open>The Merkle root\<close>

type_synonym kvPair = "bytes \<times> bytes"

definition sortPairs :: "kvPair list \<Rightarrow> kvPair list" where
  "sortPairs ps = sliceStable (\<lambda>a b. fst a < fst b) ps"

fun nextLevel :: "sha \<Rightarrow> hash32 list \<Rightarrow> hash32 list" where
  "nextLevel sha256 [] = []"
| "nextLevel sha256 [x] = [NodeHash sha256 x 0]"
| "nextLevel sha256 (x # y # r) = NodeHash sha256 x y # nextLevel sha256 r"

lemma length_nextLevel [simp]: "length (nextLevel sha256 hs) = (length hs + 1) div 2"
  by (induction sha256 hs rule: nextLevel.induct) auto

text \<open>The loop of \<^verbatim>\<open>BuildRoot\<close>; it ends because a level of at least two hashes shrinks.\<close>

function climb :: "sha \<Rightarrow> hash32 list \<Rightarrow> hash32" where
  "climb sha256 level =
     (if length level > 1 then climb sha256 (nextLevel sha256 level)
      else case level of [] \<Rightarrow> 0 | h # _ \<Rightarrow> h)"
  by auto
termination by (relation "measure (length \<circ> snd)") auto

declare climb.simps [simp del]

definition BuildRoot :: "sha \<Rightarrow> kvPair list \<Rightarrow> hash32" where
  "BuildRoot sha256 pairs =
     (if pairs = [] then sha256 []
      else climb sha256 (map (\<lambda>(k, v). LeafHash sha256 k v) (sortPairs pairs)))"

subsection \<open>Store and transactions\<close>

definition MaxStateKeySize :: nat where "MaxStateKeySize = 256"
definition MaxStateValueSize :: nat where "MaxStateValueSize = 2 ^ 20"

record memStore =
  ms_snaps :: "(u64, (bytes, bytes) gomap) gomap"
  ms_roots :: "(u64, hash32) gomap"
  ms_latest :: u64

definition NewMemStore :: "sha \<Rightarrow> memStore" where
  "NewMemStore sha256 = \<lparr>ms_snaps = [(0, [])], ms_roots = [(0, sha256 [])], ms_latest = 0\<rparr>"

definition store_Root :: "u64 \<Rightarrow> memStore \<Rightarrow> hash32 option" where
  "store_Root version m = map_of (ms_roots m) version"

definition store_Get :: "u64 \<Rightarrow> bytes \<Rightarrow> memStore \<Rightarrow> bytes option" where
  "store_Get version key m =
     (case map_of (ms_snaps m) version of None \<Rightarrow> None | Some snap \<Rightarrow> map_of snap key)"

record txn =
  tx_baseVersion :: u64
  tx_writes :: "(bytes, bytes option) gomap"

definition store_Begin :: "u64 \<Rightarrow> memStore \<Rightarrow> state_error + txn" where
  "store_Begin version m =
     (if map_of (ms_snaps m) version = None \<or> version \<noteq> ms_latest m then Inl ErrStaleVersion
      else Inr \<lparr>tx_baseVersion = version, tx_writes = []\<rparr>)"

definition keySizeOk :: "bytes \<Rightarrow> bool" where
  "keySizeOk key \<longleftrightarrow> key \<noteq> [] \<and> length key \<le> MaxStateKeySize"

definition go_copy :: "bytes \<Rightarrow> bytes option" where
  "go_copy v = (if v = [] then None else Some v)"

definition txn_Put :: "bytes \<Rightarrow> bytes \<Rightarrow> txn \<Rightarrow> state_error + txn" where
  "txn_Put key v t =
     (if \<not> keySizeOk key then Inl ErrInvalidKey
      else if length v > MaxStateValueSize then Inl ErrInvalidValue
      else Inr (t\<lparr>tx_writes := AList.update key (go_copy v) (tx_writes t)\<rparr>))"

definition txn_Delete :: "bytes \<Rightarrow> txn \<Rightarrow> state_error + txn" where
  "txn_Delete key t =
     (if \<not> keySizeOk key then Inl ErrInvalidKey
      else Inr (t\<lparr>tx_writes := AList.update key None (tx_writes t)\<rparr>))"

definition txn_Get :: "memStore \<Rightarrow> bytes \<Rightarrow> txn \<Rightarrow> bytes option" where
  "txn_Get m key t =
     (case map_of (tx_writes t) key of
        Some w \<Rightarrow> w
      | None \<Rightarrow> store_Get (tx_baseVersion t) key m)"

definition applyWrite :: "bytes \<times> bytes option \<Rightarrow> (bytes, bytes) gomap \<Rightarrow> (bytes, bytes) gomap" where
  "applyWrite w snap =
     (case snd w of None \<Rightarrow> AList.delete (fst w) snap | Some v \<Rightarrow> AList.update (fst w) v snap)"

type_synonym kvOrder = "(bytes, bytes) gomap \<Rightarrow> (bytes, bytes) gomap"

definition txn_Commit ::
    "sha \<Rightarrow> kvOrder \<Rightarrow> u64 \<Rightarrow> txn \<Rightarrow> memStore \<Rightarrow> (state_error + hash32) \<times> memStore" where
  "txn_Commit sha256 ord newVersion t m =
     (if newVersion \<noteq> tx_baseVersion t + 1 \<or> ms_latest m \<noteq> tx_baseVersion t then (Inl ErrStaleVersion, m)
      else
        let base = (case map_of (ms_snaps m) (tx_baseVersion t) of None \<Rightarrow> [] | Some s \<Rightarrow> s);
            snap = fold applyWrite (tx_writes t) base;
            rt = BuildRoot sha256 (sortPairs (ord snap)) in
        (Inr rt,
         m\<lparr>ms_snaps := AList.update newVersion snap (ms_snaps m),
           ms_roots := AList.update newVersion rt (ms_roots m),
           ms_latest := newVersion\<rparr>))"

subsection \<open>Snapshots\<close>

definition ListVersions :: "memStore \<Rightarrow> u64 list" where
  "ListVersions m = sort (keys_of (ms_snaps m))"

definition VerifyRoot :: "sha \<Rightarrow> kvOrder \<Rightarrow> u64 \<Rightarrow> memStore \<Rightarrow> bool" where
  "VerifyRoot sha256 ord version m =
     (case map_of (ms_snaps m) version of
        None \<Rightarrow> False
      | Some snap \<Rightarrow>
          (case map_of (ms_roots m) version of
             None \<Rightarrow> False
           | Some r \<Rightarrow> BuildRoot sha256 (sortPairs (ord snap)) = r))"

definition dropVersion :: "u64 \<Rightarrow> memStore \<Rightarrow> memStore" where
  "dropVersion v m =
     (if v = ms_latest m then m
      else m\<lparr>ms_snaps := AList.delete v (ms_snaps m), ms_roots := AList.delete v (ms_roots m)\<rparr>)"

definition PruneRetain :: "u64 \<Rightarrow> memStore \<Rightarrow> memStore" where
  "PruneRetain retain m =
     (let versions = ListVersions m in
      if retain = 0 \<or> of_nat (length versions) \<le> retain then m
      else fold dropVersion (take (length versions - unat retain) versions) m)"

definition ExportSnapshot :: "kvOrder \<Rightarrow> u64 \<Rightarrow> memStore \<Rightarrow> kvPair list option" where
  "ExportSnapshot ord version m = map_option (\<lambda>snap. sortPairs (ord snap)) (map_of (ms_snaps m) version)"

subsection \<open>Merkle proofs\<close>

record merkleProof =
  mp_Leaf :: hash32
  mp_Siblings :: "hash32 list"
  mp_Left :: "bool list"

function proofLoop :: "sha \<Rightarrow> hash32 list \<Rightarrow> nat \<Rightarrow> merkleProof \<Rightarrow> merkleProof \<times> hash32" where
  "proofLoop sha256 level pos p =
     (if length level > 1
      then let sib = (if pos mod 2 = 0 then if pos + 1 < length level then level ! (pos + 1) else 0
                      else level ! (pos - 1)) in
           proofLoop sha256 (nextLevel sha256 level) (pos div 2)
             (p\<lparr>mp_Siblings := mp_Siblings p @ [sib], mp_Left := mp_Left p @ [pos mod 2 \<noteq> 0]\<rparr>)
      else (p, case level of [] \<Rightarrow> 0 | h # _ \<Rightarrow> h))"
  by auto
termination by (relation "measure (\<lambda>(s, level, pos, p). length level)") auto

declare proofLoop.simps [simp del]

text \<open>The index of a key: the last position the loop meets, keys of a map being distinct.\<close>

fun lastIndex :: "bytes \<Rightarrow> nat \<Rightarrow> kvPair list \<Rightarrow> nat option \<Rightarrow> nat option" where
  "lastIndex key i [] found = found"
| "lastIndex key i ((k, v) # ps) found = lastIndex key (Suc i) ps (if k = key then Some i else found)"

definition store_Proof ::
    "sha \<Rightarrow> kvOrder \<Rightarrow> u64 \<Rightarrow> bytes \<Rightarrow> memStore \<Rightarrow> state_error + merkleProof \<times> hash32" where
  "store_Proof sha256 ord version key m =
     (case map_of (ms_snaps m) version of
        None \<Rightarrow> Inl ErrNotFound
      | Some snap \<Rightarrow>
          let pairs = sortPairs (ord snap); leaves = map (\<lambda>(k, v). LeafHash sha256 k v) pairs in
          (case lastIndex key 0 pairs None of
             None \<Rightarrow> Inl ErrNotFound
           | Some idx \<Rightarrow>
               Inr (proofLoop sha256 leaves idx
                 \<lparr>mp_Leaf = leaves ! idx, mp_Siblings = [], mp_Left = []\<rparr>)))"

fun foldProof :: "sha \<Rightarrow> hash32 \<Rightarrow> hash32 list \<Rightarrow> bool list \<Rightarrow> hash32" where
  "foldProof sha256 h (s # ss) (l # ls) =
     foldProof sha256 (if l then NodeHash sha256 s h else NodeHash sha256 h s) ss ls"
| "foldProof sha256 h ss ls = h"

text \<open>\<^verbatim>\<open>p.Left[i]\<close> panics when there are fewer flags than siblings: \<open>None\<close>.\<close>

definition VerifyProof :: "sha \<Rightarrow> hash32 \<Rightarrow> merkleProof \<Rightarrow> bool option" where
  "VerifyProof sha256 rt p =
     (if length (mp_Left p) < length (mp_Siblings p) then None
      else Some (foldProof sha256 (mp_Leaf p) (mp_Siblings p) (mp_Left p) = rt))"

subsection \<open>Sorting a snapshot\<close>

lemma sortPairs_key:
  assumes "gm_wf ps"
  shows "sortPairs ps = sort_key fst ps"
  unfolding sortPairs_def using assms by (intro sliceStable_key) (auto simp: gm_wf_def)

lemma gm_wf_sort_key [simp]: "gm_wf (sort_key fst m) = gm_wf m"
  unfolding gm_wf_def by (rule mset_eq_imp_distinct_iff) simp

lemma map_of_sort_key: "gm_wf m \<Longrightarrow> map_of (sort_key fst m) = map_of m"
  by (rule map_of_inject_set [THEN iffD2]) (auto simp: gm_wf_def [symmetric])

text \<open>Whatever order a \<^verbatim>\<open>range\<close> loop takes, the sorted pairs are those of the snapshot.\<close>

lemma sortPairs_ord:
  assumes "iter_order ord" and "gm_wf m"
  shows "sortPairs (ord m) = sort_key fst m"
proof -
  have "sortPairs (ord m) = sort_key fst (ord m)"
    using assms by (simp add: sortPairs_key iter_order_wf)
  also have "\<dots> = sort_key fst m"
    using assms iter_order_wf [of ord m] by (intro sort_key_perm) (auto simp: iter_order_def gm_wf_def)
  finally show ?thesis .
qed

definition leaves :: "sha \<Rightarrow> (bytes, bytes) gomap \<Rightarrow> hash32 list" where
  "leaves sha256 snap = map (\<lambda>(k, v). LeafHash sha256 k v) (sort_key fst snap)"

definition rootOf :: "sha \<Rightarrow> (bytes, bytes) gomap \<Rightarrow> hash32" where
  "rootOf sha256 snap = (if snap = [] then sha256 [] else climb sha256 (leaves sha256 snap))"

lemma sort_key_eq_Nil [simp]: "sort_key f xs = [] \<longleftrightarrow> xs = []"
  by (metis length_0_conv length_sort)

lemma leaves_eq_Nil [simp]: "leaves sha256 snap = [] \<longleftrightarrow> snap = []"
  by (simp add: leaves_def)

lemma BuildRoot_sorted:
  assumes "gm_wf snap"
  shows "BuildRoot sha256 (sort_key fst snap) = rootOf sha256 snap"
  using assms by (simp add: BuildRoot_def rootOf_def leaves_def sortPairs_key sort_key_perm
    [of "sort_key fst snap" snap] gm_wf_def [symmetric] sorted_sort_id)

lemma BuildRoot_ord:
  "iter_order ord \<Longrightarrow> gm_wf snap \<Longrightarrow> BuildRoot sha256 (sortPairs (ord snap)) = rootOf sha256 snap"
  by (simp add: sortPairs_ord BuildRoot_sorted)

lemma rootOf_map:
  assumes "gm_wf a" and "gm_wf b" and "map_of a = map_of b"
  shows "rootOf sha256 a = rootOf sha256 b"
proof -
  have "set a = set b"
    using assms by (auto simp: gm_mem_iff)
  then have "mset a = mset b"
    using assms by (metis gm_wf_def distinct_map set_eq_iff_mset_eq_distinct)
  then have "sort_key fst a = sort_key fst b" and "a = [] \<longleftrightarrow> b = []"
    using assms by (auto intro!: sort_key_perm simp: gm_wf_def)
  then show ?thesis by (simp add: rootOf_def leaves_def)
qed

subsection \<open>Transactions refine maps\<close>

text \<open>
  What the reducers rely on: a transaction is read as a map, a write that is accepted updates the
  map at its key, and a write is accepted exactly when key and value have legal sizes.
\<close>

primrec putAll :: "('k \<Rightarrow> 'w \<Rightarrow> 't \<Rightarrow> 'e + 't) \<Rightarrow> ('k \<times> 'w) list \<Rightarrow> 't \<Rightarrow> 'e + 't" where
  "putAll put [] t = Inr t"
| "putAll put (w # ws) t =
     (case put (fst w) (snd w) t of Inl e \<Rightarrow> Inl e | Inr t' \<Rightarrow> putAll put ws t')"

definition overwrite :: "('w \<Rightarrow> 'v option) \<Rightarrow> ('k \<times> 'w) list \<Rightarrow> ('k \<Rightarrow> 'v option) \<Rightarrow> 'k \<Rightarrow> 'v option" where
  "overwrite nrm ws = fold (\<lambda>w \<sigma>. \<sigma>(fst w := nrm (snd w))) ws"

lemma overwrite_simps [simp]:
  "overwrite nrm [] \<sigma> = \<sigma>"
  "overwrite nrm (w # ws) \<sigma> = overwrite nrm ws (\<sigma>(fst w := nrm (snd w)))"
  by (simp_all add: overwrite_def)

lemma overwrite_other: "k \<notin> set (map fst ws) \<Longrightarrow> overwrite nrm ws \<sigma> k = \<sigma> k"
  by (induction ws arbitrary: \<sigma>) auto

locale kv_txn =
  fixes look :: "'t \<Rightarrow> 'k \<Rightarrow> 'v option" and put :: "'k \<Rightarrow> 'w \<Rightarrow> 't \<Rightarrow> 'e + 't"
    and nrm :: "'w \<Rightarrow> 'v option" and legal :: "'k \<times> 'w \<Rightarrow> bool" and wf :: "'t \<Rightarrow> bool"
  assumes put_legal: "isl (put k w t) \<longleftrightarrow> \<not> legal (k, w)"
    and look_put: "put k w t = Inr t' \<Longrightarrow> look t' = (look t)(k := nrm w)"
    and wf_put: "put k w t = Inr t' \<Longrightarrow> wf t \<Longrightarrow> wf t'"
begin

lemma putAll_legal: "isl (putAll put ws t) \<longleftrightarrow> \<not> list_all legal ws"
proof (induction ws arbitrary: t)
  case (Cons w ws)
  then show ?case
    using put_legal [of "fst w" "snd w" t] by (cases "put (fst w) (snd w) t") auto
qed simp

lemma putAll_look: "putAll put ws t = Inr t' \<Longrightarrow> look t' = overwrite nrm ws (look t)"
  by (induction ws arbitrary: t) (auto split: sum.splits dest: look_put)

lemma putAll_wf: "putAll put ws t = Inr t' \<Longrightarrow> wf t \<Longrightarrow> wf t'"
  by (induction ws arbitrary: t) (auto split: sum.splits dest: wf_put)

lemma putAll_run:
  assumes "list_all legal ws" and "wf t"
  shows "\<exists>t'. putAll put ws t = Inr t' \<and> wf t' \<and> look t' = overwrite nrm ws (look t)"
proof -
  obtain t' where "putAll put ws t = Inr t'"
    using putAll_legal [of ws t] assms(1) by (cases "putAll put ws t") auto
  then show ?thesis using assms(2) putAll_look putAll_wf by blast
qed

end

definition legalWrite :: "bytes \<times> bytes \<Rightarrow> bool" where
  "legalWrite w \<longleftrightarrow> keySizeOk (fst w) \<and> length (snd w) \<le> MaxStateValueSize"

definition txn_inv :: "txn \<Rightarrow> bool" where
  "txn_inv t \<longleftrightarrow> gm_wf (tx_writes t) \<and>
     list_all (\<lambda>(k, w). keySizeOk k \<and> (case w of None \<Rightarrow> True | Some v \<Rightarrow> v \<noteq> [] \<and> legalWrite (k, v)))
       (tx_writes t)"

definition txn_view :: "memStore \<Rightarrow> txn \<Rightarrow> bytes \<Rightarrow> bytes option" where
  "txn_view m t = (\<lambda>key. txn_Get m key t)"

lemma txn_Put_inv: "txn_Put key v t = Inr t' \<Longrightarrow> txn_inv t \<Longrightarrow> txn_inv t'"
  by (auto simp: txn_Put_def txn_inv_def legalWrite_def go_copy_def split: if_splits intro!: gm_all_update)

lemma txn_Delete_inv: "txn_Delete key t = Inr t' \<Longrightarrow> txn_inv t \<Longrightarrow> txn_inv t'"
  by (auto simp: txn_Delete_def txn_inv_def split: if_splits intro!: gm_all_update)

lemma txn_Delete_view: "txn_Delete key t = Inr t' \<Longrightarrow> txn_view m t' = (txn_view m t)(key := None)"
  by (rule ext) (auto simp: txn_Delete_def txn_view_def txn_Get_def split: if_splits option.splits)

interpretation tx: kv_txn "txn_view m" txn_Put go_copy legalWrite txn_inv for m
proof unfold_locales
  show "isl (txn_Put k w t) \<longleftrightarrow> \<not> legalWrite (k, w)" for k w t
    by (simp add: txn_Put_def legalWrite_def)
  show "txn_Put k w t = Inr t' \<Longrightarrow> txn_view m t' = (txn_view m t)(k := go_copy w)" for k w t t'
    by (rule ext) (auto simp: txn_Put_def txn_view_def txn_Get_def split: if_splits option.splits)
qed (rule txn_Put_inv)

lemma putAll_base: "putAll txn_Put ws t = Inr t' \<Longrightarrow> tx_baseVersion t' = tx_baseVersion t"
  by (induction ws arbitrary: t) (auto simp: txn_Put_def split: sum.splits if_splits)

subsection \<open>The store invariant\<close>

definition snap_inv :: "(bytes, bytes) gomap \<Rightarrow> bool" where
  "snap_inv snap \<longleftrightarrow> gm_wf snap \<and> list_all (\<lambda>(k, v). v \<noteq> [] \<and> legalWrite (k, v)) snap"

definition store_inv :: "sha \<Rightarrow> memStore \<Rightarrow> bool" where
  "store_inv sha256 m \<longleftrightarrow>
     gm_wf (ms_snaps m) \<and> gm_wf (ms_roots m) \<and> map_of (ms_snaps m) (ms_latest m) \<noteq> None \<and>
     list_all (\<lambda>(ver, snap). snap_inv snap) (ms_snaps m) \<and>
     map_of (ms_roots m) = (\<lambda>ver. map_option (rootOf sha256) (map_of (ms_snaps m) ver))"

lemma store_inv_snap: "store_inv sha256 m \<Longrightarrow> map_of (ms_snaps m) v = Some snap \<Longrightarrow> snap_inv snap"
  by (auto simp: store_inv_def dest: gm_all_get)

lemma NewMemStore_inv [inv_intros]: "store_inv sha256 (NewMemStore sha256)"
  by (auto simp: store_inv_def NewMemStore_def snap_inv_def rootOf_def gm_wf_def)

lemma applyWrite_inv:
  assumes "snap_inv snap" and "keySizeOk (fst w)"
    and "case snd w of None \<Rightarrow> True | Some v \<Rightarrow> v \<noteq> [] \<and> legalWrite (fst w, v)"
  shows "snap_inv (applyWrite w snap)"
  using assms by (auto simp: snap_inv_def applyWrite_def split: option.splits)

lemma applyWrite_view:
  "gm_wf snap \<Longrightarrow> map_of (applyWrite w snap) = (map_of snap)(fst w := snd w)"
  by (rule ext) (auto simp: applyWrite_def split: option.splits)

lemma fold_applyWrite:
  assumes "gm_wf ws" and "snap_inv snap"
    and "list_all (\<lambda>(k, w). keySizeOk k \<and> (case w of None \<Rightarrow> True | Some v \<Rightarrow> v \<noteq> [] \<and> legalWrite (k, v))) ws"
  shows "snap_inv (fold applyWrite ws snap)"
    and "map_of (fold applyWrite ws snap) k = (case map_of ws k of None \<Rightarrow> map_of snap k | Some w \<Rightarrow> w)"
proof -
  have "snap_inv (fold applyWrite ws snap) \<and>
    map_of (fold applyWrite ws snap) k = (case map_of ws k of None \<Rightarrow> map_of snap k | Some w \<Rightarrow> w)"
    using assms
  proof (induction ws arbitrary: snap)
    case (Cons w ws)
    have "snap_inv (applyWrite w snap)"
      using Cons.prems by (intro applyWrite_inv) (cases w; auto split: option.splits)+
    moreover have "gm_wf snap" using Cons.prems by (simp add: snap_inv_def)
    moreover have "map_of ws (fst w) = None"
      using Cons.prems by (auto simp: gm_wf_def map_of_eq_None_iff)
    ultimately show ?case
      using Cons by (cases w) (auto simp: gm_wf_def applyWrite_view split: option.splits)
  qed simp
  then show "snap_inv (fold applyWrite ws snap)"
    and "map_of (fold applyWrite ws snap) k = (case map_of ws k of None \<Rightarrow> map_of snap k | Some w \<Rightarrow> w)"
    by auto
qed

lemma txn_Commit_inv:
  assumes "iter_order ord" and "store_inv sha256 m" and "txn_inv t"
    and "txn_Commit sha256 ord newVersion t m = (res, m')"
  shows "store_inv sha256 m'"
proof (cases "newVersion \<noteq> tx_baseVersion t + 1 \<or> ms_latest m \<noteq> tx_baseVersion t")
  case True
  then show ?thesis using assms by (simp add: txn_Commit_def)
next
  case False
  obtain base where base: "map_of (ms_snaps m) (tx_baseVersion t) = Some base"
    using False assms(2) by (auto simp: store_inv_def)
  have snap: "snap_inv (fold applyWrite (tx_writes t) base)"
    using assms base by (intro fold_applyWrite) (auto simp: txn_inv_def intro: store_inv_snap)
  then have "BuildRoot sha256 (sortPairs (ord (fold applyWrite (tx_writes t) base)))
      = rootOf sha256 (fold applyWrite (tx_writes t) base)"
    using assms(1) by (simp add: BuildRoot_ord snap_inv_def)
  then show ?thesis
    using assms False base snap
    by (auto simp: txn_Commit_def Let_def store_inv_def intro!: gm_all_update)
qed

text \<open>A commit publishes exactly what the transaction read, and nothing else moves.\<close>

lemma txn_Commit_view:
  assumes "store_inv sha256 m" and "txn_inv t"
    and "txn_Commit sha256 ord newVersion t m = (Inr r, m')"
  shows "newVersion = ms_latest m + 1" and "tx_baseVersion t = ms_latest m" and "ms_latest m' = newVersion"
    and "(\<lambda>key. store_Get newVersion key m') = txn_view m t"
    and "v \<noteq> newVersion \<Longrightarrow> store_Get v key m' = store_Get v key m"
    and "store_Root newVersion m' = Some r"
    and "v \<noteq> newVersion \<Longrightarrow> store_Root v m' = store_Root v m"
proof -
  have ok: "newVersion = tx_baseVersion t + 1" "ms_latest m = tx_baseVersion t"
    using assms by (auto simp: txn_Commit_def split: if_splits)
  then show "newVersion = ms_latest m + 1" "tx_baseVersion t = ms_latest m" by simp_all
  obtain base where base: "map_of (ms_snaps m) (tx_baseVersion t) = Some base"
    using ok assms(1) by (auto simp: store_inv_def)
  have m': "m' = m\<lparr>ms_snaps := AList.update newVersion (fold applyWrite (tx_writes t) base) (ms_snaps m),
           ms_roots := AList.update newVersion r (ms_roots m), ms_latest := newVersion\<rparr>"
    using assms ok base by (auto simp: txn_Commit_def Let_def)
  have "snap_inv base" using assms(1) base by (rule store_inv_snap)
  then have "map_of (fold applyWrite (tx_writes t) base) k = txn_view m t k" for k
    using assms(2) base fold_applyWrite(2) [of "tx_writes t" base k]
    by (auto simp: txn_inv_def txn_view_def txn_Get_def store_Get_def split: option.splits)
  then show "(\<lambda>key. store_Get newVersion key m') = txn_view m t"
    by (auto simp: m' store_Get_def)
  show "ms_latest m' = newVersion" "store_Root newVersion m' = Some r"
    "v \<noteq> newVersion \<Longrightarrow> store_Get v key m' = store_Get v key m"
    "v \<noteq> newVersion \<Longrightarrow> store_Root v m' = store_Root v m"
    by (simp_all add: m' store_Get_def store_Root_def)
qed

lemma txn_Commit_error:
  "txn_Commit sha256 ord newVersion t m = (Inl e, m') \<Longrightarrow> e = ErrStaleVersion \<and> m' = m"
  by (auto simp: txn_Commit_def Let_def split: if_splits)

lemma store_Begin_view:
  assumes "store_Begin version m = Inr t"
  shows "version = ms_latest m" and "tx_baseVersion t = version" and "txn_inv t"
    and "txn_view m t = (\<lambda>key. store_Get version key m)"
  using assms by (auto simp: store_Begin_def txn_inv_def txn_view_def txn_Get_def split: if_splits)

lemma store_Begin_latest:
  "store_inv sha256 m \<Longrightarrow> store_Begin (ms_latest m) m = Inr \<lparr>tx_baseVersion = ms_latest m, tx_writes = []\<rparr>"
  by (auto simp: store_Begin_def store_inv_def)

lemma dropVersion_inv:
  "store_inv sha256 m \<Longrightarrow> store_inv sha256 (dropVersion v m)"
  by (auto simp: store_inv_def dropVersion_def intro!: gm_all_delete)

lemma dropVersion_latest [simp]: "ms_latest (dropVersion v m) = ms_latest m"
  by (simp add: dropVersion_def)

lemma store_inv_wf: "store_inv sha256 m \<Longrightarrow> gm_wf (ms_snaps m)"
  by (simp add: store_inv_def)

lemma dropVersion_snaps:
  "gm_wf (ms_snaps m) \<Longrightarrow> map_of (ms_snaps (dropVersion v m)) ver =
    (if ver = v \<and> ver \<noteq> ms_latest m then None else map_of (ms_snaps m) ver)"
  by (simp add: dropVersion_def)

lemma fold_dropVersion:
  assumes "store_inv sha256 m"
  shows "store_inv sha256 (fold dropVersion vs m) \<and> ms_latest (fold dropVersion vs m) = ms_latest m \<and>
    map_of (ms_snaps (fold dropVersion vs m)) ver =
      (if ver \<in> set vs \<and> ver \<noteq> ms_latest m then None else map_of (ms_snaps m) ver)"
  using assms
proof (induction vs arbitrary: m)
  case (Cons v vs)
  have "store_inv sha256 (dropVersion v m)" using Cons.prems by (rule dropVersion_inv)
  from Cons.IH [OF this] show ?case
    using store_inv_wf [OF Cons.prems] by (simp add: dropVersion_snaps)
qed simp

lemma PruneRetain_inv: "store_inv sha256 m \<Longrightarrow> store_inv sha256 (PruneRetain retain m)"
  by (auto simp: PruneRetain_def Let_def dest: fold_dropVersion)

lemma PruneRetain_latest [simp]: "store_inv sha256 m \<Longrightarrow> ms_latest (PruneRetain retain m) = ms_latest m"
  using fold_dropVersion [of sha256 m] by (simp add: PruneRetain_def Let_def)

lemma set_keys_of: "set (keys_of m) = {k. map_of m k \<noteq> None}"
  by (auto simp: map_of_eq_None_iff)

lemma ListVersions_char:
  assumes "store_inv sha256 m"
  shows "sorted (ListVersions m)" "distinct (ListVersions m)"
    "set (ListVersions m) = {v. map_of (ms_snaps m) v \<noteq> None}"
  using store_inv_wf [OF assms] by (auto simp: ListVersions_def gm_wf_def map_of_eq_None_iff)

lemma last_not_in_take:
  assumes "distinct xs" and "n < length xs"
  shows "last xs \<notin> set (take n xs)"
proof
  assume "last xs \<in> set (take n xs)"
  moreover have "last xs \<in> set (drop n xs)" using assms by (metis last_drop last_in_set drop_eq_Nil not_less)
  ultimately show False
    using assms(1) by (metis append_take_drop_id distinct_append disjoint_iff)
qed

text \<open>
  Pruning keeps the most recent versions: where the latest version is the largest, as it
  is until the counter wraps, the versions left are the last \<open>retain\<close> of the list, the latest one
  among them.
\<close>

theorem PruneRetain_keeps_recent:
  assumes "store_inv sha256 m" and "last (ListVersions m) = ms_latest m"
    and "0 < retain" and "length (ListVersions m) < 2 ^ 64"
  shows "ListVersions (PruneRetain retain m) =
    drop (length (ListVersions m) - unat retain) (ListVersions m)
    \<and> map_of (ms_snaps (PruneRetain retain m)) (ms_latest m) = map_of (ms_snaps m) (ms_latest m)"
proof -
  let ?vs = "ListVersions m" and ?n = "length (ListVersions m) - unat retain"
  have le: "of_nat (length ?vs) \<le> retain \<longleftrightarrow> length ?vs \<le> unat retain"
    using assms(4) by (simp add: word_le_nat_alt unsigned_of_nat take_bit_nat_eq_self)
  show ?thesis
  proof (cases "length ?vs \<le> unat retain")
    case True
    then show ?thesis by (simp add: PruneRetain_def le)
  next
    case False
    have run: "PruneRetain retain m = fold dropVersion (take ?n ?vs) m"
      using False assms(3) by (auto simp: PruneRetain_def le Let_def)
    have "?n < length ?vs"
      using False assms(3) by (metis diff_less less_nat_zero_code linorder_not_le neq0_conv unat_gt_0
          word_gt_0 gr_zeroI less_le_trans)
    then have latest: "ms_latest m \<notin> set (take ?n ?vs)"
      using last_not_in_take ListVersions_char(2) [OF assms(1)] assms(2) by metis
    have "set (ListVersions (PruneRetain retain m)) = set (drop ?n ?vs)"
      using ListVersions_char [OF PruneRetain_inv [OF assms(1)], of retain]
        ListVersions_char [OF assms(1)] fold_dropVersion [OF assms(1), of "take ?n ?vs"] latest run
        distinct_append [of "take ?n ?vs" "drop ?n ?vs"] set_append [of "take ?n ?vs" "drop ?n ?vs"]
      by (auto split: if_splits)
    then have "ListVersions (PruneRetain retain m) = drop ?n ?vs"
      using ListVersions_char [OF PruneRetain_inv [OF assms(1)], of retain] ListVersions_char [OF assms(1)]
      by (intro sorted_distinct_set_unique) (auto intro: sorted_wrt_drop)
    then show ?thesis
      using fold_dropVersion [OF assms(1), of "take ?n ?vs" "ms_latest m"] latest by (simp add: run)
  qed
qed

definition ex_sha :: sha where
  "ex_sha b = of_nat (length b + 1)"

definition ex_key :: bytes where "ex_key = [97]"
definition ex_key2 :: bytes where "ex_key2 = [98, 98]"

definition ex_store :: memStore where
  "ex_store = \<lparr>ms_snaps = [(0, []), (1, [(ex_key, [1])]), (2, [(ex_key2, [2, 2]), (ex_key, [1])])],
     ms_roots = [(0, rootOf ex_sha []), (1, rootOf ex_sha [(ex_key, [1])]),
       (2, rootOf ex_sha [(ex_key2, [2, 2]), (ex_key, [1])])],
     ms_latest = 2\<rparr>"

lemma ex_store_inv: "store_inv ex_sha ex_store"
  by (auto simp: store_inv_def ex_store_def gm_wf_def snap_inv_def legalWrite_def keySizeOk_def
      ex_key_def ex_key2_def MaxStateKeySize_def MaxStateValueSize_def)

theorem PruneRetain_keeps_recent_witness:
  "ListVersions (PruneRetain 2 ex_store) = [1, 2]"
proof -
  have "ListVersions ex_store = [0, 1, 2]"
    by (simp add: ListVersions_def ex_store_def)
  then show ?thesis
    using PruneRetain_keeps_recent [OF ex_store_inv, of 2] by (simp add: ex_store_def)
qed

text \<open>
  Of two transactions begun on the same version only the first to commit succeeds: the second one
  gets \<open>ErrStaleVersion\<close> and the store is as the first one left it.
\<close>

theorem commit_first_wins:
  assumes "store_Begin v m = Inr s" and "store_Begin v m = Inr t"
    and "putAll txn_Put ws s = Inr s'" and "putAll txn_Put us t = Inr t'"
    and "txn_Commit sha256 ord (v + 1) s' m = (Inr r, m')"
  shows "txn_Commit sha256 ord' n t' m' = (Inl ErrStaleVersion, m')"
proof -
  have base: "tx_baseVersion s' = v" "tx_baseVersion t' = v"
    using assms(1-4) store_Begin_view(2) putAll_base by metis+
  then have "ms_latest m' = v + 1"
    using assms(5) by (auto simp: txn_Commit_def Let_def split: if_splits)
  then show ?thesis
    using base by (simp add: txn_Commit_def)
qed

theorem commit_first_wins_witness:
  "txn_Commit ex_sha id 3 \<lparr>tx_baseVersion = 2, tx_writes = [(ex_key, Some [8])]\<rparr>
      (snd (txn_Commit ex_sha id 3 \<lparr>tx_baseVersion = 2, tx_writes = [(ex_key, Some [7])]\<rparr> ex_store))
    = (Inl ErrStaleVersion,
       snd (txn_Commit ex_sha id 3 \<lparr>tx_baseVersion = 2, tx_writes = [(ex_key, Some [7])]\<rparr> ex_store))"
proof -
  let ?t = "\<lparr>tx_baseVersion = 2, tx_writes = []\<rparr> :: txn"
  have "store_Begin 2 ex_store = Inr ?t"
    by (simp add: store_Begin_def ex_store_def)
  moreover have "putAll txn_Put [(ex_key, [b])] ?t = Inr \<lparr>tx_baseVersion = 2, tx_writes = [(ex_key, Some [b])]\<rparr>" for b
    by (simp add: txn_Put_def keySizeOk_def ex_key_def MaxStateKeySize_def MaxStateValueSize_def go_copy_def)
  moreover obtain r m' where run:
      "txn_Commit ex_sha id 3 \<lparr>tx_baseVersion = 2, tx_writes = [(ex_key, Some [7])]\<rparr> ex_store = (Inr r, m')"
    by (simp add: txn_Commit_def ex_store_def Let_def)
  ultimately show ?thesis
    using commit_first_wins [of 2 ex_store ?t ?t "[(ex_key, [7])]" _ "[(ex_key, [8])]" _ ex_sha id r m' id 3]
    by simp
qed

end
