(* ===== verification/Merkle.thy ===== *)
theory Merkle
  imports StateStore
begin

text \<open>
  Merkle proofs (\<^verbatim>\<open>query.go\<close>, \<^verbatim>\<open>merkle.go\<close>): a proof built from a snapshot verifies
  against the root of the snapshot, and a proof that verifies is a proof of an entry of the
  snapshot, as long as SHA-256 has no collision on the strings hashed on the way. Two snapshots
  with one root therefore hold the same entries.
\<close>

subsection \<open>Building a proof\<close>

lemma nextLevel_nth:
  "i < length (nextLevel sha256 hs) \<Longrightarrow>
    nextLevel sha256 hs ! i =
      NodeHash sha256 (hs ! (2 * i)) (if 2 * i + 1 < length hs then hs ! (2 * i + 1) else 0)"
proof (induction sha256 hs arbitrary: i rule: nextLevel.induct)
  case (3 sha256 x y r)
  then show ?case by (cases i) auto
qed auto

definition proofStep :: "sha \<Rightarrow> hash32 \<Rightarrow> hash32 \<times> bool \<Rightarrow> hash32" where
  "proofStep sha256 h sl = (if snd sl then NodeHash sha256 (fst sl) h else NodeHash sha256 h (fst sl))"

definition proofPath :: "merkleProof \<Rightarrow> (hash32 \<times> bool) list" where
  "proofPath p = zip (mp_Siblings p) (mp_Left p)"

lemma foldProof_foldl: "foldProof sha256 h ss ls = foldl (proofStep sha256) h (zip ss ls)"
  by (induction sha256 h ss ls rule: foldProof.induct) (auto simp: proofStep_def)

lemma VerifyProof_iff:
  "VerifyProof sha256 rt p = Some True \<longleftrightarrow>
    length (mp_Siblings p) \<le> length (mp_Left p) \<and> foldl (proofStep sha256) (mp_Leaf p) (proofPath p) = rt"
  by (auto simp: VerifyProof_def foldProof_foldl proofPath_def)

text \<open>
  The strings hashed in the inner nodes above a level, and those hashed while a path is
  followed from a leaf.
\<close>

fun pairBytes :: "hash32 list \<Rightarrow> bytes list" where
  "pairBytes [] = []"
| "pairBytes [x] = [nodeBytes x 0]"
| "pairBytes (x # y # r) = nodeBytes x y # pairBytes r"

function climbBytes :: "sha \<Rightarrow> hash32 list \<Rightarrow> bytes list" where
  "climbBytes sha256 level =
     (if length level > 1 then pairBytes level @ climbBytes sha256 (nextLevel sha256 level) else [])"
  by auto
termination by (relation "measure (length \<circ> snd)") auto

declare climbBytes.simps [simp del]

fun pathBytes :: "sha \<Rightarrow> hash32 \<Rightarrow> (hash32 \<times> bool) list \<Rightarrow> bytes list" where
  "pathBytes sha256 h [] = []"
| "pathBytes sha256 h (sl # r) =
     (if snd sl then nodeBytes (fst sl) h else nodeBytes h (fst sl)) # pathBytes sha256 (proofStep sha256 h sl) r"

lemma nextLevel_pairBytes: "nextLevel sha256 hs = map sha256 (pairBytes hs)"
  by (induction hs rule: pairBytes.induct) (auto simp: NodeHash_def)

lemma length_pairBytes [simp]: "length (pairBytes hs) = (length hs + 1) div 2"
  by (induction hs rule: pairBytes.induct) auto

lemma pairBytes_nth:
  "i < length (pairBytes hs) \<Longrightarrow>
    pairBytes hs ! i = nodeBytes (hs ! (2 * i)) (if 2 * i + 1 < length hs then hs ! (2 * i + 1) else 0)"
proof (induction hs arbitrary: i rule: pairBytes.induct)
  case (3 x y r)
  then show ?case by (cases i) auto
qed auto

definition sibling :: "hash32 list \<Rightarrow> nat \<Rightarrow> hash32 \<times> bool" where
  "sibling level pos =
     (if even pos then (if pos + 1 < length level then level ! (pos + 1) else 0, False)
      else (level ! (pos - 1), True))"

lemma sibling_step:
  assumes "pos < length level"
  shows "proofStep sha256 (level ! pos) (sibling level pos) = nextLevel sha256 level ! (pos div 2)"
    and "pathBytes sha256 (level ! pos) [sibling level pos] = [pairBytes level ! (pos div 2)]"
  using assms
  by (auto simp: nextLevel_nth pairBytes_nth proofStep_def sibling_def elim!: oddE evenE)

function pathFrom :: "sha \<Rightarrow> hash32 list \<Rightarrow> nat \<Rightarrow> (hash32 \<times> bool) list" where
  "pathFrom sha256 level pos =
     (if length level > 1 then sibling level pos # pathFrom sha256 (nextLevel sha256 level) (pos div 2)
      else [])"
  by auto
termination by (relation "measure (\<lambda>(s, level, pos). length level)") auto

declare pathFrom.simps [simp del]

text \<open>One round of each loop, and its end.\<close>

lemma level_step:
  assumes "length level > 1"
  shows "climb sha256 level = climb sha256 (nextLevel sha256 level)"
    and "climbBytes sha256 level = pairBytes level @ climbBytes sha256 (nextLevel sha256 level)"
    and "pathFrom sha256 level pos =
      sibling level pos # pathFrom sha256 (nextLevel sha256 level) (pos div 2)"
  using assms climb.simps [of sha256 level] climbBytes.simps [of sha256 level]
    pathFrom.simps [of sha256 level pos] by simp_all

lemma level_end [simp]:
  "climb sha256 [] = 0" "climb sha256 [h] = h"
  "climbBytes sha256 [] = []" "climbBytes sha256 [h] = []"
  "pathFrom sha256 [] pos = []" "pathFrom sha256 [h] pos = []"
  by (simp_all add: climb.simps climbBytes.simps pathFrom.simps)

lemma proofLoop_step:
  "length level > 1 \<Longrightarrow> proofLoop sha256 level pos p =
    proofLoop sha256 (nextLevel sha256 level) (pos div 2)
      (p\<lparr>mp_Siblings := mp_Siblings p @ [fst (sibling level pos)],
         mp_Left := mp_Left p @ [snd (sibling level pos)]\<rparr>)"
  by (subst proofLoop.simps) (simp add: sibling_def Let_def even_iff_mod_2_eq_zero)

lemma proofLoop_end:
  "\<not> length level > 1 \<Longrightarrow> proofLoop sha256 level pos p = (p, climb sha256 level)"
  by (subst proofLoop.simps) (simp add: climb.simps [of sha256 level])

lemma short_cases:
  assumes "\<not> length level > 1"
  obtains "level = []" | h where "level = [h]"
  using assms by (cases level; cases "tl level") auto

lemma proofLoop_pathFrom:
  "proofLoop sha256 level pos p =
    (p\<lparr>mp_Siblings := mp_Siblings p @ map fst (pathFrom sha256 level pos),
       mp_Left := mp_Left p @ map snd (pathFrom sha256 level pos)\<rparr>, climb sha256 level)"
proof (induction sha256 level pos arbitrary: p rule: pathFrom.induct)
  case (1 sha256 level pos)
  show ?case
  proof (cases "length level > 1")
    case True
    then show ?thesis
      using 1 [OF True] by (simp add: proofLoop_step level_step)
  next
    case False
    then show ?thesis
      by (rule short_cases) (simp_all add: proofLoop_end)
  qed
qed

lemma pathFrom_climb:
  "pos < length level \<Longrightarrow>
    foldl (proofStep sha256) (level ! pos) (pathFrom sha256 level pos) = climb sha256 level \<and>
    set (pathBytes sha256 (level ! pos) (pathFrom sha256 level pos)) \<subseteq> set (climbBytes sha256 level)"
proof (induction sha256 level pos rule: pathFrom.induct)
  case (1 sha256 level pos)
  show ?case
  proof (cases "length level > 1")
    case True
    have pos: "pos div 2 < length (nextLevel sha256 level)" "pos div 2 < length (pairBytes level)"
      using 1(2) by auto
    have mem: "pairBytes level ! (pos div 2) \<in> set (pairBytes level)"
      using pos(2) by (rule nth_mem)
    show ?thesis
      using 1(1) [OF True pos(1)] sibling_step [OF 1(2), of sha256] mem
      by (auto simp: level_step [OF True])
  next
    case False
    then show ?thesis
      using 1(2) by (elim short_cases) auto
  qed
qed

subsection \<open>Following a proof down from the root\<close>

definition collision_free :: "sha \<Rightarrow> bytes set \<Rightarrow> bool" where
  "collision_free sha256 S \<longleftrightarrow> inj_on sha256 S \<and> 0 \<notin> sha256 ` S"

lemma collision_free_eq:
  "collision_free sha256 S \<Longrightarrow> sha256 a = sha256 b \<Longrightarrow> a \<in> S \<Longrightarrow> b \<in> S \<Longrightarrow> a = b"
  by (auto simp: collision_free_def inj_on_def)

lemma collision_free_nonzero: "collision_free sha256 S \<Longrightarrow> a \<in> S \<Longrightarrow> sha256 a \<noteq> 0"
  by (force simp: collision_free_def)

lemma domain_STATE [simp]:
  "no_nul ''STATE_LEAF_V1''" "no_nul ''STATE_NODE_V1''"
  by (simp_all add: no_nul_def string_bytes_def)

lemma nodeBytes_inject [simp]: "nodeBytes a b = nodeBytes c d \<longleftrightarrow> a = c \<and> b = d"
  by (auto simp: nodeBytes_def)

lemma leaf_not_node [simp]: "leafBytes sha256 k v \<noteq> nodeBytes a b"
  using domain_prefix_split [of "''STATE_LEAF_V1''" "''STATE_NODE_V1''"]
  by (auto simp: leafBytes_def nodeBytes_def string_bytes_inject)

lemmas node_not_leaf [simp] = leaf_not_node [symmetric]

lemma leafBytes_nonempty [simp]: "leafBytes sha256 k v \<noteq> []" "[] \<noteq> leafBytes sha256 k v"
  by (simp_all add: leafBytes_def domain_prefix_def)

lemma nodeBytes_nonempty [simp]: "nodeBytes a b \<noteq> []" "[] \<noteq> nodeBytes a b"
  by (simp_all add: nodeBytes_def domain_prefix_def)

lemma leafBytes_inject:
  assumes "leafBytes sha256 k v = leafBytes sha256 k' v'"
  shows "k = k'" and "sha256 v = sha256 v'"
proof -
  have "length k = length k'"
    using arg_cong [OF assms, of length] by (simp add: leafBytes_def)
  then show "k = k'" and "sha256 v = sha256 v'"
    using assms by (auto simp: leafBytes_def)
qed

lemma pairBytes_mem:
  "b \<in> set (pairBytes hs) \<Longrightarrow> \<exists>x y. b = nodeBytes x y \<and> x \<in> set hs \<and> (y \<in> set hs \<or> y = 0)"
  by (induction hs rule: pairBytes.induct) auto

lemma climbBytes_mem: "b \<in> set (climbBytes sha256 level) \<Longrightarrow> \<exists>x y. b = nodeBytes x y"
proof (induction sha256 level rule: climbBytes.induct)
  case (1 sha256 level)
  show ?case
  proof (cases "length level > 1")
    case True
    then show ?thesis using 1 by (auto simp: level_step dest: pairBytes_mem)
  next
    case False
    then show ?thesis using 1(2) by (elim short_cases) auto
  qed
qed

lemma nextLevel_eq_Nil [simp]: "nextLevel sha256 hs = [] \<longleftrightarrow> hs = []"
  by (cases hs rule: pairBytes.cases) auto

lemma path_prefix_hash:
  "j < length path \<Longrightarrow>
    \<exists>b \<in> set (pathBytes sha256 h path). foldl (proofStep sha256) h (take (Suc j) path) = sha256 b \<and>
      (\<exists>c. b = nodeBytes (foldl (proofStep sha256) h (take j path)) c
         \<or> b = nodeBytes c (foldl (proofStep sha256) h (take j path)))"
proof (induction sha256 h path arbitrary: j rule: pathBytes.induct)
  case (2 sha256 h sl r)
  then show ?case
    by (cases j) (force simp: proofStep_def NodeHash_def)+
qed simp

lemma path_prefix_nonzero:
  assumes "collision_free sha256 S" and "h \<noteq> 0" and "set (pathBytes sha256 h path) \<subseteq> S"
    and "k \<le> length path"
  shows "foldl (proofStep sha256) h (take k path) \<noteq> 0"
proof (cases k)
  case (Suc j)
  then show ?thesis
    using assms path_prefix_hash [of j path sha256 h] collision_free_nonzero [OF assms(1)]
    by (auto simp: Suc_le_eq)
qed (use assms in simp)

text \<open>
  A path that reaches the root of a level passes through the level, or started at one of the
  nodes above it.
\<close>

lemma path_step_down:
  assumes cf: "collision_free sha256 S" and "h \<noteq> 0"
    and "set (pairBytes level) \<subseteq> S" and path: "set (pathBytes sha256 h path) \<subseteq> S"
    and k: "k \<le> length path" "foldl (proofStep sha256) h (take k path) \<in> set (nextLevel sha256 level)"
  shows "(\<exists>k \<le> length path. foldl (proofStep sha256) h (take k path) \<in> set level)
    \<or> (\<exists>b \<in> set (pairBytes level). h = sha256 b)"
proof (cases k)
  case 0
  then show ?thesis using k by (auto simp: nextLevel_pairBytes)
next
  case (Suc j)
  let ?h = "foldl (proofStep sha256) h (take j path)"
  obtain b where b: "b \<in> set (pairBytes level)" "foldl (proofStep sha256) h (take k path) = sha256 b"
    using k by (auto simp: nextLevel_pairBytes)
  obtain c d where c: "c \<in> set (pathBytes sha256 h path)" "foldl (proofStep sha256) h (take k path) = sha256 c"
      "c = nodeBytes ?h d \<or> c = nodeBytes d ?h"
    using path_prefix_hash [of j path sha256 h] Suc k by auto
  have "b = c"
    using b c assms by (intro collision_free_eq [OF cf]) auto
  moreover have "?h \<noteq> 0"
    using Suc k by (intro path_prefix_nonzero [OF cf \<open>h \<noteq> 0\<close> path]) simp
  ultimately have "?h \<in> set level"
    using pairBytes_mem [OF b(1)] c(3) by auto
  then show ?thesis using Suc k by (metis Suc_leD)
qed

lemma path_through_level:
  assumes "collision_free sha256 S" and "h \<noteq> 0" and "set (pathBytes sha256 h path) \<subseteq> S"
    and "set (climbBytes sha256 level) \<subseteq> S"
    and "foldl (proofStep sha256) h path = climb sha256 level" and "level \<noteq> []"
  shows "(\<exists>k \<le> length path. foldl (proofStep sha256) h (take k path) \<in> set level)
    \<or> (\<exists>b \<in> set (climbBytes sha256 level). h = sha256 b)"
  using assms
proof (induction sha256 level rule: climbBytes.induct)
  case (1 sha256 level)
  show ?case
  proof (cases "length level > 1")
    case True
    note step = level_step [OF True, of sha256]
    have "(\<exists>k \<le> length path. foldl (proofStep sha256) h (take k path) \<in> set (nextLevel sha256 level))
        \<or> (\<exists>b \<in> set (climbBytes sha256 (nextLevel sha256 level)). h = sha256 b)"
      using 1 by (intro 1(1) [OF True]) (auto simp: step)
    then show ?thesis
      using path_step_down [OF 1(2,3), of level path] 1 by (auto simp: step)
  next
    case False
    then show ?thesis using 1(6,7) by (elim short_cases) (auto intro: exI [of _ "length path"])
  qed
qed

subsection \<open>Proofs of a snapshot\<close>

lemma lastIndex_absent: "key \<notin> set (keys_of ps) \<Longrightarrow> lastIndex key i ps found = found"
  by (induction key i ps found rule: lastIndex.induct) auto

lemma lastIndex_present:
  "gm_wf ps \<Longrightarrow> map_of ps key = Some v \<Longrightarrow>
    \<exists>j < length ps. lastIndex key i ps found = Some (i + j) \<and> ps ! j = (key, v)"
proof (induction key i ps found rule: lastIndex.induct)
  case (2 key i k w ps found)
  show ?case
  proof (cases "k = key")
    case True
    then have "lastIndex key (Suc i) ps (Some i) = Some i"
      using 2 by (intro lastIndex_absent) (simp add: gm_wf_def)
    then show ?thesis using True 2 by (intro exI [of _ 0]) simp
  next
    case False
    then obtain j where "j < length ps" "lastIndex key (Suc i) ps found = Some (Suc i + j)" "ps ! j = (key, v)"
      using 2 by (auto simp: gm_wf_def)
    then show ?thesis using False by (intro exI [of _ "Suc j"]) simp
  qed
qed simp

text \<open>The proof of an entry of a snapshot, as the loop builds it.\<close>

lemma store_Proof_entry:
  assumes "iter_order ord" and "gm_wf snap" and "map_of (ms_snaps m) version = Some snap"
    and "map_of snap key = Some v"
  obtains j where "j < length snap" and "leaves sha256 snap ! j = LeafHash sha256 key v"
    and "store_Proof sha256 ord version key m =
      Inr (\<lparr>mp_Leaf = leaves sha256 snap ! j, mp_Siblings = map fst (pathFrom sha256 (leaves sha256 snap) j),
            mp_Left = map snd (pathFrom sha256 (leaves sha256 snap) j)\<rparr>, rootOf sha256 snap)"
proof -
  have "map_of (sort_key fst snap) key = Some v"
    using assms by (simp add: map_of_sort_key)
  then obtain j where j: "j < length snap" "lastIndex key 0 (sort_key fst snap) None = Some j"
      "sort_key fst snap ! j = (key, v)"
    using lastIndex_present [of "sort_key fst snap" key v 0 None] assms by auto
  moreover have "snap \<noteq> []" using j by auto
  ultimately show thesis
    using assms by (intro that [of j])
      (auto simp: store_Proof_def sortPairs_ord leaves_def rootOf_def proofLoop_pathFrom Let_def)
qed

lemma length_leaves [simp]: "length (leaves sha256 snap) = length snap"
  by (simp add: leaves_def)

definition snapBytes :: "sha \<Rightarrow> (bytes, bytes) gomap \<Rightarrow> bytes list" where
  "snapBytes sha256 snap = [] # concat (map (\<lambda>(k, v). [leafBytes sha256 k v, v]) snap)
     @ climbBytes sha256 (leaves sha256 snap)"

definition proofBytes :: "sha \<Rightarrow> bytes \<Rightarrow> bytes \<Rightarrow> merkleProof \<Rightarrow> bytes list" where
  "proofBytes sha256 key v p = leafBytes sha256 key v # v # pathBytes sha256 (mp_Leaf p) (proofPath p)"

lemma leaves_mem:
  "h \<in> set (leaves sha256 snap) \<Longrightarrow> \<exists>k v. (k, v) \<in> set snap \<and> h = LeafHash sha256 k v"
  by (auto simp: leaves_def)

lemma path_prefix_not_node:
  assumes "collision_free sha256 S" and "set (pathBytes sha256 h path) \<subseteq> S"
    and "b \<in> S" and "\<forall>x y. b \<noteq> nodeBytes x y" and "k \<le> length path"
    and "foldl (proofStep sha256) h (take k path) = sha256 b"
  shows "k = 0"
proof (cases k)
  case (Suc j)
  then obtain c where "c \<in> S" "sha256 b = sha256 c" "\<exists>x y. c = nodeBytes x y"
    using path_prefix_hash [of j path sha256 h] assms by (force simp: Suc_le_eq)
  then show ?thesis
    using assms collision_free_eq [of sha256 S b c] by auto
qed

lemma path_ends_in_snapshot:
  assumes cf: "collision_free sha256 S" and snap: "set (snapBytes sha256 snap) \<subseteq> S"
    and leaf: "leafBytes sha256 key v \<in> S" "v \<in> S"
    and path: "set (pathBytes sha256 (LeafHash sha256 key v) path) \<subseteq> S"
    and reach: "foldl (proofStep sha256) (LeafHash sha256 key v) path = rootOf sha256 snap"
  shows "(key, v) \<in> set snap"
proof -
  let ?h = "LeafHash sha256 key v"
  have nz: "?h \<noteq> 0"
    using leaf collision_free_nonzero [OF cf] by (simp add: LeafHash_def)
  note not_node = path_prefix_not_node [OF cf path]
  have snap_ne: "snap \<noteq> []"
  proof
    assume "snap = []"
    then have "foldl (proofStep sha256) ?h (take (length path) path) = sha256 []"
      using reach by (simp add: rootOf_def)
    then show False
      using not_node [of "[]" "length path"] snap leaf collision_free_eq [OF cf, of "leafBytes sha256 key v" "[]"]
      by (auto simp: snapBytes_def LeafHash_def)
  qed
  have "?h \<noteq> sha256 b" if "b \<in> set (climbBytes sha256 (leaves sha256 snap))" for b
    using that snap leaf climbBytes_mem [OF that] collision_free_eq [OF cf, of "leafBytes sha256 key v" b]
    by (auto simp: snapBytes_def LeafHash_def)
  then obtain k where k: "k \<le> length path" "foldl (proofStep sha256) ?h (take k path) \<in> set (leaves sha256 snap)"
    using path_through_level [OF cf nz path, of "leaves sha256 snap"] snap snap_ne reach
    by (auto simp: snapBytes_def rootOf_def)
  then obtain k' v' where kv: "(k', v') \<in> set snap"
      "foldl (proofStep sha256) ?h (take k path) = sha256 (leafBytes sha256 k' v')"
    using leaves_mem [of _ sha256 snap] by (fastforce simp: LeafHash_def)
  have S: "leafBytes sha256 k' v' \<in> S" "v' \<in> S"
    using kv snap by (force simp: snapBytes_def)+
  then have "k = 0"
    using not_node [of "leafBytes sha256 k' v'" k] k kv by auto
  then have "leafBytes sha256 key v = leafBytes sha256 k' v'"
    using kv S leaf by (intro collision_free_eq [OF cf]) (auto simp: LeafHash_def)
  then show ?thesis
    using leafBytes_inject [of sha256 key v k' v'] collision_free_eq [OF cf _ leaf(2) S(2)] kv by auto
qed

text \<open>
  The store proves every entry of a retained version: the proof carries the leaf of the
  entry, the root returned is the one the store keeps for the version, and the proof verifies against
  it.
\<close>

theorem Proof_verifies:
  assumes "iter_order ord" and "store_inv sha256 m" and "store_Get version key m = Some v"
  shows "\<exists>p r. store_Proof sha256 ord version key m = Inr (p, r) \<and> store_Root version m = Some r \<and>
    mp_Leaf p = LeafHash sha256 key v \<and> VerifyProof sha256 r p = Some True"
proof -
  obtain snap where snap: "map_of (ms_snaps m) version = Some snap" "map_of snap key = Some v"
    using assms(3) by (auto simp: store_Get_def split: option.splits)
  have wf: "gm_wf snap"
    using store_inv_snap [OF assms(2) snap(1)] by (simp add: snap_inv_def)
  obtain j where j: "j < length snap" "leaves sha256 snap ! j = LeafHash sha256 key v"
    "store_Proof sha256 ord version key m =
      Inr (\<lparr>mp_Leaf = leaves sha256 snap ! j, mp_Siblings = map fst (pathFrom sha256 (leaves sha256 snap) j),
            mp_Left = map snd (pathFrom sha256 (leaves sha256 snap) j)\<rparr>, rootOf sha256 snap)"
    using store_Proof_entry [OF assms(1) wf snap] .
  moreover have "store_Root version m = Some (rootOf sha256 snap)"
    using assms(2) snap by (simp add: store_inv_def store_Root_def)
  moreover have "foldl (proofStep sha256) (leaves sha256 snap ! j) (pathFrom sha256 (leaves sha256 snap) j)
      = rootOf sha256 snap"
    using pathFrom_climb [of j "leaves sha256 snap" sha256] j(1) by (auto simp: rootOf_def)
  ultimately show ?thesis
    by (simp add: VerifyProof_iff proofPath_def zip_map_fst_snd)
qed

theorem Proof_verifies_witness:
  "\<exists>p r. store_Proof ex_sha rev 2 ex_key2 ex_store = Inr (p, r) \<and> VerifyProof ex_sha r p = Some True"
proof -
  have "store_Get 2 ex_key2 ex_store = Some [2, 2]"
    by (simp add: store_Get_def ex_store_def)
  from Proof_verifies [OF iter_order_rev ex_store_inv this] show ?thesis by auto
qed

text \<open>
  C23. A proof that verifies against the root of a version, with the leaf of a key and a
  value, proves that the version maps the key to the value. The hypothesis on SHA-256 is about the
  strings hashed to build the root and to check the proof only: no two of them collide and none
  hashes to zero, the padding of an odd level.
\<close>

theorem VerifyProof_sound:
  assumes "store_inv sha256 m" and "map_of (ms_snaps m) version = Some snap"
    and "store_Root version m = Some r"
    and "collision_free sha256 (set (snapBytes sha256 snap) \<union> set (proofBytes sha256 key v p))"
    and "mp_Leaf p = LeafHash sha256 key v" and "VerifyProof sha256 r p = Some True"
  shows "store_Get version key m = Some v"
proof -
  have wf: "gm_wf snap"
    using store_inv_snap [OF assms(1,2)] by (simp add: snap_inv_def)
  have "r = rootOf sha256 snap"
    using assms(1-3) by (simp add: store_inv_def store_Root_def)
  then have "(key, v) \<in> set snap"
    using assms(4-6) by (intro path_ends_in_snapshot [OF assms(4)])
      (auto simp: VerifyProof_iff proofBytes_def)
  then show ?thesis
    using assms(2) wf by (simp add: store_Get_def gm_mem_iff)
qed

lemma same_root_subset:
  assumes "collision_free sha256 (set (snapBytes sha256 snap) \<union> set (snapBytes sha256 snap'))"
    and "rootOf sha256 snap = rootOf sha256 snap'"
  shows "set snap \<subseteq> set snap'"
proof
  fix e assume "e \<in> set snap"
  moreover obtain key v where e: "e = (key, v)" by fastforce
  ultimately obtain j where j: "j < length snap" "sort_key fst snap ! j = (key, v)"
    by (metis in_set_conv_nth length_sort set_sort)
  let ?ls = "leaves sha256 snap"
  have leaf: "?ls ! j = LeafHash sha256 key v"
    using j by (simp add: leaves_def)
  have path: "foldl (proofStep sha256) (LeafHash sha256 key v) (pathFrom sha256 ?ls j) = rootOf sha256 snap"
    "set (pathBytes sha256 (LeafHash sha256 key v) (pathFrom sha256 ?ls j)) \<subseteq> set (climbBytes sha256 ?ls)"
    using pathFrom_climb [of j ?ls sha256] j(1) leaf by (auto simp: rootOf_def)
  have "leafBytes sha256 key v \<in> set (snapBytes sha256 snap)" "v \<in> set (snapBytes sha256 snap)"
    using \<open>e \<in> set snap\<close> e by (force simp: snapBytes_def)+
  then have "(key, v) \<in> set snap'"
    using path assms(2)
    by (intro path_ends_in_snapshot [OF assms(1), where path = "pathFrom sha256 ?ls j"])
      (auto simp: snapBytes_def)
  then show "e \<in> set snap'" by (simp add: e)
qed

text \<open>
  C22. The root binds the state: two stores whose versions have the same root answer every
  lookup at those versions alike.
\<close>

theorem root_binds_state:
  assumes inv: "store_inv sha256 m" "store_inv sha256 m'"
    and snaps: "map_of (ms_snaps m) version = Some snap" "map_of (ms_snaps m') version' = Some snap'"
    and roots: "store_Root version m = store_Root version' m'"
    and cf: "collision_free sha256 (set (snapBytes sha256 snap) \<union> set (snapBytes sha256 snap'))"
  shows "store_Get version key m = store_Get version' key m'"
proof -
  have wf: "gm_wf snap" "gm_wf snap'"
    using store_inv_snap [OF inv(1) snaps(1)] store_inv_snap [OF inv(2) snaps(2)] by (simp_all add: snap_inv_def)
  have "rootOf sha256 snap = rootOf sha256 snap'"
    using inv snaps roots by (simp add: store_inv_def store_Root_def)
  then have "set snap = set snap'"
    using same_root_subset [OF cf] same_root_subset [of sha256 snap' snap] cf by (metis Un_commute equalityI)
  then have "map_of snap key = map_of snap' key"
    using wf by (metis gm_mem_iff not_Some_eq)
  then show ?thesis using snaps by (simp add: store_Get_def)
qed

lemma ex_collision_free:
  assumes "inj_on length S" and "\<And>b. b \<in> S \<Longrightarrow> length b < 1000"
  shows "collision_free ex_sha S"
proof -
  have "unat (ex_sha b) = length b + 1" if "b \<in> S" for b
    using assms(2) [OF that] by (simp add: ex_sha_def unsigned_of_nat take_bit_nat_eq_self del: of_nat_add of_nat_Suc)
  then show ?thesis
    using assms(1) unfolding collision_free_def inj_on_def
    by (metis Suc_eq_plus1 add_right_imp_eq imageE nat.simps(3) unsigned_0)
qed

lemma length_hashed [simp]:
  "length (leafBytes sha256 k v) = 50 + length k" "length (nodeBytes a b) = 78"
  by (simp_all add: leafBytes_def nodeBytes_def domain_prefix_def string_bytes_def)

definition ex_snap :: "(bytes, bytes) gomap" where
  "ex_snap = [(ex_key2, [2, 2]), (ex_key, [1])]"

lemma ex_snap_leaves: "leaves sha256 ex_snap = [LeafHash sha256 ex_key [1], LeafHash sha256 ex_key2 [2, 2]]"
  by (simp add: leaves_def ex_snap_def ex_key_def ex_key2_def)

lemma ex_snapBytes:
  "snapBytes sha256 ex_snap =
    [[], leafBytes sha256 ex_key2 [2, 2], [2, 2], leafBytes sha256 ex_key [1], [1],
     nodeBytes (LeafHash sha256 ex_key [1]) (LeafHash sha256 ex_key2 [2, 2])]"
  by (simp add: snapBytes_def ex_snap_leaves level_step) (simp add: ex_snap_def)

lemma ex_snap_at: "map_of (ms_snaps ex_store) 2 = Some ex_snap"
  by (simp add: ex_store_def ex_snap_def)

lemma ex_snap_free: "collision_free ex_sha (set (snapBytes ex_sha ex_snap))"
  by (rule ex_collision_free) (auto simp: ex_snapBytes inj_on_def ex_key_def ex_key2_def)

definition ex_replica :: memStore where
  "ex_replica = \<lparr>ms_snaps = [(1, rev ex_snap)], ms_roots = [(1, rootOf ex_sha (rev ex_snap))], ms_latest = 1\<rparr>"

lemma ex_replica_leaves: "leaves sha256 (rev ex_snap) = leaves sha256 ex_snap"
  by (simp add: leaves_def ex_snap_def ex_key_def ex_key2_def)

lemma ex_replica_inv: "store_inv ex_sha ex_replica"
  by (auto simp: store_inv_def ex_replica_def gm_wf_def snap_inv_def legalWrite_def keySizeOk_def
      ex_key_def ex_key2_def ex_snap_def MaxStateKeySize_def MaxStateValueSize_def)

lemma ex_replica_bytes: "set (snapBytes sha256 (rev ex_snap)) = set (snapBytes sha256 ex_snap)"
  by (auto simp: snapBytes_def ex_replica_leaves)

theorem root_binds_state_witness: "store_Get 2 ex_key ex_store = store_Get 1 ex_key ex_replica"
proof (rule root_binds_state [OF ex_store_inv ex_replica_inv ex_snap_at])
  show "map_of (ms_snaps ex_replica) 1 = Some (rev ex_snap)"
    by (simp add: ex_replica_def)
  show "store_Root 2 ex_store = store_Root 1 ex_replica"
    by (simp add: store_Root_def ex_store_def ex_replica_def ex_snap_def [symmetric] rootOf_def ex_replica_leaves)
qed (use ex_snap_free in \<open>simp add: ex_replica_bytes\<close>)

definition ex_proof :: merkleProof where
  "ex_proof = \<lparr>mp_Leaf = LeafHash ex_sha ex_key2 [2, 2], mp_Siblings = [LeafHash ex_sha ex_key [1]],
     mp_Left = [True]\<rparr>"

theorem VerifyProof_sound_witness: "store_Get 2 ex_key2 ex_store = Some [2, 2]"
proof (rule VerifyProof_sound [OF ex_store_inv ex_snap_at])
  show "store_Root 2 ex_store = Some (rootOf ex_sha ex_snap)"
    by (simp add: store_Root_def ex_store_def ex_snap_def)
  have "set (proofBytes ex_sha ex_key2 [2, 2] ex_proof) \<subseteq> set (snapBytes ex_sha ex_snap)"
    by (simp add: proofBytes_def ex_snapBytes ex_proof_def proofPath_def)
  then show "collision_free ex_sha (set (snapBytes ex_sha ex_snap) \<union> set (proofBytes ex_sha ex_key2 [2, 2] ex_proof))"
    using ex_snap_free by (simp add: Un_absorb2)
  show "VerifyProof ex_sha (rootOf ex_sha ex_snap) ex_proof = Some True"
    by (simp add: VerifyProof_iff ex_proof_def proofPath_def proofStep_def rootOf_def ex_snap_leaves level_step)
      (simp add: ex_snap_def)
qed (simp add: ex_proof_def)

end
