(* ===== verification/StateMachine.thy ===== *)
theory StateMachine
  imports Merkle
begin

text \<open>
  The deterministic state machine of \<^verbatim>\<open>backend/pkg/state\<close>: transactions and their checks
  (\<^verbatim>\<open>model.go\<close>), the reducers (\<^verbatim>\<open>reducers.go\<close>), the execution of a block
  (\<^verbatim>\<open>executor.go\<close>) and the queries on the keys the reducers write (\<^verbatim>\<open>query.go\<close>).

  The times that \<^verbatim>\<open>ApplyBlock\<close> measures for its metrics are left out. The
  \<^verbatim>\<open>Transaction\<close> interface has the three implementations of \<^verbatim>\<open>model.go\<close>, so that the
  branch for an unknown type and the one for a missing envelope have no counterpart.
\<close>

subsection \<open>Transactions\<close>

record envelope =
  env_ProducerID :: bytes
  env_Nonce :: bytes
  env_ContentHash :: hash32
  env_Alg :: string
  env_PubKey :: bytes
  env_Signature :: bytes

record cocEntry =
  coc_RefHash :: hash32
  coc_ActorID :: bytes
  coc_Ts :: int
  coc_Signature :: bytes

record eventTx =
  ev_Ts :: int
  ev_Data :: bytes
  ev_Env :: envelope

record evidenceTx =
  evi_Ts :: int
  evi_Data :: bytes
  evi_Env :: envelope
  evi_CoC :: "cocEntry list"

record policyTx =
  pol_Ts :: int
  pol_Data :: bytes
  pol_Env :: envelope

datatype transaction = Tx_Event eventTx | Tx_Evidence evidenceTx | Tx_Policy policyTx

fun tx_Type :: "transaction \<Rightarrow> string" where
  "tx_Type (Tx_Event t) = ''event''"
| "tx_Type (Tx_Evidence t) = ''evidence''"
| "tx_Type (Tx_Policy t) = ''policy''"

fun tx_Timestamp :: "transaction \<Rightarrow> int" where
  "tx_Timestamp (Tx_Event t) = ev_Ts t"
| "tx_Timestamp (Tx_Evidence t) = evi_Ts t"
| "tx_Timestamp (Tx_Policy t) = pol_Ts t"

fun tx_Payload :: "transaction \<Rightarrow> bytes" where
  "tx_Payload (Tx_Event t) = ev_Data t"
| "tx_Payload (Tx_Evidence t) = evi_Data t"
| "tx_Payload (Tx_Policy t) = pol_Data t"

fun tx_Envelope :: "transaction \<Rightarrow> envelope" where
  "tx_Envelope (Tx_Event t) = ev_Env t"
| "tx_Envelope (Tx_Evidence t) = evi_Env t"
| "tx_Envelope (Tx_Policy t) = pol_Env t"

fun tx_Domain :: "transaction \<Rightarrow> string" where
  "tx_Domain (Tx_Event t) = ''APP_EVENT_V1''"
| "tx_Domain (Tx_Evidence t) = ''APP_EVIDENCE_V1''"
| "tx_Domain (Tx_Policy t) = ''APP_POLICY_V1''"

definition tx_Canonical :: "transaction \<Rightarrow> state_error + bytes" where
  "tx_Canonical tx = CanonicalTxBytes (tx_Domain tx) (tx_Timestamp tx) (tx_Payload tx)"

definition tx_Hash :: "sha \<Rightarrow> transaction \<Rightarrow> state_error + hash32" where
  "tx_Hash sha256 tx = TxHash sha256 (tx_Domain tx) (tx_Timestamp tx) (tx_Payload tx)"

text \<open>The checks the three \<^verbatim>\<open>Validate\<close> methods share, in their order.\<close>

definition validateCommon ::
    "sha \<Rightarrow> instant \<Rightarrow> duration \<Rightarrow> int \<Rightarrow> bytes \<Rightarrow> envelope \<Rightarrow> state_error option" where
  "validateCommon sha256 now skew ts data e =
     (case ValidateSize (int (length data)) (int MaxTxPayloadSize) of Some err \<Rightarrow> Some err | None \<Rightarrow>
      case CheckSkew ts now skew of Some err \<Rightarrow> Some err | None \<Rightarrow>
      if env_ProducerID e = [] \<or> length (env_ProducerID e) > MaxProducerIDSize then Some ErrInvalidKey
      else if length (env_Nonce e) \<noteq> NonceSize then Some ErrInvalidKey
      else if ContentHash sha256 data \<noteq> env_ContentHash e then Some ErrInvalidValue
      else if env_Alg e = [] \<or> length (env_Alg e) > MaxAlgSize then Some ErrInvalidValue
      else if env_PubKey e = [] \<or> env_Signature e = [] then Some ErrInvalidValue
      else None)"

definition cocEntryOk :: "cocEntry \<Rightarrow> bool" where
  "cocEntryOk c \<longleftrightarrow>
     coc_ActorID c \<noteq> [] \<and> length (coc_ActorID c) \<le> MaxActorIDSize \<and> coc_Signature c \<noteq> []"

definition event_Validate :: "sha \<Rightarrow> instant \<Rightarrow> duration \<Rightarrow> eventTx \<Rightarrow> state_error option" where
  "event_Validate sha256 now skew t = validateCommon sha256 now skew (ev_Ts t) (ev_Data t) (ev_Env t)"

definition evidence_Validate :: "sha \<Rightarrow> instant \<Rightarrow> duration \<Rightarrow> evidenceTx \<Rightarrow> state_error option" where
  "evidence_Validate sha256 now skew t =
     (case validateCommon sha256 now skew (evi_Ts t) (evi_Data t) (evi_Env t) of
        Some err \<Rightarrow> Some err
      | None \<Rightarrow>
          if evi_CoC t = [] \<or> length (evi_CoC t) > MaxCoCEntries then Some ErrInvalidValue
          else if \<not> list_all cocEntryOk (evi_CoC t) then Some ErrInvalidValue
          else None)"

definition policy_Validate :: "sha \<Rightarrow> instant \<Rightarrow> duration \<Rightarrow> policyTx \<Rightarrow> state_error option" where
  "policy_Validate sha256 now skew t = validateCommon sha256 now skew (pol_Ts t) (pol_Data t) (pol_Env t)"

fun tx_Validate :: "sha \<Rightarrow> instant \<Rightarrow> duration \<Rightarrow> transaction \<Rightarrow> state_error option" where
  "tx_Validate sha256 now skew (Tx_Event t) = event_Validate sha256 now skew t"
| "tx_Validate sha256 now skew (Tx_Evidence t) = evidence_Validate sha256 now skew t"
| "tx_Validate sha256 now skew (Tx_Policy t) = policy_Validate sha256 now skew t"

subsection \<open>Reducers\<close>

definition keyEvent :: "hash32 \<Rightarrow> bytes" where
  "keyEvent h = string_bytes ''evt:'' @ be_bytes 32 h"

definition keyEvidence :: "hash32 \<Rightarrow> bytes" where
  "keyEvidence h = string_bytes ''evi:'' @ be_bytes 32 h"

definition keyCoC :: "hash32 \<Rightarrow> 16 word \<Rightarrow> bytes" where
  "keyCoC h idx = string_bytes ''coc:'' @ be_bytes 32 h @ be_bytes 2 idx"

definition keyProducerLast :: "bytes \<Rightarrow> bytes" where
  "keyProducerLast pid = string_bytes ''prod:last:'' @ pid"

definition keyProducerCnt :: "bytes \<Rightarrow> bytes" where
  "keyProducerCnt pid = string_bytes ''prod:cnt:'' @ pid"

definition keyNonce :: "bytes \<Rightarrow> bytes \<Rightarrow> bytes" where
  "keyNonce pid nonce = string_bytes ''nonce:'' @ pid @ nonce"

definition keyPolicy :: "hash32 \<Rightarrow> bytes" where
  "keyPolicy h = string_bytes ''pol:'' @ be_bytes 32 h"

definition keyPolicyHead :: bytes where
  "keyPolicyHead = string_bytes ''pol:latest''"

definition u64_bytes :: "u64 \<Rightarrow> bytes" where
  "u64_bytes n = be_bytes 8 n"

text \<open>The counter of a producer, read and incremented; a counter of another size counts as zero.\<close>

definition nextCount :: "memStore \<Rightarrow> bytes \<Rightarrow> txn \<Rightarrow> u64" where
  "nextCount m pid t =
     (let cntB = (case txn_Get m (keyProducerCnt pid) t of None \<Rightarrow> [] | Some b \<Rightarrow> b) in
      (if length cntB = 8 then of_nat (be_value cntB) else 0) + 1)"

definition ApplyEvent :: "memStore \<Rightarrow> eventTx \<Rightarrow> txn \<Rightarrow> state_error + txn" where
  "ApplyEvent m tx t =
     (let e = ev_Env tx; pid = env_ProducerID e in
      andThen (txn_Put (keyEvent (env_ContentHash e)) (ev_Data tx) t) (\<lambda>t.
      andThen (txn_Put (keyProducerLast pid) (i64 (ev_Ts tx)) t) (\<lambda>t.
      let cnt = nextCount m pid t in
      andThen (txn_Put (keyProducerCnt pid) (u64_bytes cnt) t) (\<lambda>t.
      txn_Put (keyNonce pid (env_Nonce e)) (be_bytes 32 (env_ContentHash e)) t))))"

fun putCoC :: "hash32 \<Rightarrow> nat \<Rightarrow> cocEntry list \<Rightarrow> txn \<Rightarrow> state_error + txn" where
  "putCoC h i [] t = Inr t"
| "putCoC h i (c # cs) t =
     andThen (txn_Put (keyCoC h (of_nat i)) (be_bytes 32 (coc_RefHash c)) t) (putCoC h (Suc i) cs)"

definition ApplyEvidence :: "memStore \<Rightarrow> evidenceTx \<Rightarrow> txn \<Rightarrow> state_error + txn" where
  "ApplyEvidence m tx t =
     (let e = evi_Env tx; pid = env_ProducerID e in
      andThen (txn_Put (keyEvidence (env_ContentHash e)) (evi_Data tx) t) (\<lambda>t.
      andThen (putCoC (env_ContentHash e) 0 (evi_CoC tx) t) (\<lambda>t.
      andThen (txn_Put (keyProducerLast pid) (i64 (evi_Ts tx)) t) (\<lambda>t.
      let cnt = nextCount m pid t in
      andThen (txn_Put (keyProducerCnt pid) (u64_bytes cnt) t) (\<lambda>t.
      txn_Put (keyNonce pid (env_Nonce e)) (be_bytes 32 (env_ContentHash e)) t)))))"

definition ApplyPolicy :: "memStore \<Rightarrow> policyTx \<Rightarrow> txn \<Rightarrow> state_error + txn" where
  "ApplyPolicy m tx t =
     (let e = pol_Env tx; pid = env_ProducerID e in
      andThen (txn_Put (keyPolicy (env_ContentHash e)) (pol_Data tx) t) (\<lambda>t.
      andThen (txn_Put keyPolicyHead (be_bytes 32 (env_ContentHash e)) t) (\<lambda>t.
      andThen (txn_Put (keyProducerLast pid) (i64 (pol_Ts tx)) t) (\<lambda>t.
      let cnt = nextCount m pid t in
      andThen (txn_Put (keyProducerCnt pid) (u64_bytes cnt) t) (\<lambda>t.
      txn_Put (keyNonce pid (env_Nonce e)) (be_bytes 32 (env_ContentHash e)) t)))))"

fun reduce :: "memStore \<Rightarrow> transaction \<Rightarrow> txn \<Rightarrow> state_error + txn" where
  "reduce m (Tx_Event x) t = ApplyEvent m x t"
| "reduce m (Tx_Evidence x) t = ApplyEvidence m x t"
| "reduce m (Tx_Policy x) t = ApplyPolicy m x t"

subsection \<open>Blocks\<close>

definition MaxBlockTxs :: nat where "MaxBlockTxs = 5000"
definition MaxBlockBytes :: nat where "MaxBlockBytes = 16 * 2 ^ 20"

datatype execCode = ExecCodeOK | ExecCodeInvalid | ExecCodeReducerError

record receipt =
  rc_Index :: nat
  rc_Type :: string
  rc_ContentHash :: hash32
  rc_Code :: execCode
  rc_Error :: "state_error option"

definition zeroReceipt :: receipt where
  "zeroReceipt = \<lparr>rc_Index = 0, rc_Type = [], rc_ContentHash = 0, rc_Code = ExecCodeOK, rc_Error = None\<rparr>"

text \<open>\<^verbatim>\<open>copy\<close> into a \<^verbatim>\<open>[32]byte\<close>: a longer slice is cut, a shorter one is padded with zeros.\<close>

definition hashFrom :: "bytes \<Rightarrow> hash32" where
  "hashFrom v = of_nat (be_value (take 32 (v @ replicate 32 0)))"

datatype txOutcome = Applied txn | Skipped | Failed execCode state_error

text \<open>One round of the loop: the checks, the nonce and the reducer.\<close>

definition execTx :: "sha \<Rightarrow> instant \<Rightarrow> duration \<Rightarrow> memStore \<Rightarrow> transaction \<Rightarrow> txn \<Rightarrow> txOutcome" where
  "execTx sha256 now skew m tx t =
     (let e = tx_Envelope tx in
      case tx_Validate sha256 now skew tx of
        Some err \<Rightarrow> Failed ExecCodeInvalid err
      | None \<Rightarrow>
          (case txn_Get m (keyNonce (env_ProducerID e) (env_Nonce e)) t of
             Some v \<Rightarrow>
               if v \<noteq> [] then
                 if hashFrom v = env_ContentHash e then Skipped else Failed ExecCodeInvalid ErrNonceReplay
               else (case reduce m tx t of Inl err \<Rightarrow> Failed ExecCodeReducerError err | Inr t' \<Rightarrow> Applied t')
           | None \<Rightarrow>
               (case reduce m tx t of Inl err \<Rightarrow> Failed ExecCodeReducerError err | Inr t' \<Rightarrow> Applied t')))"

definition receiptFor :: "nat \<Rightarrow> transaction \<Rightarrow> receipt" where
  "receiptFor i tx = \<lparr>rc_Index = i, rc_Type = tx_Type tx,
     rc_ContentHash = env_ContentHash (tx_Envelope tx), rc_Code = ExecCodeOK, rc_Error = None\<rparr>"

fun execTxs :: "sha \<Rightarrow> instant \<Rightarrow> duration \<Rightarrow> memStore \<Rightarrow> nat \<Rightarrow> transaction list \<Rightarrow> receipt list \<Rightarrow> txn
    \<Rightarrow> (state_error + txn) \<times> receipt list" where
  "execTxs sha256 now skew m i [] receipts t = (Inr t, receipts)"
| "execTxs sha256 now skew m i (tx # txs) receipts t =
     (let r = receiptFor i tx in
      case execTx sha256 now skew m tx t of
        Failed code err \<Rightarrow> (Inl err, receipts[i := r\<lparr>rc_Code := code, rc_Error := Some err\<rparr>])
      | Skipped \<Rightarrow> execTxs sha256 now skew m (Suc i) txs (receipts[i := r]) t
      | Applied t' \<Rightarrow> execTxs sha256 now skew m (Suc i) txs (receipts[i := r]) t')"

definition ApplyBlock ::
    "sha \<Rightarrow> kvOrder \<Rightarrow> instant \<Rightarrow> duration \<Rightarrow> transaction list \<Rightarrow> memStore
      \<Rightarrow> (state_error + u64 \<times> hash32) \<times> receipt list \<times> memStore" where
  "ApplyBlock sha256 ord now skew txs m =
     (let receipts = replicate (length txs) zeroReceipt in
      if length txs > MaxBlockTxs then (Inl ErrBlockTooLarge, receipts, m)
      else if sum_list (map (\<lambda>tx. length (tx_Payload tx)) txs) > MaxBlockBytes
      then (Inl ErrBlockTooLarge, receipts, m)
      else
        let latest = ms_latest m in
        case store_Begin latest m of
          Inl err \<Rightarrow> (Inl err, receipts, m)
        | Inr t \<Rightarrow>
            (case execTxs sha256 now skew m 0 txs receipts t of
               (Inl err, receipts) \<Rightarrow> (Inl err, receipts, m)
             | (Inr t, receipts) \<Rightarrow>
                 (case txn_Commit sha256 ord (latest + 1) t m of
                    (Inl err, m) \<Rightarrow> (Inl err, receipts, m)
                  | (Inr r, m) \<Rightarrow> (Inr (latest + 1, r), receipts, m))))"

subsection \<open>Queries\<close>

definition PolicyLatest :: "u64 \<Rightarrow> memStore \<Rightarrow> state_error + hash32 \<times> bytes" where
  "PolicyLatest version m =
     (case store_Get version keyPolicyHead m of
        None \<Rightarrow> Inl ErrNotFound
      | Some v \<Rightarrow>
          if length v \<noteq> 32 then Inl ErrNotFound
          else (case store_Get version (keyPolicy (hashFrom v)) m of
                  None \<Rightarrow> Inl ErrNotFound
                | Some p \<Rightarrow> Inr (hashFrom v, p)))"

definition EventByHash :: "u64 \<Rightarrow> hash32 \<Rightarrow> memStore \<Rightarrow> state_error + bytes" where
  "EventByHash version h m =
     (case store_Get version (keyEvent h) m of None \<Rightarrow> Inl ErrNotFound | Some v \<Rightarrow> Inr v)"

definition EvidenceByHash :: "u64 \<Rightarrow> hash32 \<Rightarrow> memStore \<Rightarrow> state_error + bytes" where
  "EvidenceByHash version h m =
     (case store_Get version (keyEvidence h) m of None \<Rightarrow> Inl ErrNotFound | Some v \<Rightarrow> Inr v)"

definition ProducerStats :: "u64 \<Rightarrow> bytes \<Rightarrow> memStore \<Rightarrow> state_error + int \<times> u64" where
  "ProducerStats version pid m =
     (case store_Get version (keyProducerLast pid) m of
        None \<Rightarrow> Inl ErrNotFound
      | Some ltB \<Rightarrow>
          if length ltB \<noteq> 8 then Inl ErrNotFound
          else
            let cnt = (case store_Get version (keyProducerCnt pid) m of
                         None \<Rightarrow> 0
                       | Some b \<Rightarrow> if length b = 8 then of_nat (be_value b) else 0) in
            Inr (sint (of_nat (be_value ltB) :: u64), cnt))"

definition NonceMapping :: "u64 \<Rightarrow> bytes \<Rightarrow> bytes \<Rightarrow> memStore \<Rightarrow> state_error + hash32" where
  "NonceMapping version pid nonce m =
     (case store_Get version (keyNonce pid nonce) m of
        None \<Rightarrow> Inl ErrNotFound
      | Some v \<Rightarrow> if length v \<noteq> 32 then Inl ErrNotFound else Inr (hashFrom v))"

subsection \<open>The key space\<close>

lemmas key_defs = keyEvent_def keyEvidence_def keyCoC_def keyProducerLast_def keyProducerCnt_def
  keyNonce_def keyPolicy_def keyPolicyHead_def

lemma key_prefixes:
  "keyEvent h = 101 # 118 # 116 # 58 # be_bytes 32 h"
  "keyEvidence h = 101 # 118 # 105 # 58 # be_bytes 32 h"
  "keyCoC h i = 99 # 111 # 99 # 58 # be_bytes 32 h @ be_bytes 2 i"
  "keyProducerLast pid = 112 # 114 # 111 # 100 # 58 # 108 # 97 # 115 # 116 # 58 # pid"
  "keyProducerCnt pid = 112 # 114 # 111 # 100 # 58 # 99 # 110 # 116 # 58 # pid"
  "keyNonce pid nonce = 110 # 111 # 110 # 99 # 101 # 58 # pid @ nonce"
  "keyPolicy h = 112 # 111 # 108 # 58 # be_bytes 32 h"
  "keyPolicyHead = [112, 111, 108, 58, 108, 97, 116, 101, 115, 116]"
  by (simp_all add: key_defs string_bytes_def)

lemma key_lengths:
  "length (keyEvent h) = 36" "length (keyEvidence h) = 36" "length (keyCoC h i) = 38"
  "length (keyProducerLast pid) = 10 + length pid" "length (keyProducerCnt pid) = 9 + length pid"
  "length (keyNonce pid nonce) = 6 + length pid + length nonce"
  "length (keyPolicy h) = 36" "length keyPolicyHead = 10"
  by (simp_all add: key_prefixes)

lemma keyPolicy_not_head: "keyPolicy h \<noteq> keyPolicyHead"
proof
  assume "keyPolicy h = keyPolicyHead"
  then have "length (keyPolicy h) = length keyPolicyHead" by simp
  then show False by (simp add: key_lengths)
qed

lemma keys_inject [simp]:
  "keyEvent h = keyEvent h' \<longleftrightarrow> h = h'" "keyEvidence h = keyEvidence h' \<longleftrightarrow> h = h'"
  "keyPolicy h = keyPolicy h' \<longleftrightarrow> h = h'"
  by (simp_all add: key_prefixes)

lemma keyNonce_inject:
  "length n = length n' \<Longrightarrow> keyNonce p n = keyNonce p' n' \<longleftrightarrow> p = p' \<and> n = n'"
  by (simp add: key_prefixes)

lemma keys_apart [simp]:
  "keyNonce p n \<noteq> keyEvent h" "keyNonce p n \<noteq> keyEvidence h" "keyNonce p n \<noteq> keyCoC h i"
  "keyNonce p n \<noteq> keyProducerLast q" "keyNonce p n \<noteq> keyProducerCnt q"
  "keyNonce p n \<noteq> keyPolicy h" "keyNonce p n \<noteq> keyPolicyHead"
  "keyProducerCnt q \<noteq> keyEvent h" "keyProducerCnt q \<noteq> keyEvidence h" "keyProducerCnt q \<noteq> keyCoC h i"
  "keyProducerCnt q \<noteq> keyProducerLast p" "keyProducerCnt q \<noteq> keyPolicy h" "keyProducerCnt q \<noteq> keyPolicyHead"
  "keyProducerLast q \<noteq> keyEvent h" "keyProducerLast q \<noteq> keyEvidence h" "keyProducerLast q \<noteq> keyCoC h i"
  "keyProducerLast q \<noteq> keyPolicy h" "keyProducerLast q \<noteq> keyPolicyHead"
  "keyEvent h \<noteq> keyEvidence h'" "keyEvent h \<noteq> keyCoC h' i" "keyEvent h \<noteq> keyPolicy h'" "keyEvent h \<noteq> keyPolicyHead"
  "keyEvidence h \<noteq> keyCoC h' i" "keyEvidence h \<noteq> keyPolicy h'" "keyEvidence h \<noteq> keyPolicyHead"
  "keyCoC h' i \<noteq> keyPolicy h" "keyCoC h' i \<noteq> keyPolicyHead"
  by (simp_all add: key_prefixes)

lemmas keys_apart' [simp] = keys_apart [symmetric] keyPolicy_not_head keyPolicy_not_head [symmetric]

subsection \<open>The abstract state machine\<close>

text \<open>
  The specification works on maps. A transaction whose nonce is new writes its payload, the
  producer's last time and count and the nonce; one that is known with the same content changes
  nothing; one that is known with another content, or that fails its checks, makes the block fail.
\<close>

type_synonym kvMap = "bytes \<Rightarrow> bytes option"

definition countOf :: "kvMap \<Rightarrow> bytes \<Rightarrow> u64" where
  "countOf \<sigma> pid =
     (case \<sigma> (keyProducerCnt pid) of
        None \<Rightarrow> 0
      | Some b \<Rightarrow> if length b = 8 then of_nat (be_value b) else 0)"

fun payloadWrites :: "transaction \<Rightarrow> (bytes \<times> bytes) list" where
  "payloadWrites (Tx_Event t) = [(keyEvent (env_ContentHash (ev_Env t)), ev_Data t)]"
| "payloadWrites (Tx_Evidence t) =
     (keyEvidence (env_ContentHash (evi_Env t)), evi_Data t)
     # map (\<lambda>(i, c). (keyCoC (env_ContentHash (evi_Env t)) (of_nat i), be_bytes 32 (coc_RefHash c)))
         (enumerate 0 (evi_CoC t))"
| "payloadWrites (Tx_Policy t) =
     [(keyPolicy (env_ContentHash (pol_Env t)), pol_Data t),
      (keyPolicyHead, be_bytes 32 (env_ContentHash (pol_Env t)))]"

definition nonceKey :: "transaction \<Rightarrow> bytes" where
  "nonceKey tx = keyNonce (env_ProducerID (tx_Envelope tx)) (env_Nonce (tx_Envelope tx))"

definition hashBytes :: "transaction \<Rightarrow> bytes" where
  "hashBytes tx = be_bytes 32 (env_ContentHash (tx_Envelope tx))"

definition metaWrites :: "kvMap \<Rightarrow> transaction \<Rightarrow> (bytes \<times> bytes) list" where
  "metaWrites \<sigma> tx =
     (let pid = env_ProducerID (tx_Envelope tx) in
      [(keyProducerLast pid, i64 (tx_Timestamp tx)),
       (keyProducerCnt pid, u64_bytes (countOf \<sigma> pid + 1)),
       (nonceKey tx, hashBytes tx)])"

definition spec_tx :: "(transaction \<Rightarrow> bool) \<Rightarrow> transaction \<Rightarrow> kvMap \<Rightarrow> kvMap option" where
  "spec_tx valid tx \<sigma> =
     (if \<not> valid tx then None
      else case \<sigma> (nonceKey tx) of
        None \<Rightarrow> Some (overwrite go_copy (payloadWrites tx @ metaWrites \<sigma> tx) \<sigma>)
      | Some v \<Rightarrow> if hashFrom v = env_ContentHash (tx_Envelope tx) then Some \<sigma> else None)"

fun spec_txs :: "(transaction \<Rightarrow> bool) \<Rightarrow> transaction list \<Rightarrow> kvMap \<Rightarrow> kvMap option" where
  "spec_txs valid [] \<sigma> = Some \<sigma>"
| "spec_txs valid (tx # txs) \<sigma> = Option.bind (spec_tx valid tx \<sigma>) (spec_txs valid txs)"

definition spec_block :: "(transaction \<Rightarrow> bool) \<Rightarrow> transaction list \<Rightarrow> kvMap \<Rightarrow> kvMap option" where
  "spec_block valid txs \<sigma> =
     (if length txs > MaxBlockTxs \<or> sum_list (map (\<lambda>tx. length (tx_Payload tx)) txs) > MaxBlockBytes
      then None else spec_txs valid txs \<sigma>)"

subsection \<open>Reducers as sequences of writes\<close>

lemma putAll_Cons: "putAll put (w # ws) t = andThen (put (fst w) (snd w) t) (putAll put ws)"
  by (simp add: andThen_def)

lemma putAll_append: "putAll put (ws @ us) t = andThen (putAll put ws t) (putAll put us)"
  by (induction ws arbitrary: t) (auto split: sum.splits)

lemma putAll_single: "putAll put [w] t = put (fst w) (snd w) t"
  by (simp split: sum.splits)

lemma putCoC_putAll:
  "putCoC h i cs t =
    putAll txn_Put (map (\<lambda>(i, c). (keyCoC h (of_nat i), be_bytes 32 (coc_RefHash c))) (enumerate i cs)) t"
proof (induction cs arbitrary: i t)
  case (Cons c cs)
  then show ?case by (auto simp: andThen_def split: sum.splits)
qed simp

lemma nextCount_view: "nextCount m pid t = countOf (txn_view m t) pid + 1"
  by (simp add: nextCount_def countOf_def txn_view_def Let_def split: option.splits)

lemma andThen_cong: "(\<And>t'. r = Inr t' \<Longrightarrow> f t' = g t') \<Longrightarrow> andThen r f = andThen r g"
  by (cases r) auto

lemma andThen_assoc: "andThen (andThen r f) g = andThen r (\<lambda>t. andThen (f t) g)"
  by (cases r) auto

lemma payloadWrites_other_keys:
  "keyProducerCnt pid \<notin> set (map fst (payloadWrites tx))"
  "keyNonce pid nonce \<notin> set (map fst (payloadWrites tx))"
  "keyProducerLast pid \<notin> set (map fst (payloadWrites tx))"
  by (cases tx; auto simp: in_set_enumerate_eq)+

lemma metaWrites_run:
  assumes "countOf (txn_view m t) (env_ProducerID e) = countOf \<sigma> (env_ProducerID e)" and "e = tx_Envelope tx"
  shows "andThen (txn_Put (keyProducerLast (env_ProducerID e)) (i64 (tx_Timestamp tx)) t) (\<lambda>t.
      andThen (txn_Put (keyProducerCnt (env_ProducerID e)) (u64_bytes (nextCount m (env_ProducerID e) t)) t) (\<lambda>t.
      txn_Put (keyNonce (env_ProducerID e) (env_Nonce e)) (be_bytes 32 (env_ContentHash e)) t))
    = putAll txn_Put (metaWrites \<sigma> tx) t"
proof -
  have "nextCount m (env_ProducerID e) t' = countOf \<sigma> (env_ProducerID e) + 1"
    if "txn_Put (keyProducerLast (env_ProducerID e)) (i64 (tx_Timestamp tx)) t = Inr t'" for t'
    using tx.look_put [OF that, of m] assms(1) by (simp add: nextCount_view countOf_def)
  then show ?thesis
    by (simp add: metaWrites_def Let_def assms(2) nonceKey_def hashBytes_def andThen_def split: sum.splits)
qed

text \<open>What a reducer does is the sequence of writes of the specification.\<close>

lemma reduce_putAll:
  "reduce m tx t = putAll txn_Put (payloadWrites tx @ metaWrites (txn_view m t) tx) t"
proof -
  let ?pid = "env_ProducerID (tx_Envelope tx)"
  have count: "countOf (txn_view m t') ?pid = countOf (txn_view m t) ?pid"
    if "putAll txn_Put (payloadWrites tx) t = Inr t'" for t'
    using tx.putAll_look [OF that, of m] payloadWrites_other_keys(1) [of ?pid tx]
    by (simp add: countOf_def overwrite_other)
  have "reduce m tx t = andThen (putAll txn_Put (payloadWrites tx) t) (\<lambda>t'.
      andThen (txn_Put (keyProducerLast ?pid) (i64 (tx_Timestamp tx)) t') (\<lambda>t.
      andThen (txn_Put (keyProducerCnt ?pid) (u64_bytes (nextCount m ?pid t)) t) (\<lambda>t.
      txn_Put (keyNonce ?pid (env_Nonce (tx_Envelope tx))) (be_bytes 32 (env_ContentHash (tx_Envelope tx))) t)))"
    by (cases tx) (simp_all add: ApplyEvent_def ApplyEvidence_def ApplyPolicy_def Let_def andThen_assoc
        putCoC_putAll putAll_Cons putAll_append andThen_def [symmetric])
  also have "\<dots> = andThen (putAll txn_Put (payloadWrites tx) t) (putAll txn_Put (metaWrites (txn_view m t) tx))"
    by (intro andThen_cong metaWrites_run count refl)
  finally show ?thesis by (simp add: putAll_append)
qed

subsection \<open>Execution refines the specification\<close>

lemma validateCommon_ok:
  assumes "validateCommon sha256 now skew ts data e = None"
  shows "length data \<le> MaxTxPayloadSize" "length (env_ProducerID e) \<le> MaxProducerIDSize"
    "length (env_Nonce e) = NonceSize" "env_ContentHash e = sha256 data"
  using assms by (auto simp: validateCommon_def ValidateSize_def ContentHash_def split: option.splits if_splits)

lemma tx_Validate_common:
  "tx_Validate sha256 now skew tx = None \<Longrightarrow>
    validateCommon sha256 now skew (tx_Timestamp tx) (tx_Payload tx) (tx_Envelope tx) = None"
  by (cases tx) (auto simp: event_Validate_def evidence_Validate_def policy_Validate_def split: option.splits)

lemmas tx_Validate_ok = validateCommon_ok [OF tx_Validate_common]

lemmas size_limits = MaxTxPayloadSize_def MaxProducerIDSize_def NonceSize_def MaxStateKeySize_def MaxStateValueSize_def

lemma payloadWrites_legal:
  "length (tx_Payload tx) \<le> MaxStateValueSize \<Longrightarrow> list_all legalWrite (payloadWrites tx)"
  by (cases tx) (auto simp: legalWrite_def keySizeOk_def key_lengths size_limits list_all_iff key_prefixes
      split: prod.splits)

lemma writes_legal:
  assumes "tx_Validate sha256 now skew tx = None"
  shows "list_all legalWrite (payloadWrites tx @ metaWrites \<sigma> tx)"
proof -
  have "list_all legalWrite (metaWrites \<sigma> tx)"
    using tx_Validate_ok(2,3) [OF assms]
    by (auto simp: metaWrites_def Let_def legalWrite_def keySizeOk_def nonceKey_def hashBytes_def
        key_lengths key_prefixes size_limits i64_def u64_bytes_def)
  moreover have "list_all legalWrite (payloadWrites tx)"
    using tx_Validate_ok(1) [OF assms] by (intro payloadWrites_legal) (simp add: size_limits)
  ultimately show ?thesis by simp
qed

lemma view_nonempty:
  assumes "store_inv sha256 m" and "txn_inv t" and "txn_Get m k t = Some v"
  shows "v \<noteq> []"
proof (cases "map_of (tx_writes t) k")
  case None
  then obtain snap where "map_of (ms_snaps m) (tx_baseVersion t) = Some snap" "map_of snap k = Some v"
    using assms(3) by (auto simp: txn_Get_def store_Get_def split: option.splits)
  then show ?thesis
    using store_inv_snap [OF assms(1)] by (auto simp: snap_inv_def dest: gm_all_get)
next
  case (Some w)
  then show ?thesis
    using assms by (auto simp: txn_Get_def txn_inv_def dest: gm_all_get)
qed

definition validAt :: "sha \<Rightarrow> instant \<Rightarrow> duration \<Rightarrow> transaction \<Rightarrow> bool" where
  "validAt sha256 now skew tx \<longleftrightarrow> tx_Validate sha256 now skew tx = None"

lemma execTx_refines:
  assumes "store_inv sha256 m" and "txn_inv t"
  shows "case execTx sha256 now skew m tx t of
      Failed c e \<Rightarrow> c = ExecCodeInvalid \<and> spec_tx (validAt sha256 now skew) tx (txn_view m t) = None
    | Skipped \<Rightarrow> spec_tx (validAt sha256 now skew) tx (txn_view m t) = Some (txn_view m t)
    | Applied t' \<Rightarrow> txn_inv t' \<and> tx_baseVersion t' = tx_baseVersion t
        \<and> spec_tx (validAt sha256 now skew) tx (txn_view m t) = Some (txn_view m t')"
proof (cases "tx_Validate sha256 now skew tx")
  case None
  obtain t' where t': "reduce m tx t = Inr t'" "txn_inv t'"
      "txn_view m t' = overwrite go_copy (payloadWrites tx @ metaWrites (txn_view m t) tx) (txn_view m t)"
    using tx.putAll_run [OF writes_legal [OF None, of "txn_view m t"] assms(2), of m] by (auto simp: reduce_putAll)
  moreover have "tx_baseVersion t' = tx_baseVersion t"
    using t'(1) putAll_base by (metis reduce_putAll)
  ultimately show ?thesis
    using None view_nonempty [OF assms]
    by (auto simp: execTx_def spec_tx_def validAt_def Let_def nonceKey_def txn_view_def [abs_def] split: option.splits)
next
  case (Some e)
  then show ?thesis by (simp add: execTx_def spec_tx_def validAt_def)
qed

definition noReducerError :: "receipt list \<Rightarrow> bool" where
  "noReducerError rs \<longleftrightarrow> (\<forall>r \<in> set rs. rc_Code r \<noteq> ExecCodeReducerError)"

lemma noReducerError_update: "noReducerError rs \<Longrightarrow> rc_Code r \<noteq> ExecCodeReducerError \<Longrightarrow> noReducerError (rs[i := r])"
  by (auto simp: noReducerError_def dest: set_update_subset_insert [THEN subsetD])

lemma execTxs_refines:
  assumes "store_inv sha256 m" and "txn_inv t" and "noReducerError rs"
    and "execTxs sha256 now skew m i txs rs t = (res, rs')"
  shows "noReducerError rs' \<and> length rs' = length rs \<and>
    (case res of
       Inl e \<Rightarrow> spec_txs (validAt sha256 now skew) txs (txn_view m t) = None
     | Inr t' \<Rightarrow> txn_inv t' \<and> tx_baseVersion t' = tx_baseVersion t
         \<and> spec_txs (validAt sha256 now skew) txs (txn_view m t) = Some (txn_view m t'))"
  using assms(2-)
proof (induction txs arbitrary: i rs t)
  case (Cons tx txs)
  let ?r = "receiptFor i tx"
  have ok: "noReducerError (rs[i := ?r])" "noReducerError (rs[i := ?r\<lparr>rc_Code := ExecCodeInvalid, rc_Error := err\<rparr>])" for err
    using Cons.prems(2) by (auto intro!: noReducerError_update simp: receiptFor_def)
  show ?case
  proof (cases "execTx sha256 now skew m tx t")
    case (Applied t')
    then show ?thesis
      using execTx_refines [OF assms(1) Cons.prems(1), of now skew tx] Cons.prems Cons.IH [OF _ ok(1), of t' "Suc i"]
      by (auto split: sum.splits)
  next
    case Skipped
    then show ?thesis
      using execTx_refines [OF assms(1) Cons.prems(1), of now skew tx] Cons.prems Cons.IH [OF _ ok(1), of t "Suc i"]
      by (auto split: sum.splits)
  next
    case (Failed c e)
    then show ?thesis
      using execTx_refines [OF assms(1) Cons.prems(1), of now skew tx] Cons.prems ok(2) by auto
  qed
qed auto

text \<open>The latest state of a store, as the map the specification works on.\<close>

definition latestMap :: "memStore \<Rightarrow> kvMap" where
  "latestMap m = (\<lambda>key. store_Get (ms_latest m) key m)"

lemma ApplyBlock_cases:
  assumes "store_inv sha256 m" and "iter_order ord" and "ApplyBlock sha256 ord now skew txs m = (res, rs, m')"
  obtains e where "res = Inl e" "m' = m" "spec_block (validAt sha256 now skew) txs (latestMap m) = None"
      "noReducerError rs" "length rs = length txs"
    | t r where "res = Inr (ms_latest m + 1, r)" "txn_inv t" "store_inv sha256 m'"
      "txn_Commit sha256 ord (ms_latest m + 1) t m = (Inr r, m')"
      "spec_block (validAt sha256 now skew) txs (latestMap m) = Some (latestMap m')"
      "noReducerError rs" "length rs = length txs"
proof (cases "length txs > MaxBlockTxs \<or> sum_list (map (\<lambda>tx. length (tx_Payload tx)) txs) > MaxBlockBytes")
  case True
  then have "ApplyBlock sha256 ord now skew txs m = (Inl ErrBlockTooLarge, replicate (length txs) zeroReceipt, m)"
    by (auto simp: ApplyBlock_def Let_def)
  then show thesis
    using assms(3) True by (intro that(1)) (auto simp: spec_block_def noReducerError_def zeroReceipt_def)
next
  case False
  let ?t = "\<lparr>tx_baseVersion = ms_latest m, tx_writes = []\<rparr> :: txn"
  have beg: "store_Begin (ms_latest m) m = Inr ?t"
    using assms(1) by (rule store_Begin_latest)
  note view = store_Begin_view [OF beg]
  obtain out rs' where run: "execTxs sha256 now skew m 0 txs (replicate (length txs) zeroReceipt) ?t = (out, rs')"
    by fastforce
  have "noReducerError (replicate (length txs) zeroReceipt)"
    by (simp add: noReducerError_def zeroReceipt_def)
  from execTxs_refines [OF assms(1) view(3) this run] have
    exec: "noReducerError rs'" "length rs' = length txs"
      "case out of Inl e \<Rightarrow> spec_block (validAt sha256 now skew) txs (latestMap m) = None
       | Inr t' \<Rightarrow> txn_inv t' \<and> tx_baseVersion t' = ms_latest m
           \<and> spec_block (validAt sha256 now skew) txs (latestMap m) = Some (txn_view m t')"
    using False view(4) by (auto simp: spec_block_def latestMap_def split: sum.splits)
  show thesis
  proof (cases out)
    case (Inl e)
    then show thesis
      using assms(3) False beg run exec by (intro that(1)) (auto simp: ApplyBlock_def Let_def)
  next
    case (Inr t)
    then obtain r n where commit: "txn_Commit sha256 ord (ms_latest m + 1) t m = (Inr r, n)"
      using exec(3) by (auto simp: txn_Commit_def Let_def)
    then have "res = Inr (ms_latest m + 1, r)" "m' = n" "rs = rs'"
      using assms(3) False beg run Inr by (auto simp: ApplyBlock_def Let_def)
    moreover have "store_inv sha256 n" "latestMap n = txn_view m t"
      using exec(3) Inr txn_Commit_inv [OF assms(2,1) _ commit] txn_Commit_view(3,4) [OF assms(1) _ commit]
      by (auto simp: latestMap_def)
    ultimately show thesis
      using exec Inr commit by (intro that(2)) auto
  qed
qed

text \<open>
  C9. Executing a block refines the abstract state machine: \<^verbatim>\<open>ApplyBlock\<close> succeeds exactly on
  the blocks the specification accepts, its new latest version is then the state the specification
  computes, with its Merkle root stored, and on the other blocks it fails and changes nothing.
\<close>

theorem ApplyBlock_refines:
  assumes "store_inv sha256 m" and "iter_order ord"
    and "ApplyBlock sha256 ord now skew txs m = (res, rs, m')"
  shows "case spec_block (validAt sha256 now skew) txs (latestMap m) of
      None \<Rightarrow> isl res \<and> m' = m
    | Some \<sigma> \<Rightarrow> \<exists>r. res = Inr (ms_latest m + 1, r) \<and> ms_latest m' = ms_latest m + 1
        \<and> latestMap m' = \<sigma> \<and> store_Root (ms_latest m') m' = Some r \<and> store_inv sha256 m'"
  using assms
proof (cases rule: ApplyBlock_cases)
  case (1 e)
  then show ?thesis by simp
next
  case (2 t r)
  then show ?thesis
    using txn_Commit_view(3,6) [OF assms(1) 2(2,4)] by simp
qed

text \<open>
  A block touches no other version than the one it creates, and a transaction that
  passed its checks never fails in a reducer: no receipt has the code of a reducer error.
\<close>

theorem ApplyBlock_frame:
  assumes "store_inv sha256 m" and "iter_order ord"
    and "ApplyBlock sha256 ord now skew txs m = (res, rs, m')" and "v \<noteq> ms_latest m + 1"
  shows "store_Get v key m' = store_Get v key m \<and> store_Root v m' = store_Root v m
    \<and> length rs = length txs \<and> ExecCodeReducerError \<notin> rc_Code ` set rs"
  using assms(1-3)
proof (cases rule: ApplyBlock_cases)
  case (1 e)
  then show ?thesis by (auto simp: noReducerError_def)
next
  case (2 t r)
  then show ?thesis
    using txn_Commit_view(5,7) [OF assms(1) 2(2,4)] assms(4) by (auto simp: noReducerError_def)
qed

subsection \<open>Determinism and replay\<close>

lemma store_Root_latest:
  assumes "store_inv sha256 m"
  obtains snap where "map_of (ms_snaps m) (ms_latest m) = Some snap" "gm_wf snap"
    "latestMap m = map_of snap" "store_Root (ms_latest m) m = Some (rootOf sha256 snap)"
proof -
  obtain snap where snap: "map_of (ms_snaps m) (ms_latest m) = Some snap"
    using assms by (auto simp: store_inv_def)
  then show thesis
    using store_inv_snap [OF assms snap] assms
    by (intro that [OF snap]) (auto simp: snap_inv_def latestMap_def store_Get_def store_Root_def store_inv_def)
qed

lemma same_map_same_root:
  assumes "store_inv sha256 m" and "store_inv sha256 n" and "latestMap m = latestMap n"
  shows "store_Root (ms_latest m) m = store_Root (ms_latest n) n"
proof -
  obtain a where a: "gm_wf a" "latestMap m = map_of a" "store_Root (ms_latest m) m = Some (rootOf sha256 a)"
    using store_Root_latest [OF assms(1)] .
  obtain b where b: "gm_wf b" "latestMap n = map_of b" "store_Root (ms_latest n) n = Some (rootOf sha256 b)"
    using store_Root_latest [OF assms(2)] .
  show ?thesis using a b assms(3) rootOf_map [OF a(1) b(1)] by simp
qed

text \<open>
  Replicas agree: two stores with the same latest version and contents, given the same block and
  the same clock, both refuse it, or both reach the same version with the same root, whatever
  order Go's maps are visited in on either.
\<close>

theorem ApplyBlock_deterministic:
  assumes "store_inv sha256 m" and "store_inv sha256 n" and "iter_order ord" and "iter_order ord'"
    and "ms_latest m = ms_latest n" and "latestMap m = latestMap n"
    and "ApplyBlock sha256 ord now skew txs m = (res, rs, m')"
    and "ApplyBlock sha256 ord' now skew txs n = (res', rs', n')"
  shows "isl res \<and> isl res' \<and> m' = m \<and> n' = n \<or> \<not> isl res \<and> res = res' \<and> latestMap m' = latestMap n'"
  using assms(1,3,7)
proof (cases rule: ApplyBlock_cases)
  case (1 e)
  note one = 1
  show ?thesis
    using assms(2,4,8)
  proof (cases rule: ApplyBlock_cases)
    case (1 e')
    then show ?thesis using one by simp
  next
    case (2 t r)
    then show ?thesis using one assms(6) by simp
  qed
next
  case (2 t r)
  note one = 2
  show ?thesis
    using assms(2,4,8)
  proof (cases rule: ApplyBlock_cases)
    case (1 e')
    then show ?thesis using one assms(6) by simp
  next
    case (2 t' r')
    have "latestMap m' = latestMap n'" using one 2 assms(6) by simp
    moreover have "store_Root (ms_latest m') m' = store_Root (ms_latest n') n'"
      using one 2 calculation by (intro same_map_same_root) auto
    ultimately show ?thesis
      using txn_Commit_view(3,6) [OF assms(1) one(2,4)] txn_Commit_view(3,6) [OF assms(2) 2(2,4)] one 2 assms(5)
      by simp
  qed
qed

lemma hashFrom_be_bytes [simp]: "hashFrom (be_bytes 32 h) = h"
proof -
  have "be_value (be_bytes 32 h) = unat h"
    using unsigned_less [of h, where ?'a = nat] by (simp add: be_value_be_bytes)
  then show ?thesis by (simp add: hashFrom_def)
qed

lemma hashBytes_nonempty [simp]: "be_bytes 32 h \<noteq> []" "hashBytes tx \<noteq> []"
  by (auto simp: hashBytes_def dest: arg_cong [where f = length])

lemma overwrite_append: "overwrite nrm (ws @ us) \<sigma> = overwrite nrm us (overwrite nrm ws \<sigma>)"
  by (induction ws arbitrary: \<sigma>) auto

lemma spec_tx_nonce_known:
  assumes "spec_tx valid tx \<sigma> = Some \<sigma>'"
  shows "\<exists>v. \<sigma>' (nonceKey tx) = Some v \<and> hashFrom v = env_ContentHash (tx_Envelope tx)"
  using assms
  by (auto simp: spec_tx_def overwrite_append metaWrites_def Let_def go_copy_def split: if_splits option.splits)
    (simp_all add: hashBytes_def)

lemma metaWrites_nonce:
  "keyNonce p n \<noteq> nonceKey tx \<Longrightarrow> keyNonce p n \<notin> set (map fst (metaWrites \<sigma> tx))"
  by (auto simp: metaWrites_def Let_def)

lemma spec_tx_nonce_kept:
  assumes "spec_tx valid tx \<sigma> = Some \<sigma>'" and "\<sigma> (keyNonce p n) = Some v"
  shows "\<sigma>' (keyNonce p n) = Some v"
proof (cases "\<sigma> (nonceKey tx)")
  case None
  then have "keyNonce p n \<noteq> nonceKey tx" using assms(2) by auto
  then show ?thesis
    using assms None metaWrites_nonce [of p n tx] payloadWrites_other_keys(2) [of p n tx]
    by (auto simp: spec_tx_def overwrite_other overwrite_append split: if_splits)
next
  case (Some w)
  then show ?thesis using assms by (auto simp: spec_tx_def split: if_splits)
qed

lemma spec_txs_nonce_kept:
  "spec_txs valid txs \<sigma> = Some \<sigma>' \<Longrightarrow> \<sigma> (keyNonce p n) = Some v \<Longrightarrow> \<sigma>' (keyNonce p n) = Some v"
  by (induction txs arbitrary: \<sigma>) (auto simp: Option.bind_eq_Some_conv dest: spec_tx_nonce_kept)

lemma spec_txs_nonce_known:
  "spec_txs valid txs \<sigma> = Some \<sigma>' \<Longrightarrow> tx \<in> set txs \<Longrightarrow>
    \<exists>v. \<sigma>' (nonceKey tx) = Some v \<and> hashFrom v = env_ContentHash (tx_Envelope tx)"
proof (induction txs arbitrary: \<sigma>)
  case (Cons a txs)
  then obtain \<tau> where "spec_tx valid a \<sigma> = Some \<tau>" "spec_txs valid txs \<tau> = Some \<sigma>'"
    by (auto simp: Option.bind_eq_Some_conv)
  then show ?case
    using Cons spec_tx_nonce_known [of valid a \<sigma> \<tau>] spec_txs_nonce_kept [of valid txs \<tau> \<sigma>']
    by (auto simp: nonceKey_def)
qed simp

lemma spec_txs_all_known:
  assumes "list_all valid txs"
    and "\<And>tx. tx \<in> set txs \<Longrightarrow> \<exists>v. \<sigma> (nonceKey tx) = Some v \<and> hashFrom v = env_ContentHash (tx_Envelope tx)"
  shows "spec_txs valid txs \<sigma> = Some \<sigma>"
  using assms
proof (induction txs)
  case (Cons tx txs)
  then obtain v where "\<sigma> (nonceKey tx) = Some v" "hashFrom v = env_ContentHash (tx_Envelope tx)"
    by (meson list.set_intros(1))
  then show ?case using Cons by (simp add: spec_tx_def)
qed simp

text \<open>
  Replaying a block that has been executed is harmless: as long as the clock still accepts its
  transactions, it succeeds, every transaction is skipped, and the new version has the contents
  and the root of the previous one.
\<close>

theorem ApplyBlock_replay_idempotent:
  assumes "store_inv sha256 m" and "iter_order ord" and "iter_order ord'"
    and "ApplyBlock sha256 ord now skew txs m = (Inr (v, r), rs, m')"
    and "list_all (validAt sha256 now' skew') txs"
    and "ApplyBlock sha256 ord' now' skew' txs m' = (res, rs', m'')"
  shows "res = Inr (v + 1, r) \<and> latestMap m'' = latestMap m'"
  using assms(1,2,4)
proof (cases rule: ApplyBlock_cases)
  case (2 t r')
  have v: "v = ms_latest m + 1" "r' = r" "ms_latest m' = v" "store_Root v m' = Some r"
    using 2(1) txn_Commit_view(3,6) [OF assms(1) 2(2,4)] by auto
  have size: "\<not> (length txs > MaxBlockTxs \<or> sum_list (map (\<lambda>tx. length (tx_Payload tx)) txs) > MaxBlockBytes)"
    and run: "spec_txs (validAt sha256 now skew) txs (latestMap m) = Some (latestMap m')"
    using 2(5) by (auto simp: spec_block_def split: if_splits)
  have again: "spec_block (validAt sha256 now' skew') txs (latestMap m') = Some (latestMap m')"
    using size assms(5) spec_txs_nonce_known [OF run] by (simp add: spec_block_def spec_txs_all_known)
  show ?thesis
    using 2(3) assms(3,6)
  proof (cases rule: ApplyBlock_cases)
    case (2 t2 r2)
    then have "latestMap m'' = latestMap m'" using again by simp
    moreover have "store_Root (ms_latest m'') m'' = store_Root (ms_latest m') m'"
      using \<open>store_inv sha256 m'\<close> 2(3) calculation by (intro same_map_same_root) auto
    ultimately show ?thesis
      using v 2 txn_Commit_view(3,6) [OF \<open>store_inv sha256 m'\<close> 2(2,4)] by simp
  qed (simp add: again)
qed simp

subsection \<open>Reachable stores\<close>

text \<open>
  An entry is in order when a payload is filed under its own hash and nonces and the head of the
  policies hold 32-byte hashes.
\<close>

definition entry_ok :: "sha \<Rightarrow> bytes \<Rightarrow> bytes \<Rightarrow> bool" where
  "entry_ok sha256 k d \<longleftrightarrow>
     (\<forall>h. k = keyEvent h \<or> k = keyEvidence h \<or> k = keyPolicy h \<longrightarrow> sha256 d = h) \<and>
     (\<forall>p n. k = keyNonce p n \<longrightarrow> length d = 32) \<and> (k = keyPolicyHead \<longrightarrow> length d = 32)"

definition good_map :: "sha \<Rightarrow> kvMap \<Rightarrow> bool" where
  "good_map sha256 \<sigma> \<longleftrightarrow> (\<forall>k d. \<sigma> k = Some d \<longrightarrow> entry_ok sha256 k d)"

lemma good_overwrite:
  "good_map sha256 \<sigma> \<Longrightarrow> \<forall>(k, d) \<in> set ws. entry_ok sha256 k d \<Longrightarrow> good_map sha256 (overwrite go_copy ws \<sigma>)"
proof (induction ws arbitrary: \<sigma>)
  case (Cons w ws)
  have "good_map sha256 (\<sigma>(fst w := go_copy (snd w)))"
    using Cons.prems by (cases w) (auto simp: good_map_def go_copy_def)
  then show ?case using Cons by simp
qed simp

lemma writes_entry_ok:
  assumes "validAt sha256 now skew tx"
  shows "\<forall>(k, d) \<in> set (payloadWrites tx @ metaWrites \<sigma> tx). entry_ok sha256 k d"
proof -
  have "env_ContentHash (tx_Envelope tx) = sha256 (tx_Payload tx)"
    using assms tx_Validate_ok(4) by (simp add: validAt_def)
  then have "\<forall>(k, d) \<in> set (payloadWrites tx). entry_ok sha256 k d"
    by (cases tx) (auto simp: entry_ok_def)
  moreover have "\<forall>(k, d) \<in> set (metaWrites \<sigma> tx). entry_ok sha256 k d"
    by (auto simp: entry_ok_def metaWrites_def Let_def nonceKey_def hashBytes_def)
  ultimately show ?thesis by auto
qed

lemma spec_txs_good:
  "spec_txs (validAt sha256 now skew) txs \<sigma> = Some \<sigma>' \<Longrightarrow> good_map sha256 \<sigma> \<Longrightarrow> good_map sha256 \<sigma>'"
proof (induction txs arbitrary: \<sigma>)
  case (Cons tx txs)
  then obtain \<tau> where \<tau>: "spec_tx (validAt sha256 now skew) tx \<sigma> = Some \<tau>"
      "spec_txs (validAt sha256 now skew) txs \<tau> = Some \<sigma>'"
    by (auto simp: Option.bind_eq_Some_conv)
  have "good_map sha256 \<tau>"
    using \<tau>(1) Cons.prems(2) good_overwrite [OF Cons.prems(2) writes_entry_ok]
    by (auto simp: spec_tx_def split: if_splits option.splits)
  then show ?case using \<tau>(2) by (rule Cons.IH [rotated])
qed simp

inductive store_step :: "sha \<Rightarrow> memStore \<Rightarrow> memStore \<Rightarrow> bool" for sha256 where
  apply_block: "iter_order ord \<Longrightarrow> ApplyBlock sha256 ord now skew txs m = (res, rs, m') \<Longrightarrow> store_step sha256 m m'"
| prune: "store_step sha256 m (PruneRetain retain m)"

definition machine_inv :: "sha \<Rightarrow> memStore \<Rightarrow> bool" where
  "machine_inv sha256 m \<longleftrightarrow> store_inv sha256 m \<and> (\<forall>v. good_map sha256 (\<lambda>k. store_Get v k m))"

lemma NewMemStore_good [inv_intros]: "machine_inv sha256 (NewMemStore sha256)"
  by (auto simp: machine_inv_def good_map_def NewMemStore_inv) (auto simp: NewMemStore_def store_Get_def split: if_splits)

lemma PruneRetain_Get:
  assumes "store_inv sha256 m"
  shows "store_Get v k (PruneRetain retain m) = Some d \<Longrightarrow> store_Get v k m = Some d"
    and "store_Get (ms_latest m) k (PruneRetain retain m) = store_Get (ms_latest m) k m"
  using fold_dropVersion [OF assms] by (auto simp: PruneRetain_def store_Get_def Let_def split: if_splits option.splits)

lemma ApplyBlock_latest_spec:
  assumes "store_inv sha256 m" and "iter_order ord" and "ApplyBlock sha256 ord now skew txs m = (res, rs, m')"
  shows "m' = m \<or> store_inv sha256 m' \<and> ms_latest m' = ms_latest m + 1 \<and>
    spec_txs (validAt sha256 now skew) txs (latestMap m) = Some (latestMap m') \<and>
    (\<forall>v k. v \<noteq> ms_latest m + 1 \<longrightarrow> store_Get v k m' = store_Get v k m)"
  using assms
proof (cases rule: ApplyBlock_cases)
  case (2 t r)
  then show ?thesis
    using txn_Commit_view(3,5) [OF assms(1) 2(2,4)] by (auto simp: spec_block_def split: if_splits)
qed simp

lemma store_step_inv:
  assumes "store_step sha256 m m'" and "machine_inv sha256 m"
  shows "machine_inv sha256 m'"
  using assms
proof (cases rule: store_step.cases)
  case (apply_block ord now skew txs res rs)
  have "store_inv sha256 m" using assms(2) by (simp add: machine_inv_def)
  from ApplyBlock_latest_spec [OF this apply_block] show ?thesis
  proof
    assume new: "store_inv sha256 m' \<and> ms_latest m' = ms_latest m + 1 \<and>
      spec_txs (validAt sha256 now skew) txs (latestMap m) = Some (latestMap m') \<and>
      (\<forall>v k. v \<noteq> ms_latest m + 1 \<longrightarrow> store_Get v k m' = store_Get v k m)"
    have "good_map sha256 (latestMap m)"
      using assms(2) by (simp add: machine_inv_def latestMap_def)
    then have good: "good_map sha256 (latestMap m')"
      using new spec_txs_good by blast
    have "good_map sha256 (\<lambda>k. store_Get v k m')" for v
      using good new assms(2) by (cases "v = ms_latest m'") (auto simp: machine_inv_def latestMap_def)
    then show ?thesis
      using new by (simp add: machine_inv_def)
  qed (use assms in simp)
next
  case (prune retain)
  then show ?thesis
    using assms(2) PruneRetain_inv PruneRetain_Get(1) by (fastforce simp: machine_inv_def good_map_def)
qed

interpretation machine: step_invariant "store_step sha256" "machine_inv sha256" for sha256
  by unfold_locales (rule store_step_inv)

text \<open>A nonce, once recorded, keeps its hash in the latest state.\<close>

lemma machine_inv_nonce:
  "machine_inv sha256 m \<Longrightarrow> store_Get v (keyNonce p n) m = Some d \<Longrightarrow> length d = 32"
  unfolding machine_inv_def good_map_def entry_ok_def by blast

lemma NonceMapping_latest:
  "machine_inv sha256 m \<Longrightarrow>
    NonceMapping (ms_latest m) p n m = Inr h \<longleftrightarrow> (\<exists>v. latestMap m (keyNonce p n) = Some v \<and> hashFrom v = h)"
  by (auto simp: NonceMapping_def latestMap_def dest: machine_inv_nonce split: option.splits)

lemma store_step_nonce:
  assumes "store_step sha256 m m'" and "machine_inv sha256 m" and "latestMap m (keyNonce p n) = Some v"
  shows "latestMap m' (keyNonce p n) = Some v"
  using assms(1)
proof (cases rule: store_step.cases)
  case (apply_block ord now skew txs res rs)
  have "store_inv sha256 m" using assms(2) by (simp add: machine_inv_def)
  from ApplyBlock_latest_spec [OF this apply_block] show ?thesis
    using assms(3) spec_txs_nonce_kept by metis
next
  case (prune retain)
  then show ?thesis
    using assms(2,3) PruneRetain_Get(2) [of sha256 m] PruneRetain_latest [of sha256 m]
    by (simp add: machine_inv_def latestMap_def)
qed

interpretation nonces: step_invariant "store_step sha256"
  "\<lambda>m. machine_inv sha256 m \<and> latestMap m (keyNonce p n) = Some v" for sha256 p n v
  by unfold_locales (auto intro: store_step_inv store_step_nonce)

text \<open>
  C21. Replay protection is permanent: in every run of the store from its creation, the hash a
  producer's nonce is bound to in the latest state never changes, through any number of blocks and
  prunings.
\<close>

theorem nonce_permanent:
  assumes "(store_step sha256)\<^sup>*\<^sup>* (NewMemStore sha256) m" and "(store_step sha256)\<^sup>*\<^sup>* m m'"
    and "NonceMapping (ms_latest m) p n m = Inr h"
  shows "NonceMapping (ms_latest m') p n m' = Inr h"
proof -
  have m: "machine_inv sha256 m"
    using assms(1) NewMemStore_good by (rule machine.run_keeps_inv)
  then obtain v where "latestMap m (keyNonce p n) = Some v" "hashFrom v = h"
    using assms(3) by (auto simp: NonceMapping_latest)
  then show ?thesis
    using nonces.run_keeps_inv [OF assms(2), of p n v] m by (auto simp: NonceMapping_latest)
qed

text \<open>
  In every reachable store the latest version is retained and every retained version passes
  \<^verbatim>\<open>VerifyRoot\<close>.
\<close>

theorem reachable_roots_verify:
  assumes "(store_step sha256)\<^sup>*\<^sup>* (NewMemStore sha256) m" and "iter_order ord"
  shows "ms_latest m \<in> set (ListVersions m) \<and> (VerifyRoot sha256 ord v m \<longleftrightarrow> v \<in> set (ListVersions m))"
proof -
  have inv: "store_inv sha256 m"
    using machine.run_keeps_inv [OF assms(1) NewMemStore_good] by (simp add: machine_inv_def)
  have "VerifyRoot sha256 ord v m \<longleftrightarrow> map_of (ms_snaps m) v \<noteq> None"
  proof (cases "map_of (ms_snaps m) v")
    case (Some snap)
    then show ?thesis
      using inv store_inv_snap [OF inv Some] assms(2)
      by (simp add: VerifyRoot_def store_inv_def snap_inv_def BuildRoot_ord)
  qed (simp add: VerifyRoot_def)
  then show ?thesis
    using ListVersions_char(3) [OF inv] inv by (auto simp: store_inv_def)
qed

text \<open>
  The store is content addressed: whatever a query by hash returns in a reachable store, at any
  retained version, has that hash; so has the latest policy.
\<close>

theorem queries_content_addressed:
  assumes "(store_step sha256)\<^sup>*\<^sup>* (NewMemStore sha256) m"
    and "EventByHash v h m = Inr d \<or> EvidenceByHash v h m = Inr d \<or> PolicyLatest v m = Inr (h, d)"
  shows "sha256 d = h"
proof -
  have "good_map sha256 (\<lambda>k. store_Get v k m)"
    using machine.run_keeps_inv [OF assms(1) NewMemStore_good] by (simp add: machine_inv_def)
  then show ?thesis
    using assms(2)
    by (auto simp: EventByHash_def EvidenceByHash_def PolicyLatest_def good_map_def entry_ok_def
        split: option.splits if_splits)
qed

subsection \<open>A run\<close>

definition ex_envelope :: "bytes \<Rightarrow> envelope" where
  "ex_envelope data = \<lparr>env_ProducerID = [112], env_Nonce = replicate 16 7, env_ContentHash = ex_sha data,
     env_Alg = ''ed25519'', env_PubKey = [1], env_Signature = [2]\<rparr>"

definition ex_event :: "bytes \<Rightarrow> transaction" where
  "ex_event data = Tx_Event \<lparr>ev_Ts = 0, ev_Data = data, ev_Env = ex_envelope data\<rparr>"

lemma ex_event_simps [simp]:
  "tx_Payload (ex_event data) = data" "tx_Envelope (ex_event data) = ex_envelope data"
  "tx_Timestamp (ex_event data) = 0"
  "payloadWrites (ex_event data) = [(keyEvent (ex_sha data), data)]"
  by (simp_all add: ex_event_def ex_envelope_def)

lemma ex_event_valid: "length data \<le> 100 \<Longrightarrow> validAt ex_sha 0 second (ex_event data)"
  by (simp add: validAt_def ex_event_def ex_envelope_def event_Validate_def validateCommon_def ValidateSize_def
      CheckSkew_def go_Unix_def go_Sub_def second_def millisecond_def size_limits MaxAlgSize_def ContentHash_def Let_def)

lemma ex_spec_block:
  "length data \<le> 100 \<Longrightarrow> spec_block (validAt ex_sha 0 second) [ex_event data] (\<lambda>k. None) =
    Some (overwrite go_copy (payloadWrites (ex_event data) @ metaWrites (\<lambda>k. None) (ex_event data)) (\<lambda>k. None))"
  by (simp add: spec_block_def MaxBlockTxs_def MaxBlockBytes_def spec_tx_def ex_event_valid)

lemma NewMemStore_latest [simp]: "latestMap (NewMemStore sha256) = (\<lambda>k. None)" "ms_latest (NewMemStore sha256) = 0"
  by (simp_all add: latestMap_def NewMemStore_def store_Get_def)

definition ex_after :: "bytes \<Rightarrow> memStore" where
  "ex_after data = snd (snd (ApplyBlock ex_sha id 0 second [ex_event data] (NewMemStore ex_sha)))"

lemma iter_order_id' [simp]: "iter_order id"
  by (simp add: iter_order_def)

theorem ApplyBlock_refines_witness:
  "ms_latest (ex_after [1, 2]) = 1 \<and> store_Get 1 (keyEvent (ex_sha [1, 2])) (ex_after [1, 2]) = Some [1, 2]
    \<and> store_inv ex_sha (ex_after [1, 2])"
proof -
  obtain res rs m' where run: "ApplyBlock ex_sha id 0 second [ex_event [1, 2]] (NewMemStore ex_sha) = (res, rs, m')"
    by (metis prod_cases3)
  have "latestMap m' (keyEvent (ex_sha [1, 2])) = Some [1, 2] \<and> ms_latest m' = 1 \<and> store_inv ex_sha m'"
    using ApplyBlock_refines [OF NewMemStore_inv iter_order_id' run]
    by (auto simp: ex_spec_block metaWrites_def Let_def nonceKey_def go_copy_def)
  then show ?thesis by (auto simp: ex_after_def run latestMap_def)
qed

definition ex_rec :: "bytes \<Rightarrow> receipt list" where
  "ex_rec data = fst (snd (ApplyBlock ex_sha id 0 second [ex_event data] (NewMemStore ex_sha)))"

lemma ex_after_run:
  assumes "length data \<le> 100"
  obtains r where "ApplyBlock ex_sha id 0 second [ex_event data] (NewMemStore ex_sha) = (Inr (1, r), ex_rec data, ex_after data)"
    and "store_inv ex_sha (ex_after data)" and "ms_latest (ex_after data) = 1"
    and "latestMap (ex_after data) =
      overwrite go_copy (payloadWrites (ex_event data) @ metaWrites (\<lambda>k. None) (ex_event data)) (\<lambda>k. None)"
proof -
  obtain res rs m' where run: "ApplyBlock ex_sha id 0 second [ex_event data] (NewMemStore ex_sha) = (res, rs, m')"
    by (metis prod_cases3)
  note inv = NewMemStore_inv [of ex_sha]
  show thesis
    using inv iter_order_id' run
  proof (cases rule: ApplyBlock_cases)
    case (1 e)
    then show thesis using assms by (simp add: ex_spec_block)
  next
    case (2 t r)
    then show thesis
      using txn_Commit_view(3) [OF inv 2(2,4)] run assms
      by (intro that) (auto simp: ex_after_def ex_rec_def ex_spec_block)
  qed
qed

lemma ex_after_map:
  assumes "length data \<le> 100"
  shows "latestMap (ex_after data) (keyNonce [112] (replicate 16 7)) = Some (be_bytes 32 (ex_sha data))"
    and "latestMap (ex_after data) (keyEvent (ex_sha data)) = go_copy data"
    and "ms_latest (ex_after data) = 1"
proof -
  obtain r where r: "ms_latest (ex_after data) = 1" "latestMap (ex_after data) =
      overwrite go_copy (payloadWrites (ex_event data) @ metaWrites (\<lambda>k. None) (ex_event data)) (\<lambda>k. None)"
    using ex_after_run [OF assms] by metis
  have key: "nonceKey (ex_event data) = keyNonce [112] (replicate 16 7)"
    by (simp only: nonceKey_def ex_event_simps ex_envelope_def envelope.select_convs)
  have "overwrite go_copy (metaWrites \<tau> (ex_event data)) \<sigma> (nonceKey (ex_event data)) = Some (hashBytes (ex_event data))" for \<sigma> \<tau>
    by (simp add: metaWrites_def Let_def go_copy_def)
  then show "latestMap (ex_after data) (keyNonce [112] (replicate 16 7)) = Some (be_bytes 32 (ex_sha data))"
    unfolding r(2) overwrite_append key by (simp add: hashBytes_def ex_envelope_def)
  have "keyEvent (ex_sha data) \<notin> set (map fst (metaWrites \<tau> (ex_event data)))" for \<tau>
    by (simp add: metaWrites_def Let_def nonceKey_def)
  then show "latestMap (ex_after data) (keyEvent (ex_sha data)) = go_copy data"
    unfolding r(2) overwrite_append by (simp add: overwrite_other)
qed (use ex_after_run [OF assms] in metis)

lemma ex_after_step: "store_step ex_sha (NewMemStore ex_sha) (ex_after data)"
  by (rule store_step.apply_block [OF iter_order_id'])
    (simp add: ex_after_def prod_eq_iff; metis prod.collapse)

lemma ex_after_run_to: "(store_step ex_sha)\<^sup>*\<^sup>* (NewMemStore ex_sha) (ex_after data)"
  using ex_after_step by (rule r_into_rtranclp)

lemma ex_after_nonce:
  assumes "length data \<le> 100"
  shows "NonceMapping (ms_latest (ex_after data)) [112] (replicate 16 7) (ex_after data) = Inr (ex_sha data)"
proof -
  have "machine_inv ex_sha (ex_after data)"
    using ex_after_step NewMemStore_good by (rule store_step_inv)
  then show ?thesis
    using ex_after_map(1) [OF assms] hashFrom_be_bytes NonceMapping_latest by metis
qed

theorem ApplyBlock_frame_witness:
  "store_Root 0 (ex_after [1, 2]) = Some (ex_sha []) \<and> length (ex_rec [1, 2]) = 1"
proof -
  obtain r where "ApplyBlock ex_sha id 0 second [ex_event [1, 2]] (NewMemStore ex_sha) =
      (Inr (1, r), ex_rec [1, 2], ex_after [1, 2])"
    using ex_after_run [of "[1, 2]"] by auto
  from ApplyBlock_frame [OF NewMemStore_inv iter_order_id' this, of 0] show ?thesis
    by (simp add: store_Root_def NewMemStore_def)
qed

theorem ApplyBlock_deterministic_witness:
  "fst (ApplyBlock ex_sha id 0 second [ex_event [1, 2]] (NewMemStore ex_sha)) =
   fst (ApplyBlock ex_sha rev 0 second [ex_event [1, 2]] (NewMemStore ex_sha))"
proof -
  obtain r where run: "ApplyBlock ex_sha id 0 second [ex_event [1, 2]] (NewMemStore ex_sha) =
      (Inr (1, r), ex_rec [1, 2], ex_after [1, 2])"
    using ex_after_run [of "[1, 2]"] by auto
  obtain res rs m' where "ApplyBlock ex_sha rev 0 second [ex_event [1, 2]] (NewMemStore ex_sha) = (res, rs, m')"
    by (metis prod_cases3)
  from ApplyBlock_deterministic [OF NewMemStore_inv NewMemStore_inv iter_order_id' iter_order_rev refl refl run this]
  show ?thesis using run \<open>ApplyBlock ex_sha rev 0 second _ _ = _\<close> by simp
qed

theorem ApplyBlock_replay_idempotent_witness:
  "\<exists>r. fst (ApplyBlock ex_sha id 0 second [ex_event [1, 2]] (NewMemStore ex_sha)) = Inr (1, r) \<and>
    fst (ApplyBlock ex_sha rev 0 second [ex_event [1, 2]] (ex_after [1, 2])) = Inr (2, r)"
proof -
  obtain r where run: "ApplyBlock ex_sha id 0 second [ex_event [1, 2]] (NewMemStore ex_sha) =
      (Inr (1, r), ex_rec [1, 2], ex_after [1, 2])"
    using ex_after_run [of "[1, 2]"] by auto
  obtain res rs m'' where again: "ApplyBlock ex_sha rev 0 second [ex_event [1, 2]] (ex_after [1, 2]) = (res, rs, m'')"
    by (metis prod_cases3)
  have "list_all (validAt ex_sha 0 second) [ex_event [1, 2]]"
    by (simp add: ex_event_valid)
  from ApplyBlock_replay_idempotent [OF NewMemStore_inv iter_order_id' iter_order_rev run this again]
  show ?thesis using run again by simp
qed

theorem nonce_permanent_witness:
  "NonceMapping (ms_latest (PruneRetain 1 (ex_after [1, 2]))) [112] (replicate 16 7) (PruneRetain 1 (ex_after [1, 2]))
    = Inr (ex_sha [1, 2])"
proof (rule nonce_permanent [OF ex_after_run_to [of "[1, 2]"]])
  show "(store_step ex_sha)\<^sup>*\<^sup>* (ex_after [1, 2]) (PruneRetain 1 (ex_after [1, 2]))"
    by (rule r_into_rtranclp) (rule store_step.prune)
  show "NonceMapping (ms_latest (ex_after [1, 2])) [112] (replicate 16 7) (ex_after [1, 2]) = Inr (ex_sha [1, 2])"
    by (rule ex_after_nonce) simp
qed

theorem reachable_roots_verify_witness: "VerifyRoot ex_sha rev 1 (ex_after [1, 2])"
proof -
  have "ms_latest (ex_after [1, 2]) = 1"
    using ex_after_map(3) by simp
  then show ?thesis
    using reachable_roots_verify [OF ex_after_run_to [of "[1, 2]"] iter_order_rev, of 1] by simp
qed

theorem queries_content_addressed_witness:
  "\<exists>d. EventByHash 1 (ex_sha [1, 2]) (ex_after [1, 2]) = Inr d \<and> ex_sha d = ex_sha [1, 2]"
proof -
  have "EventByHash 1 (ex_sha [1, 2]) (ex_after [1, 2]) = Inr [1, 2]"
    using ex_after_map(2,3) [of "[1, 2]"] by (simp add: EventByHash_def latestMap_def go_copy_def)
  then show ?thesis
    using queries_content_addressed [OF ex_after_run_to [of "[1, 2]"], of 1 "ex_sha [1, 2]" "[1, 2]"] by blast
qed

text \<open>
  An event without payload passes its checks and its block is executed, yet the event cannot be
  found afterwards: \<^verbatim>\<open>Txn.Put\<close> copies the empty slice to \<^verbatim>\<open>nil\<close>, which the
  transaction takes for a deletion.
\<close>

theorem empty_event_lost:
  "tx_Validate ex_sha 0 second (ex_event []) = None \<and>
   (\<exists>r rs m'. ApplyBlock ex_sha id 0 second [ex_event []] (NewMemStore ex_sha) = (Inr (1, r), rs, m') \<and>
      EventByHash 1 (ex_sha []) m' = Inl ErrNotFound \<and> NonceMapping 1 [112] (replicate 16 7) m' = Inr (ex_sha []))"
proof -
  have "NonceMapping 1 [112] (replicate 16 7) (ex_after []) = Inr (ex_sha [])"
    using ex_after_nonce [of "[]"] ex_after_map(3) [of "[]"] by (metis list.size(3) zero_le)
  moreover have "EventByHash 1 (ex_sha []) (ex_after []) = Inl ErrNotFound"
    using ex_after_map(2,3) [of "[]"] by (simp add: EventByHash_def latestMap_def go_copy_def)
  moreover obtain r where "ApplyBlock ex_sha id 0 second [ex_event []] (NewMemStore ex_sha) = (Inr (1, r), ex_rec [], ex_after [])"
    using ex_after_run [of "[]"] by auto
  moreover have "tx_Validate ex_sha 0 second (ex_event []) = None"
    using ex_event_valid [of "[]"] by (simp add: validAt_def)
  ultimately show ?thesis by blast
qed

end
