(* ===== verification/Heap.thy ===== *)
theory Heap
  imports Prelude
begin

text \<open>
  The binary heap of Go's \<^verbatim>\<open>container/heap\<close>, on a slice and with the element order \<open>lt\<close>
  of the client's \<^verbatim>\<open>Less\<close>: \<open>heap_up\<close> and \<open>heap_down\<close> are its two loops, \<open>heap_Push\<close> and
  \<open>heap_Pop\<close> the operations the mempool calls. Where \<open>lt\<close> is a strict weak order the
  operations keep the heap shape and the element at index 0 is a least one.
\<close>

definition swap :: "nat \<Rightarrow> nat \<Rightarrow> 'a list \<Rightarrow> 'a list" where
  "swap i j h = h[i := h ! j, j := h ! i]"

function heap_up :: "('a \<Rightarrow> 'a \<Rightarrow> bool) \<Rightarrow> nat \<Rightarrow> 'a list \<Rightarrow> 'a list" where
  "heap_up lt j h =
     (let i = (j - 1) div 2 in
      if i = j \<or> \<not> lt (h ! j) (h ! i) then h else heap_up lt i (swap i j h))"
  by auto
termination by (relation "measure (\<lambda>(lt, j, h). j)") auto

function heap_down :: "('a \<Rightarrow> 'a \<Rightarrow> bool) \<Rightarrow> nat \<Rightarrow> nat \<Rightarrow> 'a list \<Rightarrow> 'a list" where
  "heap_down lt i n h =
     (let j1 = 2 * i + 1 in
      if j1 \<ge> n then h
      else
        let j = (if j1 + 1 < n \<and> lt (h ! (j1 + 1)) (h ! j1) then j1 + 1 else j1) in
        if \<not> lt (h ! j) (h ! i) then h else heap_down lt j n (swap i j h))"
  by auto
termination by (relation "measure (\<lambda>(lt, i, n, h). n - i)") (auto split: if_splits)

declare heap_up.simps [simp del] heap_down.simps [simp del]

definition heap_Push :: "('a \<Rightarrow> 'a \<Rightarrow> bool) \<Rightarrow> 'a \<Rightarrow> 'a list \<Rightarrow> 'a list" where
  "heap_Push lt x h = heap_up lt (length h) (h @ [x])"

definition heap_Pop :: "('a \<Rightarrow> 'a \<Rightarrow> bool) \<Rightarrow> 'a list \<Rightarrow> 'a \<times> 'a list" where
  "heap_Pop lt h =
     (let n = length h - 1; h' = heap_down lt 0 n (swap 0 n h) in (last h', butlast h'))"

subsection \<open>Elements\<close>

lemma length_swap [simp]: "length (swap i j h) = length h"
  by (simp add: swap_def)

lemma mset_swap_list [simp]: "i < length h \<Longrightarrow> j < length h \<Longrightarrow> mset (swap i j h) = mset h"
  by (simp add: swap_def mset_swap)

lemma nth_swap:
  "i < length h \<Longrightarrow> j < length h \<Longrightarrow> k < length h \<Longrightarrow>
    swap i j h ! k = (if k = i then h ! j else if k = j then h ! i else h ! k)"
  by (auto simp: swap_def nth_list_update)

lemma heap_up_mset: "j < length h \<Longrightarrow> mset (heap_up lt j h) = mset h"
proof (induction lt j h rule: heap_up.induct)
  case (1 lt j h)
  let ?i = "(j - 1) div 2"
  show ?case
  proof (cases "?i = j \<or> \<not> lt (h ! j) (h ! ?i)")
    case False
    have "?i < length h" using 1(2) by simp
    then show ?thesis
      using 1(1) [OF refl False] 1(2) False by (subst heap_up.simps) (simp add: Let_def)
  qed (subst heap_up.simps, simp add: Let_def)
qed

definition smaller :: "('a \<Rightarrow> 'a \<Rightarrow> bool) \<Rightarrow> nat \<Rightarrow> nat \<Rightarrow> 'a list \<Rightarrow> nat" where
  "smaller lt i n h = (if 2 * i + 2 < n \<and> lt (h ! (2 * i + 2)) (h ! (2 * i + 1)) then 2 * i + 2 else 2 * i + 1)"

lemma heap_down_unfold:
  "heap_down lt i n h =
    (if n \<le> 2 * i + 1 \<or> \<not> lt (h ! smaller lt i n h) (h ! i) then h
     else heap_down lt (smaller lt i n h) n (swap i (smaller lt i n h) h))"
  by (subst heap_down.simps) (simp add: smaller_def Let_def)

lemma smaller_bounds: "2 * i + 1 < n \<Longrightarrow> i < smaller lt i n h \<and> smaller lt i n h < n"
  by (simp add: smaller_def)

lemma heap_down_elements:
  "i < n \<Longrightarrow> n \<le> length h \<Longrightarrow> mset (heap_down lt i n h) = mset h \<and> drop n (heap_down lt i n h) = drop n h"
proof (induction "n - i" arbitrary: i h rule: less_induct)
  case less
  let ?j = "smaller lt i n h"
  show ?case
  proof (cases "n \<le> 2 * i + 1 \<or> \<not> lt (h ! ?j) (h ! i)")
    case True
    then show ?thesis by (subst (1 2) heap_down_unfold) auto
  next
    case False
    then have j: "i < ?j" "?j < n" using smaller_bounds [of i n lt h] by auto
    have "drop n (swap i ?j h) = drop n h"
      using j less.prems by (simp add: swap_def)
    then show ?thesis
      using less.hyps [of ?j "swap i ?j h"] j less.prems False by (subst (1 2) heap_down_unfold) auto
  qed
qed

lemma mset_eq_length_heap_down [simp]: "i < n \<Longrightarrow> n \<le> length h \<Longrightarrow> length (heap_down lt i n h) = length h"
  using heap_down_elements [of i n h lt] mset_eq_length by blast

lemma mset_last_butlast: "xs \<noteq> [] \<Longrightarrow> mset xs = add_mset (last xs) (mset (butlast xs))"
  by (induction xs rule: rev_induct) auto

subsection \<open>Shape\<close>

definition heap_upto :: "('a \<Rightarrow> 'a \<Rightarrow> bool) \<Rightarrow> nat \<Rightarrow> 'a list \<Rightarrow> bool" where
  "heap_upto lt n h \<longleftrightarrow> (\<forall>k. 0 < k \<longrightarrow> k < n \<longrightarrow> \<not> lt (h ! k) (h ! ((k - 1) div 2)))"

abbreviation is_heap :: "('a \<Rightarrow> 'a \<Rightarrow> bool) \<Rightarrow> 'a list \<Rightarrow> bool" where
  "is_heap lt h \<equiv> heap_upto lt (length h) h"

lemma parent_iff: "0 < k \<Longrightarrow> (k - 1) div 2 = i \<longleftrightarrow> k = 2 * i + 1 \<or> k = 2 * i + 2"
  for k i :: nat
  by auto

locale weak_order =
  fixes lt :: "'a \<Rightarrow> 'a \<Rightarrow> bool"
  assumes asym: "lt x y \<Longrightarrow> \<not> lt y x"
    and ntrans: "\<not> lt y x \<Longrightarrow> \<not> lt z y \<Longrightarrow> \<not> lt z x"
begin

lemma heap_root_least: "heap_upto lt n h \<Longrightarrow> k < n \<Longrightarrow> \<not> lt (h ! k) (h ! 0)"
proof (induction k rule: less_induct)
  note One_nat_def [simp del]
  case (less k)
  show ?case
  proof (cases "k = 0")
    case True
    then show ?thesis using asym by blast
  next
    case False
    then have "\<not> lt (h ! ((k - 1) div 2)) (h ! 0)"
      using less by (intro less.IH) auto
    moreover have "\<not> lt (h ! k) (h ! ((k - 1) div 2))"
      using less.prems False by (simp add: heap_upto_def)
    ultimately show ?thesis by (rule ntrans)
  qed
qed

lemma smaller_least:
  assumes "2 * i + 1 < n" and "k = 2 * i + 1 \<or> k = 2 * i + 2" and "k < n"
  shows "\<not> lt (h ! k) (h ! smaller lt i n h)"
  using assms asym by (auto simp: smaller_def)

lemma heap_down_heap:
  assumes "i < n" and "n \<le> length h"
    and "\<And>k. 0 < k \<Longrightarrow> k < n \<Longrightarrow> (k - 1) div 2 \<noteq> i \<Longrightarrow> \<not> lt (h ! k) (h ! ((k - 1) div 2))"
    and "\<And>k. 0 < i \<Longrightarrow> 0 < k \<Longrightarrow> k < n \<Longrightarrow> (k - 1) div 2 = i \<Longrightarrow> \<not> lt (h ! k) (h ! ((i - 1) div 2))"
  shows "heap_upto lt n (heap_down lt i n h)"
  using assms
proof (induction "n - i" arbitrary: i h rule: less_induct)
  note One_nat_def [simp del]
  case less
  let ?j = "smaller lt i n h"
  note A = less.prems(3) and B = less.prems(4)
  show ?case
  proof (cases "n \<le> 2 * i + 1 \<or> \<not> lt (h ! ?j) (h ! i)")
    case True
    have "\<not> lt (h ! k) (h ! i)" if "0 < k" "k < n" "(k - 1) div 2 = i" for k
    proof -
      have k: "k = 2 * i + 1 \<or> k = 2 * i + 2" using that(3) unfolding parent_iff [OF that(1)] .
      then have lt: "2 * i + 1 < n" using that by auto
      then show ?thesis
        using True smaller_least [OF lt k that(2)] ntrans by (meson leD)
    qed
    then have "heap_upto lt n h"
      using A unfolding heap_upto_def by metis
    then show ?thesis using True by (subst heap_down_unfold) simp
  next
    case False
    then have j: "i < ?j" "?j < n" "?j = 2 * i + 1 \<or> ?j = 2 * i + 2"
      using smaller_bounds [of i n lt h] by (auto simp: smaller_def)
    let ?h = "swap i ?j h"
    have nth: "?h ! k = (if k = i then h ! ?j else if k = ?j then h ! i else h ! k)" if "k < n" for k
      using that j less.prems by (intro nth_swap) auto
    have pj: "(?j - 1) div 2 = i" using j by auto
    have "heap_upto lt n (heap_down lt ?j n ?h)"
    proof (rule less.hyps)
      show "n - ?j < n - i" "?j < n" "n \<le> length ?h" using j less.prems by auto
    next
      fix k assume k: "0 < k" "k < n" "(k - 1) div 2 \<noteq> ?j"
      have pk: "(k - 1) div 2 < n" using k by auto
      consider "k = ?j" | "k = i" | "k \<noteq> ?j" "k \<noteq> i" "(k - 1) div 2 = i" | "k \<noteq> ?j" "k \<noteq> i" "(k - 1) div 2 \<noteq> i"
        by blast
      then show "\<not> lt (?h ! k) (?h ! ((k - 1) div 2))"
      proof cases
        case 1
        then show ?thesis using False asym j pj by (simp add: nth less.prems)
      next
        case 2
        then have "(k - 1) div 2 \<noteq> i" using k by auto
        then show ?thesis using 2 B [of ?j] k j pj pk by (simp add: nth)
      next
        case 3
        then show ?thesis
          using smaller_least [of i n k h] k False by (simp add: nth parent_iff less.prems)
      next
        case 4
        then show ?thesis using A [of k] k pk by (simp add: nth)
      qed
    next
      fix k assume k: "0 < ?j" "0 < k" "k < n" "(k - 1) div 2 = ?j"
      then have "k \<noteq> i" "k \<noteq> ?j" using j by auto
      then show "\<not> lt (?h ! k) (?h ! ((?j - 1) div 2))"
        using A [of k] k j pj by (simp add: nth less.prems)
    qed
    then show ?thesis using False by (subst heap_down_unfold) simp
  qed
qed

lemma heap_up_heap:
  assumes "j < length h"
    and "\<And>k. 0 < k \<Longrightarrow> k < length h \<Longrightarrow> k \<noteq> j \<Longrightarrow> \<not> lt (h ! k) (h ! ((k - 1) div 2))"
    and "\<And>k. 0 < j \<Longrightarrow> 0 < k \<Longrightarrow> k < length h \<Longrightarrow> (k - 1) div 2 = j \<Longrightarrow> \<not> lt (h ! k) (h ! ((j - 1) div 2))"
  shows "is_heap lt (heap_up lt j h)"
  using assms
proof (induction j arbitrary: h rule: less_induct)
  note One_nat_def [simp del]
  case (less j)
  let ?i = "(j - 1) div 2"
  note A = less.prems(2) and B = less.prems(3)
  show ?case
  proof (cases "?i = j \<or> \<not> lt (h ! j) (h ! ?i)")
    case True
    then have "is_heap lt h"
      using A unfolding heap_upto_def by (metis div_less_dividend diff_less less_numeral_extra(1) less_irrefl
          div_le_dividend le_less_trans)
    then show ?thesis using True by (subst (1 2) heap_up.simps) (auto simp: Let_def)
  next
    case False
    then have i: "?i < j" "0 < j" by auto
    let ?h = "swap ?i j h"
    have nth: "?h ! k = (if k = ?i then h ! j else if k = j then h ! ?i else h ! k)" if "k < length h" for k
      using that i less.prems by (intro nth_swap) auto
    have sib: "\<not> lt (h ! k) (h ! j)" if "0 < k" "k < length h" "k \<noteq> j" "(k - 1) div 2 = ?i" for k
      using A [OF that(1-3)] False that(4) asym ntrans by metis
    have "is_heap lt (heap_up lt ?i ?h)"
    proof (rule less.IH)
      show "?i < j" "?i < length ?h" using i less.prems by auto
    next
      fix k assume k: "0 < k" "k < length ?h" "k \<noteq> ?i"
      have pk: "(k - 1) div 2 < length h" "(k - 1) div 2 < k" using k by auto
      consider "k = j" | "k \<noteq> j" "(k - 1) div 2 = ?i" | "k \<noteq> j" "(k - 1) div 2 = j"
        | "k \<noteq> j" "(k - 1) div 2 \<noteq> ?i" "(k - 1) div 2 \<noteq> j"
        by blast
      then show "\<not> lt (?h ! k) (?h ! ((k - 1) div 2))"
      proof cases
        case 1
        then show ?thesis using False asym i less.prems(1) by (simp add: nth)
      next
        case 2
        then show ?thesis using sib [of k] k pk by (simp add: nth)
      next
        case 3
        then show ?thesis using B [of k] k pk i by (simp add: nth)
      next
        case 4
        then show ?thesis using A [of k] k pk by (simp add: nth)
      qed
    next
      fix k assume k: "0 < ?i" "0 < k" "k < length ?h" "(k - 1) div 2 = ?i"
      have up: "\<not> lt (h ! ?i) (h ! ((?i - 1) div 2))"
        using A [of ?i] k i less.prems(1) by auto
      have pi: "(?i - 1) div 2 < ?i" using k(1) by linarith
      have "k \<noteq> ?i" using k by auto
      show "\<not> lt (?h ! k) (?h ! ((?i - 1) div 2))"
      proof (cases "k = j")
        case True
        then show ?thesis using up pi i less.prems(1) by (simp add: nth)
      next
        case False
        then have "\<not> lt (h ! k) (h ! ?i)" using A [of k] k by simp
        then show ?thesis
          using ntrans [OF up] False \<open>k \<noteq> ?i\<close> pi i less.prems(1) k(3) by (simp add: nth)
      qed
    qed
    then show ?thesis using False by (subst (1 2) heap_up.simps) (auto simp: Let_def)
  qed
qed

lemma heap_Push_heap:
  assumes "is_heap lt h"
  shows "is_heap lt (heap_Push lt x h)" and "mset (heap_Push lt x h) = add_mset x (mset h)"
proof -
  note One_nat_def [simp del]
  show "is_heap lt (heap_Push lt x h)"
    unfolding heap_Push_def
  proof (rule heap_up_heap)
    fix k assume k: "0 < k" "k < length (h @ [x])" "k \<noteq> length h"
    then have "(k - 1) div 2 < length h" by auto
    then show "\<not> lt ((h @ [x]) ! k) ((h @ [x]) ! ((k - 1) div 2))"
      using assms k by (auto simp: heap_upto_def nth_append)
  qed auto
  show "mset (heap_Push lt x h) = add_mset x (mset h)"
    by (simp add: heap_Push_def heap_up_mset)
qed

lemma heap_Pop_heap:
  assumes "is_heap lt h" and "h \<noteq> []" and "heap_Pop lt h = (x, h')"
  shows "x = h ! 0" and "is_heap lt h'" and "mset h = add_mset x (mset h')"
proof -
  note One_nat_def [simp del]
  let ?n = "length h - 1" and ?s = "swap 0 (length h - 1) h"
  let ?d = "heap_down lt 0 ?n ?s"
  have out: "x = last ?d" "h' = butlast ?d"
    using assms(3) by (simp_all add: heap_Pop_def Let_def)
  have len: "?n < length h" using assms(2) by simp
  have "mset ?d = mset ?s \<and> drop ?n ?d = drop ?n ?s"
  proof (cases "?n = 0")
    case True
    then show ?thesis using heap_down_unfold [of lt 0 0] by simp
  next
    case False
    then show ?thesis by (intro heap_down_elements) auto
  qed
  then have el: "mset ?d = mset ?s" "drop ?n ?d = drop ?n ?s" by simp_all
  have mset: "mset ?d = mset h" using el len assms(2) by simp
  then have ne: "?d \<noteq> []" using assms(2) by auto
  have ld: "length ?d = length h" using mset mset_eq_length by blast
  have "last ?d = last ?s"
    using el(2) ld len by (metis last_drop length_swap)
  also have "last ?s = ?s ! ?n"
    using assms(2) last_conv_nth [of ?s] by (metis length_swap length_0_conv)
  also have "\<dots> = h ! 0"
    using len by (subst nth_swap) auto
  finally show x: "x = h ! 0" using out by simp
  show "mset h = add_mset x (mset h')"
    using mset_last_butlast [OF ne] by (simp add: out mset)
  have "heap_upto lt ?n ?d"
  proof (cases "?n = 0")
    case False
    have nth: "?s ! k = (if k = 0 then h ! ?n else if k = ?n then h ! 0 else h ! k)" if "k < length h" for k
      using that len by (intro nth_swap) auto
    show ?thesis
    proof (rule heap_down_heap)
      fix k assume k: "0 < k" "k < ?n" "(k - 1) div 2 \<noteq> 0"
      then have "(k - 1) div 2 < ?n" by auto
      then show "\<not> lt (?s ! k) (?s ! ((k - 1) div 2))"
        using assms(1) k by (simp add: nth heap_upto_def)
    qed (use False in auto)
  qed (simp add: heap_upto_def)
  then show "is_heap lt h'"
    using ld len by (auto simp: out heap_upto_def nth_butlast)
qed

end

end
