(* ===== verification/GoText.thy ===== *)
theory GoText
  imports Prelude "HOL-Library.Char_ord" "HOL-Library.List_Lexorder"
begin

text \<open>
  Strings as Go's \<^verbatim>\<open>strings\<close>, \<^verbatim>\<open>strconv\<close> and \<^verbatim>\<open>encoding/hex\<close> treat them, on
  ASCII: case and space functions, substrings, decimal numbers, hexadecimal. A hexadecimal string
  determines its bytes. Also the values \<^verbatim>\<open>encoding/json\<close> decodes into \<^verbatim>\<open>any\<close>, 64-bit
  signed arithmetic, and the sequencing of operations that may fail.
\<close>

definition lower_char :: "char \<Rightarrow> char" where
  "lower_char c = (if (65 :: nat) \<le> of_char c \<and> (of_char c :: nat) \<le> 90 then char_of (of_char c + 32 :: nat) else c)"

definition upper_char :: "char \<Rightarrow> char" where
  "upper_char c = (if (97 :: nat) \<le> of_char c \<and> (of_char c :: nat) \<le> 122 then char_of (of_char c - 32 :: nat) else c)"

definition ToLower :: "string \<Rightarrow> string" where
  "ToLower s = map lower_char s"

definition ToUpper :: "string \<Rightarrow> string" where
  "ToUpper s = map upper_char s"

definition space_char :: "char \<Rightarrow> bool" where
  "space_char c \<longleftrightarrow> (of_char c :: nat) = 32 \<or> ((9 :: nat) \<le> of_char c \<and> (of_char c :: nat) \<le> 13)"

definition TrimSpace :: "string \<Rightarrow> string" where
  "TrimSpace s = rev (dropWhile space_char (rev (dropWhile space_char s)))"

lemma ToLower_idem [simp]: "ToLower (ToLower s) = ToLower s"
proof -
  have "lower_char (lower_char c) = lower_char c" for c
  proof -
    have "(of_char (char_of (n :: nat) :: char) :: nat) = n" if "n < 256" for n
      using that by simp
    then show ?thesis by (auto simp: lower_char_def)
  qed
  then show ?thesis by (simp add: ToLower_def)
qed

definition hexDigit :: "nat \<Rightarrow> char" where
  "hexDigit n = char_of (if n < 10 then 48 + n else 87 + n)"

definition hexEncode :: "bytes \<Rightarrow> string" where
  "hexEncode bs = concat (map (\<lambda>b. [hexDigit (unat b div 16), hexDigit (unat b mod 16)]) bs)"

lemma hexDigit_inject: "m < 16 \<Longrightarrow> n < 16 \<Longrightarrow> hexDigit m = hexDigit n \<longleftrightarrow> m = n"
proof -
  assume mn: "m < 16" "n < 16"
  have "(of_char (hexDigit k) :: nat) = (if k < 10 then 48 + k else 87 + k)" if "k < 16" for k
    using that by (simp add: hexDigit_def)
  then have "hexDigit m = hexDigit n \<Longrightarrow>
      (if m < 10 then 48 + m else 87 + m) = (if n < 10 then 48 + n else 87 + n)"
    using mn by metis
  then show ?thesis by (auto split: if_splits)
qed

lemma hexEncode_inject [simp]: "hexEncode a = hexEncode b \<longleftrightarrow> a = b"
proof (induction a arbitrary: b)
  case Nil
  then show ?case by (cases b) (auto simp: hexEncode_def)
next
  case (Cons x a)
  show ?case
  proof (cases b)
    case Nil
    then show ?thesis by (simp add: hexEncode_def)
  next
    case (Cons y b')
    have lt: "unat z div 16 < 16" for z :: byte
      using unsigned_less [of z, where ?'a = nat] by simp
    have "hexEncode (x # a) = hexEncode b \<longleftrightarrow> unat x div 16 = unat y div 16 \<and> unat x mod 16 = unat y mod 16 \<and> a = b'"
      using Cons.IH [of b'] lt by (simp add: hexEncode_def Cons hexDigit_inject)
    also have "\<dots> \<longleftrightarrow> x # a = b"
      by (metis Cons div_mult_mod_eq list.inject word_unat_eq_iff)
    finally show ?thesis .
  qed
qed

definition hexValue :: "char \<Rightarrow> nat option" where
  "hexValue c = (let n = of_char c :: nat in
     if 48 \<le> n \<and> n \<le> 57 then Some (n - 48)
     else if 97 \<le> n \<and> n \<le> 102 then Some (n - 87)
     else if 65 \<le> n \<and> n \<le> 70 then Some (n - 55) else None)"

fun hexDecode :: "string \<Rightarrow> bytes option" where
  "hexDecode [] = Some []"
| "hexDecode [c] = None"
| "hexDecode (c # d # s) =
     (case (hexValue c, hexValue d, hexDecode s) of
        (Some a, Some b, Some bs) \<Rightarrow> Some (of_nat (16 * a + b) # bs)
      | _ \<Rightarrow> None)"

lemma hexEncode_eq_Nil [simp]: "hexEncode bs = [] \<longleftrightarrow> bs = []"
  by (cases bs) (simp_all add: hexEncode_def)

lemma hexValue_hexDigit: "n < 16 \<Longrightarrow> hexValue (hexDigit n) = Some n"
proof -
  assume "n < 16"
  then have "(of_char (hexDigit n) :: nat) = (if n < 10 then 48 + n else 87 + n)"
    by (simp add: hexDigit_def)
  then show ?thesis using \<open>n < 16\<close> by (simp add: hexValue_def Let_def)
qed

lemma hexDecode_hexEncode [simp]: "hexDecode (hexEncode bs) = Some bs"
proof (induction bs)
  case (Cons b bs)
  have "unat b div 16 < 16"
    using unsigned_less [of b, where ?'a = nat] by simp
  then have "hexDecode (hexEncode (b # bs)) = Some (of_nat (16 * (unat b div 16) + unat b mod 16) # bs)"
    using Cons by (simp add: hexEncode_def hexValue_hexDigit)
  then show ?case by (simp flip: div_mult_mod_eq)
qed (simp add: hexEncode_def)

subsection \<open>Substrings\<close>

fun HasPrefix :: "string \<Rightarrow> string \<Rightarrow> bool" where
  "HasPrefix s [] \<longleftrightarrow> True"
| "HasPrefix [] (c # p) \<longleftrightarrow> False"
| "HasPrefix (d # s) (c # p) \<longleftrightarrow> d = c \<and> HasPrefix s p"

fun strContains :: "string \<Rightarrow> string \<Rightarrow> bool" where
  "strContains [] p \<longleftrightarrow> p = []"
| "strContains (c # s) p \<longleftrightarrow> HasPrefix (c # s) p \<or> strContains s p"

definition EqualFold :: "string \<Rightarrow> string \<Rightarrow> bool" where
  "EqualFold s t \<longleftrightarrow> ToLower s = ToLower t"

fun strJoin :: "string list \<Rightarrow> string \<Rightarrow> string" where
  "strJoin [] sep = []"
| "strJoin [s] sep = s"
| "strJoin (s # t # ss) sep = s @ sep @ strJoin (t # ss) sep"

lemma HasPrefix_append [simp]: "HasPrefix (p @ s) p"
  by (induction p) auto

lemma HasPrefix_iff: "HasPrefix s p \<longleftrightarrow> (\<exists>t. s = p @ t)"
  by (induction s p rule: HasPrefix.induct) auto

subsection \<open>Numbers\<close>

text \<open>
  \<^verbatim>\<open>int64\<close> arithmetic wraps; the conversion of a \<^verbatim>\<open>float64\<close> truncates, and gives the
  least \<^verbatim>\<open>int64\<close> outside its range (the amd64 instruction; the language leaves it open).
\<close>

definition wrap64 :: "int \<Rightarrow> int" where
  "wrap64 x = (x + 2 ^ 63) mod 2 ^ 64 - 2 ^ 63"

lemma wrap64_id: "- (2 ^ 63) \<le> x \<Longrightarrow> x < 2 ^ 63 \<Longrightarrow> wrap64 x = x"
  by (simp add: wrap64_def)

definition go_trunc :: "rat \<Rightarrow> int" where
  "go_trunc x = (if x \<ge> 0 then \<lfloor>x\<rfloor> else \<lceil>x\<rceil>)"

definition float_int64 :: "rat \<Rightarrow> int" where
  "float_int64 x = (let t = go_trunc x in if - (2 ^ 63) \<le> t \<and> t < 2 ^ 63 then t else - (2 ^ 63))"

datatype go_float = Finite rat | PosInf | NegInf | NaN

definition go_Itoa :: "int \<Rightarrow> string" where
  "go_Itoa i = (if i < 0 then CHR ''-'' # go_itoa (nat (- i)) else go_itoa (nat i))"

fun digits :: "string \<Rightarrow> nat \<Rightarrow> nat option" where
  "digits [] acc = Some acc"
| "digits (c # s) acc =
     (let n = of_char c :: nat in if 48 \<le> n \<and> n \<le> 57 then digits s (10 * acc + (n - 48)) else None)"

text \<open>\<^verbatim>\<open>strconv.ParseInt(s, 10, 64)\<close>.\<close>

definition ParseInt :: "string \<Rightarrow> int option" where
  "ParseInt s =
     (let (neg, body) = (case s of [] \<Rightarrow> (False, [])
        | c # r \<Rightarrow> if c = CHR ''-'' then (True, r) else if c = CHR ''+'' then (False, r) else (False, s)) in
      if body = [] then None
      else case digits body 0 of
             None \<Rightarrow> None
           | Some n \<Rightarrow>
               if neg then (if int n \<le> 2 ^ 63 then Some (- int n) else None)
               else if int n < 2 ^ 63 then Some (int n) else None)"

subsection \<open>Decoded JSON\<close>

datatype json =
    JNull
  | JBool bool
  | JNumber rat
  | JString string
  | JArray "json list"
  | JObject "(string, json) gomap"

type_synonym jobject = "(string, json) gomap"

subsection \<open>Operations that may fail\<close>

lemma andThen_Inr: "andThen r f = Inr b \<longleftrightarrow> (\<exists>a. r = Inr a \<and> f a = Inr b)"
  by (cases r) auto

lemma andThenE:
  assumes "andThen r f = Inr b" obtains a where "r = Inr a" and "f a = Inr b"
  using assms by (auto simp: andThen_Inr)

definition orFail :: "'e \<Rightarrow> 'a option \<Rightarrow> 'e + 'a" where
  "orFail e x = (case x of None \<Rightarrow> Inl e | Some a \<Rightarrow> Inr a)"

lemma orFail_Inr [simp]: "orFail e x = Inr a \<longleftrightarrow> x = Some a"
  by (simp add: orFail_def split: option.split)

definition require :: "'e \<Rightarrow> bool \<Rightarrow> 'e + unit" where
  "require e b = (if b then Inr () else Inl e)"

lemma require_Inr [simp]: "require e b = Inr u \<longleftrightarrow> b"
  by (simp add: require_def)

fun traverse :: "('a \<Rightarrow> 'e + 'b) \<Rightarrow> 'a list \<Rightarrow> 'e + 'b list" where
  "traverse f [] = Inr []"
| "traverse f (x # xs) = andThen (f x) (\<lambda>y. andThen (traverse f xs) (\<lambda>ys. Inr (y # ys)))"

lemma traverse_Inr: "traverse f xs = Inr ys \<longleftrightarrow> list_all2 (\<lambda>x y. f x = Inr y) xs ys"
  by (induction xs arbitrary: ys) (auto simp: andThen_Inr list_all2_Cons1)

lemma traverse_mem: "traverse f xs = Inr ys \<Longrightarrow> y \<in> set ys \<Longrightarrow> \<exists>x \<in> set xs. f x = Inr y"
  unfolding traverse_Inr by (induction xs ys rule: list_all2_induct) auto

end
