(* ===== verification/Mempool.thy ===== *)
theory Mempool
  imports StateMachine Heap GoText "HOL-Library.Product_Lexorder"
begin

text \<open>
  The transaction pool of \<^verbatim>\<open>backend/pkg/mempool\<close>: admission with signature, nonce and rate
  checks, priority classes, bounded eviction through a heap, and deterministic selection.

  Confidence values and rate tokens, \<^verbatim>\<open>float64\<close> in Go, are exact rationals. A Go
  \<^verbatim>\<open>int\<close> is an \<open>int\<close>: the sums of payload sizes stay far below its range. The maps are keyed by the
  hexadecimal strings of the code. A producer's state is shared by pointer in the code; here the
  updated value is written back to the map after each change. The log and trace markers of
  \<^verbatim>\<open>Add\<close> are left out. Ed25519 verification is the argument \<open>verify\<close>.
\<close>

subsection \<open>Data\<close>

datatype mempool_error =
    ErrDuplicate | ErrRateLimited | ErrMempoolFull | ErrClassFull string | ErrInvalidTx
  | ErrSigInvalid | TxError state_error

record mpConfig =
  mc_MaxTxs :: int
  mc_MaxBytes :: int
  mc_MaxTxsP0 :: int
  mc_MaxTxsP1 :: int
  mc_MaxTxsP2 :: int
  mc_NonceTTL :: duration
  mc_Skew :: duration
  mc_RatePerSecond :: int

record entry =
  me_Tx :: transaction
  me_Hash :: hash32
  me_ProducerID :: bytes
  me_Nonce :: bytes
  me_Severity :: "8 word"
  me_Confidence :: rat
  me_PriorityClass :: string
  me_Ts :: int
  me_Size :: int

record admissionMeta =
  am_Severity :: "8 word"
  am_Confidence :: rat
  am_PriorityClass :: string

record rateBucket =
  rb_capacity :: int
  rb_tokens :: rat
  rb_refill :: rat
  rb_last :: instant

record producerState =
  ps_bucket :: rateBucket
  ps_nonces :: "(string, instant) gomap"

record mempool =
  mp_cfg :: mpConfig
  mp_entries :: "(string, entry) gomap"
  mp_total :: int
  mp_evictHeap :: "entry list"
  mp_prod :: "(string, producerState) gomap"
  mp_classCounts :: "(string, int) gomap"

type_synonym entryOrder = "(string, entry) gomap \<Rightarrow> (string, entry) gomap"

subsection \<open>Priorities\<close>

definition normalizePriorityClass :: "string \<Rightarrow> string" where
  "normalizePriorityClass c =
     (let s = ToLower (TrimSpace c) in
      if s = ''p0'' then ''p0'' else if s = ''p1'' then ''p1'' else ''p2'')"

definition classRank :: "string \<Rightarrow> int" where
  "classRank c =
     (let s = normalizePriorityClass c in if s = ''p0'' then 3 else if s = ''p1'' then 2 else 1)"

definition hashHex :: "hash32 \<Rightarrow> string" where
  "hashHex h = hexEncode (be_bytes 32 h)"

definition lessPriority :: "entry \<Rightarrow> entry \<Rightarrow> bool" where
  "lessPriority a b =
     (if classRank (me_PriorityClass a) \<noteq> classRank (me_PriorityClass b)
      then classRank (me_PriorityClass a) > classRank (me_PriorityClass b)
      else if me_Severity a \<noteq> me_Severity b then me_Severity a > me_Severity b
      else if me_Confidence a \<noteq> me_Confidence b then me_Confidence a > me_Confidence b
      else if me_Ts a \<noteq> me_Ts b then me_Ts a < me_Ts b
      else hashHex (me_Hash a) < hashHex (me_Hash b))"

text \<open>\<^verbatim>\<open>minHeap.Less\<close>, reversed so that the lowest priority is at the root.\<close>

definition heapLess :: "entry \<Rightarrow> entry \<Rightarrow> bool" where
  "heapLess a b = lessPriority b a"

subsection \<open>Operations\<close>

definition mempool_New :: "mpConfig \<Rightarrow> mempool" where
  "mempool_New cfg = \<lparr>mp_cfg = cfg, mp_entries = [], mp_total = 0, mp_evictHeap = [], mp_prod = [],
     mp_classCounts = [(''p0'', 0), (''p1'', 0), (''p2'', 0)]\<rparr>"

definition bucket_allow :: "instant \<Rightarrow> rateBucket \<Rightarrow> bool \<times> rateBucket" where
  "bucket_allow now b =
     (let elapsed = of_int (go_Sub now (rb_last b)) / of_int second;
          t = rb_tokens b + elapsed * rb_refill b;
          t = (if t > of_int (rb_capacity b) then of_int (rb_capacity b) else t) in
      if t \<ge> 1 then (True, b\<lparr>rb_tokens := t - 1, rb_last := now\<rparr>)
      else (False, b\<lparr>rb_tokens := t, rb_last := now\<rparr>))"

definition cleanupNonces :: "instant \<Rightarrow> producerState \<Rightarrow> producerState" where
  "cleanupNonces now ps = ps\<lparr>ps_nonces := filter (\<lambda>(k, exp). \<not> now > exp) (ps_nonces ps)\<rparr>"

definition classCap :: "mempool \<Rightarrow> string \<Rightarrow> int" where
  "classCap m c =
     (let s = normalizePriorityClass c in
      if s = ''p0'' then mc_MaxTxsP0 (mp_cfg m)
      else if s = ''p1'' then mc_MaxTxsP1 (mp_cfg m)
      else mc_MaxTxsP2 (mp_cfg m))"

definition classCount :: "mempool \<Rightarrow> string \<Rightarrow> int" where
  "classCount m c = (case map_of (mp_classCounts m) c of None \<Rightarrow> 0 | Some n \<Rightarrow> n)"

definition decClassCount :: "string \<Rightarrow> mempool \<Rightarrow> mempool" where
  "decClassCount c m =
     (let s = normalizePriorityClass c in
      if classCount m s > 0
      then m\<lparr>mp_classCounts := AList.update s (classCount m s - 1) (mp_classCounts m)\<rparr>
      else m)"

fun weakestInClass :: "string \<Rightarrow> (string, entry) gomap \<Rightarrow> (string \<times> entry) option \<Rightarrow> (string \<times> entry) option" where
  "weakestInClass c [] w = w"
| "weakestInClass c ((k, e) # es) w =
     weakestInClass c es
       (if normalizePriorityClass (me_PriorityClass e) \<noteq> c then w
        else case w of
          None \<Rightarrow> Some (k, e)
        | Some (kw, ew) \<Rightarrow> if lessPriority ew e then Some (k, e) else w)"

definition weakestInClassLocked :: "entryOrder \<Rightarrow> string \<Rightarrow> mempool \<Rightarrow> (string \<times> entry) option" where
  "weakestInClassLocked ord c m = weakestInClass (normalizePriorityClass c) (ord (mp_entries m)) None"

definition rebuildEvictHeapLocked :: "entryOrder \<Rightarrow> mempool \<Rightarrow> mempool" where
  "rebuildEvictHeapLocked ord m =
     m\<lparr>mp_evictHeap := fold (\<lambda>(k, e) h. heap_Push heapLess e h) (ord (mp_entries m)) []\<rparr>"

text \<open>Taking an entry out of the map and the counters.\<close>

definition dropEntry :: "string \<Rightarrow> entry \<Rightarrow> mempool \<Rightarrow> mempool" where
  "dropEntry key e m =
     decClassCount (me_PriorityClass e)
       (m\<lparr>mp_entries := AList.delete key (mp_entries m), mp_total := mp_total m - me_Size e\<rparr>)"

text \<open>The room made in the entry's class: the weakest of a full class gives way to a better entry.\<close>

definition makeClassRoom :: "entryOrder \<Rightarrow> entry \<Rightarrow> mempool \<Rightarrow> mempool_error option \<times> mempool" where
  "makeClassRoom ord e m =
     (if classCap m (me_PriorityClass e) > 0 \<and> classCount m (me_PriorityClass e) \<ge> classCap m (me_PriorityClass e)
      then
        (case weakestInClassLocked ord (me_PriorityClass e) m of
           None \<Rightarrow> (Some (ErrClassFull (me_PriorityClass e)), m)
         | Some (victimKey, victim) \<Rightarrow>
             if \<not> lessPriority e victim then (Some (ErrClassFull (me_PriorityClass e)), m)
             else (None, rebuildEvictHeapLocked ord (dropEntry victimKey victim m)))
      else (None, m))"

definition needRoom :: "entry \<Rightarrow> mempool \<Rightarrow> bool" where
  "needRoom e m \<longleftrightarrow>
     mp_total m + me_Size e - mc_MaxBytes (mp_cfg m) > 0
     \<or> int (length (mp_entries m)) + 1 - mc_MaxTxs (mp_cfg m) > 0"

lemma length_heap_down [simp]: "length (heap_down lt i n h) = length h"
proof (induction "n - i" arbitrary: i h rule: less_induct)
  case less
  show ?case
    using less.hyps [of "smaller lt i n h" "swap i (smaller lt i n h) h"] smaller_bounds [of i n lt h]
    by (subst heap_down_unfold) auto
qed

lemma length_heap_Pop [simp]: "length (snd (heap_Pop lt h)) = length h - 1"
  by (simp add: heap_Pop_def Let_def)

lemma dropEntry_heap [simp]: "mp_evictHeap (dropEntry k e m) = mp_evictHeap m"
  by (simp add: dropEntry_def decClassCount_def Let_def)

text \<open>The eviction loop; it ends because every round pops the heap.\<close>

function evictLoop :: "entry \<Rightarrow> mempool \<Rightarrow> mempool_error option \<times> mempool" where
  "evictLoop e m =
     (if needRoom e m \<and> mp_evictHeap m \<noteq> [] then
        let victim = mp_evictHeap m ! 0; vkey = hashHex (me_Hash victim);
            popped = m\<lparr>mp_evictHeap := snd (heap_Pop heapLess (mp_evictHeap m))\<rparr> in
        if map_of (mp_entries m) vkey = None then evictLoop e popped
        else if \<not> lessPriority e victim then (Some ErrMempoolFull, m)
        else evictLoop e (dropEntry vkey victim popped)
      else (None, m))"
  by auto

termination by (relation "measure (\<lambda>(e, m). length (mp_evictHeap m))") (auto simp: Let_def)

declare evictLoop.simps [simp del]

definition insertEntry :: "entry \<Rightarrow> instant \<Rightarrow> producerState \<Rightarrow> mempool \<Rightarrow> mempool" where
  "insertEntry e now ps m =
     m\<lparr>mp_entries := AList.update (hashHex (me_Hash e)) e (mp_entries m),
       mp_total := mp_total m + me_Size e,
       mp_evictHeap := heap_Push heapLess e (mp_evictHeap m),
       mp_classCounts := AList.update (me_PriorityClass e) (classCount m (me_PriorityClass e) + 1) (mp_classCounts m),
       mp_prod := AList.update (hexEncode (me_ProducerID e))
         (ps\<lparr>ps_nonces := AList.update (hexEncode (me_Nonce e)) (now + mc_NonceTTL (mp_cfg m)) (ps_nonces ps)\<rparr>)
         (mp_prod m)\<rparr>"

text \<open>The rest of \<^verbatim>\<open>Add\<close> once the producer has passed: class room, eviction, capacity, insertion.\<close>

definition placeEntry :: "entryOrder \<Rightarrow> entry \<Rightarrow> instant \<Rightarrow> producerState \<Rightarrow> mempool \<Rightarrow> mempool_error option \<times> mempool" where
  "placeEntry ord e now ps m =
     (case makeClassRoom ord e m of
        (Some err, m) \<Rightarrow> (Some err, m)
      | (None, m) \<Rightarrow>
          (case evictLoop e m of
             (Some err, m) \<Rightarrow> (Some err, m)
           | (None, m) \<Rightarrow>
               if mc_MaxTxs (mp_cfg m) > 0 \<and> int (length (mp_entries m)) \<ge> mc_MaxTxs (mp_cfg m)
               then (Some ErrMempoolFull, m)
               else if mc_MaxBytes (mp_cfg m) > 0 \<and> mp_total m + me_Size e > mc_MaxBytes (mp_cfg m)
               then (Some ErrMempoolFull, m)
               else (None, insertEntry e now ps m)))"

definition newProducer :: "mpConfig \<Rightarrow> instant \<Rightarrow> producerState" where
  "newProducer cfg now =
     \<lparr>ps_bucket = \<lparr>rb_capacity = mc_RatePerSecond cfg, rb_tokens = of_int (mc_RatePerSecond cfg),
        rb_refill = of_int (mc_RatePerSecond cfg), rb_last = now\<rparr>, ps_nonces = []\<rparr>"

definition makeEntry :: "transaction \<Rightarrow> admissionMeta \<Rightarrow> entry" where
  "makeEntry tx meta =
     (let env = tx_Envelope tx in
      \<lparr>me_Tx = tx, me_Hash = env_ContentHash env, me_ProducerID = env_ProducerID env,
       me_Nonce = env_Nonce env, me_Severity = am_Severity meta, me_Confidence = am_Confidence meta,
       me_PriorityClass = normalizePriorityClass (am_PriorityClass meta), me_Ts = tx_Timestamp tx,
       me_Size = int (length (tx_Payload tx))\<rparr>)"

definition rateCheck :: "mpConfig \<Rightarrow> instant \<Rightarrow> producerState \<Rightarrow> bool \<times> rateBucket" where
  "rateCheck cfg now ps =
     (if mc_RatePerSecond cfg > 0 then bucket_allow now (ps_bucket ps) else (True, ps_bucket ps))"

definition mempool_Add ::
    "sha \<Rightarrow> entryOrder \<Rightarrow> transaction \<Rightarrow> admissionMeta \<Rightarrow> instant \<Rightarrow> mempool \<Rightarrow> mempool_error option \<times> mempool" where
  "mempool_Add sha256 ord tx meta now m =
     (case tx_Validate sha256 now (mc_Skew (mp_cfg m)) tx of
        Some err \<Rightarrow> (Some (TxError err), m)
      | None \<Rightarrow>
          let env = tx_Envelope tx; key = hashHex (env_ContentHash env);
              pid = hexEncode (env_ProducerID env); nonce = hexEncode (env_Nonce env) in
          if map_of (mp_entries m) key \<noteq> None then (Some ErrDuplicate, m)
          else
            let ps = (case map_of (mp_prod m) pid of None \<Rightarrow> newProducer (mp_cfg m) now | Some ps \<Rightarrow> ps);
                ps = cleanupNonces now ps;
                m = m\<lparr>mp_prod := AList.update pid ps (mp_prod m)\<rparr> in
            if map_of (ps_nonces ps) nonce \<noteq> None then (Some ErrInvalidTx, m)
            else
              let (allowed, b) = rateCheck (mp_cfg m) now ps;
                  ps = ps\<lparr>ps_bucket := b\<rparr>;
                  m = m\<lparr>mp_prod := AList.update pid ps (mp_prod m)\<rparr> in
              if \<not> allowed then (Some ErrRateLimited, m)
              else placeEntry ord (makeEntry tx meta) now ps m)"

fun selectLoop :: "int \<Rightarrow> int \<Rightarrow> int \<Rightarrow> transaction list \<Rightarrow> entry list \<Rightarrow> transaction list" where
  "selectLoop maxCount maxBytes tot out [] = out"
| "selectLoop maxCount maxBytes tot out (e # es) =
     (if maxCount > 0 \<and> int (length out) \<ge> maxCount then out
      else if maxBytes > 0 \<and> tot + me_Size e > maxBytes then out
      else selectLoop maxCount maxBytes (tot + me_Size e) (out @ [me_Tx e]) es)"

definition mempool_Select :: "entryOrder \<Rightarrow> int \<Rightarrow> int \<Rightarrow> mempool \<Rightarrow> transaction list" where
  "mempool_Select ord maxCount maxBytes m =
     selectLoop maxCount maxBytes 0 [] (sliceStable lessPriority (map snd (ord (mp_entries m))))"

definition removeHash :: "hash32 \<Rightarrow> mempool \<Rightarrow> mempool" where
  "removeHash h m =
     (case map_of (mp_entries m) (hashHex h) of
        None \<Rightarrow> m
      | Some e \<Rightarrow> dropEntry (hashHex h) e m)"

definition mempool_Remove :: "entryOrder \<Rightarrow> hash32 list \<Rightarrow> mempool \<Rightarrow> mempool" where
  "mempool_Remove ord hashes m = rebuildEvictHeapLocked ord (fold removeHash hashes m)"

definition nonceId :: "bytes \<Rightarrow> bytes \<Rightarrow> string" where
  "nonceId pid nonce = hexEncode pid @ '':'' @ hexEncode nonce"

definition mempool_RemoveByProducerNonces :: "entryOrder \<Rightarrow> (bytes \<times> bytes) list \<Rightarrow> mempool \<Rightarrow> mempool" where
  "mempool_RemoveByProducerNonces ord keys m =
     (let ids = map (\<lambda>(p, n). nonceId p n) (filter (\<lambda>(p, n). p \<noteq> [] \<and> n \<noteq> []) keys);
          hit = (\<lambda>(k, e). nonceId (me_ProducerID e) (me_Nonce e) \<in> set ids);
          victims = filter hit (ord (mp_entries m)) in
      if keys = [] \<or> ids = [] \<or> victims = [] then m
      else rebuildEvictHeapLocked ord (fold (\<lambda>(k, e). dropEntry k e) victims m))"

definition mempool_Stats :: "mempool \<Rightarrow> nat \<times> int" where
  "mempool_Stats m = (length (mp_entries m), mp_total m)"

definition mempool_StatsDetailed :: "entryOrder \<Rightarrow> mempool \<Rightarrow> nat \<times> int \<times> int" where
  "mempool_StatsDetailed ord m =
     (length (mp_entries m), mp_total m,
      fold (\<lambda>(k, e) oldest. if oldest = 0 \<or> me_Ts e < oldest then me_Ts e else oldest) (ord (mp_entries m)) 0)"

definition mempool_ClassStats :: "mempool \<Rightarrow> (string, int) gomap" where
  "mempool_ClassStats m = mp_classCounts m"

definition mempool_ProducerCount :: "mempool \<Rightarrow> nat" where
  "mempool_ProducerCount m = length (mp_prod m)"

definition mempool_HasPolicyTx :: "mempool \<Rightarrow> bool" where
  "mempool_HasPolicyTx m \<longleftrightarrow> list_ex (\<lambda>(k, e). tx_Type (me_Tx e) = ''policy'') (mp_entries m)"

subsection \<open>Admission\<close>

definition domainFor :: "string \<Rightarrow> string" where
  "domainFor t =
     (if t = ''event'' then ''APP_EVENT_V1'' else if t = ''evidence'' then ''APP_EVIDENCE_V1''
      else if t = ''policy'' then ''APP_POLICY_V1'' else [])"

definition VerifyEnvelope :: "sha \<Rightarrow> (bytes \<Rightarrow> bytes \<Rightarrow> bytes \<Rightarrow> bool) \<Rightarrow> transaction \<Rightarrow> mempool_error option" where
  "VerifyEnvelope sha256 verify tx =
     (let env = tx_Envelope tx in
      if ToUpper (env_Alg env) \<noteq> ''ED25519'' then Some ErrInvalidTx
      else if ContentHash sha256 (tx_Payload tx) \<noteq> env_ContentHash env then Some ErrInvalidTx
      else
        case BuildSignBytes (domainFor (tx_Type tx)) (tx_Timestamp tx) (env_ProducerID env) (env_Nonce env)
               (env_ContentHash env) of
          Inl err \<Rightarrow> Some (TxError err)
        | Inr b \<Rightarrow>
            if length (env_PubKey env) \<noteq> 32 \<or> length (env_Signature env) \<noteq> 64 then Some ErrSigInvalid
            else if \<not> verify (env_PubKey env) b (env_Signature env) then Some ErrSigInvalid
            else None)"

definition mempool_Admit ::
    "sha \<Rightarrow> (bytes \<Rightarrow> bytes \<Rightarrow> bytes \<Rightarrow> bool) \<Rightarrow> entryOrder \<Rightarrow> transaction \<Rightarrow> admissionMeta \<Rightarrow> instant \<Rightarrow> mempool
      \<Rightarrow> mempool_error option \<times> mempool" where
  "mempool_Admit sha256 verify ord tx meta now m =
     (case VerifyEnvelope sha256 verify tx of
        Some err \<Rightarrow> (Some err, m)
      | None \<Rightarrow> mempool_Add sha256 ord tx meta now m)"

definition ComputeMeta :: "admissionMeta \<Rightarrow> admissionMeta" where
  "ComputeMeta p =
     (let m = p;
          m = (if am_Confidence m < 0 then m\<lparr>am_Confidence := 0\<rparr> else m);
          m = (if am_Confidence m > 1 then m\<lparr>am_Confidence := 1\<rparr> else m) in
      m\<lparr>am_PriorityClass := normalizePriorityClass (am_PriorityClass m)\<rparr>)"

definition ClassFullReason :: "mempool_error \<Rightarrow> string option" where
  "ClassFullReason err = (case err of ErrClassFull c \<Rightarrow> Some (normalizePriorityClass c) | _ \<Rightarrow> None)"

subsection \<open>The priority order\<close>

definition prio :: "entry \<Rightarrow> int \<times> int \<times> rat \<times> int \<times> string" where
  "prio e = (- classRank (me_PriorityClass e), - uint (me_Severity e), - me_Confidence e, me_Ts e, hashHex (me_Hash e))"

lemma lessPriority_iff: "lessPriority a b \<longleftrightarrow> prio a < prio b"
  by (auto simp: lessPriority_def prio_def less_prod_def' word_less_def word_uint_eq_iff)

lemma hashHex_inject [simp]: "hashHex a = hashHex b \<longleftrightarrow> a = b"
  by (simp add: hashHex_def)

interpretation evict: weak_order heapLess
  by unfold_locales (auto simp: heapLess_def lessPriority_iff)

lemma class_cases: "normalizePriorityClass c \<in> {''p0'', ''p1'', ''p2''}"
  by (simp add: normalizePriorityClass_def Let_def)

lemma normalize_fixed:
  "normalizePriorityClass ''p0'' = ''p0''" "normalizePriorityClass ''p1'' = ''p1''"
  "normalizePriorityClass ''p2'' = ''p2''"
  by (simp_all add: normalizePriorityClass_def Let_def TrimSpace_def ToLower_def space_char_def lower_char_def)

lemma normalize_idem [simp]: "normalizePriorityClass (normalizePriorityClass c) = normalizePriorityClass c"
  using class_cases [of c] by (auto simp: normalize_fixed)

subsection \<open>Bookkeeping\<close>

definition bytesOf :: "(string \<times> entry) multiset \<Rightarrow> int" where
  "bytesOf M = (\<Sum>(k, e) \<in># M. me_Size e)"

definition classOf :: "string \<Rightarrow> (string \<times> entry) multiset \<Rightarrow> int" where
  "classOf c M = (\<Sum>(k, e) \<in># M. if me_PriorityClass e = c then 1 else 0)"

lemma bytesOf_simps [simp]: "bytesOf {#} = 0" "bytesOf (add_mset (k, e) M) = me_Size e + bytesOf M"
  by (simp_all add: bytesOf_def)

lemma classOf_simps [simp]:
  "classOf c {#} = 0" "classOf c (add_mset (k, e) M) = (if me_PriorityClass e = c then 1 else 0) + classOf c M"
  by (simp_all add: classOf_def)

lemma bytesOf_nonneg: "(\<And>k e. (k, e) \<in># M \<Longrightarrow> 0 \<le> me_Size e) \<Longrightarrow> 0 \<le> bytesOf M"
proof (induction M)
  case (add x M)
  have "0 \<le> me_Size (snd x)" using add.prems [of "fst x" "snd x"] by simp
  moreover have "0 \<le> bytesOf M" using add by auto
  ultimately show ?case by (cases x) simp
qed simp

lemma classOf_nonneg [simp]: "0 \<le> classOf c M"
  by (induction M) (auto simp: classOf_def split: prod.splits)

lemma mset_update_new: "map_of m k = None \<Longrightarrow> mset (AList.update k v m) = add_mset (k, v) (mset m)"
  by (induction m) auto

lemma mset_delete_present:
  "gm_wf m \<Longrightarrow> map_of m k = Some v \<Longrightarrow> mset m = add_mset (k, v) (mset (AList.delete k m))"
proof (induction m)
  case (Cons p m)
  have "AList.delete k m = m" if "k \<notin> set (keys_of m)"
    using that by (simp add: delete_idem)
  then show ?case using Cons by (cases p) (auto simp: gm_wf_def split: if_splits)
qed simp

definition entry_wf :: "string \<times> entry \<Rightarrow> bool" where
  "entry_wf ke \<longleftrightarrow> fst ke = hashHex (me_Hash (snd ke)) \<and> 0 \<le> me_Size (snd ke)
     \<and> normalizePriorityClass (me_PriorityClass (snd ke)) = me_PriorityClass (snd ke)"

definition books_ok :: "mempool \<Rightarrow> bool" where
  "books_ok m \<longleftrightarrow> gm_wf (mp_entries m) \<and> list_all entry_wf (mp_entries m)
     \<and> mp_total m = bytesOf (mset (mp_entries m))
     \<and> (\<forall>c. normalizePriorityClass c = c \<longrightarrow> classCount m c = classOf c (mset (mp_entries m)))"

definition heap_ok :: "mempool \<Rightarrow> bool" where
  "heap_ok m \<longleftrightarrow> is_heap heapLess (mp_evictHeap m) \<and> mset (mp_evictHeap m) = image_mset snd (mset (mp_entries m))"

lemma classCount_update:
  "classCount (m\<lparr>mp_classCounts := AList.update c n (mp_classCounts m)\<rparr>) d = (if d = c then n else classCount m d)"
  by (simp add: classCount_def)

lemma classCount_frame [simp]:
  "classCount (m\<lparr>mp_entries := x\<rparr>) c = classCount m c" "classCount (m\<lparr>mp_total := y\<rparr>) c = classCount m c"
  "classCount (m\<lparr>mp_evictHeap := h\<rparr>) c = classCount m c" "classCount (m\<lparr>mp_prod := pr\<rparr>) c = classCount m c"
  by (simp_all add: classCount_def)

lemma dropEntry_fields [simp]:
  "mp_entries (dropEntry k e m) = AList.delete k (mp_entries m)"
  "mp_total (dropEntry k e m) = mp_total m - me_Size e"
  "mp_cfg (dropEntry k e m) = mp_cfg m" "mp_prod (dropEntry k e m) = mp_prod m"
  by (simp_all add: dropEntry_def decClassCount_def Let_def)

lemma dropEntry_count:
  assumes "classCount m (normalizePriorityClass (me_PriorityClass e)) > 0"
  shows "classCount (dropEntry k e m) c =
    (if c = normalizePriorityClass (me_PriorityClass e) then classCount m c - 1 else classCount m c)"
  using assms by (simp add: dropEntry_def decClassCount_def Let_def classCount_def)

lemma books_drop:
  assumes "books_ok m" and "map_of (mp_entries m) k = Some e"
  shows "books_ok (dropEntry k e m)"
    and "normalizePriorityClass c = c \<Longrightarrow>
      classCount (dropEntry k e m) c = classCount m c - (if c = me_PriorityClass e then 1 else 0)"
proof -
  have split: "mset (mp_entries m) = add_mset (k, e) (mset (AList.delete k (mp_entries m)))"
    using assms by (intro mset_delete_present) (auto simp: books_ok_def)
  have wf: "entry_wf (k, e)"
    using assms by (auto simp: books_ok_def dest: gm_all_get)
  then have "classCount m (me_PriorityClass e) > 0"
    using assms split by (simp add: books_ok_def entry_wf_def add_pos_nonneg)
  then have count: "classCount (dropEntry k e m) c = classCount m c - (if c = me_PriorityClass e then 1 else 0)" for c
    using wf by (simp add: dropEntry_count entry_wf_def)
  then show "normalizePriorityClass c = c \<Longrightarrow>
      classCount (dropEntry k e m) c = classCount m c - (if c = me_PriorityClass e then 1 else 0)"
    by simp
  show "books_ok (dropEntry k e m)"
    using assms split by (auto simp: books_ok_def count)
qed

lemma heap_push_all:
  assumes "is_heap heapLess h"
  shows "is_heap heapLess (fold (\<lambda>(k, e) h. heap_Push heapLess e h) es h) \<and>
    mset (fold (\<lambda>(k, e) h. heap_Push heapLess e h) es h) = mset h + mset (map snd es)"
  using assms
proof (induction es arbitrary: h)
  case (Cons x es)
  then show ?case
    using evict.heap_Push_heap [OF Cons.prems, of "snd x"] by (auto simp: split_beta)
qed simp

lemma rebuild_ok:
  assumes "iter_order ord"
  shows "heap_ok (rebuildEvictHeapLocked ord m)"
proof -
  have "is_heap heapLess []" by (simp add: heap_upto_def)
  from heap_push_all [OF this, of "ord (mp_entries m)"] show ?thesis
    using assms by (auto simp: heap_ok_def rebuildEvictHeapLocked_def iter_order_def)
qed

lemma rebuild_fields [simp]:
  "mp_entries (rebuildEvictHeapLocked ord m) = mp_entries m" "mp_total (rebuildEvictHeapLocked ord m) = mp_total m"
  "mp_cfg (rebuildEvictHeapLocked ord m) = mp_cfg m" "mp_prod (rebuildEvictHeapLocked ord m) = mp_prod m"
  "classCount (rebuildEvictHeapLocked ord m) c = classCount m c"
  by (simp_all add: rebuildEvictHeapLocked_def)

lemma books_rebuild [simp]: "books_ok (rebuildEvictHeapLocked ord m) = books_ok m"
  by (simp add: books_ok_def)

subsection \<open>Eviction\<close>

text \<open>Entries leave only in favour of an entry of higher priority.\<close>

definition only_lower :: "entry \<Rightarrow> mempool \<Rightarrow> mempool \<Rightarrow> bool" where
  "only_lower e m m' \<longleftrightarrow> mp_cfg m' = mp_cfg m \<and>
     (\<forall>k. map_of (mp_entries m') k = map_of (mp_entries m) k
        \<or> map_of (mp_entries m') k = None \<and> (\<exists>v. map_of (mp_entries m) k = Some v \<and> lessPriority e v)) \<and>
     (\<forall>c. normalizePriorityClass c = c \<longrightarrow> classCount m' c \<le> classCount m c)"

lemma only_lower_refl [simp]: "only_lower e m m"
  by (simp add: only_lower_def)

lemma only_lower_trans: "only_lower e m n \<Longrightarrow> only_lower e n l \<Longrightarrow> only_lower e m l"
proof -
  assume a: "only_lower e m n" and b: "only_lower e n l"
  have "map_of (mp_entries l) k = map_of (mp_entries m) k
      \<or> map_of (mp_entries l) k = None \<and> (\<exists>v. map_of (mp_entries m) k = Some v \<and> lessPriority e v)" for k
  proof -
    have "map_of (mp_entries n) k = map_of (mp_entries m) k
        \<or> map_of (mp_entries n) k = None \<and> (\<exists>v. map_of (mp_entries m) k = Some v \<and> lessPriority e v)"
      using a by (simp add: only_lower_def)
    moreover have "map_of (mp_entries l) k = map_of (mp_entries n) k
        \<or> map_of (mp_entries l) k = None \<and> (\<exists>v. map_of (mp_entries n) k = Some v \<and> lessPriority e v)"
      using b by (simp add: only_lower_def)
    ultimately show ?thesis by metis
  qed
  then show ?thesis
    using a b by (auto simp: only_lower_def intro: order_trans)
qed

lemma only_lower_drop:
  assumes "books_ok m" and "map_of (mp_entries m) k = Some v" and "lessPriority e v"
  shows "only_lower e m (dropEntry k v m)"
  using assms books_drop(2) [OF assms(1,2)] by (auto simp: only_lower_def books_ok_def)

lemma heap_member:
  assumes "books_ok m" and "heap_ok m" and "v \<in> set (mp_evictHeap m)"
  shows "map_of (mp_entries m) (hashHex (me_Hash v)) = Some v"
proof -
  have "v \<in># image_mset snd (mset (mp_entries m))"
    using assms(2,3) by (metis heap_ok_def set_mset_mset)
  then obtain k where k: "(k, v) \<in> set (mp_entries m)" by auto
  then have "entry_wf (k, v)" and "map_of (mp_entries m) k = Some v"
    using assms(1) by (auto simp: books_ok_def list_all_iff gm_mem_iff)
  then show ?thesis by (simp add: entry_wf_def)
qed

lemma evict_step:
  assumes "books_ok m" and "heap_ok m" and "mp_evictHeap m \<noteq> []"
  defines "victim \<equiv> mp_evictHeap m ! 0"
  defines "m' \<equiv> dropEntry (hashHex (me_Hash victim)) victim (m\<lparr>mp_evictHeap := snd (heap_Pop heapLess (mp_evictHeap m))\<rparr>)"
  shows "map_of (mp_entries m) (hashHex (me_Hash victim)) = Some victim"
    and "books_ok m'" and "heap_ok m'" and "lessPriority e victim \<Longrightarrow> only_lower e m m'"
proof -
  let ?k = "hashHex (me_Hash victim)"
  show at: "map_of (mp_entries m) ?k = Some victim"
    using assms(1-3) by (intro heap_member) (auto simp: victim_def)
  obtain x h where pop: "heap_Pop heapLess (mp_evictHeap m) = (x, h)" by fastforce
  have hp: "x = victim" "is_heap heapLess h" "mset (mp_evictHeap m) = add_mset x (mset h)"
    using evict.heap_Pop_heap [OF _ assms(3) pop] assms(2) by (auto simp: heap_ok_def victim_def)
  let ?p = "m\<lparr>mp_evictHeap := h\<rparr>"
  have m': "m' = dropEntry ?k victim ?p" by (simp add: m'_def pop)
  have p: "books_ok ?p" "map_of (mp_entries ?p) ?k = Some victim"
    using assms(1) at by (simp_all add: books_ok_def)
  show "books_ok m'" unfolding m' using p by (rule books_drop)
  have split: "mset (mp_entries m) = add_mset (?k, victim) (mset (AList.delete ?k (mp_entries m)))"
    using assms(1) at by (intro mset_delete_present) (auto simp: books_ok_def)
  have "mset (mp_evictHeap m) = image_mset snd (mset (mp_entries m))"
    using assms(2) by (simp add: heap_ok_def)
  then have "mset h = image_mset snd (mset (AList.delete ?k (mp_entries m)))"
    unfolding hp(3) hp(1) split by simp
  then show "heap_ok m'"
    using hp(2) by (simp add: heap_ok_def m')
  show "only_lower e m m'" if "lessPriority e victim"
    using only_lower_drop [OF p that] by (simp add: m' only_lower_def)
qed

lemma evictLoop_sound:
  "books_ok m \<Longrightarrow> heap_ok m \<Longrightarrow> evictLoop e m = (res, m') \<Longrightarrow>
    books_ok m' \<and> heap_ok m' \<and> only_lower e m m' \<and> mp_prod m' = mp_prod m
    \<and> (res = None \<longrightarrow> \<not> needRoom e m' \<or> mp_entries m' = [])"
proof (induction e m arbitrary: res m' rule: evictLoop.induct)
  case (1 e m)
  show ?case
  proof (cases "needRoom e m \<and> mp_evictHeap m \<noteq> []")
    case True
    let ?v = "mp_evictHeap m ! 0"
    let ?n = "dropEntry (hashHex (me_Hash ?v)) ?v (m\<lparr>mp_evictHeap := snd (heap_Pop heapLess (mp_evictHeap m))\<rparr>)"
    note step = evict_step [OF 1(3,4) conjunct2 [OF True]]
    show ?thesis
    proof (cases "lessPriority e ?v")
      case False
      then show ?thesis
        using 1(3-5) True step(1) by (subst (asm) evictLoop.simps) (auto simp: Let_def)
    next
      case lower: True
      have rec: "evictLoop e ?n = (res, m')"
        using 1(5) True lower step(1) by (subst (asm) evictLoop.simps) (simp add: Let_def)
      have "books_ok m' \<and> heap_ok m' \<and> only_lower e ?n m' \<and> mp_prod m' = mp_prod ?n
          \<and> (res = None \<longrightarrow> \<not> needRoom e m' \<or> mp_entries m' = [])"
        using 1(2) [OF True refl refl refl _ _ step(2,3) rec] step(1) lower by simp
      then show ?thesis using step(4) [OF lower] only_lower_trans by fastforce
    qed
  next
    case False
    then have "res = None" "m' = m"
      using 1(5) by (auto simp: evictLoop.simps [of e m])
    moreover have "mp_evictHeap m = [] \<Longrightarrow> mp_entries m = []"
      using 1(4) by (simp add: heap_ok_def)
    ultimately show ?thesis using 1(3,4) False by auto
  qed
qed

subsection \<open>Capacity\<close>

definition within_caps :: "mempool \<Rightarrow> bool" where
  "within_caps m \<longleftrightarrow>
     (0 < mc_MaxTxs (mp_cfg m) \<longrightarrow> int (length (mp_entries m)) \<le> mc_MaxTxs (mp_cfg m)) \<and>
     (0 < mc_MaxBytes (mp_cfg m) \<longrightarrow> mp_total m \<le> mc_MaxBytes (mp_cfg m)) \<and>
     (\<forall>c. normalizePriorityClass c = c \<longrightarrow> 0 < classCap m c \<longrightarrow> classCount m c \<le> classCap m c)"

definition mempool_inv :: "mempool \<Rightarrow> bool" where
  "mempool_inv m \<longleftrightarrow> books_ok m \<and> heap_ok m \<and> within_caps m"

lemma classCap_frame: "mp_cfg m' = mp_cfg m \<Longrightarrow> classCap m' c = classCap m c"
  by (simp add: classCap_def Let_def)

lemma mset_sub_entries:
  assumes "books_ok m" and "books_ok m'" and "only_lower e m m'"
  shows "mset (mp_entries m') \<subseteq># mset (mp_entries m)"
proof -
  have "set (mp_entries m') \<subseteq> set (mp_entries m)"
  proof clarify
    fix k v assume "(k, v) \<in> set (mp_entries m')"
    then have "map_of (mp_entries m') k = Some v"
      using assms(2) by (simp add: books_ok_def gm_mem_iff)
    moreover have "map_of (mp_entries m') k = map_of (mp_entries m) k \<or> map_of (mp_entries m') k = None"
      using assms(3) by (auto simp: only_lower_def)
    ultimately show "(k, v) \<in> set (mp_entries m)" by (metis map_of_SomeD option.distinct(1))
  qed
  moreover have "distinct (mp_entries m')"
    using assms(2) by (simp add: books_ok_def gm_wf_def distinct_map)
  ultimately show ?thesis
    by (metis set_mset_mset mset_set_set_mset_msubset mset_set_set subset_mset.order_trans subset_imp_msubset_mset_set
        finite_set)
qed

lemma only_lower_caps:
  assumes "books_ok m" and "books_ok m'" and "only_lower e m m'" and "within_caps m"
  shows "within_caps m'"
proof -
  have sub: "mset (mp_entries m') \<subseteq># mset (mp_entries m)"
    using assms by (intro mset_sub_entries)
  have "length (mp_entries m') \<le> length (mp_entries m)"
    using size_mset_mono [OF sub] by simp
  moreover have "mp_total m' \<le> mp_total m"
  proof -
    obtain D where D: "mset (mp_entries m) = mset (mp_entries m') + D"
      using sub by (auto simp: mset_subset_eq_exists_conv)
    have "0 \<le> me_Size v" if "(k, v) \<in># D" for k v
      using that D assms(1) by (metis (no_types, lifting) books_ok_def entry_wf_def list_all_iff set_mset_mset snd_conv union_iff)
    then have "0 \<le> bytesOf D"
      by (rule bytesOf_nonneg)
    moreover have "bytesOf (mset (mp_entries m)) = bytesOf (mset (mp_entries m')) + bytesOf D"
      by (simp add: D bytesOf_def)
    ultimately show ?thesis using assms(1,2) by (simp add: books_ok_def)
  qed
  ultimately show ?thesis
    using assms(3,4) classCap_frame [of m' m] unfolding within_caps_def only_lower_def by (auto intro: order_trans)
qed

lemma weakestInClass_mem:
  "weakestInClass c es w = Some (k, e) \<Longrightarrow> (k, e) \<in> set es \<or> w = Some (k, e)"
  by (induction c es w rule: weakestInClass.induct) (auto split: if_splits option.splits prod.splits)

lemma weakestInClass_class:
  assumes "case w of None \<Rightarrow> True | Some (k, e) \<Rightarrow> normalizePriorityClass (me_PriorityClass e) = c"
  shows "case weakestInClass c es w of None \<Rightarrow> True | Some (k, e) \<Rightarrow> normalizePriorityClass (me_PriorityClass e) = c"
  using assms
proof (induction es arbitrary: w)
  case (Cons x es)
  obtain k e where x: "x = (k, e)" by fastforce
  show ?case
    unfolding x weakestInClass.simps
    by (rule Cons.IH) (use Cons.prems in \<open>auto split: option.splits\<close>)
qed simp

lemma makeClassRoom_sound:
  assumes "iter_order ord" and "mempool_inv m" and "normalizePriorityClass (me_PriorityClass e) = me_PriorityClass e"
    and "makeClassRoom ord e m = (res, m')"
  shows "mempool_inv m' \<and> only_lower e m m' \<and> mp_prod m' = mp_prod m \<and>
    (res = None \<longrightarrow> 0 < classCap m' (me_PriorityClass e) \<longrightarrow> classCount m' (me_PriorityClass e) < classCap m' (me_PriorityClass e))"
proof (cases "classCap m (me_PriorityClass e) > 0 \<and> classCount m (me_PriorityClass e) \<ge> classCap m (me_PriorityClass e)")
  case False
  then have "res = None" "m' = m" using assms(4) by (auto simp: makeClassRoom_def)
  then show ?thesis using False assms(2) by auto
next
  case full: True
  show ?thesis
  proof (cases "\<exists>k v. weakestInClassLocked ord (me_PriorityClass e) m = Some (k, v) \<and> lessPriority e v")
    case False
    then have "m' = m" "res \<noteq> None"
      using assms(4) full by (auto simp: makeClassRoom_def split: option.splits if_splits)
    then show ?thesis using assms(2) by auto
  next
    case True
    then obtain k v where v: "weakestInClassLocked ord (me_PriorityClass e) m = Some (k, v)" "lessPriority e v" by blast
    have m': "m' = rebuildEvictHeapLocked ord (dropEntry k v m)" "res = None"
      using assms(4) full v by (auto simp: makeClassRoom_def)
    have books: "books_ok m" using assms(2) by (simp add: mempool_inv_def)
    have "(k, v) \<in> set (mp_entries m)"
      using v(1) weakestInClass_mem iter_order_set [OF assms(1)] by (fastforce simp: weakestInClassLocked_def)
    then have at: "map_of (mp_entries m) k = Some v"
      using books by (simp add: books_ok_def gm_mem_iff)
    then have "normalizePriorityClass (me_PriorityClass v) = me_PriorityClass v"
      using books by (auto simp: books_ok_def entry_wf_def dest!: gm_all_get)
    then have cls: "me_PriorityClass v = me_PriorityClass e"
      using v(1) weakestInClass_class [where w = None and c = "me_PriorityClass e" and es = "ord (mp_entries m)"] assms(3)
      by (simp add: weakestInClassLocked_def)
    have low: "only_lower e m m'"
      using only_lower_drop [OF books at v(2)] by (simp add: m' only_lower_def)
    have books': "books_ok m'" using books_drop(1) [OF books at] by (simp add: m')
    have "classCount m' (me_PriorityClass e) = classCount m (me_PriorityClass e) - 1"
      using books_drop(2) [OF books at assms(3)] cls by (simp add: m')
    moreover have "classCount m (me_PriorityClass e) \<le> classCap m (me_PriorityClass e)"
      using assms(2,3) full by (simp add: mempool_inv_def within_caps_def)
    moreover have "classCap m' (me_PriorityClass e) = classCap m (me_PriorityClass e)"
      using low by (intro classCap_frame) (simp add: only_lower_def)
    moreover have "within_caps m'"
      using assms(2) low books books' by (intro only_lower_caps [of m m']) (auto simp: mempool_inv_def)
    ultimately show ?thesis
      using low books' rebuild_ok [OF assms(1)] by (auto simp: mempool_inv_def m')
  qed
qed

subsection \<open>Every operation keeps the invariant\<close>

definition entry_new :: "entry \<Rightarrow> mempool \<Rightarrow> bool" where
  "entry_new e m \<longleftrightarrow> map_of (mp_entries m) (hashHex (me_Hash e)) = None \<and> 0 \<le> me_Size e
     \<and> normalizePriorityClass (me_PriorityClass e) = me_PriorityClass e"

lemma entry_new_lower: "entry_new e m \<Longrightarrow> only_lower e m m' \<Longrightarrow> entry_new e m'"
  unfolding entry_new_def only_lower_def by (metis option.distinct(1))

lemma insertEntry_inv:
  assumes "mempool_inv m" and "entry_new e m"
    and room: "0 < mc_MaxTxs (mp_cfg m) \<Longrightarrow> int (length (mp_entries m)) < mc_MaxTxs (mp_cfg m)"
      "0 < mc_MaxBytes (mp_cfg m) \<Longrightarrow> mp_total m + me_Size e \<le> mc_MaxBytes (mp_cfg m)"
      "0 < classCap m (me_PriorityClass e) \<Longrightarrow> classCount m (me_PriorityClass e) < classCap m (me_PriorityClass e)"
  shows "mempool_inv (insertEntry e now ps m)"
proof -
  let ?m = "insertEntry e now ps m"
  have es: "mset (mp_entries ?m) = add_mset (hashHex (me_Hash e), e) (mset (mp_entries m))"
    using assms(2) by (simp add: insertEntry_def entry_new_def mset_update_new)
  have count: "classCount ?m c = (if c = me_PriorityClass e then classCount m c + 1 else classCount m c)" for c
    by (simp add: insertEntry_def classCount_def)
  have "books_ok ?m"
  proof -
    have "list_all entry_wf (mp_entries ?m)" "gm_wf (mp_entries ?m)"
      using assms(1,2) by (auto simp: insertEntry_def mempool_inv_def books_ok_def entry_wf_def entry_new_def)
    moreover have "mp_total ?m = mp_total m + me_Size e" by (simp add: insertEntry_def)
    ultimately show ?thesis
      using assms(1) es by (auto simp: books_ok_def mempool_inv_def count)
  qed
  moreover have "heap_ok ?m"
    using assms(1) es evict.heap_Push_heap [of "mp_evictHeap m" e]
    by (auto simp: heap_ok_def mempool_inv_def insertEntry_def)
  moreover have "within_caps ?m"
  proof -
    have "mp_cfg ?m = mp_cfg m" "mp_total ?m = mp_total m + me_Size e" by (simp_all add: insertEntry_def)
    moreover have "length (mp_entries ?m) = Suc (length (mp_entries m))"
      using arg_cong [OF es, of size] by simp
    ultimately show ?thesis
      using assms(1) room classCap_frame [of ?m m] by (auto simp: within_caps_def mempool_inv_def count)
  qed
  ultimately show ?thesis by (simp add: mempool_inv_def)
qed

lemma placeEntry_sound:
  assumes "iter_order ord" and "mempool_inv m" and "entry_new e m" and "placeEntry ord e now ps m = (res, m')"
  shows "mempool_inv m'"
    and "res \<noteq> None \<Longrightarrow> only_lower e m m' \<and> mp_prod m' = mp_prod m"
    and "res = None \<Longrightarrow> \<exists>n. only_lower e m n \<and> mp_prod n = mp_prod m \<and> m' = insertEntry e now ps n"
proof -
  obtain r1 m1 where one: "makeClassRoom ord e m = (r1, m1)" by fastforce
  have cls: "normalizePriorityClass (me_PriorityClass e) = me_PriorityClass e"
    using assms(3) by (simp add: entry_new_def)
  note s1 = makeClassRoom_sound [OF assms(1,2) cls one]
  obtain r2 m2 where two: "evictLoop e m1 = (r2, m2)" by fastforce
  have s2: "books_ok m2" "heap_ok m2" "only_lower e m1 m2" "mp_prod m2 = mp_prod m1"
    using evictLoop_sound [OF _ _ two] s1 by (auto simp: mempool_inv_def)
  have low: "only_lower e m m2" using s1 s2(3) only_lower_trans by blast
  have inv2: "mempool_inv m2"
    using s1 s2 only_lower_caps [of m1 m2 e] by (auto simp: mempool_inv_def)
  have new2: "entry_new e m2" using assms(3) low by (rule entry_new_lower)
  have cap: "0 < classCap m2 (me_PriorityClass e) \<Longrightarrow> classCount m2 (me_PriorityClass e) < classCap m2 (me_PriorityClass e)"
    if "r1 = None"
    using s1 s2(3) that cls classCap_frame [of m2 m1] by (fastforce simp: only_lower_def)
  show "mempool_inv m'"
    using assms(4) one two s1 inv2 insertEntry_inv [OF inv2 new2 _ _ cap]
    by (auto simp: placeEntry_def not_less not_le split: option.splits if_splits)
  show "res \<noteq> None \<Longrightarrow> only_lower e m m' \<and> mp_prod m' = mp_prod m"
    using assms(4) one two s1 s2 low by (auto simp: placeEntry_def split: option.splits if_splits)
  show "res = None \<Longrightarrow> \<exists>n. only_lower e m n \<and> mp_prod n = mp_prod m \<and> m' = insertEntry e now ps n"
    using assms(4) one two s1 s2 low by (auto simp: placeEntry_def split: option.splits if_splits)
qed

lemma mempool_inv_prod [simp]: "mempool_inv (m\<lparr>mp_prod := p\<rparr>) = mempool_inv m"
  by (simp add: mempool_inv_def books_ok_def heap_ok_def within_caps_def classCap_def)

text \<open>What \<^verbatim>\<open>Add\<close> does once its guards have passed.\<close>

definition producerOf :: "instant \<Rightarrow> transaction \<Rightarrow> mempool \<Rightarrow> producerState" where
  "producerOf now tx m =
     cleanupNonces now (case map_of (mp_prod m) (hexEncode (env_ProducerID (tx_Envelope tx))) of
       None \<Rightarrow> newProducer (mp_cfg m) now | Some ps \<Rightarrow> ps)"

lemma mempool_Add_run:
  fixes tx :: transaction and m :: mempool and now :: instant
  defines "env \<equiv> tx_Envelope tx" and "ps \<equiv> producerOf now tx m"
  defines "pid \<equiv> hexEncode (env_ProducerID env)"
  assumes "rateCheck (mp_cfg m) now ps = (allowed, b)"
  shows "mempool_Add sha256 ord tx meta now m =
    (case tx_Validate sha256 now (mc_Skew (mp_cfg m)) tx of
       Some err \<Rightarrow> (Some (TxError err), m)
     | None \<Rightarrow>
         if map_of (mp_entries m) (hashHex (env_ContentHash env)) \<noteq> None then (Some ErrDuplicate, m)
         else if map_of (ps_nonces ps) (hexEncode (env_Nonce env)) \<noteq> None
         then (Some ErrInvalidTx, m\<lparr>mp_prod := AList.update pid ps (mp_prod m)\<rparr>)
         else if \<not> allowed
         then (Some ErrRateLimited, m\<lparr>mp_prod := AList.update pid (ps\<lparr>ps_bucket := b\<rparr>) (mp_prod m)\<rparr>)
         else placeEntry ord (makeEntry tx meta) now (ps\<lparr>ps_bucket := b\<rparr>)
           (m\<lparr>mp_prod := AList.update pid (ps\<lparr>ps_bucket := b\<rparr>) (mp_prod m)\<rparr>))"
  unfolding mempool_Add_def Let_def producerOf_def [symmetric]
  using assms(4) by (auto simp: env_def ps_def pid_def split: option.split)

lemma mempool_Add_cases:
  assumes "mempool_Add sha256 ord tx meta now m = (res, m')"
  obtains "res \<noteq> None" "mp_entries m' = mp_entries m" "\<exists>p. m' = m\<lparr>mp_prod := p\<rparr>"
  | ps p where "tx_Validate sha256 now (mc_Skew (mp_cfg m)) tx = None"
      "map_of (mp_entries m) (hashHex (env_ContentHash (tx_Envelope tx))) = None"
      "map_of (ps_nonces (producerOf now tx m)) (hexEncode (env_Nonce (tx_Envelope tx))) = None"
      "ps_nonces ps = ps_nonces (producerOf now tx m)"
      "placeEntry ord (makeEntry tx meta) now ps (m\<lparr>mp_prod := p\<rparr>) = (res, m')"
proof -
  let ?env = "tx_Envelope tx" and ?ps = "producerOf now tx m"
  obtain allowed b where ab: "rateCheck (mp_cfg m) now ?ps = (allowed, b)" by fastforce
  note run = mempool_Add_run [OF ab, of sha256 ord meta, unfolded assms]
  have same: "\<exists>p. m = m\<lparr>mp_prod := p\<rparr>" by (rule exI [of _ "mp_prod m"]) simp
  consider "tx_Validate sha256 now (mc_Skew (mp_cfg m)) tx \<noteq> None"
    | "tx_Validate sha256 now (mc_Skew (mp_cfg m)) tx = None"
      "map_of (mp_entries m) (hashHex (env_ContentHash ?env)) \<noteq> None \<or>
       map_of (ps_nonces ?ps) (hexEncode (env_Nonce ?env)) \<noteq> None \<or> \<not> allowed"
    | "tx_Validate sha256 now (mc_Skew (mp_cfg m)) tx = None"
      "map_of (mp_entries m) (hashHex (env_ContentHash ?env)) = None"
      "map_of (ps_nonces ?ps) (hexEncode (env_Nonce ?env)) = None" allowed
    by blast
  then show thesis
  proof cases
    case 1
    then show thesis using run same by (intro that(1)) auto
  next
    case 2
    then show thesis using run same by (intro that(1)) (auto split: if_splits)
  next
    case 3
    then show thesis using run by (intro that(2) [of "?ps\<lparr>ps_bucket := b\<rparr>"]) auto
  qed
qed

lemma makeEntry_new:
  "map_of (mp_entries m) (hashHex (env_ContentHash (tx_Envelope tx))) = None \<Longrightarrow> entry_new (makeEntry tx meta) m"
  by (simp add: entry_new_def makeEntry_def Let_def)

lemma mempool_Add_inv:
  assumes "iter_order ord" and "mempool_inv m" and "mempool_Add sha256 ord tx meta now m = (res, m')"
  shows "mempool_inv m'"
  using assms(3)
proof (cases rule: mempool_Add_cases)
  case 1
  then show ?thesis using assms(2) by auto
next
  case (2 ps p)
  then show ?thesis
    using assms(2) by (intro placeEntry_sound(1) [OF assms(1) _ makeEntry_new 2(5)]) auto
qed

lemma books_removeHash: "books_ok m \<Longrightarrow> books_ok (removeHash h m)"
  by (auto simp: removeHash_def split: option.splits intro: books_drop)

lemma within_caps_drop:
  assumes "mempool_inv m" and "map_of (mp_entries m) k = Some v"
  shows "within_caps (dropEntry k v m)"
proof (rule only_lower_caps [where e = "v\<lparr>me_Ts := me_Ts v - 1\<rparr>"])
  show "only_lower (v\<lparr>me_Ts := me_Ts v - 1\<rparr>) m (dropEntry k v m)"
    using assms by (intro only_lower_drop) (auto simp: mempool_inv_def lessPriority_def)
qed (use assms in \<open>auto simp: mempool_inv_def intro: books_drop\<close>)

definition pool_inv :: "mempool \<Rightarrow> bool" where
  "pool_inv m \<longleftrightarrow> books_ok m \<and> within_caps m"

lemma pool_inv_drop: "pool_inv m \<Longrightarrow> map_of (mp_entries m) k = Some v \<Longrightarrow> pool_inv (dropEntry k v m)"
proof -
  assume m: "pool_inv m" "map_of (mp_entries m) k = Some v"
  have "only_lower (v\<lparr>me_Ts := me_Ts v - 1\<rparr>) m (dropEntry k v m)"
    using m by (intro only_lower_drop) (auto simp: pool_inv_def lessPriority_def)
  then show ?thesis
    using m books_drop(1) only_lower_caps by (metis pool_inv_def)
qed

lemma pool_inv_removeHash: "pool_inv m \<Longrightarrow> pool_inv (removeHash h m)"
  by (auto simp: removeHash_def intro: pool_inv_drop split: option.splits)

lemma pool_inv_rebuild: "iter_order ord \<Longrightarrow> pool_inv m \<Longrightarrow> mempool_inv (rebuildEvictHeapLocked ord m)"
  by (auto simp: pool_inv_def mempool_inv_def rebuild_ok within_caps_def classCap_def)

lemma mempool_Remove_inv:
  assumes "iter_order ord" and "mempool_inv m"
  shows "mempool_inv (mempool_Remove ord hashes m)"
proof -
  have "pool_inv m \<Longrightarrow> pool_inv (fold removeHash hashes m)" for m
    by (induction hashes arbitrary: m) (auto intro: pool_inv_removeHash)
  then show ?thesis
    using assms by (auto simp: mempool_Remove_def mempool_inv_def [of m] pool_inv_def intro!: pool_inv_rebuild)
qed

lemma pool_inv_drop_all:
  assumes "pool_inv m" and "distinct (keys_of vs)" and "\<And>k v. (k, v) \<in> set vs \<Longrightarrow> map_of (mp_entries m) k = Some v"
  shows "pool_inv (fold (\<lambda>(k, e). dropEntry k e) vs m)"
  using assms
proof (induction vs arbitrary: m)
  case (Cons x vs)
  obtain k v where x: "x = (k, v)" by fastforce
  have "pool_inv (dropEntry k v m)"
    using Cons.prems x by (intro pool_inv_drop) auto
  moreover have "map_of (mp_entries (dropEntry k v m)) k' = Some v'" if "(k', v') \<in> set vs" for k' v'
    using Cons.prems that x by (auto simp: pool_inv_def books_ok_def) force
  ultimately show ?case
    using Cons x by auto
qed simp

lemma mempool_RemoveByProducerNonces_inv:
  assumes "iter_order ord" and "mempool_inv m"
  shows "mempool_inv (mempool_RemoveByProducerNonces ord keys m)"
proof -
  let ?ids = "map (\<lambda>(p, n). nonceId p n) (filter (\<lambda>(p, n). p \<noteq> [] \<and> n \<noteq> []) keys)"
  let ?vs = "filter (\<lambda>(k, e). nonceId (me_ProducerID e) (me_Nonce e) \<in> set ?ids) (ord (mp_entries m))"
  have books: "gm_wf (mp_entries m)" using assms(2) by (simp add: mempool_inv_def books_ok_def)
  then have "gm_wf ?vs" using assms(1) by (intro gm_wf_filter) (simp add: iter_order_wf)
  moreover have "map_of (mp_entries m) k = Some v" if "(k, v) \<in> set ?vs" for k v
    using that books assms(1) by (auto simp: iter_order_set gm_mem_iff)
  ultimately have "pool_inv (fold (\<lambda>(k, e). dropEntry k e) ?vs m)"
    using assms(2) by (intro pool_inv_drop_all) (auto simp: mempool_inv_def pool_inv_def gm_wf_def)
  then show ?thesis
    using assms by (auto simp: mempool_RemoveByProducerNonces_def Let_def intro: pool_inv_rebuild)
qed

inductive mempool_step :: "sha \<Rightarrow> mempool \<Rightarrow> mempool \<Rightarrow> bool" for sha256 where
  add: "iter_order ord \<Longrightarrow> mempool_Add sha256 ord tx meta now m = (res, m') \<Longrightarrow> mempool_step sha256 m m'"
| admit: "iter_order ord \<Longrightarrow> mempool_Admit sha256 verify ord tx meta now m = (res, m') \<Longrightarrow> mempool_step sha256 m m'"
| remove: "iter_order ord \<Longrightarrow> mempool_step sha256 m (mempool_Remove ord hashes m)"
| removeNonces: "iter_order ord \<Longrightarrow> mempool_step sha256 m (mempool_RemoveByProducerNonces ord keys m)"

lemma mempool_step_inv: "mempool_step sha256 m m' \<Longrightarrow> mempool_inv m \<Longrightarrow> mempool_inv m'"
proof (induction rule: mempool_step.induct)
  case (admit ord verify tx meta now m res m')
  then show ?case by (auto simp: mempool_Admit_def split: option.splits intro: mempool_Add_inv)
qed (auto intro: mempool_Add_inv mempool_Remove_inv mempool_RemoveByProducerNonces_inv)

lemma insertEntry_cfg [simp]: "mp_cfg (insertEntry e now ps m) = mp_cfg m"
  by (simp add: insertEntry_def)

lemma mempool_Add_cfg:
  assumes "iter_order ord" and "mempool_inv m" and "mempool_Add sha256 ord tx meta now m = (res, m')"
  shows "mp_cfg m' = mp_cfg m"
  using assms(3)
proof (cases rule: mempool_Add_cases)
  case (2 ps p)
  have inv: "mempool_inv (m\<lparr>mp_prod := p\<rparr>)" "entry_new (makeEntry tx meta) (m\<lparr>mp_prod := p\<rparr>)"
    using assms(2) makeEntry_new [of "m\<lparr>mp_prod := p\<rparr>" tx meta] 2(2) by simp_all
  show ?thesis
    using placeEntry_sound(2,3) [OF assms(1) inv 2(5)] by (cases res) (auto simp: only_lower_def)
qed auto

lemma fold_cfg: "(\<And>x m. mp_cfg (f x m) = mp_cfg m) \<Longrightarrow> mp_cfg (fold f xs m) = mp_cfg m"
  by (induction xs arbitrary: m) auto

lemma removeHash_cfg [simp]: "mp_cfg (removeHash h m) = mp_cfg m"
  by (simp add: removeHash_def split: option.split)

lemma mempool_step_cfg: "mempool_step sha256 m m' \<Longrightarrow> mempool_inv m \<Longrightarrow> mp_cfg m' = mp_cfg m"
proof (induction rule: mempool_step.induct)
  case (admit ord verify tx meta now m res m')
  then show ?case by (auto simp: mempool_Admit_def split: option.splits dest: mempool_Add_cfg)
qed (auto simp: mempool_Remove_def mempool_RemoveByProducerNonces_def Let_def fold_cfg split_beta dest: mempool_Add_cfg)

interpretation pool: step_invariant "mempool_step sha256" "\<lambda>m. mempool_inv m \<and> mp_cfg m = cfg" for sha256 cfg
  by unfold_locales (auto dest: mempool_step_inv mempool_step_cfg)

lemma mempool_New_inv [inv_intros]: "mempool_inv (mempool_New cfg)"
  using class_cases
  by (auto simp: mempool_inv_def mempool_New_def books_ok_def heap_ok_def heap_upto_def within_caps_def classCount_def)

lemma mempool_reachable:
  "(mempool_step sha256)\<^sup>*\<^sup>* (mempool_New cfg) m \<Longrightarrow> mempool_inv m \<and> mp_cfg m = cfg"
  by (rule pool.run_keeps_inv) (auto simp: mempool_New_inv, simp add: mempool_New_def)

subsection \<open>What the pool guarantees\<close>

lemma bytesOf_mset: "bytesOf (mset es) = sum_list (map (\<lambda>(k, e). me_Size e) es)"
  by (induction es) (auto simp: bytesOf_def)

lemma classOf_mset: "classOf c (mset es) = int (length (filter (\<lambda>(k, e). me_PriorityClass e = c) es))"
  by (induction es) (auto simp: classOf_def)


text \<open>
  An admission that succeeds puts the transaction into the pool, and whatever it
  displaced had a lower priority; nothing else is lost.
\<close>

theorem Add_evicts_lower:
  assumes "(mempool_step sha256)\<^sup>*\<^sup>* (mempool_New cfg) m" and "iter_order ord"
    and "mempool_Add sha256 ord tx meta now m = (None, m')"
  shows "map_of (mp_entries m') (hashHex (env_ContentHash (tx_Envelope tx))) = Some (makeEntry tx meta)
    \<and> (map_of (mp_entries m) k = Some e \<longrightarrow> map_of (mp_entries m') k = Some e \<or> lessPriority (makeEntry tx meta) e)"
  using assms(3)
proof (cases rule: mempool_Add_cases)
  case (2 ps p)
  let ?n = "m\<lparr>mp_prod := p\<rparr>"
  have inv: "mempool_inv ?n" "entry_new (makeEntry tx meta) ?n"
    using mempool_reachable [OF assms(1)] makeEntry_new [of ?n tx meta] 2(2) by simp_all
  obtain n where n: "only_lower (makeEntry tx meta) ?n n" "m' = insertEntry (makeEntry tx meta) now ps n"
    using placeEntry_sound(3) [OF assms(2) inv 2(5)] by auto
  have key: "hashHex (me_Hash (makeEntry tx meta)) = hashHex (env_ContentHash (tx_Envelope tx))"
    by (simp add: makeEntry_def Let_def)
  have "map_of (mp_entries n) k = map_of (mp_entries m) k
      \<or> map_of (mp_entries n) k = None \<and> (\<exists>v. map_of (mp_entries m) k = Some v \<and> lessPriority (makeEntry tx meta) v)"
    using n(1) by (simp add: only_lower_def)
  then show ?thesis
    using 2(2) by (auto simp: n(2) insertEntry_def key)
qed simp

lemma selectLoop_prefix:
  assumes "int (length out) \<le> maxCount \<or> maxCount \<le> 0" and "tot \<le> maxBytes \<or> maxBytes \<le> 0"
  shows "\<exists>n. selectLoop maxCount maxBytes tot out es = out @ map me_Tx (take n es)
    \<and> (int (length (selectLoop maxCount maxBytes tot out es)) \<le> maxCount \<or> maxCount \<le> 0)
    \<and> (tot + sum_list (map me_Size (take n es)) \<le> maxBytes \<or> maxBytes \<le> 0)"
  using assms
proof (induction es arbitrary: tot out)
  case Nil
  then show ?case by simp
next
  case (Cons e es)
  show ?case
  proof (cases "maxCount > 0 \<and> int (length out) \<ge> maxCount \<or> maxBytes > 0 \<and> tot + me_Size e > maxBytes")
    case True
    then show ?thesis using Cons.prems by (intro exI [of _ 0]) auto
  next
    case False
    then have pre: "int (length (out @ [me_Tx e])) \<le> maxCount \<or> maxCount \<le> 0" "tot + me_Size e \<le> maxBytes \<or> maxBytes \<le> 0"
      by auto
    from Cons.IH [OF pre] obtain n where "selectLoop maxCount maxBytes (tot + me_Size e) (out @ [me_Tx e]) es
          = (out @ [me_Tx e]) @ map me_Tx (take n es)
        \<and> (int (length (selectLoop maxCount maxBytes (tot + me_Size e) (out @ [me_Tx e]) es)) \<le> maxCount \<or> maxCount \<le> 0)
        \<and> (tot + me_Size e + sum_list (map me_Size (take n es)) \<le> maxBytes \<or> maxBytes \<le> 0)"
      by blast
    then show ?thesis using False by (intro exI [of _ "Suc n"]) (auto simp: algebra_simps)
  qed
qed

lemma entries_prio_distinct:
  assumes "books_ok m"
  shows "distinct (map prio (map snd (mp_entries m)))"
proof -
  have "inj_on (prio \<circ> snd) (set (mp_entries m))"
  proof (rule inj_onI, clarify)
    fix k v k' v' assume mem: "(k, v) \<in> set (mp_entries m)" "(k', v') \<in> set (mp_entries m)"
      and "(prio \<circ> snd) (k, v) = (prio \<circ> snd) (k', v')"
    then have "me_Hash v = me_Hash v'" by (simp add: prio_def)
    moreover have "entry_wf (k, v)" "entry_wf (k', v')"
      using mem assms by (auto simp: books_ok_def list_all_iff)
    ultimately have "k = k'" by (simp add: entry_wf_def)
    moreover have "map_of (mp_entries m) k = Some v" "map_of (mp_entries m) k' = Some v'"
      using mem assms by (auto simp: books_ok_def gm_mem_iff)
    ultimately show "k = k' \<and> v = v'" by simp
  qed
  then show ?thesis
    using assms by (simp add: distinct_map books_ok_def gm_wf_def)
qed

text \<open>
  Selection is deterministic: whatever order the map is visited in, it returns the longest
  prefix of the pool in priority order that the limits allow, and no more than they allow.
\<close>

theorem Select_priority_prefix:
  assumes "(mempool_step sha256)\<^sup>*\<^sup>* (mempool_New cfg) m" and "iter_order ord" and "0 < maxCount" and "0 < maxBytes"
  shows "\<exists>n. let chosen = take n (sort_key prio (map snd (mp_entries m))) in
    mempool_Select ord maxCount maxBytes m = map me_Tx chosen
    \<and> int (length chosen) \<le> maxCount \<and> sum_list (map me_Size chosen) \<le> maxBytes"
proof -
  have books: "books_ok m" using mempool_reachable [OF assms(1)] by (simp add: mempool_inv_def)
  have perm: "mset (map snd (ord (mp_entries m))) = mset (map snd (mp_entries m))"
    using assms(2) by (simp add: iter_order_def)
  have dist: "distinct (map prio (map snd (mp_entries m)))"
    using books by (rule entries_prio_distinct)
  then have dist': "distinct (map prio (map snd (ord (mp_entries m))))"
    using perm by (metis mset_eq_imp_distinct_iff mset_map)
  have "sliceStable lessPriority (map snd (ord (mp_entries m))) = sort_key prio (map snd (ord (mp_entries m)))"
    using dist' by (intro sliceStable_key) (auto simp: lessPriority_iff)
  also have "\<dots> = sort_key prio (map snd (mp_entries m))"
    using perm dist' by (rule sort_key_perm)
  finally show ?thesis
    using selectLoop_prefix [of "[]" maxCount 0 maxBytes "sort_key prio (map snd (mp_entries m))"] assms(3,4)
    by (auto simp: mempool_Select_def Let_def)
qed

text \<open>
  A nonce is used once within its lifetime: after an admission, another transaction with
  the same producer and nonce is refused until the lifetime has passed, whatever its content, and
  the transactions of the pool are untouched by the attempt.
\<close>

theorem nonce_replay_refused:
  assumes "(mempool_step sha256)\<^sup>*\<^sup>* (mempool_New cfg) m" and "iter_order ord"
    and "mempool_Add sha256 ord tx meta now m = (None, m')"
    and "env_ProducerID (tx_Envelope tx') = env_ProducerID (tx_Envelope tx)"
    and "env_Nonce (tx_Envelope tx') = env_Nonce (tx_Envelope tx)"
    and "now' \<le> now + mc_NonceTTL cfg" and "mempool_Add sha256 ord' tx' meta' now' m' = (res, m'')"
  shows "res \<noteq> None \<and> mp_entries m'' = mp_entries m'"
proof -
  let ?pid = "hexEncode (env_ProducerID (tx_Envelope tx))" and ?nonce = "hexEncode (env_Nonce (tx_Envelope tx))"
  have wf: "mempool_inv m" "mp_cfg m = cfg" using mempool_reachable [OF assms(1)] by auto
  obtain ps ps' :: producerState where prod: "map_of (mp_prod m') ?pid = Some ps'"
    "ps_nonces ps' = AList.update ?nonce (now + mc_NonceTTL cfg) (ps_nonces ps)" "ps_nonces ps = ps_nonces (producerOf now tx m)"
    using assms(3)
  proof (cases rule: mempool_Add_cases)
    case (2 ps p)
    have inv: "mempool_inv (m\<lparr>mp_prod := p\<rparr>)" "entry_new (makeEntry tx meta) (m\<lparr>mp_prod := p\<rparr>)"
      using wf makeEntry_new [of "m\<lparr>mp_prod := p\<rparr>" tx meta] 2(2) by simp_all
    obtain n where "only_lower (makeEntry tx meta) (m\<lparr>mp_prod := p\<rparr>) n" "m' = insertEntry (makeEntry tx meta) now ps n"
      using placeEntry_sound(3) [OF assms(2) inv 2(5)] by auto
    then show thesis
      using 2(4) wf(2) by (intro that [of _ ps]) (auto simp: insertEntry_def makeEntry_def Let_def only_lower_def)
  qed simp
  have "(?nonce, now + mc_NonceTTL cfg) \<in> set (ps_nonces ps')"
    by (rule map_of_SomeD) (simp add: prod(2))
  then have "(?nonce, now + mc_NonceTTL cfg) \<in> set (ps_nonces (producerOf now' tx' m'))"
    using assms(4,6) prod(1) by (simp add: producerOf_def cleanupNonces_def)
  then have live: "map_of (ps_nonces (producerOf now' tx' m')) ?nonce \<noteq> None"
    by (metis map_of_eq_None_iff fst_conv imageI set_map)
  from assms(7) show ?thesis
  proof (cases rule: mempool_Add_cases)
    case (2 ps p)
    then show ?thesis using live assms(5) by simp
  qed simp
qed

text \<open>
  A transaction is admitted only with a valid Ed25519 signature of its producer's key over its
  domain, time, producer, nonce and content hash, and with the content hash of its payload.
\<close>

theorem Admit_authentic:
  assumes "mempool_Admit sha256 verify ord tx meta now m = (None, m')"
  shows "\<exists>b. BuildSignBytes (tx_Domain tx) (tx_Timestamp tx) (env_ProducerID (tx_Envelope tx))
      (env_Nonce (tx_Envelope tx)) (env_ContentHash (tx_Envelope tx)) = Inr b
    \<and> verify (env_PubKey (tx_Envelope tx)) b (env_Signature (tx_Envelope tx))
    \<and> sha256 (tx_Payload tx) = env_ContentHash (tx_Envelope tx)"
proof -
  have "domainFor (tx_Type tx) = tx_Domain tx"
    by (cases tx) (simp_all add: domainFor_def)
  then show ?thesis
    using assms by (auto simp: mempool_Admit_def VerifyEnvelope_def Let_def ContentHash_def
        split: option.splits if_splits sum.splits)
qed

subsection \<open>A run\<close>

definition ex_mpcfg :: mpConfig where
  "ex_mpcfg = \<lparr>mc_MaxTxs = 10, mc_MaxBytes = 10, mc_MaxTxsP0 = 0, mc_MaxTxsP1 = 0, mc_MaxTxsP2 = 0,
     mc_NonceTTL = second, mc_Skew = second, mc_RatePerSecond = 0\<rparr>"

definition ex_mtx :: "nat \<Rightarrow> transaction" where
  "ex_mtx n = Tx_Event \<lparr>ev_Ts = 0, ev_Data = replicate n 1,
     ev_Env = (ex_envelope (replicate n 1))\<lparr>env_Nonce := replicate 16 (of_nat n), env_PubKey := replicate 32 1,
       env_Signature := replicate 64 2\<rparr>\<rparr>"

definition ex_meta :: "8 word \<Rightarrow> admissionMeta" where
  "ex_meta sev = \<lparr>am_Severity = sev, am_Confidence = 1, am_PriorityClass = ''p1''\<rparr>"

definition ex_nonce :: "nat \<Rightarrow> string" where
  "ex_nonce n = hexEncode (replicate 16 (of_nat n))"

definition ex_hash :: "nat \<Rightarrow> string" where
  "ex_hash n = hashHex (of_nat (n + 1))"

definition ex_entry :: "nat \<Rightarrow> 8 word \<Rightarrow> entry" where
  "ex_entry n sev = makeEntry (ex_mtx n) (ex_meta sev)"

definition ex_ps :: "nat list \<Rightarrow> producerState" where
  "ex_ps ns = (newProducer ex_mpcfg 0)\<lparr>ps_nonces := map (\<lambda>n. (ex_nonce n, second)) ns\<rparr>"

definition ex_pool :: "(nat \<times> 8 word) list \<Rightarrow> nat list \<Rightarrow> mempool" where
  "ex_pool es ns = \<lparr>mp_cfg = ex_mpcfg, mp_entries = map (\<lambda>(n, sev). (ex_hash n, ex_entry n sev)) es,
     mp_total = sum_list (map (int \<circ> fst) es), mp_evictHeap = map (\<lambda>(n, sev). ex_entry n sev) es,
     mp_prod = [(hexEncode [112], ex_ps ns)], mp_classCounts = [(''p0'', 0), (''p1'', int (length es)), (''p2'', 0)]\<rparr>"

lemma ex_mtx_valid: "n \<le> 100 \<Longrightarrow> tx_Validate ex_sha 0 second (ex_mtx n) = None"
  by (simp add: ex_mtx_def ex_envelope_def event_Validate_def validateCommon_def ValidateSize_def
      CheckSkew_def go_Unix_def go_Sub_def second_def millisecond_def size_limits MaxAlgSize_def ContentHash_def Let_def)

lemma ex_mtx_simps [simp]:
  "hexEncode (env_Nonce (tx_Envelope (ex_mtx n))) = ex_nonce n" "env_ProducerID (tx_Envelope (ex_mtx n)) = [112]"
  "hashHex (env_ContentHash (tx_Envelope (ex_mtx n))) = ex_hash n"
  by (simp_all add: ex_mtx_def ex_envelope_def ex_nonce_def ex_sha_def ex_hash_def)

lemma ex_entry_simps [simp]:
  "me_Size (ex_entry n sev) = int n" "hashHex (me_Hash (ex_entry n sev)) = ex_hash n"
  "me_PriorityClass (ex_entry n sev) = ''p1''" "me_Severity (ex_entry n sev) = sev"
  "hexEncode (me_Nonce (ex_entry n sev)) = ex_nonce n" "me_ProducerID (ex_entry n sev) = [112]"
  by (simp_all add: ex_entry_def makeEntry_def ex_mtx_def ex_envelope_def ex_sha_def ex_meta_def ex_nonce_def
      ex_hash_def normalize_fixed Let_def)

lemma ex_distinct [simp]:
  "ex_nonce 4 \<noteq> ex_nonce 5" "ex_nonce 4 \<noteq> ex_nonce 6" "ex_nonce 5 \<noteq> ex_nonce 6"
  "ex_hash 4 \<noteq> ex_hash 5" "ex_hash 4 \<noteq> ex_hash 6" "ex_hash 5 \<noteq> ex_hash 6"
  by (simp_all add: ex_nonce_def ex_hash_def)

lemmas ex_distinct' [simp] = ex_distinct [symmetric]

lemma ex_less: "a \<noteq> b \<Longrightarrow> lessPriority (ex_entry n a) (ex_entry k b) \<longleftrightarrow> a > b"
  by (simp add: lessPriority_def)

lemma ex_pool_fields [simp]:
  "mp_cfg (ex_pool es ns) = ex_mpcfg" "classCap (ex_pool es ns) c = 0"
  "length (mp_entries (ex_pool es ns)) = length es"
  "mc_MaxTxs ex_mpcfg = 10" "mc_MaxBytes ex_mpcfg = 10" "mc_Skew ex_mpcfg = second" "mc_NonceTTL ex_mpcfg = second"
  by (simp_all add: ex_pool_def classCap_def ex_mpcfg_def Let_def)

lemma ex_pool_total: "mp_total (ex_pool es ns) = int (sum_list (map fst es))"
  by (induction es) (auto simp: ex_pool_def)

lemma ex_room: "needRoom (ex_entry n sev) (ex_pool es ns) \<longleftrightarrow> 10 < sum_list (map fst es) + n \<or> 10 < length es + 1"
  by (auto simp: needRoom_def ex_pool_total)

lemma ex_producerOf [simp]:
  "producerOf 0 (ex_mtx n) (ex_pool es ns) = ex_ps ns" "producerOf 0 (ex_mtx n) (mempool_New ex_mpcfg) = ex_ps []"
  by (auto simp: producerOf_def ex_pool_def cleanupNonces_def ex_ps_def second_def millisecond_def filter_id_conv
      mempool_New_def newProducer_def)

lemma ex_rate: "rateCheck ex_mpcfg now ps = (True, ps_bucket ps)"
  by (simp add: rateCheck_def ex_mpcfg_def)

lemma ex_add:
  assumes "n \<le> 100" and "map_of (mp_entries (ex_pool es ns)) (ex_hash n) = None"
    and "map_of (ps_nonces (ex_ps ns)) (ex_nonce n) = None"
  shows "mempool_Add ex_sha id (ex_mtx n) (ex_meta sev) 0 (ex_pool es ns) =
    placeEntry id (ex_entry n sev) 0 (ex_ps ns) (ex_pool es ns)"
  using assms ex_mtx_valid [OF assms(1)] mempool_Add_run [of "ex_pool es ns" 0 "ex_mtx n" True "ps_bucket (ex_ps ns)" ex_sha id "ex_meta sev"]
  by (simp add: ex_rate ex_entry_def [symmetric]) (simp add: ex_pool_def)

lemma ex_add_new:
  "n \<le> 100 \<Longrightarrow> mempool_Add ex_sha id (ex_mtx n) (ex_meta sev) 0 (mempool_New ex_mpcfg) =
    placeEntry id (ex_entry n sev) 0 (ex_ps []) (ex_pool [] [])"
  using ex_mtx_valid [of n] mempool_Add_run [of "mempool_New ex_mpcfg" 0 "ex_mtx n" True "ps_bucket (ex_ps [])" ex_sha id "ex_meta sev"]
  by (simp add: ex_rate ex_entry_def [symmetric] mempool_New_def ex_pool_def ex_producerOf(2) [unfolded mempool_New_def] ex_mpcfg_def [symmetric])
    (simp add: ex_ps_def newProducer_def)

lemma evictLoop_done: "\<not> needRoom e m \<Longrightarrow> evictLoop e m = (None, m)"
  by (subst evictLoop.simps) simp

lemma evictLoop_full:
  "needRoom e m \<Longrightarrow> mp_evictHeap m = v # h \<Longrightarrow> map_of (mp_entries m) (hashHex (me_Hash v)) \<noteq> None \<Longrightarrow>
    \<not> lessPriority e v \<Longrightarrow> evictLoop e m = (Some ErrMempoolFull, m)"
  by (subst evictLoop.simps) (auto simp: Let_def)

lemma evictLoop_evict:
  "needRoom e m \<Longrightarrow> mp_evictHeap m = v # h \<Longrightarrow> map_of (mp_entries m) (hashHex (me_Hash v)) \<noteq> None \<Longrightarrow>
    lessPriority e v \<Longrightarrow>
    evictLoop e m = evictLoop e (dropEntry (hashHex (me_Hash v)) v (m\<lparr>mp_evictHeap := snd (heap_Pop heapLess (v # h))\<rparr>))"
  by (subst evictLoop.simps) (auto simp: Let_def)

lemma ex_push:
  "heap_Push heapLess x [] = [x]" "\<not> heapLess x y \<Longrightarrow> heap_Push heapLess x [y] = [y, x]"
  by (simp_all add: heap_Push_def heap_up.simps)

lemma ex_fill:
  "mempool_Add ex_sha id (ex_mtx 4) (ex_meta 1) 0 (mempool_New ex_mpcfg) = (None, ex_pool [(4, 1)] [4])"
  "mempool_Add ex_sha id (ex_mtx 5) (ex_meta 5) 0 (ex_pool [(4, 1)] [4]) = (None, ex_pool [(4, 1), (5, 5)] [4, 5])"
proof -
  have "placeEntry id (ex_entry 4 1) 0 (ex_ps []) (ex_pool [] []) = (None, insertEntry (ex_entry 4 1) 0 (ex_ps []) (ex_pool [] []))"
    by (simp add: placeEntry_def makeClassRoom_def evictLoop_done ex_room ex_pool_total)
  then show "mempool_Add ex_sha id (ex_mtx 4) (ex_meta 1) 0 (mempool_New ex_mpcfg) = (None, ex_pool [(4, 1)] [4])"
    by (simp add: ex_add_new) (simp add: insertEntry_def ex_pool_def classCount_def ex_ps_def ex_push)
  have "placeEntry id (ex_entry 5 5) 0 (ex_ps [4]) (ex_pool [(4, 1)] [4])
      = (None, insertEntry (ex_entry 5 5) 0 (ex_ps [4]) (ex_pool [(4, 1)] [4]))"
    by (simp add: placeEntry_def makeClassRoom_def evictLoop_done ex_room ex_pool_total)
  moreover have "insertEntry (ex_entry 5 5) 0 (ex_ps [4]) (ex_pool [(4, 1)] [4]) = ex_pool [(4, 1), (5, 5)] [4, 5]"
    by (simp add: insertEntry_def ex_pool_def classCount_def ex_ps_def ex_push heapLess_def ex_less)
  ultimately show "mempool_Add ex_sha id (ex_mtx 5) (ex_meta 5) 0 (ex_pool [(4, 1)] [4]) = (None, ex_pool [(4, 1), (5, 5)] [4, 5])"
    by (subst ex_add) (simp_all add: ex_pool_def ex_ps_def)
qed

lemma ex_evict:
  "evictLoop (ex_entry 6 3) (ex_pool [(4, 1), (5, 5)] ns) = (Some ErrMempoolFull, ex_pool [(5, 5)] ns)"
proof -
  have pop: "snd (heap_Pop heapLess [ex_entry 4 1, ex_entry 5 5]) = [ex_entry 5 5]"
    by (simp add: heap_Pop_def Let_def swap_def heap_down.simps)
  have "dropEntry (ex_hash 4) (ex_entry 4 1) (ex_pool [(4, 1), (5, 5)] ns\<lparr>mp_evictHeap := [ex_entry 5 5]\<rparr>) = ex_pool [(5, 5)] ns"
    by (simp add: dropEntry_def decClassCount_def classCount_def ex_pool_def normalize_fixed Let_def)
  moreover have "evictLoop (ex_entry 6 3) (ex_pool [(5, 5)] ns) = (Some ErrMempoolFull, ex_pool [(5, 5)] ns)"
    by (rule evictLoop_full [where v = "ex_entry 5 5" and h = "[]"]) (simp_all add: ex_room ex_less, simp_all add: ex_pool_def)
  ultimately show ?thesis
    by (subst evictLoop_evict [where v = "ex_entry 4 1" and h = "[ex_entry 5 5]"])
      (auto simp: ex_room ex_less pop, auto simp: ex_pool_def)
qed

text \<open>
  A refused admission can lose other transactions: the eviction loop removes a weaker
  transaction, meets a stronger one and gives up with \<open>ErrMempoolFull\<close>, without putting the weaker one
  back. Here the pool of the two transactions of 4 and 5 bytes and 10 bytes of room is offered a
  third one of 6 bytes.
\<close>

theorem refused_add_evicts:
  "(mempool_step ex_sha)\<^sup>*\<^sup>* (mempool_New ex_mpcfg) (ex_pool [(4, 1), (5, 5)] [4, 5]) \<and>
   fst (mempool_Add ex_sha id (ex_mtx 6) (ex_meta 3) 0 (ex_pool [(4, 1), (5, 5)] [4, 5])) = Some ErrMempoolFull \<and>
   map_of (mp_entries (ex_pool [(4, 1), (5, 5)] [4, 5])) (ex_hash 4) = Some (ex_entry 4 1) \<and>
   map_of (mp_entries (snd (mempool_Add ex_sha id (ex_mtx 6) (ex_meta 3) 0 (ex_pool [(4, 1), (5, 5)] [4, 5])))) (ex_hash 4) = None"
proof -
  have "(mempool_step ex_sha)\<^sup>*\<^sup>* (mempool_New ex_mpcfg) (ex_pool [(4, 1)] [4])"
    by (rule r_into_rtranclp, rule mempool_step.add [OF iter_order_id' ex_fill(1)])
  then have run: "(mempool_step ex_sha)\<^sup>*\<^sup>* (mempool_New ex_mpcfg) (ex_pool [(4, 1), (5, 5)] [4, 5])"
    by (rule rtranclp.rtrancl_into_rtrancl) (rule mempool_step.add [OF iter_order_id' ex_fill(2)])
  have "mempool_Add ex_sha id (ex_mtx 6) (ex_meta 3) 0 (ex_pool [(4, 1), (5, 5)] [4, 5]) =
      placeEntry id (ex_entry 6 3) 0 (ex_ps [4, 5]) (ex_pool [(4, 1), (5, 5)] [4, 5])"
    by (rule ex_add) (simp_all add: ex_pool_def ex_ps_def)
  also have "\<dots> = (Some ErrMempoolFull, ex_pool [(5, 5)] [4, 5])"
    by (simp add: placeEntry_def makeClassRoom_def ex_evict)
  finally show ?thesis
    using run by (simp add: ex_pool_def)
qed

lemma ex_reach: "(mempool_step ex_sha)\<^sup>*\<^sup>* (mempool_New ex_mpcfg) (ex_pool [(4, 1)] [4])"
  by (rule r_into_rtranclp, rule mempool_step.add [OF iter_order_id' ex_fill(1)])


theorem Add_evicts_lower_witness:
  "map_of (mp_entries (ex_pool [(4, 1), (5, 5)] [4, 5])) (ex_hash 5) = Some (ex_entry 5 5)"
  using Add_evicts_lower [OF ex_reach iter_order_id' ex_fill(2)] by (simp add: ex_entry_def)

theorem Select_priority_prefix_witness:
  "\<exists>n. mempool_Select rev 3 8 (ex_pool [(4, 1)] [4]) = map me_Tx (take n [ex_entry 4 1])"
  using Select_priority_prefix [OF ex_reach iter_order_rev, of 3 8] by (auto simp: Let_def ex_pool_def)

theorem nonce_replay_refused_witness:
  "fst (mempool_Add ex_sha id (ex_mtx 4) (ex_meta 9) second (ex_pool [(4, 1)] [4])) \<noteq> None"
proof -
  obtain res m'' where run: "mempool_Add ex_sha id (ex_mtx 4) (ex_meta 9) second (ex_pool [(4, 1)] [4]) = (res, m'')"
    by fastforce
  have "second \<le> 0 + mc_NonceTTL ex_mpcfg" by simp
  from nonce_replay_refused [OF rtranclp.rtrancl_refl iter_order_id' ex_fill(1) refl refl this run] run
  show ?thesis by simp
qed

theorem Admit_authentic_witness:
  "\<exists>b. BuildSignBytes ''APP_EVENT_V1'' 0 [112] (replicate 16 4) (ex_sha (replicate 4 1)) = Inr b \<and> hd b = 65"
proof -
  let ?verify = "\<lambda>pk b sig. hd b = (65 :: byte)"
  have "ToUpper ''ed25519'' = ''ED25519''" by code_simp
  then have "VerifyEnvelope ex_sha ?verify (ex_mtx 4) = None"
    by (simp add: VerifyEnvelope_def ex_mtx_def ex_envelope_def ContentHash_def
        BuildSignBytes_def domainFor_def domain_prefix_def string_bytes_def size_limits Let_def)
  then have "mempool_Admit ex_sha ?verify id (ex_mtx 4) (ex_meta 1) 0 (mempool_New ex_mpcfg) = (None, ex_pool [(4, 1)] [4])"
    by (simp add: mempool_Admit_def ex_fill)
  from Admit_authentic [OF this] show ?thesis
    by (simp add: ex_mtx_def ex_envelope_def)
qed

end
