(* ===== verification/Block.thy ===== *)
theory Block
  imports Mempool
begin

text \<open>
  Blocks of \<^verbatim>\<open>backend/pkg/block\<close>: the application block, its header hash and its wire form
  (\<^verbatim>\<open>types.go\<close>), and the builder that picks transactions from the pool under limits, with
  reserved places for policies and fair shares per producer (\<^verbatim>\<open>builder.go\<close>).

  \<^verbatim>\<open>json.Unmarshal\<close> is the argument \<open>unmarshal\<close>. A \<^verbatim>\<open>float64\<close> threshold is a
  rational. The closure \<^verbatim>\<open>appendTx\<close> works on the accumulator \<open>buildAcc\<close>. A nil slice and an empty one
  are not told apart: nothing here does.
\<close>

subsection \<open>Blocks\<close>

record appBlock =
  ab_height :: u64
  ab_parentHash :: hash32
  ab_txRoot :: hash32
  ab_stateRootHint :: hash32
  ab_proposerID :: validatorID
  ab_timestamp :: instant
  ab_hash :: hash32
  ab_txCount :: nat
  ab_txs :: "transaction list"

record appTxPayload =
  tp_Type :: string
  tp_Timestamp :: int
  tp_Payload :: bytes
  tp_Envelope :: envelope
  tp_CoC :: "cocEntry list"

record appBlockPayload =
  bp_Height :: u64
  bp_ParentHash :: hash32
  bp_TxRoot :: hash32
  bp_StateRootHint :: hash32
  bp_Proposer :: validatorID
  bp_Timestamp :: instant
  bp_Transactions :: "appTxPayload list"

datatype block_error = UnsupportedTransactionType string | TransactionRootMismatch hash32 hash32

definition headerBytes :: "appBlock \<Rightarrow> bytes" where
  "headerBytes b = domain_prefix ''BLOCK_HEADER_V1'' @ be_bytes 8 (ab_height b) @ be_bytes 32 (ab_parentHash b)
     @ be_bytes 32 (ab_txRoot b) @ be_bytes 32 (ab_stateRootHint b) @ be_bytes 32 (ab_proposerID b)
     @ i64 (ab_timestamp b div second)"

definition computeHeaderHash :: "sha \<Rightarrow> appBlock \<Rightarrow> hash32" where
  "computeHeaderHash sha256 b = sha256 (headerBytes b)"

definition NewAppBlock ::
    "sha \<Rightarrow> u64 \<Rightarrow> hash32 \<Rightarrow> hash32 \<Rightarrow> hash32 \<Rightarrow> validatorID \<Rightarrow> instant \<Rightarrow> transaction list \<Rightarrow> appBlock" where
  "NewAppBlock sha256 height parent txRoot stateRootHint proposer ts txs =
     (let b = \<lparr>ab_height = height, ab_parentHash = parent, ab_txRoot = txRoot, ab_stateRootHint = stateRootHint,
               ab_proposerID = proposer, ab_timestamp = ts, ab_hash = 0, ab_txCount = length txs, ab_txs = txs\<rparr> in
      b\<lparr>ab_hash := computeHeaderHash sha256 b\<rparr>)"

definition NewAppBlockHeader ::
    "sha \<Rightarrow> u64 \<Rightarrow> hash32 \<Rightarrow> hash32 \<Rightarrow> hash32 \<Rightarrow> validatorID \<Rightarrow> instant \<Rightarrow> nat \<Rightarrow> appBlock" where
  "NewAppBlockHeader sha256 height parent txRoot stateRootHint proposer ts txCount =
     (let b = \<lparr>ab_height = height, ab_parentHash = parent, ab_txRoot = txRoot, ab_stateRootHint = stateRootHint,
               ab_proposerID = proposer, ab_timestamp = ts, ab_hash = 0, ab_txCount = txCount, ab_txs = []\<rparr> in
      b\<lparr>ab_hash := computeHeaderHash sha256 b\<rparr>)"

definition contentKey :: "transaction \<Rightarrow> kvPair" where
  "contentKey tx = (be_bytes 32 (env_ContentHash (tx_Envelope tx)), [])"

definition computeTxRoot :: "sha \<Rightarrow> transaction list \<Rightarrow> hash32" where
  "computeTxRoot sha256 txs = (if txs = [] then sha256 [] else BuildRoot sha256 (map contentKey txs))"

fun txToPayload :: "transaction \<Rightarrow> appTxPayload" where
  "txToPayload (Tx_Event t) = \<lparr>tp_Type = ''event'', tp_Timestamp = ev_Ts t, tp_Payload = ev_Data t,
     tp_Envelope = ev_Env t, tp_CoC = []\<rparr>"
| "txToPayload (Tx_Evidence t) = \<lparr>tp_Type = ''evidence'', tp_Timestamp = evi_Ts t, tp_Payload = evi_Data t,
     tp_Envelope = evi_Env t, tp_CoC = evi_CoC t\<rparr>"
| "txToPayload (Tx_Policy t) = \<lparr>tp_Type = ''policy'', tp_Timestamp = pol_Ts t, tp_Payload = pol_Data t,
     tp_Envelope = pol_Env t, tp_CoC = []\<rparr>"

definition ToPayload :: "appBlock \<Rightarrow> appBlockPayload" where
  "ToPayload b = \<lparr>bp_Height = ab_height b, bp_ParentHash = ab_parentHash b, bp_TxRoot = ab_txRoot b,
     bp_StateRootHint = ab_stateRootHint b, bp_Proposer = ab_proposerID b, bp_Timestamp = ab_timestamp b,
     bp_Transactions = map txToPayload (ab_txs b)\<rparr>"

definition txFromPayload :: "appTxPayload \<Rightarrow> block_error + transaction" where
  "txFromPayload p =
     (if tp_Type p = ''event''
      then Inr (Tx_Event \<lparr>ev_Ts = tp_Timestamp p, ev_Data = tp_Payload p, ev_Env = tp_Envelope p\<rparr>)
      else if tp_Type p = ''evidence''
      then Inr (Tx_Evidence \<lparr>evi_Ts = tp_Timestamp p, evi_Data = tp_Payload p, evi_Env = tp_Envelope p, evi_CoC = tp_CoC p\<rparr>)
      else if tp_Type p = ''policy''
      then Inr (Tx_Policy \<lparr>pol_Ts = tp_Timestamp p, pol_Data = tp_Payload p, pol_Env = tp_Envelope p\<rparr>)
      else Inl (UnsupportedTransactionType (tp_Type p)))"

fun txsFromPayload :: "appTxPayload list \<Rightarrow> block_error + transaction list" where
  "txsFromPayload [] = Inr []"
| "txsFromPayload (p # ps) =
     andThen (txFromPayload p) (\<lambda>t. andThen (txsFromPayload ps) (\<lambda>ts. Inr (t # ts)))"

text \<open>
  \<^verbatim>\<open>ToAppBlock\<close> repairs the root of an empty payload in place, so the payload is part of the
  result.
\<close>

definition ToAppBlock :: "sha \<Rightarrow> appBlockPayload \<Rightarrow> (block_error + appBlock) \<times> appBlockPayload" where
  "ToAppBlock sha256 p =
     (case txsFromPayload (bp_Transactions p) of
        Inl e \<Rightarrow> (Inl e, p)
      | Inr txs \<Rightarrow>
          let computedRoot = computeTxRoot sha256 txs;
              finish = (\<lambda>p. (Inr (NewAppBlock sha256 (bp_Height p) (bp_ParentHash p) (bp_TxRoot p)
                 (bp_StateRootHint p) (bp_Proposer p) (bp_Timestamp p) txs), p)) in
          if computedRoot \<noteq> bp_TxRoot p then
            if txs = [] \<and> bp_TxRoot p = 0 \<and> computedRoot = sha256 [] then finish (p\<lparr>bp_TxRoot := computedRoot\<rparr>)
            else (Inl (TransactionRootMismatch (bp_TxRoot p) computedRoot), p)
          else finish p)"

subsection \<open>The builder\<close>

record blockConfig =
  bc_MaxTxsPerBlock :: int
  bc_MaxBlockBytes :: int
  bc_ProposalSizeReserveBytes :: int
  bc_MinMempoolTxs :: int
  bc_BuildInterval :: duration
  bc_PolicyPriorityMinTxs :: int
  bc_P0PriorityMinTxs :: int
  bc_MempoolCapacity :: int
  bc_BackpressureThreshold :: rat
  bc_LatencyThresholdSeconds :: int
  bc_MaxTxsBackpressure :: int
  bc_MaxTxsLatency :: int
  bc_FairShareEnabled :: bool
  bc_FairShareMaxPerProducer :: int

record builderStats =
  bs_P0ReservedPickTotal :: u64
  bs_FairSharePickTotal :: u64
  bs_FairShareRoundsTotal :: u64
  bs_FairShareStarvedTotal :: u64

definition json_lookup :: "(string, json) gomap \<Rightarrow> string \<Rightarrow> string" where
  "json_lookup m key = (case map_of m key of Some (JString s) \<Rightarrow> ToLower (TrimSpace s) | _ \<Rightarrow> [])"

definition criticalAction :: "string \<Rightarrow> bool" where
  "criticalAction a \<longleftrightarrow> a \<in> {''drop'', ''reject'', ''freeze'', ''block'', ''remove''}"

definition isP0CriticalTx :: "(bytes \<Rightarrow> (string, json) gomap option) \<Rightarrow> transaction \<Rightarrow> bool" where
  "isP0CriticalTx unmarshal tx \<longleftrightarrow>
     tx_Type tx = ''policy'' \<and> tx_Payload tx \<noteq> [] \<and>
     (case unmarshal (tx_Payload tx) of
        None \<Rightarrow> False
      | Some rt \<Rightarrow>
          let nested = (case map_of rt ''params'' of Some (JObject o1) \<Rightarrow> Some o1 | _ \<Rightarrow> None);
              pick = (\<lambda>key. let v = json_lookup rt key in
                        case nested of Some n \<Rightarrow> if v = [] then json_lookup n key else v | None \<Rightarrow> v) in
          criticalAction (pick ''control_action'') \<or> criticalAction (pick ''action''))"

record buildAcc =
  ac_txs :: "transaction list"
  ac_selected :: "hash32 list"
  ac_bytes :: int

record buildLimits =
  bl_maxCount :: int
  bl_maxBytes :: int
  bl_exclusions :: "hash32 list"

definition appendTx :: "buildLimits \<Rightarrow> buildAcc \<Rightarrow> transaction \<Rightarrow> bool \<times> buildAcc" where
  "appendTx lm acc tx =
     (let h = env_ContentHash (tx_Envelope tx); size = int (length (tx_Payload tx)) in
      if h \<in> set (ac_selected acc) then (False, acc)
      else if h \<in> set (bl_exclusions lm) then (False, acc)
      else if bl_maxBytes lm > 0 \<and> ac_bytes acc + size > bl_maxBytes lm then (False, acc)
      else if bl_maxCount lm > 0 \<and> int (length (ac_txs acc)) \<ge> bl_maxCount lm then (False, acc)
      else (True, acc\<lparr>ac_txs := ac_txs acc @ [tx], ac_selected := h # ac_selected acc, ac_bytes := ac_bytes acc + size\<rparr>))"

text \<open>The reservation loops: at most \<open>floor\<close> transactions that pass a test; the number picked is returned.\<close>

fun reserve :: "buildLimits \<Rightarrow> (transaction \<Rightarrow> bool) \<Rightarrow> int \<Rightarrow> transaction list \<Rightarrow> int \<Rightarrow> buildAcc \<Rightarrow> int \<times> buildAcc" where
  "reserve lm P flr [] picked acc = (picked, acc)"
| "reserve lm P flr (tx # txs) picked acc =
     (if \<not> P tx then reserve lm P flr txs picked acc
      else case appendTx lm acc tx of
        (True, acc') \<Rightarrow> if picked + 1 \<ge> flr then (picked + 1, acc') else reserve lm P flr txs (picked + 1) acc'
      | (False, acc') \<Rightarrow> reserve lm P flr txs picked acc')"

fun appendInOrder :: "buildLimits \<Rightarrow> transaction list \<Rightarrow> buildAcc \<Rightarrow> buildAcc" where
  "appendInOrder lm [] acc = acc"
| "appendInOrder lm (tx # txs) acc =
     (let acc' = snd (appendTx lm acc tx) in
      if bl_maxCount lm > 0 \<and> int (length (ac_txs acc')) \<ge> bl_maxCount lm then acc'
      else appendInOrder lm txs acc')"

subsection \<open>Fair shares\<close>

record fairState =
  fs_queues :: "(string, transaction list) gomap"
  fs_selected :: "(string, int) gomap"
  fs_picks :: int
  fs_rounds :: int
  fs_starved :: int
  fs_maxCount :: int
  fs_acc :: buildAcc
  fs_progress :: bool
  fs_done :: bool

definition producerKey :: "transaction \<Rightarrow> string" where
  "producerKey tx = hexEncode (env_ProducerID (tx_Envelope tx))"

definition queueOf :: "fairState \<Rightarrow> string \<Rightarrow> transaction list" where
  "queueOf st p = (case map_of (fs_queues st) p of None \<Rightarrow> [] | Some q \<Rightarrow> q)"

definition enqueueTx :: "transaction \<Rightarrow> (string, transaction list) gomap \<times> string list \<Rightarrow> (string, transaction list) gomap \<times> string list" where
  "enqueueTx tx qo =
     (let p = producerKey tx; qs = fst qo in
      (AList.update p ((case map_of qs p of None \<Rightarrow> [] | Some q \<Rightarrow> q) @ [tx]) qs,
       if map_of qs p = None then snd qo @ [p] else snd qo))"

text \<open>The rotation of one producer's queue: the first transaction that can be appended, if any.\<close>

fun rotateQueue :: "buildLimits \<Rightarrow> nat \<Rightarrow> transaction list \<Rightarrow> buildAcc \<Rightarrow> bool \<times> transaction list \<times> buildAcc" where
  "rotateQueue lm (Suc n) (tx # queue) acc =
     (case appendTx lm acc tx of
        (True, acc') \<Rightarrow> (True, queue, acc')
      | (False, acc') \<Rightarrow> rotateQueue lm n (queue @ [tx]) acc')"
| "rotateQueue lm n queue acc = (False, queue, acc)"

definition starvedIn :: "string list \<Rightarrow> fairState \<Rightarrow> int" where
  "starvedIn order st = int (length (filter (\<lambda>p. queueOf st p \<noteq> [] \<and>
     (case map_of (fs_selected st) p of None \<Rightarrow> True | Some n \<Rightarrow> n = 0)) order))"

definition pickOne :: "buildLimits \<Rightarrow> string list \<Rightarrow> string \<Rightarrow> fairState \<Rightarrow> fairState" where
  "pickOne lm order p st =
     (let queue = queueOf st p in
      case rotateQueue lm (length queue) queue (fs_acc st) of
        (False, queue', acc') \<Rightarrow> st\<lparr>fs_queues := AList.update p queue' (fs_queues st), fs_acc := acc'\<rparr>
      | (True, queue', acc') \<Rightarrow>
          let st = st\<lparr>fs_progress := True, fs_picks := fs_picks st + 1,
                      fs_selected := AList.update p ((case map_of (fs_selected st) p of None \<Rightarrow> 0 | Some n \<Rightarrow> n) + 1) (fs_selected st),
                      fs_queues := AList.update p queue' (fs_queues st), fs_acc := acc'\<rparr> in
          if fs_maxCount st > 0 then
            let st = st\<lparr>fs_maxCount := fs_maxCount st - 1\<rparr> in
            if fs_maxCount st \<le> 0 then st\<lparr>fs_starved := fs_starved st + starvedIn order st, fs_done := True\<rparr> else st
          else st)"

fun takeQuota :: "buildLimits \<Rightarrow> string list \<Rightarrow> string \<Rightarrow> nat \<Rightarrow> fairState \<Rightarrow> fairState" where
  "takeQuota lm order p 0 st = st"
| "takeQuota lm order p (Suc i) st =
     (if fs_done st \<or> queueOf st p = [] then st else takeQuota lm order p i (pickOne lm order p st))"

definition quotaOf :: "int \<Rightarrow> nat" where
  "quotaOf maxPerProducer = (if maxPerProducer > 0 then nat maxPerProducer else 1)"

definition fairRound :: "buildLimits \<Rightarrow> int \<Rightarrow> string list \<Rightarrow> fairState \<Rightarrow> fairState" where
  "fairRound lm maxPerProducer order st =
     fold (\<lambda>p st. takeQuota lm order p (quotaOf maxPerProducer) st) order
       (st\<lparr>fs_rounds := fs_rounds st + 1, fs_progress := False\<rparr>)"

definition queued :: "fairState \<Rightarrow> nat" where
  "queued st = sum_list (map (length \<circ> snd) (fs_queues st))"

text \<open>
  A round that makes progress takes a transaction out of a queue, so that the loop over rounds
  ends.
\<close>

lemma rotateQueue_length:
  "rotateQueue lm n q acc = (picked, q', acc') \<Longrightarrow> length q' + (if picked then 1 else 0) = length q"
  by (induction lm n q acc arbitrary: picked q' acc' rule: rotateQueue.induct) (auto split: bool.splits prod.splits if_splits)

lemma sum_update:
  "map_of m k = Some q \<Longrightarrow>
    sum_list (map (length \<circ> snd) (AList.update k q' m)) + length q = sum_list (map (length \<circ> snd) m) + length q'"
  by (induction m) auto

lemma pickOne_queued:
  assumes "queueOf st p \<noteq> []"
  shows "queued (pickOne lm order p st) + (if fs_progress (pickOne lm order p st) \<and> \<not> fs_progress st then 1 else 0) \<le> queued st"
proof -
  let ?q = "queueOf st p"
  obtain picked q' acc' where rot: "rotateQueue lm (length ?q) ?q (fs_acc st) = (picked, q', acc')"
    using prod_cases3 by blast
  have "map_of (fs_queues st) p = Some ?q"
    using assms by (simp add: queueOf_def split: option.splits)
  then have "sum_list (map (length \<circ> snd) (AList.update p q' (fs_queues st))) + length ?q = queued st + length q'"
    by (simp add: queued_def sum_update)
  moreover have "fs_queues (pickOne lm order p st) = AList.update p q' (fs_queues st)"
    "fs_progress (pickOne lm order p st) \<longleftrightarrow> fs_progress st \<or> picked"
    using rot by (auto simp: pickOne_def Let_def split: bool.splits)
  ultimately show ?thesis
    using rotateQueue_length [OF rot] by (auto simp: queued_def)
qed

lemma takeQuota_queued:
  "queued (takeQuota lm order p n st) \<le> queued st \<and>
   (fs_progress (takeQuota lm order p n st) \<longrightarrow> fs_progress st \<or> queued (takeQuota lm order p n st) < queued st)"
proof (induction lm order p n st rule: takeQuota.induct)
  case (2 lm order p i st)
  then show ?case
    using pickOne_queued [of st p lm order] by (auto split: if_splits)
qed simp

lemma fairRound_queued:
  "fs_progress (fairRound lm k order st) \<Longrightarrow> queued (fairRound lm k order st) < queued st"
proof -
  have "queued (fold (\<lambda>p st. takeQuota lm od p n st) ps st) \<le> queued st \<and>
    (fs_progress (fold (\<lambda>p st. takeQuota lm od p n st) ps st) \<longrightarrow>
      fs_progress st \<or> queued (fold (\<lambda>p st. takeQuota lm od p n st) ps st) < queued st)" for od n ps and st :: fairState
  proof (induction ps arbitrary: st)
    case (Cons p ps)
    then show ?case using takeQuota_queued [of lm od p n st] by (auto intro: le_less_trans less_le_trans order_trans)
  qed simp
  from this [of order "quotaOf k" order "st\<lparr>fs_rounds := fs_rounds st + 1, fs_progress := False\<rparr>"]
  show "fs_progress (fairRound lm k order st) \<Longrightarrow> ?thesis"
    by (auto simp: fairRound_def queued_def)
qed

function fairLoop :: "buildLimits \<Rightarrow> int \<Rightarrow> string list \<Rightarrow> fairState \<Rightarrow> fairState" where
  "fairLoop lm maxPerProducer order st =
     (let st' = fairRound lm maxPerProducer order st in
      if fs_done st' \<or> \<not> fs_progress st' then st' else fairLoop lm maxPerProducer order st')"
  by auto
termination
  by (relation "measure (\<lambda>(lm, k, order, st). queued st)") (auto intro: fairRound_queued)

declare fairLoop.simps [simp del]

definition appendFairShare :: "buildLimits \<Rightarrow> int \<Rightarrow> transaction list \<Rightarrow> buildAcc \<Rightarrow> fairState" where
  "appendFairShare lm maxPerProducer candidates acc =
     (let (queues, order) = fold enqueueTx candidates ([], []);
          st = \<lparr>fs_queues = queues, fs_selected = [], fs_picks = 0, fs_rounds = 0, fs_starved = 0,
                fs_maxCount = bl_maxCount lm, fs_acc = acc, fs_progress = False, fs_done = False\<rparr> in
      if order = [] then st else fairLoop lm maxPerProducer order st)"

subsection \<open>Building a block\<close>

definition effectiveBytes :: "blockConfig \<Rightarrow> int" where
  "effectiveBytes cfg =
     (if bc_MaxBlockBytes cfg > 0 \<and> bc_ProposalSizeReserveBytes cfg > 0
        \<and> bc_ProposalSizeReserveBytes cfg < bc_MaxBlockBytes cfg
      then bc_MaxBlockBytes cfg - bc_ProposalSizeReserveBytes cfg else bc_MaxBlockBytes cfg)"

definition effectiveCount :: "blockConfig \<Rightarrow> int \<Rightarrow> int \<Rightarrow> instant \<Rightarrow> int" where
  "effectiveCount cfg cnt oldest now =
     (let maxCount = bc_MaxTxsPerBlock cfg;
          maxCount = (if cnt > go_trunc (of_int (bc_MempoolCapacity cfg) * bc_BackpressureThreshold cfg)
                      then min cnt (bc_MaxTxsBackpressure cfg) else maxCount) in
      if oldest > 0 \<and> now div second - oldest > bc_LatencyThresholdSeconds cfg
      then min cnt (bc_MaxTxsLatency cfg) else maxCount)"

definition clampFloor :: "int \<Rightarrow> int \<Rightarrow> int" where
  "clampFloor maxCount flr =
     (let flr = (if flr < 0 then 0 else flr) in if maxCount > 0 \<and> flr > maxCount then maxCount else flr)"

definition pickTxs ::
    "(bytes \<Rightarrow> (string, json) gomap option) \<Rightarrow> blockConfig \<Rightarrow> buildLimits \<Rightarrow> transaction list \<Rightarrow> builderStats
      \<Rightarrow> transaction list \<times> builderStats" where
  "pickTxs unmarshal cfg lm candidates stats =
     (let policyFloor = clampFloor (bl_maxCount lm) (bc_PolicyPriorityMinTxs cfg);
          p0Floor = clampFloor (bl_maxCount lm) (bc_P0PriorityMinTxs cfg);
          acc = \<lparr>ac_txs = [], ac_selected = [], ac_bytes = 0\<rparr>;
          acc = (if policyFloor > 0 then snd (reserve lm (\<lambda>tx. tx_Type tx = ''policy'') policyFloor candidates 0 acc) else acc);
          (p0, acc) = (if p0Floor > 0 then reserve lm (isP0CriticalTx unmarshal) p0Floor candidates 0 acc else (0, acc));
          stats = stats\<lparr>bs_P0ReservedPickTotal := bs_P0ReservedPickTotal stats + of_int p0\<rparr> in
      if bc_FairShareEnabled cfg then
        let st = appendFairShare lm (bc_FairShareMaxPerProducer cfg) candidates acc in
        (ac_txs (fs_acc st),
         stats\<lparr>bs_FairSharePickTotal := bs_FairSharePickTotal stats + of_int (fs_picks st),
               bs_FairShareRoundsTotal := bs_FairShareRoundsTotal stats + of_int (fs_rounds st),
               bs_FairShareStarvedTotal := bs_FairShareStarvedTotal stats + of_int (fs_starved st)\<rparr>)
      else (ac_txs (appendInOrder lm candidates acc), stats))"

definition BuildWithExclusions ::
    "sha \<Rightarrow> (bytes \<Rightarrow> (string, json) gomap option) \<Rightarrow> entryOrder \<Rightarrow> blockConfig \<Rightarrow> mempool \<Rightarrow> memStore
      \<Rightarrow> u64 \<Rightarrow> hash32 \<Rightarrow> validatorID \<Rightarrow> instant \<Rightarrow> hash32 list \<Rightarrow> builderStats \<Rightarrow> appBlock \<times> builderStats" where
  "BuildWithExclusions sha256 unmarshal ord cfg mp store height parent proposer now exclusions stats =
     (let (cnt, _, oldest) = mempool_StatsDetailed ord mp;
          maxBytes = effectiveBytes cfg;
          lm = \<lparr>bl_maxCount = effectiveCount cfg (int cnt) oldest now, bl_maxBytes = maxBytes, bl_exclusions = exclusions\<rparr>;
          candidates = mempool_Select ord 0 maxBytes mp;
          (txs, stats) = pickTxs unmarshal cfg lm candidates stats;
          hint = (case store_Root (ms_latest store) store of None \<Rightarrow> 0 | Some r \<Rightarrow> r) in
      (NewAppBlock sha256 height parent (computeTxRoot sha256 txs) hint proposer now txs, stats))"

definition Build ::
    "sha \<Rightarrow> (bytes \<Rightarrow> (string, json) gomap option) \<Rightarrow> entryOrder \<Rightarrow> blockConfig \<Rightarrow> mempool \<Rightarrow> memStore
      \<Rightarrow> u64 \<Rightarrow> hash32 \<Rightarrow> validatorID \<Rightarrow> instant \<Rightarrow> builderStats \<Rightarrow> appBlock \<times> builderStats" where
  "Build sha256 unmarshal ord cfg mp store height parent proposer now stats =
     BuildWithExclusions sha256 unmarshal ord cfg mp store height parent proposer now [] stats"

subsection \<open>What every way of picking keeps\<close>

text \<open>
  The builder changes its accumulator through \<^verbatim>\<open>appendTx\<close> only. A property that \<open>appendTx\<close> keeps for
  the candidates is therefore kept by the reservation loops, the plain loop and the fair-share loop.
\<close>

definition fair_ok :: "(buildAcc \<Rightarrow> bool) \<Rightarrow> transaction set \<Rightarrow> fairState \<Rightarrow> bool" where
  "fair_ok P C st \<longleftrightarrow> P (fs_acc st) \<and> list_all (\<lambda>(p, q). set q \<subseteq> C) (fs_queues st)"

locale acc_invariant =
  fixes lm :: buildLimits and C :: "transaction set" and P :: "buildAcc \<Rightarrow> bool"
  assumes append_keeps: "P acc \<Longrightarrow> tx \<in> C \<Longrightarrow> P (snd (appendTx lm acc tx))"
begin

lemma reserve_keeps: "P acc \<Longrightarrow> set txs \<subseteq> C \<Longrightarrow> P (snd (reserve lm Q flr txs picked acc))"
proof (induction txs arbitrary: picked acc)
  case (Cons tx txs)
  then show ?case
    using append_keeps [of acc tx] by (auto split: prod.split bool.split)
qed simp

lemma appendInOrder_keeps: "P acc \<Longrightarrow> set txs \<subseteq> C \<Longrightarrow> P (appendInOrder lm txs acc)"
  by (induction txs arbitrary: acc) (auto simp: Let_def append_keeps)

lemma rotateQueue_keeps:
  "P acc \<Longrightarrow> set q \<subseteq> C \<Longrightarrow> rotateQueue lm n q acc = (picked, q', acc') \<Longrightarrow> P acc' \<and> set q' \<subseteq> C"
proof (induction n arbitrary: q acc)
  case (Suc n)
  then show ?case
  proof (cases q)
    case (Cons tx q0)
    have "P (snd (appendTx lm acc tx))" using Suc.prems Cons by (intro append_keeps) auto
    then show ?thesis
      using Suc.prems Cons Suc.IH [of "snd (appendTx lm acc tx)" "q0 @ [tx]"] by (auto split: prod.splits bool.splits)
  qed auto
qed auto

lemma pickOne_keeps: "fair_ok P C st \<Longrightarrow> fair_ok P C (pickOne lm order p st)"
proof -
  assume ok: "fair_ok P C st"
  let ?q = "queueOf st p"
  obtain picked q' acc' where rot: "rotateQueue lm (length ?q) ?q (fs_acc st) = (picked, q', acc')"
    using prod_cases3 by blast
  have "set ?q \<subseteq> C"
    using ok by (auto simp: fair_ok_def queueOf_def split: option.splits dest!: gm_all_get)
  then have "P acc'" "set q' \<subseteq> C"
    using rotateQueue_keeps [OF _ _ rot] ok by (auto simp: fair_ok_def)
  then show ?thesis
    using rot ok by (auto simp: pickOne_def fair_ok_def Let_def split: bool.splits)
qed

lemma takeQuota_keeps: "fair_ok P C st \<Longrightarrow> fair_ok P C (takeQuota lm order p n st)"
  by (induction n arbitrary: st) (auto intro: pickOne_keeps)

lemma fairRound_keeps: "fair_ok P C st \<Longrightarrow> fair_ok P C (fairRound lm k order st)"
proof -
  have "fair_ok P C st \<Longrightarrow> fair_ok P C (fold (\<lambda>p st. takeQuota lm order p n st) ps st)" for ps n and st :: fairState
    by (induction ps arbitrary: st) (auto intro: takeQuota_keeps)
  then show "fair_ok P C st \<Longrightarrow> fair_ok P C (fairRound lm k order st)"
    by (simp add: fairRound_def fair_ok_def)
qed

lemma fairLoop_keeps: "fair_ok P C st \<Longrightarrow> fair_ok P C (fairLoop lm k order st)"
proof (induction "queued st" arbitrary: st rule: less_induct)
  case less
  show ?case
    using less.hyps [of "fairRound lm k order st"] fairRound_keeps [OF less.prems, of k order] fairRound_queued [of lm k order st]
    by (subst fairLoop.simps) (auto simp: Let_def)
qed

end

lemma enqueue_queues:
  "list_all (\<lambda>(p, q). set q \<subseteq> C) (fst qo) \<Longrightarrow> set txs \<subseteq> C \<Longrightarrow>
    list_all (\<lambda>(p, q). set q \<subseteq> C) (fst (fold enqueueTx txs qo))"
proof (induction txs arbitrary: qo)
  case (Cons tx txs)
  have "list_all (\<lambda>(p, q). set q \<subseteq> C) (fst (enqueueTx tx qo))"
    using Cons.prems gm_all_get [OF Cons.prems(1)]
    by (fastforce simp: enqueueTx_def Let_def split: option.splits intro!: gm_all_update)
  then show ?case using Cons by simp
qed simp

context acc_invariant
begin

lemma appendFairShare_keeps: "P acc \<Longrightarrow> set txs \<subseteq> C \<Longrightarrow> P (fs_acc (appendFairShare lm k txs acc))"
proof -
  assume acc: "P acc" and txs: "set txs \<subseteq> C"
  obtain qs order where qo: "fold enqueueTx txs ([], []) = (qs, order)" by fastforce
  have "list_all (\<lambda>(p, q). set q \<subseteq> C) qs"
    using enqueue_queues [of C "([], [])" txs] txs qo by simp
  then show ?thesis
    using acc fairLoop_keeps [where k = k and order = order] by (auto simp: appendFairShare_def qo fair_ok_def Let_def)
qed

lemma pickTxs_keeps:
  assumes "P \<lparr>ac_txs = [], ac_selected = [], ac_bytes = 0\<rparr>" and "set candidates \<subseteq> C"
  obtains acc where "P acc" "fst (pickTxs unmarshal cfg lm candidates stats) = ac_txs acc"
proof -
  let ?a0 = "\<lparr>ac_txs = [], ac_selected = [], ac_bytes = 0\<rparr> :: buildAcc"
  let ?pf = "clampFloor (bl_maxCount lm) (bc_PolicyPriorityMinTxs cfg)" and ?p0 = "clampFloor (bl_maxCount lm) (bc_P0PriorityMinTxs cfg)"
  define a1 where "a1 = (if ?pf > 0 then snd (reserve lm (\<lambda>tx. tx_Type tx = ''policy'') ?pf candidates 0 ?a0) else ?a0)"
  define r where "r = (if ?p0 > 0 then reserve lm (isP0CriticalTx unmarshal) ?p0 candidates 0 a1 else (0, a1))"
  have "P a1" using assms by (auto simp: a1_def intro: reserve_keeps)
  then have "P (snd r)" using assms(2) by (auto simp: r_def intro: reserve_keeps)
  then have "P (fs_acc (appendFairShare lm (bc_FairShareMaxPerProducer cfg) candidates (snd r)))"
      "P (appendInOrder lm candidates (snd r))"
    using assms(2) by (auto intro: appendFairShare_keeps appendInOrder_keeps)
  moreover have "fst (pickTxs unmarshal cfg lm candidates stats) =
      ac_txs (if bc_FairShareEnabled cfg then fs_acc (appendFairShare lm (bc_FairShareMaxPerProducer cfg) candidates (snd r))
              else appendInOrder lm candidates (snd r))"
    by (simp add: pickTxs_def Let_def a1_def [symmetric] split_beta) (simp add: r_def)
  ultimately show thesis using that by (cases "bc_FairShareEnabled cfg") auto
qed

end

definition hashOf :: "transaction \<Rightarrow> hash32" where
  "hashOf tx = env_ContentHash (tx_Envelope tx)"

definition payloadBytes :: "transaction list \<Rightarrow> int" where
  "payloadBytes txs = sum_list (map (\<lambda>tx. int (length (tx_Payload tx))) txs)"

definition acc_ok :: "buildLimits \<Rightarrow> transaction set \<Rightarrow> buildAcc \<Rightarrow> bool" where
  "acc_ok lm C acc \<longleftrightarrow>
     set (ac_selected acc) = hashOf ` set (ac_txs acc) \<and> distinct (map hashOf (ac_txs acc))
     \<and> set (ac_txs acc) \<subseteq> C \<and> hashOf ` set (ac_txs acc) \<inter> set (bl_exclusions lm) = {}
     \<and> ac_bytes acc = payloadBytes (ac_txs acc)
     \<and> (bl_maxCount lm \<le> 0 \<or> int (length (ac_txs acc)) \<le> bl_maxCount lm)
     \<and> (bl_maxBytes lm \<le> 0 \<or> ac_bytes acc \<le> bl_maxBytes lm)"

interpretation limits: acc_invariant lm C "acc_ok lm C" for lm C
  by unfold_locales (auto simp: acc_ok_def appendTx_def Let_def hashOf_def payloadBytes_def)

lemma selectLoop_sub: "set (selectLoop c b tot out es) \<subseteq> set out \<union> me_Tx ` set es"
  by (induction c b tot out es rule: selectLoop.induct) auto

lemma Select_from_pool: "iter_order ord \<Longrightarrow> set (mempool_Select ord c b m) \<subseteq> me_Tx ` snd ` set (mp_entries m)"
  using selectLoop_sub [of c b 0 "[]" "sliceStable lessPriority (map snd (ord (mp_entries m)))"]
  by (auto simp: mempool_Select_def iter_order_set)

text \<open>
  C37. Every block the builder makes, with or without fair shares and reserved places, holds
  transactions of the pool only, none twice by content and none excluded, and respects the limits on
  number and bytes in force when it is built.
\<close>

theorem Build_within_limits:
  assumes "iter_order ord"
    and "BuildWithExclusions sha256 unmarshal ord cfg mp store height parent proposer now exclusions stats = (b, stats')"
  shows "set (ab_txs b) \<subseteq> me_Tx ` snd ` set (mp_entries mp)
    \<and> distinct (map hashOf (ab_txs b)) \<and> hashOf ` set (ab_txs b) \<inter> set exclusions = {}
    \<and> (effectiveBytes cfg \<le> 0 \<or> payloadBytes (ab_txs b) \<le> effectiveBytes cfg)
    \<and> (let (cnt, _, oldest) = mempool_StatsDetailed ord mp; n = effectiveCount cfg (int cnt) oldest now in
        n \<le> 0 \<or> int (length (ab_txs b)) \<le> n)"
proof -
  obtain cnt tot oldest where st: "mempool_StatsDetailed ord mp = (cnt, tot, oldest)"
    using prod_cases3 by blast
  let ?lm = "\<lparr>bl_maxCount = effectiveCount cfg (int cnt) oldest now, bl_maxBytes = effectiveBytes cfg, bl_exclusions = exclusions\<rparr>"
  let ?cs = "mempool_Select ord 0 (effectiveBytes cfg) mp"
  obtain acc where acc: "acc_ok ?lm (set ?cs) acc" "fst (pickTxs unmarshal cfg ?lm ?cs stats) = ac_txs acc"
    by (rule limits.pickTxs_keeps [of ?lm "set ?cs" ?cs unmarshal cfg stats]) (auto simp: acc_ok_def payloadBytes_def)
  have "ab_txs b = ac_txs acc"
    using assms(2) acc(2) by (auto simp: BuildWithExclusions_def st Let_def NewAppBlock_def split_beta)
  then show ?thesis
    using acc(1) Select_from_pool [OF assms(1), of 0 "effectiveBytes cfg" mp] by (auto simp: acc_ok_def st Let_def)
qed

text \<open>The wire form of a block the builder made decodes to the same block.\<close>

lemma txsFromPayload_inverse: "txsFromPayload (map txToPayload txs) = Inr txs"
proof (induction txs)
  case (Cons tx txs)
  have "txFromPayload (txToPayload tx) = Inr tx"
    by (cases tx) (simp_all add: txFromPayload_def)
  then show ?case using Cons by simp
qed simp

text \<open>
  Blocks survive the wire: decoding the payload of a block the builder made gives back the very
  block, its hash included.
\<close>

theorem block_roundtrip:
  assumes "BuildWithExclusions sha256 unmarshal ord cfg mp store height parent proposer now exclusions stats = (b, stats')"
  shows "fst (ToAppBlock sha256 (ToPayload b)) = Inr b"
proof -
  obtain txs hint where b: "b = NewAppBlock sha256 height parent (computeTxRoot sha256 txs) hint proposer now txs"
    using assms by (auto simp: BuildWithExclusions_def Let_def split_beta)
  show ?thesis
    unfolding b ToAppBlock_def ToPayload_def NewAppBlock_def Let_def by (simp add: txsFromPayload_inverse)
qed

text \<open>
  A payload is accepted only with the transaction root of its transactions; the one exception is an
  empty payload with a zero root.
\<close>

theorem ToAppBlock_checks_root:
  assumes "ToAppBlock sha256 p = (Inr b, p')"
  shows "ab_txRoot b = computeTxRoot sha256 (ab_txs b) \<and> ab_hash b = computeHeaderHash sha256 b
    \<and> (bp_TxRoot p = ab_txRoot b \<or> ab_txs b = [] \<and> bp_TxRoot p = 0)"
  using assms by (auto simp: ToAppBlock_def NewAppBlock_def Let_def computeHeaderHash_def headerBytes_def split: sum.splits if_splits)

text \<open>
  The block hash binds the header: two blocks with one hash agree on height, parent, roots,
  proposer and time in seconds, unless SHA-256 collides on their two headers.
\<close>

theorem header_hash_binds:
  assumes "computeHeaderHash sha256 b = computeHeaderHash sha256 c" and "inj_on sha256 {headerBytes b, headerBytes c}"
    and "- (2 ^ 63) \<le> ab_timestamp b div second" "ab_timestamp b div second < 2 ^ 63"
    and "- (2 ^ 63) \<le> ab_timestamp c div second" "ab_timestamp c div second < 2 ^ 63"
  shows "ab_height b = ab_height c \<and> ab_parentHash b = ab_parentHash c \<and> ab_txRoot b = ab_txRoot c
    \<and> ab_stateRootHint b = ab_stateRootHint c \<and> ab_proposerID b = ab_proposerID c
    \<and> ab_timestamp b div second = ab_timestamp c div second"
proof -
  have "headerBytes b = headerBytes c"
    using assms(1,2) unfolding computeHeaderHash_def by (meson inj_onD insertCI)
  then have eq: "ab_height b = ab_height c \<and> ab_parentHash b = ab_parentHash c \<and> ab_txRoot b = ab_txRoot c
      \<and> ab_stateRootHint b = ab_stateRootHint c \<and> ab_proposerID b = ab_proposerID c"
    and ts: "(word_of_int (ab_timestamp b div second) :: u64) = word_of_int (ab_timestamp c div second)"
    unfolding headerBytes_def i64_def by simp_all
  have "sint (word_of_int n :: u64) = n" if "- (2 ^ 63) \<le> n" "n < 2 ^ 63" for n
    using that by (simp add: signed_of_int signed_take_bit_int_eq_self)
  then show ?thesis using eq ts assms(3-6) by metis
qed


definition ex_bcfg :: blockConfig where
  "ex_bcfg = \<lparr>bc_MaxTxsPerBlock = 1, bc_MaxBlockBytes = 100, bc_ProposalSizeReserveBytes = 10, bc_MinMempoolTxs = 1,
     bc_BuildInterval = second, bc_PolicyPriorityMinTxs = 1, bc_P0PriorityMinTxs = 1, bc_MempoolCapacity = 100,
     bc_BackpressureThreshold = 1, bc_LatencyThresholdSeconds = 10, bc_MaxTxsBackpressure = 1, bc_MaxTxsLatency = 1,
     bc_FairShareEnabled = True, bc_FairShareMaxPerProducer = 1\<rparr>"

definition ex_build :: "appBlock \<times> builderStats" where
  "ex_build = BuildWithExclusions ex_sha (\<lambda>_. None) rev ex_bcfg (ex_pool [(4, 1)] [4]) (NewMemStore ex_sha) 1 0 7 0 []
     \<lparr>bs_P0ReservedPickTotal = 0, bs_FairSharePickTotal = 0, bs_FairShareRoundsTotal = 0, bs_FairShareStarvedTotal = 0\<rparr>"

lemma ex_build_run:
  "BuildWithExclusions ex_sha (\<lambda>_. None) rev ex_bcfg (ex_pool [(4, 1)] [4]) (NewMemStore ex_sha) 1 0 7 0 []
     \<lparr>bs_P0ReservedPickTotal = 0, bs_FairSharePickTotal = 0, bs_FairShareRoundsTotal = 0, bs_FairShareStarvedTotal = 0\<rparr>
   = (fst ex_build, snd ex_build)"
  by (simp add: ex_build_def)

theorem Build_within_limits_witness:
  "length (ab_txs (fst ex_build)) \<le> 1 \<and> set (ab_txs (fst ex_build)) \<subseteq> {ex_mtx 4}"
proof -
  have "me_Ts (ex_entry 4 1) = 0" "me_Tx (ex_entry 4 1) = ex_mtx 4"
    by (simp_all add: ex_entry_def makeEntry_def ex_mtx_def Let_def)
  moreover have "effectiveCount ex_bcfg 1 0 0 = 1"
    by (simp add: effectiveCount_def ex_bcfg_def go_trunc_def Let_def)
  ultimately show ?thesis
    using Build_within_limits [OF iter_order_rev ex_build_run]
    by (auto simp: mempool_StatsDetailed_def ex_pool_def Let_def)
qed

theorem block_roundtrip_witness: "fst (ToAppBlock ex_sha (ToPayload (fst ex_build))) = Inr (fst ex_build)"
  using ex_build_run by (rule block_roundtrip)

theorem ToAppBlock_checks_root_witness:
  "ab_txRoot (NewAppBlock ex_sha 1 0 (ex_sha []) 0 7 0 []) = computeTxRoot ex_sha []"
proof -
  let ?p = "\<lparr>bp_Height = 1, bp_ParentHash = 0, bp_TxRoot = 0, bp_StateRootHint = 0, bp_Proposer = 7, bp_Timestamp = 0,
      bp_Transactions = []\<rparr>"
  have "ToAppBlock ex_sha ?p = (Inr (NewAppBlock ex_sha 1 0 (ex_sha []) 0 7 0 []), ?p\<lparr>bp_TxRoot := ex_sha []\<rparr>)"
    by (simp add: ToAppBlock_def computeTxRoot_def ex_sha_def)
  from ToAppBlock_checks_root [OF this] show ?thesis
    by (simp add: NewAppBlock_def Let_def)
qed

theorem header_hash_binds_witness:
  "ab_txRoot (NewAppBlock ex_sha 1 0 5 0 7 0 []) = ab_txRoot (NewAppBlockHeader ex_sha 1 0 5 0 7 3 9)"
proof -
  let ?b = "NewAppBlock ex_sha 1 0 5 0 7 0 []" and ?c = "NewAppBlockHeader ex_sha 1 0 5 0 7 3 9"
  have same: "headerBytes ?b = headerBytes ?c"
    by (simp add: headerBytes_def NewAppBlock_def NewAppBlockHeader_def Let_def second_def millisecond_def)
  have "ab_timestamp ?b div second = 0" "ab_timestamp ?c div second = 0"
    by (simp_all add: NewAppBlock_def NewAppBlockHeader_def Let_def second_def millisecond_def)
  moreover have "computeHeaderHash ex_sha ?b = computeHeaderHash ex_sha ?c" "inj_on ex_sha {headerBytes ?b, headerBytes ?c}"
    using same by (simp_all add: computeHeaderHash_def)
  ultimately show ?thesis
    using header_hash_binds [of ex_sha ?b ?c] by simp
qed

subsection \<open>The order of transactions\<close>

lemma computeTxRoot_perm:
  assumes "mset txs = mset txs'" and "distinct (map hashOf txs)"
  shows "computeTxRoot sha256 txs = computeTxRoot sha256 txs'"
proof (cases "txs = []")
  case True
  then show ?thesis using assms(1) by (simp add: computeTxRoot_def)
next
  case False
  have wf: "gm_wf (map contentKey txs)"
    using assms(2) by (simp add: gm_wf_def contentKey_def hashOf_def comp_def distinct_map inj_on_def)
  have perm: "mset (map contentKey txs) = mset (map contentKey txs')"
    using assms(1) by simp
  have wf': "gm_wf (map contentKey txs')"
    using wf perm unfolding gm_wf_def by (metis mset_eq_imp_distinct_iff mset_map)
  have "sortPairs (map contentKey txs) = sortPairs (map contentKey txs')"
    using wf wf' perm sort_key_perm [OF perm] by (simp add: sortPairs_key gm_wf_def)
  moreover have "txs' \<noteq> []" using False assms(1) by auto
  ultimately show ?thesis using False by (simp add: computeTxRoot_def BuildRoot_def)
qed

definition ex_policy :: "nat \<Rightarrow> transaction" where
  "ex_policy n = Tx_Policy \<lparr>pol_Ts = 0, pol_Data = replicate n 1,
     pol_Env = (ex_envelope (replicate n 1))\<lparr>env_Nonce := replicate 16 (of_nat n)\<rparr>\<rparr>"

lemma ex_policy_valid: "n \<le> 100 \<Longrightarrow> validAt ex_sha 0 second (ex_policy n)"
  by (simp add: validAt_def ex_policy_def ex_envelope_def policy_Validate_def validateCommon_def ValidateSize_def
      CheckSkew_def go_Unix_def go_Sub_def second_def millisecond_def size_limits MaxAlgSize_def ContentHash_def Let_def)

lemma ex_policy_simps [simp]:
  "tx_Payload (ex_policy n) = replicate n 1" "hashOf (ex_policy n) = of_nat (n + 1)"
  "payloadWrites (ex_policy n) = [(keyPolicy (of_nat (n + 1)), replicate n 1), (keyPolicyHead, be_bytes 32 (of_nat (n + 1) :: hash32))]"
  "nonceKey (ex_policy n) = keyNonce [112] (replicate 16 (of_nat n))"
  by (simp_all add: ex_policy_def ex_envelope_def ex_sha_def hashOf_def nonceKey_def)

lemma ex_policy_head:
  "overwrite go_copy (payloadWrites (ex_policy n) @ metaWrites \<tau> (ex_policy n)) \<sigma> keyPolicyHead = Some (be_bytes 32 (of_nat (n + 1) :: hash32))"
  by (simp add: metaWrites_def Let_def go_copy_def)

lemma ex_policy_entry:
  "0 < n \<Longrightarrow> overwrite go_copy (payloadWrites (ex_policy n) @ metaWrites \<tau> (ex_policy n)) \<sigma> (keyPolicy (of_nat (n + 1))) = Some (replicate n 1)"
  by (simp add: metaWrites_def Let_def go_copy_def)

lemma ex_policy_nonce:
  "keyNonce [112] (replicate 16 (of_nat k)) \<noteq> nonceKey (ex_policy n) \<Longrightarrow>
    overwrite go_copy (payloadWrites (ex_policy n) @ metaWrites \<tau> (ex_policy n)) \<sigma> (keyNonce [112] (replicate 16 (of_nat k)))
      = \<sigma> (keyNonce [112] (replicate 16 (of_nat k)))"
  using payloadWrites_other_keys(2) metaWrites_nonce by (simp add: overwrite_append overwrite_other del: ex_policy_simps)

lemma ex_policy_pair:
  assumes "k \<le> 100" "0 < n" "n \<le> 100" "(of_nat k :: byte) \<noteq> of_nat n"
  shows "\<exists>\<sigma>. spec_txs (validAt ex_sha 0 second) [ex_policy k, ex_policy n] (\<lambda>_. None) = Some \<sigma>
    \<and> \<sigma> keyPolicyHead = Some (be_bytes 32 (of_nat (n + 1) :: hash32)) \<and> \<sigma> (keyPolicy (of_nat (n + 1))) = Some (replicate n 1)"
proof -
  have "keyNonce [112] (replicate 16 (of_nat n)) \<noteq> nonceKey (ex_policy k)"
    using assms(4) by (simp add: keyNonce_inject)
  then show ?thesis
    using assms(1-3) ex_policy_entry
    by (simp add: spec_tx_def ex_policy_valid ex_policy_nonce ex_policy_head ex_policy_entry del: ex_policy_simps(3) of_nat_add of_nat_Suc)
qed

lemma ex_policy_apply:
  assumes "k \<le> 100" "0 < n" "n \<le> 100" "(of_nat k :: byte) \<noteq> of_nat n"
  shows "PolicyLatest 1 (snd (snd (ApplyBlock ex_sha id 0 second [ex_policy k, ex_policy n] (NewMemStore ex_sha))))
    = Inr (of_nat (n + 1), replicate n 1)"
proof -
  obtain \<sigma> where \<sigma>: "spec_txs (validAt ex_sha 0 second) [ex_policy k, ex_policy n] (\<lambda>_. None) = Some \<sigma>"
    "\<sigma> keyPolicyHead = Some (be_bytes 32 (of_nat (n + 1) :: hash32))" "\<sigma> (keyPolicy (of_nat (n + 1))) = Some (replicate n 1)"
    using ex_policy_pair [OF assms] by blast
  have spec: "spec_block (validAt ex_sha 0 second) [ex_policy k, ex_policy n] (latestMap (NewMemStore ex_sha)) = Some \<sigma>"
    using \<sigma>(1) assms by (simp add: spec_block_def MaxBlockTxs_def MaxBlockBytes_def del: spec_txs.simps)
  obtain res rs m' where run: "ApplyBlock ex_sha id 0 second [ex_policy k, ex_policy n] (NewMemStore ex_sha) = (res, rs, m')"
    by (metis prod_cases3)
  note inv = NewMemStore_inv [of ex_sha]
  have "latestMap m' = \<sigma> \<and> ms_latest m' = 1"
    using inv iter_order_id' run
  proof (cases rule: ApplyBlock_cases)
    case (2 t r)
    then show ?thesis using spec txn_Commit_view(3) [OF inv 2(2,4)] by simp
  qed (use spec in simp)
  then have "store_Get 1 key m' = \<sigma> key" for key
    by (auto simp: latestMap_def)
  then show ?thesis
    using \<sigma>(2,3) by (simp add: run PolicyLatest_def)
qed

text \<open>
  The hash of a block does not fix the order of its transactions, and the order decides the state:
  the two blocks here have the same hash and pass the check of their transaction roots, and
  executing them on the same store leaves different policies in force.
\<close>

theorem same_hash_different_state:
  "let b = NewAppBlock ex_sha 1 0 (computeTxRoot ex_sha [ex_policy 1, ex_policy 2]) 0 7 0 [ex_policy 1, ex_policy 2];
       c = NewAppBlock ex_sha 1 0 (computeTxRoot ex_sha [ex_policy 1, ex_policy 2]) 0 7 0 [ex_policy 2, ex_policy 1] in
   ab_hash b = ab_hash c \<and> fst (ToAppBlock ex_sha (ToPayload b)) = Inr b \<and> fst (ToAppBlock ex_sha (ToPayload c)) = Inr c \<and>
   PolicyLatest 1 (snd (snd (ApplyBlock ex_sha id 0 second (ab_txs b) (NewMemStore ex_sha)))) = Inr (3, [1, 1]) \<and>
   PolicyLatest 1 (snd (snd (ApplyBlock ex_sha id 0 second (ab_txs c) (NewMemStore ex_sha)))) = Inr (2, [1])"
proof -
  let ?r = "computeTxRoot ex_sha [ex_policy 1, ex_policy 2]"
  have perm: "?r = computeTxRoot ex_sha [ex_policy 2, ex_policy 1]"
    by (rule computeTxRoot_perm) auto
  have wire: "fst (ToAppBlock ex_sha (ToPayload (NewAppBlock ex_sha 1 0 ?r 0 7 0 txs))) = Inr (NewAppBlock ex_sha 1 0 ?r 0 7 0 txs)"
    if "computeTxRoot ex_sha txs = ?r" for txs
    using that unfolding ToAppBlock_def ToPayload_def NewAppBlock_def Let_def by (simp add: txsFromPayload_inverse)
  have "ab_hash (NewAppBlock ex_sha 1 0 ?r 0 7 0 [ex_policy 1, ex_policy 2]) = ab_hash (NewAppBlock ex_sha 1 0 ?r 0 7 0 [ex_policy 2, ex_policy 1])"
    by (simp add: NewAppBlock_def computeHeaderHash_def headerBytes_def)
  then show ?thesis
    using wire [OF refl] wire [OF perm [symmetric]] ex_policy_apply [of 1 2] ex_policy_apply [of 2 1]
    by (simp add: NewAppBlock_def numeral_2_eq_2 Let_def)
qed

end
