(* ===== verification/FairShare.thy ===== *)
theory FairShare
  imports Block
begin

text \<open>
  The fair-share loop of the block builder (\<^verbatim>\<open>appendFairShare\<close> of \<^verbatim>\<open>builder.go\<close>): it ends
  within one round more than there are candidates, and it leaves no candidate behind that could still
  be appended.
\<close>

subsection \<open>Rounds\<close>

lemma takeQuota_rounds [simp]: "fs_rounds (takeQuota lm order p n st) = fs_rounds st"
proof (induction n arbitrary: st)
  case (Suc n)
  have "fs_rounds (pickOne lm order p st) = fs_rounds st"
    by (auto simp: pickOne_def Let_def split: prod.split bool.split)
  then show ?case using Suc by simp
qed simp

lemma fairRound_rounds [simp]: "fs_rounds (fairRound lm k order st) = fs_rounds st + 1"
proof -
  have "fs_rounds (fold (\<lambda>p st. takeQuota lm order p n st) ps st) = fs_rounds st" for ps n and st :: fairState
    by (induction ps arbitrary: st) auto
  then show ?thesis by (simp add: fairRound_def)
qed

lemma fairLoop_rounds: "fs_rounds (fairLoop lm k order st) \<le> fs_rounds st + int (queued st) + 1"
proof (induction "queued st" arbitrary: st rule: less_induct)
  case less
  show ?case
    using less.hyps [of "fairRound lm k order st"] fairRound_queued [of lm k order st]
    by (subst fairLoop.simps) (fastforce simp: Let_def)
qed

lemma queued_enqueue:
  "sum_list (map (length \<circ> snd) (fst (fold enqueueTx txs qo))) = sum_list (map (length \<circ> snd) (fst qo)) + length txs"
proof (induction txs arbitrary: qo)
  case (Cons tx txs)
  have "sum_list (map (length \<circ> snd) (fst (enqueueTx tx qo))) = sum_list (map (length \<circ> snd) (fst qo)) + 1"
  proof (cases "map_of (fst qo) (producerKey tx)")
    case None
    have "mset (AList.update (producerKey tx) [tx] (fst qo)) = add_mset (producerKey tx, [tx]) (mset (fst qo))"
      using None by (rule mset_update_new)
    then have "mset (map (length \<circ> snd) (AList.update (producerKey tx) [tx] (fst qo)))
        = add_mset 1 (mset (map (length \<circ> snd) (fst qo)))"
      by simp
    then have "sum_list (map (length \<circ> snd) (AList.update (producerKey tx) [tx] (fst qo)))
        = 1 + sum_list (map (length \<circ> snd) (fst qo))"
      by (metis sum_mset_sum_list sum_mset.add_mset)
    then show ?thesis using None by (simp add: enqueueTx_def Let_def)
  next
    case (Some q)
    then show ?thesis
      using sum_update [OF Some, of "q @ [tx]"] by (simp add: enqueueTx_def Let_def)
  qed
  then show ?case using Cons [of "enqueueTx tx qo"] by (simp add: comp_def)
qed simp

text \<open>
  The loop over rounds ends: it makes at most one round more than there are candidates.
\<close>

theorem fair_share_terminates:
  "fs_rounds (appendFairShare lm k candidates acc) \<le> int (length candidates) + 1"
proof -
  obtain qs order where qo: "fold enqueueTx candidates ([], []) = (qs, order)" by fastforce
  let ?st = "\<lparr>fs_queues = qs, fs_selected = [], fs_picks = 0, fs_rounds = 0, fs_starved = 0,
      fs_maxCount = bl_maxCount lm, fs_acc = acc, fs_progress = False, fs_done = False\<rparr>"
  have "queued ?st = length candidates"
    using queued_enqueue [of candidates "([], [])"] qo by (simp add: queued_def)
  then show ?thesis
    using fairLoop_rounds [of lm k order ?st] by (simp add: appendFairShare_def qo Let_def)
qed

subsection \<open>Nothing is left behind\<close>

definition blocked :: "buildLimits \<Rightarrow> buildAcc \<Rightarrow> transaction \<Rightarrow> bool" where
  "blocked lm acc tx \<longleftrightarrow> \<not> fst (appendTx lm acc tx)"

lemma appendTx_blocked: "blocked lm acc tx \<Longrightarrow> appendTx lm acc tx = (False, acc)"
  by (auto simp: blocked_def appendTx_def Let_def split: if_splits)

lemma appendTx_open:
  "\<not> blocked lm acc tx \<Longrightarrow> \<exists>acc'. appendTx lm acc tx = (True, acc') \<and> set (ac_selected acc') = insert (hashOf tx) (set (ac_selected acc))
    \<and> length (ac_txs acc') = Suc (length (ac_txs acc))"
  by (auto simp: blocked_def appendTx_def Let_def hashOf_def split: if_splits)

lemma rotateQueue_outcome:
  "n \<le> length q \<Longrightarrow> rotateQueue lm n q acc = (picked, q', acc') \<Longrightarrow>
    (\<not> picked \<and> acc' = acc \<and> set q' = set q \<and> list_all (blocked lm acc) (take n q))
    \<or> (picked \<and> (\<exists>tx. set q = insert tx (set q') \<and> set (ac_selected acc') = insert (hashOf tx) (set (ac_selected acc)))
       \<and> length (ac_txs acc') = Suc (length (ac_txs acc)))"
proof (induction n arbitrary: q)
  case (Suc n)
  then obtain tx r where q: "q = tx # r" by (cases q) auto
  show ?case
  proof (cases "blocked lm acc tx")
    case True
    then have run: "rotateQueue lm n (r @ [tx]) acc = (picked, q', acc')"
      using Suc.prems(2) q by (simp add: appendTx_blocked)
    have "n \<le> length (r @ [tx])" "take n (r @ [tx]) = take n r" using Suc.prems(1) q by auto
    then show ?thesis
      using Suc.IH [OF _ run] True q by fastforce
  next
    case False
    then show ?thesis
      using appendTx_open [OF False] Suc.prems(2) q by auto
  qed
qed auto

text \<open>
  Where the loop stands: every candidate is queued or was taken, and the countdown of picks is in
  step with the block.
\<close>

definition fair_inv :: "buildLimits \<Rightarrow> transaction set \<Rightarrow> string list \<Rightarrow> fairState \<Rightarrow> bool" where
  "fair_inv lm C order st \<longleftrightarrow>
     (\<forall>tx \<in> C. hashOf tx \<in> set (ac_selected (fs_acc st)) \<or> (\<exists>p \<in> set order. tx \<in> set (queueOf st p)))
     \<and> (0 < bl_maxCount lm \<longrightarrow> bl_maxCount lm - fs_maxCount st \<le> int (length (ac_txs (fs_acc st))))
     \<and> (fs_done st \<longrightarrow> 0 < bl_maxCount lm \<and> fs_maxCount st \<le> 0)
     \<and> (fs_maxCount st > 0 \<longrightarrow> 0 < bl_maxCount lm)"

lemma queueOf_update [simp]:
  "queueOf (st\<lparr>fs_queues := AList.update p q (fs_queues st)\<rparr>) p' = (if p' = p then q else queueOf st p')"
  by (simp add: queueOf_def)

lemma queueOf_frame:
  "fs_queues st' = fs_queues st \<Longrightarrow> queueOf st' = queueOf st"
  by (simp add: queueOf_def fun_eq_iff)

lemma pickOne_outcome:
  "(fs_progress (pickOne lm order p st) = fs_progress st \<and> fs_acc (pickOne lm order p st) = fs_acc st \<and> fs_done (pickOne lm order p st) = fs_done st
     \<and> fs_maxCount (pickOne lm order p st) = fs_maxCount st
     \<and> (\<forall>p'. set (queueOf (pickOne lm order p st) p') = set (queueOf st p')) \<and> list_all (blocked lm (fs_acc st)) (queueOf st p))
   \<or> (fs_progress (pickOne lm order p st) \<and> (\<exists>tx. set (queueOf st p) = insert tx (set (queueOf (pickOne lm order p st) p))
        \<and> set (ac_selected (fs_acc (pickOne lm order p st))) = insert (hashOf tx) (set (ac_selected (fs_acc st))))
      \<and> (\<forall>p'. p' \<noteq> p \<longrightarrow> queueOf (pickOne lm order p st) p' = queueOf st p')
      \<and> length (ac_txs (fs_acc (pickOne lm order p st))) = Suc (length (ac_txs (fs_acc st)))
      \<and> fs_maxCount (pickOne lm order p st) = (if fs_maxCount st > 0 then fs_maxCount st - 1 else fs_maxCount st)
      \<and> (fs_done (pickOne lm order p st) \<longleftrightarrow> fs_done st \<or> fs_maxCount st = 1))"
proof -
  let ?q = "queueOf st p"
  obtain picked q' acc' where rot: "rotateQueue lm (length ?q) ?q (fs_acc st) = (picked, q', acc')"
    using prod_cases3 by blast
  show ?thesis
  proof (cases picked)
    case True
    then show ?thesis
      using rotateQueue_outcome [OF le_refl rot] rot
      by (auto simp: pickOne_def Let_def queueOf_def)
  next
    case False
    then show ?thesis
      using rotateQueue_outcome [OF le_refl rot] rot by (auto simp: pickOne_def Let_def queueOf_def)
  qed
qed

lemma fair_inv_pick:
  assumes "fair_inv lm C order st" and "p \<in> set order"
  shows "fair_inv lm C order (pickOne lm order p st)"
  using pickOne_outcome [of lm order p st]
proof
  assume "fs_progress (pickOne lm order p st) = fs_progress st \<and> fs_acc (pickOne lm order p st) = fs_acc st \<and> fs_done (pickOne lm order p st) = fs_done st
     \<and> fs_maxCount (pickOne lm order p st) = fs_maxCount st
     \<and> (\<forall>p'. set (queueOf (pickOne lm order p st) p') = set (queueOf st p')) \<and> list_all (blocked lm (fs_acc st)) (queueOf st p)"
  then show ?thesis using assms(1) unfolding fair_inv_def by simp
next
  let ?n = "pickOne lm order p st"
  assume pick: "fs_progress ?n \<and> (\<exists>tx. set (queueOf st p) = insert tx (set (queueOf ?n p))
        \<and> set (ac_selected (fs_acc ?n)) = insert (hashOf tx) (set (ac_selected (fs_acc st))))
      \<and> (\<forall>p'. p' \<noteq> p \<longrightarrow> queueOf ?n p' = queueOf st p')
      \<and> length (ac_txs (fs_acc ?n)) = Suc (length (ac_txs (fs_acc st)))
      \<and> fs_maxCount ?n = (if fs_maxCount st > 0 then fs_maxCount st - 1 else fs_maxCount st)
      \<and> (fs_done ?n \<longleftrightarrow> fs_done st \<or> fs_maxCount st = 1)"
  then obtain tx where tx: "set (queueOf st p) = insert tx (set (queueOf ?n p))"
    "set (ac_selected (fs_acc ?n)) = insert (hashOf tx) (set (ac_selected (fs_acc st)))" by blast
  have "hashOf x \<in> set (ac_selected (fs_acc ?n)) \<or> (\<exists>p \<in> set order. x \<in> set (queueOf ?n p))" if "x \<in> C" for x
    using assms that pick tx unfolding fair_inv_def by (metis insert_iff)
  then show ?thesis using assms(1) pick unfolding fair_inv_def by auto
qed

lemma takeQuota_inv: "fair_inv lm C order st \<Longrightarrow> p \<in> set order \<Longrightarrow> fair_inv lm C order (takeQuota lm order p n st)"
  by (induction n arbitrary: st) (auto intro: fair_inv_pick)

lemma takeQuota_progress: "fs_progress st \<Longrightarrow> fs_progress (takeQuota lm order p n st)"
proof (induction n arbitrary: st)
  case (Suc n)
  then show ?case using pickOne_outcome [of lm order p st] by auto
qed simp

text \<open>A share that makes no progress found every transaction of the producer blocked.\<close>

definition idle :: "buildLimits \<Rightarrow> fairState \<Rightarrow> fairState \<Rightarrow> bool" where
  "idle lm st st' \<longleftrightarrow> fs_acc st' = fs_acc st \<and> (\<forall>p. set (queueOf st' p) = set (queueOf st p)) \<and> fs_done st' = fs_done st"

lemma takeQuota_idle:
  "\<not> fs_progress (takeQuota lm order p n st) \<Longrightarrow> idle lm st (takeQuota lm order p n st)
    \<and> (n \<noteq> 0 \<longrightarrow> \<not> fs_done st \<longrightarrow> list_all (blocked lm (fs_acc st)) (queueOf st p))"
proof (induction n arbitrary: st)
  case (Suc n)
  show ?case
  proof (cases "fs_done st \<or> queueOf st p = []")
    case False
    then have run: "\<not> fs_progress (takeQuota lm order p n (pickOne lm order p st))" using Suc.prems by simp
    then have "\<not> fs_progress (pickOne lm order p st)" using takeQuota_progress by blast
    then have "idle lm st (pickOne lm order p st)" "list_all (blocked lm (fs_acc st)) (queueOf st p)"
      using pickOne_outcome [of lm order p st] by (auto simp: idle_def)
    then show ?thesis using Suc.IH [OF run] False by (simp add: idle_def)
  qed (auto simp: idle_def)
qed (simp add: idle_def)

lemma fold_idle:
  "\<not> fs_progress (fold (\<lambda>p st. takeQuota lm od p n st) ps st) \<Longrightarrow> n \<noteq> 0 \<Longrightarrow> \<not> fs_done st \<Longrightarrow>
    idle lm st (fold (\<lambda>p st. takeQuota lm od p n st) ps st) \<and> (\<forall>p \<in> set ps. \<forall>tx \<in> set (queueOf st p). blocked lm (fs_acc st) tx)"
proof (induction ps arbitrary: st)
  case (Cons p ps)
  let ?m = "takeQuota lm od p n st"
  have mono: "fs_progress st \<Longrightarrow> fs_progress (fold (\<lambda>p st. takeQuota lm od p n st) ps st)" for st
    by (induction ps arbitrary: st) (auto intro: takeQuota_progress)
  have "\<not> fs_progress ?m" using Cons.prems(1) mono by auto
  then have one: "idle lm st ?m" "list_all (blocked lm (fs_acc st)) (queueOf st p)"
    using takeQuota_idle [of lm od p n st] Cons.prems by auto
  then show ?case
    using Cons.IH [of ?m] Cons.prems by (auto simp: idle_def list_all_iff)
qed (simp add: idle_def)

lemma fairRound_inv: "fair_inv lm C order st \<Longrightarrow> fair_inv lm C order (fairRound lm k order st)"
proof -
  have "fair_inv lm C order st \<Longrightarrow> set ps \<subseteq> set order \<Longrightarrow>
      fair_inv lm C order (fold (\<lambda>p st. takeQuota lm order p n st) ps st)" for ps n and st :: fairState
    by (induction ps arbitrary: st) (auto intro: takeQuota_inv)
  moreover have "fair_inv lm C order (st\<lparr>fs_rounds := fs_rounds st + 1, fs_progress := False\<rparr>)"
    if "fair_inv lm C order st"
    using that unfolding fair_inv_def by (simp add: queueOf_def)
  ultimately show "fair_inv lm C order st \<Longrightarrow> fair_inv lm C order (fairRound lm k order st)"
    by (simp add: fairRound_def)
qed

lemma taken_blocked: "hashOf tx \<in> set (ac_selected acc) \<Longrightarrow> blocked lm acc tx"
  by (simp add: blocked_def appendTx_def hashOf_def Let_def)

lemma full_blocked: "0 < bl_maxCount lm \<Longrightarrow> bl_maxCount lm \<le> int (length (ac_txs acc)) \<Longrightarrow> blocked lm acc tx"
  by (simp add: blocked_def appendTx_def Let_def)

lemma fairLoop_blocked:
  "fair_inv lm C order st \<Longrightarrow> \<not> fs_done st \<Longrightarrow> tx \<in> C \<Longrightarrow> blocked lm (fs_acc (fairLoop lm k order st)) tx"
proof (induction "queued st" arbitrary: st rule: less_induct)
  case less
  let ?r = "fairRound lm k order st"
  have inv: "fair_inv lm C order ?r" using less.prems(1) by (rule fairRound_inv)
  consider "fs_done ?r" | "\<not> fs_done ?r" "\<not> fs_progress ?r" | "\<not> fs_done ?r" "fs_progress ?r" by blast
  then show ?case
  proof cases
    case 1
    then have "0 < bl_maxCount lm" "bl_maxCount lm \<le> int (length (ac_txs (fs_acc ?r)))"
      using inv by (auto simp: fair_inv_def)
    then show ?thesis using 1 by (subst fairLoop.simps) (simp add: Let_def full_blocked)
  next
    case 2
    let ?s = "st\<lparr>fs_rounds := fs_rounds st + 1, fs_progress := False\<rparr>"
    have idle: "idle lm ?s ?r" "\<forall>p \<in> set order. \<forall>tx \<in> set (queueOf ?s p). blocked lm (fs_acc ?s) tx"
      using fold_idle [of lm order "quotaOf k" order ?s] 2 less.prems(2) by (auto simp: fairRound_def quotaOf_def)
    have "blocked lm (fs_acc ?r) tx"
      using inv less.prems(3) idle taken_blocked unfolding fair_inv_def idle_def by metis
    then show ?thesis using 2 by (subst fairLoop.simps) (simp add: Let_def)
  next
    case 3
    then show ?thesis
      using less.hyps [OF fairRound_queued inv] less.prems(3) by (subst fairLoop.simps) (simp add: Let_def)
  qed
qed

lemma enqueue_inv:
  "tx \<in> set txs \<or> (\<exists>p \<in> set (snd qo). \<exists>q. map_of (fst qo) p = Some q \<and> tx \<in> set q) \<Longrightarrow>
    (\<And>p. map_of (fst qo) p \<noteq> None \<Longrightarrow> p \<in> set (snd qo)) \<Longrightarrow>
    \<exists>p \<in> set (snd (fold enqueueTx txs qo)). \<exists>q. map_of (fst (fold enqueueTx txs qo)) p = Some q \<and> tx \<in> set q"
proof (induction txs arbitrary: qo)
  case (Cons t txs)
  have dom: "map_of (fst (enqueueTx t qo)) p \<noteq> None \<Longrightarrow> p \<in> set (snd (enqueueTx t qo))" for p
    using Cons.prems(2) [of p] Cons.prems(2) [of "producerKey t"]
    by (auto simp: enqueueTx_def Let_def split: if_splits)
  have "tx \<in> set txs \<or> (\<exists>p \<in> set (snd (enqueueTx t qo)). \<exists>q. map_of (fst (enqueueTx t qo)) p = Some q \<and> tx \<in> set q)"
    using Cons.prems(1)
  proof
    assume "tx \<in> set (t # txs)"
    then show ?thesis using dom [of "producerKey t"] by (auto simp: enqueueTx_def Let_def)
  next
    assume "\<exists>p \<in> set (snd qo). \<exists>q. map_of (fst qo) p = Some q \<and> tx \<in> set q"
    then obtain p q where pq: "p \<in> set (snd qo)" "map_of (fst qo) p = Some q" "tx \<in> set q" by blast
    then show ?thesis
      by (intro disjI2 bexI [of _ p] exI [of _ "if p = producerKey t then q @ [t] else q"])
        (auto simp: enqueueTx_def Let_def)
  qed
  then show ?case using Cons.IH [of "enqueueTx t qo"] dom by simp
qed simp

text \<open>
  The fair-share loop is work conserving: when it ends, no candidate can be appended any more:
  each one is in the block, excluded, or would break a limit.
\<close>

theorem fair_share_exhausts:
  "filter (\<lambda>tx. fst (appendTx lm (fs_acc (appendFairShare lm k candidates acc)) tx)) candidates = []"
proof -
  obtain qs order where qo: "fold enqueueTx candidates ([], []) = (qs, order)" by fastforce
  let ?st = "\<lparr>fs_queues = qs, fs_selected = [], fs_picks = 0, fs_rounds = 0, fs_starved = 0,
      fs_maxCount = bl_maxCount lm, fs_acc = acc, fs_progress = False, fs_done = False\<rparr>"
  have mem: "\<exists>p \<in> set order. tx \<in> set (queueOf ?st p)" if txc: "tx \<in> set candidates" for tx
  proof -
    obtain p q where "p \<in> set order" "map_of qs p = Some q" "tx \<in> set q"
      using enqueue_inv [of tx candidates "([], [])"] txc qo by auto
    then show ?thesis by (intro bexI [of _ p]) (simp add: queueOf_def)
  qed
  then have "fair_inv lm (set candidates) order ?st"
    by (auto simp: fair_inv_def)
  then have "blocked lm (fs_acc (fairLoop lm k order ?st)) tx" if "tx \<in> set candidates" for tx
    using that by (intro fairLoop_blocked) auto
  moreover have "order \<noteq> []" if "candidates \<noteq> []"
    using mem [of "hd candidates"] that by auto
  ultimately show ?thesis
    by (cases "candidates = []") (auto simp: appendFairShare_def qo Let_def blocked_def filter_empty_conv)
qed

end
