(* ===== verification/AgentPolicy.thy ===== *)
theory AgentPolicy
  imports GoText
begin

text \<open>
  The policies of the enforcement agent, \<^verbatim>\<open>enforcement-agent/internal/policy\<close>: the policy
  specification (\<^verbatim>\<open>spec.go\<close>), the scopes policies are counted in (\<^verbatim>\<open>scope.go\<close>), the
  parser of rule data (\<^verbatim>\<open>parser.go\<close>) and the verification of policy events
  and fast mitigations (\<^verbatim>\<open>event.go\<close>, \<^verbatim>\<open>fast_mitigation.go\<close>).

  What the code takes from libraries is the record \<open>goLib\<close>: decoding of JSON, parsing of floats,
  addresses and prefixes, protobuf encoding, SHA-256 and Ed25519. A \<^verbatim>\<open>float64\<close> is a rational.

  Lemmas: what a parsed policy satisfies, what a verified event satisfies, and that the legacy
  signing domain leaves the signature unchecked.
\<close>

subsection \<open>Specifications\<close>

record portRange =
  pr_From :: int
  pr_To :: int

record target =
  tg_IPs :: "string list"
  tg_CIDRs :: "string list"
  tg_Direction :: string
  tg_Scope :: string
  tg_Selectors :: "(string, string) gomap"
  tg_Namespace :: string
  tg_Ports :: "portRange list"
  tg_Protocols :: "string list"
  tg_Tenant :: string
  tg_Region :: string

record criteria =
  cr_MinConfidence :: "rat option"
  cr_AttemptsPerWindow :: "int option"
  cr_WindowSeconds :: "int option"

record rateLimit =
  rl_WindowSeconds :: int
  rl_MaxActions :: int

record guardrails =
  gd_TTLSeconds :: int
  gd_CIDRMaxPrefixLen :: "int option"
  gd_MaxTargets :: "int option"
  gd_DryRun :: bool
  gd_CanaryScope :: bool
  gd_RollbackIfNoCommitAfter :: "int option"
  gd_PreConsensusTTLSeconds :: "int option"
  gd_FastPathEnabled :: bool
  gd_FastPathTTLSeconds :: "int option"
  gd_FastPathSignalsRequired :: "int option"
  gd_FastPathConfidenceMin :: "rat option"
  gd_FastPathCanaryScope :: bool
  gd_AllowlistIPs :: "string list"
  gd_AllowlistCIDRs :: "string list"
  gd_AllowlistNamespaces :: "string list"
  gd_MaxActivePolicies :: "int option"
  gd_MaxPoliciesPerMinute :: "int option"
  gd_ApprovalRequired :: bool
  gd_RateLimit :: "rateLimit option"
  gd_RateLimitPerTenant :: "int option"
  gd_RateLimitPerRegion :: "int option"
  gd_EscalationCooldown :: "int option"

record audit =
  au_ReasonCode :: string
  au_EvidenceRefs :: "string list"

record policySpec =
  sp_ID :: string
  sp_RuleType :: string
  sp_Action :: string
  sp_Target :: target
  sp_Criteria :: criteria
  sp_Guardrails :: guardrails
  sp_Audit :: audit
  sp_EffectiveHeight :: int
  sp_ExpirationHeight :: int
  sp_Timestamp :: instant
  sp_Raw :: jobject
  sp_Tenant :: string
  sp_Region :: string

definition noTarget :: target where
  "noTarget = \<lparr>tg_IPs = [], tg_CIDRs = [], tg_Direction = [], tg_Scope = [], tg_Selectors = [],
     tg_Namespace = [], tg_Ports = [], tg_Protocols = [], tg_Tenant = [], tg_Region = []\<rparr>"

definition noCriteria :: criteria where
  "noCriteria = \<lparr>cr_MinConfidence = None, cr_AttemptsPerWindow = None, cr_WindowSeconds = None\<rparr>"

definition noGuardrails :: guardrails where
  "noGuardrails = \<lparr>gd_TTLSeconds = 0, gd_CIDRMaxPrefixLen = None, gd_MaxTargets = None,
     gd_DryRun = False, gd_CanaryScope = False, gd_RollbackIfNoCommitAfter = None,
     gd_PreConsensusTTLSeconds = None, gd_FastPathEnabled = False, gd_FastPathTTLSeconds = None,
     gd_FastPathSignalsRequired = None, gd_FastPathConfidenceMin = None, gd_FastPathCanaryScope = False,
     gd_AllowlistIPs = [], gd_AllowlistCIDRs = [], gd_AllowlistNamespaces = [],
     gd_MaxActivePolicies = None, gd_MaxPoliciesPerMinute = None, gd_ApprovalRequired = False,
     gd_RateLimit = None, gd_RateLimitPerTenant = None, gd_RateLimitPerRegion = None,
     gd_EscalationCooldown = None\<rparr>"

definition noAudit :: audit where
  "noAudit = \<lparr>au_ReasonCode = [], au_EvidenceRefs = []\<rparr>"

definition noSpec :: policySpec where
  "noSpec = \<lparr>sp_ID = [], sp_RuleType = [], sp_Action = [], sp_Target = noTarget,
     sp_Criteria = noCriteria, sp_Guardrails = noGuardrails, sp_Audit = noAudit,
     sp_EffectiveHeight = 0, sp_ExpirationHeight = 0, sp_Timestamp = zeroTime, sp_Raw = [],
     sp_Tenant = [], sp_Region = []\<rparr>"

datatype policy_error =
    DecodeRuleData
  | UnsupportedRuleType string
  | BadField string
  | BadRuleType string
  | TargetNotObject
  | BadTarget string
  | NoTargets
  | BadCriteria string
  | BadGuardrail string
  | TooManyTargets int
  | PrefixTooLong string
  | CanaryNeedsScope
  | TTLExceeded string
  | BadAudit
  | PubkeySize
  | UnknownSigner
  | SignatureSize
  | MarshalSignPayload
  | SignatureInvalid
  | RuleHashLength
  | RuleHashMismatch
  | FastField string
  | FastNotAllowed string

record policyUpdateEvent =
  pu_PolicyId :: string
  pu_Action :: string
  pu_RuleType :: string
  pu_RuleData :: bytes
  pu_RuleHash :: bytes
  pu_RequiresAck :: bool
  pu_RollbackPolicyId :: string
  pu_Timestamp :: int
  pu_EffectiveHeight :: int
  pu_ExpirationHeight :: int
  pu_ProducerId :: bytes
  pu_Signature :: bytes
  pu_Pubkey :: bytes

record fastEnvelope =
  fe_SchemaVersion :: string
  fe_MitigationID :: string
  fe_PolicyID :: string
  fe_Action :: string
  fe_RuleType :: string
  fe_Timestamp :: int
  fe_Payload :: bytes
  fe_ContentHash :: string
  fe_Nonce :: string
  fe_Signature :: string
  fe_Pubkey :: string
  fe_ProducerID :: string
  fe_Alg :: string

record policyEvent =
  pe_Proto :: "policyUpdateEvent option"
  pe_Fast :: "fastEnvelope option"
  pe_Spec :: policySpec

text \<open>
  \<open>gl_canon\<close> decodes and re-encodes a JSON object, \<open>gl_marshal\<close> is \<^verbatim>\<open>proto.Marshal\<close> and
  \<open>gl_verify key message signature\<close> is \<^verbatim>\<open>ed25519.Verify\<close>.
\<close>

record goLib =
  gl_unmarshal :: "bytes \<Rightarrow> jobject option"
  gl_canon :: "bytes \<Rightarrow> bytes option"
  gl_unmarshalFast :: "bytes \<Rightarrow> fastEnvelope option"
  gl_marshal :: "policyUpdateEvent \<Rightarrow> bytes option"
  gl_parseFloat :: "string \<Rightarrow> go_float option"
  gl_parseIP :: "string \<Rightarrow> bool"
  gl_parseCIDR :: "string \<Rightarrow> nat option"
  gl_sha256 :: "bytes \<Rightarrow> hash32"
  gl_verify :: "bytes \<Rightarrow> bytes \<Rightarrow> bytes \<Rightarrow> bool"

subsection \<open>Scopes\<close>

definition canonicalNamespace :: "string \<Rightarrow> string" where
  "canonicalNamespace ns = ToLower (TrimSpace ns)"

definition effectiveNamespace :: "policySpec \<Rightarrow> string" where
  "effectiveNamespace spec =
     (let t = sp_Target spec in
      if tg_Namespace t \<noteq> [] then canonicalNamespace (tg_Namespace t)
      else case map_of (tg_Selectors t) ''namespace'' of
             Some ns \<Rightarrow> canonicalNamespace ns
           | None \<Rightarrow> (case map_of (tg_Selectors t) ''kubernetes_namespace'' of
                       Some ns \<Rightarrow> canonicalNamespace ns
                     | None \<Rightarrow> []))"

definition effectiveTenant :: "policySpec \<Rightarrow> string" where
  "effectiveTenant spec =
     (if tg_Tenant (sp_Target spec) \<noteq> [] then ToLower (TrimSpace (tg_Tenant (sp_Target spec)))
      else if sp_Tenant spec \<noteq> [] then ToLower (TrimSpace (sp_Tenant spec))
      else [])"

definition effectiveRegion :: "policySpec \<Rightarrow> string" where
  "effectiveRegion spec =
     (if tg_Region (sp_Target spec) \<noteq> [] then ToLower (TrimSpace (tg_Region (sp_Target spec)))
      else if sp_Region spec \<noteq> [] then ToLower (TrimSpace (sp_Region spec))
      else [])"

definition effectiveNode :: "policySpec \<Rightarrow> string" where
  "effectiveNode spec =
     (case map_of (tg_Selectors (sp_Target spec)) ''node'' of
        Some node \<Rightarrow> ToLower (TrimSpace node)
      | None \<Rightarrow> [])"

definition ScopeIdentifier :: "policySpec \<Rightarrow> string" where
  "ScopeIdentifier spec =
     (let scope = ToLower (TrimSpace (tg_Scope (sp_Target spec)));
          scoped = (\<lambda>prefix v. if v \<noteq> [] then prefix @ v else ''global'') in
      if scope = ''namespace'' then scoped ''namespace:'' (effectiveNamespace spec)
      else if scope = ''tenant'' then scoped ''tenant:'' (effectiveTenant spec)
      else if scope = ''region'' then scoped ''region:'' (effectiveRegion spec)
      else if scope = ''node'' then scoped ''node:'' (effectiveNode spec)
      else if scope = ''cluster'' then ''cluster''
      else if scope \<in> {''global'', '''', ''any'', ''both''} then ''global''
      else scope)"

definition normalizeSorted :: "string list \<Rightarrow> string list" where
  "normalizeSorted vs = sort (filter (\<lambda>v. v \<noteq> []) (map (\<lambda>v. ToLower (TrimSpace v)) vs))"

definition normalizePorts :: "portRange list \<Rightarrow> string list" where
  "normalizePorts ps = sort (map (\<lambda>p. go_Itoa (pr_From p) @ ''-'' @ go_Itoa (pr_To p)) ps)"

definition targetDiscriminator :: "(bytes \<Rightarrow> hash32) \<Rightarrow> policySpec \<Rightarrow> string" where
  "targetDiscriminator sha256 spec =
     (let t = sp_Target spec; direction = ToLower (TrimSpace (tg_Direction t));
          ips = normalizeSorted (tg_IPs t); cidrs = normalizeSorted (tg_CIDRs t);
          protocols = normalizeSorted (tg_Protocols t); ports = normalizePorts (tg_Ports t);
          directed = (\<lambda>kind v. kind @ v @ (if direction \<noteq> [] then '':dir:'' @ direction else []));
          field = (\<lambda>name vs. if vs \<noteq> [] then [name @ strJoin vs '',''] else []);
          parts = (if direction \<noteq> [] then [''dir='' @ direction] else [])
            @ field ''ips='' ips @ field ''cidrs='' cidrs @ field ''protocols='' protocols @ field ''ports='' ports in
      if length ips = 1 \<and> cidrs = [] then directed ''ip:'' (hd ips)
      else if length cidrs = 1 \<and> ips = [] then directed ''cidr:'' (hd cidrs)
      else if effectiveNamespace spec \<noteq> [] then directed ''namespace:'' (effectiveNamespace spec)
      else if effectiveNode spec \<noteq> [] then directed ''node:'' (effectiveNode spec)
      else if parts = [] then []
      else ''target:'' @ hexEncode (take 8 (be_bytes 32 (sha256 (string_bytes (strJoin parts ''|''))))))"

definition rateScopeSuffix :: "(bytes \<Rightarrow> hash32) \<Rightarrow> policySpec \<Rightarrow> string" where
  "rateScopeSuffix sha256 spec =
     strJoin ((if effectiveTenant spec \<noteq> [] then [''tenant'', effectiveTenant spec] else [])
       @ (if effectiveRegion spec \<noteq> [] then [''region'', effectiveRegion spec] else [])
       @ (if targetDiscriminator sha256 spec \<noteq> [] then [targetDiscriminator sha256 spec] else [])) '':''"

definition RateScope :: "(bytes \<Rightarrow> hash32) \<Rightarrow> policySpec \<Rightarrow> string" where
  "RateScope sha256 spec =
     (let scopeBase = ScopeIdentifier spec; suffix = rateScopeSuffix sha256 spec in
      if scopeBase \<in> {''cluster'', ''global''} \<and> suffix \<noteq> [] then scopeBase @ '':'' @ suffix else scopeBase)"

definition WindowScope :: "(bytes \<Rightarrow> hash32) \<Rightarrow> policySpec \<Rightarrow> string" where
  "WindowScope sha256 spec = ''window:'' @ RateScope sha256 spec"

subsection \<open>Parsing\<close>

fun toString :: "json \<Rightarrow> string option" where
  "toString (JString s) = (if s = [] then None else Some s)"
| "toString _ = None"

fun toInt :: "json \<Rightarrow> int option" where
  "toInt (JNumber r) = Some (float_int64 r)"
| "toInt (JString s) = ParseInt s"
| "toInt _ = None"

fun toFloat :: "goLib \<Rightarrow> json \<Rightarrow> go_float option" where
  "toFloat L (JNumber r) = Some (Finite r)"
| "toFloat L (JString s) = gl_parseFloat L s"
| "toFloat L _ = None"

fun toBool :: "json \<Rightarrow> bool" where
  "toBool (JBool b) = b"
| "toBool (JString s) = (s = ''true'' \<or> s = ''1'')"
| "toBool _ = False"

definition getString :: "jobject \<Rightarrow> string \<Rightarrow> string option" where
  "getString raw key = (case map_of raw key of None \<Rightarrow> None | Some v \<Rightarrow> toString v)"

definition inUnit :: "go_float \<Rightarrow> rat option" where
  "inUnit f = (case f of Finite r \<Rightarrow> if r < 0 \<or> r > 1 then None else Some r | _ \<Rightarrow> None)"

text \<open>The recurring shapes of an optional field: a positive integer, a ratio, a flag, a string.\<close>

definition posField :: "(string \<Rightarrow> policy_error) \<Rightarrow> string \<Rightarrow> jobject \<Rightarrow> policy_error + int option" where
  "posField err key m =
     (case map_of m key of
        None \<Rightarrow> Inr None
      | Some v \<Rightarrow> (case toInt v of Some i \<Rightarrow> if i \<le> 0 then Inl (err key) else Inr (Some i) | None \<Rightarrow> Inl (err key)))"

definition unitField :: "(string \<Rightarrow> policy_error) \<Rightarrow> goLib \<Rightarrow> string \<Rightarrow> jobject \<Rightarrow> policy_error + rat option" where
  "unitField err L key m =
     (case map_of m key of
        None \<Rightarrow> Inr None
      | Some v \<Rightarrow> (case Option.bind (toFloat L v) inUnit of Some r \<Rightarrow> Inr (Some r) | None \<Rightarrow> Inl (err key)))"

definition boolField :: "string \<Rightarrow> jobject \<Rightarrow> bool" where
  "boolField key m = (case map_of m key of None \<Rightarrow> False | Some v \<Rightarrow> toBool v)"

definition trimField :: "(string \<Rightarrow> policy_error) \<Rightarrow> string \<Rightarrow> jobject \<Rightarrow> policy_error + string" where
  "trimField err key m =
     (case map_of m key of
        None \<Rightarrow> Inr []
      | Some v \<Rightarrow> (case toString v of Some s \<Rightarrow> Inr (TrimSpace s) | None \<Rightarrow> Inl (err key)))"

text \<open>A list field is read only when it is an array; each entry is checked.\<close>

definition listField :: "(json \<Rightarrow> policy_error + 'a) \<Rightarrow> string \<Rightarrow> jobject \<Rightarrow> policy_error + 'a list" where
  "listField f key m = (case map_of m key of Some (JArray vs) \<Rightarrow> traverse f vs | _ \<Rightarrow> Inr [])"

definition ipEntry :: "policy_error \<Rightarrow> goLib \<Rightarrow> json \<Rightarrow> policy_error + string" where
  "ipEntry err L v = (case toString v of Some s \<Rightarrow> if gl_parseIP L s then Inr s else Inl err | None \<Rightarrow> Inl err)"

definition cidrEntry :: "policy_error \<Rightarrow> goLib \<Rightarrow> json \<Rightarrow> policy_error + string" where
  "cidrEntry err L v =
     (case toString v of Some s \<Rightarrow> if gl_parseCIDR L s \<noteq> None then Inr s else Inl err | None \<Rightarrow> Inl err)"

definition portEntry :: "json \<Rightarrow> policy_error + portRange" where
  "portEntry v =
     (let bad = BadTarget ''ports'' in
      case v of
        JNumber r \<Rightarrow> let p = float_int64 r in
          if p \<le> 0 \<or> p > 65535 then Inl bad else Inr \<lparr>pr_From = p, pr_To = p\<rparr>
      | JObject m \<Rightarrow>
          (case (Option.bind (map_of m ''from'') toInt, Option.bind (map_of m ''to'') toInt) of
             (Some f, Some t) \<Rightarrow>
               if f \<le> 0 \<or> t \<le> 0 \<or> f > 65535 \<or> t > 65535 \<or> f > t then Inl bad
               else Inr \<lparr>pr_From = f, pr_To = t\<rparr>
           | _ \<Rightarrow> Inl bad)
      | _ \<Rightarrow> Inl bad)"

definition parsePorts :: "json \<Rightarrow> policy_error + portRange list" where
  "parsePorts raw = (case raw of JArray vs \<Rightarrow> traverse portEntry vs | _ \<Rightarrow> Inl (BadTarget ''ports''))"

definition normalizeProtocol :: "string \<Rightarrow> string" where
  "normalizeProtocol proto = (let p = ToUpper (TrimSpace proto) in if p = [] \<or> p = ''ANY'' then ''ANY'' else p)"

definition parseProtocols :: "json \<Rightarrow> policy_error + string list" where
  "parseProtocols raw =
     (case raw of
        JArray vs \<Rightarrow> traverse (\<lambda>v. orFail (BadTarget ''protocols'') (map_option normalizeProtocol (toString v))) vs
      | _ \<Rightarrow> Inl (BadTarget ''protocols''))"

definition targetSelectors :: "jobject \<Rightarrow> policy_error + (string, string) gomap" where
  "targetSelectors raw =
     (case map_of raw ''selectors'' of
        Some (JObject m) \<Rightarrow>
          traverse (\<lambda>(k, v). andThen (orFail (BadTarget ''selectors'') (toString v)) (\<lambda>s. Inr (k, s))) m
      | _ \<Rightarrow> Inr [])"

text \<open>The namespace of a target and its selector are kept equal.\<close>

definition targetNamespace ::
    "jobject \<Rightarrow> (string, string) gomap \<Rightarrow> policy_error + string \<times> (string, string) gomap" where
  "targetNamespace raw sel =
     (let settle = (\<lambda>ns sel. case map_of sel ''namespace'' of
                      Some n \<Rightarrow> (canonicalNamespace n, AList.update ''namespace'' (canonicalNamespace n) sel)
                    | None \<Rightarrow> (ns, sel)) in
      case map_of raw ''namespace'' of
        None \<Rightarrow> Inr (settle [] sel)
      | Some v \<Rightarrow>
          (case toString v of
             None \<Rightarrow> Inl (BadTarget ''namespace'')
           | Some ns \<Rightarrow> Inr (settle (canonicalNamespace ns) (AList.update ''namespace'' (canonicalNamespace ns) sel))))"

definition targetProtocols :: "jobject \<Rightarrow> policy_error + string list" where
  "targetProtocols raw =
     (case map_of raw ''protocols'' of
        Some v \<Rightarrow> parseProtocols v
      | None \<Rightarrow>
          (case map_of raw ''protocol'' of
             None \<Rightarrow> Inr []
           | Some v \<Rightarrow> andThen (orFail (BadTarget ''protocol'') (toString v)) (\<lambda>s. Inr [ToUpper (TrimSpace s)])))"

definition targetDirection :: "jobject \<Rightarrow> policy_error + string" where
  "targetDirection raw =
     (case getString raw ''direction'' of
        None \<Rightarrow> Inr []
      | Some d \<Rightarrow> if d = ''ingress'' \<or> d = ''egress'' then Inr d else Inl (BadTarget ''direction''))"

definition targetScope :: "jobject \<Rightarrow> policy_error + string" where
  "targetScope raw =
     (case getString raw ''scope'' of
        None \<Rightarrow> Inr []
      | Some s \<Rightarrow> let n = ToLower (TrimSpace s) in
          if n \<in> {''cluster'', ''namespace'', ''node'', ''tenant'', ''region'', ''global''} then Inr n
          else Inl (BadTarget ''scope''))"

definition parseTarget :: "goLib \<Rightarrow> jobject \<Rightarrow> policy_error + target" where
  "parseTarget L raw =
     andThen (listField (ipEntry (BadTarget ''ips'') L) ''ips'' raw) (\<lambda>ips.
     andThen (listField (cidrEntry (BadTarget ''cidrs'') L) ''cidrs'' raw) (\<lambda>cidrs.
     andThen (targetSelectors raw) (\<lambda>sel0.
     andThen (targetNamespace raw sel0) (\<lambda>(ns, sel).
     andThen (case map_of raw ''ports'' of None \<Rightarrow> Inr [] | Some v \<Rightarrow> parsePorts v) (\<lambda>ports.
     andThen (targetProtocols raw) (\<lambda>protocols.
     andThen (trimField BadTarget ''tenant'' raw) (\<lambda>tenant.
     andThen (trimField BadTarget ''region'' raw) (\<lambda>region.
     andThen (require NoTargets (ips \<noteq> [] \<or> cidrs \<noteq> [] \<or> sel \<noteq> [])) (\<lambda>_.
     andThen (targetDirection raw) (\<lambda>direction.
     andThen (targetScope raw) (\<lambda>scope.
       Inr \<lparr>tg_IPs = ips, tg_CIDRs = cidrs, tg_Direction = direction, tg_Scope = scope, tg_Selectors = sel,
            tg_Namespace = ns, tg_Ports = ports, tg_Protocols = protocols, tg_Tenant = tenant,
            tg_Region = region\<rparr>)))))))))))"

definition parseCriteria :: "goLib \<Rightarrow> json option \<Rightarrow> policy_error + criteria" where
  "parseCriteria L raw =
     (case raw of
        None \<Rightarrow> Inr noCriteria
      | Some JNull \<Rightarrow> Inr noCriteria
      | Some (JObject m) \<Rightarrow>
          andThen (unitField BadCriteria L ''min_confidence'' m) (\<lambda>conf.
          andThen (posField BadCriteria ''attempts_per_window'' m) (\<lambda>attempts.
          andThen (posField BadCriteria ''window_s'' m) (\<lambda>window.
            Inr \<lparr>cr_MinConfidence = conf, cr_AttemptsPerWindow = attempts, cr_WindowSeconds = window\<rparr>)))
      | Some _ \<Rightarrow> Inl (BadCriteria ''object''))"

definition parseRateLimit :: "jobject \<Rightarrow> policy_error + rateLimit" where
  "parseRateLimit m =
     (let pos = (\<lambda>key. case Option.bind (map_of m key) toInt of
                   Some i \<Rightarrow> if i \<le> 0 then Inl (BadGuardrail key) else Inr i
                 | None \<Rightarrow> Inl (BadGuardrail key)) in
      andThen (pos ''window_s'') (\<lambda>w.
      andThen (pos ''max_actions'') (\<lambda>a. Inr \<lparr>rl_WindowSeconds = w, rl_MaxActions = a\<rparr>)))"

text \<open>The flat form of an allow list: each entry goes to the addresses, prefixes or namespaces.\<close>

datatype allowEntry = AllowIP string | AllowCIDR string | AllowNamespace string

definition flatEntry :: "json \<Rightarrow> policy_error + allowEntry" where
  "flatEntry v =
     (let bad = BadGuardrail ''allowlist'' in
      case toString v of
        None \<Rightarrow> Inl bad
      | Some e0 \<Rightarrow>
          let e = TrimSpace e0 in
          if e = [] then Inl bad
          else if HasPrefix (ToLower e) ''ns:'' then
            (let ns = TrimSpace (drop 3 e) in if ns = [] then Inl bad else Inr (AllowNamespace ns))
          else if strContains e ''/'' then Inr (AllowCIDR e)
          else Inr (AllowIP e))"

definition flatAllowlist :: "json list \<Rightarrow> policy_error + jobject" where
  "flatAllowlist vs =
     andThen (traverse flatEntry vs) (\<lambda>es.
       Inr [(''ips'', JArray (concat (map (\<lambda>e. case e of AllowIP s \<Rightarrow> [JString s] | _ \<Rightarrow> []) es))),
            (''cidrs'', JArray (concat (map (\<lambda>e. case e of AllowCIDR s \<Rightarrow> [JString s] | _ \<Rightarrow> []) es))),
            (''namespaces'', JArray (concat (map (\<lambda>e. case e of AllowNamespace s \<Rightarrow> [JString s] | _ \<Rightarrow> []) es)))])"

definition parseAllowlist :: "goLib \<Rightarrow> jobject \<Rightarrow> policy_error + string list \<times> string list \<times> string list" where
  "parseAllowlist L m =
     (case map_of m ''allowlist'' of
        None \<Rightarrow> Inr ([], [], [])
      | Some v \<Rightarrow>
          andThen (case v of
                     JObject o1 \<Rightarrow> Inr o1
                   | JArray vs \<Rightarrow> flatAllowlist vs
                   | _ \<Rightarrow> Inl (BadGuardrail ''allowlist'')) (\<lambda>al.
          andThen (listField (ipEntry (BadGuardrail ''allowlist'') L) ''ips'' al) (\<lambda>ips.
          andThen (listField (cidrEntry (BadGuardrail ''allowlist'') L) ''cidrs'' al) (\<lambda>cidrs.
          andThen (listField (\<lambda>v. orFail (BadGuardrail ''allowlist'') (map_option canonicalNamespace (toString v)))
                     ''namespaces'' al) (\<lambda>nss.
            Inr (ips, cidrs, nss))))))"

definition parseGuardrails :: "goLib \<Rightarrow> json option \<Rightarrow> policy_error + guardrails" where
  "parseGuardrails L raw =
     (case raw of
        Some (JObject m) \<Rightarrow>
          andThen (case Option.bind (map_of m ''ttl_seconds'') toInt of
                     Some i \<Rightarrow> if i \<le> 0 then Inl (BadGuardrail ''ttl_seconds'') else Inr i
                   | None \<Rightarrow> Inl (BadGuardrail ''ttl_seconds'')) (\<lambda>ttl.
          andThen (posField BadGuardrail ''cidr_max_prefix_len'' m) (\<lambda>maxLen.
          andThen (require (BadGuardrail ''cidr_max_prefix_len'') (case maxLen of None \<Rightarrow> True | Some i \<Rightarrow> i \<le> 128)) (\<lambda>_.
          andThen (posField BadGuardrail ''max_targets'' m) (\<lambda>maxTargets.
          andThen (posField BadGuardrail ''pre_consensus_ttl_seconds'' m) (\<lambda>pre.
          andThen (posField BadGuardrail ''fast_path_ttl_seconds'' m) (\<lambda>fpttl.
          andThen (posField BadGuardrail ''fast_path_signals_required'' m) (\<lambda>signals.
          andThen (unitField BadGuardrail L ''fast_path_confidence_min'' m) (\<lambda>conf.
          andThen (case map_of m ''rate_limit'' of
                     Some (JObject rl) \<Rightarrow> andThen (parseRateLimit rl) (\<lambda>r. Inr (Some r))
                   | _ \<Rightarrow> Inr None) (\<lambda>rate.
          andThen (posField BadGuardrail ''rate_limit_per_tenant'' m) (\<lambda>perTenant.
          andThen (posField BadGuardrail ''rate_limit_per_region'' m) (\<lambda>perRegion.
          andThen (posField BadGuardrail ''escalation_cooldown_s'' m) (\<lambda>cooldown.
          andThen (parseAllowlist L m) (\<lambda>(ips, cidrs, nss).
          andThen (posField BadGuardrail ''max_active_policies'' m) (\<lambda>maxActive.
          andThen (posField BadGuardrail ''max_policies_per_minute'' m) (\<lambda>perMinute.
            Inr \<lparr>gd_TTLSeconds = ttl, gd_CIDRMaxPrefixLen = maxLen, gd_MaxTargets = maxTargets,
                 gd_DryRun = boolField ''dry_run'' m, gd_CanaryScope = boolField ''canary_scope'' m,
                 gd_RollbackIfNoCommitAfter =
                   (case Option.bind (map_of m ''rollback_if_no_commit_after_s'') toInt of
                      Some i \<Rightarrow> if i > 0 then Some i else None | None \<Rightarrow> None),
                 gd_PreConsensusTTLSeconds = pre, gd_FastPathEnabled = boolField ''fast_path_enabled'' m,
                 gd_FastPathTTLSeconds = fpttl, gd_FastPathSignalsRequired = signals,
                 gd_FastPathConfidenceMin = conf, gd_FastPathCanaryScope = boolField ''fast_path_canary_scope'' m,
                 gd_AllowlistIPs = ips, gd_AllowlistCIDRs = cidrs, gd_AllowlistNamespaces = nss,
                 gd_MaxActivePolicies = maxActive, gd_MaxPoliciesPerMinute = perMinute,
                 gd_ApprovalRequired = boolField ''approval_required'' m, gd_RateLimit = rate,
                 gd_RateLimitPerTenant = perTenant, gd_RateLimitPerRegion = perRegion,
                 gd_EscalationCooldown = cooldown\<rparr>)))))))))))))))
      | _ \<Rightarrow> Inl (BadGuardrail ''object''))"

definition parseAudit :: "json option \<Rightarrow> policy_error + audit" where
  "parseAudit raw =
     (case raw of
        None \<Rightarrow> Inr noAudit
      | Some JNull \<Rightarrow> Inr noAudit
      | Some (JObject m) \<Rightarrow>
          andThen (case map_of m ''reason_code'' of None \<Rightarrow> Inr [] | Some v \<Rightarrow> orFail BadAudit (toString v)) (\<lambda>reason.
          andThen (listField (\<lambda>v. orFail BadAudit (toString v)) ''evidence_refs'' m) (\<lambda>refs.
            Inr \<lparr>au_ReasonCode = reason, au_EvidenceRefs = refs\<rparr>))
      | Some _ \<Rightarrow> Inl BadAudit)"

text \<open>The checks between a target and its guardrails, in the order of the code.\<close>

definition guardrailChecks :: "goLib \<Rightarrow> target \<Rightarrow> guardrails \<Rightarrow> policy_error + unit" where
  "guardrailChecks L t g =
     (let cnt = int (length (tg_IPs t) + length (tg_CIDRs t)); ttl = gd_TTLSeconds g in
      andThen (require (TooManyTargets cnt) (case gd_MaxTargets g of None \<Rightarrow> True | Some k \<Rightarrow> cnt \<le> k)) (\<lambda>_.
      andThen (require CanaryNeedsScope (\<not> (gd_FastPathCanaryScope g \<and> tg_Scope t = []))) (\<lambda>_.
      andThen (case gd_CIDRMaxPrefixLen g of
                 None \<Rightarrow> Inr []
               | Some k \<Rightarrow> traverse (\<lambda>c. require (PrefixTooLong c)
                   (case gl_parseCIDR L c of None \<Rightarrow> True | Some ones \<Rightarrow> int ones \<le> k)) (tg_CIDRs t)) (\<lambda>_.
      andThen (require CanaryNeedsScope (\<not> (gd_CanaryScope g \<and> tg_Scope t = []))) (\<lambda>_.
      andThen (require (TTLExceeded ''pre_consensus_ttl_seconds'')
                 (case gd_PreConsensusTTLSeconds g of None \<Rightarrow> True | Some k \<Rightarrow> ttl > 0 \<longrightarrow> k \<le> ttl)) (\<lambda>_.
        require (TTLExceeded ''rollback_if_no_commit_after_s'')
          (case gd_RollbackIfNoCommitAfter g of None \<Rightarrow> True | Some k \<Rightarrow> ttl > 0 \<longrightarrow> k \<le> ttl)))))))"

definition parseBlockPolicy :: "goLib \<Rightarrow> jobject \<Rightarrow> policySpec \<Rightarrow> policy_error + policySpec" where
  "parseBlockPolicy L raw spec =
     andThen (orFail (BadField ''policy_id'') (getString raw ''policy_id'')) (\<lambda>policyID.
     andThen (case getString raw ''rule_type'' of
                Some t \<Rightarrow> if t \<noteq> ''block'' then Inl (BadRuleType t) else Inr ()
              | None \<Rightarrow> Inr ()) (\<lambda>_.
     andThen (orFail (BadField ''action'') (getString raw ''action'')) (\<lambda>action0.
       let action = ToLower (TrimSpace action0);
           spec = spec\<lparr>sp_ID := policyID, sp_Action := action\<rparr> in
       if action = ''remove'' then
         andThen (trimField BadField ''tenant'' raw) (\<lambda>tenant.
         andThen (trimField BadField ''region'' raw) (\<lambda>region.
         andThen (parseAudit (map_of raw ''audit'')) (\<lambda>au.
           Inr (spec\<lparr>sp_Tenant := tenant, sp_Region := region, sp_Audit := au\<rparr>))))
       else
         andThen (case map_of raw ''target'' of Some (JObject t) \<Rightarrow> Inr t | _ \<Rightarrow> Inl TargetNotObject) (\<lambda>traw.
         andThen (parseTarget L traw) (\<lambda>t.
         andThen (parseCriteria L (map_of raw ''criteria'')) (\<lambda>c.
         andThen (parseGuardrails L (map_of raw ''guardrails'')) (\<lambda>g.
         andThen (trimField BadField ''tenant'' raw) (\<lambda>tenant.
         andThen (trimField BadField ''region'' raw) (\<lambda>region.
         andThen (guardrailChecks L t g) (\<lambda>_.
         andThen (parseAudit (map_of raw ''audit'')) (\<lambda>au.
           Inr (spec\<lparr>sp_Target := t, sp_Criteria := c, sp_Guardrails := g, sp_Tenant := tenant,
                     sp_Region := region, sp_Audit := au\<rparr>)))))))))))) "

definition ParseSpec :: "goLib \<Rightarrow> string \<Rightarrow> bytes \<Rightarrow> int \<Rightarrow> int \<Rightarrow> int \<Rightarrow> policy_error + policySpec" where
  "ParseSpec L ruleType ruleData effectiveHeight expirationHeight timestamp =
     andThen (orFail DecodeRuleData (gl_unmarshal L ruleData)) (\<lambda>raw.
       if ruleType = ''block'' then
         parseBlockPolicy L raw (noSpec\<lparr>sp_RuleType := ruleType, sp_Raw := raw,
           sp_EffectiveHeight := effectiveHeight, sp_ExpirationHeight := expirationHeight,
           sp_Timestamp := timestamp * second\<rparr>)
       else Inl (UnsupportedRuleType ruleType))"

subsection \<open>Verifying events\<close>

type_synonym trustedKeys = "bytes list"

definition NewTrustedKeys :: "bytes list \<Rightarrow> trustedKeys" where
  "NewTrustedKeys ks = filter (\<lambda>k. length k = 32) ks"

definition legacyPolicyDomain :: string where
  "legacyPolicyDomain = ''control.policy.v2''"

definition signedPart :: "policyUpdateEvent \<Rightarrow> policyUpdateEvent" where
  "signedPart evt = evt\<lparr>pu_Signature := [], pu_Pubkey := []\<rparr>"

definition hashMatches :: "(bytes \<Rightarrow> hash32) \<Rightarrow> bytes \<Rightarrow> bytes \<Rightarrow> bool" where
  "hashMatches sha256 payload expected \<longleftrightarrow> length expected = 32 \<and> be_bytes 32 (sha256 payload) = expected"

text \<open>The signature check as written: the legacy domain is retried only for another domain.\<close>

definition signatureAccepted :: "goLib \<Rightarrow> string \<Rightarrow> policyUpdateEvent \<Rightarrow> bytes \<Rightarrow> bool" where
  "signatureAccepted L domain evt body =
     (let verifyWithDomain = (\<lambda>d. gl_verify L (pu_Pubkey evt) (string_bytes d @ body) (pu_Signature evt)) in
      \<not> (\<not> verifyWithDomain domain \<and> domain \<noteq> legacyPolicyDomain \<and> \<not> verifyWithDomain legacyPolicyDomain))"

definition VerifyAndParseWithDomain ::
    "goLib \<Rightarrow> trustedKeys \<Rightarrow> policyUpdateEvent \<Rightarrow> string \<Rightarrow> policy_error + policyEvent" where
  "VerifyAndParseWithDomain L keys evt domain0 =
     andThen (require PubkeySize (length (pu_Pubkey evt) = 32)) (\<lambda>_.
     andThen (require UnknownSigner (pu_Pubkey evt \<in> set keys)) (\<lambda>_.
     andThen (require SignatureSize (length (pu_Signature evt) = 64)) (\<lambda>_.
       let domain = (if domain0 = [] then legacyPolicyDomain else domain0) in
     andThen (orFail MarshalSignPayload (gl_marshal L (signedPart evt))) (\<lambda>body.
     andThen (require SignatureInvalid (signatureAccepted L domain evt body)) (\<lambda>_.
     andThen (require RuleHashLength (length (pu_RuleHash evt) = 32)) (\<lambda>_.
     andThen (require RuleHashMismatch (hashMatches (gl_sha256 L) (pu_RuleData evt) (pu_RuleHash evt))) (\<lambda>_.
     andThen (ParseSpec L (pu_RuleType evt) (pu_RuleData evt) (pu_EffectiveHeight evt)
                (pu_ExpirationHeight evt) (pu_Timestamp evt)) (\<lambda>spec.
       Inr \<lparr>pe_Proto = Some evt, pe_Fast = None, pe_Spec = spec\<rparr>))))))))"

definition VerifyAndParse :: "goLib \<Rightarrow> trustedKeys \<Rightarrow> policyUpdateEvent \<Rightarrow> policy_error + policyEvent" where
  "VerifyAndParse L keys evt = VerifyAndParseWithDomain L keys evt legacyPolicyDomain"

subsection \<open>Fast mitigations\<close>

definition FastMitigationDomain :: string where
  "FastMitigationDomain = ''control.fast_mitigation.v1''"

definition fastMitigationMaxTTLSeconds :: int where
  "fastMitigationMaxTTLSeconds = 60"

definition appendU16 :: "nat \<Rightarrow> bytes" where
  "appendU16 n = be_bytes 2 (of_nat n :: 16 word)"

definition buildFastSignBytes ::
    "string \<Rightarrow> string \<Rightarrow> string \<Rightarrow> string \<Rightarrow> int \<Rightarrow> bytes \<Rightarrow> bytes \<Rightarrow> bytes \<Rightarrow> bytes" where
  "buildFastSignBytes mitigationID policyID action ruleType timestamp pubkey nonce contentHash =
     (let sized = (\<lambda>b. appendU16 (length b) @ b) in
      [0x01] @ sized (string_bytes mitigationID) @ sized (string_bytes policyID)
        @ sized (string_bytes action) @ sized (string_bytes ruleType)
        @ be_bytes 8 (of_int timestamp :: u64) @ sized pubkey @ nonce @ contentHash)"

definition nonBlank :: "json option \<Rightarrow> bool" where
  "nonBlank v = (case v of Some (JString s) \<Rightarrow> TrimSpace s \<noteq> [] | _ \<Rightarrow> False)"

definition optString :: "json option \<Rightarrow> bool" where
  "optString v = (case v of None \<Rightarrow> True | Some JNull \<Rightarrow> True | Some (JString s) \<Rightarrow> True | _ \<Rightarrow> False)"

definition validateFastPayloadAndSpec :: "jobject \<Rightarrow> policySpec \<Rightarrow> string \<Rightarrow> policy_error + unit" where
  "validateFastPayloadAndSpec payload spec action0 =
     (let action = ToLower (TrimSpace action0); t = sp_Target spec;
          scope = ToLower (TrimSpace (tg_Scope t)); ttl = gd_TTLSeconds (sp_Guardrails spec) in
     andThen (require (FastNotAllowed ''rule_type'') (ToLower (TrimSpace (sp_RuleType spec)) = ''block'')) (\<lambda>_.
     andThen (require (FastNotAllowed ''action'') (action = ''drop'' \<or> action = ''rate_limit'')) (\<lambda>_.
     andThen (require (FastNotAllowed ''action'') (ToLower (TrimSpace (sp_Action spec)) = action)) (\<lambda>_.
     andThen (case map_of payload ''metadata'' of Some (JObject m) \<Rightarrow> Inr m | _ \<Rightarrow> Inl (FastNotAllowed ''metadata'')) (\<lambda>md.
     andThen (require (FastNotAllowed ''trace_id'') (nonBlank (map_of md ''trace_id''))) (\<lambda>_.
     andThen (require (FastNotAllowed ''anomaly_id'') (nonBlank (map_of md ''anomaly_id''))) (\<lambda>_.
     andThen (require (FastNotAllowed ''event_id'')
                (optString (map_of md ''source_event_id'') \<and> optString (map_of md ''sentinel_event_id''))) (\<lambda>_.
     andThen (require (FastNotAllowed ''scope'') (scope = ''cluster'' \<or> scope = ''namespace'')) (\<lambda>_.
     andThen (require (FastNotAllowed ''tenant'') (TrimSpace (tg_Tenant t) = [] \<and> TrimSpace (sp_Tenant spec) = [])) (\<lambda>_.
     andThen (require (FastNotAllowed ''region'') (TrimSpace (tg_Region t) = [] \<and> TrimSpace (sp_Region spec) = [])) (\<lambda>_.
     andThen (require (FastNotAllowed ''target'') (tg_IPs t \<noteq> [] \<or> tg_CIDRs t \<noteq> [])) (\<lambda>_.
     andThen (require (FastNotAllowed ''selector'') (list_all (\<lambda>(k, v).
                ToLower (TrimSpace k) \<in> {''namespace'', ''kubernetes_namespace''}) (tg_Selectors t))) (\<lambda>_.
     andThen (require (FastNotAllowed ''selector'') (\<not> (scope \<noteq> ''namespace'' \<and> tg_Selectors t \<noteq> []))) (\<lambda>_.
       require (FastNotAllowed ''ttl_seconds'') (\<not> (ttl \<le> 0 \<or> ttl > fastMitigationMaxTTLSeconds))))))))))))))))"

definition hexField :: "string \<Rightarrow> nat \<Rightarrow> string \<Rightarrow> policy_error + bytes" where
  "hexField name n s =
     (case hexDecode s of
        None \<Rightarrow> Inl (FastField name)
      | Some b \<Rightarrow> if length b = n then Inr b else Inl (FastField name))"

definition VerifyAndParseFast :: "goLib \<Rightarrow> trustedKeys \<Rightarrow> bytes \<Rightarrow> policy_error + policyEvent" where
  "VerifyAndParseFast L keys raw =
     andThen (orFail DecodeRuleData (gl_unmarshalFast L raw)) (\<lambda>env.
     andThen (require (FastField ''schema_version'') (fe_SchemaVersion env = FastMitigationDomain)) (\<lambda>_.
     andThen (require (FastField ''alg'') (fe_Alg env = ''Ed25519'')) (\<lambda>_.
     andThen (require (FastField ''required'') (\<not> (fe_MitigationID env = [] \<or> fe_PolicyID env = []
                \<or> fe_Action env = [] \<or> fe_RuleType env = []))) (\<lambda>_.
     andThen (hexField ''pubkey'' 32 (fe_Pubkey env)) (\<lambda>pub.
     andThen (require UnknownSigner (pub \<in> set keys)) (\<lambda>_.
     andThen (require (FastField ''producer_id'') (fe_ProducerID env \<noteq> [] \<and> fe_ProducerID env = fe_Pubkey env)) (\<lambda>_.
     andThen (hexField ''signature'' 64 (fe_Signature env)) (\<lambda>sig.
     andThen (hexField ''content_hash'' 32 (fe_ContentHash env)) (\<lambda>contentHash.
     andThen (hexField ''nonce'' 16 (fe_Nonce env)) (\<lambda>nonce.
     andThen (require (FastField ''timestamp'') (fe_Timestamp env > 0)) (\<lambda>_.
     andThen (orFail DecodeRuleData (gl_canon L (fe_Payload env))) (\<lambda>payloadBytes.
     andThen (require RuleHashMismatch (be_bytes 32 (gl_sha256 L payloadBytes) = contentHash)) (\<lambda>_.
     andThen (require SignatureInvalid (gl_verify L pub (string_bytes FastMitigationDomain
                @ buildFastSignBytes (fe_MitigationID env) (fe_PolicyID env) (fe_Action env) (fe_RuleType env)
                    (fe_Timestamp env) pub nonce contentHash) sig)) (\<lambda>_.
     andThen (ParseSpec L (fe_RuleType env) payloadBytes 0 0 (fe_Timestamp env)) (\<lambda>spec0.
     andThen (require (FastField ''policy_id'') (sp_ID spec0 = fe_PolicyID env)) (\<lambda>_.
       let payload = (case gl_unmarshal L payloadBytes of None \<Rightarrow> [] | Some m \<Rightarrow> m);
           spec = (case gl_unmarshal L payloadBytes of None \<Rightarrow> spec0 | Some m \<Rightarrow> spec0\<lparr>sp_Raw := m\<rparr>);
           spec = spec\<lparr>sp_Timestamp := fe_Timestamp env * second\<rparr> in
     andThen (validateFastPayloadAndSpec payload spec (fe_Action env)) (\<lambda>_.
       Inr \<lparr>pe_Proto = None, pe_Fast = Some (env\<lparr>fe_Payload := payloadBytes\<rparr>), pe_Spec = spec\<rparr>)))))))))))))))))"

subsection \<open>What a parsed policy satisfies\<close>

definition target_ok :: "goLib \<Rightarrow> target \<Rightarrow> bool" where
  "target_ok L t \<longleftrightarrow>
     (tg_IPs t \<noteq> [] \<or> tg_CIDRs t \<noteq> [] \<or> tg_Selectors t \<noteq> [])
     \<and> list_all (\<lambda>ip. ip \<noteq> [] \<and> gl_parseIP L ip) (tg_IPs t)
     \<and> list_all (\<lambda>c. c \<noteq> [] \<and> gl_parseCIDR L c \<noteq> None) (tg_CIDRs t)
     \<and> list_all (\<lambda>p. 1 \<le> pr_From p \<and> pr_From p \<le> pr_To p \<and> pr_To p \<le> 65535) (tg_Ports t)
     \<and> tg_Direction t \<in> {'''', ''ingress'', ''egress''}
     \<and> tg_Scope t \<in> {'''', ''cluster'', ''namespace'', ''node'', ''tenant'', ''region'', ''global''}
     \<and> (\<forall>ns. map_of (tg_Selectors t) ''namespace'' = Some ns \<longrightarrow> tg_Namespace t = ns)"

definition positive :: "int option \<Rightarrow> bool" where
  "positive x \<longleftrightarrow> (case x of None \<Rightarrow> True | Some i \<Rightarrow> 0 < i)"

definition guardrails_ok :: "goLib \<Rightarrow> guardrails \<Rightarrow> bool" where
  "guardrails_ok L g \<longleftrightarrow>
     0 < gd_TTLSeconds g
     \<and> list_all positive [gd_CIDRMaxPrefixLen g, gd_MaxTargets g, gd_RollbackIfNoCommitAfter g,
         gd_PreConsensusTTLSeconds g, gd_FastPathTTLSeconds g, gd_FastPathSignalsRequired g,
         gd_MaxActivePolicies g, gd_MaxPoliciesPerMinute g, gd_RateLimitPerTenant g,
         gd_RateLimitPerRegion g, gd_EscalationCooldown g]
     \<and> (case gd_RateLimit g of None \<Rightarrow> True | Some r \<Rightarrow> 0 < rl_WindowSeconds r \<and> 0 < rl_MaxActions r)
     \<and> (case gd_FastPathConfidenceMin g of None \<Rightarrow> True | Some c \<Rightarrow> 0 \<le> c \<and> c \<le> 1)
     \<and> list_all (gl_parseIP L) (gd_AllowlistIPs g)
     \<and> list_all (\<lambda>c. gl_parseCIDR L c \<noteq> None) (gd_AllowlistCIDRs g)"

text \<open>The limits a policy sets on itself hold of its own target and deadlines.\<close>

definition within_limits :: "goLib \<Rightarrow> target \<Rightarrow> guardrails \<Rightarrow> bool" where
  "within_limits L t g \<longleftrightarrow>
     (\<forall>k. gd_MaxTargets g = Some k \<longrightarrow> int (length (tg_IPs t) + length (tg_CIDRs t)) \<le> k)
     \<and> (\<forall>k c n. gd_CIDRMaxPrefixLen g = Some k \<longrightarrow> c \<in> set (tg_CIDRs t) \<longrightarrow> gl_parseCIDR L c = Some n \<longrightarrow> int n \<le> k)
     \<and> (gd_CanaryScope g \<or> gd_FastPathCanaryScope g \<longrightarrow> tg_Scope t \<noteq> [])
     \<and> (\<forall>k. gd_PreConsensusTTLSeconds g = Some k \<longrightarrow> k \<le> gd_TTLSeconds g)
     \<and> (\<forall>k. gd_RollbackIfNoCommitAfter g = Some k \<longrightarrow> k \<le> gd_TTLSeconds g)"

lemma posField_positive [simp]: "posField err key m = Inr x \<Longrightarrow> positive x"
  by (auto simp: posField_def positive_def split: option.splits if_splits)

lemma inUnit_bounds: "inUnit f = Some c \<Longrightarrow> 0 \<le> c \<and> c \<le> 1"
  by (cases f) (auto simp: inUnit_def split: if_splits)

lemma unitField_bounds: "unitField err L key m = Inr (Some c) \<Longrightarrow> 0 \<le> c \<and> c \<le> 1"
  by (auto simp: unitField_def bind_eq_Some_conv split: option.splits dest: inUnit_bounds)

lemma toString_nonempty: "toString v = Some s \<Longrightarrow> s \<noteq> []"
  by (cases v) (auto split: if_splits)

lemma getString_nonempty: "getString m key = Some s \<Longrightarrow> s \<noteq> []"
  by (auto simp: getString_def split: option.splits dest: toString_nonempty)

lemma listField_mem:
  "listField f key m = Inr ys \<Longrightarrow> y \<in> set ys \<Longrightarrow> \<exists>v. f v = Inr y"
  by (auto simp: listField_def split: option.splits json.splits dest: traverse_mem)

lemma ipEntry_ok: "ipEntry err L v = Inr s \<Longrightarrow> s \<noteq> [] \<and> gl_parseIP L s"
  by (auto simp: ipEntry_def split: option.splits if_splits dest: toString_nonempty)

lemma cidrEntry_ok: "cidrEntry err L v = Inr s \<Longrightarrow> s \<noteq> [] \<and> (\<exists>n. gl_parseCIDR L s = Some n)"
  by (auto simp: cidrEntry_def split: option.splits if_splits dest: toString_nonempty)

lemma ips_ok: "listField (ipEntry err L) key m = Inr ys \<Longrightarrow> list_all (\<lambda>s. s \<noteq> [] \<and> gl_parseIP L s) ys"
  by (auto simp: list_all_iff dest!: listField_mem ipEntry_ok)

lemma cidrs_ok:
  "listField (cidrEntry err L) key m = Inr ys \<Longrightarrow> list_all (\<lambda>s. s \<noteq> [] \<and> (\<exists>n. gl_parseCIDR L s = Some n)) ys"
  by (auto simp: list_all_iff dest!: listField_mem cidrEntry_ok)

lemma portEntry_ok:
  "portEntry v = Inr p \<Longrightarrow> 1 \<le> pr_From p \<and> pr_From p \<le> pr_To p \<and> pr_To p \<le> 65535"
  by (auto simp: portEntry_def Let_def split: json.splits option.splits if_splits)

lemma parsePorts_ok:
  "parsePorts v = Inr ps \<Longrightarrow> list_all (\<lambda>p. 1 \<le> pr_From p \<and> pr_From p \<le> pr_To p \<and> pr_To p \<le> 65535) ps"
  by (auto simp: parsePorts_def list_all_iff split: json.splits dest!: traverse_mem portEntry_ok)

lemma targetNamespace_ok:
  "targetNamespace raw sel = Inr (ns, sel') \<Longrightarrow> map_of sel' ''namespace'' = Some n \<Longrightarrow> ns = n"
  by (auto simp: targetNamespace_def Let_def update_conv' split: option.splits)

lemma targetDirection_ok: "targetDirection raw = Inr d \<Longrightarrow> d \<in> {'''', ''ingress'', ''egress''}"
  by (auto simp: targetDirection_def split: option.splits if_splits)

lemma targetScope_ok:
  "targetScope raw = Inr s \<Longrightarrow> s \<in> {'''', ''cluster'', ''namespace'', ''node'', ''tenant'', ''region'', ''global''}"
  by (auto simp: targetScope_def Let_def split: option.splits if_splits)

lemma parseTarget_ok: "parseTarget L raw = Inr t \<Longrightarrow> target_ok L t"
  unfolding parseTarget_def
  by (clarsimp simp: andThen_Inr target_ok_def ips_ok cidrs_ok targetNamespace_ok
      split: option.splits dest!: parsePorts_ok targetDirection_ok targetScope_ok)

lemma parseRateLimit_ok: "parseRateLimit m = Inr r \<Longrightarrow> 0 < rl_WindowSeconds r \<and> 0 < rl_MaxActions r"
  by (auto simp: parseRateLimit_def Let_def andThen_Inr split: option.splits if_splits)

lemma parseAllowlist_ok:
  "parseAllowlist L m = Inr al \<Longrightarrow>
    list_all (gl_parseIP L) (fst al) \<and> list_all (\<lambda>c. \<exists>n. gl_parseCIDR L c = Some n) (fst (snd al))"
  unfolding parseAllowlist_def
  by (auto simp: andThen_Inr list_all_iff split: option.splits dest!: ips_ok cidrs_ok)

lemma required_positive:
  "(case x of None \<Rightarrow> Inl e | Some i \<Rightarrow> if i \<le> 0 then Inl e else Inr i) = Inr (k :: int) \<Longrightarrow> 0 < k"
  by (auto split: option.splits if_splits)

lemma rate_positive:
  "(case x of Some (JObject m) \<Rightarrow> andThen (parseRateLimit m) (\<lambda>r. Inr (Some r)) | _ \<Rightarrow> Inr None) = Inr y \<Longrightarrow>
    case y of None \<Rightarrow> True | Some r \<Rightarrow> 0 < rl_WindowSeconds r \<and> 0 < rl_MaxActions r"
  by (auto simp: andThen_Inr split: option.splits json.splits dest: parseRateLimit_ok)

lemma optional_positive: "positive (case x of None \<Rightarrow> None | Some i \<Rightarrow> if 0 < i then Some i else None)"
  by (simp add: positive_def split: option.split)

lemma unitField_case:
  "unitField err L key m = Inr x \<Longrightarrow> case x of None \<Rightarrow> True | Some c \<Rightarrow> 0 \<le> c \<and> c \<le> 1"
  by (auto dest: unitField_bounds split: option.split)

lemmas field_bounds = required_positive rate_positive unitField_case parseAllowlist_ok

lemma parseGuardrails_ok:
  assumes "parseGuardrails L raw = Inr g" shows "guardrails_ok L g"
proof -
  obtain m where "raw = Some (JObject m)"
    using assms by (auto simp: parseGuardrails_def split: option.splits json.splits)
  then show ?thesis
    using assms [unfolded parseGuardrails_def \<open>raw = Some (JObject m)\<close> option.case json.case case_prod_beta]
    by (elim andThenE) (auto simp: guardrails_ok_def optional_positive dest: field_bounds)
qed

lemma guardrailChecks_ok:
  "guardrailChecks L t g = Inr u \<Longrightarrow> 0 < gd_TTLSeconds g \<Longrightarrow> within_limits L t g"
  unfolding guardrailChecks_def within_limits_def Let_def
  by (auto simp: andThen_Inr traverse_Inr list_all2_conv_all_nth in_set_conv_nth split: option.splits)

lemma getString_not_Nil [simp]: "getString m key \<noteq> Some []"
  using getString_nonempty by blast

lemma parseBlockPolicy_fields:
  assumes "parseBlockPolicy L raw spec0 = Inr spec"
  shows "sp_ID spec \<noteq> []" and "getString raw ''policy_id'' = Some (sp_ID spec)"
    and "sp_RuleType spec = sp_RuleType spec0" and "sp_Timestamp spec = sp_Timestamp spec0"
  using assms unfolding parseBlockPolicy_def Let_def by (auto elim!: andThenE split: if_splits)

lemma parseBlockPolicy_ok:
  assumes "parseBlockPolicy L raw spec0 = Inr spec" and "sp_Action spec \<noteq> ''remove''"
  shows "target_ok L (sp_Target spec) \<and> guardrails_ok L (sp_Guardrails spec)
    \<and> within_limits L (sp_Target spec) (sp_Guardrails spec)"
proof -
  from assms obtain traw graw where t: "parseTarget L traw = Inr (sp_Target spec)"
    and g: "parseGuardrails L graw = Inr (sp_Guardrails spec)"
    and c: "guardrailChecks L (sp_Target spec) (sp_Guardrails spec) = Inr ()"
    unfolding parseBlockPolicy_def Let_def by (auto elim!: andThenE split: if_splits)
  have "0 < gd_TTLSeconds (sp_Guardrails spec)"
    using parseGuardrails_ok [OF g] by (simp add: guardrails_ok_def)
  then show ?thesis
    using parseTarget_ok [OF t] parseGuardrails_ok [OF g] guardrailChecks_ok [OF c] by blast
qed


subsection \<open>What a verified event satisfies\<close>

text \<open>
  C11. An event accepted under a domain other than the legacy one is authentic: its key is trusted,
  the key's signature on the event's signed fields verifies, under that domain or the legacy one, and
  the rule data has the hash in the event.
\<close>

theorem verified_event_authentic:
  assumes "VerifyAndParseWithDomain L keys evt domain = Inr e"
    and "domain \<noteq> legacyPolicyDomain" and "domain \<noteq> []"
  shows "pu_Pubkey evt \<in> set keys \<and> pe_Proto e = Some evt \<and> pe_Fast e = None
    \<and> (\<exists>body d. gl_marshal L (signedPart evt) = Some body \<and> (d = domain \<or> d = legacyPolicyDomain)
        \<and> gl_verify L (pu_Pubkey evt) (string_bytes d @ body) (pu_Signature evt))
    \<and> pu_RuleHash evt = be_bytes 32 (gl_sha256 L (pu_RuleData evt))
    \<and> ParseSpec L (pu_RuleType evt) (pu_RuleData evt) (pu_EffectiveHeight evt) (pu_ExpirationHeight evt)
        (pu_Timestamp evt) = Inr (pe_Spec e)"
  using assms unfolding VerifyAndParseWithDomain_def Let_def
  by (auto elim!: andThenE simp: hashMatches_def signatureAccepted_def Let_def)

text \<open>
  The legacy domain is accepted without a signature. \<^verbatim>\<open>VerifyAndParse\<close>, and the controller on
  a topic mapped to \<^verbatim>\<open>control.policy.v2\<close>, accept an event whatever 64 bytes stand in its
  signature field: the second test of \<^verbatim>\<open>VerifyAndParseWithDomain\<close> is skipped exactly when the
  first one has failed under that domain.
\<close>

theorem legacy_domain_unsigned:
  assumes "VerifyAndParse L keys evt = Inr e" and "length s = 64"
  shows "VerifyAndParse L keys (evt\<lparr>pu_Signature := s\<rparr>)
    = Inr (e\<lparr>pe_Proto := Some (evt\<lparr>pu_Signature := s\<rparr>)\<rparr>)"
  using assms unfolding VerifyAndParse_def VerifyAndParseWithDomain_def Let_def
  by (auto simp: andThen_Inr signatureAccepted_def signedPart_def Let_def)

lemma validateFast_ok:
  assumes "validateFastPayloadAndSpec payload spec action = Inr u"
  shows "ToLower (TrimSpace action) \<in> {''drop'', ''rate_limit''}
    \<and> ToLower (TrimSpace (sp_Action spec)) = ToLower (TrimSpace action)
    \<and> ToLower (TrimSpace (tg_Scope (sp_Target spec))) \<in> {''cluster'', ''namespace''}
    \<and> effectiveTenant spec = [] \<and> effectiveRegion spec = []
    \<and> (tg_IPs (sp_Target spec) \<noteq> [] \<or> tg_CIDRs (sp_Target spec) \<noteq> [])
    \<and> 0 < gd_TTLSeconds (sp_Guardrails spec) \<and> gd_TTLSeconds (sp_Guardrails spec) \<le> 60"
  using assms unfolding validateFastPayloadAndSpec_def Let_def fastMitigationMaxTTLSeconds_def
  by (elim andThenE) (simp add: effectiveTenant_def effectiveRegion_def ToLower_def, linarith?)

lemma hexField_Inr: "hexField name n s = Inr b \<longleftrightarrow> hexDecode s = Some b \<and> length b = n"
  by (auto simp: hexField_def split: option.splits)

text \<open>
  A fast mitigation the agent accepts is signed by a trusted key over its domain, identifiers, time,
  nonce and payload hash; it drops or limits traffic of named addresses in a cluster or a namespace
  for at most a minute.
\<close>

theorem fast_mitigation_checked:
  assumes "VerifyAndParseFast L keys raw = Inr e"
  shows "\<exists>env pub sig nonce. pe_Fast e = Some env \<and> pe_Proto e = None
    \<and> hexDecode (fe_Pubkey env) = Some pub \<and> pub \<in> set keys
    \<and> hexDecode (fe_Nonce env) = Some nonce \<and> length nonce = 16
    \<and> gl_verify L pub (string_bytes FastMitigationDomain
        @ buildFastSignBytes (fe_MitigationID env) (fe_PolicyID env) (fe_Action env) (fe_RuleType env)
            (fe_Timestamp env) pub nonce (be_bytes 32 (gl_sha256 L (fe_Payload env)))) sig
    \<and> sp_ID (pe_Spec e) = fe_PolicyID env \<and> sp_Timestamp (pe_Spec e) = fe_Timestamp env * second
    \<and> ToLower (TrimSpace (sp_Action (pe_Spec e))) \<in> {''drop'', ''rate_limit''}
    \<and> (tg_IPs (sp_Target (pe_Spec e)) \<noteq> [] \<or> tg_CIDRs (sp_Target (pe_Spec e)) \<noteq> [])
    \<and> effectiveTenant (pe_Spec e) = [] \<and> effectiveRegion (pe_Spec e) = []
    \<and> 0 < gd_TTLSeconds (sp_Guardrails (pe_Spec e)) \<and> gd_TTLSeconds (sp_Guardrails (pe_Spec e)) \<le> 60"
  using assms unfolding VerifyAndParseFast_def Let_def
  by (elim andThenE) (drule validateFast_ok, clarsimp simp: hexField_Inr, rule conjI, erule exI,
    simp split: option.split)

definition short :: "'a list \<Rightarrow> bool" where
  "short s \<longleftrightarrow> length s < 65536"

lemma appendU16_inject: "m < 65536 \<Longrightarrow> n < 65536 \<Longrightarrow> appendU16 m = appendU16 n \<longleftrightarrow> m = n"
proof -
  assume "m < 65536" "n < 65536"
  moreover have "be_bytes 2 v = be_bytes 2 w \<longleftrightarrow> v = w" for v w :: "16 word"
    using be_bytes_inject [of 2 v w] by auto
  ultimately show ?thesis
    by (simp add: appendU16_def of_nat_inverse word_of_nat_eq_iff take_bit_nat_eq_self)
qed

lemma sized_inject:
  "short a \<Longrightarrow> short b \<Longrightarrow> appendU16 (length a) @ a @ x = appendU16 (length b) @ b @ y \<longleftrightarrow> a = b \<and> x = y"
  using appendU16_inject [of "length a" "length b"]
  by (auto simp: short_def appendU16_def)

text \<open>
  The bytes a fast mitigation signs determine its fields, as long as each is shorter than 64 KiB: the
  lengths are written as 16-bit numbers.
\<close>

theorem fast_sign_bytes_bind:
  assumes "short mid" "short pid" "short act" "short rt" "short pub" "length nonce = 16"
    and "short mid'" "short pid'" "short act'" "short rt'" "short pub'" "length nonce' = 16"
    and "buildFastSignBytes mid pid act rt ts pub nonce hash = buildFastSignBytes mid' pid' act' rt' ts' pub' nonce' hash'"
  shows "mid = mid' \<and> pid = pid' \<and> act = act' \<and> rt = rt' \<and> ts mod 2 ^ 64 = ts' mod 2 ^ 64 \<and> pub = pub'
    \<and> nonce = nonce' \<and> hash = hash'"
proof -
  have "short (string_bytes s)" if "short s" for s
    using that by (simp add: short_def string_bytes_def)
  with assms show ?thesis
    by (simp add: buildFastSignBytes_def Let_def sized_inject string_bytes_inject word_of_int_eq_iff take_bit_int_def)
qed
subsection \<open>Examples\<close>

definition ex_rule :: jobject where
  "ex_rule = [(''policy_id'', JString ''p1''), (''action'', JString ''drop''),
     (''target'', JObject [(''ips'', JArray [JString ''10.0.0.1'']), (''scope'', JString ''cluster''),
        (''ports'', JArray [JNumber 443])]),
     (''guardrails'', JObject [(''ttl_seconds'', JNumber 30), (''max_targets'', JNumber 2),
        (''allowlist'', JArray [JString ''10.0.0.9'', JString ''ns:kube-system''])]),
     (''metadata'', JObject [(''trace_id'', JString ''t''), (''anomaly_id'', JString ''a'')])]"

definition ex_key :: bytes where
  "ex_key = replicate 32 7"

definition ex_fastEnv :: fastEnvelope where
  "ex_fastEnv = \<lparr>fe_SchemaVersion = FastMitigationDomain, fe_MitigationID = ''m1'', fe_PolicyID = ''p1'',
     fe_Action = ''drop'', fe_RuleType = ''block'', fe_Timestamp = 100, fe_Payload = [1],
     fe_ContentHash = hexEncode (be_bytes 32 (0 :: hash32)), fe_Nonce = hexEncode (replicate 16 0),
     fe_Signature = hexEncode (replicate 64 1), fe_Pubkey = hexEncode ex_key,
     fe_ProducerID = hexEncode ex_key, fe_Alg = ''Ed25519''\<rparr>"

definition ex_lib :: goLib where
  "ex_lib = \<lparr>gl_unmarshal = (\<lambda>b. Some ex_rule), gl_canon = Some, gl_unmarshalFast = (\<lambda>b. Some ex_fastEnv),
     gl_marshal = (\<lambda>e. Some [7]), gl_parseFloat = (\<lambda>s. None),
     gl_parseIP = (\<lambda>s. s \<in> {''10.0.0.1'', ''10.0.0.9''}), gl_parseCIDR = (\<lambda>s. None),
     gl_sha256 = (\<lambda>b. 0), gl_verify = (\<lambda>k m sig. sig = replicate 64 1)\<rparr>"

definition ex_update :: policyUpdateEvent where
  "ex_update = \<lparr>pu_PolicyId = ''p1'', pu_Action = ''apply'', pu_RuleType = ''block'', pu_RuleData = [1],
     pu_RuleHash = be_bytes 32 (0 :: hash32), pu_RequiresAck = True, pu_RollbackPolicyId = [],
     pu_Timestamp = 100, pu_EffectiveHeight = 0, pu_ExpirationHeight = 0, pu_ProducerId = [3],
     pu_Signature = replicate 64 1, pu_Pubkey = ex_key\<rparr>"

definition ex_parsed :: policySpec where
  "ex_parsed = (case ParseSpec ex_lib ''block'' [1] 0 0 100 of Inr s \<Rightarrow> s | Inl _ \<Rightarrow> noSpec)"

lemmas text_simps = ToLower_def TrimSpace_def lower_char_def space_char_def

lemmas parse_simps = ParseSpec_def parseBlockPolicy_def getString_def parseTarget_def listField_def
  ipEntry_def cidrEntry_def targetSelectors_def targetNamespace_def parsePorts_def portEntry_def
  targetProtocols_def trimField_def targetDirection_def targetScope_def parseCriteria_def
  parseGuardrails_def posField_def unitField_def boolField_def parseAllowlist_def flatAllowlist_def
  flatEntry_def guardrailChecks_def parseAudit_def orFail_def require_def float_int64_def go_trunc_def
  canonicalNamespace_def

lemma ex_parses:
  "ParseSpec ex_lib ''block'' [1] 0 0 100 = Inr ex_parsed" "sp_Action ex_parsed = ''drop''"
  by (simp_all add: ex_parsed_def ex_lib_def ex_rule_def parse_simps text_simps Let_def)


lemma ex_verified:
  "VerifyAndParseWithDomain ex_lib [ex_key] ex_update ''control.enforcement_command.v1''
    = Inr \<lparr>pe_Proto = Some ex_update, pe_Fast = None, pe_Spec = ex_parsed\<rparr>"
  "VerifyAndParse ex_lib [ex_key] ex_update = Inr \<lparr>pe_Proto = Some ex_update, pe_Fast = None, pe_Spec = ex_parsed\<rparr>"
  using ex_parses
  by (simp_all add: VerifyAndParse_def VerifyAndParseWithDomain_def andThen_Inr Let_def ex_update_def ex_key_def
    ex_lib_def signatureAccepted_def hashMatches_def legacyPolicyDomain_def)

theorem verified_event_authentic_witness:
  "pu_Pubkey ex_update \<in> set [ex_key] \<and> pu_RuleHash ex_update = be_bytes 32 (gl_sha256 ex_lib (pu_RuleData ex_update))"
  using verified_event_authentic [OF ex_verified(1)] by (simp add: legacyPolicyDomain_def)

theorem legacy_domain_unsigned_witness:
  "\<not> gl_verify ex_lib ex_key (string_bytes legacyPolicyDomain @ [7]) (replicate 64 0)
    \<and> VerifyAndParse ex_lib [ex_key] (ex_update\<lparr>pu_Signature := replicate 64 0\<rparr>)
      = Inr \<lparr>pe_Proto = Some (ex_update\<lparr>pu_Signature := replicate 64 0\<rparr>), pe_Fast = None, pe_Spec = ex_parsed\<rparr>"
  using legacy_domain_unsigned [OF ex_verified(2), of "replicate 64 0"] by (simp add: ex_lib_def)

definition ex_fast :: policyEvent where
  "ex_fast = (case VerifyAndParseFast ex_lib [ex_key] [1] of Inr e \<Rightarrow> e
     | Inl _ \<Rightarrow> \<lparr>pe_Proto = None, pe_Fast = None, pe_Spec = noSpec\<rparr>)"

lemma ex_fast_verified: "VerifyAndParseFast ex_lib [ex_key] [1] = Inr ex_fast"
  by (simp add: ex_fast_def VerifyAndParseFast_def ex_fastEnv_def ex_lib_def ex_rule_def ex_key_def hexField_def
    validateFastPayloadAndSpec_def nonBlank_def optString_def fastMitigationMaxTTLSeconds_def
    parse_simps text_simps Let_def)

theorem fast_mitigation_checked_witness:
  "0 < gd_TTLSeconds (sp_Guardrails (pe_Spec ex_fast)) \<and> gd_TTLSeconds (sp_Guardrails (pe_Spec ex_fast)) \<le> 60"
  using fast_mitigation_checked [OF ex_fast_verified] by blast

theorem fast_sign_bytes_bind_witness:
  "''m1'' = ''m1'' \<and> (100 :: int) mod 2 ^ 64 = (100 + 2 ^ 64) mod 2 ^ 64"
proof -
  have "buildFastSignBytes ''m1'' ''p1'' ''drop'' ''block'' 100 ex_key (replicate 16 0) [1]
    = buildFastSignBytes ''m1'' ''p1'' ''drop'' ''block'' (100 + 2 ^ 64) ex_key (replicate 16 0) [1]"
    by (simp add: buildFastSignBytes_def Let_def)
  then show ?thesis
    using fast_sign_bytes_bind [of "''m1''" "''p1''" "''drop''" "''block''" ex_key "replicate 16 0"
      "''m1''" "''p1''" "''drop''" "''block''" ex_key "replicate 16 0" 100 "[1]" "100 + 2 ^ 64" "[1]"]
    by (simp add: short_def ex_key_def)
qed

end
