(* ===== verification/AgentStore.thy ===== *)
theory AgentStore
  imports AgentPolicy
begin

text \<open>
  The policy store of the enforcement agent, \<^verbatim>\<open>enforcement-agent/internal/state/store.go\<close>:
  the applied policies with their deadlines, the history rate limits are counted from, pending
  approvals, watermarks, and the snapshot file.

  An operation is a pure change of the store under the mutex followed by
  \<open>markDirtyAndMaybePersist\<close>. Writing the snapshot releases the mutex, so it is two steps:
  \<open>snapshotOf\<close> with the mutex held and \<open>finishPersist\<close> later; the operations compose them, and
  the step relation \<open>persist_step\<close> interleaves them. \<open>sf_disk\<close> is the file; JSON encoding, SHA-256
  and the success of the file operations are arguments (\<open>storeIO\<close>).

  Lemmas: the history counts exactly the recent applications, and the snapshot on disk is current
  when writers do not overlap and need not be when they do.
\<close>

subsection \<open>State\<close>

record agentRecord =
  ar_Spec :: policySpec
  ar_AppliedAt :: instant
  ar_ExpiresAt :: instant
  ar_GuardrailTTL :: duration
  ar_PreConsensus :: instant
  ar_Rollback :: instant
  ar_FastPathDeadline :: instant
  ar_PendingConsensus :: bool
  ar_MitigationID :: string
  ar_Provisional :: bool
  ar_PromotionState :: string
  ar_RenewalCount :: int
  ar_PromotedAt :: instant
  ar_RevokedAt :: instant
  ar_Reason :: string

record storeOptions =
  so_PersistPath :: string
  so_HistoryRetention :: duration
  so_EnableChecksum :: bool
  so_LockTimeout :: duration
  so_PersistMinGap :: duration

record agentSnapshot =
  sn_Version :: int
  sn_Records :: "agentRecord list"
  sn_History :: "instant list"
  sn_RateHistory :: "(string, instant list) gomap"
  sn_PendingApprovals :: "(string, bytes) gomap"
  sn_LastApplied :: "(string, instant) gomap"
  sn_ScopeWatermarks :: "(string, instant) gomap"
  sn_CreatedAt :: instant
  sn_Checksum :: string

record agentStore =
  sf_records :: "(string, agentRecord) gomap"
  sf_persistPath :: string
  sf_history :: "(string, instant list) gomap"
  sf_pending :: "(string, bytes) gomap"
  sf_historyRetention :: duration
  sf_checksumEnabled :: bool
  sf_lockTimeout :: duration
  sf_persistMinGap :: duration
  sf_lastPersistAt :: instant
  sf_dirty :: bool
  sf_stateVersion :: u64
  sf_lastApplied :: "(string, instant) gomap"
  sf_scopeWatermarks :: "(string, instant) gomap"
  sf_disk :: "bytes option"

record storeIO =
  io_marshal :: "agentSnapshot \<Rightarrow> bytes option"
  io_marshalIndent :: "agentSnapshot \<Rightarrow> bytes option"
  io_unmarshal :: "bytes \<Rightarrow> agentSnapshot option"
  io_sha256 :: "bytes \<Rightarrow> hash32"
  io_lockOk :: bool
  io_writeOk :: bool
  io_readOk :: bool

datatype store_error =
    ReadSnapshot
  | ParseSnapshot
  | ChecksumCompute
  | ChecksumMismatch
  | LockFile
  | MarshalSnapshot
  | WriteSnapshot
  | PolicyNotFound string

definition NewAgentStore :: "storeOptions \<Rightarrow> agentStore" where
  "NewAgentStore opts =
     \<lparr>sf_records = [], sf_persistPath = TrimSpace (so_PersistPath opts), sf_history = [], sf_pending = [],
      sf_historyRetention =
        (if so_HistoryRetention opts \<le> 0 then 10 * 60 * second else so_HistoryRetention opts),
      sf_checksumEnabled = so_EnableChecksum opts,
      sf_lockTimeout = (if so_LockTimeout opts \<le> 0 then 3 * second else so_LockTimeout opts),
      sf_persistMinGap = so_PersistMinGap opts, sf_lastPersistAt = zeroTime, sf_dirty = False,
      sf_stateVersion = 0, sf_lastApplied = [], sf_scopeWatermarks = [], sf_disk = None\<rparr>"

text \<open>\<^verbatim>\<open>time.Duration(n) * time.Second\<close> is a 64-bit product.\<close>

definition secondsDuration :: "int \<Rightarrow> duration" where
  "secondsDuration n = wrap64 (n * second)"

definition deadline :: "instant \<Rightarrow> int option \<Rightarrow> instant" where
  "deadline appliedAt seconds =
     (case seconds of
        None \<Rightarrow> zeroTime
      | Some n \<Rightarrow> if n \<le> 0 then zeroTime else appliedAt + secondsDuration n)"

subsection \<open>Rate history\<close>

definition pruneHistory :: "instant list \<Rightarrow> instant \<Rightarrow> duration \<Rightarrow> instant list" where
  "pruneHistory history now horizon =
     (if horizon \<le> 0 \<or> history = [] then history
      else dropWhile (\<lambda>ts. ts < now - horizon) history)"

definition historyOf :: "agentStore \<Rightarrow> string \<Rightarrow> instant list" where
  "historyOf s scope = (case map_of (sf_history s) scope of None \<Rightarrow> [] | Some h \<Rightarrow> h)"

definition recordHistoryLocked :: "string \<Rightarrow> instant \<Rightarrow> agentStore \<Rightarrow> agentStore" where
  "recordHistoryLocked scope ts s =
     s\<lparr>sf_history := AList.update scope (pruneHistory (historyOf s scope @ [ts]) ts (sf_historyRetention s)) (sf_history s)\<rparr>"

definition normalizedNamespace :: "policySpec \<Rightarrow> string" where
  "normalizedNamespace spec =
     (if tg_Namespace (sp_Target spec) \<noteq> [] then ToLower (TrimSpace (tg_Namespace (sp_Target spec)))
      else case map_of (tg_Selectors (sp_Target spec)) ''namespace'' of
             Some ns \<Rightarrow> ToLower (TrimSpace ns)
           | None \<Rightarrow> [])"

text \<open>
  The scopes an application counts for: \<^verbatim>\<open>normalizedTenant\<close>, \<^verbatim>\<open>normalizedRegion\<close> and
  \<^verbatim>\<open>normalizedNode\<close> are the functions of \<open>AgentPolicy\<close> again.
\<close>

definition historyKeys :: "(bytes \<Rightarrow> hash32) \<Rightarrow> policySpec \<Rightarrow> string list" where
  "historyKeys sha256 spec =
     (let scoped = (\<lambda>prefix v. if v \<noteq> [] then [prefix @ v] else []);
          recorded = [''global''] @ scoped ''tenant:'' (effectiveTenant spec)
            @ scoped ''region:'' (effectiveRegion spec) @ scoped ''namespace:'' (normalizedNamespace spec)
            @ (if EqualFold (tg_Scope (sp_Target spec)) ''cluster'' then [''cluster''] else [])
            @ scoped ''node:'' (effectiveNode spec);
          rate = RateScope sha256 spec in
      recorded @ (if rate \<noteq> [] \<and> rate \<notin> set recorded then [rate] else []))"

definition recordScopes :: "(bytes \<Rightarrow> hash32) \<Rightarrow> policySpec \<Rightarrow> instant \<Rightarrow> agentStore \<Rightarrow> agentStore" where
  "recordScopes sha256 spec appliedAt s = fold (\<lambda>k. recordHistoryLocked k appliedAt) (historyKeys sha256 spec) s"

definition RecentCountFor :: "agentStore \<Rightarrow> string \<Rightarrow> duration \<Rightarrow> instant \<Rightarrow> int" where
  "RecentCountFor s scope window now =
     (let entries = historyOf s scope in
      if window \<le> 0 then int (length entries)
      else int (length (takeWhile (\<lambda>ts. \<not> ts < now - window) (rev entries))))"

definition RecentCount :: "agentStore \<Rightarrow> duration \<Rightarrow> instant \<Rightarrow> int" where
  "RecentCount s window now = RecentCountFor s ''global'' window now"

subsection \<open>Snapshots\<close>

definition snapshotOf :: "instant \<Rightarrow> agentStore \<Rightarrow> agentSnapshot" where
  "snapshotOf now s =
     \<lparr>sn_Version = 7, sn_Records = map snd (sf_records s), sn_History = historyOf s ''global'',
      sn_RateHistory = sf_history s, sn_PendingApprovals = sf_pending s, sn_LastApplied = sf_lastApplied s,
      sn_ScopeWatermarks = sf_scopeWatermarks s, sn_CreatedAt = now, sn_Checksum = []\<rparr>"

definition computeChecksum :: "storeIO \<Rightarrow> agentSnapshot \<Rightarrow> string option" where
  "computeChecksum IO snap =
     map_option (\<lambda>b. hexEncode (be_bytes 32 (io_sha256 IO b))) (io_marshal IO (snap\<lparr>sn_Checksum := []\<rparr>))"

text \<open>The part of \<^verbatim>\<open>persistNowLocked\<close> that runs without the mutex: the bytes to write.\<close>

definition encodeSnapshot :: "storeIO \<Rightarrow> bool \<Rightarrow> agentSnapshot \<Rightarrow> store_error + bytes" where
  "encodeSnapshot IO checksum snap =
     andThen (require LockFile (io_lockOk IO)) (\<lambda>_.
     andThen (if checksum
              then andThen (orFail ChecksumCompute (computeChecksum IO snap)) (\<lambda>c. Inr (snap\<lparr>sn_Checksum := c\<rparr>))
              else Inr snap) (\<lambda>snap.
     andThen (orFail MarshalSnapshot (io_marshalIndent IO snap)) (\<lambda>b.
     andThen (require WriteSnapshot (io_writeOk IO)) (\<lambda>_. Inr b))))"

text \<open>The renaming of the file and the test of the version, on the store of that moment.\<close>

definition finishPersist ::
    "storeIO \<Rightarrow> instant \<Rightarrow> u64 \<times> agentSnapshot \<Rightarrow> agentStore \<Rightarrow> store_error option \<times> agentStore" where
  "finishPersist IO now job s =
     (case encodeSnapshot IO (sf_checksumEnabled s) (snd job) of
        Inl e \<Rightarrow> (Some e, s)
      | Inr b \<Rightarrow> (None, s\<lparr>sf_disk := Some b, sf_lastPersistAt := now,
                        sf_dirty := (if sf_stateVersion s = fst job then False else sf_dirty s)\<rparr>))"

definition persistNowLocked :: "storeIO \<Rightarrow> instant \<Rightarrow> agentStore \<Rightarrow> store_error option \<times> agentStore" where
  "persistNowLocked IO now s =
     (if sf_persistPath s = [] then (None, s)
      else finishPersist IO now (sf_stateVersion s, snapshotOf now s) s)"

definition markDirty :: "agentStore \<Rightarrow> agentStore" where
  "markDirty s = s\<lparr>sf_stateVersion := sf_stateVersion s + 1, sf_dirty := True\<rparr>"

definition markDirtyAndMaybePersist :: "storeIO \<Rightarrow> instant \<Rightarrow> agentStore \<Rightarrow> store_error option \<times> agentStore" where
  "markDirtyAndMaybePersist IO now s =
     (if sf_persistPath s = [] then (None, s)
      else if sf_persistMinGap s > 0 then (None, markDirty s)
      else persistNowLocked IO now (markDirty s))"

definition Flush :: "storeIO \<Rightarrow> instant \<Rightarrow> agentStore \<Rightarrow> store_error option \<times> agentStore" where
  "Flush IO now s = (if \<not> sf_dirty s then (None, s) else persistNowLocked IO now s)"

subsection \<open>Operations\<close>

definition freshRecord :: "policySpec \<Rightarrow> instant \<Rightarrow> instant \<Rightarrow> agentRecord" where
  "freshRecord spec appliedAt expires =
     (let g = sp_Guardrails spec in
      \<lparr>ar_Spec = spec, ar_AppliedAt = appliedAt, ar_ExpiresAt = expires,
       ar_GuardrailTTL = secondsDuration (gd_TTLSeconds g),
       ar_PreConsensus = deadline appliedAt (gd_PreConsensusTTLSeconds g),
       ar_Rollback = deadline appliedAt (gd_RollbackIfNoCommitAfter g),
       ar_FastPathDeadline = zeroTime, ar_PendingConsensus = False, ar_MitigationID = [],
       ar_Provisional = False, ar_PromotionState = [], ar_RenewalCount = 0, ar_PromotedAt = zeroTime,
       ar_RevokedAt = zeroTime, ar_Reason = []\<rparr>)"

definition upsertRecord :: "policySpec \<Rightarrow> instant \<Rightarrow> agentRecord option \<Rightarrow> agentRecord" where
  "upsertRecord spec appliedAt existing =
     (let g = sp_Guardrails spec;
          r = freshRecord spec appliedAt
            (if gd_TTLSeconds g > 0 then appliedAt + secondsDuration (gd_TTLSeconds g) else appliedAt);
          r = (case existing of
                 None \<Rightarrow> r
               | Some e \<Rightarrow> r\<lparr>ar_PendingConsensus := ar_PendingConsensus e, ar_FastPathDeadline := ar_FastPathDeadline e,
                            ar_MitigationID := ar_MitigationID e, ar_Provisional := ar_Provisional e,
                            ar_PromotionState := ar_PromotionState e, ar_RenewalCount := ar_RenewalCount e,
                            ar_PromotedAt := ar_PromotedAt e, ar_RevokedAt := ar_RevokedAt e\<rparr>) in
      case gd_FastPathTTLSeconds g of
        None \<Rightarrow> r
      | Some n \<Rightarrow> r\<lparr>ar_FastPathDeadline := appliedAt + secondsDuration n\<rparr>)"

definition upsertCore :: "(bytes \<Rightarrow> hash32) \<Rightarrow> policySpec \<Rightarrow> instant \<Rightarrow> agentStore \<Rightarrow> agentStore" where
  "upsertCore sha256 spec appliedAt s =
     (let r = upsertRecord spec appliedAt (map_of (sf_records s) (sp_ID spec));
          s = recordScopes sha256 spec appliedAt (s\<lparr>sf_records := AList.update (sp_ID spec) r (sf_records s)\<rparr>) in
      s\<lparr>sf_lastApplied := AList.update (sp_ID spec) appliedAt (sf_lastApplied s)\<rparr>)"

definition store_Upsert ::
    "storeIO \<Rightarrow> policySpec \<Rightarrow> instant \<Rightarrow> instant \<Rightarrow> agentStore \<Rightarrow> store_error option \<times> agentStore" where
  "store_Upsert IO spec appliedAt now s = markDirtyAndMaybePersist IO now (upsertCore (io_sha256 IO) spec appliedAt s)"

definition removeCore :: "string \<Rightarrow> agentStore \<Rightarrow> agentStore" where
  "removeCore policyID s = s\<lparr>sf_records := AList.delete policyID (sf_records s)\<rparr>"

definition store_Remove :: "storeIO \<Rightarrow> string \<Rightarrow> instant \<Rightarrow> agentStore \<Rightarrow> store_error option \<times> agentStore" where
  "store_Remove IO policyID now s = markDirtyAndMaybePersist IO now (removeCore policyID s)"

definition updateRecord ::
    "storeIO \<Rightarrow> store_error option \<Rightarrow> string \<Rightarrow> (agentRecord \<Rightarrow> agentRecord) \<Rightarrow> instant \<Rightarrow> agentStore
      \<Rightarrow> store_error option \<times> agentStore" where
  "updateRecord IO missing policyID f now s =
     (case map_of (sf_records s) policyID of
        None \<Rightarrow> (missing, s)
      | Some r \<Rightarrow> markDirtyAndMaybePersist IO now (s\<lparr>sf_records := AList.update policyID (f r) (sf_records s)\<rparr>))"

definition MarkPendingConsensus ::
    "storeIO \<Rightarrow> string \<Rightarrow> instant \<Rightarrow> instant \<Rightarrow> agentStore \<Rightarrow> store_error option \<times> agentStore" where
  "MarkPendingConsensus IO policyID dl now s =
     updateRecord IO (Some (PolicyNotFound policyID)) policyID
       (\<lambda>r. r\<lparr>ar_PendingConsensus := True,
              ar_FastPathDeadline := (if dl \<noteq> zeroTime then dl else ar_FastPathDeadline r)\<rparr>) now s"

definition provisionalRecord :: "string \<Rightarrow> instant \<Rightarrow> instant \<Rightarrow> agentRecord \<Rightarrow> agentRecord" where
  "provisionalRecord mitigationID dl appliedAt r =
     r\<lparr>ar_PendingConsensus := True, ar_Provisional := True, ar_PromotionState := ''provisional'',
       ar_MitigationID := TrimSpace mitigationID,
       ar_RenewalCount := (if ar_PendingConsensus r \<and> ar_Provisional r then ar_RenewalCount r + 1 else 0),
       ar_PromotedAt := zeroTime, ar_RevokedAt := zeroTime,
       ar_FastPathDeadline := (if dl \<noteq> zeroTime then dl else ar_FastPathDeadline r),
       ar_AppliedAt := (if appliedAt \<noteq> zeroTime then appliedAt else ar_AppliedAt r)\<rparr>"

definition MarkProvisional ::
    "storeIO \<Rightarrow> string \<Rightarrow> string \<Rightarrow> instant \<Rightarrow> instant \<Rightarrow> instant \<Rightarrow> agentStore \<Rightarrow> store_error option \<times> agentStore" where
  "MarkProvisional IO policyID mitigationID dl appliedAt now s =
     updateRecord IO (Some (PolicyNotFound policyID)) policyID (provisionalRecord mitigationID dl appliedAt) now s"

definition ClearPendingConsensus :: "storeIO \<Rightarrow> string \<Rightarrow> instant \<Rightarrow> agentStore \<Rightarrow> store_error option \<times> agentStore" where
  "ClearPendingConsensus IO policyID now s =
     updateRecord IO None policyID
       (\<lambda>r. r\<lparr>ar_PendingConsensus := False, ar_FastPathDeadline := zeroTime, ar_RenewalCount := 0\<rparr>) now s"

definition MarkPromoted ::
    "storeIO \<Rightarrow> string \<Rightarrow> instant \<Rightarrow> instant \<Rightarrow> agentStore \<Rightarrow> store_error option \<times> agentStore" where
  "MarkPromoted IO policyID promotedAt now s =
     updateRecord IO None policyID
       (\<lambda>r. r\<lparr>ar_PendingConsensus := False, ar_Provisional := False, ar_PromotionState := ''promoted'',
              ar_RenewalCount := 0, ar_PromotedAt := promotedAt, ar_FastPathDeadline := zeroTime\<rparr>) now s"

definition SavePendingApproval ::
    "storeIO \<Rightarrow> string \<Rightarrow> bytes \<Rightarrow> instant \<Rightarrow> agentStore \<Rightarrow> store_error option \<times> agentStore" where
  "SavePendingApproval IO key payload now s =
     markDirtyAndMaybePersist IO now (s\<lparr>sf_pending :=
       (if payload = [] then AList.delete key (sf_pending s) else AList.update key payload (sf_pending s))\<rparr>)"

definition RemovePendingApproval ::
    "storeIO \<Rightarrow> string \<Rightarrow> instant \<Rightarrow> agentStore \<Rightarrow> store_error option \<times> agentStore" where
  "RemovePendingApproval IO key now s =
     markDirtyAndMaybePersist IO now (s\<lparr>sf_pending := AList.delete key (sf_pending s)\<rparr>)"

definition AdvanceScopeWatermark :: "string \<Rightarrow> instant \<Rightarrow> agentStore \<Rightarrow> agentStore" where
  "AdvanceScopeWatermark scopeKey0 eventAt s =
     (let scopeKey = TrimSpace scopeKey0;
          cur = (case map_of (sf_scopeWatermarks s) scopeKey of None \<Rightarrow> zeroTime | Some t \<Rightarrow> t) in
      if scopeKey = [] \<or> eventAt = zeroTime then s
      else if eventAt > cur then s\<lparr>sf_scopeWatermarks := AList.update scopeKey eventAt (sf_scopeWatermarks s)\<rparr>
      else s)"

subsection \<open>Queries\<close>

definition PendingFastPath :: "((string, agentRecord) gomap \<Rightarrow> (string, agentRecord) gomap) \<Rightarrow> agentStore \<Rightarrow> agentRecord list" where
  "PendingFastPath ord s = filter ar_PendingConsensus (map snd (ord (sf_records s)))"

definition store_List :: "((string, agentRecord) gomap \<Rightarrow> (string, agentRecord) gomap) \<Rightarrow> agentStore \<Rightarrow> agentRecord list" where
  "store_List ord s = map snd (ord (sf_records s))"

definition ActiveCount :: "agentStore \<Rightarrow> int" where
  "ActiveCount s = int (length (sf_records s))"

definition LastAppliedWithin :: "agentStore \<Rightarrow> string \<Rightarrow> duration \<Rightarrow> instant \<Rightarrow> bool" where
  "LastAppliedWithin s policyID window now =
     (if window \<le> 0 then False
      else case map_of (sf_lastApplied s) policyID of None \<Rightarrow> False | Some prev \<Rightarrow> now - prev < window)"

definition IsScopeEventStale :: "agentStore \<Rightarrow> string \<Rightarrow> instant \<Rightarrow> bool \<times> instant" where
  "IsScopeEventStale s scopeKey0 eventAt =
     (let scopeKey = TrimSpace scopeKey0 in
      if scopeKey = [] \<or> eventAt = zeroTime then (False, zeroTime)
      else let prev = (case map_of (sf_scopeWatermarks s) scopeKey of None \<Rightarrow> zeroTime | Some t \<Rightarrow> t) in
           if prev = zeroTime then (False, zeroTime) else (eventAt < prev, prev))"

definition expiryReason :: "instant \<Rightarrow> agentRecord \<Rightarrow> string option" where
  "expiryReason now r =
     (if ar_PendingConsensus r \<and> ar_FastPathDeadline r \<noteq> zeroTime \<and> now > ar_FastPathDeadline r then Some ''fast_path_ttl''
      else if ar_ExpiresAt r \<noteq> zeroTime \<and> now > ar_ExpiresAt r then Some ''ttl_expired''
      else if ar_PreConsensus r \<noteq> zeroTime \<and> now > ar_PreConsensus r then Some ''pre_consensus_ttl''
      else if ar_Rollback r \<noteq> zeroTime \<and> now > ar_Rollback r then Some ''rollback_timeout''
      else None)"

definition Expired ::
    "((string, agentRecord) gomap \<Rightarrow> (string, agentRecord) gomap) \<Rightarrow> instant \<Rightarrow> agentStore \<Rightarrow> agentRecord list" where
  "Expired ord now s =
     concat (map (\<lambda>(k, r). case expiryReason now r of None \<Rightarrow> [] | Some why \<Rightarrow> [r\<lparr>ar_Reason := why\<rparr>]) (ord (sf_records s)))"

fun soonestDeadline :: "instant \<Rightarrow> instant \<Rightarrow> agentRecord list \<Rightarrow> instant" where
  "soonestDeadline now soonest [] = soonest"
| "soonestDeadline now soonest (r # rs) =
     (if ar_PreConsensus r = zeroTime \<or> \<not> now < ar_PreConsensus r then soonestDeadline now soonest rs
      else if soonest = zeroTime \<or> ar_PreConsensus r < soonest then soonestDeadline now (ar_PreConsensus r) rs
      else soonestDeadline now soonest rs)"

definition NextPreConsensusDeadline ::
    "((string, agentRecord) gomap \<Rightarrow> (string, agentRecord) gomap) \<Rightarrow> instant \<Rightarrow> agentStore \<Rightarrow> instant option" where
  "NextPreConsensusDeadline ord now s =
     (let soonest = soonestDeadline now zeroTime (map snd (ord (sf_records s))) in
      if soonest = zeroTime then None else Some soonest)"

subsection \<open>Reconciliation with the ledger\<close>

type_synonym ledgerOrder = "(string, policySpec) gomap \<Rightarrow> (string, policySpec) gomap"
type_synonym recordOrder = "(string, agentRecord) gomap \<Rightarrow> (string, agentRecord) gomap"

definition ledgerRecord :: "policySpec \<Rightarrow> instant \<Rightarrow> agentRecord" where
  "ledgerRecord spec appliedAt =
     freshRecord spec appliedAt
       (let ttl = gd_TTLSeconds (sp_Guardrails spec) in if ttl > 0 then appliedAt + secondsDuration ttl else zeroTime)"

definition adoptPolicy ::
    "(bytes \<Rightarrow> hash32) \<Rightarrow> instant \<Rightarrow> string \<times> policySpec \<Rightarrow> policySpec list \<times> agentStore \<Rightarrow> policySpec list \<times> agentStore" where
  "adoptPolicy sha256 appliedAt entry acc =
     (case (entry, acc) of
        ((pid, spec), (added, s)) \<Rightarrow>
          if sp_ID spec = [] \<or> map_of (sf_records s) pid \<noteq> None then (added, s)
          else
            let s = recordScopes sha256 spec appliedAt
                      (s\<lparr>sf_records := AList.update pid (ledgerRecord spec appliedAt) (sf_records s)\<rparr>) in
            (added @ [spec], s\<lparr>sf_lastApplied := AList.update (sp_ID spec) appliedAt (sf_lastApplied s)\<rparr>))"

definition reconcileCore ::
    "(bytes \<Rightarrow> hash32) \<Rightarrow> recordOrder \<Rightarrow> ledgerOrder \<Rightarrow> (string, policySpec) gomap \<Rightarrow> instant \<Rightarrow> agentStore
      \<Rightarrow> agentRecord list \<times> policySpec list \<times> agentStore" where
  "reconcileCore sha256 ordR ordL ledger appliedAt s =
     (let gone = (\<lambda>(pid, r). map_of ledger pid = None);
          removed = map snd (filter gone (ordR (sf_records s)));
          s = s\<lparr>sf_records := filter (\<lambda>e. \<not> gone e) (sf_records s)\<rparr>;
          (added, s) = fold (adoptPolicy sha256 appliedAt) (ordL ledger) ([], s) in
      (removed, added, s))"

definition ReconcileLedger ::
    "storeIO \<Rightarrow> recordOrder \<Rightarrow> ledgerOrder \<Rightarrow> (string, policySpec) gomap option \<Rightarrow> instant \<Rightarrow> instant \<Rightarrow> agentStore
      \<Rightarrow> (store_error + agentRecord list \<times> policySpec list) \<times> agentStore" where
  "ReconcileLedger IO ordR ordL ledger appliedAt now s =
     (case ledger of
        None \<Rightarrow> (Inr ([], []), s)
      | Some l \<Rightarrow>
          (case reconcileCore (io_sha256 IO) ordR ordL l appliedAt s of
             (removed, added, s) \<Rightarrow>
               if removed = [] \<and> added = [] then (Inr ([], []), s)
               else case markDirtyAndMaybePersist IO now s of
                      (Some e, s) \<Rightarrow> (Inl e, s)
                    | (None, s) \<Rightarrow> (Inr (removed, added), s)))"

subsection \<open>Loading\<close>

definition loadRecord :: "instant \<Rightarrow> agentRecord \<Rightarrow> agentRecord" where
  "loadRecord now r =
     (let g = sp_Guardrails (ar_Spec r); ttl = secondsDuration (gd_TTLSeconds g);
          r = r\<lparr>ar_GuardrailTTL := ttl\<rparr>;
          r = (if ttl > 0 \<and> ar_AppliedAt r = zeroTime then r\<lparr>ar_AppliedAt := now\<rparr> else r);
          r = r\<lparr>ar_ExpiresAt := (if ttl > 0 then ar_AppliedAt r + ttl else zeroTime)\<rparr>;
          r = (case gd_PreConsensusTTLSeconds g of
                 None \<Rightarrow> r | Some n \<Rightarrow> r\<lparr>ar_PreConsensus := ar_AppliedAt r + secondsDuration n\<rparr>) in
      case gd_RollbackIfNoCommitAfter g of
        None \<Rightarrow> r | Some n \<Rightarrow> r\<lparr>ar_Rollback := ar_AppliedAt r + secondsDuration n\<rparr>)"

definition loadRecords :: "instant \<Rightarrow> agentRecord list \<Rightarrow> (string, agentRecord) gomap" where
  "loadRecords now rs =
     fold (\<lambda>r m. if sp_ID (ar_Spec r) = [] then m else AList.update (sp_ID (ar_Spec r)) (loadRecord now r) m) rs []"

definition loadHistories :: "instant \<Rightarrow> duration \<Rightarrow> agentSnapshot \<Rightarrow> (string, instant list) gomap" where
  "loadHistories now retention snap =
     (let h = (if sn_RateHistory snap \<noteq> []
               then map (\<lambda>(k, es). (k, pruneHistory es now retention)) (sn_RateHistory snap)
               else [(''global'', pruneHistory (sn_History snap) now retention)]) in
      if map_of h ''global'' = None then AList.update ''global'' [] h else h)"

definition restoreSnapshot :: "instant \<Rightarrow> agentSnapshot \<Rightarrow> agentStore \<Rightarrow> agentStore" where
  "restoreSnapshot now snap s =
     (let loaded = loadRecords now (sn_Records snap) in
      s\<lparr>sf_records := loaded, sf_history := loadHistories now (sf_historyRetention s) snap,
        sf_pending := sn_PendingApprovals snap,
        sf_lastApplied := (if sn_LastApplied snap \<noteq> [] then sn_LastApplied snap
                           else map (\<lambda>(k, r). (k, ar_AppliedAt r)) loaded),
        sf_scopeWatermarks := sn_ScopeWatermarks snap, sf_dirty := False\<rparr>)"

definition store_Load :: "storeIO \<Rightarrow> instant \<Rightarrow> agentStore \<Rightarrow> store_error option \<times> agentStore" where
  "store_Load IO now s =
     (if sf_persistPath s = [] then (None, s)
      else if \<not> io_readOk IO then (Some ReadSnapshot, s)
      else case sf_disk s of
             None \<Rightarrow> (None, s)
           | Some data \<Rightarrow>
               (case io_unmarshal IO data of
                  None \<Rightarrow> (Some ParseSnapshot, s)
                | Some snap \<Rightarrow>
                    if sn_Checksum snap = [] then (None, restoreSnapshot now snap s)
                    else (case computeChecksum IO snap of
                            None \<Rightarrow> (Some ChecksumCompute, s)
                          | Some c \<Rightarrow> if EqualFold c (sn_Checksum snap) then (None, restoreSnapshot now snap s)
                                     else (Some ChecksumMismatch, s))))"

subsection \<open>The history counts recent applications\<close>

lemma record_frame [frame_simps]:
  "sf_records (recordHistoryLocked k t s) = sf_records s"
  "sf_historyRetention (recordHistoryLocked k t s) = sf_historyRetention s"
  "sf_lastApplied (recordHistoryLocked k t s) = sf_lastApplied s"
  "sf_persistPath (recordHistoryLocked k t s) = sf_persistPath s"
  by (simp_all add: recordHistoryLocked_def)

lemma recordScopes_frame [frame_simps]:
  "sf_records (recordScopes sha spec t s) = sf_records s"
  "sf_historyRetention (recordScopes sha spec t s) = sf_historyRetention s"
  "sf_lastApplied (recordScopes sha spec t s) = sf_lastApplied s"
  "sf_persistPath (recordScopes sha spec t s) = sf_persistPath s"
proof -
  have "sf_records (fold (\<lambda>k. recordHistoryLocked k t) ks s) = sf_records s
      \<and> sf_historyRetention (fold (\<lambda>k. recordHistoryLocked k t) ks s) = sf_historyRetention s
      \<and> sf_lastApplied (fold (\<lambda>k. recordHistoryLocked k t) ks s) = sf_lastApplied s
      \<and> sf_persistPath (fold (\<lambda>k. recordHistoryLocked k t) ks s) = sf_persistPath s" for ks
    by (induction ks arbitrary: s) (simp_all add: frame_simps)
  then show "sf_records (recordScopes sha spec t s) = sf_records s"
    "sf_historyRetention (recordScopes sha spec t s) = sf_historyRetention s"
    "sf_lastApplied (recordScopes sha spec t s) = sf_lastApplied s"
    "sf_persistPath (recordScopes sha spec t s) = sf_persistPath s"
    by (simp_all add: recordScopes_def)
qed

lemma historyOf_record:
  "historyOf (recordHistoryLocked k t s) k' =
    (if k = k' then pruneHistory (historyOf s k @ [t]) t (sf_historyRetention s) else historyOf s k')"
  by (simp add: historyOf_def recordHistoryLocked_def)

lemma historyOf_fold:
  "distinct ks \<Longrightarrow> historyOf (fold (\<lambda>k. recordHistoryLocked k t) ks s) k' =
    (if k' \<in> set ks then pruneHistory (historyOf s k' @ [t]) t (sf_historyRetention s) else historyOf s k')"
  by (induction ks arbitrary: s) (auto simp: historyOf_record frame_simps)

lemma historyKeys_distinct: "distinct (historyKeys sha spec)"
  by (simp add: historyKeys_def Let_def)

lemma historyOf_recordScopes:
  "historyOf (recordScopes sha spec t s) k =
    (if k \<in> set (historyKeys sha spec) then pruneHistory (historyOf s k @ [t]) t (sf_historyRetention s)
     else historyOf s k)"
  by (simp add: recordScopes_def historyOf_fold historyKeys_distinct)

lemma historyOf_upsert:
  "historyOf (upsertCore sha spec t s) k =
    (if k \<in> set (historyKeys sha spec) then pruneHistory (historyOf s k @ [t]) t (sf_historyRetention s)
     else historyOf s k)"
  by (simp add: upsertCore_def Let_def historyOf_def [of "_\<lparr>sf_lastApplied := _\<rparr>"])
    (simp add: historyOf_def [symmetric] historyOf_recordScopes historyOf_def [of "_\<lparr>sf_records := _\<rparr>"])

text \<open>A log of applications, in the order they were made, and the instants a scope saw.\<close>

type_synonym applyLog = "(policySpec \<times> instant) list"

definition applyAll :: "(bytes \<Rightarrow> hash32) \<Rightarrow> applyLog \<Rightarrow> agentStore \<Rightarrow> agentStore" where
  "applyAll sha256 runs s = fold (\<lambda>(spec, t). upsertCore sha256 spec t) runs s"

definition seenAt :: "(bytes \<Rightarrow> hash32) \<Rightarrow> string \<Rightarrow> applyLog \<Rightarrow> instant list" where
  "seenAt sha256 scope runs = map snd (filter (\<lambda>(spec, t). scope \<in> set (historyKeys sha256 spec)) runs)"

lemma sorted_seenAt: "sorted (map snd runs) \<Longrightarrow> sorted (seenAt sha scope runs)"
  unfolding seenAt_def by (induction runs) (auto split: if_splits)

lemma prune_snoc:
  fixes t :: int
  assumes "\<forall>x \<in> set xs. x \<le> t" and "b \<le> t - r" and "0 < r"
  shows "pruneHistory (dropWhile (\<lambda>x. x < b) xs @ [t]) t r = dropWhile (\<lambda>x. x < t - r) (xs @ [t])"
  using assms by (induction xs) (auto simp: pruneHistory_def)

definition lower :: "duration \<Rightarrow> instant list \<Rightarrow> instant" where
  "lower r ts = (if ts = [] then 0 else last ts - r)"

lemma upsert_retention [frame_simps]: "sf_historyRetention (upsertCore sha spec t s) = sf_historyRetention s"
  by (simp add: upsertCore_def Let_def frame_simps)

lemma applyAll_history:
  assumes "sorted (map snd runs)" and "0 < sf_historyRetention s" and "sf_history s = []"
  shows "historyOf (applyAll sha runs s) scope
      = dropWhile (\<lambda>x. x < lower (sf_historyRetention s) (seenAt sha scope runs)) (seenAt sha scope runs)
    \<and> sf_historyRetention (applyAll sha runs s) = sf_historyRetention s"
  using assms
proof (induction runs rule: rev_induct)
  case Nil
  then show ?case by (simp add: applyAll_def seenAt_def historyOf_def)
next
  case (snoc e runs)
  obtain spec t where e: "e = (spec, t)" by (cases e)
  let ?r = "sf_historyRetention s" and ?xs = "seenAt sha scope runs"
  have IH: "historyOf (applyAll sha runs s) scope = dropWhile (\<lambda>x. x < lower ?r ?xs) ?xs"
    "sf_historyRetention (applyAll sha runs s) = ?r"
    using snoc by (simp_all add: sorted_append)
  have le: "\<forall>x \<in> set ?xs. x \<le> t"
    using snoc.prems(1) e by (auto simp: sorted_append seenAt_def)
  have app: "applyAll sha (runs @ [e]) s = upsertCore sha spec t (applyAll sha runs s)"
    by (simp add: applyAll_def e)
  show ?case
  proof (cases "scope \<in> set (historyKeys sha spec)")
    case True
    then have xs: "seenAt sha scope (runs @ [e]) = ?xs @ [t]" by (simp add: seenAt_def e)
    have "pruneHistory (dropWhile (\<lambda>x. x < lower ?r ?xs) ?xs @ [t]) t ?r
        = dropWhile (\<lambda>x. x < t - ?r) (?xs @ [t])"
    proof (cases "?xs = []")
      case False
      then have "lower ?r ?xs \<le> t - ?r" using le last_in_set [of ?xs] by (simp add: lower_def)
      with le show ?thesis using snoc.prems(2) by (rule prune_snoc)
    qed (use snoc.prems(2) in \<open>simp add: pruneHistory_def\<close>)
    then show ?thesis
      using True IH by (simp add: app historyOf_upsert frame_simps xs lower_def)
  next
    case False
    then have "seenAt sha scope (runs @ [e]) = ?xs" by (simp add: seenAt_def e)
    then show ?thesis using False IH by (simp add: app historyOf_upsert frame_simps)
  qed
qed

lemma takeWhile_recent:
  fixes xs :: "int list"
  shows "sorted xs \<Longrightarrow> takeWhile (\<lambda>x. \<not> x < lo) (rev xs) = rev (filter (\<lambda>x. lo \<le> x) xs)"
  by (induction xs) (auto simp: takeWhile_append not_less dest: order_trans intro!: filter_True)

lemma count_recent:
  fixes xs :: "int list"
  assumes "sorted xs" and "b \<le> lo"
  shows "length (takeWhile (\<lambda>x. \<not> x < lo) (rev (dropWhile (\<lambda>x. x < b) xs))) = length (filter (\<lambda>x. lo \<le> x) xs)"
proof -
  have "filter (\<lambda>x. lo \<le> x) (dropWhile (\<lambda>x. x < b) xs) = filter (\<lambda>x. lo \<le> x) xs"
    using assms(2) by (induction xs) auto
  then show ?thesis using assms(1) by (simp add: takeWhile_recent sorted_dropWhile)
qed


definition known_scopes :: "string set" where
  "known_scopes = {'''', ''cluster'', ''namespace'', ''node'', ''tenant'', ''region'', ''global''}"

lemma historyKeys_not_window:
  assumes "tg_Scope (sp_Target spec) \<in> known_scopes"
  shows "''window:'' @ k \<notin> set (historyKeys sha spec)"
  using assms unfolding known_scopes_def
  by (elim insertE) (simp_all add: historyKeys_def RateScope_def ScopeIdentifier_def Let_def text_simps EqualFold_def)

text \<open>
  The window limit counts nothing. Its scope starts with \<^verbatim>\<open>window:\<close>, and no application is
  ever recorded under such a scope: with the in-process limiter the guardrail
  \<^verbatim>\<open>rate_limit\<close> sees a count of zero however many policies were applied.
\<close>

theorem window_scope_never_counted:
  assumes "list_all (\<lambda>(spec, t). tg_Scope (sp_Target spec) \<in> known_scopes) runs" and "sf_history s = []"
  shows "RecentCountFor (applyAll sha256 runs s) (WindowScope sha256 spec) w now = 0"
proof -
  have "historyOf (applyAll sha256 runs s) (WindowScope sha256 spec) = []"
    using assms(1)
  proof (induction runs rule: rev_induct)
    case Nil
    then show ?case using assms(2) by (simp add: applyAll_def historyOf_def)
  next
    case (snoc e runs)
    then have "WindowScope sha256 spec \<notin> set (historyKeys sha256 (fst e))"
      unfolding WindowScope_def by (intro historyKeys_not_window) (simp add: case_prod_unfold)
    with snoc show ?case
      by (cases e) (simp add: applyAll_def historyOf_upsert)
  qed
  then show ?thesis by (simp add: RecentCountFor_def)
qed


definition ex_storeOptions :: storeOptions where
  "ex_storeOptions = \<lparr>so_PersistPath = ''/s'', so_HistoryRetention = 0, so_EnableChecksum = False,
     so_LockTimeout = 0, so_PersistMinGap = 0\<rparr>"


theorem window_scope_never_counted_witness:
  "tg_Scope (sp_Target ex_parsed) \<in> known_scopes
    \<and> RecentCountFor (applyAll (\<lambda>b. 0) (replicate 5 (ex_parsed, 10)) (NewAgentStore ex_storeOptions))
        (WindowScope (\<lambda>b. 0) ex_parsed) 60 11 = 0"
proof -
  have scope: "tg_Scope (sp_Target ex_parsed) \<in> known_scopes"
    by (simp add: known_scopes_def ex_parsed_def ex_lib_def ex_rule_def parse_simps text_simps Let_def)
  moreover have "list_all (\<lambda>(spec, t). tg_Scope (sp_Target spec) \<in> known_scopes) (replicate 5 (ex_parsed, 10 :: instant))"
    using scope by (simp add: list_all_iff)
  ultimately show ?thesis
    using window_scope_never_counted [of "replicate 5 (ex_parsed, 10)" "NewAgentStore ex_storeOptions"]
    by (simp add: NewAgentStore_def)
qed

subsection \<open>Writing the snapshot\<close>

text \<open>
  Goroutines share the store, and writing a snapshot gives the mutex up. The state of the step
  relation is the store with the snapshots that were taken and not yet written. A goroutine changes
  the store and marks it dirty, moves a watermark (which marks nothing), takes a snapshot, or
  finishes a write, successfully or not.
\<close>

type_synonym writeJob = "u64 \<times> agentSnapshot"

inductive store_change :: "(bytes \<Rightarrow> hash32) \<Rightarrow> agentStore \<Rightarrow> agentStore \<Rightarrow> bool" for sha256 where
  upsert: "store_change sha256 s (upsertCore sha256 spec appliedAt s)"
| remove: "store_change sha256 s (removeCore policyID s)"
| entry: "map_of (sf_records s) policyID = Some r \<Longrightarrow>
    store_change sha256 s (s\<lparr>sf_records := AList.update policyID (f r) (sf_records s)\<rparr>)"
| pending: "store_change sha256 s (s\<lparr>sf_pending := p\<rparr>)"
| reconcile: "reconcileCore sha256 ordR ordL l appliedAt s = (removed, added, s') \<Longrightarrow> store_change sha256 s s'"

inductive persist_step :: "storeIO \<Rightarrow> agentStore \<times> writeJob list \<Rightarrow> agentStore \<times> writeJob list \<Rightarrow> bool" for IO where
  change: "store_change (io_sha256 IO) s s' \<Longrightarrow> unat (sf_stateVersion s) < 2 ^ 64 - 1 \<Longrightarrow>
    persist_step IO (s, jobs) (markDirty s', jobs)"
| watermark: "persist_step IO (s, jobs) (AdvanceScopeWatermark k t s, jobs)"
| begin_write: "persist_step IO (s, jobs) (s, jobs @ [(sf_stateVersion s, snapshotOf now s)])"
| end_write: "job \<in> set jobs \<Longrightarrow>
    persist_step IO (s, jobs) (snd (finishPersist IO now job s), remove1 job jobs)"

definition file_part :: "agentStore \<Rightarrow> string \<times> bool \<times> u64 \<times> bool \<times> bytes option" where
  "file_part s = (sf_persistPath s, sf_checksumEnabled s, sf_stateVersion s, sf_dirty s, sf_disk s)"

lemma recordScopes_file [frame_simps]: "file_part (recordScopes sha spec t s) = file_part s"
proof -
  have "file_part (fold (\<lambda>k. recordHistoryLocked k t) ks s) = file_part s" for ks
    by (induction ks arbitrary: s) (simp_all add: recordHistoryLocked_def file_part_def)
  then show ?thesis by (simp add: recordScopes_def)
qed

lemma adoptPolicy_file: "file_part (snd (fold (adoptPolicy sha t) l (a, s))) = file_part s"
proof (induction l arbitrary: a s)
  case (Cons e l)
  have "file_part (snd (adoptPolicy sha t e (a, s))) = file_part s"
    using recordScopes_file
    by (auto simp: adoptPolicy_def Let_def file_part_def split: prod.splits)
  with Cons show ?case by (cases "adoptPolicy sha t e (a, s)") simp
qed simp

definition keepListed :: "(string, policySpec) gomap \<Rightarrow> agentStore \<Rightarrow> agentStore" where
  "keepListed l s = s\<lparr>sf_records := filter (\<lambda>e. map_of l (fst e) \<noteq> None) (sf_records s)\<rparr>"

lemma reconcileCore_eq:
  "reconcileCore sha ordR ordL l t s =
    (let (added, s') = fold (adoptPolicy sha t) (ordL l) ([], keepListed l s) in
     (map snd (filter (\<lambda>e. map_of l (fst e) = None) (ordR (sf_records s))), added, s'))"
  by (simp add: reconcileCore_def keepListed_def Let_def case_prod_unfold)

lemma store_change_file:
  assumes "store_change sha s s'" shows "file_part s' = file_part s"
  using assms
proof (cases rule: store_change.cases)
  case (upsert spec appliedAt)
  then show ?thesis
    using recordScopes_file [of sha spec appliedAt "s\<lparr>sf_records := _\<rparr>"]
    by (simp add: upsertCore_def Let_def file_part_def)
next
  case (reconcile ordR ordL l t removed added)
  then have "snd (fold (adoptPolicy sha t) (ordL l) ([], keepListed l s)) = s'"
    by (auto simp: reconcileCore_eq Let_def split: prod.splits)
  then have "file_part s' = file_part (keepListed l s)" using adoptPolicy_file by metis
  then show ?thesis by (simp add: file_part_def keepListed_def)
qed (auto simp: removeCore_def file_part_def)

text \<open>A snapshot is current when it shows the store, watermarks and time of writing apart.\<close>

definition shows_store :: "agentStore \<Rightarrow> agentSnapshot \<Rightarrow> bool" where
  "shows_store s snap \<longleftrightarrow> (\<exists>now w. snap = snapshotOf now (s\<lparr>sf_scopeWatermarks := w\<rparr>))"

definition on_disk :: "storeIO \<Rightarrow> agentStore \<Rightarrow> bool" where
  "on_disk IO s \<longleftrightarrow>
     (\<exists>snap b. shows_store s snap \<and> encodeSnapshot IO (sf_checksumEnabled s) snap = Inr b \<and> sf_disk s = Some b)"

definition job_ok :: "agentStore \<Rightarrow> writeJob \<Rightarrow> bool" where
  "job_ok s job \<longleftrightarrow> fst job \<le> sf_stateVersion s \<and> (fst job = sf_stateVersion s \<longrightarrow> shows_store s (snd job))
     \<and> (fst job < sf_stateVersion s \<longrightarrow> sf_dirty s)"

definition persist_inv :: "storeIO \<Rightarrow> agentStore \<times> writeJob list \<Rightarrow> bool" where
  "persist_inv IO c \<longleftrightarrow> (sf_dirty (fst c) \<or> on_disk IO (fst c)) \<and> list_all (job_ok (fst c)) (snd c)"

lemma shows_watermark [simp]:
  "shows_store (s\<lparr>sf_scopeWatermarks := w\<rparr>) snap = shows_store s snap" by (simp add: shows_store_def)

lemma shows_now: "shows_store s (snapshotOf now s)"
  unfolding shows_store_def by (rule exI [of _ now], rule exI [of _ "sf_scopeWatermarks s"]) simp

lemma shows_written [simp]:
  "shows_store (s\<lparr>sf_disk := d, sf_lastPersistAt := t, sf_dirty := b\<rparr>) snap = shows_store s snap"
  by (simp add: shows_store_def snapshotOf_def historyOf_def)

lemma version_bump:
  assumes "unat (v :: u64) < 2 ^ 64 - 1" shows "v < v + 1"
  using assms by (intro word_less_nat_alt [THEN iffD2]) (simp add: unat_word_ariths)

lemma markDirty_fields [simp]:
  "sf_dirty (markDirty s) = True" "sf_stateVersion (markDirty s) = sf_stateVersion s + 1"
  by (simp_all add: markDirty_def)

lemma persist_step_inv:
  assumes "persist_step IO c c'" and "length (snd c) \<le> 1" and "persist_inv IO c"
  shows "persist_inv IO c'"
  using assms
proof (cases rule: persist_step.cases)
  case (change s s' jobs)
  then have same: "sf_stateVersion s' = sf_stateVersion s" using store_change_file by (auto simp: file_part_def)
  have "job_ok (markDirty s') j" if "job_ok s j" for j
    using that version_bump [OF change(4)] by (auto simp: job_ok_def same)
  then show ?thesis using assms(3) change by (auto simp: persist_inv_def list_all_iff)
next
  case (watermark s jobs k t)
  have "\<exists>w. AdvanceScopeWatermark k t s = s\<lparr>sf_scopeWatermarks := w\<rparr>"
    by (auto simp: AdvanceScopeWatermark_def Let_def intro: exI [of _ "sf_scopeWatermarks s"])
  then obtain w where "AdvanceScopeWatermark k t s = s\<lparr>sf_scopeWatermarks := w\<rparr>" ..
  then show ?thesis using assms(3) watermark by (simp add: persist_inv_def list_all_iff job_ok_def on_disk_def)
next
  case (begin_write s jobs now)
  then show ?thesis using assms(3) by (simp add: persist_inv_def job_ok_def shows_now)
next
  case (end_write job jobs s now)
  then have jobs: "jobs = [job]" using assms(2) by (cases jobs) auto
  show ?thesis
  proof (cases "encodeSnapshot IO (sf_checksumEnabled s) (snd job)")
    case (Inr b)
    then show ?thesis using assms(3) end_write jobs
      by (auto simp: persist_inv_def finishPersist_def job_ok_def on_disk_def order_le_less)
  qed (use assms(3) end_write jobs in \<open>simp add: persist_inv_def finishPersist_def\<close>)
qed


definition solo_step :: "storeIO \<Rightarrow> agentStore \<times> writeJob list \<Rightarrow> agentStore \<times> writeJob list \<Rightarrow> bool" where
  "solo_step IO c c' \<longleftrightarrow> persist_step IO c c' \<and> length (snd c') \<le> 1"

lemma solo_run_inv:
  assumes "(solo_step IO)\<^sup>*\<^sup>* c c'" and "length (snd c) \<le> 1" and "persist_inv IO c"
  shows "length (snd c') \<le> 1 \<and> persist_inv IO c'"
  using assms by (induction rule: rtranclp_induct) (auto simp: solo_step_def intro: persist_step_inv)

text \<open>
  C17. A clean store is on disk, as long as one write runs at a time: when the store is not marked dirty,
  the file holds its records, history, approvals and times of application.
\<close>

theorem clean_store_on_disk:
  assumes "(solo_step IO)\<^sup>*\<^sup>* (s, []) (s', jobs)" and "sf_dirty s \<or> on_disk IO s" and "\<not> sf_dirty s'"
  shows "on_disk IO s'"
  using solo_run_inv [OF assms(1)] assms(2,3) by (simp add: persist_inv_def)

definition ex_io :: storeIO where
  "ex_io = \<lparr>io_marshal = (\<lambda>snap. Some [1]), io_marshalIndent = (\<lambda>snap. Some [of_nat (length (sn_PendingApprovals snap))]),
     io_unmarshal = (\<lambda>b. None), io_sha256 = (\<lambda>b. 0), io_lockOk = True, io_writeOk = True, io_readOk = True\<rparr>"

definition ex_approved :: "nat \<Rightarrow> agentStore" where
  "ex_approved n = (NewAgentStore ex_storeOptions)
     \<lparr>sf_pending := map (\<lambda>i. (replicate i CHR ''a'', [1])) [0..<n], sf_stateVersion := of_nat n, sf_dirty := 0 < n\<rparr>"

lemma ex_finish:
  "finishPersist ex_io now (v, snapshotOf t (ex_approved n)) s
    = (None, s\<lparr>sf_disk := Some [of_nat n], sf_lastPersistAt := now,
                sf_dirty := (if sf_stateVersion s = v then False else sf_dirty s)\<rparr>)"
  by (simp add: finishPersist_def encodeSnapshot_def computeChecksum_def snapshotOf_def ex_approved_def ex_io_def
    NewAgentStore_def require_def orFail_def)

lemma ex_change:
  "persist_step ex_io (ex_approved 0, jobs) (ex_approved 1, jobs)"
  "persist_step ex_io (ex_approved 1, jobs) (ex_approved 2, jobs)"
proof -
  have "markDirty ((ex_approved 0)\<lparr>sf_pending := map (\<lambda>i. (replicate i CHR ''a'', [1])) [0..<1]\<rparr>) = ex_approved 1"
    "markDirty ((ex_approved 1)\<lparr>sf_pending := map (\<lambda>i. (replicate i CHR ''a'', [1])) [0..<2]\<rparr>) = ex_approved 2"
    by (simp_all add: ex_approved_def markDirty_def NewAgentStore_def)
  moreover have "unat (sf_stateVersion (ex_approved 0)) < 2 ^ 64 - 1" "unat (sf_stateVersion (ex_approved 1)) < 2 ^ 64 - 1"
    by (simp_all add: ex_approved_def)
  ultimately show "persist_step ex_io (ex_approved 0, jobs) (ex_approved 1, jobs)"
    "persist_step ex_io (ex_approved 1, jobs) (ex_approved 2, jobs)"
    by (metis store_change.pending persist_step.change)+
qed

theorem clean_store_on_disk_witness:
  "on_disk ex_io ((ex_approved 1)\<lparr>sf_disk := Some [1], sf_lastPersistAt := 9, sf_dirty := False\<rparr>)"
proof (rule clean_store_on_disk)
  let ?job = "(sf_stateVersion (ex_approved 1), snapshotOf 8 (ex_approved 1))"
  have "solo_step ex_io (ex_approved 1, []) (ex_approved 1, [?job])"
    unfolding solo_step_def using persist_step.begin_write [of ex_io "ex_approved 1" "[]" 8] by simp
  moreover have "solo_step ex_io (ex_approved 1, [?job])
      ((ex_approved 1)\<lparr>sf_disk := Some [1], sf_lastPersistAt := 9, sf_dirty := False\<rparr>, [])"
    unfolding solo_step_def using persist_step.end_write [of ?job "[?job]" ex_io "ex_approved 1" 9]
    by (simp add: ex_finish)
  ultimately show "(solo_step ex_io)\<^sup>*\<^sup>* (ex_approved 1, [])
      ((ex_approved 1)\<lparr>sf_disk := Some [1], sf_lastPersistAt := 9, sf_dirty := False\<rparr>, [])" by simp
qed (simp_all add: ex_approved_def)

text \<open>
  Overlapping writes lose an update. The mutex is released before the lock of the file is taken, so
  a snapshot taken earlier can be written later. The newer write has cleared the dirty mark by then
  and the older one does not set it again: the file is stale, nothing is in flight, and
  \<^verbatim>\<open>Flush\<close> does nothing.
\<close>

theorem overlapping_writers_lose_update:
  "\<exists>s. (persist_step ex_io)\<^sup>*\<^sup>* (NewAgentStore ex_storeOptions, []) (s, [])
     \<and> \<not> on_disk ex_io s \<and> (\<forall>now. Flush ex_io now s = (None, s))"
proof -
  let ?j1 = "(1 :: u64, snapshotOf 1 (ex_approved 1))" and ?j2 = "(2 :: u64, snapshotOf 2 (ex_approved 2))"
  let ?s = "\<lambda>b. (ex_approved 2)\<lparr>sf_disk := Some [b], sf_lastPersistAt := 3, sf_dirty := False\<rparr>"
  note steps = ex_change
    persist_step.begin_write [of ex_io "ex_approved 1" "[]" 1]
    persist_step.begin_write [of ex_io "ex_approved 2" "[?j1]" 2]
    persist_step.end_write [of ?j2 "[?j1, ?j2]" ex_io "ex_approved 2" 3]
    persist_step.end_write [of ?j1 "[?j1]" ex_io "?s 2" 3]
  have versions: "sf_stateVersion (ex_approved 1) = 1" "sf_stateVersion (ex_approved 2) = 2"
    "sf_stateVersion (?s b) = 2" "?j1 \<noteq> ?j2" for b by (simp_all add: ex_approved_def)
  have run: "persist_step ex_io (ex_approved 1, []) (ex_approved 1, [?j1])"
    "persist_step ex_io (ex_approved 2, [?j1]) (ex_approved 2, [?j1, ?j2])"
    "persist_step ex_io (ex_approved 2, [?j1, ?j2]) (?s 2, [?j1])"
    "persist_step ex_io (?s 2, [?j1]) (?s 1, [])"
    using steps(3-) by (simp_all add: ex_finish versions del: One_nat_def)
  note after = converse_rtranclp_into_rtranclp [of "persist_step ex_io"]
  have "(persist_step ex_io)\<^sup>*\<^sup>* (ex_approved 0, []) (?s 1, [])"
    by (rule after [OF ex_change(1) after [OF run(1) after [OF ex_change(2) after [OF run(2) after [OF run(3)]]]]])
      (rule r_into_rtranclp [of "persist_step ex_io", OF run(4)])
  moreover have "ex_approved 0 = NewAgentStore ex_storeOptions"
    by (simp add: ex_approved_def NewAgentStore_def)
  moreover have "\<not> on_disk ex_io (?s 1)"
    by (auto simp: on_disk_def shows_store_def snapshotOf_def encodeSnapshot_def computeChecksum_def ex_io_def
      ex_approved_def NewAgentStore_def require_def orFail_def)
  moreover have "\<forall>now. Flush ex_io now (?s 1) = (None, ?s 1)" by (simp add: Flush_def)
  ultimately show ?thesis by metis
qed

end
