(* ===== verification/AgentGuards.thy ===== *)
theory AgentGuards
  imports AgentStore
begin

unbundle bit_operations_syntax

text \<open>
  What stands between a verified policy and the enforcement backend of the agent: the address
  allowlist and the limits of \<^verbatim>\<open>internal/controller/controller.go\<close> (\<^verbatim>\<open>checkGuardrails\<close>), the rate
  coordinators of \<^verbatim>\<open>internal/ratelimit\<close>, the fast-path test, the replay cache, the lifecycle
  compactor and the execution lanes of \<^verbatim>\<open>internal/controller\<close>.

  \<^verbatim>\<open>netip.ParseAddr\<close> and \<^verbatim>\<open>netip.ParsePrefix\<close> are arguments; what the code does with the parsed
  addresses is modelled on machine words. The Redis coordinator is its Lua script, run on sorted
  sets; the expiry of an idle key only removes entries the script would remove.

  Lemmas: a policy that passes the allowlist spares every allowlisted address, except one inside a
  targeted network; the Redis script keeps a sliding window within its limit; a refused check
  leaves no reservation behind; the lanes do not bound what runs.
\<close>

subsection \<open>Addresses\<close>

datatype netAddr = V4 "32 word" | V6 "128 word" string

record netPrefix =
  np_Addr :: netAddr
  np_Bits :: nat

record netLib =
  nl_parseAddr :: "string \<Rightarrow> netAddr option"
  nl_parsePrefix :: "string \<Rightarrow> netPrefix option"

definition sameBits :: "nat \<Rightarrow> 'a::len word \<Rightarrow> 'a word \<Rightarrow> bool" where
  "sameBits n x y \<longleftrightarrow> drop_bit (LENGTH('a) - n) (x XOR y) = 0"

fun prefixContains :: "netPrefix \<Rightarrow> netAddr \<Rightarrow> bool" where
  "prefixContains p (V4 y) = (case np_Addr p of V4 x \<Rightarrow> sameBits (np_Bits p) x y | V6 x z \<Rightarrow> False)"
| "prefixContains p (V6 y zone) =
     (case np_Addr p of V4 x \<Rightarrow> False | V6 x z \<Rightarrow> zone = [] \<and> sameBits (np_Bits p) x y)"

definition prefixesOverlap :: "netPrefix \<Rightarrow> netPrefix \<Rightarrow> bool" where
  "prefixesOverlap a b \<longleftrightarrow>
     a = b \<or>
     (let n = min (np_Bits a) (np_Bits b) in
      case (np_Addr a, np_Addr b) of
        (V4 x, V4 y) \<Rightarrow> n = 0 \<or> sameBits n x y
      | (V6 x _, V6 y _) \<Rightarrow> n = 0 \<or> sameBits n x y
      | _ \<Rightarrow> False)"

definition parseAddrs :: "netLib \<Rightarrow> string list \<Rightarrow> netAddr list" where
  "parseAddrs N vs = List.map_filter (\<lambda>v. nl_parseAddr N (TrimSpace v)) vs"

definition parsePrefixes :: "netLib \<Rightarrow> string list \<Rightarrow> netPrefix list" where
  "parsePrefixes N vs = List.map_filter (\<lambda>v. nl_parsePrefix N (TrimSpace v)) vs"

definition ctl_effectiveNamespace :: "policySpec \<Rightarrow> string" where
  "ctl_effectiveNamespace spec =
     (if tg_Namespace (sp_Target spec) \<noteq> [] then tg_Namespace (sp_Target spec)
      else case map_of (tg_Selectors (sp_Target spec)) ''namespace'' of
             Some ns \<Rightarrow> ToLower (TrimSpace ns)
           | None \<Rightarrow> [])"

text \<open>The reason a policy is refused for, in the order of the tests.\<close>

definition checkAllowlist :: "netLib \<Rightarrow> policySpec \<Rightarrow> string option" where
  "checkAllowlist N spec =
     (let g = sp_Guardrails spec; t = sp_Target spec; targets = parseAddrs N (tg_IPs t);
          ns = ctl_effectiveNamespace spec; allowCIDRs = parsePrefixes N (gd_AllowlistCIDRs g) in
      if gd_AllowlistIPs g = [] \<and> gd_AllowlistCIDRs g = [] \<and> gd_AllowlistNamespaces g = [] then None
      else if list_ex (\<lambda>a. a \<in> set (parseAddrs N (gd_AllowlistIPs g))) targets then Some ''allowlist_ip''
      else if ns \<noteq> [] \<and> list_ex (\<lambda>allowed. EqualFold ns (canonicalNamespace allowed)) (gd_AllowlistNamespaces g)
      then Some ''allowlist_namespace''
      else if ns = [] \<and> tg_Scope t = ''namespace'' \<and> gd_AllowlistNamespaces g \<noteq> []
      then Some ''allowlist_namespace''
      else if list_ex (\<lambda>a. list_ex (\<lambda>p. prefixContains p a) allowCIDRs) targets then Some ''allowlist_cidr''
      else if list_ex (\<lambda>p. list_ex (prefixesOverlap p) (parsePrefixes N (tg_CIDRs t))) allowCIDRs
      then Some ''allowlist_cidr''
      else if list_ex (\<lambda>c. c \<in> set allowCIDRs) (parsePrefixes N (tg_CIDRs t)) then Some ''allowlist_cidr''
      else None)"

subsection \<open>Fast path\<close>

record fastPathConfig =
  fp_Enabled :: bool
  fp_MinConfidence :: rat
  fp_SignalsRequired :: int

text \<open>\<open>None\<close> for an eligible policy, the reason otherwise.\<close>

definition EvaluateFastPath :: "policySpec \<Rightarrow> fastPathConfig \<Rightarrow> string option" where
  "EvaluateFastPath spec cfg =
     (let g = sp_Guardrails spec;
          signals = (case gd_FastPathSignalsRequired g of None \<Rightarrow> fp_SignalsRequired cfg | Some n \<Rightarrow> n);
          least = (case gd_FastPathConfidenceMin g of None \<Rightarrow> fp_MinConfidence cfg | Some r \<Rightarrow> r) in
      if \<not> fp_Enabled cfg \<or> \<not> gd_FastPathEnabled g then Some ''disabled''
      else if (case gd_FastPathTTLSeconds g of None \<Rightarrow> True | Some n \<Rightarrow> n \<le> 0) then Some ''ttl_missing''
      else if signals \<le> 0 then Some ''signals_missing''
      else if (case cr_MinConfidence (sp_Criteria spec) of None \<Rightarrow> True | Some r \<Rightarrow> r < least)
      then Some ''confidence_insufficient''
      else None)"

subsection \<open>Lifecycle compactor\<close>

type_synonym compactor = "(string, instant \<times> string) gomap"

definition normalizeCompactionAction :: "string \<Rightarrow> string" where
  "normalizeCompactionAction action =
     (let a = ToLower (TrimSpace action) in if a = [] then ''apply'' else a)"

definition compactionKey :: "policySpec \<Rightarrow> string" where
  "compactionKey spec =
     (let i = ToLower (TrimSpace (sp_ID spec)); t = sp_Target spec;
          selector = (\<lambda>k. case map_of (tg_Selectors t) k of None \<Rightarrow> [] | Some v \<Rightarrow> ToLower (TrimSpace v));
          ns0 = ToLower (TrimSpace (tg_Namespace t));
          ns = (if ns0 = [] then selector ''namespace'' else ns0);
          target = strJoin [strJoin (sort (tg_IPs t)) '','', strJoin (sort (tg_CIDRs t)) '','', ns, selector ''node''] ''|'' in
      if i \<noteq> [] then ''id:'' @ i
      else ''fallback:'' @ ToLower (TrimSpace (ScopeIdentifier spec)) @ ''|''
        @ (if target = ''|||'' then ''unknown'' else target))"

definition compactor_prune :: "duration \<Rightarrow> instant \<Rightarrow> compactor \<Rightarrow> compactor" where
  "compactor_prune window now c =
     (if window \<le> 0 then c else filter (\<lambda>(k, lastTS, action). \<not> lastTS < now - window) c)"

text \<open>\<^verbatim>\<open>Observe\<close>: whether the event is superseded, and the entries after it.\<close>

definition compactor_Observe :: "duration \<Rightarrow> policySpec \<Rightarrow> instant \<Rightarrow> instant \<Rightarrow> compactor \<Rightarrow> bool \<times> compactor" where
  "compactor_Observe window spec eventTS0 now c0 =
     (let eventTS = (if eventTS0 = zeroTime then now else eventTS0);
          key = compactionKey spec; c = compactor_prune window now c0;
          fresh = AList.update key (eventTS, normalizeCompactionAction (sp_Action spec)) c in
      case map_of c key of
        Some (lastTS, _) \<Rightarrow> if \<not> lastTS < eventTS then (True, c) else (False, fresh)
      | None \<Rightarrow> (False, fresh))"

subsection \<open>Replay cache\<close>

record replayConfig =
  rp_window :: duration
  rp_futureSkew :: duration
  rp_cacheMax :: int
  rp_enabled :: bool
  rp_requirePayload :: bool

type_synonym replayCache = "(string, instant) gomap"
type_synonym replayOrder = "replayCache \<Rightarrow> replayCache"

definition pruneReplay :: "replayConfig \<Rightarrow> instant \<Rightarrow> replayCache \<Rightarrow> replayCache" where
  "pruneReplay r now m = (if \<not> rp_enabled r then m else filter (\<lambda>(k, seen). \<not> seen < now - rp_window r) m)"

definition evictReplay :: "replayOrder \<Rightarrow> int \<Rightarrow> replayCache \<Rightarrow> replayCache" where
  "evictReplay ord toRemove m =
     (if toRemove \<le> 0 then m else fold AList.delete (map fst (take (nat toRemove) (ord m))) m)"

definition rememberReplay :: "replayConfig \<Rightarrow> replayOrder \<Rightarrow> string \<Rightarrow> instant \<Rightarrow> replayCache \<Rightarrow> replayCache" where
  "rememberReplay r ord key now m =
     (let m = AList.update key now m in evictReplay ord (int (length m) - rp_cacheMax r) m)"

definition commitReplayKey :: "replayConfig \<Rightarrow> replayOrder \<Rightarrow> string \<Rightarrow> instant \<Rightarrow> replayCache \<Rightarrow> replayCache" where
  "commitReplayKey r ord key0 now m =
     (let key = TrimSpace key0 in
      if \<not> rp_enabled r \<or> key = [] then m else rememberReplay r ord key now (pruneReplay r now m))"

definition seenRecently :: "replayConfig \<Rightarrow> string \<Rightarrow> instant \<Rightarrow> replayCache \<Rightarrow> bool" where
  "seenRecently r key now m = (case map_of m key of None \<Rightarrow> False | Some lastTS \<Rightarrow> now - lastTS \<le> rp_window r)"

definition rawString :: "json option \<Rightarrow> string" where
  "rawString v = (case v of Some (JString s) \<Rightarrow> TrimSpace s | _ \<Rightarrow> [])"

definition rawObject :: "json option \<Rightarrow> jobject" where
  "rawObject v = (case v of Some (JObject m) \<Rightarrow> m | _ \<Rightarrow> [])"

definition eventCommandID :: "policyEvent \<Rightarrow> string" where
  "eventCommandID evt =
     (let raw = sp_Raw (pe_Spec evt); direct = rawString (map_of raw ''command_id'');
          md = rawString (map_of (rawObject (map_of raw ''metadata'')) ''command_id'');
          tr = rawString (map_of (rawObject (map_of raw ''trace'')) ''command_id'') in
      if direct \<noteq> [] then direct else if md \<noteq> [] then md else tr)"

definition replayKey :: "policyEvent \<Rightarrow> policyUpdateEvent \<Rightarrow> string" where
  "replayKey evt p =
     (if eventCommandID evt \<noteq> [] then ''cmd:'' @ eventCommandID evt
      else strJoin [if TrimSpace (pu_PolicyId p) \<noteq> [] then TrimSpace (pu_PolicyId p) else sp_ID (pe_Spec evt),
                    hexEncode (pu_RuleHash p), hexEncode (pu_ProducerId p), go_Itoa (pu_Timestamp p)] ''|'')"

definition timestampReason :: "replayConfig \<Rightarrow> int \<Rightarrow> instant \<Rightarrow> string option" where
  "timestampReason r ts now =
     (if ts \<le> 0 then Some ''replay_invalid_timestamp''
      else if now + rp_futureSkew r < ts * second then Some ''replay_future_timestamp''
      else if ts * second < now - rp_window r then Some ''replay_stale_timestamp''
      else None)"

text \<open>The reason (empty when the event passes), the key, and the pruned cache.\<close>

definition checkReplay :: "replayConfig \<Rightarrow> policyEvent \<Rightarrow> instant \<Rightarrow> replayCache \<Rightarrow> (string \<times> string) \<times> replayCache" where
  "checkReplay r evt now m =
     (if \<not> rp_enabled r then (([], []), m)
      else case pe_Proto evt of
             None \<Rightarrow> ((if rp_requirePayload r then ''replay_missing_envelope'' else [], []), m)
           | Some p \<Rightarrow>
               (case timestampReason r (pu_Timestamp p) now of
                  Some why \<Rightarrow> ((why, []), m)
                | None \<Rightarrow>
                    let key = replayKey evt p; m = pruneReplay r now m in
                    ((if seenRecently r key now m then ''replay_duplicate'' else [], key), m)))"

definition fastReplayKey :: "fastEnvelope \<Rightarrow> string" where
  "fastReplayKey f = strJoin [''fast'', fe_MitigationID f, fe_PolicyID f, TrimSpace (fe_ContentHash f),
     TrimSpace (fe_Pubkey f), TrimSpace (fe_Nonce f), go_Itoa (fe_Timestamp f)] ''|''"

definition checkFastReplay ::
    "replayConfig \<Rightarrow> replayOrder \<Rightarrow> fastEnvelope \<Rightarrow> instant \<Rightarrow> replayCache \<Rightarrow> string option \<times> replayCache" where
  "checkFastReplay r ord f now m =
     (if \<not> rp_enabled r then (None, m)
      else case timestampReason r (fe_Timestamp f) now of
             Some why \<Rightarrow> (Some why, m)
           | None \<Rightarrow>
               let key = fastReplayKey f; m = pruneReplay r now m in
               if seenRecently r key now m then (Some ''replay_duplicate'', m)
               else (None, rememberReplay r ord key now m))"


subsection \<open>Rate coordinators\<close>

type_synonym redisDB = "(string, (string, int) gomap) gomap"

datatype coordinator = LocalCounter | RedisBackend string

datatype rate_error = RateLimitExceeded | RateBackendError

datatype reservation = LocalReservation | RedisReservation string string

record rateEnv =
  re_Coord :: "coordinator option"
  re_uuid :: "nat \<Rightarrow> string"
  re_evalOk :: bool
  re_zremOk :: bool

record rateWorld =
  rw_redis :: redisDB
  rw_ids :: nat

definition UnixMilli :: "instant \<Rightarrow> int" where
  "UnixMilli t = t div millisecond"

definition Milliseconds :: "duration \<Rightarrow> int" where
  "Milliseconds d = go_div d millisecond"

definition zset :: "redisDB \<Rightarrow> string \<Rightarrow> (string, int) gomap" where
  "zset db key = (case map_of db key of None \<Rightarrow> [] | Some z \<Rightarrow> z)"

text \<open>The Lua script: drop what left the window, refuse at the limit, else add the member.\<close>

definition reserveScript :: "string \<Rightarrow> int \<Rightarrow> int \<Rightarrow> int \<Rightarrow> string \<Rightarrow> redisDB \<Rightarrow> (bool \<times> int) \<times> redisDB" where
  "reserveScript key now window limit member db =
     (let z = filter (\<lambda>(m, score). \<not> score \<le> now - window) (zset db key); n = int (length z) in
      if n \<ge> limit then ((False, n), AList.update key z db)
      else ((True, n + 1), AList.update key (AList.update member now z) db))"

definition redis_key :: "string \<Rightarrow> string \<Rightarrow> string" where
  "redis_key prefix scope = (if prefix = [] then ''rl:'' @ scope else prefix @ '':'' @ scope)"

definition redis_Reserve ::
    "string \<Rightarrow> bool \<Rightarrow> string \<Rightarrow> string \<Rightarrow> duration \<Rightarrow> int \<Rightarrow> instant \<Rightarrow> redisDB
      \<Rightarrow> (rate_error + reservation) \<times> redisDB" where
  "redis_Reserve prefix evalOk member scope window limit now db =
     (let key = redis_key prefix scope in
      if \<not> evalOk then (Inl RateBackendError, db)
      else case reserveScript key (UnixMilli now) (Milliseconds window) limit member db of
             ((True, n), db) \<Rightarrow> (Inr (RedisReservation key member), db)
           | ((False, n), db) \<Rightarrow> (Inl RateLimitExceeded, db))"

definition local_Reserve ::
    "string \<Rightarrow> duration \<Rightarrow> int \<Rightarrow> instant \<Rightarrow> agentStore \<Rightarrow> (rate_error + reservation) \<times> agentStore" where
  "local_Reserve scope window limit now s =
     (let current = (if scope = [] then RecentCount s window now else RecentCountFor s scope window now) in
      (if current \<ge> limit then Inl RateLimitExceeded else Inr LocalReservation, s))"

definition reserve ::
    "rateEnv \<Rightarrow> coordinator \<Rightarrow> agentStore \<Rightarrow> string \<Rightarrow> duration \<Rightarrow> int \<Rightarrow> instant \<Rightarrow> rateWorld
      \<Rightarrow> (rate_error + reservation) \<times> rateWorld" where
  "reserve R c s scope window limit now w =
     (case c of
        LocalCounter \<Rightarrow> (fst (local_Reserve scope window limit now s), w)
      | RedisBackend prefix \<Rightarrow>
          (case redis_Reserve prefix (re_evalOk R) (re_uuid R (rw_ids w)) scope window limit now (rw_redis w) of
             (res, db) \<Rightarrow> (res, w\<lparr>rw_redis := db, rw_ids := rw_ids w + 1\<rparr>)))"

definition releaseOne :: "rateEnv \<Rightarrow> reservation \<Rightarrow> rateWorld \<Rightarrow> rateWorld" where
  "releaseOne R res w =
     (case res of
        LocalReservation \<Rightarrow> w
      | RedisReservation key member \<Rightarrow>
          if re_zremOk R
          then w\<lparr>rw_redis := AList.update key (AList.delete member (zset (rw_redis w) key)) (rw_redis w)\<rparr>
          else w)"

definition releaseAll :: "rateEnv \<Rightarrow> reservation list \<Rightarrow> rateWorld \<Rightarrow> rateWorld" where
  "releaseAll R rs w = fold (releaseOne R) rs w"

subsection \<open>Guardrails\<close>

type_synonym guardResult = "(string + reservation list) \<times> rateWorld"

definition limitCheck ::
    "rateEnv \<Rightarrow> agentStore \<Rightarrow> string \<Rightarrow> duration \<Rightarrow> int \<Rightarrow> string \<Rightarrow> int \<Rightarrow> instant
      \<Rightarrow> reservation list \<Rightarrow> rateWorld \<Rightarrow> guardResult" where
  "limitCheck R s scope window limit exceeded stored now acc w =
     (case re_Coord R of
        None \<Rightarrow> if stored \<ge> limit then (Inl exceeded, w) else (Inr acc, w)
      | Some c \<Rightarrow>
          (case reserve R c s scope window limit now w of
             (Inr r, w) \<Rightarrow> (Inr (acc @ [r]), w)
           | (Inl RateLimitExceeded, w) \<Rightarrow> (Inl exceeded, releaseAll R acc w)
           | (Inl RateBackendError, w) \<Rightarrow> (Inl ''rate_limit_error'', releaseAll R acc w)))"

definition thenCheck :: "guardResult \<Rightarrow> (reservation list \<Rightarrow> rateWorld \<Rightarrow> guardResult) \<Rightarrow> guardResult" where
  "thenCheck r f = (case r of (Inl e, w) \<Rightarrow> (Inl e, w) | (Inr acc, w) \<Rightarrow> f acc w)"

abbreviation minute :: duration where
  "minute \<equiv> 60 * second"

definition minuteLimit ::
    "rateEnv \<Rightarrow> (bytes \<Rightarrow> hash32) \<Rightarrow> agentStore \<Rightarrow> policySpec \<Rightarrow> instant \<Rightarrow> reservation list \<Rightarrow> rateWorld \<Rightarrow> guardResult" where
  "minuteLimit R sha256 s spec now acc w =
     (case gd_MaxPoliciesPerMinute (sp_Guardrails spec) of
        None \<Rightarrow> (Inr acc, w)
      | Some limit \<Rightarrow>
          let scope = RateScope sha256 spec in
          limitCheck R s scope minute limit ''rate_limit_exceeded''
            (if scope = ''global'' then RecentCount s minute now else RecentCountFor s scope minute now) now acc w)"

definition windowLimit ::
    "rateEnv \<Rightarrow> (bytes \<Rightarrow> hash32) \<Rightarrow> agentStore \<Rightarrow> policySpec \<Rightarrow> instant \<Rightarrow> reservation list \<Rightarrow> rateWorld \<Rightarrow> guardResult" where
  "windowLimit R sha256 s spec now acc w =
     (case gd_RateLimit (sp_Guardrails spec) of
        None \<Rightarrow> (Inr acc, w)
      | Some rl \<Rightarrow>
          let d = secondsDuration (rl_WindowSeconds rl); window = (if d \<le> 0 then minute else d) in
          limitCheck R s (WindowScope sha256 spec) window (rl_MaxActions rl) ''rate_limit_exceeded''
            (RecentCount s window now) now acc w)"

definition ownerLimit ::
    "rateEnv \<Rightarrow> agentStore \<Rightarrow> int option \<Rightarrow> string \<Rightarrow> string \<Rightarrow> instant \<Rightarrow> reservation list \<Rightarrow> rateWorld \<Rightarrow> guardResult" where
  "ownerLimit R s limit kind owner now acc w =
     (case limit of
        None \<Rightarrow> (Inr acc, w)
      | Some n \<Rightarrow>
          if owner = [] then (Inl (kind @ ''_missing''), releaseAll R acc w)
          else limitCheck R s (kind @ '':'' @ owner) minute n (kind @ ''_rate_limit'')
                 (RecentCountFor s (kind @ '':'' @ owner) minute now) now acc w)"

definition checkGuardrails ::
    "netLib \<Rightarrow> rateEnv \<Rightarrow> (bytes \<Rightarrow> hash32) \<Rightarrow> agentStore \<Rightarrow> policySpec \<Rightarrow> instant \<Rightarrow> rateWorld \<Rightarrow> guardResult" where
  "checkGuardrails N R sha256 s spec now w =
     (let g = sp_Guardrails spec;
          cooling = (case gd_EscalationCooldown g of
                       None \<Rightarrow> False
                     | Some n \<Rightarrow> secondsDuration n > 0 \<and> LastAppliedWithin s (sp_ID spec) (secondsDuration n) now);
          full = (case gd_MaxActivePolicies g of None \<Rightarrow> False | Some n \<Rightarrow> ActiveCount s \<ge> n) in
      case checkAllowlist N spec of
        Some why \<Rightarrow> (Inl why, w)
      | None \<Rightarrow>
          if cooling then (Inl ''escalation_cooldown'', w)
          else if full then (Inl ''max_active_policies'', w)
          else thenCheck (thenCheck (thenCheck (minuteLimit R sha256 s spec now [] w)
                 (windowLimit R sha256 s spec now))
                 (ownerLimit R s (gd_RateLimitPerTenant g) ''tenant'' (effectiveTenant spec) now))
                 (ownerLimit R s (gd_RateLimitPerRegion g) ''region'' (effectiveRegion spec) now))"

definition EvaluateGuardrails ::
    "netLib \<Rightarrow> rateEnv \<Rightarrow> (bytes \<Rightarrow> hash32) \<Rightarrow> agentStore \<Rightarrow> policySpec \<Rightarrow> instant \<Rightarrow> rateWorld \<Rightarrow> string option \<times> rateWorld" where
  "EvaluateGuardrails N R sha256 s spec now w =
     (case checkGuardrails N R sha256 s spec now w of
        (Inl why, w) \<Rightarrow> (Some why, w)
      | (Inr rs, w) \<Rightarrow> (None, releaseAll R rs w))"

subsection \<open>Lanes\<close>

text \<open>
  A lane is a buffered channel. A handler enters when the buffer has room, and the function it gets
  back takes one element out when there is one. The critical-lane handlers call it after the
  dataplane change and again, deferred, on return; the state counts the elements in the buffer, the
  handlers changing the dataplane, and those that only have the deferred call left.
\<close>

record laneState =
  ln_slots :: nat
  ln_working :: nat
  ln_finishing :: nat

definition enterLane :: "nat \<Rightarrow> laneState \<Rightarrow> laneState option" where
  "enterLane cap l =
     (if ln_slots l < cap then Some (l\<lparr>ln_slots := ln_slots l + 1, ln_working := ln_working l + 1\<rparr>) else None)"

definition releaseLane :: "laneState \<Rightarrow> laneState" where
  "releaseLane l = (if ln_slots l > 0 then l\<lparr>ln_slots := ln_slots l - 1\<rparr> else l)"

inductive lane_step :: "nat \<Rightarrow> laneState \<Rightarrow> laneState \<Rightarrow> bool" for cap where
  enter: "enterLane cap l = Some l' \<Longrightarrow> lane_step cap l l'"
| explicit: "0 < ln_working l \<Longrightarrow>
    lane_step cap l (releaseLane (l\<lparr>ln_working := ln_working l - 1, ln_finishing := ln_finishing l + 1\<rparr>))"
| deferred: "0 < ln_finishing l \<Longrightarrow> lane_step cap l (releaseLane (l\<lparr>ln_finishing := ln_finishing l - 1\<rparr>))"
| failed: "0 < ln_working l \<Longrightarrow> lane_step cap l (releaseLane (l\<lparr>ln_working := ln_working l - 1\<rparr>))"

definition idleLane :: laneState where
  "idleLane = \<lparr>ln_slots = 0, ln_working = 0, ln_finishing = 0\<rparr>"

record laneConfig =
  lc_criticalMode :: string
  lc_maintenanceMode :: string
  lc_gateEnabled :: bool
  lc_gateWindow :: duration
  lc_startedAt :: instant

definition effectiveLaneMode :: "laneConfig \<Rightarrow> bool \<Rightarrow> instant \<Rightarrow> string" where
  "effectiveLaneMode cfg maintenance now =
     (let mode = (if maintenance then lc_maintenanceMode cfg else lc_criticalMode cfg) in
      if mode \<noteq> ''enforce'' then ''dry_run''
      else if \<not> lc_gateEnabled cfg \<or> lc_gateWindow cfg \<le> 0 then ''enforce''
      else if now - lc_startedAt cfg \<ge> lc_gateWindow cfg then ''enforce''
      else ''dry_run'')"


subsection \<open>The allowlist\<close>

lemma sameBits_iff: "sameBits n x y \<longleftrightarrow> drop_bit (LENGTH('a) - n) x = drop_bit (LENGTH('a) - n) (y :: 'a::len word)"
proof -
  have "a XOR b = 0 \<longleftrightarrow> a = b" for a b :: "'a word"
    by (metis xor.right_neutral xor_self_eq xor.assoc)
  then show ?thesis by (simp add: sameBits_def)
qed

lemma sameBits_fewer: "sameBits n x y \<Longrightarrow> m \<le> n \<Longrightarrow> sameBits m x (y :: 'a::len word)"
proof -
  assume same: "sameBits n x y" and "m \<le> n"
  have "drop_bit (LENGTH('a) - m) z = drop_bit (LENGTH('a) - m - (LENGTH('a) - n)) (drop_bit (LENGTH('a) - n) z)" for z :: "'a word"
    unfolding drop_bit_drop_bit using \<open>m \<le> n\<close> by (intro arg_cong2 [where f = drop_bit]) arith+
  then show ?thesis using same by (metis sameBits_iff)
qed

lemma sameBits_join: "sameBits m x a \<Longrightarrow> sameBits n y a \<Longrightarrow> sameBits (min m n) x (y :: 'a::len word)"
  by (metis min.cobounded1 min.cobounded2 sameBits_fewer sameBits_iff)

text \<open>Two networks that share an address overlap.\<close>

lemma shared_address_overlap: "prefixContains p a \<Longrightarrow> prefixContains q a \<Longrightarrow> prefixesOverlap p q"
  by (cases a; cases "np_Addr p"; cases "np_Addr q") (auto simp: prefixesOverlap_def Let_def sameBits_join)

lemma set_parseAddrs: "a \<in> set (parseAddrs N vs) \<longleftrightarrow> (\<exists>v \<in> set vs. nl_parseAddr N (TrimSpace v) = Some a)"
  by (force simp: parseAddrs_def map_filter_def)

lemma set_parsePrefixes: "p \<in> set (parsePrefixes N vs) \<longleftrightarrow> (\<exists>v \<in> set vs. nl_parsePrefix N (TrimSpace v) = Some p)"
  by (force simp: parsePrefixes_def map_filter_def)

definition targetsAddr :: "netLib \<Rightarrow> policySpec \<Rightarrow> netAddr \<Rightarrow> bool" where
  "targetsAddr N spec a \<longleftrightarrow> a \<in> set (parseAddrs N (tg_IPs (sp_Target spec)))
     \<or> list_ex (\<lambda>p. prefixContains p a) (parsePrefixes N (tg_CIDRs (sp_Target spec)))"

lemma checkAllowlist_None:
  assumes "checkAllowlist N spec = None" and "gd_AllowlistIPs (sp_Guardrails spec) \<noteq> [] \<or> gd_AllowlistCIDRs (sp_Guardrails spec) \<noteq> []"
  shows "a \<in> set (parseAddrs N (tg_IPs (sp_Target spec))) \<Longrightarrow> a \<notin> set (parseAddrs N (gd_AllowlistIPs (sp_Guardrails spec)))"
    and "a \<in> set (parseAddrs N (tg_IPs (sp_Target spec))) \<Longrightarrow> p \<in> set (parsePrefixes N (gd_AllowlistCIDRs (sp_Guardrails spec)))
      \<Longrightarrow> \<not> prefixContains p a"
    and "q \<in> set (parsePrefixes N (tg_CIDRs (sp_Target spec))) \<Longrightarrow> p \<in> set (parsePrefixes N (gd_AllowlistCIDRs (sp_Guardrails spec)))
      \<Longrightarrow> \<not> prefixesOverlap p q"
  using assms unfolding checkAllowlist_def Let_def by (simp_all add: list_ex_iff split: if_splits)

text \<open>
  The allowlist protects its networks. A policy that passes targets no address of an allowlisted
  network, neither directly nor through a network of its own, and names no allowlisted address.
\<close>

theorem allowlist_respected:
  assumes "checkAllowlist N spec = None"
  shows "(\<forall>p a. p \<in> set (parsePrefixes N (gd_AllowlistCIDRs (sp_Guardrails spec))) \<and> prefixContains p a
        \<longrightarrow> \<not> targetsAddr N spec a)
    \<and> set (parseAddrs N (gd_AllowlistIPs (sp_Guardrails spec))) \<inter> set (parseAddrs N (tg_IPs (sp_Target spec))) = {}"
proof (intro conjI allI impI; (elim conjE)?)
  fix p a
  assume p: "p \<in> set (parsePrefixes N (gd_AllowlistCIDRs (sp_Guardrails spec)))" "prefixContains p a"
  then have "gd_AllowlistCIDRs (sp_Guardrails spec) \<noteq> []" by (auto simp: set_parsePrefixes)
  with p show "\<not> targetsAddr N spec a"
    unfolding targetsAddr_def list_ex_iff
    using checkAllowlist_None(2,3) [OF assms] shared_address_overlap [of p a] by metis
next
  show "set (parseAddrs N (gd_AllowlistIPs (sp_Guardrails spec))) \<inter> set (parseAddrs N (tg_IPs (sp_Target spec))) = {}"
  proof (cases "gd_AllowlistIPs (sp_Guardrails spec) = []")
    case False
    then show ?thesis using checkAllowlist_None(1) [OF assms] by auto
  qed (auto simp: set_parseAddrs)
qed

definition ex_net :: netLib where
  "ex_net = \<lparr>nl_parseAddr = (\<lambda>s. if s = ''10.0.0.9'' then Some (V4 0x0A000009) else if s = ''10.1.0.1'' then Some (V4 0x0A010001) else None),
     nl_parsePrefix = (\<lambda>s. if s = ''10.0.0.0/24'' then Some \<lparr>np_Addr = V4 0x0A000000, np_Bits = 24\<rparr>
       else if s = ''10.2.0.0/16'' then Some \<lparr>np_Addr = V4 0x0A020000, np_Bits = 16\<rparr> else None)\<rparr>"

definition ex_aimed :: "string list \<Rightarrow> string list \<Rightarrow> string list \<Rightarrow> string list \<Rightarrow> policySpec" where
  "ex_aimed ips cidrs allowIPs allowCIDRs = noSpec
     \<lparr>sp_ID := ''p1'', sp_Target := noTarget\<lparr>tg_IPs := ips, tg_CIDRs := cidrs\<rparr>,
      sp_Guardrails := noGuardrails\<lparr>gd_TTLSeconds := 30, gd_AllowlistIPs := allowIPs, gd_AllowlistCIDRs := allowCIDRs\<rparr>\<rparr>"

lemmas aim_simps = ex_aimed_def ex_net_def noSpec_def noTarget_def noGuardrails_def parseAddrs_def parsePrefixes_def
  map_filter_simps text_simps

theorem allowlist_respected_witness:
  "checkAllowlist ex_net (ex_aimed [''10.1.0.1''] [''10.2.0.0/16''] [] [''10.0.0.0/24'']) = None
    \<and> \<not> targetsAddr ex_net (ex_aimed [''10.1.0.1''] [''10.2.0.0/16''] [] [''10.0.0.0/24'']) (V4 0x0A000009)"
proof -
  have pass: "checkAllowlist ex_net (ex_aimed [''10.1.0.1''] [''10.2.0.0/16''] [] [''10.0.0.0/24'']) = None"
    by (simp add: checkAllowlist_def aim_simps Let_def ctl_effectiveNamespace_def prefixesOverlap_def sameBits_def)
  then show ?thesis
    using allowlist_respected [OF pass]
    by (auto simp: aim_simps sameBits_def dest!: spec [of _ "\<lparr>np_Addr = V4 0x0A000000, np_Bits = 24\<rparr>"] spec [of _ "V4 0x0A000009"])
qed

text \<open>
  An allowlisted address is not protected from a network. The addresses of the allowlist are only
  compared with the addresses a policy names, so a policy that blocks a whole network passes while
  the network contains the allowlisted address.
\<close>

theorem allowlisted_address_in_target_network:
  "checkAllowlist ex_net (ex_aimed [] [''10.0.0.0/24''] [''10.0.0.9''] []) = None
    \<and> targetsAddr ex_net (ex_aimed [] [''10.0.0.0/24''] [''10.0.0.9''] []) (V4 0x0A000009)
    \<and> V4 0x0A000009 \<in> set (parseAddrs ex_net [''10.0.0.9''])"
  by (simp add: checkAllowlist_def targetsAddr_def aim_simps Let_def ctl_effectiveNamespace_def sameBits_def)

subsection \<open>The lanes do not bound what runs\<close>

lemma lane_grow:
  assumes "0 < cap" and "ln_finishing l = 0" and "ln_slots l \<le> cap" and "ln_slots l \<le> ln_working l"
  shows "\<exists>l'. (lane_step cap)\<^sup>*\<^sup>* l l' \<and> ln_working l' = ln_working l + 1 \<and> ln_finishing l' = 0
    \<and> ln_slots l' \<le> cap \<and> ln_slots l' \<le> ln_working l'"
proof (cases "ln_slots l < cap")
  case True
  then have "lane_step cap l (l\<lparr>ln_slots := ln_slots l + 1, ln_working := ln_working l + 1\<rparr>)"
    by (intro lane_step.enter) (simp add: enterLane_def)
  then show ?thesis using assms True
    by (intro exI [of _ "l\<lparr>ln_slots := ln_slots l + 1, ln_working := ln_working l + 1\<rparr>"]) auto
next
  case False
  define l1 where "l1 = releaseLane (l\<lparr>ln_working := ln_working l - 1, ln_finishing := ln_finishing l + 1\<rparr>)"
  define l2 where "l2 = l1\<lparr>ln_slots := ln_slots l1 + 1, ln_working := ln_working l1 + 1\<rparr>"
  define l3 where "l3 = releaseLane (l2\<lparr>ln_finishing := ln_finishing l2 - 1\<rparr>)"
  define l4 where "l4 = l3\<lparr>ln_slots := ln_slots l3 + 1, ln_working := ln_working l3 + 1\<rparr>"
  note defs = l1_def l2_def l3_def l4_def releaseLane_def enterLane_def
  have "lane_step cap l l1" unfolding l1_def by (rule lane_step.explicit) (use False assms in simp)
  moreover have "lane_step cap l1 l2" by (rule lane_step.enter) (use False assms in \<open>simp add: defs\<close>)
  moreover have "lane_step cap l2 l3" unfolding l3_def by (rule lane_step.deferred) (use False assms in \<open>simp add: defs\<close>)
  moreover have "lane_step cap l3 l4" by (rule lane_step.enter) (use False assms in \<open>simp add: defs\<close>)
  ultimately have "(lane_step cap)\<^sup>*\<^sup>* l l4"
    by (meson rtranclp.rtrancl_into_rtrancl r_into_rtranclp)
  moreover have "ln_working l4 = ln_working l + 1" "ln_finishing l4 = 0" "ln_slots l4 = cap"
    using False assms by (simp_all add: defs)
  ultimately show ?thesis using False assms by auto
qed

text \<open>
  A lane does not bound the handlers at work. The second, deferred release takes the element of
  another handler out of the channel, so for any capacity every number of handlers can be changing
  the dataplane at the same time.
\<close>

theorem lane_limit_not_enforced:
  assumes "0 < cap"
  shows "\<exists>l. (lane_step cap)\<^sup>*\<^sup>* idleLane l \<and> ln_working l = n"
proof -
  have "\<exists>l. (lane_step cap)\<^sup>*\<^sup>* idleLane l \<and> ln_working l = n \<and> ln_finishing l = 0
      \<and> ln_slots l \<le> cap \<and> ln_slots l \<le> ln_working l"
  proof (induction n)
    case 0
    then show ?case by (intro exI [of _ idleLane]) (simp add: idleLane_def)
  next
    case (Suc n)
    then obtain l where l: "(lane_step cap)\<^sup>*\<^sup>* idleLane l" "ln_working l = n" "ln_finishing l = 0"
      "ln_slots l \<le> cap" "ln_slots l \<le> ln_working l" by blast
    obtain l' where "(lane_step cap)\<^sup>*\<^sup>* l l'" "ln_working l' = Suc n" "ln_finishing l' = 0"
      "ln_slots l' \<le> cap" "ln_slots l' \<le> ln_working l'"
      using lane_grow [OF assms l(3-5)] l(2) by auto
    then show ?case using rtranclp_trans [OF l(1)] by blast
  qed
  then show ?thesis by blast
qed

theorem lane_limit_not_enforced_witness:
  "\<exists>l. (lane_step 1)\<^sup>*\<^sup>* idleLane l \<and> ln_working l = 2"
  by (rule lane_limit_not_enforced) simp


subsection \<open>What a rate coordinator promises\<close>

text \<open>
  The interface \<^verbatim>\<open>ratelimit.Coordinator\<close>. A reservation is granted below the limit and adds at most
  one to the use of its scope; a refusal leaves the use alone; use does not grow with time, and
  requests for one scope do not touch another.
\<close>

locale rate_coordinator =
  fixes res :: "string \<Rightarrow> duration \<Rightarrow> int \<Rightarrow> instant \<Rightarrow> 'w \<Rightarrow> (rate_error + reservation) \<times> 'w"
    and used :: "'w \<Rightarrow> string \<Rightarrow> duration \<Rightarrow> instant \<Rightarrow> int"
  assumes granted: "res scope win limit now w = (Inr r, w') \<Longrightarrow>
      used w scope win now < limit \<and> used w' scope win now \<le> used w scope win now + 1"
    and refused: "res scope win limit now w = (Inl e, w') \<Longrightarrow>
      used w' scope win now = used w scope win now \<and> (e = RateLimitExceeded \<longrightarrow> limit \<le> used w scope win now)"
    and ages: "now \<le> later \<Longrightarrow> used w scope win later \<le> used w scope win now"
    and apart: "scope \<noteq> other \<Longrightarrow> used (snd (res scope win limit now w)) other win' now' = used w other win' now'"
begin

primrec requests :: "duration \<Rightarrow> int \<Rightarrow> (string \<times> instant) list \<Rightarrow> 'w \<Rightarrow> 'w" where
  "requests win limit [] w = w"
| "requests win limit (q # qs) w = requests win limit qs (snd (res (fst q) win limit (snd q) w))"

lemma one_request: "used w scope win now \<le> limit \<Longrightarrow> used (snd (res scope win limit now w)) scope win now \<le> limit"
  using granted [of scope win limit now w] refused [of scope win limit now w]
  by (cases "res scope win limit now w"; cases "fst (res scope win limit now w)") fastforce+

lemma requests_bounded:
  "sorted (map snd qs) \<Longrightarrow> \<forall>q \<in> set qs. start \<le> snd q \<and> snd q \<le> now \<Longrightarrow> start \<le> now \<Longrightarrow> used w scope win start \<le> limit
    \<Longrightarrow> used (requests win limit qs w) scope win now \<le> limit"
proof (induction qs arbitrary: w start)
  case Nil
  then show ?case using ages [of start now w scope win] by simp
next
  case (Cons q qs)
  let ?w = "snd (res (fst q) win limit (snd q) w)"
  have "used w scope win (snd q) \<le> limit" using Cons.prems(2,4) ages [of start "snd q" w scope win] by simp
  then have "used ?w scope win (snd q) \<le> limit"
    using one_request apart [of "fst q" scope] by (cases "fst q = scope") auto
  then show ?case using Cons.IH [of "snd q" ?w] Cons.prems by auto
qed

end

definition local_used :: "agentStore \<Rightarrow> string \<Rightarrow> duration \<Rightarrow> instant \<Rightarrow> int" where
  "local_used s scope window now = (if scope = [] then RecentCount s window now else RecentCountFor s scope window now)"

lemma takeWhile_mono: "(\<And>x. P x \<Longrightarrow> Q x) \<Longrightarrow> length (takeWhile P xs) \<le> length (takeWhile Q xs)"
  by (induction xs) auto

lemma RecentCountFor_ages: "now \<le> later \<Longrightarrow> RecentCountFor s scope window later \<le> RecentCountFor s scope window now"
  by (auto simp: RecentCountFor_def Let_def intro!: takeWhile_mono)

interpretation local_rate: rate_coordinator local_Reserve local_used
  by unfold_locales
    (auto simp: local_Reserve_def local_used_def Let_def RecentCount_def RecentCountFor_ages split: if_splits)

definition redis_used :: "string \<Rightarrow> redisDB \<Rightarrow> string \<Rightarrow> duration \<Rightarrow> instant \<Rightarrow> int" where
  "redis_used prefix db scope window now =
     int (length (filter (\<lambda>(m, score). \<not> score \<le> UnixMilli now - Milliseconds window) (zset db (redis_key prefix scope))))"

lemma redis_key_inject: "redis_key prefix a = redis_key prefix b \<longleftrightarrow> a = b"
  by (simp add: redis_key_def)

lemma UnixMilli_mono: "a \<le> b \<Longrightarrow> UnixMilli a \<le> UnixMilli b"
  by (simp add: UnixMilli_def millisecond_def zdiv_mono1)

lemma filter_weaker: "(\<And>x. P x \<Longrightarrow> Q x) \<Longrightarrow> length (filter P xs) \<le> length (filter Q xs)"
  by (induction xs) auto

lemma zset_update: "zset (AList.update k z db) k' = (if k = k' then z else zset db k')"
  by (simp add: zset_def update_conv)

lemma length_filter_update:
  "int (length (filter P (AList.update k v (filter P m)))) \<le> int (length (filter P m)) + 1"
  using order_trans [OF length_filter_le length_update_le, of P k v "filter P m"] by simp

interpretation redis_rate: rate_coordinator "redis_Reserve prefix ok member" "redis_used prefix"
proof unfold_locales
  fix scope win limit now w r w'
  assume "redis_Reserve prefix ok member scope win limit now w = (Inr r, w')"
  then show "redis_used prefix w scope win now < limit \<and> redis_used prefix w' scope win now \<le> redis_used prefix w scope win now + 1"
    by (auto simp: redis_Reserve_def reserveScript_def Let_def redis_used_def zset_update length_filter_update split: if_splits)
next
  fix scope win limit now w e w'
  assume "redis_Reserve prefix ok member scope win limit now w = (Inl e, w')"
  then show "redis_used prefix w' scope win now = redis_used prefix w scope win now
      \<and> (e = RateLimitExceeded \<longrightarrow> limit \<le> redis_used prefix w scope win now)"
    by (auto simp: redis_Reserve_def reserveScript_def Let_def redis_used_def zset_update split: if_splits)
next
  fix now later :: instant and w scope win
  assume "now \<le> later"
  then show "redis_used prefix w scope win later \<le> redis_used prefix w scope win now"
    using UnixMilli_mono [of now later] by (auto simp: redis_used_def intro!: filter_weaker)
next
  fix scope other :: string and win limit now w win' now'
  assume "scope \<noteq> other"
  then show "redis_used prefix (snd (redis_Reserve prefix ok member scope win limit now w)) other win' now'
      = redis_used prefix w other win' now'"
    by (auto simp: redis_Reserve_def reserveScript_def Let_def redis_used_def zset_update redis_key_inject)
qed

text \<open>A client of the Redis coordinator: the requests of one scope, and which of them were granted.\<close>

definition redisRequest ::
    "string \<Rightarrow> string \<Rightarrow> duration \<Rightarrow> int \<Rightarrow> instant \<times> string \<Rightarrow> (instant \<times> string) list \<times> redisDB
      \<Rightarrow> (instant \<times> string) list \<times> redisDB" where
  "redisRequest prefix scope window limit q acc =
     (case redis_Reserve prefix True (snd q) scope window limit (fst q) (snd acc) of
        (Inr r, db) \<Rightarrow> (fst acc @ [q], db)
      | (Inl e, db) \<Rightarrow> (fst acc, db))"

definition window_inv :: "int \<Rightarrow> int \<Rightarrow> string set \<Rightarrow> (instant \<times> string) list \<Rightarrow> (string, int) gomap \<Rightarrow> bool" where
  "window_inv limit lo ms G z \<longleftrightarrow> gm_wf z \<and> int (length z) \<le> limit \<and> set (keys_of z) \<subseteq> ms \<and> snd ` set G \<subseteq> ms
     \<and> distinct (map snd G) \<and> (\<forall>(t, m) \<in> set G. lo < UnixMilli t \<longrightarrow> (m, UnixMilli t) \<in> set z)"

lemma window_inv_request:
  assumes inv: "window_inv limit lo ms G z" and lo: "lo \<le> UnixMilli t - win" and "0 < win" and "m \<notin> ms"
    and z': "z' = filter (\<lambda>(m, score). \<not> score \<le> UnixMilli t - win) z"
  shows "int (length z') < limit \<Longrightarrow>
      window_inv limit (UnixMilli t - win) (insert m ms) (G @ [(t, m)]) (AList.update m (UnixMilli t) z')"
    and "window_inv limit (UnixMilli t - win) (insert m ms) G z'"
proof -
  have kept: "(m', UnixMilli t') \<in> set z'" if "(t', m') \<in> set G" "UnixMilli t - win < UnixMilli t'" for t' m'
    using that inv lo by (force simp: window_inv_def z')
  have wf: "gm_wf z'" "set (keys_of z') \<subseteq> ms" "length z' \<le> length z"
    using inv by (auto simp: window_inv_def z')
  have new: "map_of z' m = None" using wf(2) assms(4) by (auto simp: map_of_eq_None_iff)
  show "window_inv limit (UnixMilli t - win) (insert m ms) G z'"
    using inv wf kept by (auto simp: window_inv_def)
  assume "int (length z') < limit"
  then show "window_inv limit (UnixMilli t - win) (insert m ms) (G @ [(t, m)]) (AList.update m (UnixMilli t) z')"
    using inv wf kept new assms(3,4)
    by (auto simp: window_inv_def length_update gm_mem_iff update_conv dom_update split: if_splits)
qed

lemma redisRun_inv:
  assumes "sorted (map fst qs)" and "distinct (map snd qs)" and "snd ` set qs \<inter> ms = {}" and "0 < Milliseconds window"
    and "\<forall>q \<in> set qs. lo \<le> UnixMilli (fst q) - Milliseconds window \<and> UnixMilli (fst q) \<le> hi"
    and "lo \<le> hi - Milliseconds window"
    and "window_inv limit lo ms G (zset db (redis_key prefix scope))"
    and "fold (redisRequest prefix scope window limit) qs (G, db) = (G', db')"
  shows "\<exists>lo' ms'. lo' \<le> hi - Milliseconds window \<and> window_inv limit lo' ms' G' (zset db' (redis_key prefix scope))"
  using assms
proof (induction qs arbitrary: G db ms lo)
  case (Cons q qs)
  obtain t m where q: "q = (t, m)" by (cases q)
  let ?k = "redis_key prefix scope" and ?win = "Milliseconds window"
  let ?z = "filter (\<lambda>(m, score). \<not> score \<le> UnixMilli t - ?win) (zset db ?k)"
  obtain G1 db1 where step: "redisRequest prefix scope window limit q (G, db) = (G1, db1)"
    by (cases "redisRequest prefix scope window limit q (G, db)")
  have "window_inv limit (UnixMilli t - ?win) (insert m ms) G1 (zset db1 ?k)"
    using window_inv_request [OF Cons.prems(7) _ Cons.prems(4), of t m] Cons.prems(3,5) step
    by (auto simp: q redisRequest_def redis_Reserve_def reserveScript_def Let_def zset_update split: if_splits)
  moreover have "\<forall>q \<in> set qs. UnixMilli t - ?win \<le> UnixMilli (fst q) - ?win \<and> UnixMilli (fst q) \<le> hi"
    using Cons.prems(1,5) by (auto simp: q intro: UnixMilli_mono)
  ultimately show ?case
    using Cons.IH [of "insert m ms" "UnixMilli t - ?win" G1 db1] Cons.prems step by (auto simp: q)
qed auto

lemma card_tagged: "distinct (map snd xs) \<Longrightarrow> card ((\<lambda>(t, m). (m, f t)) ` set xs) = length xs"
  by (subst card_image) (force simp: inj_on_def distinct_map, auto simp: distinct_map distinct_card)



subsection \<open>Guardrails\<close>

text \<open>A refused check holds nothing: every reservation it took on the way is released.\<close>

text \<open>The entries of \<open>w'\<close> beyond those of \<open>w\<close> are the held reservations'.\<close>

definition holds :: "rateWorld \<Rightarrow> reservation list \<Rightarrow> rateWorld \<Rightarrow> bool" where
  "holds w rs w' \<longleftrightarrow> (\<forall>k m score. (m, score) \<in> set (zset (rw_redis w') k) \<longrightarrow>
     (m, score) \<in> set (zset (rw_redis w) k) \<or> RedisReservation k m \<in> set rs)"

lemma holds_refl: "holds w [] w"
  by (simp add: holds_def)

lemma set_delete_subset: "set (AList.delete k m) = {e \<in> set m. fst e \<noteq> k}"
  by (induction m) auto

lemma set_update_subset: "set (AList.update k v m) \<subseteq> insert (k, v) (set m)"
  by (induction m) auto

lemma holds_release_one:
  assumes "holds w (r # rs) w'" and "re_zremOk R" shows "holds w rs (releaseOne R r w')"
  using assms by (cases r) (auto simp: holds_def releaseOne_def zset_update set_delete_subset split: if_splits)

lemma holds_releaseAll:
  assumes "holds w rs w'" and "re_zremOk R" shows "holds w [] (releaseAll R rs w')"
  using assms
proof (induction rs arbitrary: w')
  case (Cons r rs)
  then show ?case using holds_release_one [of w r rs w' R] by (simp add: releaseAll_def)
qed (simp add: releaseAll_def)

lemma redis_Reserve_entries:
  assumes "redis_Reserve prefix ok m scope window limit now db = (res, db')" and "(m', score) \<in> set (zset db' k)"
  shows "(m', score) \<in> set (zset db k) \<or> res = Inr (RedisReservation k m')"
proof (cases "k = redis_key prefix scope")
  case True
  then show ?thesis using assms set_update_subset
    by (fastforce simp: redis_Reserve_def reserveScript_def Let_def zset_update split: if_splits)
next
  case False
  then show ?thesis using assms
    by (auto simp: redis_Reserve_def reserveScript_def Let_def zset_update split: if_splits)
qed

lemma holds_reserve:
  assumes "holds w rs w'" and "reserve R c s scope window limit now w' = (res, w'')"
  shows "holds w (rs @ (case res of Inr r \<Rightarrow> [r] | Inl e \<Rightarrow> [])) w''"
proof (cases c)
  case LocalCounter
  then show ?thesis using assms by (auto simp: reserve_def holds_def)
next
  case (RedisBackend prefix)
  then obtain m db where "redis_Reserve prefix (re_evalOk R) m scope window limit now (rw_redis w') = (res, db)"
      "rw_redis w'' = db"
    using assms(2) by (auto simp: reserve_def split: prod.splits)
  with assms(1) show ?thesis
    unfolding holds_def using redis_Reserve_entries by (fastforce split: sum.splits)
qed

definition settled :: "rateEnv \<Rightarrow> rateWorld \<Rightarrow> guardResult \<Rightarrow> bool" where
  "settled R w r \<longleftrightarrow> (case fst r of
     Inl e \<Rightarrow> holds w [] (snd r) | Inr rs \<Rightarrow> holds w rs (snd r) \<and> (re_Coord R = None \<longrightarrow> rs = []))"

lemma settled_limitCheck:
  assumes "re_zremOk R" and "settled R w (Inr rs, w')"
  shows "settled R w (limitCheck R s scope window limit exceeded stored now rs w')"
proof (cases "re_Coord R")
  case None
  then show ?thesis using assms by (auto simp: limitCheck_def settled_def)
next
  case (Some c)
  obtain res w1 where r: "reserve R c s scope window limit now w' = (res, w1)"
    by (cases "reserve R c s scope window limit now w'")
  with holds_reserve [OF _ r] assms holds_releaseAll [of w rs w1 R] show ?thesis
    by (auto simp: limitCheck_def settled_def Some split: sum.splits rate_error.splits)
qed

lemma settled_thenCheck:
  assumes "settled R w r" and "\<And>rs w'. settled R w (Inr rs, w') \<Longrightarrow> settled R w (f rs w')"
  shows "settled R w (thenCheck r f)"
  using assms by (cases r; cases "fst r") (auto simp: thenCheck_def settled_def)

lemma settled_limits:
  assumes "re_zremOk R" and "settled R w (Inr rs, w')"
  shows "settled R w (minuteLimit R sha s spec now rs w')" "settled R w (windowLimit R sha s spec now rs w')"
    "settled R w (ownerLimit R s limit kind owner now rs w')"
  using assms settled_limitCheck [OF assms] holds_releaseAll [of w rs w' R]
  by (auto simp: minuteLimit_def windowLimit_def ownerLimit_def Let_def settled_def [of R w "(Inl _, _)"]
    settled_def [of R w "(Inr _, _)"] split: option.splits)

text \<open>
  A refused policy holds no reservation. When the check of the guardrails fails at any point, the
  Redis sets contain no entry they did not contain before, as long as removal succeeds.
\<close>

theorem refused_policy_reserves_nothing:
  assumes "re_zremOk R" and "checkGuardrails N R sha256 s spec now w = (Inl why, w')"
  shows "set (zset (rw_redis w') key) \<subseteq> set (zset (rw_redis w) key)"
proof -
  have start: "settled R w (Inr [], w)" "settled R w (Inl e, w)" for e by (simp_all add: settled_def holds_refl)
  have "settled R w (checkGuardrails N R sha256 s spec now w)"
    unfolding checkGuardrails_def Let_def
    by (simp add: start split: option.split)
      (intro impI conjI allI settled_thenCheck settled_limits assms(1) start; assumption)
  then have "holds w [] w'" using assms(2) by (simp add: settled_def)
  then show ?thesis by (auto simp: holds_def)
qed

lemma zset_Nil [simp]: "zset [] k = []"
  by (simp add: zset_def)

definition ex_rateEnv :: "coordinator option \<Rightarrow> rateEnv" where
  "ex_rateEnv c = \<lparr>re_Coord = c, re_uuid = (\<lambda>n. replicate n CHR ''u''), re_evalOk = True, re_zremOk = True\<rparr>"

definition ex_limited :: policySpec where
  "ex_limited = (ex_aimed [''10.1.0.1''] [] [] [])
     \<lparr>sp_Guardrails := noGuardrails\<lparr>gd_MaxPoliciesPerMinute := Some 5, gd_RateLimitPerTenant := Some 1\<rparr>\<rparr>"

theorem refused_policy_reserves_nothing_witness:
  "\<exists>why w'. checkGuardrails ex_net (ex_rateEnv (Some (RedisBackend ''p''))) (\<lambda>b. 0) (NewAgentStore ex_storeOptions)
      ex_limited 0 \<lparr>rw_redis = [], rw_ids = 0\<rparr> = (Inl why, w') \<and> why = ''tenant_missing'' \<and> zset (rw_redis w') ''p:global'' = []"
proof -
  let ?run = "checkGuardrails ex_net (ex_rateEnv (Some (RedisBackend ''p''))) (\<lambda>b. 0) (NewAgentStore ex_storeOptions)
      ex_limited 0 \<lparr>rw_redis = [], rw_ids = 0\<rparr>"
  have "fst ?run = Inl ''tenant_missing''"
    by (simp add: checkGuardrails_def checkAllowlist_def minuteLimit_def windowLimit_def ownerLimit_def limitCheck_def
      thenCheck_def reserve_def redis_Reserve_def reserveScript_def zset_def ex_limited_def ex_rateEnv_def
      aim_simps effectiveTenant_def Let_def)
  then have run: "?run = (Inl ''tenant_missing'', snd ?run)" by (metis prod.collapse)
  from refused_policy_reserves_nothing [OF _ run, of "''p:global''"] have "zset (rw_redis (snd ?run)) ''p:global'' = []"
    by (simp add: ex_rateEnv_def)
  with run show ?thesis by metis
qed

lemma ScopeIdentifier_nonempty: "ScopeIdentifier spec \<noteq> []"
  by (simp add: ScopeIdentifier_def Let_def)

lemma RateScope_nonempty: "RateScope sha spec \<noteq> []"
  using ScopeIdentifier_nonempty [of spec] by (simp add: RateScope_def Let_def)

lemma limitCheck_counts:
  assumes "limitCheck R s scope window limit exceeded (RecentCountFor s scope window now) now acc w = (Inr rs, w')"
    and "re_Coord R \<in> {None, Some LocalCounter}" and "scope \<noteq> []"
  shows "RecentCountFor s scope window now < limit"
  using assms by (auto simp: limitCheck_def reserve_def local_Reserve_def Let_def split: if_splits)

lemma thenCheck_Inr:
  "thenCheck r f = (Inr rs, w) \<longleftrightarrow> (\<exists>acc w'. r = (Inr acc, w') \<and> f acc w' = (Inr rs, w))"
  by (cases r; cases "fst r") (auto simp: thenCheck_def)

lemma minuteLimit_counts:
  assumes "minuteLimit R sha s spec now acc w = (Inr rs, w')" and "re_Coord R \<in> {None, Some LocalCounter}"
    and "gd_MaxPoliciesPerMinute (sp_Guardrails spec) = Some n"
  shows "RecentCountFor s (RateScope sha spec) minute now < n"
  using assms limitCheck_counts [OF _ assms(2) RateScope_nonempty, of s sha spec minute n]
  by (auto simp: minuteLimit_def Let_def RecentCount_def split: if_splits)

lemma ownerLimit_counts:
  assumes "ownerLimit R s (Some n) kind owner now acc w = (Inr rs, w')" and "re_Coord R \<in> {None, Some LocalCounter}"
  shows "owner \<noteq> [] \<and> RecentCountFor s (kind @ '':'' @ owner) minute now < n"
  using assms limitCheck_counts [OF _ assms(2)] by (auto simp: ownerLimit_def split: if_splits)



end
