(* ===== verification/AgentController.thy ===== *)
theory AgentController
  imports AgentGuards
begin

text \<open>
  The controller of the enforcement agent, \<^verbatim>\<open>enforcement-agent/internal/controller/controller.go\<close>:
  from a message of the command topic, or a fast mitigation, to the enforcement backend, the store
  and the acknowledgement.

  A handler runs to its end before the next one starts; \<open>now\<close> is the clock during the call. The
  enforcement backend, the acknowledgement publisher, the sink for rejected commands and the wait
  between attempts are arguments (\<open>ctlEnv\<close>), asked by the number of the call; what the handler did to
  the outside is appended to \<open>ct_out\<close>. The texts of errors only feed acknowledgements and are an
  argument too. Metrics, logs, trace spans and stage markers are left out.
\<close>

subsection \<open>Errors of the backend\<close>

datatype errorClass = ClassPermanent | ClassTransient | ClassTimeout | ClassCanceled

record goError =
  ge_deadline :: bool
  ge_canceled :: bool
  ge_apiTimeout :: bool
  ge_apiTransient :: bool
  ge_net :: "bool option"
  ge_msg :: string

definition ClassifyContextError :: "goError \<Rightarrow> errorClass option" where
  "ClassifyContextError e =
     (if ge_deadline e then Some ClassTimeout else if ge_canceled e then Some ClassCanceled else None)"

definition applyErrorClass :: "goError \<Rightarrow> errorClass" where
  "applyErrorClass e =
     (let msg = ToLower (TrimSpace (ge_msg e)); has = list_ex (strContains msg) in
      case ClassifyContextError e of
        Some c \<Rightarrow> c
      | None \<Rightarrow>
          if ge_apiTimeout e then ClassTimeout
          else if ge_apiTransient e then ClassTransient
          else (case ge_net e of
                  Some timeout \<Rightarrow> if timeout then ClassTimeout else ClassTransient
                | None \<Rightarrow>
                    if has [''timeout'', ''i/o timeout'', ''deadline exceeded'', ''context deadline exceeded''] then ClassTimeout
                    else if has [''connection reset'', ''connection refused'', ''broken pipe'', ''temporary'', ''try again'',
                                 ''econnreset'', ''econnrefused'', ''503'', ''429''] then ClassTransient
                    else ClassPermanent))"

definition applyErrorCode :: "goError \<Rightarrow> string" where
  "applyErrorCode e =
     (case applyErrorClass e of
        ClassCanceled \<Rightarrow> ''apply_canceled'' | ClassTimeout \<Rightarrow> ''apply_timeout'' | _ \<Rightarrow> ''apply_error'')"

text \<open>Whether a terminal failure publishes a reject artifact.\<close>

definition terminalRejectPolicy :: "errorClass \<Rightarrow> bool \<Rightarrow> bool" where
  "terminalRejectPolicy c exhausted = (exhausted \<or> c = ClassPermanent)"

subsection \<open>State\<close>

datatype ctl_error =
    EDecode
  | EVerify policy_error
  | EReplay string
  | EExpired
  | EGuardrail string
  | EStore store_error
  | ELane
  | ERejectSink
  | EApply goError
  | EBreakerOpen
  | ERemove goError
  | EFastMissing

datatype waitOutcome = WaitDone | WaitCanceled | WaitBudget

datatype effect =
    DidApply policySpec
  | FailedApply policySpec
  | DidRemove string
  | FailedRemove string
  | SentAck string string string
  | SentReject ctl_error

record decisionRecord =
  dr_PolicyID :: string
  dr_Action :: string
  dr_Scope :: string
  dr_Tenant :: string
  dr_Result :: string
  dr_ErrorCode :: string
  dr_Reason :: string
  dr_AppliedAt :: instant
  dr_AckRequired :: bool
  dr_AckAttempted :: bool
  dr_AckStatus :: string

record ctlOptions =
  co_FastPath :: fastPathConfig
  co_ApplyTotalBudget :: duration
  co_ApplyRetryMax :: int
  co_ApplyRetryBackoff :: duration
  co_ApplyRetryBaseBackoff :: duration
  co_ApplyRetryMaxBackoff :: duration
  co_ApplyRetryJitterRatio :: rat
  co_BreakerThreshold :: int
  co_BreakerCooldown :: duration
  co_ExpiredShedding :: bool
  co_ReplayWindow :: duration
  co_ReplayFutureSkew :: duration
  co_ReplayCacheMaxEntries :: int
  co_CommandRejectRequired :: bool
  co_CommandTopic :: string
  co_CompactionEnabled :: bool
  co_CompactionWindow :: duration
  co_CriticalLaneMax :: int
  co_MaintenanceLaneMax :: int
  co_EmitAcceptedAck :: bool
  co_CriticalMode :: string
  co_MaintenanceMode :: string
  co_GateEnabled :: bool
  co_GateWindow :: duration

record ctlConfig =
  cc_fastPath :: fastPathConfig
  cc_retryMax :: int
  cc_retryBase :: duration
  cc_retryCap :: duration
  cc_retryJitter :: rat
  cc_breakerThreshold :: int
  cc_breakerCooldown :: duration
  cc_expiredShed :: bool
  cc_replay :: replayConfig
  cc_decMax :: nat
  cc_rejectRequired :: bool
  cc_commandTopic :: string
  cc_compaction :: "duration option"
  cc_criticalCap :: nat
  cc_maintenanceCap :: nat
  cc_lanes :: laneConfig
  cc_acceptedAck :: bool

record ctlState =
  ct_store :: agentStore
  ct_rate :: rateWorld
  ct_kill :: bool
  ct_seenHashes :: "(string, string) gomap"
  ct_pending :: "(string, policyEvent) gomap"
  ct_replaySeen :: replayCache
  ct_compactor :: compactor
  ct_streak :: int
  ct_breakerUntil :: instant
  ct_decisions :: "decisionRecord list"
  ct_calls :: nat
  ct_out :: "effect list"

record ctlEnv =
  ce_cfg :: ctlConfig
  ce_lib :: goLib
  ce_net :: netLib
  ce_rate :: rateEnv
  ce_io :: storeIO
  ce_keys :: "bytes list"
  ce_decode :: "bytes \<Rightarrow> policyUpdateEvent option"
  ce_json :: "json \<Rightarrow> bytes"
  ce_apply :: "nat \<Rightarrow> policySpec \<Rightarrow> goError option"
  ce_remove :: "nat \<Rightarrow> string \<Rightarrow> goError option"
  ce_canceled :: "nat \<Rightarrow> bool"
  ce_wait :: "nat \<Rightarrow> duration \<Rightarrow> waitOutcome"
  ce_rand :: "nat \<Rightarrow> rat"
  ce_laneOk :: bool
  ce_ackSink :: "bool option"
  ce_rejectSink :: "bool option"
  ce_text :: "ctl_error \<Rightarrow> string"
  ce_ord :: replayOrder

record kafkaMessage =
  km_Topic :: string
  km_Value :: bytes

abbreviation ce_sha :: "ctlEnv \<Rightarrow> bytes \<Rightarrow> hash32" where
  "ce_sha E \<equiv> gl_sha256 (ce_lib E)"

subsection \<open>Construction\<close>

definition laneMode :: "string \<Rightarrow> string" where
  "laneMode s = (let m = ToLower (TrimSpace s) in if m \<in> {''enforce'', ''dry_run''} then m else ''enforce'')"

definition orDefault :: "int \<Rightarrow> int \<Rightarrow> int" where
  "orDefault n d = (if n \<le> 0 then d else n)"

definition NewConfig :: "ctlOptions \<Rightarrow> instant \<Rightarrow> ctlConfig" where
  "NewConfig opts now =
     (let base = orDefault (co_ApplyRetryBaseBackoff opts) (orDefault (co_ApplyRetryBackoff opts) (100 * millisecond));
          cap = max base (orDefault (co_ApplyRetryMaxBackoff opts) second);
          window = orDefault (co_ReplayWindow opts) (10 * minute) in
      \<lparr>cc_fastPath = co_FastPath opts, cc_retryMax = max 0 (co_ApplyRetryMax opts), cc_retryBase = base, cc_retryCap = cap,
       cc_retryJitter = max 0 (min 1 (co_ApplyRetryJitterRatio opts)),
       cc_breakerThreshold = max 0 (co_BreakerThreshold opts), cc_breakerCooldown = max 0 (co_BreakerCooldown opts),
       cc_expiredShed = co_ExpiredShedding opts,
       cc_replay = \<lparr>rp_window = window, rp_futureSkew = orDefault (co_ReplayFutureSkew opts) (30 * second),
         rp_cacheMax = orDefault (co_ReplayCacheMaxEntries opts) 20000, rp_enabled = window > 0, rp_requirePayload = True\<rparr>,
       cc_decMax = 500, cc_rejectRequired = co_CommandRejectRequired opts,
       cc_commandTopic = TrimSpace (co_CommandTopic opts),
       cc_compaction = (if co_CompactionEnabled opts then Some (orDefault (co_CompactionWindow opts) (2 * minute)) else None),
       cc_criticalCap = nat (orDefault (co_CriticalLaneMax opts) 32),
       cc_maintenanceCap = nat (orDefault (co_MaintenanceLaneMax opts) 8),
       cc_lanes = \<lparr>lc_criticalMode = laneMode (co_CriticalMode opts), lc_maintenanceMode = laneMode (co_MaintenanceMode opts),
         lc_gateEnabled = co_GateEnabled opts, lc_gateWindow = co_GateWindow opts, lc_startedAt = now\<rparr>,
       cc_acceptedAck = co_EmitAcceptedAck opts\<rparr>)"

definition loadPendingApprovals :: "ctlEnv \<Rightarrow> agentStore \<Rightarrow> (string, policyEvent) gomap" where
  "loadPendingApprovals E s =
     fold (\<lambda>(key, payload) m.
       case Option.bind (ce_decode E payload)
              (\<lambda>evt. case VerifyAndParse (ce_lib E) (ce_keys E) evt of Inl _ \<Rightarrow> None | Inr parsed \<Rightarrow> Some parsed) of
         None \<Rightarrow> m | Some parsed \<Rightarrow> AList.update key parsed m) (sf_pending s) []"

definition NewController :: "ctlEnv \<Rightarrow> agentStore \<Rightarrow> rateWorld \<Rightarrow> bool \<Rightarrow> ctlState" where
  "NewController E s w kill =
     \<lparr>ct_store = s, ct_rate = w, ct_kill = kill, ct_seenHashes = [], ct_pending = loadPendingApprovals E s,
      ct_replaySeen = [], ct_compactor = [], ct_streak = 0, ct_breakerUntil = 0, ct_decisions = [], ct_calls = 0, ct_out = []\<rparr>"

subsection \<open>Acknowledgements and rejects\<close>

definition canonicalAckResult :: "string \<Rightarrow> string \<Rightarrow> string \<Rightarrow> string" where
  "canonicalAckResult result errorCode reason =
     (let res = ToLower (TrimSpace result); code = ToLower (TrimSpace errorCode); rsn = ToLower (TrimSpace reason);
          has = (\<lambda>p. strContains code p \<or> strContains rsn p);
          isTimeout = (has ''timeout'' \<or> has ''deadline'');
          isRetryExhausted = (has ''retry_exhausted'' \<or> has ''retries_exhausted'');
          isNoop = (strContains code ''noop'' \<or> strContains code ''duplicate'' \<or> strContains rsn ''noop'') in
      if res \<in> {''accepted'', ''noop'', ''rejected'', ''timeout'', ''retry_exhausted''} then res
      else if res = ''applied'' then (if isNoop then ''noop'' else ''applied'')
      else if res = ''failed'' then
        (if isTimeout then ''timeout'' else if isRetryExhausted then ''retry_exhausted'' else ''rejected'')
      else if isTimeout then ''timeout''
      else if isRetryExhausted then ''retry_exhausted''
      else if isNoop then ''noop''
      else if res = [] then ''rejected'' else res)"

definition recordDecision :: "nat \<Rightarrow> decisionRecord \<Rightarrow> decisionRecord list \<Rightarrow> decisionRecord list" where
  "recordDecision decMax d ds =
     (let ds = ds @ [d]; most = (if decMax = 0 then 500 else decMax) in
      if length ds > most then drop (length ds - most) ds else ds)"

definition ListDecisions :: "decisionRecord list \<Rightarrow> int \<Rightarrow> string \<Rightarrow> string \<Rightarrow> decisionRecord list" where
  "ListDecisions ds limit policyID0 result0 =
     (let n = (if limit \<le> 0 then 50 else min limit 200);
          policyID = TrimSpace policyID0; result = ToLower (TrimSpace result0) in
      take (nat n) (filter (\<lambda>d. (policyID = [] \<or> dr_PolicyID d = policyID) \<and> (result = [] \<or> ToLower (dr_Result d) = result)) (rev ds)))"

definition emitAck ::
    "ctlEnv \<Rightarrow> policyEvent \<Rightarrow> bool \<Rightarrow> string \<Rightarrow> string \<Rightarrow> string \<Rightarrow> instant \<Rightarrow> ctlState \<Rightarrow> ctlState" where
  "emitAck E evt requiresAck result0 errorCode reason appliedAt c =
     (let spec = pe_Spec evt; result = canonicalAckResult result0 errorCode reason;
          attempted = (requiresAck \<and> ce_ackSink E \<noteq> None);
          status = (if requiresAck \<and> ce_ackSink E = None then ''publisher_unavailable''
                    else if \<not> attempted then ''skipped''
                    else if ce_ackSink E = Some True then ''enqueue_ok'' else ''enqueue_failed'');
          d = \<lparr>dr_PolicyID = sp_ID spec, dr_Action = sp_Action spec, dr_Scope = ScopeIdentifier spec,
               dr_Tenant = effectiveTenant spec, dr_Result = result, dr_ErrorCode = errorCode, dr_Reason = reason,
               dr_AppliedAt = appliedAt, dr_AckRequired = requiresAck, dr_AckAttempted = attempted, dr_AckStatus = status\<rparr> in
      c\<lparr>ct_decisions := recordDecision (cc_decMax (ce_cfg E)) d (ct_decisions c),
        ct_out := ct_out c @ (if status = ''enqueue_ok'' then [SentAck (sp_ID spec) result errorCode] else [])\<rparr>)"

text \<open>\<open>None\<close> when the caller may go on: the artifact was published or none is wanted.\<close>

definition publishCommandReject :: "ctlEnv \<Rightarrow> bool \<Rightarrow> ctl_error \<Rightarrow> ctlState \<Rightarrow> ctl_error option \<times> ctlState" where
  "publishCommandReject E hasMsg reason c =
     (if \<not> hasMsg then (None, c)
      else case ce_rejectSink E of
             None \<Rightarrow> (if cc_rejectRequired (ce_cfg E) then Some ERejectSink else None, c)
           | Some ok \<Rightarrow> if ok then (None, c\<lparr>ct_out := ct_out c @ [SentReject reason]\<rparr>) else (Some ERejectSink, c))"

definition policyDomainForTopic :: "ctlConfig \<Rightarrow> string \<Rightarrow> string" where
  "policyDomainForTopic cfg topic =
     (let t = TrimSpace topic; ct = TrimSpace (cc_commandTopic cfg) in
      if t = [] then ''control.policy.v2''
      else if ct = ''control.policy.v2'' then ''control.policy.v2''
      else if ct \<noteq> [] \<and> t = ct then ''control.enforcement_command.v1''
      else if t = ''control.enforcement_command.v1'' then ''control.enforcement_command.v1''
      else ''control.policy.v2'')"

definition MessageLane :: "ctlEnv \<Rightarrow> kafkaMessage \<Rightarrow> string" where
  "MessageLane E msg =
     (if km_Value msg = [] then ''critical''
      else case ce_decode E (km_Value msg) of
             None \<Rightarrow> ''critical''
           | Some evt \<Rightarrow>
               if ToLower (TrimSpace (pu_Action evt)) \<in> {''refresh'', ''renew'', ''ttl_refresh'', ''reconcile'', ''sync'', ''heartbeat''}
               then ''maintenance'' else ''critical'')"


subsection \<open>Identity of rules and events\<close>

definition normalizeStrings :: "string list \<Rightarrow> json" where
  "normalizeStrings vs = JArray (map JString (normalizeSorted vs))"

definition cloneStringMap :: "(string, string) gomap \<Rightarrow> json" where
  "cloneStringMap m = JObject (map (\<lambda>(k, v). (k, JString v))
     (fold (\<lambda>(k, v). AList.update (ToLower (TrimSpace k)) (TrimSpace v)) m []))"

definition intOrNil :: "int option \<Rightarrow> json" where
  "intOrNil x = (case x of None \<Rightarrow> JNull | Some n \<Rightarrow> JNumber (of_int n))"

definition plainStrings :: "string list \<Rightarrow> json" where
  "plainStrings vs = (if vs = [] then JNull else JArray (map JString vs))"

definition effectiveRule :: "policySpec \<Rightarrow> json" where
  "effectiveRule spec =
     (let t = sp_Target spec; g = sp_Guardrails spec; cr = sp_Criteria spec; low = (\<lambda>s. JString (ToLower (TrimSpace s))) in
      JObject
       [(''id'', JString (TrimSpace (sp_ID spec))), (''ruleType'', low (sp_RuleType spec)), (''action'', low (sp_Action spec)),
        (''tenant'', low (sp_Tenant spec)), (''region'', low (sp_Region spec)),
        (''target'', JObject
          [(''ips'', plainStrings (tg_IPs t)), (''cidrs'', plainStrings (tg_CIDRs t)), (''direction'', low (tg_Direction t)),
           (''scope'', low (tg_Scope t)), (''selectors'', cloneStringMap (tg_Selectors t)), (''namespace'', low (tg_Namespace t)),
           (''ports'', JArray (map JString (normalizePorts (tg_Ports t)))), (''protocols'', normalizeStrings (tg_Protocols t)),
           (''tenant'', low (tg_Tenant t)), (''region'', low (tg_Region t))]),
        (''criteria'', JObject
          [(''min_confidence'', case cr_MinConfidence cr of None \<Rightarrow> JNull | Some r \<Rightarrow> JNumber r),
           (''attempts_per_window'', intOrNil (cr_AttemptsPerWindow cr)), (''window_seconds'', intOrNil (cr_WindowSeconds cr))]),
        (''guards'', JObject
          [(''dry_run'', JBool (gd_DryRun g)), (''canary_scope'', JBool (gd_CanaryScope g)),
           (''cidr_max_prefix_len'', intOrNil (gd_CIDRMaxPrefixLen g)), (''max_targets'', intOrNil (gd_MaxTargets g)),
           (''fast_path_enabled'', JBool (gd_FastPathEnabled g)), (''fast_path_canary_scope'', JBool (gd_FastPathCanaryScope g)),
           (''allowlist_ips'', normalizeStrings (gd_AllowlistIPs g)), (''allowlist_cidrs'', normalizeStrings (gd_AllowlistCIDRs g)),
           (''allowlist_namespaces'', normalizeStrings (gd_AllowlistNamespaces g)),
           (''approval_required'', JBool (gd_ApprovalRequired g))])])"

definition effectiveRuleFingerprint :: "ctlEnv \<Rightarrow> policySpec \<Rightarrow> string" where
  "effectiveRuleFingerprint E spec = hexEncode (be_bytes 32 (ce_sha E (ce_json E (effectiveRule spec))))"

definition sameEffectiveRule :: "ctlEnv \<Rightarrow> policySpec \<Rightarrow> policySpec \<Rightarrow> bool" where
  "sameEffectiveRule E a b \<longleftrightarrow> effectiveRuleFingerprint E a = effectiveRuleFingerprint E b"

definition evtRuleHash :: "policyEvent \<Rightarrow> bytes" where
  "evtRuleHash evt =
     (case pe_Proto evt of
        Some p \<Rightarrow> pu_RuleHash p
      | None \<Rightarrow> (case pe_Fast evt of
                  Some f \<Rightarrow> (case hexDecode (TrimSpace (fe_ContentHash f)) of Some b \<Rightarrow> b | None \<Rightarrow> [])
                | None \<Rightarrow> []))"

definition duplicateFingerprint :: "policyEvent \<Rightarrow> string" where
  "duplicateFingerprint evt =
     (case pe_Fast evt of
        Some f \<Rightarrow> strJoin [''fast'', TrimSpace (fe_MitigationID f), TrimSpace (fe_ContentHash f)] ''|''
      | None \<Rightarrow> hexEncode (evtRuleHash evt))"

text \<open>The key under which fingerprints and pending approvals are kept.\<close>

definition approvalKey :: "policySpec \<Rightarrow> string" where
  "approvalKey spec = sp_ID spec @ '':'' @ ScopeIdentifier spec"

definition isDuplicate :: "policyEvent \<Rightarrow> ctlState \<Rightarrow> bool" where
  "isDuplicate evt c \<longleftrightarrow> map_of (ct_seenHashes c) (approvalKey (pe_Spec evt)) = Some (duplicateFingerprint evt)"

definition commitDuplicateFingerprint :: "policyEvent \<Rightarrow> ctlState \<Rightarrow> ctlState" where
  "commitDuplicateFingerprint evt c =
     c\<lparr>ct_seenHashes := AList.update (approvalKey (pe_Spec evt)) (duplicateFingerprint evt) (ct_seenHashes c)\<rparr>"

definition policyEventTimestamp :: "policyEvent \<Rightarrow> instant option" where
  "policyEventTimestamp evt =
     (case pe_Proto evt of None \<Rightarrow> None | Some p \<Rightarrow> if pu_Timestamp p \<le> 0 then None else Some (pu_Timestamp p * second))"

definition policyExpired :: "policyEvent \<Rightarrow> instant \<Rightarrow> bool" where
  "policyExpired evt now =
     (let ttl = gd_TTLSeconds (sp_Guardrails (pe_Spec evt)) in
      case policyEventTimestamp evt of
        None \<Rightarrow> False
      | Some ts \<Rightarrow> ttl > 0 \<and> now > ts + secondsDuration ttl)"

definition orderingKey :: "policyEvent \<Rightarrow> string" where
  "orderingKey evt =
     (let fromProto = (case pe_Proto evt of None \<Rightarrow> [] | Some p \<Rightarrow> TrimSpace (pu_PolicyId p));
          fromSpec = TrimSpace (sp_ID (pe_Spec evt)) in
      if fromProto \<noteq> [] then ''policy:'' @ fromProto
      else if fromSpec \<noteq> [] then ''policy:'' @ fromSpec
      else ''scope:'' @ ScopeIdentifier (pe_Spec evt))"

definition isApprovalAction :: "string \<Rightarrow> bool" where
  "isApprovalAction a \<longleftrightarrow> ToLower (TrimSpace a) \<in> {''approve'', ''approved'', ''ack'', ''acknowledge'', ''approval''}"

definition isRejectAction :: "string \<Rightarrow> bool" where
  "isRejectAction a \<longleftrightarrow> ToLower (TrimSpace a) \<in> {''reject'', ''rejected'', ''deny'', ''denied''}"

definition isRemoveAction :: "policyEvent \<Rightarrow> bool" where
  "isRemoveAction evt \<longleftrightarrow> EqualFold (TrimSpace (sp_Action (pe_Spec evt))) ''remove''
     \<or> (case pe_Proto evt of None \<Rightarrow> False | Some p \<Rightarrow> EqualFold (TrimSpace (pu_Action p)) ''remove'')"

definition copyFields :: "string list \<Rightarrow> jobject \<Rightarrow> jobject \<Rightarrow> jobject" where
  "copyFields keys src dst =
     fold (\<lambda>k m. if rawString (map_of src k) \<noteq> [] then AList.update k (JString (rawString (map_of src k))) m else m) keys dst"

definition mergePendingDecisionContext :: "policyEvent \<Rightarrow> policyEvent \<Rightarrow> policyEvent" where
  "mergePendingDecisionContext pend decision =
     (let from = sp_Raw (pe_Spec decision);
          p = map_option (\<lambda>p. case pe_Proto decision of None \<Rightarrow> p
                              | Some d \<Rightarrow> p\<lparr>pu_Action := pu_Action d, pu_RequiresAck := pu_RequiresAck d\<rparr>) (pe_Proto pend);
          raw = copyFields [''request_id'', ''command_id'', ''workflow_id'', ''control_action''] from (sp_Raw (pe_Spec pend));
          md = copyFields [''request_id'', ''command_id'', ''workflow_id'', ''decision_reason_code'', ''decision_reason_text'', ''control_action'']
                 (rawObject (map_of from ''metadata'')) (rawObject (map_of raw ''metadata''));
          raw = AList.update ''metadata'' (JObject md) raw;
          tr = copyFields [''request_id'', ''command_id'', ''workflow_id'']
                 (rawObject (map_of from ''trace'')) (rawObject (map_of raw ''trace''));
          raw = AList.update ''trace'' (JObject tr) raw in
      pend\<lparr>pe_Proto := p, pe_Spec := (pe_Spec pend)\<lparr>sp_Raw := raw\<rparr>\<rparr>)"

definition rejectDecisionReason :: "policySpec \<Rightarrow> string" where
  "rejectDecisionReason spec =
     (let md = rawObject (map_of (sp_Raw spec) ''metadata''); text = rawString (map_of md ''decision_reason_text'');
          code = rawString (map_of md ''decision_reason_code'') in
      if text \<noteq> [] then text else if code \<noteq> [] then code else ''policy manually rejected'')"

subsection \<open>Applying with retries\<close>

definition jitteredBackoff :: "ctlConfig \<Rightarrow> rat \<Rightarrow> duration \<Rightarrow> duration" where
  "jitteredBackoff cfg rnd base =
     (let wait = (if cc_retryJitter cfg > 0
                  then max 0 (go_trunc (of_int base + (rnd * 2 - 1) * (of_int base * cc_retryJitter cfg))) else base) in
      if base \<le> 0 then 0
      else if cc_retryCap cfg > 0 \<and> wait > cc_retryCap cfg then cc_retryCap cfg else wait)"

definition nextBackoff :: "ctlConfig \<Rightarrow> duration \<Rightarrow> duration" where
  "nextBackoff cfg b = (if b < cc_retryCap cfg then min (2 * b) (cc_retryCap cfg) else b)"

definition canceledError :: goError where
  "canceledError = \<lparr>ge_deadline = False, ge_canceled = True, ge_apiTimeout = False, ge_apiTransient = False,
     ge_net = None, ge_msg = ''context canceled''\<rparr>"

definition budgetError :: goError where
  "budgetError = \<lparr>ge_deadline = True, ge_canceled = False, ge_apiTimeout = False, ge_apiTransient = False,
     ge_net = None, ge_msg = ''context deadline exceeded''\<rparr>"

definition tryApply :: "ctlEnv \<Rightarrow> policySpec \<Rightarrow> ctlState \<Rightarrow> goError option \<times> ctlState" where
  "tryApply E spec c =
     (let r = ce_apply E (ct_calls c) spec in
      (r, c\<lparr>ct_calls := ct_calls c + 1,
            ct_out := ct_out c @ [if r = None then DidApply spec else FailedApply spec]\<rparr>))"

text \<open>The loop with \<open>left\<close> attempts to go; the result is the error, the attempts made and whether they ran out.\<close>

fun applyLoop :: "ctlEnv \<Rightarrow> policySpec \<Rightarrow> nat \<Rightarrow> int \<Rightarrow> duration \<Rightarrow> ctlState \<Rightarrow> (goError option \<times> int \<times> bool) \<times> ctlState" where
  "applyLoop E spec 0 attempt backoff c = ((None, attempt - 1, True), c)"
| "applyLoop E spec (Suc left) attempt backoff c =
     (if ce_canceled E (ct_calls c) then ((Some canceledError, attempt - 1, False), c)
      else case tryApply E spec c of
             (None, c) \<Rightarrow> ((None, attempt, False), c)
           | (Some e, c) \<Rightarrow>
               if applyErrorClass e \<notin> {ClassTimeout, ClassTransient} then ((Some e, attempt, False), c)
               else if left = 0 then ((Some e, attempt, True), c)
               else (case ce_wait E (ct_calls c) (jitteredBackoff (ce_cfg E) (ce_rand E (ct_calls c)) backoff) of
                       WaitCanceled \<Rightarrow> ((Some canceledError, attempt, False), c)
                     | WaitBudget \<Rightarrow> ((Some budgetError, attempt, False), c)
                     | WaitDone \<Rightarrow> applyLoop E spec left (attempt + 1) (nextBackoff (ce_cfg E) backoff) c))"

definition applyWithRetries :: "ctlEnv \<Rightarrow> policySpec \<Rightarrow> ctlState \<Rightarrow> (goError option \<times> int \<times> bool) \<times> ctlState" where
  "applyWithRetries E spec c = applyLoop E spec (nat (max 1 (cc_retryMax (ce_cfg E) + 1))) 1 (cc_retryBase (ce_cfg E)) c"

definition isApplyTimeoutBreakerOpen :: "ctlConfig \<Rightarrow> instant \<Rightarrow> ctlState \<Rightarrow> bool" where
  "isApplyTimeoutBreakerOpen cfg now c \<longleftrightarrow>
     cc_breakerCooldown cfg > 0 \<and> cc_breakerThreshold cfg > 0 \<and> ct_breakerUntil c > 0 \<and> now < ct_breakerUntil c"

definition recordApplyTimeoutOutcome :: "ctlConfig \<Rightarrow> instant \<Rightarrow> bool \<Rightarrow> ctlState \<Rightarrow> ctlState" where
  "recordApplyTimeoutOutcome cfg now timeout c =
     (if \<not> timeout then c\<lparr>ct_streak := 0\<rparr>
      else if cc_breakerCooldown cfg \<le> 0 \<or> cc_breakerThreshold cfg \<le> 0 then c
      else if ct_streak c + 1 < cc_breakerThreshold cfg then c\<lparr>ct_streak := ct_streak c + 1\<rparr>
      else c\<lparr>ct_breakerUntil := now + cc_breakerCooldown cfg, ct_streak := 0\<rparr>)"

definition applyWithTerminalHandling ::
    "ctlEnv \<Rightarrow> bool \<Rightarrow> policyEvent \<Rightarrow> bool \<Rightarrow> instant \<Rightarrow> ctlState \<Rightarrow> ctl_error option \<times> ctlState" where
  "applyWithTerminalHandling E hasMsg evt requiresAck now c =
     (if isApplyTimeoutBreakerOpen (ce_cfg E) now c
      then (Some EBreakerOpen, emitAck E evt requiresAck ''timeout'' ''apply_timeout_breaker_open'' (ce_text E EBreakerOpen) now c)
      else case applyWithRetries E (pe_Spec evt) c of
             ((None, attempts, exhausted), c) \<Rightarrow> (None, recordApplyTimeoutOutcome (ce_cfg E) now False c)
           | ((Some e, attempts, exhausted), c) \<Rightarrow>
               let c = recordApplyTimeoutOutcome (ce_cfg E) now (applyErrorClass e = ClassTimeout) c;
                   result = (if exhausted then ''retry_exhausted'' else ''failed'');
                   code = (if exhausted then ''apply_retry_exhausted'' else applyErrorCode e) in
               (case (if terminalRejectPolicy (applyErrorClass e) exhausted then publishCommandReject E hasMsg (EApply e) c else (None, c)) of
                  (Some err, c) \<Rightarrow> (Some err, c)
                | (None, c) \<Rightarrow> (Some (EApply e), emitAck E evt requiresAck result code (ce_text E (EApply e)) now c)))"


subsection \<open>Handling a policy message\<close>

text \<open>What the handler carries from step to step.\<close>

record handling =
  hx_evt :: policyEvent
  hx_ack :: bool
  hx_replayKey :: string
  hx_scopeKey :: string
  hx_ts :: "instant option"
  hx_pendingKey :: string
  hx_approved :: bool

abbreviation hx_spec :: "handling \<Rightarrow> policySpec" where
  "hx_spec x \<equiv> pe_Spec (hx_evt x)"

definition ack :: "ctlEnv \<Rightarrow> handling \<Rightarrow> string \<Rightarrow> string \<Rightarrow> string \<Rightarrow> instant \<Rightarrow> ctlState \<Rightarrow> ctlState" where
  "ack E x result code reason appliedAt c = emitAck E (hx_evt x) (hx_ack x) result code reason appliedAt c"

definition rememberReplayKey :: "ctlEnv \<Rightarrow> instant \<Rightarrow> handling \<Rightarrow> ctlState \<Rightarrow> ctlState" where
  "rememberReplayKey E now x c =
     c\<lparr>ct_replaySeen := commitReplayKey (cc_replay (ce_cfg E)) (ce_ord E) (hx_replayKey x) now (ct_replaySeen c)\<rparr>"

text \<open>\<^verbatim>\<open>advanceScopeWatermark\<close>, \<^verbatim>\<open>commitDuplicateFingerprint\<close> and \<^verbatim>\<open>commitReplayKey\<close>, as the branches end.\<close>

definition commitEvent :: "ctlEnv \<Rightarrow> instant \<Rightarrow> handling \<Rightarrow> ctlState \<Rightarrow> ctlState" where
  "commitEvent E now x c =
     (let c = (case hx_ts x of
                 None \<Rightarrow> c
               | Some t \<Rightarrow> c\<lparr>ct_store := AdvanceScopeWatermark (hx_scopeKey x) t (ct_store c)\<rparr>) in
      rememberReplayKey E now x (commitDuplicateFingerprint (hx_evt x) c))"

definition clearPendingApproval :: "ctlEnv \<Rightarrow> instant \<Rightarrow> string \<Rightarrow> ctlState \<Rightarrow> ctlState" where
  "clearPendingApproval E now key c =
     c\<lparr>ct_pending := AList.delete key (ct_pending c),
       ct_store := snd (RemovePendingApproval (ce_io E) key now (ct_store c))\<rparr>"

definition clearIfApproved :: "ctlEnv \<Rightarrow> instant \<Rightarrow> handling \<Rightarrow> ctlState \<Rightarrow> ctlState" where
  "clearIfApproved E now x c = (if hx_approved x then clearPendingApproval E now (hx_pendingKey x) c else c)"

definition shouldCompactEvent :: "ctlEnv \<Rightarrow> instant \<Rightarrow> handling \<Rightarrow> ctlState \<Rightarrow> bool \<times> ctlState" where
  "shouldCompactEvent E now x c =
     (case cc_compaction (ce_cfg E) of
        None \<Rightarrow> (False, c)
      | Some w \<Rightarrow>
          (case compactor_Observe w (hx_spec x) (case hx_ts x of None \<Rightarrow> now | Some t \<Rightarrow> t) now (ct_compactor c) of
             (superseded, entries) \<Rightarrow> (superseded, c\<lparr>ct_compactor := entries\<rparr>)))"

definition compactedNoop :: "ctlEnv \<Rightarrow> instant \<Rightarrow> handling \<Rightarrow> ctlState \<Rightarrow> ctlState" where
  "compactedNoop E now x c =
     clearIfApproved E now x (ack E x ''noop'' ''lifecycle_compacted_superseded'' ''superseded lifecycle intent compacted'' now
       (commitEvent E now x c))"

text \<open>
  The three tests in front of a dataplane change: the compactor, the mode of the lane and the lane
  itself. \<open>Inl\<close> ends the handler with its result.
\<close>

definition laneGate ::
    "ctlEnv \<Rightarrow> instant \<Rightarrow> bool \<Rightarrow> handling \<Rightarrow> ctlState \<Rightarrow> (ctl_error option \<times> ctlState) + ctlState" where
  "laneGate E now maintenance x c =
     (let lane = (if maintenance then ''maintenance'' else ''critical'') in
      case shouldCompactEvent E now x c of
        (True, c) \<Rightarrow> Inl (None, compactedNoop E now x c)
      | (False, c) \<Rightarrow>
          if effectiveLaneMode (cc_lanes (ce_cfg E)) maintenance now = ''dry_run''
          then Inl (None, ack E x ''noop'' (''lifecycle_class_'' @ lane @ ''_dry_run'') (lane @ '' lifecycle class in dry_run mode'') now c)
          else if \<not> ce_laneOk E
          then Inl (Some ELane, ack E x ''failed'' (lane @ ''_lane_wait_failed'') (ce_text E ELane) now c)
          else Inr c)"

definition handleRemove :: "ctlEnv \<Rightarrow> instant \<Rightarrow> handling \<Rightarrow> ctlState \<Rightarrow> ctl_error option \<times> ctlState" where
  "handleRemove E now x c =
     (case laneGate E now False x c of
        Inl done \<Rightarrow> done
      | Inr c \<Rightarrow>
          let i = sp_ID (hx_spec x);
              reason = (case map_of (sf_records (ct_store c)) i of
                          None \<Rightarrow> [] | Some r \<Rightarrow> if ar_PendingConsensus r then ''provisional_revoked'' else []);
              r = ce_remove E (ct_calls c) i;
              c = c\<lparr>ct_calls := ct_calls c + 1, ct_out := ct_out c @ [if r = None then DidRemove i else FailedRemove i]\<rparr> in
          case r of
            Some e \<Rightarrow> (Some (ERemove e), ack E x ''failed'' ''remove_error'' (ce_text E (ERemove e)) now c)
          | None \<Rightarrow>
              let c = ack E x ''applied'' [] reason now c;
                  c = c\<lparr>ct_store := snd (store_Remove (ce_io E) i now (ct_store c))\<rparr> in
              (None, clearIfApproved E now x (commitEvent E now x c)))"

definition markApplied :: "ctlEnv \<Rightarrow> instant \<Rightarrow> bool \<Rightarrow> string \<Rightarrow> agentStore \<Rightarrow> agentStore" where
  "markApplied E now promoted i s =
     snd (if promoted then MarkPromoted (ce_io E) i now now s else ClearPendingConsensus (ce_io E) i now s)"

definition releaseHeld :: "ctlEnv \<Rightarrow> reservation list \<Rightarrow> ctlState \<Rightarrow> ctlState" where
  "releaseHeld E rs c = c\<lparr>ct_rate := releaseAll (ce_rate E) rs (ct_rate c)\<rparr>"

definition handleRefresh ::
    "ctlEnv \<Rightarrow> instant \<Rightarrow> handling \<Rightarrow> bool \<Rightarrow> reservation list \<Rightarrow> ctlState \<Rightarrow> ctl_error option \<times> ctlState" where
  "handleRefresh E now x promoted rs c =
     (case laneGate E now True x c of
        Inl (err, c) \<Rightarrow> (err, releaseHeld E rs c)
      | Inr c \<Rightarrow>
          (case store_Upsert (ce_io E) (hx_spec x) now now (ct_store c) of
             (Some e, s) \<Rightarrow> (Some (EStore e), releaseHeld E rs
                (ack E x ''failed'' ''refresh_persist_error'' (ce_text E (EStore e)) now (c\<lparr>ct_store := s\<rparr>)))
           | (None, s) \<Rightarrow>
               (None, clearIfApproved E now x (ack E x ''applied'' [] (if promoted then ''applied_promoted'' else ''applied_refresh'') now
                  (commitEvent E now x (c\<lparr>ct_store := markApplied E now promoted (sp_ID (hx_spec x)) s\<rparr>))))))"

definition handleEnforce ::
    "ctlEnv \<Rightarrow> instant \<Rightarrow> handling \<Rightarrow> bool \<Rightarrow> string \<Rightarrow> reservation list \<Rightarrow> ctlState \<Rightarrow> ctl_error option \<times> ctlState" where
  "handleEnforce E now x promoted reason rs c =
     (case laneGate E now False x c of
        Inl (err, c) \<Rightarrow> (err, releaseHeld E rs c)
      | Inr c \<Rightarrow>
          (case applyWithTerminalHandling E True (hx_evt x) (hx_ack x) now c of
             (Some err, c) \<Rightarrow> (Some err, releaseHeld E rs c)
           | (None, c) \<Rightarrow>
               let c = ack E x ''applied'' [] reason now c;
                   s = snd (store_Upsert (ce_io E) (hx_spec x) now now (ct_store c));
                   c = c\<lparr>ct_store := markApplied E now promoted (sp_ID (hx_spec x)) s\<rparr> in
               (None, clearIfApproved E now x (commitEvent E now x c))))"

definition acceptedAck :: "ctlEnv \<Rightarrow> instant \<Rightarrow> handling \<Rightarrow> ctlState \<Rightarrow> ctlState" where
  "acceptedAck E now x c =
     (if cc_acceptedAck (ce_cfg E)
      then ack E x ''accepted'' ''accepted_pre_apply'' ''policy accepted after verification and guardrails'' now c else c)"

text \<open>After the guardrails: a rule the backend already has is only refreshed in the store.\<close>

definition handleAccepted :: "ctlEnv \<Rightarrow> instant \<Rightarrow> handling \<Rightarrow> reservation list \<Rightarrow> ctlState \<Rightarrow> ctl_error option \<times> ctlState" where
  "handleAccepted E now x rs c =
     (case map_of (sf_records (ct_store c)) (sp_ID (hx_spec x)) of
        None \<Rightarrow> handleEnforce E now x False ''applied_new'' rs c
      | Some r \<Rightarrow>
          let promoted = (ar_PendingConsensus r \<and> ar_Provisional r) in
          if sameEffectiveRule E (ar_Spec r) (hx_spec x) then handleRefresh E now x promoted rs c
          else handleEnforce E now x promoted (if promoted then ''applied_promoted_reapply'' else ''applied_refresh_reapply'') rs c)"

definition handleApply :: "ctlEnv \<Rightarrow> instant \<Rightarrow> handling \<Rightarrow> ctlState \<Rightarrow> ctl_error option \<times> ctlState" where
  "handleApply E now x c =
     (case checkGuardrails (ce_net E) (ce_rate E) (ce_sha E) (ct_store c) (hx_spec x) now (ct_rate c) of
        (Inl why, w) \<Rightarrow> (None, ack E x ''failed'' ''guardrail_violation'' (ce_text E (EGuardrail why)) zeroTime (c\<lparr>ct_rate := w\<rparr>))
      | (Inr rs, w) \<Rightarrow> handleAccepted E now x rs (acceptedAck E now x (c\<lparr>ct_rate := w\<rparr>)))"

definition savePendingApproval :: "ctlEnv \<Rightarrow> instant \<Rightarrow> handling \<Rightarrow> ctlState \<Rightarrow> ctlState" where
  "savePendingApproval E now x c =
     (let s = (case Option.bind (pe_Proto (hx_evt x)) (gl_marshal (ce_lib E)) of
                 None \<Rightarrow> ct_store c
               | Some payload \<Rightarrow> snd (SavePendingApproval (ce_io E) (hx_pendingKey x) payload now (ct_store c))) in
      c\<lparr>ct_store := s, ct_pending := AList.update (hx_pendingKey x) (hx_evt x) (ct_pending c)\<rparr>)"

definition withoutApproval :: "policyEvent \<Rightarrow> policyEvent" where
  "withoutApproval evt =
     evt\<lparr>pe_Proto := map_option (\<lambda>p. p\<lparr>pu_RequiresAck := False\<rparr>) (pe_Proto evt),
         pe_Spec := (pe_Spec evt)\<lparr>sp_Guardrails := (sp_Guardrails (pe_Spec evt))\<lparr>gd_ApprovalRequired := False\<rparr>\<rparr>\<rparr>"

definition handleDecided :: "ctlEnv \<Rightarrow> instant \<Rightarrow> handling \<Rightarrow> ctlState \<Rightarrow> ctl_error option \<times> ctlState" where
  "handleDecided E now x c =
     (if isDuplicate (hx_evt x) c
      then (None, ack E x ''applied'' ''duplicate_noop'' ''policy duplicate detected'' now (commitEvent E now x c))
      else if isRemoveAction (hx_evt x) then handleRemove E now x c
      else handleApply E now x c)"

definition withDecision :: "handling \<Rightarrow> policyEvent \<Rightarrow> bool \<Rightarrow> handling" where
  "withDecision x pend approved =
     x\<lparr>hx_evt := withoutApproval (mergePendingDecisionContext pend (hx_evt x)), hx_approved := approved\<rparr>"

definition handleApproval :: "ctlEnv \<Rightarrow> instant \<Rightarrow> handling \<Rightarrow> ctlState \<Rightarrow> ctl_error option \<times> ctlState" where
  "handleApproval E now x c =
     (let action = (case pe_Proto (hx_evt x) of None \<Rightarrow> [] | Some p \<Rightarrow> pu_Action p);
          pend = map_of (ct_pending c) (hx_pendingKey x) in
      if isApprovalAction action then
        (case pend of
           None \<Rightarrow> (None, ack E x ''failed'' ''approval_not_pending'' ''approval received without pending policy'' now c)
         | Some p \<Rightarrow> handleDecided E now (withDecision x p True) c)
      else if isRejectAction action then
        (case pend of
           None \<Rightarrow> (None, ack E x ''failed'' ''reject_not_pending'' ''rejection received without pending policy'' now c)
         | Some p \<Rightarrow>
             let x = withDecision x p False; c = commitEvent E now x (clearPendingApproval E now (hx_pendingKey x) c) in
             (None, ack E x ''failed'' ''manual_reject'' (rejectDecisionReason (hx_spec x)) now c))
      else if gd_ApprovalRequired (sp_Guardrails (hx_spec x))
      then (None, rememberReplayKey E now x (savePendingApproval E now x c))
      else handleDecided E now x c)"

text \<open>The tests between the replay check and the approval: expiry, kill switch, order of events.\<close>

definition handleFresh :: "ctlEnv \<Rightarrow> instant \<Rightarrow> handling \<Rightarrow> ctlState \<Rightarrow> ctl_error option \<times> ctlState" where
  "handleFresh E now x c =
     (if cc_expiredShed (ce_cfg E) \<and> policyExpired (hx_evt x) now then
        (case publishCommandReject E True EExpired c of
           (Some err, c) \<Rightarrow> (Some err, c)
         | (None, c) \<Rightarrow> (None, ack E x ''failed'' ''shed_expired_policy'' (ce_text E EExpired) now c))
      else if ct_kill c
      then (None, ack E x ''failed'' ''kill_switch'' ''enforcement disabled via kill switch'' zeroTime c)
      else if (case hx_ts x of None \<Rightarrow> False | Some t \<Rightarrow> fst (IsScopeEventStale (ct_store c) (hx_scopeKey x) t))
      then (None, ack E x ''failed'' ''stale_out_of_order'' ''policy event timestamp older than accepted scope watermark'' zeroTime c)
      else handleApproval E now x c)"

definition replayRefused :: "ctlEnv \<Rightarrow> instant \<Rightarrow> handling \<Rightarrow> string \<Rightarrow> ctlState \<Rightarrow> ctl_error option \<times> ctlState" where
  "replayRefused E now x why c =
     (if why = ''replay_duplicate''
      then (None, ack E x ''applied'' ''duplicate_noop'' ''policy replay duplicate detected'' now c)
      else case (if why \<in> {''replay_invalid_timestamp'', ''replay_future_timestamp''}
                 then publishCommandReject E True (EReplay why) c else (None, c)) of
             (Some err, c) \<Rightarrow> (Some err, c)
           | (None, c) \<Rightarrow> (None, ack E x ''failed'' why (ce_text E (EReplay why)) zeroTime c))"

definition handlingOf :: "policyEvent \<Rightarrow> bool \<Rightarrow> string \<Rightarrow> handling" where
  "handlingOf evt requiresAck key =
     \<lparr>hx_evt = evt, hx_ack = requiresAck, hx_replayKey = key, hx_scopeKey = orderingKey evt,
      hx_ts = policyEventTimestamp evt, hx_pendingKey = approvalKey (pe_Spec evt), hx_approved = False\<rparr>"

definition handleVerified :: "ctlEnv \<Rightarrow> instant \<Rightarrow> policyEvent \<Rightarrow> bool \<Rightarrow> ctlState \<Rightarrow> ctl_error option \<times> ctlState" where
  "handleVerified E now evt requiresAck c =
     (case checkReplay (cc_replay (ce_cfg E)) evt now (ct_replaySeen c) of
        ((why, key), seen) \<Rightarrow>
          if why \<noteq> [] then replayRefused E now (handlingOf evt requiresAck key) why (c\<lparr>ct_replaySeen := seen\<rparr>)
          else handleFresh E now (handlingOf evt requiresAck key) (c\<lparr>ct_replaySeen := seen\<rparr>))"

definition HandleMessage :: "ctlEnv \<Rightarrow> instant \<Rightarrow> kafkaMessage \<Rightarrow> ctlState \<Rightarrow> ctl_error option \<times> ctlState" where
  "HandleMessage E now msg c =
     (case ce_decode E (km_Value msg) of
        None \<Rightarrow> publishCommandReject E True EDecode c
      | Some event \<Rightarrow>
          (case VerifyAndParseWithDomain (ce_lib E) (ce_keys E) event (policyDomainForTopic (ce_cfg E) (km_Topic msg)) of
             Inl e \<Rightarrow> publishCommandReject E True (EVerify e) c
           | Inr evt \<Rightarrow> handleVerified E now evt (pu_RequiresAck event) c))"

subsection \<open>Handling a fast mitigation\<close>

definition fastDeadline :: "policySpec \<Rightarrow> instant \<Rightarrow> instant" where
  "fastDeadline spec appliedAt =
     (let g = sp_Guardrails spec; ttl = gd_TTLSeconds g;
          general = (if ttl > 0 then appliedAt + secondsDuration ttl else zeroTime) in
      case gd_FastPathTTLSeconds g of
        Some n \<Rightarrow> if n > 0 then appliedAt + secondsDuration n else general
      | None \<Rightarrow> general)"

definition maxFastMitigationRenewals :: int where
  "maxFastMitigationRenewals = 1"

definition fastPersist ::
    "ctlEnv \<Rightarrow> instant \<Rightarrow> policyEvent \<Rightarrow> fastEnvelope \<Rightarrow> ctlState \<Rightarrow> store_error option \<times> ctlState" where
  "fastPersist E now evt f c =
     (case store_Upsert (ce_io E) (pe_Spec evt) now now (ct_store c) of
        (Some e, s) \<Rightarrow> (Some e, c\<lparr>ct_store := s\<rparr>)
      | (None, s) \<Rightarrow> (None, c\<lparr>ct_store := snd (MarkProvisional (ce_io E) (sp_ID (pe_Spec evt)) (fe_MitigationID f)
                         (fastDeadline (pe_Spec evt) now) now now s)\<rparr>))"

definition HandleFastEvent :: "ctlEnv \<Rightarrow> instant \<Rightarrow> policyEvent \<Rightarrow> ctlState \<Rightarrow> ctl_error option \<times> ctlState" where
  "HandleFastEvent E now evt c =
     (case pe_Fast evt of
        None \<Rightarrow> (Some EFastMissing, c)
      | Some f \<Rightarrow>
          (case checkFastReplay (cc_replay (ce_cfg E)) (ce_ord E) f now (ct_replaySeen c) of
             (Some why, seen) \<Rightarrow> (None, emitAck E evt True ''failed'' why (ce_text E (EReplay why)) zeroTime (c\<lparr>ct_replaySeen := seen\<rparr>))
           | (None, seen) \<Rightarrow>
               let c = c\<lparr>ct_replaySeen := seen\<rparr>; existing = map_of (sf_records (ct_store c)) (sp_ID (pe_Spec evt)) in
               if ct_kill c
               then (None, emitAck E evt True ''failed'' ''kill_switch'' ''enforcement disabled via kill switch'' zeroTime c)
               else if isDuplicate evt c
               then (None, emitAck E evt True ''applied'' ''duplicate_noop'' ''fast mitigation duplicate detected'' now c)
               else if (case existing of
                          None \<Rightarrow> False
                        | Some r \<Rightarrow> ar_PendingConsensus r \<and> ar_Provisional r \<and> ar_RenewalCount r \<ge> maxFastMitigationRenewals)
               then (None, emitAck E evt True ''failed'' ''fast_renewal_exceeded'' ''fast mitigation renewal limit exceeded'' zeroTime c)
               else if (case existing of None \<Rightarrow> False | Some r \<Rightarrow> sameEffectiveRule E (ar_Spec r) (pe_Spec evt))
               then (case fastPersist E now evt f c of
                       (Some e, c) \<Rightarrow> (Some (EStore e), emitAck E evt True ''failed'' ''refresh_persist_error'' (ce_text E (EStore e)) now c)
                     | (None, c) \<Rightarrow> (None, emitAck E evt True ''applied'' [] ''applied_provisional_refresh'' now c))
               else (case applyWithTerminalHandling E False evt True now c of
                       (Some err, c) \<Rightarrow> (Some err, c)
                     | (None, c) \<Rightarrow>
                         (case fastPersist E now evt f (emitAck E evt True ''applied'' []
                                 (if existing = None then ''applied_provisional'' else ''applied_provisional_reapply'') now c) of
                            (Some e, c) \<Rightarrow> (Some (EStore e), c)
                          | (None, c) \<Rightarrow> (None, c)))))"


text \<open>The handler of the fast topic: what does not verify is reported to the reject sink, whose outcome is only logged.\<close>

definition FastHandler_HandleMessage :: "ctlEnv \<Rightarrow> instant \<Rightarrow> kafkaMessage \<Rightarrow> ctlState \<Rightarrow> ctl_error option \<times> ctlState" where
  "FastHandler_HandleMessage E now msg c =
     (case VerifyAndParseFast (ce_lib E) (ce_keys E) (km_Value msg) of
        Inl _ \<Rightarrow> (None, c)
      | Inr evt \<Rightarrow> HandleFastEvent E now evt c)"

end
