(* ===== verification/AgentSafety.thy ===== *)
theory AgentSafety
  imports AgentController
begin

text \<open>
  What the controller of the enforcement agent guarantees, and what it does not: which policies reach
  the enforcement backend, what the kill switch stops, how often a policy is tried, when a repeated
  message is ignored. The state the backend sees is the trace of calls in \<open>ct_out\<close>.
\<close>

fun dataplane :: "effect \<Rightarrow> bool" where
  "dataplane (DidApply spec) = True"
| "dataplane (FailedApply spec) = True"
| "dataplane (DidRemove i) = True"
| "dataplane (FailedRemove i) = True"
| "dataplane (SentAck i r code) = False"
| "dataplane (SentReject e) = False"

definition plane :: "ctlState \<Rightarrow> effect list" where
  "plane c = filter dataplane (ct_out c)"

subsection \<open>Steps that do not reach the backend\<close>

lemma plane_emitAck [frame_simps]:
  "plane (emitAck E evt req res code reason t c) = plane c" "ct_compactor (emitAck E evt req res code reason t c) = ct_compactor c"
  "ct_seenHashes (emitAck E evt req res code reason t c) = ct_seenHashes c"
  "ct_store (emitAck E evt req res code reason t c) = ct_store c"
  "ct_rate (emitAck E evt req res code reason t c) = ct_rate c" "ct_calls (emitAck E evt req res code reason t c) = ct_calls c"
  "ct_replaySeen (emitAck E evt req res code reason t c) = ct_replaySeen c"
  "ct_pending (emitAck E evt req res code reason t c) = ct_pending c"
  by (simp_all add: emitAck_def Let_def plane_def)

lemma plane_ack [frame_simps]:
  "plane (ack E x res code reason t c) = plane c" "ct_compactor (ack E x res code reason t c) = ct_compactor c"
  "ct_seenHashes (ack E x res code reason t c) = ct_seenHashes c" "ct_store (ack E x res code reason t c) = ct_store c"
  "ct_replaySeen (ack E x res code reason t c) = ct_replaySeen c" "ct_rate (ack E x res code reason t c) = ct_rate c"
  "ct_pending (ack E x res code reason t c) = ct_pending c"
  by (simp_all add: ack_def frame_simps)

lemma plane_reject [frame_simps]:
  "plane (snd (publishCommandReject E m why c)) = plane c"
  "ct_compactor (snd (publishCommandReject E m why c)) = ct_compactor c"
  "ct_seenHashes (snd (publishCommandReject E m why c)) = ct_seenHashes c"
  "ct_replaySeen (snd (publishCommandReject E m why c)) = ct_replaySeen c"
  "ct_store (snd (publishCommandReject E m why c)) = ct_store c"
  by (simp_all add: publishCommandReject_def plane_def split: option.split)

lemma reject_run:
  assumes "publishCommandReject E m why c = (r, c')"
  shows "plane c' = plane c" "ct_compactor c' = ct_compactor c" "ct_seenHashes c' = ct_seenHashes c"
    "ct_replaySeen c' = ct_replaySeen c" "ct_store c' = ct_store c"
  using plane_reject [of E m why c] by (simp_all add: assms)

lemma plane_update [simp]:
  "plane (c\<lparr>ct_replaySeen := a\<rparr>) = plane c" "plane (c\<lparr>ct_store := s\<rparr>) = plane c" "plane (c\<lparr>ct_rate := w\<rparr>) = plane c"
  "plane (c\<lparr>ct_seenHashes := h\<rparr>) = plane c" "plane (c\<lparr>ct_compactor := k\<rparr>) = plane c" "plane (c\<lparr>ct_pending := p\<rparr>) = plane c"
  "plane (c\<lparr>ct_store := s, ct_pending := p\<rparr>) = plane c" "plane (c\<lparr>ct_pending := p, ct_store := s\<rparr>) = plane c"
  "plane (c\<lparr>ct_streak := n\<rparr>) = plane c" "plane (c\<lparr>ct_breakerUntil := t\<rparr>) = plane c" "plane (c\<lparr>ct_breakerUntil := t, ct_streak := n\<rparr>) = plane c"
  by (simp_all add: plane_def)

lemma plane_commit [frame_simps]:
  "plane (rememberReplayKey E now x c) = plane c" "plane (commitDuplicateFingerprint evt c) = plane c"
  "plane (commitEvent E now x c) = plane c" "plane (clearPendingApproval E now k c) = plane c"
  "plane (clearIfApproved E now x c) = plane c" "plane (compactedNoop E now x c) = plane c"
  "plane (savePendingApproval E now x c) = plane c" "plane (releaseHeld E rs c) = plane c"
  "plane (recordApplyTimeoutOutcome cfg now b c) = plane c"
  by (simp_all add: rememberReplayKey_def commitDuplicateFingerprint_def commitEvent_def clearPendingApproval_def
    clearIfApproved_def compactedNoop_def savePendingApproval_def releaseHeld_def recordApplyTimeoutOutcome_def
    Let_def frame_simps split: option.split)

lemma shouldCompact_frame [frame_simps]:
  "plane (snd (shouldCompactEvent E now x c)) = plane c" "ct_store (snd (shouldCompactEvent E now x c)) = ct_store c"
  "ct_seenHashes (snd (shouldCompactEvent E now x c)) = ct_seenHashes c"
  by (simp_all add: shouldCompactEvent_def split: option.split prod.split)

lemma shouldCompact_run:
  assumes "shouldCompactEvent E now x c = (b, c')"
  shows "plane c' = plane c" "ct_store c' = ct_store c" "ct_seenHashes c' = ct_seenHashes c"
  using shouldCompact_frame [of E now x c] by (simp_all add: assms)

lemma laneGate_plane:
  "case laneGate E now m x c of Inl r \<Rightarrow> plane (snd r) = plane c | Inr c' \<Rightarrow> plane c' = plane c"
  by (auto simp: laneGate_def Let_def frame_simps shouldCompact_run split: prod.splits bool.splits)

subsection \<open>What a handler sends to the backend\<close>

text \<open>\<open>tries spec c c'\<close>: between \<open>c\<close> and \<open>c'\<close> the backend was asked to apply \<open>spec\<close>, or not at all.\<close>

definition tries :: "policySpec \<Rightarrow> ctlState \<Rightarrow> ctlState \<Rightarrow> bool" where
  "tries spec c c' \<longleftrightarrow> (\<exists>es. plane c' = plane c @ es \<and> set es \<subseteq> {DidApply spec, FailedApply spec})"

lemma tries_same: "plane c' = plane c \<Longrightarrow> tries spec c c'"
  by (simp add: tries_def)

lemma tries_same': "plane c' = plane c'' \<Longrightarrow> tries spec c c' = tries spec c c''" "plane c' = plane c'' \<Longrightarrow> tries spec c' c = tries spec c'' c"
  by (simp_all add: tries_def)

lemma tries_trans: "tries spec a b \<Longrightarrow> tries spec b c \<Longrightarrow> tries spec a c"
  by (auto simp: tries_def)

lemma tries_tryApply: "tryApply E spec c = (r, c') \<Longrightarrow> tries spec c c'"
  by (auto simp: tryApply_def Let_def tries_def plane_def)

lemma tries_applyLoop: "tries spec c (snd (applyLoop E spec n a b c))"
proof (induction n arbitrary: a b c)
  case (Suc n)
  obtain r c' where t: "tryApply E spec c = (r, c')" by (cases "tryApply E spec c")
  show ?case
    using tries_tryApply [OF t] Suc [of c' "a + 1" "nextBackoff (ce_cfg E) b"]
    by (auto simp: t tries_same split: option.split waitOutcome.split intro: tries_trans)
qed (simp add: tries_same)

lemma tries_terminal: "tries (pe_Spec evt) c (snd (applyWithTerminalHandling E m evt req now c))"
proof (cases "isApplyTimeoutBreakerOpen (ce_cfg E) now c")
  case True
  then show ?thesis by (simp add: applyWithTerminalHandling_def tries_same frame_simps)
next
  case False
  obtain e n x c' where run: "applyWithRetries E (pe_Spec evt) c = ((e, n, x), c')" by (metis prod_cases3 surj_pair)
  then have tried: "tries (pe_Spec evt) c c'" using tries_applyLoop by (metis applyWithRetries_def snd_conv)
  have "plane (snd (applyWithTerminalHandling E m evt req now c)) = plane c'"
  proof (cases e)
    case None
    then show ?thesis using False run by (simp add: applyWithTerminalHandling_def frame_simps)
  next
    case (Some e')
    then show ?thesis using False run
      by (auto simp: applyWithTerminalHandling_def Let_def frame_simps dest!: reject_run(1) split: option.split prod.split)
  qed
  then show ?thesis using tried tries_same' by blast
qed


definition passes_guardrails :: "ctlEnv \<Rightarrow> instant \<Rightarrow> ctlState \<Rightarrow> policySpec \<Rightarrow> bool" where
  "passes_guardrails E now c spec \<longleftrightarrow>
     (\<exists>rs w. checkGuardrails (ce_net E) (ce_rate E) (ce_sha E) (ct_store c) spec now (ct_rate c) = (Inr rs, w))"

definition sanctioned :: "ctlEnv \<Rightarrow> instant \<Rightarrow> ctlState \<Rightarrow> ctlState \<Rightarrow> bool" where
  "sanctioned E now c c' \<longleftrightarrow> plane c' = plane c
     \<or> (\<exists>i r. plane c' = plane c @ [r] \<and> r \<in> {DidRemove i, FailedRemove i})
     \<or> (\<exists>spec. tries spec c c' \<and> passes_guardrails E now c spec)"

lemma sanctioned_same: "plane c' = plane c \<Longrightarrow> sanctioned E now c c'"
  by (simp add: sanctioned_def)

lemma laneGate_Inl: "laneGate E now m x c = Inl r \<Longrightarrow> plane (snd r) = plane c"
  and laneGate_Inr: "laneGate E now m x c = Inr c' \<Longrightarrow> plane c' = plane c"
  using laneGate_plane [where E = E and now = now and m = m and x = x and c = c] by simp_all

lemma handleRefresh_plane: "plane (snd (handleRefresh E now x promoted rs c)) = plane c"
proof (cases "laneGate E now True x c")
  case (Inl r)
  then show ?thesis using laneGate_Inl [OF Inl] by (cases r) (simp add: handleRefresh_def frame_simps)
next
  case (Inr c1)
  then show ?thesis using laneGate_Inr [OF Inr]
    by (cases "store_Upsert (ce_io E) (hx_spec x) now now (ct_store c1)")
      (simp add: handleRefresh_def frame_simps split: option.split)
qed

lemma handleEnforce_tries: "tries (hx_spec x) c (snd (handleEnforce E now x promoted reason rs c))"
proof (cases "laneGate E now False x c")
  case (Inl r)
  then show ?thesis using laneGate_Inl [OF Inl] by (cases r) (simp add: handleEnforce_def tries_same frame_simps)
next
  case (Inr c1)
  obtain r c2 where run: "applyWithTerminalHandling E True (hx_evt x) (hx_ack x) now c1 = (r, c2)"
    by (cases "applyWithTerminalHandling E True (hx_evt x) (hx_ack x) now c1")
  have "tries (hx_spec x) c1 c2"
    using tries_terminal [of "hx_evt x" c1 E True "hx_ack x" now] by (simp add: run)
  moreover have "plane (snd (handleEnforce E now x promoted reason rs c)) = plane c2"
    using Inr run by (simp add: handleEnforce_def Let_def frame_simps split: option.split)
  ultimately show ?thesis using laneGate_Inr [OF Inr] by (auto simp: tries_def)
qed

lemma acceptedAck_plane [frame_simps]: "plane (acceptedAck E now x c) = plane c"
  by (simp add: acceptedAck_def frame_simps)

lemma handleAccepted_tries: "tries (hx_spec x) c (snd (handleAccepted E now x rs c))"
  by (simp add: handleAccepted_def Let_def handleEnforce_tries tries_same [OF handleRefresh_plane] split: option.split)

lemma handleApply_sanctioned: "sanctioned E now c (snd (handleApply E now x c))"
proof (cases "checkGuardrails (ce_net E) (ce_rate E) (ce_sha E) (ct_store c) (hx_spec x) now (ct_rate c)")
  case (Pair r w)
  show ?thesis
  proof (cases r)
    case (Inl why)
    then show ?thesis using Pair by (simp add: handleApply_def sanctioned_same frame_simps)
  next
    case (Inr rs)
    have "plane (acceptedAck E now x (c\<lparr>ct_rate := w\<rparr>)) = plane c" by (simp add: frame_simps)
    then have "tries (hx_spec x) c (snd (handleApply E now x c))"
      using handleAccepted_tries [of x "acceptedAck E now x (c\<lparr>ct_rate := w\<rparr>)" E now rs] Pair Inr
      by (simp add: handleApply_def tries_def)
    moreover have "passes_guardrails E now c (hx_spec x)" using Pair Inr by (auto simp: passes_guardrails_def)
    ultimately show ?thesis unfolding sanctioned_def by blast
  qed
qed

lemma handleRemove_sanctioned: "sanctioned E now c (snd (handleRemove E now x c))"
proof (cases "laneGate E now False x c")
  case (Inl r)
  then show ?thesis using laneGate_Inl [OF Inl] by (simp add: handleRemove_def sanctioned_same)
next
  case (Inr c1)
  let ?i = "sp_ID (hx_spec x)" and ?r = "ce_remove E (ct_calls c1) (sp_ID (hx_spec x))"
  have "plane (snd (handleRemove E now x c)) = plane c1 @ [if ?r = None then DidRemove ?i else FailedRemove ?i]"
    using Inr by (simp add: handleRemove_def Let_def frame_simps split: option.split) (auto simp: plane_def)
  then show ?thesis using laneGate_Inr [OF Inr] by (auto simp: sanctioned_def)
qed

lemma handleDecided_sanctioned: "sanctioned E now c (snd (handleDecided E now x c))"
  by (simp add: handleDecided_def handleApply_sanctioned handleRemove_sanctioned sanctioned_same frame_simps)

lemma handleApproval_sanctioned: "sanctioned E now c (snd (handleApproval E now x c))"
  by (simp add: handleApproval_def Let_def handleDecided_sanctioned sanctioned_same frame_simps split: option.split)

lemma sanctioned_replay: "sanctioned E now (c\<lparr>ct_replaySeen := m\<rparr>) c' = sanctioned E now c c'"
  by (simp add: sanctioned_def passes_guardrails_def tries_def)

lemma replayRefused_plane [frame_simps]: "plane (snd (replayRefused E now x why c)) = plane c"
proof -
  define r where "r = (if why \<in> {''replay_invalid_timestamp'', ''replay_future_timestamp''}
    then publishCommandReject E True (EReplay why) c else (None, c))"
  have "plane (snd r) = plane c" by (simp add: r_def plane_reject(1))
  then show ?thesis
    unfolding replayRefused_def r_def [symmetric] by (cases r) (simp add: frame_simps split: option.split)
qed

lemma handleFresh_plane:
  "plane (snd (handleFresh E now x c)) = plane c
    \<or> \<not> ct_kill c \<and> plane (snd (handleFresh E now x c)) = plane (snd (handleApproval E now x c))"
proof (cases "publishCommandReject E True EExpired c")
  case (Pair r c1)
  then have "plane c1 = plane c" by (rule reject_run(1))
  then show ?thesis using Pair by (simp add: handleFresh_def frame_simps split: option.split)
qed

lemma sanctioned_cong: "plane c' = plane c'' \<Longrightarrow> sanctioned E now c c' = sanctioned E now c c''"
  by (simp add: sanctioned_def tries_def)

lemma handleFresh_sanctioned: "sanctioned E now c (snd (handleFresh E now x c))"
  using handleFresh_plane [of E now x c] handleApproval_sanctioned [of E now c x] sanctioned_same sanctioned_cong by metis

lemma handleVerified_sanctioned: "sanctioned E now c (snd (handleVerified E now evt req c))"
proof -
  obtain why key seen where r: "checkReplay (cc_replay (ce_cfg E)) evt now (ct_replaySeen c) = ((why, key), seen)"
    by (metis surj_pair)
  show ?thesis
    using handleFresh_sanctioned [of E now "c\<lparr>ct_replaySeen := seen\<rparr>" "handlingOf evt req key"]
    by (simp add: handleVerified_def r sanctioned_replay sanctioned_same frame_simps)
qed

lemma HandleMessage_sanctioned:
  "sanctioned E now c (snd (HandleMessage E now msg c))"
  by (simp add: HandleMessage_def handleVerified_sanctioned sanctioned_same frame_simps split: option.split sum.split)


lemma handleVerified_killed: "ct_kill c \<Longrightarrow> plane (snd (handleVerified E now evt req c)) = plane c"
  using handleFresh_plane [of E now _ "c\<lparr>ct_replaySeen := _\<rparr>"]
  by (simp add: handleVerified_def frame_simps split: prod.split)

text \<open>
  C12. The kill switch stops enforcement: while it is on, neither a policy message nor a fast mitigation
  makes the agent ask anything of the backend.
\<close>

theorem kill_switch_stops:
  assumes "ct_kill c"
  shows "plane (snd (HandleMessage E now msg c)) = plane c \<and> plane (snd (FastHandler_HandleMessage E now msg c)) = plane c"
  using assms
  by (auto simp: HandleMessage_def FastHandler_HandleMessage_def HandleFastEvent_def handleVerified_killed Let_def frame_simps split: option.split sum.split prod.split)


subsection \<open>Retries\<close>

text \<open>
  The backend is tried at most once more than the configured number of retries, failures come first,
  and the loop reports success exactly when its last call succeeded.
\<close>

lemma applyLoop_calls:
  "0 < n \<Longrightarrow> \<exists>k. k \<le> n \<and> ct_calls (snd (applyLoop E spec n a b c)) = ct_calls c + k
    \<and> plane (snd (applyLoop E spec n a b c)) = plane c @
        (if fst (fst (applyLoop E spec n a b c)) = None then replicate (k - 1) (FailedApply spec) @ [DidApply spec]
         else replicate k (FailedApply spec))
    \<and> (fst (fst (applyLoop E spec n a b c)) = None \<longrightarrow> 0 < k)"
proof (induction n arbitrary: a b c)
  case (Suc n)
  let ?r = "ce_apply E (ct_calls c) spec"
  let ?c = "c\<lparr>ct_calls := ct_calls c + 1, ct_out := ct_out c @ [if ?r = None then DidApply spec else FailedApply spec]\<rparr>"
  have t: "tryApply E spec c = (?r, ?c)" by (simp add: tryApply_def Let_def)
  have p: "plane ?c = plane c @ [if ?r = None then DidApply spec else FailedApply spec]" by (simp add: plane_def)
  show ?case
  proof (cases "\<exists>e. ?r = Some e \<and> \<not> ce_canceled E (ct_calls c) \<and> applyErrorClass e \<in> {ClassTimeout, ClassTransient} \<and> n \<noteq> 0
      \<and> ce_wait E (ct_calls ?c) (jitteredBackoff (ce_cfg E) (ce_rand E (ct_calls ?c)) b) = WaitDone")
    case True
    then have step: "applyLoop E spec (Suc n) a b c = applyLoop E spec n (a + 1) (nextBackoff (ce_cfg E) b) ?c"
      by (auto simp: t)
    obtain k where "k \<le> n" "ct_calls (snd (applyLoop E spec n (a + 1) (nextBackoff (ce_cfg E) b) ?c)) = ct_calls ?c + k"
      "plane (snd (applyLoop E spec n (a + 1) (nextBackoff (ce_cfg E) b) ?c)) = plane ?c @
        (if fst (fst (applyLoop E spec n (a + 1) (nextBackoff (ce_cfg E) b) ?c)) = None
         then replicate (k - 1) (FailedApply spec) @ [DidApply spec] else replicate k (FailedApply spec))"
      "fst (fst (applyLoop E spec n (a + 1) (nextBackoff (ce_cfg E) b) ?c)) = None \<longrightarrow> 0 < k"
      using Suc.IH [of "a + 1" "nextBackoff (ce_cfg E) b" ?c] True by auto
    then show ?thesis unfolding step p using True
      by (intro exI [of _ "Suc k"]) (auto simp: gr0_conv_Suc)
  next
    case False
    show ?thesis
    proof (cases "ce_canceled E (ct_calls c)")
      case True
      then show ?thesis by (intro exI [of _ 0]) simp
    next
      case not_canceled: False
      then have "snd (applyLoop E spec (Suc n) a b c) = ?c \<and> (fst (fst (applyLoop E spec (Suc n) a b c)) = None \<longleftrightarrow> ?r = None)"
        using False by (cases ?r) (auto simp: t split: waitOutcome.split)
      then show ?thesis using p by (intro exI [of _ 1]) auto
    qed
  qed
qed simp

text \<open>
  Applying is bounded: between one and the configured number of attempts plus one reach the backend,
  the failures before the success, and the result is a success exactly when the last call was.
\<close>

theorem apply_attempts_bounded:
  assumes "applyWithRetries E spec c = ((r, attempts, exhausted), c')"
  shows "\<exists>k. int k \<le> max 1 (cc_retryMax (ce_cfg E) + 1) \<and> ct_calls c' = ct_calls c + k
    \<and> (case r of
         None \<Rightarrow> 0 < k \<and> plane c' = plane c @ replicate (k - 1) (FailedApply spec) @ [DidApply spec]
       | Some e \<Rightarrow> plane c' = plane c @ replicate k (FailedApply spec))"
proof -
  let ?n = "nat (max 1 (cc_retryMax (ce_cfg E) + 1))"
  have run: "applyLoop E spec ?n 1 (cc_retryBase (ce_cfg E)) c = ((r, attempts, exhausted), c')"
    using assms by (simp add: applyWithRetries_def)
  have "0 < ?n" by simp
  from applyLoop_calls [OF this, of E spec 1 "cc_retryBase (ce_cfg E)" c]
  obtain k where "k \<le> ?n" "ct_calls c' = ct_calls c + k" "r = None \<longrightarrow> 0 < k"
    "plane c' = plane c @ (if r = None then replicate (k - 1) (FailedApply spec) @ [DidApply spec] else replicate k (FailedApply spec))"
    unfolding run fst_conv snd_conv by (elim exE conjE)
  then show ?thesis by (intro exI [of _ k]) (auto split: option.split)
qed

text \<open>The wait between attempts lies between zero and the cap.\<close>

lemma jitteredBackoff_bounds:
  "0 < cc_retryCap cfg \<Longrightarrow> 0 \<le> jitteredBackoff cfg rnd base \<and> jitteredBackoff cfg rnd base \<le> cc_retryCap cfg"
  by (simp add: jitteredBackoff_def Let_def)

lemma nextBackoff_bounds:
  "0 < b \<Longrightarrow> b \<le> cc_retryCap cfg \<Longrightarrow> b \<le> nextBackoff cfg b \<and> nextBackoff cfg b \<le> cc_retryCap cfg"
  by (simp add: nextBackoff_def)

lemma applyLoop_overcomes:
  "m < n \<Longrightarrow> (\<And>j. j < m \<Longrightarrow> \<exists>e. ce_apply E (ct_calls c + j) spec = Some e \<and> applyErrorClass e \<in> {ClassTimeout, ClassTransient})
    \<Longrightarrow> ce_apply E (ct_calls c + m) spec = None \<Longrightarrow> (\<And>k. \<not> ce_canceled E k) \<Longrightarrow> (\<And>k d. ce_wait E k d = WaitDone)
    \<Longrightarrow> fst (applyLoop E spec n a b c) = (None, a + int m, False)"
proof (induction m arbitrary: n a b c)
  case 0
  then show ?case by (cases n) (simp_all add: tryApply_def)
next
  case (Suc m)
  obtain n' where n: "n = Suc n'" using Suc.prems(1) by (cases n) auto
  let ?c = "c\<lparr>ct_calls := ct_calls c + 1, ct_out := ct_out c @ [FailedApply spec]\<rparr>"
  obtain e where e: "ce_apply E (ct_calls c) spec = Some e" "applyErrorClass e \<in> {ClassTimeout, ClassTransient}"
    using Suc.prems(2) [of 0] by auto
  have "fst (applyLoop E spec n' (a + 1) (nextBackoff (ce_cfg E) b) ?c) = (None, a + 1 + int m, False)"
    using Suc.prems(1,3-) Suc.prems(2) [of "Suc _"] by (intro Suc.IH) (auto simp: n)
  then show ?case using e Suc.prems(1,4,5) by (auto simp: n tryApply_def)
qed

text \<open>
  C29. Failures that may pass are overcome: when the backend fails with timeouts or transient errors fewer
  times than there are retries and then succeeds, and nothing cancels the waiting, the policy is
  applied, at the attempt after the failures.
\<close>

theorem transient_failures_overcome:
  assumes "int m \<le> cc_retryMax (ce_cfg E)"
    and "\<forall>j < m. \<exists>e. ce_apply E (ct_calls c + j) spec = Some e \<and> applyErrorClass e \<in> {ClassTimeout, ClassTransient}"
    and "ce_apply E (ct_calls c + m) spec = None" and "\<forall>k. \<not> ce_canceled E k" and "\<forall>k d. ce_wait E k d = WaitDone"
  shows "fst (applyWithRetries E spec c) = (None, 1 + int m, False)"
  unfolding applyWithRetries_def using assms by (intro applyLoop_overcomes) auto


subsection \<open>A retried policy is dropped by the compactor\<close>

lemma compactor_update [simp]:
  "ct_compactor (recordApplyTimeoutOutcome cfg now b c) = ct_compactor c" "ct_compactor (releaseHeld E rs c) = ct_compactor c"
  "ct_compactor (acceptedAck E now x c) = ct_compactor c"
  by (simp_all add: recordApplyTimeoutOutcome_def releaseHeld_def acceptedAck_def frame_simps)

lemma applyLoop_compactor: "ct_compactor (snd (applyLoop E spec n a b c)) = ct_compactor c"
proof (induction n arbitrary: a b c)
  case (Suc n)
  obtain r c' where t: "tryApply E spec c = (r, c')" by (cases "tryApply E spec c")
  then have "ct_compactor c' = ct_compactor c" by (auto simp: tryApply_def Let_def)
  then show ?case using Suc t by (simp split: option.split waitOutcome.split)
qed simp

lemma terminal_compactor: "ct_compactor (snd (applyWithTerminalHandling E m evt req now c)) = ct_compactor c"
proof (cases "applyWithRetries E (pe_Spec evt) c")
  case (Pair r c')
  obtain e n x where r: "r = (e, n, x)" by (cases r)
  have same: "ct_compactor c' = ct_compactor c"
    using applyLoop_compactor Pair by (metis applyWithRetries_def snd_conv)
  show ?thesis
  proof (cases e)
    case None
    then show ?thesis using Pair r same by (simp add: applyWithTerminalHandling_def frame_simps)
  next
    case (Some e')
    then show ?thesis using Pair r same
      by (auto simp: applyWithTerminalHandling_def Let_def frame_simps dest!: reject_run(2) split: option.split prod.split)
  qed
qed

definition superseded_at :: "instant \<Rightarrow> handling \<Rightarrow> ctlState \<Rightarrow> bool" where
  "superseded_at t x c \<longleftrightarrow> gm_wf (ct_compactor c) \<and> (\<exists>a. map_of (ct_compactor c) (compactionKey (hx_spec x)) = Some (t, a))"

lemma laneGate_records:
  assumes "cc_compaction (ce_cfg E) = Some w" and "hx_ts x = Some t" and "t \<noteq> zeroTime" and "gm_wf (ct_compactor c)"
  shows "laneGate E now m x c = Inr c' \<Longrightarrow> superseded_at t x c'"
    and "laneGate E now m x c = Inl (Some e, c') \<Longrightarrow> superseded_at t x c'"
  using assms
  by (auto simp: laneGate_def shouldCompactEvent_def compactor_Observe_def compactor_prune_def superseded_at_def Let_def frame_simps
    split: option.splits prod.splits if_splits)

lemma laneGate_drops:
  assumes "cc_compaction (ce_cfg E) = Some w" and "hx_ts x = Some t" and "superseded_at t x c" and "now - w \<le> t"
    and "t \<noteq> zeroTime"
  shows "\<exists>c'. laneGate E now m x c = Inl (None, c')"
proof -
  obtain a where a: "map_of (ct_compactor c) (compactionKey (hx_spec x)) = Some (t, a)"
    using assms(3) by (auto simp: superseded_at_def)
  then have "map_of (compactor_prune w now (ct_compactor c)) (compactionKey (hx_spec x)) = Some (t, a)"
    using assms(3,4) by (simp add: compactor_prune_def map_of_filter_wf superseded_at_def)
  then have "fst (shouldCompactEvent E now x c)"
    using assms(1,2,5) by (simp add: shouldCompactEvent_def compactor_Observe_def Let_def)
  then show ?thesis by (cases "shouldCompactEvent E now x c") (simp add: laneGate_def Let_def)
qed

lemma failed_records:
  assumes "cc_compaction (ce_cfg E) = Some w" and "hx_ts x = Some t" and "t \<noteq> zeroTime" and "gm_wf (ct_compactor c)"
  shows "handleRemove E now x c = (Some e, c') \<Longrightarrow> superseded_at t x c'"
    and "handleRefresh E now x p rs c = (Some e, c') \<Longrightarrow> superseded_at t x c'"
    and "handleEnforce E now x p reason rs c = (Some e, c') \<Longrightarrow> superseded_at t x c'"
proof -
  note gate = laneGate_records [OF assms]
  have same: "superseded_at t x c1 = superseded_at t x c2" if "ct_compactor c1 = ct_compactor c2" for c1 c2
    using that by (simp add: superseded_at_def)
  show "superseded_at t x c'" if run: "handleRemove E now x c = (Some e, c')"
  proof (cases "laneGate E now False x c")
    case (Inl r)
    then show ?thesis using gate(2) run by (simp add: handleRemove_def)
  next
    case (Inr c1)
    then have "ct_compactor c' = ct_compactor c1"
      using run by (auto simp: handleRemove_def Let_def frame_simps split: option.splits)
    then show ?thesis using gate(1) [OF Inr] same by blast
  qed
  show "superseded_at t x c'" if run: "handleRefresh E now x p rs c = (Some e, c')"
  proof (cases "laneGate E now True x c")
    case (Inl r)
    then obtain c1 where "laneGate E now True x c = Inl (Some e, c1)" "c' = releaseHeld E rs c1"
      using run by (cases r) (simp add: handleRefresh_def)
    then show ?thesis using gate(2) same [of c' c1] by simp
  next
    case (Inr c1)
    then have "ct_compactor c' = ct_compactor c1"
      using run by (auto simp: handleRefresh_def Let_def frame_simps split: option.splits prod.splits)
    then show ?thesis using gate(1) [OF Inr] same by blast
  qed
  show "superseded_at t x c'" if run: "handleEnforce E now x p reason rs c = (Some e, c')"
  proof (cases "laneGate E now False x c")
    case (Inl r)
    then obtain c1 where "laneGate E now False x c = Inl (Some e, c1)" "c' = releaseHeld E rs c1"
      using run by (cases r) (simp add: handleEnforce_def)
    then show ?thesis using gate(2) same [of c' c1] by simp
  next
    case (Inr c1)
    obtain r c2 where ran: "applyWithTerminalHandling E True (hx_evt x) (hx_ack x) now c1 = (r, c2)"
      by (cases "applyWithTerminalHandling E True (hx_evt x) (hx_ack x) now c1")
    have "ct_compactor c2 = ct_compactor c1"
      using terminal_compactor [of E True "hx_evt x" "hx_ack x" now c1] by (simp add: ran)
    moreover have "ct_compactor c' = ct_compactor c2"
      using run Inr ran by (auto simp: handleEnforce_def Let_def split: option.splits)
    ultimately show ?thesis using gate(1) [OF Inr] same by metis
  qed
qed

lemma accepted_records:
  assumes "cc_compaction (ce_cfg E) = Some w" and "hx_ts x = Some t" and "t \<noteq> zeroTime" and "gm_wf (ct_compactor c)"
    and "handleAccepted E now x rs c = (Some e, c')"
  shows "superseded_at t x c'"
  using assms(5) failed_records(2,3) [OF assms(1-4)]
  by (auto simp: handleAccepted_def Let_def split: option.splits if_splits)

lemma decided_records:
  assumes "cc_compaction (ce_cfg E) = Some w" and "hx_ts x = Some t" and "t \<noteq> zeroTime" and "gm_wf (ct_compactor c)"
    and run: "handleDecided E now x c = (Some e, c')"
  shows "superseded_at t x c'"
proof (cases "isRemoveAction (hx_evt x)")
  case True
  then show ?thesis using run failed_records(1) [OF assms(1-4)] by (simp add: handleDecided_def split: if_splits)
next
  case False
  obtain r v where g: "checkGuardrails (ce_net E) (ce_rate E) (ce_sha E) (ct_store c) (hx_spec x) now (ct_rate c) = (r, v)"
    by (metis surj_pair)
  have applied: "handleApply E now x c = (Some e, c')" using run False by (simp add: handleDecided_def split: if_splits)
  then obtain rs where "r = Inr rs" "handleAccepted E now x rs (acceptedAck E now x (c\<lparr>ct_rate := v\<rparr>)) = (Some e, c')"
    using g by (cases r) (simp_all add: handleApply_def)
  then show ?thesis using accepted_records [OF assms(1-3), of "acceptedAck E now x (c\<lparr>ct_rate := v\<rparr>)"] assms(4) by simp
qed

text \<open>
  A retried policy is dropped. With lifecycle compaction on, a handler that fails after the
  compactor saw the event returns an error. The message may be sent or delivered again; but the event is
  in the compactor then, and its own timestamp is not newer. The second delivery, within the window
  of the compactor, is acknowledged without a call to the backend.
\<close>

theorem retried_policy_dropped:
  assumes "cc_compaction (ce_cfg E) = Some w" and "hx_ts x = Some t" and "t \<noteq> zeroTime" and "gm_wf (ct_compactor c)"
    and "handleDecided E now x c = (Some err, c')" and "later - w \<le> t"
  shows "fst (handleDecided E later x c') = None \<and> plane (snd (handleDecided E later x c')) = plane c'"
proof -
  have sup: "superseded_at t x c'" by (rule decided_records [OF assms(1-5)])
  have gate: "\<exists>c2. laneGate E later m x c1 = Inl (None, c2) \<and> plane c2 = plane c'"
    if "ct_compactor c1 = ct_compactor c'" "plane c1 = plane c'" for c1 m
    using laneGate_drops [OF assms(1,2) _ assms(6,3), of c1 m] sup that laneGate_Inl by (fastforce simp: superseded_at_def)
  have remove: "fst (handleRemove E later x c') = None \<and> plane (snd (handleRemove E later x c')) = plane c'"
    using gate [of c' False] by (auto simp: handleRemove_def)
  have accepted: "fst (handleAccepted E later x rs c1) = None \<and> plane (snd (handleAccepted E later x rs c1)) = plane c'"
    if "ct_compactor c1 = ct_compactor c'" "plane c1 = plane c'" for c1 rs
    using gate [OF that, of True] gate [OF that, of False]
    by (auto simp: handleAccepted_def handleRefresh_def handleEnforce_def Let_def frame_simps split: option.split)
  show ?thesis
    using remove accepted [of "acceptedAck E later x (c'\<lparr>ct_rate := _\<rparr>)"]
    by (auto simp: handleDecided_def handleApply_def frame_simps split: prod.split sum.split)
qed


subsection \<open>Redelivery\<close>

lemma seen_commit [frame_simps]:
  "ct_seenHashes (rememberReplayKey E now x c) = ct_seenHashes c" "ct_seenHashes (clearIfApproved E now x c) = ct_seenHashes c"
  "ct_seenHashes (commitEvent E now x c) = AList.update (approvalKey (hx_spec x)) (duplicateFingerprint (hx_evt x)) (ct_seenHashes c)"
  by (simp_all add: rememberReplayKey_def clearIfApproved_def clearPendingApproval_def commitEvent_def
    commitDuplicateFingerprint_def Let_def split: option.split)

text \<open>An event is settled when its fingerprint is kept and no approval for it is waiting.\<close>

definition eventSettled :: "handling \<Rightarrow> ctlState \<Rightarrow> bool" where
  "eventSettled x c \<longleftrightarrow> isDuplicate (hx_evt x) c \<and> (hx_approved x \<longrightarrow> map_of (ct_pending c) (hx_pendingKey x) = None)"

lemma settled_commit: "eventSettled x (clearIfApproved E now x (commitEvent E now' x c))"
    "eventSettled x (clearIfApproved E now x (ack E x a b d t (commitEvent E now' x c)))"
  by (simp_all add: eventSettled_def isDuplicate_def frame_simps update_conv' delete_conv' clearIfApproved_def clearPendingApproval_def)

lemma enforce_settles:
  assumes "handleEnforce E now x p reason rs c = (None, c1)" and "plane c1 \<noteq> plane c"
  shows "eventSettled x c1"
proof (cases "laneGate E now False x c")
  case (Inl r)
  then show ?thesis using assms laneGate_Inl [OF Inl] by (cases r) (auto simp: handleEnforce_def frame_simps)
next
  case (Inr c2)
  then show ?thesis using assms(1) settled_commit(1) by (auto simp: handleEnforce_def Let_def split: prod.splits option.splits)
qed

lemma remove_settles:
  assumes "handleRemove E now x c = (None, c1)" and "plane c1 \<noteq> plane c"
  shows "eventSettled x c1"
proof (cases "laneGate E now False x c")
  case (Inl r)
  then show ?thesis using assms laneGate_Inl [OF Inl] by (auto simp: handleRemove_def)
next
  case (Inr c2)
  then show ?thesis using assms(1) settled_commit(1) by (auto simp: handleRemove_def Let_def split: option.splits)
qed

lemma accepted_settles:
  assumes "handleAccepted E now x rs c = (None, c1)" and "plane c1 \<noteq> plane c"
  shows "eventSettled x c1"
  using assms handleRefresh_plane enforce_settles
  by (auto simp: handleAccepted_def Let_def split: option.splits if_splits) (metis snd_conv)

lemma decided_settles:
  assumes "handleDecided E now x c = (None, c1)" and "plane c1 \<noteq> plane c"
  shows "eventSettled x c1"
proof (cases "isDuplicate (hx_evt x) c")
  case True
  then show ?thesis using assms by (auto simp: handleDecided_def frame_simps)
next
  case False
  obtain r v where g: "checkGuardrails (ce_net E) (ce_rate E) (ce_sha E) (ct_store c) (hx_spec x) now (ct_rate c) = (r, v)"
    by (metis surj_pair)
  show ?thesis
  proof (cases "isRemoveAction (hx_evt x)")
    case True
    then show ?thesis using False assms remove_settles by (simp add: handleDecided_def)
  next
    case other: False
    have applied: "handleApply E now x c = (None, c1)" using False other assms(1) by (simp add: handleDecided_def)
    show ?thesis
    proof (cases r)
      case (Inl why)
      then show ?thesis using applied g assms(2) by (auto simp: handleApply_def frame_simps)
    next
      case (Inr rs)
      then show ?thesis using applied g assms(2) accepted_settles [of E now x rs "acceptedAck E now x (c\<lparr>ct_rate := v\<rparr>)"]
        by (simp add: handleApply_def frame_simps)
    qed
  qed
qed

lemma duplicate_noop: "isDuplicate (hx_evt x) c \<Longrightarrow> fst (handleDecided E now x c) = None \<and> plane (snd (handleDecided E now x c)) = plane c"
  by (simp add: handleDecided_def frame_simps)

text \<open>
  A fingerprint outlives the rule it stands for. Once an event changed the enforcement, every later
  event with the same key and the same fingerprint is acknowledged as a duplicate and changes
  nothing, whatever became of the store in between: also when the policy has expired, was removed by
  the reconciler or by an operator, and is sent again.
\<close>

theorem fingerprint_outlives_policy:
  assumes "handleDecided E now x c = (None, c1)" and "plane c1 \<noteq> plane c"
    and "approvalKey (hx_spec y) = approvalKey (hx_spec x)" and "duplicateFingerprint (hx_evt y) = duplicateFingerprint (hx_evt x)"
  shows "fst (handleDecided E later y (c1\<lparr>ct_store := s\<rparr>)) = None
    \<and> plane (snd (handleDecided E later y (c1\<lparr>ct_store := s\<rparr>))) = plane c1"
proof -
  have "isDuplicate (hx_evt y) (c1\<lparr>ct_store := s\<rparr>)"
    using decided_settles [OF assms(1,2)] assms(3,4) by (simp add: eventSettled_def isDuplicate_def)
  then show ?thesis using duplicate_noop [of y "c1\<lparr>ct_store := s\<rparr>" E later] by simp
qed

lemma approval_settled_noop:
  assumes "handleApproval E now x c = (None, c1)" and "plane c1 \<noteq> plane c" and "hx_evt y = hx_evt x" and "hx_pendingKey y = hx_pendingKey x"
    and "ct_pending c2 = ct_pending c1" and "ct_seenHashes c2 = ct_seenHashes c1"
  shows "plane (snd (handleApproval E later y c2)) = plane c2"
proof -
  let ?action = "case pe_Proto (hx_evt x) of None \<Rightarrow> [] | Some p \<Rightarrow> pu_Action p"
  consider (approve) "isApprovalAction ?action" | (reject) "\<not> isApprovalAction ?action" "isRejectAction ?action"
    | (decide) "\<not> isApprovalAction ?action" "\<not> isRejectAction ?action" by blast
  then show ?thesis
  proof cases
    case approve
    then obtain p where p: "map_of (ct_pending c) (hx_pendingKey x) = Some p" "handleDecided E now (withDecision x p True) c = (None, c1)"
      using assms(1,2) by (auto simp: handleApproval_def Let_def frame_simps split: option.splits)
    then have "map_of (ct_pending c1) (hx_pendingKey x) = None"
      using decided_settles [OF p(2) assms(2)] by (simp add: eventSettled_def withDecision_def)
    then show ?thesis using approve assms(3-) by (simp add: handleApproval_def frame_simps)
  next
    case reject
    then show ?thesis using assms(1,2) by (auto simp: handleApproval_def Let_def frame_simps split: option.splits)
  next
    case decide
    then have "handleDecided E now x c = (None, c1)"
      using assms(1,2) by (auto simp: handleApproval_def Let_def frame_simps split: if_splits)
    then have "isDuplicate (hx_evt y) c2" using decided_settles assms(2,3,6) by (fastforce simp: eventSettled_def isDuplicate_def)
    then show ?thesis using decide assms(3) duplicate_noop by (simp add: handleApproval_def Let_def frame_simps)
  qed
qed

lemma handleFresh_ran:
  assumes "handleFresh E now x c = (e, c1)" and "plane c1 \<noteq> plane c"
  shows "handleApproval E now x c = (e, c1)"
proof (cases "publishCommandReject E True EExpired c")
  case (Pair r c2)
  then have "plane c2 = plane c" by (rule reject_run(1))
  then show ?thesis using assms Pair
    by (auto simp: handleFresh_def frame_simps split: option.splits if_splits)
qed

lemma handleVerified_ran:
  assumes "handleVerified E now evt req c = (e, c1)" and "plane c1 \<noteq> plane c"
  shows "\<exists>key seen. handleApproval E now (handlingOf evt req key) (c\<lparr>ct_replaySeen := seen\<rparr>) = (e, c1)"
proof -
  obtain why key seen where r: "checkReplay (cc_replay (ce_cfg E)) evt now (ct_replaySeen c) = ((why, key), seen)"
    by (metis surj_pair)
  have "handleFresh E now (handlingOf evt req key) (c\<lparr>ct_replaySeen := seen\<rparr>) = (e, c1)"
    using assms replayRefused_plane [of E now "handlingOf evt req key" why "c\<lparr>ct_replaySeen := seen\<rparr>"]
    by (auto simp: handleVerified_def r split: if_splits)
  then show ?thesis using handleFresh_ran assms(2) by fastforce
qed



subsection \<open>Fast mitigations\<close>

text \<open>
  A fast mitigation is not held to the allowlist. A verified fast event that is fresh, not known yet
  and meets no open breaker is handed to the backend although the allowlist of its own policy
  protects the target: the handler never consults the guardrails.
\<close>

theorem fast_mitigation_ignores_allowlist:
  assumes "checkAllowlist (ce_net E) (pe_Spec evt) = Some why"
    and "pe_Fast evt = Some f" and "checkFastReplay (cc_replay (ce_cfg E)) (ce_ord E) f now (ct_replaySeen c) = (None, seen)"
    and "\<not> ct_kill c" and "\<not> isDuplicate evt c" and "map_of (sf_records (ct_store c)) (sp_ID (pe_Spec evt)) = None"
    and "\<not> isApplyTimeoutBreakerOpen (ce_cfg E) now c" and "\<not> ce_canceled E (ct_calls c)" and "ce_apply E (ct_calls c) (pe_Spec evt) = None"
  shows "plane (snd (HandleFastEvent E now evt c)) = plane c @ [DidApply (pe_Spec evt)]"
proof -
  let ?c = "c\<lparr>ct_replaySeen := seen\<rparr>"
  define out where "out = ?c\<lparr>ct_calls := ct_calls c + 1, ct_out := ct_out c @ [DidApply (pe_Spec evt)]\<rparr>"
  have "nat (max 1 (cc_retryMax (ce_cfg E) + 1)) = Suc (nat (max 0 (cc_retryMax (ce_cfg E))))" by simp
  then have "applyWithRetries E (pe_Spec evt) ?c = ((None, 1, False), out)"
    using assms(8,9) by (simp add: applyWithRetries_def tryApply_def Let_def out_def)
  then have applied: "applyWithTerminalHandling E False evt True now ?c = (None, recordApplyTimeoutOutcome (ce_cfg E) now False out)"
    using assms(7) by (simp add: applyWithTerminalHandling_def isApplyTimeoutBreakerOpen_def)
  have persist: "plane c'' = plane c'" if "fastPersist E now evt f c' = (r, c'')" for c' c'' r
    using that by (auto simp: fastPersist_def split: prod.splits option.splits)
  have "plane out = plane c @ [DidApply (pe_Spec evt)]" by (simp add: out_def plane_def)
  moreover have "\<not> isDuplicate evt ?c" using assms(5) by (simp add: isDuplicate_def)
  ultimately show ?thesis using assms(2-4,6) applied
    by (simp add: HandleFastEvent_def) (auto simp: frame_simps dest!: persist split: prod.split option.split)
qed

subsection \<open>Concrete runs\<close>

definition ex_options :: ctlOptions where
  "ex_options = \<lparr>co_FastPath = \<lparr>fp_Enabled = False, fp_MinConfidence = 0, fp_SignalsRequired = 0\<rparr>, co_ApplyTotalBudget = 0,
     co_ApplyRetryMax = 2, co_ApplyRetryBackoff = 0, co_ApplyRetryBaseBackoff = 0, co_ApplyRetryMaxBackoff = 0,
     co_ApplyRetryJitterRatio = 0, co_BreakerThreshold = 0, co_BreakerCooldown = 0, co_ExpiredShedding = False,
     co_ReplayWindow = 0, co_ReplayFutureSkew = 0, co_ReplayCacheMaxEntries = 0, co_CommandRejectRequired = False,
     co_CommandTopic = [], co_CompactionEnabled = True, co_CompactionWindow = 0, co_CriticalLaneMax = 0,
     co_MaintenanceLaneMax = 0, co_EmitAcceptedAck = False, co_CriticalMode = [], co_MaintenanceMode = [],
     co_GateEnabled = False, co_GateWindow = 0\<rparr>"

definition ex_ctlEnv :: "(nat \<Rightarrow> goError option) \<Rightarrow> ctlEnv" where
  "ex_ctlEnv outcome = \<lparr>ce_cfg = NewConfig ex_options 0, ce_lib = ex_lib, ce_net = ex_net\<lparr>nl_parseAddr := (\<lambda>s. if s = ''10.0.0.1'' then Some (V4 0x0A000001) else if s = ''10.0.0.9'' then Some (V4 0x0A000009) else None)\<rparr>,
     ce_rate = ex_rateEnv None, ce_io = ex_io,
     ce_keys = [ex_key], ce_decode = (\<lambda>b. Some ex_update), ce_json = (\<lambda>j. []), ce_apply = (\<lambda>n spec. outcome n),
     ce_remove = (\<lambda>n i. None), ce_canceled = (\<lambda>n. False), ce_wait = (\<lambda>n d. WaitDone), ce_rand = (\<lambda>n. 0), ce_laneOk = True,
     ce_ackSink = Some True, ce_rejectSink = Some True, ce_text = (\<lambda>e. []), ce_ord = (\<lambda>m. m)\<rparr>"

definition ex_ctl :: "bool \<Rightarrow> ctlState" where
  "ex_ctl kill = NewController (ex_ctlEnv (\<lambda>n. None)) (NewAgentStore ex_storeOptions) \<lparr>rw_redis = [], rw_ids = 0\<rparr> kill"

definition ex_message :: kafkaMessage where
  "ex_message = \<lparr>km_Topic = ''control.enforcement_command.v1'', km_Value = [1]\<rparr>"

definition ex_event :: policyEvent where
  "ex_event = \<lparr>pe_Proto = Some ex_update, pe_Fast = None, pe_Spec = ex_parsed\<rparr>"

lemma ex_parsed_simps [simp]:
  "sp_ID ex_parsed = ''p1''" "sp_Action ex_parsed = ''drop''"
  "sp_Guardrails ex_parsed = noGuardrails\<lparr>gd_TTLSeconds := 30, gd_MaxTargets := Some 2, gd_AllowlistIPs := [''10.0.0.9''],
     gd_AllowlistNamespaces := [''kube-system'']\<rparr>"
  "tg_IPs (sp_Target ex_parsed) = [''10.0.0.1'']" "tg_CIDRs (sp_Target ex_parsed) = []" "tg_Scope (sp_Target ex_parsed) = ''cluster''"
  "tg_Namespace (sp_Target ex_parsed) = []" "tg_Selectors (sp_Target ex_parsed) = []"
  by (simp_all add: ex_parsed_def ex_lib_def ex_rule_def parse_simps text_simps Let_def noGuardrails_def noTarget_def)

lemma ex_env_simps [simp]:
  "ce_cfg (ex_ctlEnv r) = NewConfig ex_options 0" "ce_lib (ex_ctlEnv r) = ex_lib" "ce_keys (ex_ctlEnv r) = [ex_key]"
  "ce_decode (ex_ctlEnv r) b = Some ex_update" "ce_apply (ex_ctlEnv r) n spec = r n" "ce_canceled (ex_ctlEnv r) n = False"
  "ce_wait (ex_ctlEnv r) n d = WaitDone" "ce_laneOk (ex_ctlEnv r) = True" "ce_rate (ex_ctlEnv r) = ex_rateEnv None"
  "cc_compaction (NewConfig ex_options 0) = Some (2 * minute)" "cc_retryMax (NewConfig ex_options 0) = 2"
  "cc_acceptedAck (NewConfig ex_options 0) = False" "cc_expiredShed (NewConfig ex_options 0) = False"
  by (simp_all add: ex_ctlEnv_def NewConfig_def ex_options_def Let_def orDefault_def)

lemma ex_guardrails:
  "checkGuardrails (ce_net (ex_ctlEnv r)) (ex_rateEnv None) sha (ct_store (ex_ctl kill)) ex_parsed now w = (Inr [], w)"
  by (simp add: checkGuardrails_def checkAllowlist_def minuteLimit_def windowLimit_def ownerLimit_def limitCheck_def
    thenCheck_def ex_ctlEnv_def ex_net_def parseAddrs_def parsePrefixes_def map_filter_simps text_simps Let_def
    noGuardrails_def noTarget_def ctl_effectiveNamespace_def ex_rateEnv_def)

definition ex_handling :: "string \<Rightarrow> handling" where
  "ex_handling key = handlingOf ex_event True key"

lemma ex_handling_simps [simp]:
  "hx_evt (ex_handling key) = ex_event" "hx_ack (ex_handling key) = True" "hx_ts (ex_handling key) = Some (100 * second)"
  "hx_approved (ex_handling key) = False" "pe_Spec ex_event = ex_parsed" "pe_Proto ex_event = Some ex_update" "pe_Fast ex_event = None"
  by (simp_all add: ex_handling_def handlingOf_def ex_event_def policyEventTimestamp_def ex_update_def)

lemma ex_ctl_simps [simp]:
  "ct_seenHashes (ex_ctl kill) = []" "ct_compactor (ex_ctl kill) = []" "ct_calls (ex_ctl kill) = 0" "plane (ex_ctl kill) = []"
  "ct_kill (ex_ctl kill) = kill" "ct_replaySeen (ex_ctl kill) = []" "sf_records (ct_store (ex_ctl kill)) = []"
  "sf_scopeWatermarks (ct_store (ex_ctl kill)) = []" "ct_breakerUntil (ex_ctl kill) = 0"
  by (simp_all add: ex_ctl_def NewController_def plane_def NewAgentStore_def)

lemma ex_decided:
  "handleDecided (ex_ctlEnv r) now (ex_handling key) (ex_ctl kill)
    = handleEnforce (ex_ctlEnv r) now (ex_handling key) False ''applied_new'' [] (ex_ctl kill)"
  using ex_guardrails
  by (simp add: handleDecided_def isDuplicate_def isRemoveAction_def EqualFold_def text_simps ex_update_def handleApply_def
    acceptedAck_def handleAccepted_def)

lemma ex_gate:
  "\<exists>c. laneGate (ex_ctlEnv r) now False (ex_handling key) (ex_ctl kill) = Inr c \<and> ct_calls c = 0 \<and> plane c = []
    \<and> ct_breakerUntil c = 0"
  by (simp add: laneGate_def shouldCompactEvent_def compactor_Observe_def compactor_prune_def effectiveLaneMode_def
    NewConfig_def ex_options_def laneMode_def Let_def text_simps second_def)

lemma ex_acked: "pu_RequiresAck ex_update = True"
  by (simp add: ex_update_def)

lemma ex_message_run:
  "\<exists>key. HandleMessage (ex_ctlEnv r) (100 * second) ex_message (ex_ctl False)
    = handleDecided (ex_ctlEnv r) (100 * second) (ex_handling key) (ex_ctl False)"
proof -
  let ?c = "ex_ctl False"
  have domain: "policyDomainForTopic (NewConfig ex_options 0) (km_Topic ex_message) = ''control.enforcement_command.v1''"
    by (simp add: policyDomainForTopic_def ex_message_def NewConfig_def ex_options_def text_simps Let_def)
  let ?key = "replayKey ex_event ex_update"
  have "pu_Timestamp ex_update = 100" by (simp add: ex_update_def)
  then have replay: "checkReplay (cc_replay (NewConfig ex_options 0)) ex_event (100 * second) [] = (([], ?key), [])"
    by (simp add: checkReplay_def timestampReason_def NewConfig_def ex_options_def orDefault_def pruneReplay_def
      seenRecently_def second_def millisecond_def Let_def)
  have same: "?c\<lparr>ct_replaySeen := []\<rparr> = ?c" by (simp add: ex_ctl_def NewController_def)
  have verified: "VerifyAndParseWithDomain ex_lib [ex_key] ex_update ''control.enforcement_command.v1'' = Inr ex_event"
    using ex_verified(1) by (simp add: ex_event_def)
  have "HandleMessage (ex_ctlEnv r) (100 * second) ex_message ?c = handleFresh (ex_ctlEnv r) (100 * second) (ex_handling ?key) ?c"
    using verified by (simp add: HandleMessage_def domain handleVerified_def replay same ex_handling_def ex_acked)
  also have "\<dots> = handleApproval (ex_ctlEnv r) (100 * second) (ex_handling ?key) ?c"
    by (simp add: handleFresh_def IsScopeEventStale_def Let_def)
  also have "\<dots> = handleDecided (ex_ctlEnv r) (100 * second) (ex_handling ?key) ?c"
    by (simp add: handleApproval_def isApprovalAction_def isRejectAction_def ex_update_def text_simps noGuardrails_def)
  finally show ?thesis by blast
qed

definition ex_broken :: goError where
  "ex_broken = \<lparr>ge_deadline = False, ge_canceled = False, ge_apiTimeout = False, ge_apiTransient = True, ge_net = None, ge_msg = []\<rparr>"

lemma ex_enforced:
  "\<exists>c1. handleDecided (ex_ctlEnv (\<lambda>n. None)) now (ex_handling key) (ex_ctl kill) = (None, c1) \<and> plane c1 = [DidApply ex_parsed]"
proof -
  obtain c where g: "laneGate (ex_ctlEnv (\<lambda>n. None)) now False (ex_handling key) (ex_ctl kill) = Inr c" "ct_calls c = 0" "plane c = []"
    "ct_breakerUntil c = 0" using ex_gate by blast
  define out where "out = c\<lparr>ct_calls := 1, ct_out := ct_out c @ [DidApply ex_parsed]\<rparr>"
  have "plane out = [DidApply ex_parsed]" using g(3) by (simp add: out_def plane_def)
  moreover have "applyWithRetries (ex_ctlEnv (\<lambda>n. None)) ex_parsed c = ((None, 1, False), out)"
    using g(2) by (simp add: applyWithRetries_def tryApply_def Let_def out_def eval_nat_numeral)
  ultimately show ?thesis using g
    by (simp add: ex_decided handleEnforce_def applyWithTerminalHandling_def isApplyTimeoutBreakerOpen_def Let_def frame_simps)
qed

lemma ex_failed:
  "\<exists>e c1. handleDecided (ex_ctlEnv (\<lambda>n. Some ex_broken)) now (ex_handling key) (ex_ctl kill) = (Some e, c1)"
proof -
  obtain c where g: "laneGate (ex_ctlEnv (\<lambda>n. Some ex_broken)) now False (ex_handling key) (ex_ctl kill) = Inr c"
    "ct_breakerUntil c = 0" using ex_gate by blast
  have "applyErrorClass ex_broken = ClassTransient" by (simp add: applyErrorClass_def ClassifyContextError_def ex_broken_def)
  then have "fst (fst (applyWithRetries (ex_ctlEnv (\<lambda>n. Some ex_broken)) ex_parsed c)) = Some ex_broken"
    by (simp add: applyWithRetries_def tryApply_def Let_def eval_nat_numeral)
  then obtain n c2 where "applyWithRetries (ex_ctlEnv (\<lambda>n. Some ex_broken)) ex_parsed c = ((Some ex_broken, n), c2)"
    by (metis prod.collapse)
  then show ?thesis using g
    by (cases n) (simp add: ex_decided handleEnforce_def applyWithTerminalHandling_def isApplyTimeoutBreakerOpen_def Let_def
      split: prod.split option.split)
qed

lemma ex_delivered:
  "\<exists>c1. HandleMessage (ex_ctlEnv (\<lambda>n. None)) (100 * second) ex_message (ex_ctl False) = (None, c1) \<and> plane c1 = [DidApply ex_parsed]"
  using ex_message_run [of "\<lambda>n. None"] ex_enforced by metis


theorem kill_switch_stops_witness:
  "plane (snd (HandleMessage (ex_ctlEnv (\<lambda>n. None)) (100 * second) ex_message (ex_ctl True))) = []"
  using kill_switch_stops [of "ex_ctl True" "ex_ctlEnv (\<lambda>n. None)" "100 * second" ex_message] by simp

theorem transient_failures_overcome_witness:
  "fst (applyWithRetries (ex_ctlEnv (\<lambda>n. if n < 2 then Some ex_broken else None)) ex_parsed (ex_ctl False)) = (None, 3, False)"
proof -
  have "applyErrorClass ex_broken = ClassTransient" by (simp add: applyErrorClass_def ClassifyContextError_def ex_broken_def)
  then show ?thesis
    using transient_failures_overcome [of 2 "ex_ctlEnv (\<lambda>n. if n < 2 then Some ex_broken else None)" "ex_ctl False" ex_parsed]
    by simp
qed

theorem apply_attempts_bounded_witness:
  "\<exists>k. int k \<le> 3 \<and> ct_calls (snd (applyWithRetries (ex_ctlEnv (\<lambda>n. Some ex_broken)) ex_parsed (ex_ctl False))) = k"
proof -
  let ?run = "applyWithRetries (ex_ctlEnv (\<lambda>n. Some ex_broken)) ex_parsed (ex_ctl False)"
  obtain r n x c1 where run: "?run = ((r, n, x), c1)" by (metis surj_pair)
  from apply_attempts_bounded [OF this] show ?thesis by (auto simp: run)
qed

theorem retried_policy_dropped_witness:
  "\<exists>err c1. handleDecided (ex_ctlEnv (\<lambda>n. Some ex_broken)) (100 * second) (ex_handling []) (ex_ctl False) = (Some err, c1)
    \<and> fst (handleDecided (ex_ctlEnv (\<lambda>n. Some ex_broken)) (110 * second) (ex_handling []) c1) = None"
proof -
  obtain err c1 where run: "handleDecided (ex_ctlEnv (\<lambda>n. Some ex_broken)) (100 * second) (ex_handling []) (ex_ctl False) = (Some err, c1)"
    using ex_failed by blast
  have "fst (handleDecided (ex_ctlEnv (\<lambda>n. Some ex_broken)) (110 * second) (ex_handling []) c1) = None"
    using retried_policy_dropped [of "ex_ctlEnv (\<lambda>n. Some ex_broken)" "2 * minute" "ex_handling []" "100 * second"
        "ex_ctl False" "100 * second" err c1 "110 * second"] run
    by (simp add: second_def millisecond_def zeroTime_def gm_wf_def)
  then show ?thesis using run by blast
qed

theorem fingerprint_outlives_policy_witness:
  "\<exists>c1. handleDecided (ex_ctlEnv (\<lambda>n. None)) (100 * second) (ex_handling []) (ex_ctl False) = (None, c1)
    \<and> plane (snd (handleDecided (ex_ctlEnv (\<lambda>n. None)) (4000 * second) (ex_handling ''k'')
        (c1\<lparr>ct_store := NewAgentStore ex_storeOptions\<rparr>))) = [DidApply ex_parsed]"
proof -
  obtain c1 where run: "handleDecided (ex_ctlEnv (\<lambda>n. None)) (100 * second) (ex_handling []) (ex_ctl False) = (None, c1)"
    and p: "plane c1 = [DidApply ex_parsed]" using ex_enforced by blast
  have "plane c1 \<noteq> plane (ex_ctl False)" by (simp add: p)
  from fingerprint_outlives_policy [OF run this, of "ex_handling ''k''" "4000 * second" "NewAgentStore ex_storeOptions"] run p
  show ?thesis by simp
qed


theorem fast_mitigation_ignores_allowlist_witness:
  "checkAllowlist ex_net (ex_aimed [''10.0.0.9''] [] [''10.0.0.9''] []) = Some ''allowlist_ip''
    \<and> plane (snd (HandleFastEvent (ex_ctlEnv (\<lambda>n. None)\<lparr>ce_net := ex_net\<rparr>) (100 * second)
        \<lparr>pe_Proto = None, pe_Fast = Some ex_fastEnv, pe_Spec = ex_aimed [''10.0.0.9''] [] [''10.0.0.9''] []\<rparr> (ex_ctl False)))
      = [DidApply (ex_aimed [''10.0.0.9''] [] [''10.0.0.9''] [])]"
proof -
  let ?E = "ex_ctlEnv (\<lambda>n. None)\<lparr>ce_net := ex_net\<rparr>" and ?spec = "ex_aimed [''10.0.0.9''] [] [''10.0.0.9''] []"
  let ?evt = "\<lparr>pe_Proto = None, pe_Fast = Some ex_fastEnv, pe_Spec = ?spec\<rparr>"
  have refused: "checkAllowlist ex_net ?spec = Some ''allowlist_ip''"
    by (simp add: checkAllowlist_def aim_simps Let_def)
  have stamp: "fe_Timestamp ex_fastEnv = 100" by (simp add: ex_fastEnv_def)
  obtain seen where fresh: "checkFastReplay (cc_replay (ce_cfg ?E)) (ce_ord ?E) ex_fastEnv (100 * second) [] = (None, seen)"
    using stamp by (simp add: checkFastReplay_def timestampReason_def NewConfig_def ex_options_def orDefault_def pruneReplay_def
      seenRecently_def second_def millisecond_def Let_def)
  show ?thesis
    using fast_mitigation_ignores_allowlist [of ?E ?evt "''allowlist_ip''" ex_fastEnv "100 * second" "ex_ctl False" seen]
      refused fresh by (simp add: isDuplicate_def isApplyTimeoutBreakerOpen_def)
qed

end
