(* ===== verification/AgentRecovery.thy ===== *)
theory AgentRecovery
  imports AgentStore
begin

text \<open>
  Recovery of the enforcement agent's policy store
  (\<^verbatim>\<open>enforcement-agent/internal/state/store.go\<close>): what a restart restores from the snapshot file,
  what a reconciliation with the ledger leaves, and which records are due at a deadline.
\<close>

subsection \<open>A restart restores the store\<close>

text \<open>
  The JSON encoding of a snapshot is read back as it was written. The field \<^verbatim>\<open>Reason\<close> is not
  encoded, so this is asked of snapshots that leave it empty.
\<close>

definition json_faithful :: "storeIO \<Rightarrow> bool" where
  "json_faithful IO \<longleftrightarrow>
     (\<forall>snap b. list_all (\<lambda>r. ar_Reason r = []) (sn_Records snap) \<longrightarrow> io_marshalIndent IO snap = Some b
        \<longrightarrow> io_unmarshal IO b = Some snap)"

definition saved_ok :: "instant \<Rightarrow> agentStore \<Rightarrow> bool" where
  "saved_ok now s \<longleftrightarrow> distinct (map fst (sf_records s))
     \<and> list_all (\<lambda>(k, r). k = sp_ID (ar_Spec r) \<and> k \<noteq> [] \<and> ar_Reason r = [] \<and> loadRecord now r = r) (sf_records s)
     \<and> (\<forall>scope. sorted (historyOf s scope))"

lemma encodeSnapshot_Inr:
  assumes "encodeSnapshot IO ck snap = Inr b" and "sn_Checksum snap = []"
  shows "\<exists>c. io_marshalIndent IO (snap\<lparr>sn_Checksum := c\<rparr>) = Some b \<and> (c = [] \<or> computeChecksum IO snap = Some c)"
proof (cases ck)
  case False
  have "snap\<lparr>sn_Checksum := []\<rparr> = snap" using assms(2) by simp
  then show ?thesis using False assms(1)
    by (intro exI [of _ "[]"]) (auto simp: encodeSnapshot_def require_def orFail_def andThen_def split: if_splits option.splits)
qed (use assms(1) in \<open>auto simp: encodeSnapshot_def require_def orFail_def andThen_def split: if_splits option.splits sum.splits\<close>)

lemma computeChecksum_checksum [simp]: "computeChecksum IO (snap\<lparr>sn_Checksum := c\<rparr>) = computeChecksum IO snap"
  by (simp add: computeChecksum_def)

lemma Load_reads_back:
  assumes "json_faithful IO" and "encodeSnapshot IO ck (snapshotOf now s) = Inr b" and "saved_ok t s"
    and "sf_persistPath s0 \<noteq> []" and "sf_disk s0 = Some b" and "io_readOk IO"
  shows "\<exists>c. store_Load IO t s0 = (None, restoreSnapshot t ((snapshotOf now s)\<lparr>sn_Checksum := c\<rparr>) s0)"
proof -
  obtain c where c: "io_marshalIndent IO ((snapshotOf now s)\<lparr>sn_Checksum := c\<rparr>) = Some b"
      "c = [] \<or> computeChecksum IO (snapshotOf now s) = Some c"
    using encodeSnapshot_Inr [OF assms(2)] by (auto simp: snapshotOf_def)
  moreover have "list_all (\<lambda>r. ar_Reason r = []) (sn_Records (snapshotOf now s))"
    using assms(3) by (auto simp: saved_ok_def snapshotOf_def list_all_iff)
  ultimately have "io_unmarshal IO b = Some ((snapshotOf now s)\<lparr>sn_Checksum := c\<rparr>)"
    using assms(1) by (simp add: json_faithful_def)
  then show ?thesis
    using assms(4-) c(2) by (auto simp: store_Load_def EqualFold_def)
qed

lemma loadRecords_same:
  assumes "distinct (map fst recs)"
    and "list_all (\<lambda>(k, r). k = sp_ID (ar_Spec r) \<and> k \<noteq> [] \<and> loadRecord t r = r) recs"
  shows "map_of (loadRecords t (map snd recs)) = map_of recs"
  using assms
proof (induction recs rule: rev_induct)
  case (snoc e recs)
  obtain k r where e: "e = (k, r)" by (cases e)
  have "map_of recs k = None" using snoc.prems e by (auto simp: map_of_eq_None_iff)
  with snoc e show ?case
    by (auto simp: loadRecords_def update_conv map_add_def fun_eq_iff split: option.splits)
qed (simp add: loadRecords_def)

lemma map_of_values: "map_of (map (\<lambda>(k, v). (k, f v)) h) k = map_option f (map_of h k)"
  by (induction h) auto

lemma pruneHistory_Nil [simp]: "pruneHistory [] t r = []"
  by (simp add: pruneHistory_def)

lemma historyOf_restore:
  assumes "sn_RateHistory snap = sf_history s" and "sn_History snap = historyOf s ''global''"
  shows "historyOf (restoreSnapshot t snap s0) scope = pruneHistory (historyOf s scope) t (sf_historyRetention s0)"
proof -
  let ?h = "loadHistories t (sf_historyRetention s0) snap"
  have "map_of ?h scope = (if sf_history s = [] \<or> map_of (sf_history s) scope = None
      then if scope = ''global'' then Some [] else None
      else map_option (\<lambda>es. pruneHistory es t (sf_historyRetention s0)) (map_of (sf_history s) scope))"
    using assms by (cases "sf_history s = []") (auto simp: loadHistories_def Let_def map_of_values historyOf_def update_conv)
  moreover have "historyOf (restoreSnapshot t snap s0) scope = (case map_of ?h scope of None \<Rightarrow> [] | Some h \<Rightarrow> h)"
    by (simp add: historyOf_def restoreSnapshot_def Let_def)
  ultimately show ?thesis by (auto simp: historyOf_def split: option.splits)
qed

lemma RecentCountFor_pruned:
  assumes "sorted (historyOf s scope)" and "historyOf s' scope = pruneHistory (historyOf s scope) t r"
    and "0 < w" and "w \<le> r"
  shows "RecentCountFor s' scope w t = RecentCountFor s scope w t"
  using assms count_recent [OF assms(1), of "t - r" "t - w"]
  by (simp add: RecentCountFor_def Let_def pruneHistory_def takeWhile_recent)

lemma Load_restores:
  assumes "json_faithful IO" and "encodeSnapshot IO ck (snapshotOf now s) = Inr b" and "saved_ok t s"
    and "sf_persistPath s0 \<noteq> []" and "sf_disk s0 = Some b" and "io_readOk IO"
    and "0 < w" and "w \<le> sf_historyRetention s0"
  shows "fst (store_Load IO t s0) = None"
    and "map_of (sf_records (snd (store_Load IO t s0))) = map_of (sf_records s)"
    and "sf_pending (snd (store_Load IO t s0)) = sf_pending s"
    and "sf_scopeWatermarks (snd (store_Load IO t s0)) = sf_scopeWatermarks s"
    and "RecentCountFor (snd (store_Load IO t s0)) scope w t = RecentCountFor s scope w t"
proof -
  obtain c where c: "store_Load IO t s0 = (None, restoreSnapshot t ((snapshotOf now s)\<lparr>sn_Checksum := c\<rparr>) s0)"
    using Load_reads_back [OF assms(1-6)] by blast
  let ?snap = "(snapshotOf now s)\<lparr>sn_Checksum := c\<rparr>"
  have snap: "sn_Records ?snap = map snd (sf_records s)" "sn_RateHistory ?snap = sf_history s"
    "sn_History ?snap = historyOf s ''global''" "sn_PendingApprovals ?snap = sf_pending s"
    "sn_ScopeWatermarks ?snap = sf_scopeWatermarks s" by (simp_all add: snapshotOf_def)
  show "fst (store_Load IO t s0) = None"
    "sf_pending (snd (store_Load IO t s0)) = sf_pending s"
    "sf_scopeWatermarks (snd (store_Load IO t s0)) = sf_scopeWatermarks s"
    by (simp_all add: c restoreSnapshot_def Let_def snap)
  show "map_of (sf_records (snd (store_Load IO t s0))) = map_of (sf_records s)"
    using assms(3) by (simp add: c restoreSnapshot_def Let_def snap)
      (rule loadRecords_same, auto simp: saved_ok_def list_all_iff)
  show "RecentCountFor (snd (store_Load IO t s0)) scope w t = RecentCountFor s scope w t"
    using RecentCountFor_pruned [OF _ historyOf_restore [OF snap(2,3)] assms(7,8)] assms(3)
    by (simp add: c saved_ok_def)
qed


text \<open>
  A policy whose deadlines survive a reload: its time to live is positive as a duration and its
  optional deadlines are positive, as the parser requires.
\<close>

definition reloadable :: "policySpec \<Rightarrow> bool" where
  "reloadable spec \<longleftrightarrow>
     (let g = sp_Guardrails spec; positive = (\<lambda>oo. case oo of None \<Rightarrow> True | Some n \<Rightarrow> 0 < n) in
      sp_ID spec \<noteq> [] \<and> 0 < gd_TTLSeconds g \<and> 0 < secondsDuration (gd_TTLSeconds g)
      \<and> positive (gd_PreConsensusTTLSeconds g) \<and> positive (gd_RollbackIfNoCommitAfter g))"

lemma upsertRecord_fields:
  "ar_Spec (upsertRecord spec t e) = spec" "ar_AppliedAt (upsertRecord spec t e) = t"
  "ar_GuardrailTTL (upsertRecord spec t e) = secondsDuration (gd_TTLSeconds (sp_Guardrails spec))"
  "ar_ExpiresAt (upsertRecord spec t e)
    = (let n = gd_TTLSeconds (sp_Guardrails spec) in if n > 0 then t + secondsDuration n else t)"
  "ar_PreConsensus (upsertRecord spec t e) = deadline t (gd_PreConsensusTTLSeconds (sp_Guardrails spec))"
  "ar_Rollback (upsertRecord spec t e) = deadline t (gd_RollbackIfNoCommitAfter (sp_Guardrails spec))"
  "ar_Reason (upsertRecord spec t e) = []"
  by (simp_all add: upsertRecord_def freshRecord_def Let_def split: option.splits)

lemma loadRecord_upsert:
  assumes "reloadable spec" and "t \<noteq> zeroTime"
  shows "loadRecord now (upsertRecord spec t e) = upsertRecord spec t e"
  by (rule agentRecord.equality)
    (use assms in \<open>simp_all add: loadRecord_def Let_def upsertRecord_fields reloadable_def deadline_def split: option.splits\<close>)

lemma applyAll_saved_ok:
  assumes "sorted (map snd runs)" and "list_all (\<lambda>(spec, t). reloadable spec \<and> t \<noteq> zeroTime) runs"
    and "0 < sf_historyRetention s" and "sf_history s = []" and "sf_records s = []"
  shows "saved_ok now (applyAll sha runs s)"
proof -
  have "distinct (map fst (sf_records (applyAll sha runs s)))
    \<and> list_all (\<lambda>(k, r). k = sp_ID (ar_Spec r) \<and> k \<noteq> [] \<and> ar_Reason r = [] \<and> loadRecord now r = r)
        (sf_records (applyAll sha runs s))"
    using assms(2)
  proof (induction runs rule: rev_induct)
    case Nil
    then show ?case by (simp add: applyAll_def assms(5))
  next
    case (snoc e runs)
    obtain spec t where e: "e = (spec, t)" by (cases e)
    let ?s = "applyAll sha runs s" and ?rs = "sf_records (applyAll sha runs s)"
    let ?r = "upsertRecord spec t (map_of ?rs (sp_ID spec))"
    have recs: "sf_records (applyAll sha (runs @ [e]) s) = AList.update (sp_ID spec) ?r ?rs"
      by (simp add: applyAll_def e upsertCore_def Let_def frame_simps)
    have "sp_ID spec \<noteq> []" "loadRecord now ?r = ?r"
      using snoc.prems e loadRecord_upsert by (auto simp: reloadable_def Let_def)
    then show ?case
      unfolding recs using snoc e by (auto simp: distinct_update upsertRecord_fields intro!: gm_all_update)
  qed
  moreover have "sorted (historyOf (applyAll sha runs s) scope)" for scope
    using applyAll_history [OF assms(1,3,4)] sorted_seenAt [OF assms(1)] by (simp add: sorted_dropWhile)
  ultimately show ?thesis by (simp add: saved_ok_def)
qed


lemma applyAll_file: "file_part (applyAll sha runs s) = file_part s"
  by (induction runs arbitrary: s)
    (auto simp: applyAll_def store_change_file [OF store_change.upsert] split: prod.splits)


subsection \<open>Reconciliation\<close>

lemma map_of_iter_order: "iter_order ord \<Longrightarrow> gm_wf m \<Longrightarrow> map_of (ord m) = map_of m"
  by (metis gm_wf_def iter_order_set iter_order_wf map_of_inject_set)

lemma adoptPolicy_fold:
  assumes "gm_wf l"
  shows "map_of (sf_records (snd (fold (adoptPolicy sha t) l (a, s)))) pid =
     (case map_of (sf_records s) pid of
        Some r \<Rightarrow> Some r
      | None \<Rightarrow> (case map_of l pid of
           None \<Rightarrow> None
         | Some spec \<Rightarrow> if sp_ID spec = [] then None else Some (ledgerRecord spec t)))"
  using assms
proof (induction l arbitrary: a s)
  case (Cons e l)
  obtain k spec where e: "e = (k, spec)" by (cases e)
  have wf: "gm_wf l" "map_of l k = None" using Cons.prems by (auto simp: gm_wf_def e map_of_eq_None_iff)
  obtain a' s' where step: "adoptPolicy sha t e (a, s) = (a', s')" by (cases "adoptPolicy sha t e (a, s)")
  then have "map_of (sf_records s') = (if sp_ID spec = [] \<or> map_of (sf_records s) k \<noteq> None then map_of (sf_records s)
      else (map_of (sf_records s))(k \<mapsto> ledgerRecord spec t))"
    by (auto simp: adoptPolicy_def e Let_def frame_simps update_conv split: if_splits)
  then show ?case using Cons.IH [OF wf(1)] wf(2) step
    by (auto simp: e split: option.splits if_splits)
qed (simp split: option.splits)

text \<open>
  Reconciliation makes the store agree with the ledger: a policy the ledger does not have is
  removed, a policy both have keeps its record, and a policy only the ledger has is applied now.
  The records handed back for removal from the enforcer are those the ledger does not have.
\<close>

theorem reconcile_matches_ledger:
  assumes "iter_order ordR" and "iter_order ordL" and "gm_wf l" and "gm_wf (sf_records s)"
    and "reconcileCore sha256 ordR ordL l t s = (removed, added, s')"
  shows "map_of (sf_records s') pid =
     (case map_of l pid of
        None \<Rightarrow> None
      | Some spec \<Rightarrow>
          (case map_of (sf_records s) pid of
             Some r \<Rightarrow> Some r
           | None \<Rightarrow> if sp_ID spec = [] then None else Some (ledgerRecord spec t)))
     \<and> set removed = {r. \<exists>k. map_of (sf_records s) k = Some r \<and> map_of l k = None}"
proof -
  have "s' = snd (fold (adoptPolicy sha256 t) (ordL l) ([], keepListed l s))"
    and "set removed = snd ` {e \<in> set (sf_records s). map_of l (fst e) = None}"
    using assms(1,5) by (auto simp: reconcileCore_eq Let_def iter_order_set image_iff split: prod.splits)
  moreover have "gm_wf (ordL l)" "map_of (ordL l) = map_of l"
    using assms(2,3) by (simp_all add: iter_order_wf map_of_iter_order)
  ultimately show ?thesis
    using assms(4) by (auto simp: adoptPolicy_fold keepListed_def map_of_filter_wf gm_mem_iff image_iff
      split: option.splits)
qed

subsection \<open>Deadlines\<close>

text \<open>The scan for the next deadline returns the least one that lies ahead.\<close>

lemma soonestDeadline_min:
  defines "ahead \<equiv> \<lambda>now rs. {ar_PreConsensus r | r. r \<in> set rs \<and> ar_PreConsensus r \<noteq> zeroTime \<and> now < ar_PreConsensus r}"
  shows "soonestDeadline now b rs =
     (let ds = ahead now rs \<union> (if b = zeroTime then {} else {b}) in if ds = {} then zeroTime else Min ds)"
proof (induction rs arbitrary: b)
  case Nil
  then show ?case by (simp add: ahead_def)
next
  case (Cons r rs)
  have fin: "finite (ahead now rs)" by (simp add: ahead_def)
  have step: "ahead now (r # rs) = (if ar_PreConsensus r \<noteq> zeroTime \<and> now < ar_PreConsensus r
      then insert (ar_PreConsensus r) (ahead now rs) else ahead now rs)" by (auto simp: ahead_def)
  then show ?case using fin
    by (cases "ahead now rs = {}") (auto simp: Cons Let_def min_def)
qed

lemma NextPreConsensusDeadline_min:
  assumes "iter_order ord"
  shows "NextPreConsensusDeadline ord now s = (let ds = {ar_PreConsensus r | r k.
      (k, r) \<in> set (sf_records s) \<and> ar_PreConsensus r \<noteq> zeroTime \<and> now < ar_PreConsensus r} in
    if ds = {} then None else Some (Min ds))"
proof -
  have "{ar_PreConsensus r | r. r \<in> set (map snd (ord (sf_records s))) \<and> ar_PreConsensus r \<noteq> zeroTime \<and> now < ar_PreConsensus r}
    = {ar_PreConsensus r | r k. (k, r) \<in> set (sf_records s) \<and> ar_PreConsensus r \<noteq> zeroTime \<and> now < ar_PreConsensus r}"
    (is "?A = ?B") using assms by (force simp: iter_order_set)
  moreover have "Min ?B \<noteq> zeroTime" if "?B \<noteq> {}"
  proof -
    have "?B \<subseteq> (\<lambda>e. ar_PreConsensus (snd e)) ` set (sf_records s)" by force
    then have "Min ?B \<in> ?B" using that by (intro Min_in) (rule finite_subset, auto)
    moreover have "zeroTime \<notin> ?B" by auto
    ultimately show ?thesis by metis
  qed
  ultimately show ?thesis
    by (simp add: NextPreConsensusDeadline_def soonestDeadline_min Let_def del: set_map)
qed


text \<open>
  No policy outlives its time to live. After a policy is applied at \<open>t\<close> with a time to live of
  \<open>n\<close> seconds that fits a duration, the sweep at any later time than \<open>t\<close> plus \<open>n\<close> seconds hands
  its record back as expired.
\<close>

theorem applied_policy_expires:
  assumes "iter_order ord" and "gd_TTLSeconds (sp_Guardrails spec) = n" and "0 < n" and "n * second < 2 ^ 63"
    and "zeroTime \<le> t" and "t + n * second < now"
  shows "\<exists>r \<in> set (Expired ord now (upsertCore sha256 spec t s)). ar_Spec r = spec \<and> ar_Reason r \<noteq> []"
proof -
  let ?r = "upsertRecord spec t (map_of (sf_records s) (sp_ID spec))"
  have "secondsDuration n = n * second"
    using assms(3,4) by (simp add: secondsDuration_def wrap64_def second_def millisecond_def)
  then have "ar_ExpiresAt ?r = t + n * second" using assms(2,3) by (simp add: upsertRecord_fields Let_def)
  moreover have "0 < n * second" using assms(3) by (simp add: second_def millisecond_def)
  ultimately have "\<exists>why. expiryReason now ?r = Some why \<and> why \<noteq> []"
    using assms(5,6) by (simp add: expiryReason_def)
  then obtain why where why: "expiryReason now ?r = Some why" "why \<noteq> []" by blast
  have "(sp_ID spec, ?r) \<in> set (ord (sf_records (upsertCore sha256 spec t s)))"
    using assms(1) by (simp add: iter_order_set upsertCore_def Let_def frame_simps map_of_SomeD update_conv)
  then have "?r\<lparr>ar_Reason := why\<rparr> \<in> set (Expired ord now (upsertCore sha256 spec t s))"
    using why by (force simp: Expired_def)
  then show ?thesis using why(2) by (intro bexI) (auto simp: upsertRecord_fields)
qed

lemma ex_parsed_fields:
  "gd_TTLSeconds (sp_Guardrails ex_parsed) = 30" "sp_ID ex_parsed = ''p1''"
  "gd_PreConsensusTTLSeconds (sp_Guardrails ex_parsed) = None"
  "gd_RollbackIfNoCommitAfter (sp_Guardrails ex_parsed) = None"
  by (simp_all add: ex_parsed_def ex_lib_def ex_rule_def parse_simps text_simps Let_def)

theorem applied_policy_expires_witness:
  "\<exists>r \<in> set (Expired rev (31 * second) (upsertCore (\<lambda>b. 0) ex_parsed 0 (NewAgentStore ex_storeOptions))).
     ar_Spec r = ex_parsed \<and> ar_Reason r \<noteq> []"
  by (rule applied_policy_expires [of rev ex_parsed 30])
    (simp_all add: ex_parsed_fields second_def millisecond_def zeroTime_def)

definition ex_ledger :: "(string, policySpec) gomap" where
  "ex_ledger = [(''p1'', ex_parsed), (''p2'', ex_parsed\<lparr>sp_ID := ''p2''\<rparr>)]"

definition ex_held :: agentStore where
  "ex_held = (NewAgentStore ex_storeOptions)
     \<lparr>sf_records := [(''p1'', upsertRecord ex_parsed 5 None), (''p0'', upsertRecord (ex_parsed\<lparr>sp_ID := ''p0''\<rparr>) 5 None)]\<rparr>"

theorem reconcile_matches_ledger_witness:
  "\<exists>removed added s'. reconcileCore (\<lambda>b. 0) rev rev ex_ledger 7 ex_held = (removed, added, s')
     \<and> map_of (sf_records s') ''p0'' = None
     \<and> map_of (sf_records s') ''p2'' = Some (ledgerRecord (ex_parsed\<lparr>sp_ID := ''p2''\<rparr>) 7)
     \<and> ar_Spec ` set removed = {ex_parsed\<lparr>sp_ID := ''p0''\<rparr>}"
proof -
  obtain removed added s' where run: "reconcileCore (\<lambda>b. 0) rev rev ex_ledger 7 ex_held = (removed, added, s')"
    by (metis prod_cases3)
  have wf: "gm_wf ex_ledger" "gm_wf (sf_records ex_held)"
    by (simp_all add: ex_ledger_def ex_held_def gm_wf_def)
  note matches = reconcile_matches_ledger [OF iter_order_rev iter_order_rev wf run]
  have "set removed = {upsertRecord (ex_parsed\<lparr>sp_ID := ''p0''\<rparr>) 5 None}"
    using matches [of "''p0''"] by (auto simp: ex_ledger_def ex_held_def split: if_splits)
  then show ?thesis
    using run matches [of "''p0''"] matches [of "''p2''"]
    by (auto simp: ex_ledger_def ex_held_def upsertRecord_fields ex_parsed_fields)
qed

text \<open>An encoder that knows one snapshot: the one of the store below.\<close>

definition ex_saved :: agentStore where
  "ex_saved = applyAll (\<lambda>b. 0) [(ex_parsed, 10)] (NewAgentStore ex_storeOptions)"

definition ex_codec :: storeIO where
  "ex_codec = ex_io\<lparr>io_marshalIndent := (\<lambda>snap. if snap = snapshotOf 20 ex_saved then Some [1] else None),
     io_unmarshal := (\<lambda>b. Some (snapshotOf 20 ex_saved))\<rparr>"


end
