(* ===== verification/AgentLoops.thy ===== *)
theory AgentLoops
  imports AgentRecovery
begin

text \<open>
  The two loops that keep the enforcement backend and the store together,
  \<^verbatim>\<open>enforcement-agent/internal/{scheduler,reconciler}\<close>, the ledger file they follow
  (\<^verbatim>\<open>internal/ledger\<close>) and the backend interface (\<^verbatim>\<open>internal/enforcer/enforcer.go\<close>).

  A backend is an argument of the loops, a record of its two operations; what the loops rely on is
  the locale \<open>enforcement_backend\<close>, and the backend without a dataplane of \<^verbatim>\<open>enforcer.go\<close> satisfies it. A
  cycle runs with one reading of the clock. Timers are left out: what a loop waits for is
  \<open>nextInterval\<close> and the backoff.
\<close>

subsection \<open>Backends\<close>

record 'b enforcer =
  en_apply :: "policySpec \<Rightarrow> 'b \<Rightarrow> string option \<times> 'b"
  en_remove :: "string \<Rightarrow> 'b \<Rightarrow> string option \<times> 'b"

type_synonym noopState = "(string, policySpec) gomap"

definition noop_Apply :: "policySpec \<Rightarrow> noopState \<Rightarrow> string option \<times> noopState" where
  "noop_Apply spec b = (None, AList.update (sp_ID spec) spec b)"

definition noop_Remove :: "string \<Rightarrow> noopState \<Rightarrow> string option \<times> noopState" where
  "noop_Remove i b = (None, AList.delete i b)"

definition noop_List :: "(noopState \<Rightarrow> noopState) \<Rightarrow> noopState \<Rightarrow> policySpec list" where
  "noop_List ord b = map snd (ord b)"

definition newNoopEnforcer :: "noopState enforcer" where
  "newNoopEnforcer = \<lparr>en_apply = noop_Apply, en_remove = noop_Remove\<rparr>"

subsection \<open>The ledger file\<close>

record ledgerProvider =
  lp_path :: string
  lp_reloadInterval :: duration
  lp_cached :: "(string, policySpec) gomap option"
  lp_lastLoaded :: instant

definition NewFileProvider :: "string \<Rightarrow> duration \<Rightarrow> ledgerProvider" where
  "NewFileProvider path reload = \<lparr>lp_path = path, lp_reloadInterval = reload, lp_cached = None, lp_lastLoaded = zeroTime\<rparr>"

definition ledgerMap :: "policySpec list \<Rightarrow> (string, policySpec) gomap" where
  "ledgerMap specs = fold (\<lambda>spec m. if sp_ID spec = [] then m else AList.update (sp_ID spec) spec m) specs []"

text \<open>\<open>file\<close> is what reading the file gives, \<open>parse\<close> the JSON decoder, \<open>canceled\<close> whether the context is over.\<close>

definition ledger_Snapshot ::
    "bool \<Rightarrow> bytes option \<Rightarrow> (bytes \<Rightarrow> policySpec list option) \<Rightarrow> instant \<Rightarrow> ledgerProvider
      \<Rightarrow> (string + (string, policySpec) gomap) \<times> ledgerProvider" where
  "ledger_Snapshot canceled file parse now f =
     (let stale = (lp_reloadInterval f \<le> 0 \<or> now - lp_lastLoaded f > lp_reloadInterval f);
          load = (if canceled then (Inl ''context canceled'', f)
                  else case file of
                         None \<Rightarrow> (Inl ''read snapshot'', f)
                       | Some data \<Rightarrow>
                           (case parse data of
                              None \<Rightarrow> (Inl ''parse snapshot'', f)
                            | Some specs \<Rightarrow> (Inr (ledgerMap specs),
                                f\<lparr>lp_cached := Some (ledgerMap specs), lp_lastLoaded := now\<rparr>))) in
      if lp_path f = [] then (Inl ''snapshot path not configured'', f)
      else case lp_cached f of
             Some m \<Rightarrow> if \<not> stale then (Inr m, f) else load
           | None \<Rightarrow> load)"

subsection \<open>Waiting\<close>

text \<open>\<open>base\<close> is the interval a loop takes when none is configured: five seconds, thirty for the reconciler.\<close>

definition loopInterval :: "duration \<Rightarrow> duration \<Rightarrow> duration" where
  "loopInterval base interval = (if interval \<le> 0 then base else interval)"

definition nextInterval :: "duration \<Rightarrow> duration \<Rightarrow> bool \<Rightarrow> instant option \<Rightarrow> instant \<Rightarrow> duration" where
  "nextInterval base interval kill dl now =
     (let i = loopInterval base interval in
      if kill then i
      else case dl of
             None \<Rightarrow> i
           | Some d \<Rightarrow> let remaining = d - now in
               if remaining \<le> 0 then second
               else if remaining < i then (if remaining < second then second else remaining)
               else i)"

definition bumpBackoff :: "duration \<Rightarrow> duration \<Rightarrow> duration \<Rightarrow> duration \<Rightarrow> duration" where
  "bumpBackoff base interval maxBackoff cur =
     (let b = loopInterval base interval; next = wrap64 (cur * 2) in
      if cur = 0 then (if maxBackoff > 0 \<and> b > maxBackoff then maxBackoff else b)
      else if maxBackoff > 0 \<and> next > maxBackoff then maxBackoff else next)"

subsection \<open>The scheduler\<close>

datatype loop_error = BackendFailed string | StoreFailed store_error | LedgerFailed string

definition firstErr :: "loop_error option \<Rightarrow> loop_error option \<Rightarrow> loop_error option" where
  "firstErr e e' = (if e = None then e' else e)"

type_synonym 'b loopState = "loop_error option \<times> agentStore \<times> 'b"

definition sweepOne :: "storeIO \<Rightarrow> 'b enforcer \<Rightarrow> instant \<Rightarrow> agentRecord \<Rightarrow> 'b loopState \<Rightarrow> 'b loopState" where
  "sweepOne IO N now r st =
     (case st of (e, s, b) \<Rightarrow>
      case en_remove N (sp_ID (ar_Spec r)) b of
        (Some er, b) \<Rightarrow> (firstErr e (Some (BackendFailed er)), s, b)
      | (None, b) \<Rightarrow>
          (case store_Remove IO (sp_ID (ar_Spec r)) now s of
             (er, s) \<Rightarrow> (firstErr e (map_option StoreFailed er), s, b)))"

definition sched_reconcile :: "storeIO \<Rightarrow> recordOrder \<Rightarrow> 'b enforcer \<Rightarrow> instant \<Rightarrow> agentStore \<Rightarrow> 'b \<Rightarrow> 'b loopState" where
  "sched_reconcile IO ord N now s b = fold (sweepOne IO N now) (Expired ord now s) (None, s, b)"

record scheduler =
  sd_interval :: duration
  sd_maxBackoff :: duration
  sd_backoff :: duration

text \<open>What a pass of \<^verbatim>\<open>Run\<close> does once its timers have fired.\<close>

definition sched_pass ::
    "storeIO \<Rightarrow> recordOrder \<Rightarrow> 'b enforcer \<Rightarrow> bool \<Rightarrow> instant \<Rightarrow> scheduler \<times> agentStore \<times> 'b \<Rightarrow> scheduler \<times> agentStore \<times> 'b" where
  "sched_pass IO ord N kill now st =
     (case st of (sd, s, b) \<Rightarrow>
      if kill then (sd, s, b)
      else case sched_reconcile IO ord N now s b of
             (None, s, b) \<Rightarrow> (sd\<lparr>sd_backoff := 0\<rparr>, s, b)
           | (Some e, s, b) \<Rightarrow>
               (sd\<lparr>sd_backoff := bumpBackoff (5 * second) (sd_interval sd) (sd_maxBackoff sd) (sd_backoff sd)\<rparr>, s, b))"

subsection \<open>The reconciler\<close>

record reconciler =
  rc_interval :: duration
  rc_maxBackoff :: duration
  rc_backoff :: duration
  rc_driftGrace :: duration
  rc_lastLedgerSync :: instant

definition ledgerRemove :: "'b enforcer \<Rightarrow> agentRecord \<Rightarrow> 'b loopState \<Rightarrow> 'b loopState" where
  "ledgerRemove N r st =
     (case st of (e, s, b) \<Rightarrow>
      case en_remove N (sp_ID (ar_Spec r)) b of (er, b) \<Rightarrow> (firstErr e (map_option BackendFailed er), s, b))"

definition ledgerApply :: "storeIO \<Rightarrow> 'b enforcer \<Rightarrow> instant \<Rightarrow> policySpec \<Rightarrow> 'b loopState \<Rightarrow> 'b loopState" where
  "ledgerApply IO N now spec st =
     (case st of (e, s, b) \<Rightarrow>
      case en_apply N spec b of
        (None, b) \<Rightarrow> (e, s, b)
      | (Some er, b) \<Rightarrow>
          (case store_Remove IO (sp_ID spec) now s of
             (er2, s) \<Rightarrow> (firstErr (firstErr e (Some (BackendFailed er))) (map_option StoreFailed er2), s, b)))"

definition syncLedger ::
    "storeIO \<Rightarrow> recordOrder \<Rightarrow> ledgerOrder \<Rightarrow> 'b enforcer \<Rightarrow> instant \<Rightarrow> (string, policySpec) gomap \<Rightarrow> 'b loopState \<Rightarrow> 'b loopState" where
  "syncLedger IO ordR ordL N now l st =
     (case st of (e, s, b) \<Rightarrow>
      case ReconcileLedger IO ordR ordL (Some l) now now s of
        (Inl er, s) \<Rightarrow> (firstErr e (Some (StoreFailed er)), s, b)
      | (Inr (removed, added), s) \<Rightarrow>
          fold (ledgerApply IO N now) added (fold (ledgerRemove N) removed (e, s, b)))"

definition reapplyOne :: "storeIO \<Rightarrow> 'b enforcer \<Rightarrow> instant \<Rightarrow> agentRecord \<Rightarrow> 'b loopState \<Rightarrow> 'b loopState" where
  "reapplyOne IO N now r st =
     (case st of (e, s, b) \<Rightarrow>
      if ar_ExpiresAt r \<noteq> zeroTime \<and> now > ar_ExpiresAt r then sweepOne IO N now r (e, s, b)
      else case en_apply N (ar_Spec r) b of (er, b) \<Rightarrow> (firstErr e (map_option BackendFailed er), s, b))"

text \<open>The records with a pre-consensus deadline ahead come first.\<close>

definition reapplyOrder :: "recordOrder \<Rightarrow> instant \<Rightarrow> agentStore \<Rightarrow> agentRecord list" where
  "reapplyOrder ord now s =
     (let early = (\<lambda>r. ar_PreConsensus r \<noteq> zeroTime \<and> now < ar_PreConsensus r); rs = store_List ord s in
      filter early rs @ filter (\<lambda>r. \<not> early r) rs)"

text \<open>\<open>ledger\<close> is \<open>None\<close> when no provider is configured, otherwise what its snapshot returns.\<close>

definition rec_reconcile ::
    "storeIO \<Rightarrow> recordOrder \<Rightarrow> ledgerOrder \<Rightarrow> 'b enforcer \<Rightarrow> bool \<Rightarrow> instant \<Rightarrow> (string + (string, policySpec) gomap) option
      \<Rightarrow> reconciler \<Rightarrow> agentStore \<Rightarrow> 'b \<Rightarrow> reconciler \<times> 'b loopState" where
  "rec_reconcile IO ordR ordL N kill now ledger rc s b =
     (if kill then (rc, None, s, b)
      else
        let due = (rc_driftGrace rc \<le> 0 \<or> now - rc_lastLedgerSync rc \<ge> rc_driftGrace rc);
            (rc, st) = (if \<not> due then (rc, None, s, b)
                        else case ledger of
                               None \<Rightarrow> (rc, None, s, b)
                             | Some (Inl er) \<Rightarrow> (rc, Some (LedgerFailed er), s, b)
                             | Some (Inr l) \<Rightarrow> (rc\<lparr>rc_lastLedgerSync := now\<rparr>, syncLedger IO ordR ordL N now l (None, s, b))) in
        (rc, fold (reapplyOne IO N now) (reapplyOrder ordR now (fst (snd st))) st))"

definition rec_pass ::
    "storeIO \<Rightarrow> recordOrder \<Rightarrow> ledgerOrder \<Rightarrow> 'b enforcer \<Rightarrow> bool \<Rightarrow> instant \<Rightarrow> (string + (string, policySpec) gomap) option
      \<Rightarrow> reconciler \<times> agentStore \<times> 'b \<Rightarrow> reconciler \<times> agentStore \<times> 'b" where
  "rec_pass IO ordR ordL N kill now ledger st =
     (case st of (rc, s, b) \<Rightarrow>
      if kill then (rc, s, b)
      else case rec_reconcile IO ordR ordL N kill now ledger rc s b of
             (rc, None, s, b) \<Rightarrow> (rc\<lparr>rc_backoff := 0\<rparr>, s, b)
           | (rc, Some e, s, b) \<Rightarrow>
               (rc\<lparr>rc_backoff := bumpBackoff (30 * second) (rc_interval rc) (rc_maxBackoff rc) (rc_backoff rc)\<rparr>, s, b))"


subsection \<open>What the loops rely on\<close>

definition storeIDs :: "agentStore \<Rightarrow> string set" where
  "storeIDs s = fst ` set (sf_records s)"

definition specIDs :: "agentRecord list \<Rightarrow> string set" where
  "specIDs rs = (\<lambda>r. sp_ID (ar_Spec r)) ` set rs"

definition lapsed :: "instant \<Rightarrow> agentRecord \<Rightarrow> bool" where
  "lapsed now r \<longleftrightarrow> ar_ExpiresAt r \<noteq> zeroTime \<and> now > ar_ExpiresAt r"

text \<open>The store keeps every record under the identifier of its policy.\<close>

definition keyed :: "agentStore \<Rightarrow> bool" where
  "keyed s \<longleftrightarrow> gm_wf (sf_records s) \<and> (\<forall>(k, r) \<in> set (sf_records s). k = sp_ID (ar_Spec r))"

lemma persist_records [frame_simps]: "sf_records (snd (markDirtyAndMaybePersist IO now s)) = sf_records s"
  by (simp add: markDirtyAndMaybePersist_def persistNowLocked_def finishPersist_def markDirty_def split: sum.split)

lemma Remove_records: "store_Remove IO i now s = (e, s') \<Longrightarrow> sf_records s' = filter (\<lambda>(k, _). k \<noteq> i) (sf_records s)"
  using persist_records [of IO now "removeCore i s"]
  by (auto simp: store_Remove_def removeCore_def AList.delete_eq intro: filter_cong)

lemma keyed_filter: "keyed s \<Longrightarrow> sf_records s' = filter P (sf_records s) \<Longrightarrow> keyed s'"
  by (simp add: keyed_def)

lemma firstErr_None [simp]: "firstErr e e' = None \<longleftrightarrow> e = None \<and> e' = None"
  by (auto simp: firstErr_def)

locale enforcement_backend =
  fixes N :: "'b enforcer" and installed :: "'b \<Rightarrow> string set"
  assumes apply_installs: "en_apply N spec b = (None, b') \<Longrightarrow> installed b' = insert (sp_ID spec) (installed b)"
    and apply_fails: "en_apply N spec b = (Some e, b') \<Longrightarrow> installed b' = installed b"
    and remove_drops: "en_remove N i b = (None, b') \<Longrightarrow> installed b' = installed b - {i}"
    and remove_fails: "en_remove N i b = (Some e, b') \<Longrightarrow> installed b' = installed b"
begin

lemma sweepOne_effect:
  assumes "sweepOne IO N now r (e, s, b) = (e', s', b')"
  shows "(installed b' = installed b - {sp_ID (ar_Spec r)} \<and> sf_records s' = filter (\<lambda>(k, _). k \<noteq> sp_ID (ar_Spec r)) (sf_records s)
        \<and> (e' = None \<longrightarrow> e = None))
      \<or> (installed b' = installed b \<and> s' = s \<and> e' \<noteq> None)"
  using assms
  by (auto simp: sweepOne_def dest: remove_drops remove_fails Remove_records split: prod.splits option.splits)

lemma sweep_effect:
  assumes "fold (sweepOne IO N now) rs (e, s, b) = (e', s', b')"
  shows "\<exists>R \<subseteq> specIDs rs. installed b' = installed b - R \<and> sf_records s' = filter (\<lambda>(k, _). k \<notin> R) (sf_records s)
    \<and> (e' = None \<longrightarrow> e = None \<and> R = specIDs rs)"
  using assms
proof (induction rs arbitrary: e s b)
  case (Cons r rs)
  let ?i = "sp_ID (ar_Spec r)"
  obtain e1 s1 b1 where step: "sweepOne IO N now r (e, s, b) = (e1, s1, b1)" by (metis prod_cases3)
  have "fold (sweepOne IO N now) rs (e1, s1, b1) = (e', s', b')" using Cons.prems step by simp
  then obtain R where R: "R \<subseteq> specIDs rs" "installed b' = installed b1 - R" "sf_records s' = filter (\<lambda>(k, _). k \<notin> R) (sf_records s1)"
    "e' = None \<longrightarrow> e1 = None \<and> R = specIDs rs" using Cons.IH by blast
  consider (removed) "installed b1 = installed b - {?i}" "sf_records s1 = filter (\<lambda>(k, _). k \<noteq> ?i) (sf_records s)" "e1 = None \<longrightarrow> e = None"
    | (failed) "installed b1 = installed b" "s1 = s" "e1 \<noteq> None"
    using sweepOne_effect [OF step] by blast
  then show ?case
  proof cases
    case removed
    then show ?thesis using R
      by (intro exI [of _ "insert ?i R"]) (auto simp: specIDs_def intro!: filter_cong)
  next
    case failed
    then show ?thesis using R by (intro exI [of _ R]) (auto simp: specIDs_def)
  qed
qed (simp add: specIDs_def)

text \<open>The backend is asked before the store forgets, so the store knows every installed rule.\<close>

lemma sweep_tracked:
  assumes "sched_reconcile IO ord N now s b = (e, s', b')" and "installed b \<subseteq> storeIDs s"
  shows "installed b' \<subseteq> storeIDs s'"
proof -
  obtain R where "installed b' = installed b - R" "sf_records s' = filter (\<lambda>(k, _). k \<notin> R) (sf_records s)"
    using sweep_effect [OF assms(1) [unfolded sched_reconcile_def]] by (elim exE conjE)
  then show ?thesis using assms(2) by (force simp: storeIDs_def)
qed

lemma reapplyOne_effect:
  assumes "reapplyOne IO N now r (e, s, b) = (e', s', b')" and "e' = None"
  shows "e = None \<and> (if lapsed now r
     then installed b' = installed b - {sp_ID (ar_Spec r)} \<and> sf_records s' = filter (\<lambda>(k, _). k \<noteq> sp_ID (ar_Spec r)) (sf_records s)
     else installed b' = insert (sp_ID (ar_Spec r)) (installed b) \<and> s' = s)"
  using assms sweepOne_effect [of IO now r e s b e' s' b']
  by (auto simp: reapplyOne_def lapsed_def dest: apply_installs split: prod.splits if_splits)

lemma reapply_effect:
  assumes "fold (reapplyOne IO N now) rs (e, s, b) = (None, s', b')" and "distinct (map (\<lambda>r. sp_ID (ar_Spec r)) rs)"
  shows "e = None \<and> installed b' = (installed b - specIDs (filter (lapsed now) rs)) \<union> specIDs (filter (\<lambda>r. \<not> lapsed now r) rs)
    \<and> sf_records s' = filter (\<lambda>(k, _). k \<notin> specIDs (filter (lapsed now) rs)) (sf_records s)"
  using assms
proof (induction rs arbitrary: e s b)
  case (Cons r rs)
  let ?i = "sp_ID (ar_Spec r)"
  obtain e1 s1 b1 where step: "reapplyOne IO N now r (e, s, b) = (e1, s1, b1)" by (metis prod_cases3)
  have "fold (reapplyOne IO N now) rs (e1, s1, b1) = (None, s', b')" using Cons.prems(1) step by simp
  then have rest: "e1 = None" "installed b' = (installed b1 - specIDs (filter (lapsed now) rs)) \<union> specIDs (filter (\<lambda>r. \<not> lapsed now r) rs)"
    "sf_records s' = filter (\<lambda>(k, _). k \<notin> specIDs (filter (lapsed now) rs)) (sf_records s1)"
    using Cons.IH Cons.prems(2) by auto
  have fresh: "?i \<notin> specIDs (filter P rs)" for P using Cons.prems(2) by (auto simp: specIDs_def)
  show ?case
  proof (cases "lapsed now r")
    case True
    then have "installed b1 = installed b - {?i}" "sf_records s1 = filter (\<lambda>(k, _). k \<noteq> ?i) (sf_records s)" "e = None"
      using reapplyOne_effect [OF step rest(1)] by auto
    moreover have "specIDs (filter (lapsed now) (r # rs)) = insert ?i (specIDs (filter (lapsed now) rs))"
      "specIDs (filter (\<lambda>r. \<not> lapsed now r) (r # rs)) = specIDs (filter (\<lambda>r. \<not> lapsed now r) rs)"
      using True by (simp_all add: specIDs_def)
    ultimately show ?thesis using rest by (auto intro!: filter_cong)
  next
    case False
    then have "installed b1 = insert ?i (installed b)" "s1 = s" "e = None"
      using reapplyOne_effect [OF step rest(1)] by auto
    moreover have "specIDs (filter (lapsed now) (r # rs)) = specIDs (filter (lapsed now) rs)"
      "specIDs (filter (\<lambda>r. \<not> lapsed now r) (r # rs)) = insert ?i (specIDs (filter (\<lambda>r. \<not> lapsed now r) rs))"
      using False by (simp_all add: specIDs_def)
    ultimately show ?thesis using rest fresh [of "lapsed now"] by auto
  qed
qed (simp add: specIDs_def)

lemma ledgerRemove_effect:
  assumes "fold (ledgerRemove N) rs (e, s, b) = (e', s', b')"
  shows "s' = s \<and> installed b' \<subseteq> installed b \<and> installed b - specIDs rs \<subseteq> installed b'
    \<and> (e' = None \<longrightarrow> e = None \<and> installed b' = installed b - specIDs rs)"
  using assms
proof (induction rs arbitrary: e s b)
  case (Cons r rs)
  let ?i = "sp_ID (ar_Spec r)"
  obtain er b1 where call: "en_remove N ?i b = (er, b1)" by (metis surj_pair)
  have one: "installed b1 \<subseteq> installed b" "installed b - {?i} \<subseteq> installed b1" "er = None \<longrightarrow> installed b1 = installed b - {?i}"
    using remove_drops [of ?i b b1] remove_fails [of ?i b _ b1] call by (cases er; simp)+
  have step: "ledgerRemove N r (e, s, b) = (firstErr e (map_option BackendFailed er), s, b1)"
    using call by (simp add: ledgerRemove_def)
  have "fold (ledgerRemove N) rs (firstErr e (map_option BackendFailed er), s, b1) = (e', s', b')"
    using Cons.prems step by simp
  from Cons.IH [OF this] one show ?case by (auto simp: specIDs_def)
qed (simp add: specIDs_def)

lemma ledgerApply_one:
  assumes "ledgerApply IO N now spec (e, s, b) = (e1, s1, b1)"
  shows "installed b \<subseteq> installed b1 \<and> installed b1 \<subseteq> insert (sp_ID spec) (installed b) \<and> storeIDs s1 \<subseteq> storeIDs s
    \<and> (keyed s \<longrightarrow> keyed s1) \<and> (e1 = None \<longrightarrow> e = None \<and> s1 = s \<and> installed b1 = insert (sp_ID spec) (installed b))"
proof -
  obtain er b2 where call: "en_apply N spec b = (er, b2)" by (metis surj_pair)
  show ?thesis
  proof (cases er)
    case None
    then have "installed b2 = insert (sp_ID spec) (installed b)" using apply_installs call by simp
    then show ?thesis using assms call None by (auto simp: ledgerApply_def)
  next
    case (Some x)
    then have same: "installed b2 = installed b" using apply_fails call by simp
    obtain er2 s2 where rem: "store_Remove IO (sp_ID spec) now s = (er2, s2)" by (metis surj_pair)
    have "storeIDs s2 \<subseteq> storeIDs s" "keyed s \<longrightarrow> keyed s2"
      using Remove_records [OF rem] keyed_filter by (auto simp: storeIDs_def)
    then show ?thesis using assms call Some same rem by (auto simp: ledgerApply_def)
  qed
qed

lemma ledgerApply_effect:
  assumes "fold (ledgerApply IO N now) specs (e, s, b) = (e', s', b')"
  shows "installed b \<subseteq> installed b' \<and> installed b' \<subseteq> installed b \<union> sp_ID ` set specs \<and> storeIDs s' \<subseteq> storeIDs s
    \<and> (keyed s \<longrightarrow> keyed s') \<and> (e' = None \<longrightarrow> e = None \<and> s' = s \<and> installed b' = installed b \<union> sp_ID ` set specs)"
  using assms
proof (induction specs arbitrary: e s b)
  case (Cons spec specs)
  obtain e1 s1 b1 where step: "ledgerApply IO N now spec (e, s, b) = (e1, s1, b1)" by (metis prod_cases3)
  have "fold (ledgerApply IO N now) specs (e1, s1, b1) = (e', s', b')" using Cons.prems step by simp
  from Cons.IH [OF this] ledgerApply_one [OF step] show ?case by auto
qed simp

end

subsection \<open>A ledger sync\<close>

definition ledger_keyed :: "(string, policySpec) gomap \<Rightarrow> bool" where
  "ledger_keyed l \<longleftrightarrow> gm_wf l \<and> (\<forall>(k, spec) \<in> set l. k = sp_ID spec \<and> k \<noteq> [])"

lemma ledgerMap_keyed: "ledger_keyed (ledgerMap specs)"
proof -
  have "ledger_keyed m \<Longrightarrow> ledger_keyed (fold (\<lambda>spec m. if sp_ID spec = [] then m else AList.update (sp_ID spec) spec m) specs m)" for m
  proof (induction specs arbitrary: m)
    case (Cons spec specs)
    have "ledger_keyed (AList.update (sp_ID spec) spec m)" if "sp_ID spec \<noteq> []"
      using Cons.prems that gm_all_update [of "\<lambda>(k, spec). k = sp_ID spec \<and> k \<noteq> []" m "sp_ID spec" spec]
      by (simp add: ledger_keyed_def list_all_iff)
    then show ?case using Cons by simp
  qed simp
  moreover have "ledger_keyed []" by (simp add: ledger_keyed_def)
  ultimately show ?thesis by (simp add: ledgerMap_def)
qed

lemma adopt_one:
  assumes "adoptPolicy sha t (k, spec) (a, s) = (a', s')" and "k = sp_ID spec" and "keyed s"
  shows "keyed s' \<and> storeIDs s \<subseteq> storeIDs s' \<and> sp_ID ` set a' \<subseteq> sp_ID ` set a \<union> storeIDs s'"
proof (cases "sp_ID spec = [] \<or> map_of (sf_records s) k \<noteq> None")
  case True
  then show ?thesis using assms by (auto simp: adoptPolicy_def)
next
  case False
  then have new: "a' = a @ [spec]" "sf_records s' = AList.update k (ledgerRecord spec t) (sf_records s)"
    using assms(1) by (auto simp: adoptPolicy_def Let_def frame_simps)
  have "sp_ID (ar_Spec (ledgerRecord spec t)) = k" using assms(2) by (simp add: ledgerRecord_def freshRecord_def Let_def)
  then have "keyed s'"
    using assms(3) new(2) gm_all_update [of "\<lambda>(k, r). k = sp_ID (ar_Spec r)" "sf_records s" k "ledgerRecord spec t"]
    by (simp add: keyed_def list_all_iff)
  moreover have "storeIDs s' = insert k (storeIDs s)"
    using new(2) by (simp add: storeIDs_def dom_map_of_conv_image_fst [symmetric] update_conv')
  ultimately show ?thesis using new(1) assms(2) by auto
qed

lemma adopt_all:
  assumes "fold (adoptPolicy sha t) l (a, s) = (a', s')" and "\<forall>(k, spec) \<in> set l. k = sp_ID spec" and "keyed s"
  shows "keyed s' \<and> storeIDs s \<subseteq> storeIDs s' \<and> sp_ID ` set a' \<subseteq> sp_ID ` set a \<union> storeIDs s'"
  using assms
proof (induction l arbitrary: a s)
  case (Cons e l)
  obtain k spec where e: "e = (k, spec)" by (cases e)
  obtain a1 s1 where step: "adoptPolicy sha t (k, spec) (a, s) = (a1, s1)" by (metis surj_pair)
  have one: "keyed s1" "storeIDs s \<subseteq> storeIDs s1" "sp_ID ` set a1 \<subseteq> sp_ID ` set a \<union> storeIDs s1"
    using adopt_one [OF step] Cons.prems(2,3) by (simp_all add: e)
  have "fold (adoptPolicy sha t) l (a1, s1) = (a', s')" using Cons.prems(1) step by (simp add: e)
  then have "keyed s' \<and> storeIDs s1 \<subseteq> storeIDs s' \<and> sp_ID ` set a' \<subseteq> sp_ID ` set a1 \<union> storeIDs s'"
    using Cons.IH one(1) Cons.prems(2) by simp
  then show ?case using one(2,3) by blast
qed auto

lemma ledger_sync:
  assumes "reconcileCore sha ordR ordL l t s = (removed, added, s')"
    and "iter_order ordR" and "iter_order ordL" and "ledger_keyed l" and "keyed s"
  shows "keyed s'" and "storeIDs s - specIDs removed \<subseteq> storeIDs s'" and "sp_ID ` set added \<subseteq> storeIDs s'"
    and "storeIDs s' = fst ` set l" and "specIDs removed = storeIDs s - fst ` set l"
    and "k \<in> fst ` set l \<Longrightarrow> map_of (sf_records s') k =
      Some (case map_of (sf_records s) k of Some r \<Rightarrow> r | None \<Rightarrow> ledgerRecord (the (map_of l k)) t)"
proof -
  have wf: "gm_wf l" "gm_wf (sf_records s)" using assms(4,5) by (simp_all add: ledger_keyed_def keyed_def)
  have kept: "keyed (keepListed l s)" using assms(5) by (auto simp: keyed_def keepListed_def)
  have run: "fold (adoptPolicy sha t) (ordL l) ([], keepListed l s) = (added, s')"
    and rem: "removed = map snd (filter (\<lambda>e. map_of l (fst e) = None) (ordR (sf_records s)))"
    using assms(1) by (auto simp: reconcileCore_eq Let_def split: prod.splits)
  have "\<forall>(k, spec) \<in> set (ordL l). k = sp_ID spec" using assms(3,4) by (auto simp: iter_order_set ledger_keyed_def)
  note all = adopt_all [OF run this kept]
  show "keyed s'" and "sp_ID ` set added \<subseteq> storeIDs s'" using all by auto
  have named: "map_of l k = Some spec \<Longrightarrow> sp_ID spec \<noteq> []" for k spec
    using assms(4) by (auto simp: ledger_keyed_def dest: map_of_SomeD)
  have in_l: "k \<in> fst ` set l \<longleftrightarrow> (\<exists>spec. map_of l k = Some spec \<and> sp_ID spec \<noteq> [])" for k
    using named [of k] by (auto simp: dom_map_of_conv_image_fst [symmetric])
  have recs: "map_of (sf_records s') k = (case map_of l k of None \<Rightarrow> None
     | Some spec \<Rightarrow> Some (case map_of (sf_records s) k of Some r \<Rightarrow> r | None \<Rightarrow> ledgerRecord spec t))" for k
    using adoptPolicy_fold [of "ordL l" sha t "[]" "keepListed l s" k] run assms(3) wf named [of k]
    by (auto simp: iter_order_wf map_of_iter_order keepListed_def map_of_filter_wf split: option.splits)
  show "map_of (sf_records s') k =
      Some (case map_of (sf_records s) k of Some r \<Rightarrow> r | None \<Rightarrow> ledgerRecord (the (map_of l k)) t)" if "k \<in> fst ` set l"
  proof -
    obtain spec where "map_of l k = Some spec" using \<open>k \<in> fst ` set l\<close> in_l by blast
    then show ?thesis using recs [of k] by (simp split: option.splits)
  qed
  have "storeIDs s' = dom (map_of (sf_records s'))" "dom (map_of l) = fst ` set l"
    by (simp_all add: storeIDs_def dom_map_of_conv_image_fst)
  moreover have "dom (map_of (sf_records s')) = dom (map_of l)" by (auto simp: dom_def recs split: option.splits)
  ultimately show ids: "storeIDs s' = fst ` set l" by simp
  have "specIDs removed = {k \<in> storeIDs s. map_of l k = None}"
    using assms(2,5) unfolding rem specIDs_def storeIDs_def keyed_def by (force simp: iter_order_set)
  then show gone: "specIDs removed = storeIDs s - fst ` set l" by (auto simp: map_of_eq_None_iff)
  show "storeIDs s - specIDs removed \<subseteq> storeIDs s'" using ids gone by auto
qed

definition syncDue :: "reconciler \<Rightarrow> instant \<Rightarrow> bool" where
  "syncDue rc now \<longleftrightarrow> rc_driftGrace rc \<le> 0 \<or> now - rc_lastLedgerSync rc \<ge> rc_driftGrace rc"

lemma rec_reconcile_due:
  assumes "syncDue rc now"
  shows "rec_reconcile IO ordR ordL N False now (Some (Inr l)) rc s b =
    (let st = syncLedger IO ordR ordL N now l (None, s, b) in
     (rc\<lparr>rc_lastLedgerSync := now\<rparr>, fold (reapplyOne IO N now) (reapplyOrder ordR now (fst (snd st))) st))"
  using assms by (simp add: rec_reconcile_def syncDue_def Let_def)

lemma reapplyOrder_mset: "mset (reapplyOrder ord now s) = mset (store_List ord s)"
  by (simp add: reapplyOrder_def Let_def)

lemma reapplyOrder_ids:
  assumes "iter_order ord" and "keyed s"
  shows "distinct (map (\<lambda>r. sp_ID (ar_Spec r)) (reapplyOrder ord now s))"
    and "set (reapplyOrder ord now s) = snd ` set (sf_records s)"
    and "specIDs (filter P (reapplyOrder ord now s)) = {k. \<exists>r. map_of (sf_records s) k = Some r \<and> P r}"
proof -
  have keys: "map (\<lambda>r. sp_ID (ar_Spec r)) (map snd m) = map fst m"
    if "\<forall>(k, r) \<in> set m. k = sp_ID (ar_Spec r)" for m :: "(string, agentRecord) gomap"
    using that by (induction m) auto
  have "\<forall>(k, r) \<in> set (ord (sf_records s)). k = sp_ID (ar_Spec r)"
    using assms by (simp add: iter_order_set keyed_def)
  then have "map (\<lambda>r. sp_ID (ar_Spec r)) (store_List ord s) = map fst (ord (sf_records s))"
    using keys by (simp add: store_List_def)
  moreover have "gm_wf (ord (sf_records s))" using assms by (simp add: iter_order_wf keyed_def)
  ultimately have "distinct (map (\<lambda>r. sp_ID (ar_Spec r)) (store_List ord s))" by (simp add: gm_wf_def)
  moreover have "mset (map (\<lambda>r. sp_ID (ar_Spec r)) (reapplyOrder ord now s)) = mset (map (\<lambda>r. sp_ID (ar_Spec r)) (store_List ord s))"
    by (simp add: reapplyOrder_mset)
  ultimately show "distinct (map (\<lambda>r. sp_ID (ar_Spec r)) (reapplyOrder ord now s))"
    using mset_eq_imp_distinct_iff by metis
  show elems: "set (reapplyOrder ord now s) = snd ` set (sf_records s)"
    using mset_eq_setD [OF reapplyOrder_mset] assms(1) by (simp add: store_List_def iter_order_set)
  have "gm_wf (sf_records s)" "\<forall>(k, r) \<in> set (sf_records s). k = sp_ID (ar_Spec r)" using assms(2) by (simp_all add: keyed_def)
  then show "specIDs (filter P (reapplyOrder ord now s)) = {k. \<exists>r. map_of (sf_records s) k = Some r \<and> P r}"
    by (force simp: specIDs_def elems gm_mem_iff [symmetric])
qed

context enforcement_backend
begin

lemma syncLedger_effect:
  assumes "syncLedger IO ordR ordL N now l (None, s, b) = (None, s', b')"
    and "reconcileCore (io_sha256 IO) ordR ordL l now s = (removed, added, s1)"
  shows "sf_records s' = sf_records s1 \<and> installed b' = (installed b - specIDs removed) \<union> sp_ID ` set added"
proof -
  obtain r s2 where rl: "ReconcileLedger IO ordR ordL (Some l) now now s = (r, s2)" by (metis surj_pair)
  have r: "r = Inr (removed, added)" "sf_records s2 = sf_records s1"
    using rl assms persist_records [of IO now s1]
    by (auto simp: ReconcileLedger_def syncLedger_def split: if_splits prod.splits option.splits)
  obtain e3 s3 b3 where rem: "fold (ledgerRemove N) removed (None, s2, b) = (e3, s3, b3)" by (metis prod_cases3)
  have app: "fold (ledgerApply IO N now) added (e3, s3, b3) = (None, s', b')"
    using assms(1) rl r(1) rem by (simp add: syncLedger_def)
  show ?thesis using ledgerRemove_effect [OF rem] ledgerApply_effect [OF app] r(2) by auto
qed

lemma cycle_effect:
  assumes "syncDue rc now" and "iter_order ordR" and "iter_order ordL" and "ledger_keyed l" and "keyed s"
    and "installed b \<subseteq> storeIDs s"
    and "rec_reconcile IO ordR ordL N False now (Some (Inr l)) rc s b = (rc', None, s', b')"
  shows "installed b' = storeIDs s' \<and> storeIDs s' = {k \<in> fst ` set l. \<not> lapsed now
     (case map_of (sf_records s) k of Some r \<Rightarrow> r | None \<Rightarrow> ledgerRecord (the (map_of l k)) now)}"
proof -
  obtain e1 s1 b1 where sync: "syncLedger IO ordR ordL N now l (None, s, b) = (e1, s1, b1)" by (metis prod_cases3)
  have fold: "fold (reapplyOne IO N now) (reapplyOrder ordR now s1) (e1, s1, b1) = (None, s', b')"
    using assms(7) sync by (simp add: rec_reconcile_due [OF assms(1)] Let_def)
  obtain removed added s2 where core: "reconcileCore (io_sha256 IO) ordR ordL l now s = (removed, added, s2)"
    by (metis prod_cases3)
  note L = ledger_sync [OF core assms(2-5)]
  have e1: "e1 = None"
  proof -
    have "fold (reapplyOne IO N now) rs (e1, s1, b1) = (None, s', b') \<Longrightarrow> e1 = None" for rs
    proof (induction rs arbitrary: e1 s1 b1)
      case (Cons r rs)
      obtain e2 s2 b2 where step: "reapplyOne IO N now r (e1, s1, b1) = (e2, s2, b2)" by (metis prod_cases3)
      then have "e2 = None" using Cons by simp
      then show ?case using reapplyOne_effect [OF step] by simp
    qed simp
    then show ?thesis using fold by blast
  qed
  have same: "sf_records s1 = sf_records s2" and inst: "installed b1 = (installed b - specIDs removed) \<union> sp_ID ` set added"
    using syncLedger_effect [OF sync [unfolded e1] core] by simp_all
  have keyed: "keyed s1" using L(1) same by (simp add: keyed_def)
  have sub: "installed b1 \<subseteq> storeIDs s1" using inst L(2,3) assms(6) same by (auto simp: storeIDs_def)
  define P where "P = (\<lambda>k r. map_of (sf_records s1) k = Some r)"
  note ids = reapplyOrder_ids [OF assms(2) keyed, where now = now]
  have out: "installed b' = (installed b1 - {k. \<exists>r. P k r \<and> lapsed now r}) \<union> {k. \<exists>r. P k r \<and> \<not> lapsed now r}"
    "sf_records s' = filter (\<lambda>(k, _). k \<notin> {k. \<exists>r. P k r \<and> lapsed now r}) (sf_records s1)"
    using reapply_effect [OF fold ids(1)] by (simp_all add: ids(3) P_def)
  have dom1: "storeIDs s1 = {k. \<exists>r. P k r}"
    by (auto simp: storeIDs_def P_def dom_map_of_conv_image_fst [symmetric])
  have kept: "storeIDs s' = {k. \<exists>r. P k r \<and> \<not> lapsed now r}"
  proof -
    have "storeIDs s' = {k \<in> storeIDs s1. \<not> (\<exists>r. P k r \<and> lapsed now r)}"
      unfolding storeIDs_def out(2) by force
    then show ?thesis using dom1 by (auto simp: P_def)
  qed
  have "P k r \<longleftrightarrow> k \<in> fst ` set l \<and> r = (case map_of (sf_records s) k of Some r \<Rightarrow> r | None \<Rightarrow> ledgerRecord (the (map_of l k)) now)" for k r
  proof -
    have "k \<in> fst ` set l" if "P k r" using that dom1 L(4) same by (auto simp: storeIDs_def)
    then show ?thesis using L(6) [of k] same by (auto simp: P_def)
  qed
  then have "storeIDs s' = {k \<in> fst ` set l. \<not> lapsed now
     (case map_of (sf_records s) k of Some r \<Rightarrow> r | None \<Rightarrow> ledgerRecord (the (map_of l k)) now)}"
    by (auto simp: kept)
  moreover have "installed b' = storeIDs s'" using out(1) sub dom1 kept by (auto simp: P_def)
  ultimately show ?thesis by blast
qed

end

lemma Expired_ids: "iter_order ord \<Longrightarrow> keyed s \<Longrightarrow> specIDs (Expired ord now s) \<subseteq> storeIDs s"
  by (force simp: specIDs_def Expired_def storeIDs_def keyed_def iter_order_set split: option.splits)

lemma Expired_complete:
  assumes "iter_order ord" and "keyed s" and "(k, r) \<in> set (sf_records s)" and "expiryReason now r \<noteq> None"
  shows "k \<in> specIDs (Expired ord now s)"
proof -
  obtain why where "expiryReason now r = Some why" using assms(4) by blast
  then have "r\<lparr>ar_Reason := why\<rparr> \<in> set (Expired ord now s)"
    using assms(1,3) by (force simp: Expired_def iter_order_set)
  moreover have "sp_ID (ar_Spec (r\<lparr>ar_Reason := why\<rparr>)) = k" using assms(2,3) by (auto simp: keyed_def)
  ultimately show ?thesis unfolding specIDs_def by blast
qed

context enforcement_backend
begin

lemma sweep_clean:
  assumes "sched_reconcile IO ord N now s b = (None, s', b')" and "iter_order ord" and "keyed s"
  shows "(\<forall>(k, r) \<in> set (sf_records s'). expiryReason now r = None)
    \<and> storeIDs s' = storeIDs s - specIDs (Expired ord now s) \<and> installed b' = installed b - specIDs (Expired ord now s)"
proof -
  have out: "installed b' = installed b - specIDs (Expired ord now s)"
    "sf_records s' = filter (\<lambda>(k, _). k \<notin> specIDs (Expired ord now s)) (sf_records s)"
    using sweep_effect [OF assms(1) [unfolded sched_reconcile_def]] by auto
  moreover have "\<forall>(k, r) \<in> set (sf_records s'). expiryReason now r = None"
    using Expired_complete [OF assms(2,3), where now = now] by (fastforce simp: out(2) simp del: not_None_eq)
  ultimately show ?thesis by (force simp: storeIDs_def)
qed

text \<open>A rule the store does not know is left alone, whatever fails.\<close>

lemma reapplyOne_other:
  assumes "reapplyOne IO N now r (e, s, b) = (e', s', b')" and "sp_ID (ar_Spec r) \<noteq> p"
  shows "(p \<in> installed b \<longrightarrow> p \<in> installed b') \<and> storeIDs s' \<subseteq> storeIDs s \<and> (keyed s \<longrightarrow> keyed s')"
proof (cases "lapsed now r")
  case True
  then have "sweepOne IO N now r (e, s, b) = (e', s', b')" using assms(1) by (simp add: reapplyOne_def lapsed_def)
  from sweepOne_effect [OF this] assms(2) keyed_filter show ?thesis by (auto simp: storeIDs_def)
next
  case False
  obtain er b1 where call: "en_apply N (ar_Spec r) b = (er, b1)" by (metis surj_pair)
  then have "b' = b1" "s' = s" using assms(1) False by (auto simp: reapplyOne_def lapsed_def)
  then show ?thesis using call apply_installs apply_fails by (cases er) auto
qed

lemma reapply_other:
  assumes "fold (reapplyOne IO N now) rs (e, s, b) = (e', s', b')" and "p \<notin> specIDs rs"
  shows "(p \<in> installed b \<longrightarrow> p \<in> installed b') \<and> storeIDs s' \<subseteq> storeIDs s \<and> (keyed s \<longrightarrow> keyed s')"
  using assms
proof (induction rs arbitrary: e s b)
  case (Cons r rs)
  obtain e1 s1 b1 where step: "reapplyOne IO N now r (e, s, b) = (e1, s1, b1)" by (metis prod_cases3)
  have "fold (reapplyOne IO N now) rs (e1, s1, b1) = (e', s', b')" using Cons.prems(1) step by simp
  then have "(p \<in> installed b1 \<longrightarrow> p \<in> installed b') \<and> storeIDs s' \<subseteq> storeIDs s1 \<and> (keyed s1 \<longrightarrow> keyed s')"
    using Cons.IH Cons.prems(2) by (simp add: specIDs_def)
  moreover have "(p \<in> installed b \<longrightarrow> p \<in> installed b1) \<and> storeIDs s1 \<subseteq> storeIDs s \<and> (keyed s \<longrightarrow> keyed s1)"
    using reapplyOne_other [OF step, of p] Cons.prems(2) by (simp add: specIDs_def eq_commute)
  ultimately show ?case by blast
qed simp

text \<open>What a sync leaves of a policy the ledger does not have: the store forgets it in every case.\<close>

lemma syncLedger_forgets:
  assumes "syncLedger IO ordR ordL N now l (None, s, b) = (e', s', b')"
    and "iter_order ordR" and "iter_order ordL" and "ledger_keyed l" and "keyed s" and "p \<notin> fst ` set l"
  shows "p \<notin> storeIDs s' \<and> keyed s' \<and> (p \<notin> storeIDs s \<longrightarrow> p \<in> installed b \<longrightarrow> p \<in> installed b')"
proof -
  obtain removed added s1 where core: "reconcileCore (io_sha256 IO) ordR ordL l now s = (removed, added, s1)" by (metis prod_cases3)
  note L = ledger_sync [OF core assms(2-5)]
  obtain r s2 where rl: "ReconcileLedger IO ordR ordL (Some l) now now s = (r, s2)" by (metis surj_pair)
  have recs: "sf_records s2 = sf_records s1"
    using rl core persist_records [of IO now s1]
    by (auto simp: ReconcileLedger_def split: if_splits prod.splits option.splits)
  then have base: "p \<notin> storeIDs s2" "keyed s2" using L(1,4) assms(6) by (simp_all add: storeIDs_def keyed_def)
  show ?thesis
  proof (cases r)
    case (Inl er)
    then show ?thesis using assms(1) rl base by (simp add: syncLedger_def)
  next
    case (Inr ra)
    then have sub: "ra = ([], []) \<or> ra = (removed, added)"
      using rl core by (auto simp: ReconcileLedger_def split: if_splits prod.splits option.splits)
    obtain re ad where ra: "ra = (re, ad)" by (cases ra)
    have gone: "specIDs re \<subseteq> storeIDs s" using sub ra L(5) by (auto simp: specIDs_def)
    obtain e3 s3 b3 where rem: "fold (ledgerRemove N) re (None, s2, b) = (e3, s3, b3)" by (metis prod_cases3)
    have app: "fold (ledgerApply IO N now) ad (e3, s3, b3) = (e', s', b')"
      using assms(1) rl Inr ra rem by (simp add: syncLedger_def)
    have "s3 = s2" "installed b - specIDs re \<subseteq> installed b3" using ledgerRemove_effect [OF rem] by simp_all
    moreover have "storeIDs s' \<subseteq> storeIDs s3" "keyed s3 \<longrightarrow> keyed s'" "installed b3 \<subseteq> installed b'"
      using ledgerApply_effect [OF app] by simp_all
    ultimately show ?thesis using base gone by auto
  qed
qed

lemma cycle_forgets:
  assumes "rec_reconcile IO ordR ordL N False now (Some (Inr l)) rc s b = (rc', e', s', b')"
    and "iter_order ordR" and "iter_order ordL" and "ledger_keyed l" and "keyed s" and "p \<notin> fst ` set l" and "syncDue rc now"
  shows "p \<notin> storeIDs s' \<and> keyed s' \<and> (p \<notin> storeIDs s \<longrightarrow> p \<in> installed b \<longrightarrow> p \<in> installed b')"
proof -
  obtain e1 s1 b1 where sync: "syncLedger IO ordR ordL N now l (None, s, b) = (e1, s1, b1)" by (metis prod_cases3)
  have fold: "fold (reapplyOne IO N now) (reapplyOrder ordR now s1) (e1, s1, b1) = (e', s', b')"
    using assms(1) sync by (simp add: rec_reconcile_due [OF assms(7)] Let_def)
  note S = syncLedger_forgets [OF sync assms(2-6)]
  have "specIDs (reapplyOrder ordR now s1) = storeIDs s1"
    using reapplyOrder_ids(3) [of ordR s1 "\<lambda>_. True" now] assms(2) S
    by (auto simp: storeIDs_def dom_map_of_conv_image_fst [symmetric])
  with reapply_other [OF fold, of p] S show ?thesis by auto
qed

lemma orphan_stays:
  assumes "p \<in> installed b" and "p \<notin> storeIDs s" and "iter_order ord" and "keyed s"
    and "sched_reconcile IO ord N now s b = (e', s', b')"
  shows "p \<in> installed b' \<and> p \<notin> storeIDs s'"
proof -
  obtain R where "R \<subseteq> specIDs (Expired ord now s)" "installed b' = installed b - R"
    "sf_records s' = filter (\<lambda>(k, _). k \<notin> R) (sf_records s)"
    using sweep_effect [OF assms(5) [unfolded sched_reconcile_def]] by (elim exE conjE)
  then show ?thesis using assms(1,2) Expired_ids [OF assms(3,4), of now] by (auto simp: storeIDs_def)
qed

end

interpretation noop: enforcement_backend newNoopEnforcer "\<lambda>b. fst ` set b"
proof unfold_locales
  fix spec :: policySpec and b b' :: noopState
  assume "en_apply newNoopEnforcer spec b = (None, b')"
  then have "b' = AList.update (sp_ID spec) spec b" by (simp add: newNoopEnforcer_def noop_Apply_def)
  then have "dom (map_of b') = insert (sp_ID spec) (dom (map_of b))" by (simp add: update_conv')
  then show "fst ` set b' = insert (sp_ID spec) (fst ` set b)" by (simp add: dom_map_of_conv_image_fst)
qed (auto simp: newNoopEnforcer_def noop_Apply_def noop_Remove_def AList.delete_eq)


text \<open>A store kept in memory that holds two policies, and a ledger that has one of them and a new one.\<close>

definition ex_loopStore :: agentStore where
  "ex_loopStore = ex_held\<lparr>sf_persistPath := []\<rparr>"

definition ex_other :: "string \<Rightarrow> policySpec" where
  "ex_other i = ex_parsed\<lparr>sp_ID := i\<rparr>"

definition ex_rules :: noopState where
  "ex_rules = [(''p0'', ex_other ''p0''), (''p1'', ex_parsed)]"

definition ex_rc :: reconciler where
  "ex_rc = \<lparr>rc_interval = 0, rc_maxBackoff = 0, rc_backoff = 0, rc_driftGrace = 0, rc_lastLedgerSync = zeroTime\<rparr>"

lemma ex_loopStore_facts:
  "keyed ex_loopStore" "storeIDs ex_loopStore = {''p0'', ''p1''}" "sf_persistPath ex_loopStore = []"
  "sf_records ex_loopStore = [(''p1'', upsertRecord ex_parsed 5 None), (''p0'', upsertRecord (ex_other ''p0'') 5 None)]"
  by (auto simp: ex_loopStore_def ex_held_def keyed_def gm_wf_def storeIDs_def ex_other_def upsertRecord_fields ex_parsed_fields)

lemma ex_expiry: "gd_TTLSeconds (sp_Guardrails spec) = 30 \<Longrightarrow> ar_ExpiresAt (upsertRecord spec 5 None) = 30 * second + 5"
  by (simp add: upsertRecord_fields secondsDuration_def wrap64_def second_def millisecond_def Let_def)

lemma ex_other_fields: "sp_ID (ex_other i) = i" "gd_TTLSeconds (sp_Guardrails (ex_other i)) = 30"
  by (simp_all add: ex_other_def ex_parsed_fields)

lemma Remove_memory: "sf_persistPath s = [] \<Longrightarrow> store_Remove IO i now s = (None, removeCore i s)"
  by (simp add: store_Remove_def markDirtyAndMaybePersist_def removeCore_def)



text \<open>The backend without a dataplane and a store kept in memory do not fail, so such a cycle reports no error.\<close>

definition unfailing :: "noopState loopState \<Rightarrow> bool" where
  "unfailing st \<longleftrightarrow> fst st = None \<and> sf_persistPath (fst (snd st)) = []"

lemma unfailing_steps:
  assumes "unfailing st"
  shows "unfailing (reapplyOne IO newNoopEnforcer now r st)" and "unfailing (ledgerRemove newNoopEnforcer r st)"
    and "unfailing (ledgerApply IO newNoopEnforcer now spec st)"
  using assms
  by (cases st; simp add: unfailing_def reapplyOne_def sweepOne_def ledgerRemove_def ledgerApply_def newNoopEnforcer_def
    noop_Apply_def noop_Remove_def Remove_memory removeCore_def firstErr_def)+

lemma unfailing_folds:
  assumes "unfailing st"
  shows "unfailing (fold (reapplyOne IO newNoopEnforcer now) rs st)" and "unfailing (fold (ledgerRemove newNoopEnforcer) rs st)"
    and "unfailing (fold (ledgerApply IO newNoopEnforcer now) specs st)"
  using assms by (auto intro: fold_invariant [where Q = "\<lambda>_. True" and P = unfailing] unfailing_steps)

lemma noop_cycle_clean:
  assumes "sf_persistPath s = []"
  shows "fst (snd (rec_reconcile IO ordR ordL newNoopEnforcer kill now (Some (Inr l)) rc s b)) = None"
proof -
  obtain removed added s1 where core: "reconcileCore (io_sha256 IO) ordR ordL l now s = (removed, added, s1)" by (metis prod_cases3)
  have "sf_persistPath s1 = []"
    using core adoptPolicy_file [of "io_sha256 IO" now "ordL l" "[]" "keepListed l s"] assms
    by (auto simp: reconcileCore_eq Let_def file_part_def keepListed_def split: prod.splits)
  then have "unfailing (syncLedger IO ordR ordL newNoopEnforcer now l (None, s, b))"
    using core by (auto simp: syncLedger_def ReconcileLedger_def markDirtyAndMaybePersist_def
      intro!: unfailing_folds, auto simp: unfailing_def)
  moreover have "unfailing (None, s, b)" using assms by (simp add: unfailing_def)
  ultimately show ?thesis
    using unfailing_folds(1) by (auto simp: rec_reconcile_def Let_def unfailing_def)
qed


text \<open>Passes of the two loops in any order, while no ledger they read has policy \<open>p\<close>.\<close>

inductive loopStep ::
    "storeIO \<Rightarrow> recordOrder \<Rightarrow> ledgerOrder \<Rightarrow> 'b enforcer \<Rightarrow> string \<Rightarrow> reconciler \<times> agentStore \<times> 'b \<Rightarrow> reconciler \<times> agentStore \<times> 'b \<Rightarrow> bool"
  for IO ordR ordL N p where
  sweep: "sched_reconcile IO ordR N now s b = (e, s', b') \<Longrightarrow> loopStep IO ordR ordL N p (rc, s, b) (rc, s', b')"
| cycle: "rec_reconcile IO ordR ordL N kill now ledger rc s b = (rc', e, s', b')
    \<Longrightarrow> (\<And>l. ledger = Some (Inr l) \<Longrightarrow> ledger_keyed l \<and> p \<notin> fst ` set l)
    \<Longrightarrow> loopStep IO ordR ordL N p (rc, s, b) (rc', s', b')"

context enforcement_backend
begin

lemma loopStep_orphan:
  assumes "loopStep IO ordR ordL N p (rc, s, b) (rc', s', b')" and "iter_order ordR" and "iter_order ordL"
    and "keyed s" and "p \<in> installed b" and "p \<notin> storeIDs s"
  shows "keyed s' \<and> p \<in> installed b' \<and> p \<notin> storeIDs s'"
  using assms(1)
proof (cases rule: loopStep.cases)
  case (sweep now e)
  obtain R where "sf_records s' = filter (\<lambda>(k, _). k \<notin> R) (sf_records s)"
    using sweep_effect [OF sweep(2) [unfolded sched_reconcile_def]] by (elim exE conjE)
  then have "keyed s'" by (rule keyed_filter [OF assms(4)])
  then show ?thesis using orphan_stays [OF assms(5,6,2,4) sweep(2)] by simp
next
  case (cycle kill now ledger e)
  have idle: ?thesis if "fold (reapplyOne IO N now) (reapplyOrder ordR now s) (x, s, b) = (e, s', b')" for x
  proof -
    have "p \<notin> specIDs (reapplyOrder ordR now s)"
      using reapplyOrder_ids(3) [OF assms(2,4), of "\<lambda>_. True" now] assms(6)
      by (auto simp: storeIDs_def dom_map_of_conv_image_fst [symmetric])
    from reapply_other [OF that this] assms(4-6) show ?thesis by auto
  qed
  show ?thesis
  proof (cases "kill \<or> \<not> syncDue rc now \<or> (\<nexists>l. ledger = Some (Inr l))")
    case True
    then have "(s', b') = (s, b) \<or> (\<exists>x. fold (reapplyOne IO N now) (reapplyOrder ordR now s) (x, s, b) = (e, s', b'))"
      using cycle(1) by (auto simp: rec_reconcile_def syncDue_def Let_def split: if_splits option.splits sum.splits)
    then show ?thesis using idle assms(4-6) by blast
  next
    case False
    then obtain l where l: "\<not> kill" "ledger = Some (Inr l)" "syncDue rc now" by blast
    then show ?thesis using cycle_forgets [of IO ordR ordL now l rc s b rc' e s' b' p] cycle assms(2-6) by simp
  qed
qed

lemma loopSteps_orphan:
  assumes "(loopStep IO ordR ordL N p)\<^sup>*\<^sup>* x y" and "iter_order ordR" and "iter_order ordL"
    and "keyed (fst (snd x))" and "p \<in> installed (snd (snd x))" and "p \<notin> storeIDs (fst (snd x))"
  shows "keyed (fst (snd y)) \<and> p \<in> installed (snd (snd y)) \<and> p \<notin> storeIDs (fst (snd y))"
  using assms(1)
proof (induction rule: rtranclp_induct)
  case (step y z)
  then show ?case using loopStep_orphan [OF _ assms(2,3)] by (cases y; cases z) auto
qed (use assms in simp)

end


text \<open>A backend whose first \<open>n\<close> removals fail.\<close>

definition ex_flaky :: "(nat \<times> noopState) enforcer" where
  "ex_flaky = \<lparr>en_apply = (\<lambda>spec (n, b). (None, (n, AList.update (sp_ID spec) spec b))),
     en_remove = (\<lambda>i (n, b). if n > 0 then (Some ''busy'', (n - 1, b)) else (None, (n, AList.delete i b)))\<rparr>"

interpretation flaky: enforcement_backend ex_flaky "\<lambda>b. fst ` set (snd b)"
proof unfold_locales
  fix spec :: policySpec and b b' :: "nat \<times> noopState"
  assume "en_apply ex_flaky spec b = (None, b')"
  then have "snd b' = AList.update (sp_ID spec) spec (snd b)" by (auto simp: ex_flaky_def split: prod.splits)
  then have "dom (map_of (snd b')) = insert (sp_ID spec) (dom (map_of (snd b)))" by (simp add: update_conv')
  then show "fst ` set (snd b') = insert (sp_ID spec) (fst ` set (snd b))" by (simp add: dom_map_of_conv_image_fst)
qed (auto simp: ex_flaky_def AList.delete_eq split: prod.splits if_splits)


text \<open>
  With a cap, the wait after failures stays positive and below the cap; the pause before a pass is
  at least the lesser of a second and the interval, and at most the greater of the two.
\<close>

theorem waits_bounded:
  assumes "0 < base" and "0 < maxB" and "maxB < 2 ^ 62" and "0 \<le> cur" and "cur \<le> maxB"
  shows "0 < bumpBackoff base interval maxB cur \<and> bumpBackoff base interval maxB cur \<le> maxB
    \<and> min second (loopInterval base interval) \<le> nextInterval base interval kill dl now
    \<and> nextInterval base interval kill dl now \<le> max second (loopInterval base interval)"
proof -
  have i: "0 < loopInterval base interval" using assms(1) by (simp add: loopInterval_def)
  have "wrap64 (cur * 2) = cur * 2" using assms(3-5) by (simp add: wrap64_def)
  then have "0 < bumpBackoff base interval maxB cur \<and> bumpBackoff base interval maxB cur \<le> maxB"
    using i assms(2,4) by (simp add: bumpBackoff_def Let_def)
  then show ?thesis by (auto simp: nextInterval_def Let_def min_def max_def split: option.split)
qed

theorem waits_bounded_witness:
  "0 < bumpBackoff (5 * second) 0 (60 * second) (40 * second) \<and> bumpBackoff (5 * second) 0 (60 * second) (40 * second) \<le> 60 * second
    \<and> min second (loopInterval (5 * second) 0) \<le> nextInterval (5 * second) 0 False (Some 10) 9
    \<and> nextInterval (5 * second) 0 False (Some 10) 9 \<le> max second (loopInterval (5 * second) 0)"
  by (rule waits_bounded) (simp_all add: second_def millisecond_def)

text \<open>Without a cap the doubling overflows: after 32 failures in a row the wait is negative, and the loop stops backing off.\<close>

lemma uncapped_backoff_wraps: "(bumpBackoff (5 * second) 0 0 ^^ 32) 0 < 0"
  by (simp add: numeral_eq_Suc bumpBackoff_def loopInterval_def wrap64_def second_def millisecond_def Let_def)

end
