(* ===== verification/AckQueue.thy ===== *)
theory AckQueue
  imports Prelude
begin

text \<open>
  The path of an acknowledgement out of the enforcement agent,
  \<^verbatim>\<open>enforcement-agent/internal/ack/{queue,retrier,batching}.go\<close>: the batching publisher
  buffers payloads and hands them to the retrying publisher, which keeps them in a durable queue and
  drains the queue to the Kafka publisher.

  The queue is a bbolt bucket. bbolt, \<^verbatim>\<open>encoding/json\<close> and the Kafka publisher are arguments: the
  bucket is the list of its entries in the order of the cursor, \<open>bl_commit n\<close> says whether the
  \<open>n\<close>-th transaction commits, and the backend is asked by the number of the call. A bucket entry is a
  key of sixteen bytes, the sequence number before the time, and the encoded payload.
\<close>

subsection \<open>The durable queue\<close>

type_synonym boltBucket = "(bytes \<times> bytes) list"

record boltLib =
  bl_put :: "bytes \<Rightarrow> bytes \<Rightarrow> boltBucket \<Rightarrow> boltBucket"
  bl_delete :: "bytes \<Rightarrow> boltBucket \<Rightarrow> boltBucket"
  bl_next :: "u64 \<Rightarrow> u64"
  bl_commit :: "nat \<Rightarrow> bool"

record 'p ackCodec =
  ac_marshal :: "'p \<Rightarrow> bytes option"
  ac_unmarshal :: "bytes \<Rightarrow> 'p option"

record boltQueue =
  bq_entries :: boltBucket
  bq_seq :: u64
  bq_maxSize :: int
  bq_tx :: nat

datatype queue_error = ErrQueueEmpty | ErrQueueFull | QueueMarshal | QueueUnmarshal | QueueStore | QueueNotFound u64

definition OpenQueue :: "int \<Rightarrow> boltBucket \<Rightarrow> u64 \<Rightarrow> boltQueue" where
  "OpenQueue maxSize file seq =
     \<lparr>bq_entries = file, bq_seq = seq, bq_maxSize = (if maxSize \<le> 0 then 10000 else maxSize), bq_tx = 0\<rparr>"

definition queueKey :: "u64 \<Rightarrow> instant \<Rightarrow> bytes" where
  "queueKey seq now = be_bytes 8 seq @ be_bytes 8 (word_of_int now :: u64)"

definition entryID :: "bytes \<Rightarrow> u64" where
  "entryID k = word_of_nat (be_value (take 8 k))"

text \<open>A full queue refuses inside the transaction, which is rolled back; so is one that fails to commit.\<close>

definition Enqueue :: "boltLib \<Rightarrow> 'p ackCodec \<Rightarrow> instant \<Rightarrow> 'p \<Rightarrow> boltQueue \<Rightarrow> (queue_error + u64) \<times> boltQueue" where
  "Enqueue B C now p q =
     (case ac_marshal C p of
        None \<Rightarrow> (Inl QueueMarshal, q)
      | Some data \<Rightarrow>
          let seq = bl_next B (bq_seq q); q1 = q\<lparr>bq_tx := bq_tx q + 1\<rparr> in
          if int (length (bq_entries q)) \<ge> bq_maxSize q then (Inl ErrQueueFull, q1)
          else if \<not> bl_commit B (bq_tx q) then (Inl QueueStore, q1)
          else (Inr seq, q1\<lparr>bq_entries := bl_put B (queueKey seq now) data (bq_entries q), bq_seq := seq\<rparr>))"

definition Peek :: "'p ackCodec \<Rightarrow> boltQueue \<Rightarrow> queue_error + u64 \<times> 'p" where
  "Peek C q =
     (case bq_entries q of
        [] \<Rightarrow> Inl ErrQueueEmpty
      | (k, v) # _ \<Rightarrow> (case ac_unmarshal C v of None \<Rightarrow> Inl QueueUnmarshal | Some p \<Rightarrow> Inr (entryID k, p)))"

definition PeekBatch :: "'p ackCodec \<Rightarrow> int \<Rightarrow> boltQueue \<Rightarrow> queue_error + (u64 \<times> 'p) list" where
  "PeekBatch C limit q =
     (case those (map (\<lambda>(k, v). map_option (Pair (entryID k)) (ac_unmarshal C v))
              (take (nat (if limit \<le> 0 then 1 else limit)) (bq_entries q))) of
        None \<Rightarrow> Inl QueueUnmarshal
      | Some es \<Rightarrow> if es = [] then Inl ErrQueueEmpty else Inr es)"

definition DeleteID :: "boltLib \<Rightarrow> u64 \<Rightarrow> boltQueue \<Rightarrow> queue_error option \<times> boltQueue" where
  "DeleteID B i q =
     (let q1 = q\<lparr>bq_tx := bq_tx q + 1\<rparr> in
      case find (\<lambda>e. entryID (fst e) = i) (bq_entries q) of
        None \<Rightarrow> (Some (QueueNotFound i), q1)
      | Some e \<Rightarrow>
          if bl_commit B (bq_tx q) then (None, q1\<lparr>bq_entries := bl_delete B (fst e) (bq_entries q)\<rparr>)
          else (Some QueueStore, q1))"

definition queue_Len :: "boltQueue \<Rightarrow> nat" where
  "queue_Len q = length (bq_entries q)"

subsection \<open>The retrying publisher\<close>

record 'p retrier =
  rt_queue :: boltQueue
  rt_maxHead :: int
  rt_batch :: int
  rt_calls :: nat
  rt_published :: "'p list"

record 'p ackEnv =
  ae_bolt :: boltLib
  ae_codec :: "'p ackCodec"
  ae_publish :: "nat \<Rightarrow> 'p \<Rightarrow> bool"
  ae_publishBatch :: "nat \<Rightarrow> 'p list \<Rightarrow> bool"
  ae_clock :: "nat \<Rightarrow> instant"

definition NewRetryingPublisher :: "int \<Rightarrow> int \<Rightarrow> boltQueue \<Rightarrow> 'p retrier" where
  "NewRetryingPublisher maxHead batch q =
     \<lparr>rt_queue = q, rt_maxHead = (if maxHead \<le> 0 then 3 else maxHead), rt_batch = (if batch \<le> 0 then 1 else batch),
      rt_calls = 0, rt_published = []\<rparr>"

definition enqueueAt :: "'p ackEnv \<Rightarrow> 'p \<Rightarrow> boltQueue \<Rightarrow> (queue_error + u64) \<times> boltQueue" where
  "enqueueAt E p q = Enqueue (ae_bolt E) (ae_codec E) (ae_clock E (bq_tx q)) p q"

definition retrier_Publish :: "'p ackEnv \<Rightarrow> 'p \<Rightarrow> 'p retrier \<Rightarrow> queue_error option \<times> 'p retrier" where
  "retrier_Publish E p r =
     (case enqueueAt E p (rt_queue r) of
        (Inl e, q) \<Rightarrow> (Some e, r\<lparr>rt_queue := q\<rparr>)
      | (Inr i, q) \<Rightarrow> (None, r\<lparr>rt_queue := q\<rparr>))"

primrec retrier_PublishBatch :: "'p ackEnv \<Rightarrow> 'p list \<Rightarrow> 'p retrier \<Rightarrow> queue_error option \<times> 'p retrier" where
  "retrier_PublishBatch E [] r = (None, r)"
| "retrier_PublishBatch E (p # ps) r =
     (case retrier_Publish E p r of (e1, r) \<Rightarrow>
      case retrier_PublishBatch E ps r of (e2, r) \<Rightarrow> (if e1 \<noteq> None then e1 else e2, r))"

definition rotateHead :: "'p ackEnv \<Rightarrow> u64 \<Rightarrow> 'p \<Rightarrow> 'p retrier \<Rightarrow> queue_error option \<times> 'p retrier" where
  "rotateHead E i p r =
     (case enqueueAt E p (rt_queue r) of
        (Inl e, q) \<Rightarrow> (Some e, r\<lparr>rt_queue := q\<rparr>)
      | (Inr j, q) \<Rightarrow> (case DeleteID (ae_bolt E) i q of (e, q) \<Rightarrow> (e, r\<lparr>rt_queue := q\<rparr>)))"

text \<open>
  One pass of the loop of \<^verbatim>\<open>drain\<close>: \<open>Inl\<close> when it returns. The pair is the current entry and the
  attempts made for it, the local variables of the loop.
\<close>

definition drainStep :: "'p ackEnv \<Rightarrow> u64 \<times> int \<Rightarrow> 'p retrier \<Rightarrow> 'p retrier + (u64 \<times> int) \<times> 'p retrier" where
  "drainStep E st r =
     (case Peek (ae_codec E) (rt_queue r) of
        Inl e \<Rightarrow> Inl r
      | Inr (i, p) \<Rightarrow>
          let attempts = (if i \<noteq> fst st then 0 else snd st) + 1; r1 = r\<lparr>rt_calls := rt_calls r + 1\<rparr> in
          if ae_publish E (rt_calls r) p
          then Inr ((0, 0), r1\<lparr>rt_published := rt_published r @ [p], rt_queue := snd (DeleteID (ae_bolt E) i (rt_queue r))\<rparr>)
          else if attempts \<ge> rt_maxHead r
          then (case rotateHead E i p r1 of
                  (Some e, r) \<Rightarrow> Inr ((i, attempts), r)
                | (None, r) \<Rightarrow> Inr ((0, 0), r))
          else Inr ((i, attempts), r1))"

text \<open>The loop with \<open>fuel\<close> passes; the flag says whether it returned.\<close>

primrec drainLoop :: "'p ackEnv \<Rightarrow> nat \<Rightarrow> u64 \<times> int \<Rightarrow> 'p retrier \<Rightarrow> bool \<times> 'p retrier" where
  "drainLoop E 0 st r = (False, r)"
| "drainLoop E (Suc fuel) st r =
     (case drainStep E st r of Inl r \<Rightarrow> (True, r) | Inr (st, r) \<Rightarrow> drainLoop E fuel st r)"

text \<open>The deletions after a batch stop at the first that fails.\<close>

primrec deleteAll :: "boltLib \<Rightarrow> u64 list \<Rightarrow> boltQueue \<Rightarrow> boltQueue" where
  "deleteAll B [] q = q"
| "deleteAll B (i # is) q = (case DeleteID B i q of (None, q) \<Rightarrow> deleteAll B is q | (Some e, q) \<Rightarrow> q)"

definition drainBatchStep :: "'p ackEnv \<Rightarrow> 'p retrier \<Rightarrow> 'p retrier + 'p retrier" where
  "drainBatchStep E r =
     (case PeekBatch (ae_codec E) (rt_batch r) (rt_queue r) of
        Inl e \<Rightarrow> Inl r
      | Inr es \<Rightarrow>
          let r1 = r\<lparr>rt_calls := rt_calls r + 1\<rparr> in
          if \<not> ae_publishBatch E (rt_calls r) (map snd es) then Inr r1
          else Inr (r1\<lparr>rt_published := rt_published r @ map snd es,
                       rt_queue := deleteAll (ae_bolt E) (map fst es) (rt_queue r)\<rparr>))"

primrec drainBatches :: "'p ackEnv \<Rightarrow> nat \<Rightarrow> 'p retrier \<Rightarrow> bool \<times> 'p retrier" where
  "drainBatches E 0 r = (False, r)"
| "drainBatches E (Suc fuel) r =
     (case drainBatchStep E r of Inl r \<Rightarrow> (True, r) | Inr r \<Rightarrow> drainBatches E fuel r)"

definition drain :: "'p ackEnv \<Rightarrow> nat \<Rightarrow> 'p retrier \<Rightarrow> bool \<times> 'p retrier" where
  "drain E fuel r = (if rt_batch r > 1 then drainBatches E fuel r else drainLoop E fuel (0, 0) r)"

subsection \<open>The batching publisher\<close>

record 'p batcher =
  bp_payloads :: "'p list"
  bp_closing :: bool
  bp_flushSize :: int

definition NewBatchingPublisher :: "int \<Rightarrow> 'p batcher" where
  "NewBatchingPublisher flushSize =
     \<lparr>bp_payloads = [], bp_closing = False, bp_flushSize = (if flushSize \<le> 0 then 1 else flushSize)\<rparr>"

text \<open>\<open>None\<close> is success, as Go's nil error; \<open>Some ()\<close> the error of a closed batcher.\<close>

definition batcher_Publish :: "'p \<Rightarrow> 'p batcher \<Rightarrow> unit option \<times> 'p batcher" where
  "batcher_Publish p b =
     (if bp_closing b then (Some (), b) else (None, b\<lparr>bp_payloads := bp_payloads b @ [p]\<rparr>))"

text \<open>\<open>None\<close> while the worker waits for a payload.\<close>

definition batcher_collect :: "bool \<Rightarrow> 'p batcher \<Rightarrow> ('p list \<times> 'p batcher) option" where
  "batcher_collect force b =
     (if bp_payloads b = [] then (if bp_closing b \<or> force then Some ([], b) else None)
      else if \<not> force \<and> \<not> bp_closing b \<and> int (length (bp_payloads b)) < bp_flushSize b then Some ([], b)
      else Some (bp_payloads b, b\<lparr>bp_payloads := []\<rparr>))"

text \<open>The batch, and on an error each payload again by itself.\<close>

definition batcher_flush :: "'p ackEnv \<Rightarrow> 'p list \<Rightarrow> 'p retrier \<Rightarrow> 'p retrier" where
  "batcher_flush E batch r =
     (case retrier_PublishBatch E batch r of
        (None, r) \<Rightarrow> r
      | (Some e, r) \<Rightarrow> fold (\<lambda>p r. snd (retrier_Publish E p r)) batch r)"

text \<open>
  One pass of the worker loop: \<open>None\<close> while it waits, otherwise whether it returned. The second
  \<^verbatim>\<open>collect\<close> comes after the ticker unless the batcher is closing.
\<close>

definition batcherStep :: "'p ackEnv \<Rightarrow> 'p batcher \<times> 'p retrier \<Rightarrow> (bool \<times> 'p batcher \<times> 'p retrier) option" where
  "batcherStep E s =
     (case s of (b, r) \<Rightarrow>
      Option.bind (batcher_collect False b) (\<lambda>(batch, b).
      Option.bind (if batch = [] then batcher_collect True b else Some (batch, b)) (\<lambda>(batch, b).
      if batch = [] then Some (bp_closing b, b, r)
      else Some (False, b, batcher_flush E batch r))))"

definition batcher_Close :: "'p batcher \<Rightarrow> 'p batcher" where
  "batcher_Close b = b\<lparr>bp_closing := True\<rparr>"


subsection \<open>Order of the entries\<close>

text \<open>The byte order of the keys, and what bbolt documents: a cursor walks the keys in byte order, a put
  sets one key, a delete drops one, and the sequence of a bucket counts up.\<close>

fun bytesLess :: "bytes \<Rightarrow> bytes \<Rightarrow> bool" where
  "bytesLess xs [] = False"
| "bytesLess [] (y # ys) = True"
| "bytesLess (x # xs) (y # ys) = (x < y \<or> x = y \<and> bytesLess xs ys)"

definition putSorted :: "bytes \<Rightarrow> bytes \<Rightarrow> boltBucket \<Rightarrow> boltBucket" where
  "putSorted k v b = takeWhile (\<lambda>e. bytesLess (fst e) k) b @ (k, v) # dropWhile (\<lambda>e. bytesLess (fst e) k \<or> fst e = k) b"

definition bolt_laws :: "boltLib \<Rightarrow> bool" where
  "bolt_laws B \<longleftrightarrow> (\<forall>k v b. sorted_wrt bytesLess (map fst b) \<longrightarrow> bl_put B k v b = putSorted k v b)
     \<and> (\<forall>k b. sorted_wrt bytesLess (map fst b) \<longrightarrow> bl_delete B k b = filter (\<lambda>e. fst e \<noteq> k) b) \<and> (\<forall>n. bl_next B n = n + 1)"

lemma be_value_less: "be_value bs < 256 ^ length bs"
proof (induction bs)
  case (Cons b bs)
  have "unat b < 2 ^ LENGTH(8)" by (rule unsigned_less)
  then have "unat b \<le> 255" by simp
  then have "unat b * 256 ^ length bs \<le> 255 * 256 ^ length bs" by (rule mult_le_mono1)
  then show ?case unfolding be_value.simps length_Cons power_Suc using Cons.IH by linarith
qed simp

lemma be_value_append: "be_value (xs @ ys) = be_value xs * 256 ^ length ys + be_value ys"
  by (induction xs) (simp_all add: power_add algebra_simps)

lemma digits_less:
  fixes a b N :: nat
  assumes "u < N" and "v < N"
  shows "a * N + u < b * N + v \<longleftrightarrow> a < b \<or> a = b \<and> u < v"
proof (cases a b rule: linorder_cases)
  case less
  then have "a * N + N \<le> b * N" by (metis Suc_leI add.commute mult_Suc mult_le_mono1)
  then show ?thesis using assms less by simp
next
  case greater
  then have "b * N + N \<le> a * N" by (metis Suc_leI add.commute mult_Suc mult_le_mono1)
  then show ?thesis using assms greater by simp
qed simp

lemma bytesLess_value: "length xs = length ys \<Longrightarrow> bytesLess xs ys \<longleftrightarrow> be_value xs < be_value ys"
proof (induction xs ys rule: list_induct2)
  case (Cons x xs y ys)
  have "be_value xs < 256 ^ length ys" using be_value_less [of xs] Cons.hyps by simp
  then show ?case using Cons digits_less [OF _ be_value_less [of ys], of "be_value xs" "unat x" "unat y"]
    by (simp add: word_less_nat_alt word_unat_eq_iff)
qed simp

lemma entryID_value: "8 \<le> length k \<Longrightarrow> unat (entryID k) = be_value (take 8 k)"
  using be_value_less [of "take 8 k"] by (simp add: entryID_def unat_of_nat take_bit_eq_mod)

lemma entryID_queueKey [simp]: "entryID (queueKey seq now) = seq"
proof -
  have "unat seq < 2 ^ LENGTH(64)" by (rule unsigned_less)
  then show ?thesis by (simp add: entryID_def queueKey_def be_value_be_bytes)
qed

lemma length_queueKey [simp]: "length (queueKey seq now) = 16"
  by (simp add: queueKey_def)

lemma key_less:
  assumes "length j = 16" and "length k = 16" and "unat (entryID j) < unat (entryID k)"
  shows "bytesLess j k"
proof -
  have split: "be_value k = be_value (take 8 k) * 256 ^ 8 + be_value (drop 8 k)" if "length k = 16" for k
    using be_value_append [of "take 8 k" "drop 8 k"] that by simp
  have "be_value (drop 8 l) < 256 ^ 8" if "length l = 16" for l using be_value_less [of "drop 8 l"] that by simp
  then have "be_value j < be_value k"
    using assms split [of j] split [of k] digits_less [of "be_value (drop 8 j)" "256 ^ 8" "be_value (drop 8 k)"]
    by (simp add: entryID_value)
  then show ?thesis using assms bytesLess_value by simp
qed

definition queue_inv :: "boltQueue \<Rightarrow> bool" where
  "queue_inv q \<longleftrightarrow> sorted_wrt (\<lambda>j k. unat (entryID j) < unat (entryID k)) (map fst (bq_entries q))
     \<and> (\<forall>k \<in> set (map fst (bq_entries q)). length k = 16 \<and> unat (entryID k) \<le> unat (bq_seq q))"

lemma sorted_wrt_weaken: "sorted_wrt P xs \<Longrightarrow> (\<And>x y. x \<in> set xs \<Longrightarrow> y \<in> set xs \<Longrightarrow> P x y \<Longrightarrow> Q x y) \<Longrightarrow> sorted_wrt Q xs"
  by (induction xs) auto

lemma queue_keys_sorted: "queue_inv q \<Longrightarrow> sorted_wrt bytesLess (map fst (bq_entries q))"
  unfolding queue_inv_def by (rule sorted_wrt_weaken [where P = "\<lambda>j k. unat (entryID j) < unat (entryID k)"]) (auto intro: key_less)

lemma queue_inv_tx [simp]: "queue_inv (q\<lparr>bq_tx := n\<rparr>) = queue_inv q"
  by (simp add: queue_inv_def)

lemma Enqueue_cases:
  assumes "Enqueue B C now p q = (res, q')" and "bolt_laws B" and "queue_inv q" and "unat (bq_seq q) + 1 < 2 ^ 64"
  shows "queue_inv q' \<and> bq_maxSize q' = bq_maxSize q \<and> unat (bq_seq q') \<le> unat (bq_seq q) + 1
    \<and> (case res of
         Inl e \<Rightarrow> bq_entries q' = bq_entries q \<and> bq_seq q' = bq_seq q
       | Inr i \<Rightarrow> (\<exists>data. ac_marshal C p = Some data \<and> bq_entries q' = bq_entries q @ [(queueKey i now, data)]))"
proof (cases res)
  case (Inl e)
  then show ?thesis using assms by (auto simp: Enqueue_def Let_def split: option.splits if_splits)
next
  case (Inr i)
  have next_seq: "unat (bq_seq q + 1) = unat (bq_seq q) + 1"
  proof -
    have "bq_seq q \<noteq> - 1" using assms(4) by (auto simp: unsigned_minus_1_eq_mask mask_eq_exp_minus_1)
    then show ?thesis by (rule unat_plus_one)
  qed
  then obtain data where run: "ac_marshal C p = Some data" "i = bq_seq q + 1"
    "q' = q\<lparr>bq_tx := bq_tx q + 1, bq_entries := putSorted (queueKey i now) data (bq_entries q), bq_seq := i\<rparr>"
    using assms(1,2) Inr queue_keys_sorted [OF assms(3)]
    by (auto simp: Enqueue_def Let_def bolt_laws_def split: option.splits if_splits)
  have older: "unat (entryID k) < unat i \<and> bytesLess k (queueKey i now) " if "k \<in> set (map fst (bq_entries q))" for k
  proof -
    have "length k = 16 \<and> unat (entryID k) \<le> unat (bq_seq q)" using that assms(3) by (auto simp: queue_inv_def)
    then show ?thesis using key_less [of k "queueKey i now"] run(2) next_seq by simp
  qed
  then have all: "\<forall>e \<in> set (bq_entries q). bytesLess (fst e) (queueKey i now)" by auto
  then have "bq_entries q' = bq_entries q @ [(queueKey i now, data)]"
    using run(3) by (simp add: putSorted_def takeWhile_eq_all_conv [THEN iffD2] dropWhile_eq_Nil_conv [THEN iffD2])
  moreover have "queue_inv q'"
    using calculation assms(3) run older next_seq by (auto simp: queue_inv_def sorted_wrt_append)
  ultimately show ?thesis using run next_seq Inr by simp
qed

text \<open>Every entry can be decoded, and what it decodes to survives another round.\<close>

definition fixpoint :: "'p ackCodec \<Rightarrow> 'p \<Rightarrow> bool" where
  "fixpoint C p \<longleftrightarrow> (\<forall>b. ac_marshal C p = Some b \<longrightarrow> ac_unmarshal C b = Some p)"

definition codec_law :: "'p ackCodec \<Rightarrow> bool" where
  "codec_law C \<longleftrightarrow> (\<forall>p b. ac_marshal C p = Some b \<longrightarrow> (\<exists>p'. ac_unmarshal C b = Some p' \<and> fixpoint C p'))"

definition stored :: "'p ackCodec \<Rightarrow> 'p \<Rightarrow> 'p" where
  "stored C p = the (ac_unmarshal C (the (ac_marshal C p)))"

definition held :: "'p ackCodec \<Rightarrow> boltQueue \<Rightarrow> 'p list" where
  "held C q = map (\<lambda>e. the (ac_unmarshal C (snd e))) (bq_entries q)"

definition decodable :: "'p ackCodec \<Rightarrow> boltQueue \<Rightarrow> bool" where
  "decodable C q \<longleftrightarrow> (\<forall>e \<in> set (bq_entries q). \<exists>p. ac_unmarshal C (snd e) = Some p \<and> fixpoint C p)"

text \<open>The queue as a list: what an accepted payload adds, and what a deletion of the head takes away.\<close>

lemma Enqueue_held:
  assumes "Enqueue B C now p q = (res, q')" and "bolt_laws B" and "codec_law C" and "queue_inv q" and "decodable C q"
    and "unat (bq_seq q) + 1 < 2 ^ 64"
  shows "queue_inv q' \<and> decodable C q' \<and> held C q' = held C q @ (case res of Inl e \<Rightarrow> [] | Inr i \<Rightarrow> [stored C p])"
proof -
  note run = Enqueue_cases [OF assms(1,2,4,6)]
  show ?thesis
  proof (cases res)
    case (Inl e)
    then show ?thesis using run assms(5) by (simp add: decodable_def held_def)
  next
    case (Inr i)
    then obtain data where "ac_marshal C p = Some data" "bq_entries q' = bq_entries q @ [(queueKey i now, data)]" "queue_inv q'"
      using run by auto
    then show ?thesis using Inr assms(3,5) by (auto simp: decodable_def held_def stored_def codec_law_def)
  qed
qed

lemma DeleteID_head:
  assumes "queue_inv q" and "bolt_laws B" and "bq_entries q = e # rest" and "DeleteID B (entryID (fst e)) q = (res, q')"
  shows "bq_entries q' = (if res = None then rest else e # rest) \<and> queue_inv q' \<and> bq_seq q' = bq_seq q
    \<and> bq_maxSize q' = bq_maxSize q \<and> ((\<forall>n. bl_commit B n) \<longrightarrow> res = None)"
proof -
  have other: "fst d \<noteq> fst e" if "d \<in> set rest" for d
    using that assms(1,3) by (auto simp: queue_inv_def)
  have "bl_delete B (fst e) (bq_entries q) = filter (\<lambda>d. fst d \<noteq> fst e) (bq_entries q)"
    using assms(1,2) queue_keys_sorted by (auto simp: bolt_laws_def)
  also have "\<dots> = rest" using other assms(3) by (auto simp: filter_id_conv)
  finally show ?thesis using assms
    by (auto simp: DeleteID_def Let_def queue_inv_def split: if_splits) (metis fst_conv)+
qed

lemma Peek_head:
  "Peek C q = Inr (i, p) \<Longrightarrow> \<exists>e rest. bq_entries q = e # rest \<and> i = entryID (fst e) \<and> ac_unmarshal C (snd e) = Some p
    \<and> held C q = p # map (\<lambda>e. the (ac_unmarshal C (snd e))) rest"
  by (auto simp: Peek_def held_def split: list.splits option.splits)

lemma Peek_Inl: "decodable C q \<Longrightarrow> Peek C q = Inl e \<longleftrightarrow> bq_entries q = [] \<and> e = ErrQueueEmpty"
  by (auto simp: Peek_def decodable_def split: list.splits option.splits)

lemma held_Cons: "bq_entries q = e # rest \<Longrightarrow> held C q = the (ac_unmarshal C (snd e)) # map (\<lambda>e. the (ac_unmarshal C (snd e))) rest"
  by (simp add: held_def)

lemma stored_fixpoint: "fixpoint C p \<Longrightarrow> ac_marshal C p = Some b \<Longrightarrow> stored C p = p"
  by (simp add: fixpoint_def stored_def)

lemma Enqueue_marshalled: "Enqueue B C now p q = (Inr i, q') \<Longrightarrow> \<exists>b. ac_marshal C p = Some b"
  by (auto simp: Enqueue_def split: option.splits)

definition queue_ok :: "'p ackCodec \<Rightarrow> boltQueue \<Rightarrow> bool" where
  "queue_ok C q \<longleftrightarrow> queue_inv q \<and> decodable C q"

lemma queue_ok_tail:
  "queue_ok C q \<Longrightarrow> bq_entries q = e # rest \<Longrightarrow> queue_inv q' \<Longrightarrow> bq_entries q' = rest \<Longrightarrow> queue_ok C q'"
  by (auto simp: queue_ok_def decodable_def)

text \<open>Sequence numbers do not wrap around before \<open>2 ^ 64 - 1\<close> payloads were accepted.\<close>

definition roomy :: "'p retrier \<Rightarrow> bool" where
  "roomy r \<longleftrightarrow> unat (bq_seq (rt_queue r)) + 1 < 2 ^ 64"

lemma delete_keeps:
  assumes "queue_ok C q" and "bolt_laws B" and "bq_entries q = e # rest" and "DeleteID B (entryID (fst e)) q = (res, q')"
  shows "queue_ok C q' \<and> held C q' = (if res = None then tl (held C q) else held C q)"
  using DeleteID_head [OF _ assms(2-4)] assms(1,3) by (auto simp: queue_ok_def decodable_def held_def)

lemma rotateHead_keeps:
  assumes "rotateHead E i p r = (res, r')" and "bolt_laws (ae_bolt E)" and "codec_law (ae_codec E)"
    and "queue_ok (ae_codec E) (rt_queue r)" and "roomy r" and "Peek (ae_codec E) (rt_queue r) = Inr (i, p)"
  shows "queue_ok (ae_codec E) (rt_queue r') \<and> rt_published r' = rt_published r
    \<and> mset (held (ae_codec E) (rt_queue r)) \<subseteq># mset (held (ae_codec E) (rt_queue r'))"
proof -
  let ?C = "ae_codec E" and ?q = "rt_queue r"
  obtain e rest where head: "bq_entries ?q = e # rest" "i = entryID (fst e)" "ac_unmarshal ?C (snd e) = Some p"
    using Peek_head [OF assms(6)] by blast
  obtain res1 q1 where enq: "enqueueAt E p ?q = (res1, q1)" by (metis surj_pair)
  have added: "queue_ok ?C q1" "held ?C q1 = held ?C ?q @ (case res1 of Inl e \<Rightarrow> [] | Inr j \<Rightarrow> [stored ?C p])"
    using Enqueue_held [OF enq [unfolded enqueueAt_def] assms(2,3)] assms(4,5) by (simp_all add: queue_ok_def roomy_def)
  show ?thesis
  proof (cases res1)
    case (Inl e')
    then show ?thesis using assms(1) enq added by (auto simp: rotateHead_def)
  next
    case (Inr j)
    obtain res2 q2 where del: "DeleteID (ae_bolt E) i q1 = (res2, q2)" by (metis surj_pair)
    have "\<exists>b. ac_marshal ?C p = Some b" using Enqueue_marshalled enq Inr by (fastforce simp: enqueueAt_def)
    then have same: "stored ?C p = p"
      using assms(4) head stored_fixpoint by (fastforce simp: queue_ok_def decodable_def)
    obtain rest' where q1: "bq_entries q1 = e # rest'"
      using Enqueue_cases [OF enq [unfolded enqueueAt_def] assms(2)] assms(4,5) Inr head(1)
      by (auto simp: queue_ok_def roomy_def)
    have "queue_ok ?C q2" "held ?C q2 = (if res2 = None then tl (held ?C q1) else held ?C q1)"
      using delete_keeps [OF added(1) assms(2) q1] del head(2) by simp_all
    then show ?thesis using assms(1) enq Inr del added(2) same head
      by (auto simp: rotateHead_def held_Cons)
  qed
qed

lemma drainStep_keeps:
  assumes "drainStep E st r = Inr (st', r')" and "bolt_laws (ae_bolt E)" and "codec_law (ae_codec E)"
    and "queue_ok (ae_codec E) (rt_queue r)" and "roomy r"
  shows "queue_ok (ae_codec E) (rt_queue r') \<and> mset (rt_published r) + mset (held (ae_codec E) (rt_queue r))
    \<subseteq># mset (rt_published r') + mset (held (ae_codec E) (rt_queue r'))"
proof -
  let ?C = "ae_codec E"
  obtain i p where peek: "Peek ?C (rt_queue r) = Inr (i, p)"
    using assms(1) by (auto simp: drainStep_def split: sum.splits)
  from Peek_head [OF this] obtain e rest where head: "bq_entries (rt_queue r) = e # rest" "i = entryID (fst e)"
    "held ?C (rt_queue r) = p # map (\<lambda>e. the (ac_unmarshal ?C (snd e))) rest" by (elim exE conjE)
  obtain res q' where del: "DeleteID (ae_bolt E) i (rt_queue r) = (res, q')" by (metis surj_pair)
  have gone: "queue_ok ?C q'" "held ?C q' = (if res = None then tl (held ?C (rt_queue r)) else held ?C (rt_queue r))"
    using delete_keeps [OF assms(4,2) head(1)] del head(2) by simp_all
  obtain res2 r2 where rot: "rotateHead E i p (r\<lparr>rt_calls := rt_calls r + 1\<rparr>) = (res2, r2)" by (metis surj_pair)
  note turned = rotateHead_keeps [OF rot assms(2,3)]
  show ?thesis
  proof (cases "ae_publish E (rt_calls r) p")
    case True
    then have "r' = r\<lparr>rt_calls := rt_calls r + 1, rt_published := rt_published r @ [p], rt_queue := q'\<rparr>"
      using assms(1) peek del by (simp add: drainStep_def Let_def)
    then show ?thesis using gone head(3) by simp
  next
    case False
    have t: "queue_ok ?C (rt_queue r2)" "rt_published r2 = rt_published r" "mset (held ?C (rt_queue r)) \<subseteq># mset (held ?C (rt_queue r2))"
      using turned assms(4,5) peek by (simp_all add: roomy_def)
    have "r' = r2 \<or> r' = r\<lparr>rt_calls := rt_calls r + 1\<rparr>"
      using assms(1) peek rot False by (simp add: drainStep_def Let_def split: if_splits option.splits)
    then show ?thesis
    proof
      assume "r' = r2"
      then show ?thesis using t by (simp add: subset_mset.add_left_mono)
    next
      assume "r' = r\<lparr>rt_calls := rt_calls r + 1\<rparr>"
      then show ?thesis using assms(4) by simp
    qed
  qed
qed

lemma those_Some: "those xs = Some ys \<longleftrightarrow> xs = map Some ys"
  by (induction xs arbitrary: ys) (auto split: option.splits simp: map_eq_Cons_conv Cons_eq_map_conv)

lemma decode_all:
  "map (\<lambda>(k, v). map_option (Pair (entryID k)) (ac_unmarshal C v)) l = map Some es
    \<Longrightarrow> es = map (\<lambda>e. (entryID (fst e), the (ac_unmarshal C (snd e)))) l"
proof (induction l arbitrary: es)
  case (Cons e l)
  then show ?case by (cases es) (auto simp: case_prod_beta)
qed simp

lemma PeekBatch_entries:
  assumes "PeekBatch C limit q = Inr es"
  shows "\<exists>n. es = map (\<lambda>e. (entryID (fst e), the (ac_unmarshal C (snd e)))) (take n (bq_entries q)) \<and> es \<noteq> []"
proof -
  let ?n = "nat (if limit \<le> 0 then 1 else limit)"
  have es: "map (\<lambda>(k, v). map_option (Pair (entryID k)) (ac_unmarshal C v)) (take ?n (bq_entries q)) = map Some es" "es \<noteq> []"
    using assms unfolding PeekBatch_def by (simp_all add: those_Some split: option.splits if_splits)
  show ?thesis using decode_all [OF es(1)] es(2) by blast
qed

text \<open>Deleting the entries of a batch takes a prefix of them away.\<close>

lemma deleteAll_prefix:
  assumes "bolt_laws B" and "queue_ok C q"
  shows "\<exists>k \<le> n. bq_entries (deleteAll B (map (\<lambda>e. entryID (fst e)) (take n (bq_entries q))) q) = drop k (bq_entries q)
    \<and> queue_ok C (deleteAll B (map (\<lambda>e. entryID (fst e)) (take n (bq_entries q))) q)"
  using assms(2)
proof (induction n arbitrary: q)
  case (Suc n)
  show ?case
  proof (cases "bq_entries q")
    case Nil
    then show ?thesis using Suc.prems by (intro exI [of _ 0]) simp
  next
    case (Cons e rest)
    obtain res q1 where del: "DeleteID B (entryID (fst e)) q = (res, q1)" by (metis surj_pair)
    have q1: "bq_entries q1 = (if res = None then rest else e # rest)" "queue_ok C q1"
      using DeleteID_head [OF _ assms(1) Cons del] delete_keeps [OF Suc.prems assms(1) Cons del] Suc.prems
      by (simp_all add: queue_ok_def)
    show ?thesis
    proof (cases res)
      case None
      with Suc.IH [OF q1(2)] q1(1) obtain k where "k \<le> n"
        "bq_entries (deleteAll B (map (\<lambda>e. entryID (fst e)) (take n rest)) q1) = drop k rest
          \<and> queue_ok C (deleteAll B (map (\<lambda>e. entryID (fst e)) (take n rest)) q1)" by auto
      then show ?thesis using Cons del None by (intro exI [of _ "Suc k"]) simp
    next
      case (Some er)
      then show ?thesis using Cons del q1 by (intro exI [of _ 0]) simp
    qed
  qed
qed auto

lemma drainBatchStep_keeps:
  assumes "drainBatchStep E r = Inr r'" and "bolt_laws (ae_bolt E)" and "queue_ok (ae_codec E) (rt_queue r)"
  shows "queue_ok (ae_codec E) (rt_queue r') \<and> mset (rt_published r) + mset (held (ae_codec E) (rt_queue r))
    \<subseteq># mset (rt_published r') + mset (held (ae_codec E) (rt_queue r'))"
proof -
  let ?C = "ae_codec E" and ?q = "rt_queue r"
  obtain es where batch: "PeekBatch ?C (rt_batch r) ?q = Inr es"
    using assms(1) by (auto simp: drainBatchStep_def split: sum.splits)
  then obtain n where es: "es = map (\<lambda>e. (entryID (fst e), the (ac_unmarshal ?C (snd e)))) (take n (bq_entries ?q))"
    using PeekBatch_entries by blast
  obtain k where k: "k \<le> n" "bq_entries (deleteAll (ae_bolt E) (map fst es) ?q) = drop k (bq_entries ?q)"
    "queue_ok ?C (deleteAll (ae_bolt E) (map fst es) ?q)"
    using deleteAll_prefix [OF assms(2,3), of n] es by (auto simp: o_def)
  have sent: "map snd es = take n (held ?C ?q)" by (simp add: es held_def take_map o_def)
  have left: "held ?C (deleteAll (ae_bolt E) (map fst es) ?q) = drop k (held ?C ?q)" using k(2) by (simp add: held_def drop_map)
  have "mset (held ?C ?q) \<subseteq># mset (take n (held ?C ?q)) + mset (drop k (held ?C ?q))"
  proof -
    have "drop k (held ?C ?q) = take (n - k) (drop k (held ?C ?q)) @ drop n (held ?C ?q)"
      using k(1) by (metis append_take_drop_id drop_drop le_add_diff_inverse2)
    then have "mset (drop n (held ?C ?q)) \<subseteq># mset (drop k (held ?C ?q))"
      by (metis mset_append mset_subset_eq_add_right)
    then show ?thesis by (metis append_take_drop_id mset_append subset_mset.add_left_mono)
  qed
  then show ?thesis using assms(1,3) batch k(3) sent left
    by (auto simp: drainBatchStep_def Let_def add.assoc subset_mset.add_left_mono split: if_splits)
qed

subsection \<open>Nothing accepted is lost\<close>

text \<open>
  Runs of the retrying publisher: payloads accepted and refused, passes of the two drain loops, and a
  crash after the backend took a payload and before the queue lost it; after a crash the queue is
  opened again with what the file has. The first component lists what was accepted.
\<close>

inductive retrier_step :: "'p ackEnv \<Rightarrow> 'p list \<times> (u64 \<times> int) \<times> 'p retrier \<Rightarrow> 'p list \<times> (u64 \<times> int) \<times> 'p retrier \<Rightarrow> bool" for E where
  accept: "retrier_Publish E p r = (None, r') \<Longrightarrow> roomy r \<Longrightarrow> retrier_step E (acc, st, r) (acc @ [p], st, r')"
| refuse: "retrier_Publish E p r = (Some e, r') \<Longrightarrow> roomy r \<Longrightarrow> retrier_step E (acc, st, r) (acc, st, r')"
| pass: "drainStep E st r = Inr (st', r') \<Longrightarrow> roomy r \<Longrightarrow> retrier_step E (acc, st, r) (acc, st', r')"
| finish: "drainStep E st r = Inl r' \<Longrightarrow> retrier_step E (acc, st, r) (acc, (0, 0), r')"
| batch: "drainBatchStep E r = Inr r' \<Longrightarrow> retrier_step E (acc, st, r) (acc, st, r')"
| crash: "Peek (ae_codec E) (rt_queue r) = Inr (i, p) \<Longrightarrow> ae_publish E (rt_calls r) p
    \<Longrightarrow> retrier_step E (acc, st, r) (acc, (0, 0), r\<lparr>rt_calls := rt_calls r + 1, rt_published := rt_published r @ [p]\<rparr>)"

definition nothing_lost :: "'p ackEnv \<Rightarrow> 'p list \<times> (u64 \<times> int) \<times> 'p retrier \<Rightarrow> bool" where
  "nothing_lost E s \<longleftrightarrow> (case s of (acc, st, r) \<Rightarrow> queue_ok (ae_codec E) (rt_queue r)
     \<and> mset (map (stored (ae_codec E)) acc) \<subseteq># mset (rt_published r) + mset (held (ae_codec E) (rt_queue r)))"

lemma Publish_keeps:
  assumes "retrier_Publish E p r = (res, r')" and "bolt_laws (ae_bolt E)" and "codec_law (ae_codec E)"
    and "queue_ok (ae_codec E) (rt_queue r)" and "roomy r"
  shows "queue_ok (ae_codec E) (rt_queue r') \<and> rt_published r' = rt_published r
    \<and> held (ae_codec E) (rt_queue r') = held (ae_codec E) (rt_queue r) @ (if res = None then [stored (ae_codec E) p] else [])"
proof -
  obtain res1 q1 where enq: "enqueueAt E p (rt_queue r) = (res1, q1)" by (metis surj_pair)
  show ?thesis
    using Enqueue_held [OF enq [unfolded enqueueAt_def] assms(2,3)] assms(1,4,5) enq
    by (auto simp: retrier_Publish_def queue_ok_def roomy_def split: sum.splits)
qed

lemma retrier_step_keeps:
  assumes "retrier_step E s s'" and "bolt_laws (ae_bolt E)" and "codec_law (ae_codec E)" and "nothing_lost E s"
  shows "nothing_lost E s'"
  using assms(1,4)
proof cases
  case (accept p r r' acc st)
  then show ?thesis using Publish_keeps [OF accept(3) assms(2,3)] assms(4) by (auto simp: nothing_lost_def)
next
  case (refuse p r e r' acc st)
  then show ?thesis using Publish_keeps [OF refuse(3) assms(2,3)] assms(4) by (auto simp: nothing_lost_def)
next
  case (pass st r st' r' acc)
  then show ?thesis using drainStep_keeps [OF pass(3) assms(2,3)] assms(4)
    by (auto simp: nothing_lost_def intro: subset_mset.order_trans)
next
  case (finish st r r' acc)
  then show ?thesis using assms(4) by (auto simp: nothing_lost_def drainStep_def Let_def split: sum.splits prod.splits if_splits option.splits)
next
  case (batch r r' acc st)
  then show ?thesis using drainBatchStep_keeps [OF batch(3) assms(2)] assms(4)
    by (auto simp: nothing_lost_def intro: subset_mset.order_trans)
next
  case (crash r i p acc st)
  have "nothing_lost E (acc, st, r)" using crash(1) assms(4) by simp
  then have "mset (map (stored (ae_codec E)) acc) \<subseteq># mset (rt_published r) + mset (held (ae_codec E) (rt_queue r))"
    by (simp add: nothing_lost_def)
  then have "mset (map (stored (ae_codec E)) acc) \<subseteq># mset (rt_published r @ [p]) + mset (held (ae_codec E) (rt_queue r))"
    by (rule subset_mset.order_trans) simp
  then show ?thesis using crash(1,2) assms(4) by (simp add: nothing_lost_def)
qed

text \<open>
  C6. An accepted acknowledgement is not lost. After any run from an empty queue, with failing backends,
  failing transactions, rotations, batches and crashes, every payload whose acceptance was reported
  has been taken by the backend or is in the durable queue, as often as it was accepted.
\<close>

theorem accepted_ack_kept:
  assumes "bolt_laws (ae_bolt E)" and "codec_law (ae_codec E)"
    and "(retrier_step E)\<^sup>*\<^sup>* ([], (0, 0), NewRetryingPublisher h b (OpenQueue m [] 0)) (acc, st, r)"
  shows "mset (map (stored (ae_codec E)) acc) \<subseteq># mset (rt_published r) + mset (held (ae_codec E) (rt_queue r))"
proof -
  have "nothing_lost E (acc, st, r)" using assms(3)
  proof (induction rule: rtranclp_induct)
    case base
    show ?case by (simp add: nothing_lost_def queue_ok_def queue_inv_def decodable_def NewRetryingPublisher_def OpenQueue_def)
  qed (blast intro: retrier_step_keeps assms)
  then show ?thesis by (simp add: nothing_lost_def)
qed

subsection \<open>Draining\<close>

lemma drainStep_empty: "bq_entries (rt_queue r) = [] \<Longrightarrow> drainStep E st r = Inl r"
  by (simp add: drainStep_def Peek_def)

text \<open>A pass whose call succeeds takes the head off; one whose call fails keeps or turns the entries.\<close>

lemma drainStep_progress:
  assumes "bolt_laws (ae_bolt E)" and "codec_law (ae_codec E)" and "queue_ok (ae_codec E) (rt_queue r)" and "roomy r"
    and "\<forall>n. bl_commit (ae_bolt E) n" and "bq_entries (rt_queue r) = e # rest"
  shows "\<exists>st' r'. drainStep E st r = Inr (st', r') \<and> rt_calls r' = rt_calls r + 1 \<and> queue_ok (ae_codec E) (rt_queue r')
    \<and> (if ae_publish E (rt_calls r) (hd (held (ae_codec E) (rt_queue r)))
       then rt_published r' = rt_published r @ [hd (held (ae_codec E) (rt_queue r))]
         \<and> held (ae_codec E) (rt_queue r') = tl (held (ae_codec E) (rt_queue r)) \<and> bq_seq (rt_queue r') = bq_seq (rt_queue r)
       else rt_published r' = rt_published r \<and> mset (held (ae_codec E) (rt_queue r')) = mset (held (ae_codec E) (rt_queue r))
         \<and> unat (bq_seq (rt_queue r')) \<le> unat (bq_seq (rt_queue r)) + 1)"
proof -
  let ?C = "ae_codec E" and ?B = "ae_bolt E"
  have inv: "queue_inv (rt_queue r)" using assms(3) by (simp add: queue_ok_def)
  obtain p where p: "ac_unmarshal ?C (snd e) = Some p" "fixpoint ?C p" using assms(3,6) by (auto simp: queue_ok_def decodable_def)
  have peek: "Peek ?C (rt_queue r) = Inr (entryID (fst e), p)" using assms(6) p by (simp add: Peek_def case_prod_beta)
  have held: "held ?C (rt_queue r) = p # map (\<lambda>e. the (ac_unmarshal ?C (snd e))) rest" using assms(6) p by (simp add: held_Cons)
  obtain res q1 where del: "DeleteID ?B (entryID (fst e)) (rt_queue r) = (res, q1)" by (metis surj_pair)
  have q1: "res = None" "bq_seq q1 = bq_seq (rt_queue r)" using DeleteID_head [OF inv assms(1,6) del] assms(5) by auto
  have gone: "queue_ok ?C q1" "held ?C q1 = tl (held ?C (rt_queue r))"
    using delete_keeps [OF assms(3,1,6) del] q1(1) by simp_all
  show ?thesis
  proof (cases "ae_publish E (rt_calls r) p")
    case True
    then show ?thesis using peek del gone q1 held by (auto simp: drainStep_def Let_def)
  next
    case False
    let ?r = "r\<lparr>rt_calls := rt_calls r + 1\<rparr>"
    obtain res2 q2 where enq: "enqueueAt E p (rt_queue r) = (res2, q2)" by (metis surj_pair)
    note added = Enqueue_cases [OF enq [unfolded enqueueAt_def] assms(1) inv assms(4) [unfolded roomy_def]]
    note added' = Enqueue_held [OF enq [unfolded enqueueAt_def] assms(1,2) inv _ assms(4) [unfolded roomy_def]]
    have dec: "decodable ?C (rt_queue r)" using assms(3) by (simp add: queue_ok_def)
    show ?thesis
    proof (cases res2)
      case (Inl er)
      then show ?thesis using False peek held enq added added' [OF dec]
        by (auto simp: drainStep_def Let_def rotateHead_def queue_ok_def dec inv)
    next
      case (Inr j)
      then obtain rest' where q2: "bq_entries q2 = e # rest'" "queue_ok ?C q2" using added added' [OF dec] assms(6) by (auto simp: queue_ok_def)
      obtain res3 q3 where del2: "DeleteID ?B (entryID (fst e)) q2 = (res3, q3)" by (metis surj_pair)
      have q3: "res3 = None" "bq_seq q3 = bq_seq q2" "queue_ok ?C q3" "held ?C q3 = tl (held ?C q2)"
        using DeleteID_head [OF _ assms(1) q2(1) del2] delete_keeps [OF q2(2) assms(1) q2(1) del2] assms(5) q2(2)
        by (auto simp: queue_ok_def)
      have "stored ?C p = p" using p(2) Enqueue_marshalled enq Inr stored_fixpoint by (fastforce simp: enqueueAt_def)
      then have "mset (held ?C q3) = mset (held ?C (rt_queue r))" using q3(4) added' [OF dec] Inr held by simp
      then show ?thesis using False peek held enq Inr del2 q3 added dec inv
        by (auto simp: drainStep_def Let_def rotateHead_def queue_ok_def)
    qed
  qed
qed

text \<open>
  C25. The queue drains. When transactions commit and the backend takes every payload from its \<open>N\<close>-th call
  on, the loop returns after at most \<open>N\<close> passes more than the queue has entries, with the queue empty
  and everything it held published.
\<close>

theorem drain_empties_queue:
  assumes "bolt_laws (ae_bolt E)" and "codec_law (ae_codec E)" and "\<forall>n. bl_commit (ae_bolt E) n"
    and "\<forall>n p. N \<le> n \<longrightarrow> ae_publish E n p"
    and "queue_ok (ae_codec E) (rt_queue r)" and "unat (bq_seq (rt_queue r)) + (N - rt_calls r) + 1 < 2 ^ 64"
    and "(N - rt_calls r) + queue_Len (rt_queue r) < fuel"
  shows "\<exists>r'. drainLoop E fuel st r = (True, r') \<and> bq_entries (rt_queue r') = []
    \<and> mset (rt_published r') = mset (rt_published r) + mset (held (ae_codec E) (rt_queue r))"
  using assms(5-)
proof (induction fuel arbitrary: st r)
  case (Suc fuel)
  let ?C = "ae_codec E"
  show ?case
  proof (cases "bq_entries (rt_queue r)")
    case Nil
    then have "drainStep E st r = Inl r" by (rule drainStep_empty)
    then show ?thesis using Nil by (simp add: held_def)
  next
    case (Cons e rest)
    have roomy: "roomy r" using Suc.prems(2) by (simp add: roomy_def)
    obtain st' r' where step: "drainStep E st r = Inr (st', r')" "rt_calls r' = rt_calls r + 1" "queue_ok ?C (rt_queue r')"
      and effect: "if ae_publish E (rt_calls r) (hd (held ?C (rt_queue r)))
         then rt_published r' = rt_published r @ [hd (held ?C (rt_queue r))] \<and> held ?C (rt_queue r') = tl (held ?C (rt_queue r))
           \<and> bq_seq (rt_queue r') = bq_seq (rt_queue r)
         else rt_published r' = rt_published r \<and> mset (held ?C (rt_queue r')) = mset (held ?C (rt_queue r))
           \<and> unat (bq_seq (rt_queue r')) \<le> unat (bq_seq (rt_queue r)) + 1"
      using drainStep_progress [OF assms(1,2) Suc.prems(1) roomy assms(3) Cons] by blast
    have len: "length (held ?C q) = queue_Len q" for q by (simp add: held_def queue_Len_def)
    have nonempty: "held ?C (rt_queue r) \<noteq> []" using Cons by (simp add: held_Cons)
    have m: "mset (rt_published r') + mset (held ?C (rt_queue r')) = mset (rt_published r) + mset (held ?C (rt_queue r))"
      using effect nonempty by (cases "held ?C (rt_queue r)") (auto split: if_splits)
    have fewer: "unat (bq_seq (rt_queue r')) + (N - rt_calls r') + 1 < 2 ^ 64 \<and> (N - rt_calls r') + queue_Len (rt_queue r') < fuel"
    proof (cases "ae_publish E (rt_calls r) (hd (held ?C (rt_queue r)))")
      case True
      then have "queue_Len (rt_queue r') = queue_Len (rt_queue r) - 1" using effect len by (metis length_tl)
      moreover have "0 < queue_Len (rt_queue r)" using nonempty len by (metis length_greater_0_conv)
      ultimately show ?thesis using True effect step(2) Suc.prems(2,3) by auto
    next
      case False
      then have "rt_calls r < N" using assms(4) not_le by blast
      moreover have "queue_Len (rt_queue r') = queue_Len (rt_queue r)" using False effect len by (metis mset_eq_length)
      ultimately show ?thesis using False effect step(2) Suc.prems(2,3) by auto
    qed
    then show ?thesis using Suc.IH [OF step(3)] fewer step(1) m by auto
  qed
qed simp


subsection \<open>Where it blocks and where it loses\<close>

lemma Enqueue_full:
  "bq_maxSize q \<le> int (length (bq_entries q)) \<Longrightarrow> \<exists>e n. Enqueue B C now p q = (Inl e, q\<lparr>bq_tx := n\<rparr>)"
  by (auto simp: Enqueue_def Let_def split: option.split intro: exI [of _ "bq_tx q"])

lemma blocked_step:
  assumes "Peek (ae_codec E) (rt_queue r) = Inr (i, p)" and "\<not> ae_publish E (rt_calls r) p"
    and "bq_maxSize (rt_queue r) \<le> int (length (bq_entries (rt_queue r)))"
  shows "\<exists>st' n. drainStep E st r = Inr (st', r\<lparr>rt_calls := rt_calls r + 1, rt_queue := (rt_queue r)\<lparr>bq_tx := n\<rparr>\<rparr>)"
proof -
  obtain er n where full: "enqueueAt E p (rt_queue r) = (Inl er, (rt_queue r)\<lparr>bq_tx := n\<rparr>)"
    using Enqueue_full [OF assms(3), of "ae_bolt E" "ae_codec E" "ae_clock E (bq_tx (rt_queue r))" p] unfolding enqueueAt_def by blast
  have same: "r\<lparr>rt_calls := c\<rparr> = r\<lparr>rt_calls := c, rt_queue := (rt_queue r)\<lparr>bq_tx := bq_tx (rt_queue r)\<rparr>\<rparr>" for c by simp
  show ?thesis
    using assms(1,2) full by (auto simp: drainStep_def Let_def rotateHead_def intro: same)
qed

text \<open>
  A full queue cannot turn. The rotation of a head the backend keeps refusing needs a free place for
  the copy; with none, the loop never returns, nothing else in the queue is published, and the queue
  stays full.
\<close>

theorem full_queue_blocks_rotation:
  assumes "Peek (ae_codec E) (rt_queue r) = Inr (i, p)" and "\<forall>n. \<not> ae_publish E n p"
    and "bq_maxSize (rt_queue r) \<le> int (length (bq_entries (rt_queue r)))"
  shows "\<not> fst (drainLoop E fuel st r) \<and> rt_published (snd (drainLoop E fuel st r)) = rt_published r
    \<and> bq_entries (rt_queue (snd (drainLoop E fuel st r))) = bq_entries (rt_queue r)"
  using assms(1,3)
proof (induction fuel arbitrary: st r)
  case (Suc fuel)
  obtain st' n where step: "drainStep E st r = Inr (st', r\<lparr>rt_calls := rt_calls r + 1, rt_queue := (rt_queue r)\<lparr>bq_tx := n\<rparr>\<rparr>)"
    using blocked_step [OF Suc.prems(1) _ Suc.prems(2)] assms(2) by blast
  then show ?case using Suc.IH [of "r\<lparr>rt_calls := rt_calls r + 1, rt_queue := (rt_queue r)\<lparr>bq_tx := n\<rparr>\<rparr>" st'] Suc.prems
    by (simp add: Peek_def)
qed simp

text \<open>
  In batch mode nothing turns. A batch the backend keeps refusing, because of one of its payloads, is
  read and sent again for ever; no payload behind it or beside it is published.
\<close>

theorem refused_batch_blocks:
  assumes "1 < rt_batch r" and "PeekBatch (ae_codec E) (rt_batch r) (rt_queue r) = Inr es"
    and "\<forall>n. \<not> ae_publishBatch E n (map snd es)"
  shows "\<not> fst (drain E fuel r) \<and> rt_published (snd (drain E fuel r)) = rt_published r
    \<and> rt_queue (snd (drain E fuel r)) = rt_queue r"
proof -
  have "\<not> fst (drainBatches E fuel r) \<and> rt_published (snd (drainBatches E fuel r)) = rt_published r
    \<and> rt_queue (snd (drainBatches E fuel r)) = rt_queue r"
    using assms(2)
  proof (induction fuel arbitrary: r)
    case (Suc fuel)
    have "drainBatchStep E r = Inr (r\<lparr>rt_calls := rt_calls r + 1\<rparr>)"
      using Suc.prems assms(3) by (simp add: drainBatchStep_def)
    then show ?case using Suc.IH [of "r\<lparr>rt_calls := rt_calls r + 1\<rparr>"] Suc.prems by simp
  qed simp
  then show ?thesis using assms(1) by (simp add: drain_def)
qed

lemma Publish_full:
  assumes "bq_maxSize (rt_queue r) \<le> int (length (bq_entries (rt_queue r)))"
  shows "\<exists>e n. retrier_Publish E p r = (Some e, r\<lparr>rt_queue := (rt_queue r)\<lparr>bq_tx := n\<rparr>\<rparr>)"
proof -
  obtain e n where "enqueueAt E p (rt_queue r) = (Inl e, (rt_queue r)\<lparr>bq_tx := n\<rparr>)"
    using Enqueue_full [OF assms, of "ae_bolt E" "ae_codec E" "ae_clock E (bq_tx (rt_queue r))" p] unfolding enqueueAt_def by blast
  then show ?thesis by (auto simp: retrier_Publish_def)
qed

lemma flush_full:
  assumes "bq_maxSize (rt_queue r) \<le> int (length (bq_entries (rt_queue r)))"
  shows "\<exists>n. rt_queue (batcher_flush E ps r) = (rt_queue r)\<lparr>bq_tx := n\<rparr> \<and> rt_published (batcher_flush E ps r) = rt_published r"
proof -
  let ?at = "\<lambda>n. r\<lparr>rt_queue := (rt_queue r)\<lparr>bq_tx := n\<rparr>\<rparr>"
  have refused: "\<exists>e k. retrier_Publish E p (?at n) = (Some e, ?at k)" for p n
    using Publish_full [of "?at n" E p] assms by auto
  have one: "\<exists>e k. retrier_PublishBatch E ps (?at n) = (e, ?at k)" for n
  proof (induction ps arbitrary: n)
    case Nil
    show ?case by auto
  next
    case (Cons p ps)
    obtain e k where "retrier_Publish E p (?at n) = (Some e, ?at k)" using refused by blast
    then show ?case using Cons.IH [of k] by auto
  qed
  have all: "\<exists>k. fold (\<lambda>p r. snd (retrier_Publish E p r)) ps (?at n) = ?at k" for n
  proof (induction ps arbitrary: n)
    case Nil
    show ?case by auto
  next
    case (Cons p ps)
    obtain e k where "retrier_Publish E p (?at n) = (Some e, ?at k)" using refused by blast
    then show ?case using Cons.IH [of k] by auto
  qed
  have start: "?at (bq_tx (rt_queue r)) = r" by simp
  obtain e k where run: "retrier_PublishBatch E ps r = (e, ?at k)" using one [of "bq_tx (rt_queue r)"] by (auto simp: start)
  obtain j where "fold (\<lambda>p r. snd (retrier_Publish E p r)) ps (?at k) = ?at j" using all [of k] by blast
  then show ?thesis using run by (cases e) (auto simp: batcher_flush_def)
qed

text \<open>
  C35. The batching publisher loses what it accepted. It reports success as soon as a payload is in its
  buffer; when the worker empties the buffer while the durable queue is full, both the batch and the
  fallback are refused, and every payload of the buffer is in no buffer, no queue and not published.
\<close>

theorem full_queue_drops_batch:
  assumes "bp_payloads b \<noteq> []" and "bq_maxSize (rt_queue r) \<le> int (length (bq_entries (rt_queue r)))"
  shows "\<exists>b' r'. batcherStep E (b, r) = Some (False, b', r') \<and> bp_payloads b' = []
    \<and> bq_entries (rt_queue r') = bq_entries (rt_queue r) \<and> rt_published r' = rt_published r"
proof -
  have "batcherStep E (b, r) = Some (False, b\<lparr>bp_payloads := []\<rparr>, batcher_flush E (bp_payloads b) r)"
    using assms(1) by (simp add: batcherStep_def batcher_collect_def)
  then show ?thesis using flush_full [OF assms(2), of E "bp_payloads b"] by auto
qed


subsection \<open>Concrete runs\<close>

definition ex_bolt :: boltLib where
  "ex_bolt = \<lparr>bl_put = putSorted, bl_delete = (\<lambda>k b. filter (\<lambda>e. fst e \<noteq> k) b), bl_next = (\<lambda>n. n + 1), bl_commit = (\<lambda>n. True)\<rparr>"

definition ex_ackEnv :: "(nat \<Rightarrow> bool) \<Rightarrow> bytes ackEnv" where
  "ex_ackEnv ok = \<lparr>ae_bolt = ex_bolt, ae_codec = \<lparr>ac_marshal = Some, ac_unmarshal = Some\<rparr>, ae_publish = (\<lambda>n p. ok n),
     ae_publishBatch = (\<lambda>n ps. ok n), ae_clock = (\<lambda>n. 0)\<rparr>"

text \<open>A queue with room for one payload, and the same with the payload in it.\<close>

definition ex_retrier :: "int \<Rightarrow> bytes retrier" where
  "ex_retrier batch = NewRetryingPublisher 1 batch (OpenQueue 1 [] 0)"

definition ex_waiting :: "int \<Rightarrow> bytes retrier" where
  "ex_waiting batch = (ex_retrier batch)\<lparr>rt_queue := \<lparr>bq_entries = [(queueKey 1 0, [5])], bq_seq = 1, bq_maxSize = 1, bq_tx = 1\<rparr>\<rparr>"

lemma ex_laws: "bolt_laws (ae_bolt (ex_ackEnv ok))" "codec_law (ae_codec (ex_ackEnv ok))" "bl_commit (ae_bolt (ex_ackEnv ok)) n"
  by (simp_all add: ex_ackEnv_def ex_bolt_def bolt_laws_def codec_law_def fixpoint_def)

lemma ex_accepted: "retrier_Publish (ex_ackEnv ok) [5] (ex_retrier batch) = (None, ex_waiting batch)"
  by (simp add: retrier_Publish_def enqueueAt_def Enqueue_def ex_ackEnv_def ex_bolt_def ex_retrier_def ex_waiting_def
    NewRetryingPublisher_def OpenQueue_def putSorted_def Let_def)

lemma ex_waiting_ok: "queue_ok (ae_codec (ex_ackEnv ok)) (rt_queue (ex_waiting batch))" "roomy (ex_waiting batch)" "roomy (ex_retrier batch)"
  by (simp_all add: queue_ok_def queue_inv_def decodable_def fixpoint_def roomy_def ex_ackEnv_def ex_waiting_def ex_retrier_def
    NewRetryingPublisher_def OpenQueue_def)

lemma ex_held: "held (ae_codec (ex_ackEnv ok)) (rt_queue (ex_waiting batch)) = [[5]]" "rt_published (ex_waiting batch) = []"
    "rt_calls (ex_waiting batch) = 0" "queue_Len (rt_queue (ex_waiting batch)) = 1" "bq_seq (rt_queue (ex_waiting batch)) = 1"
    "Peek (ae_codec (ex_ackEnv ok)) (rt_queue (ex_waiting batch)) = Inr (1, [5])"
    "bq_maxSize (rt_queue (ex_waiting batch)) \<le> int (length (bq_entries (rt_queue (ex_waiting batch))))"
  by (simp_all add: held_def ex_ackEnv_def ex_waiting_def ex_retrier_def queue_Len_def NewRetryingPublisher_def Peek_def)

theorem accepted_ack_kept_witness:
  "\<exists>r. (retrier_step (ex_ackEnv (\<lambda>n. True)))\<^sup>*\<^sup>* ([], (0, 0), ex_retrier 1) ([[5]], (0, 0), r)
    \<and> {#[5]#} \<subseteq># mset (rt_published r) + mset (held (ae_codec (ex_ackEnv (\<lambda>n. True))) (rt_queue r))"
proof -
  let ?E = "ex_ackEnv (\<lambda>n. True)"
  have "retrier_step ?E ([], (0, 0), ex_retrier 1) ([] @ [[5]], (0, 0), ex_waiting 1)"
    by (rule retrier_step.accept [OF ex_accepted ex_waiting_ok(3)])
  then have run: "(retrier_step ?E)\<^sup>*\<^sup>* ([], (0, 0), NewRetryingPublisher 1 1 (OpenQueue 1 [] 0)) ([[5]], (0, 0), ex_waiting 1)"
    by (simp add: ex_retrier_def)
  have "stored (ae_codec ?E) [5] = [5]" by (simp add: stored_def ex_ackEnv_def)
  then show ?thesis using accepted_ack_kept [OF ex_laws(1,2) run] run by (auto simp: ex_retrier_def)
qed

theorem drain_empties_queue_witness:
  "\<exists>r. drainLoop (ex_ackEnv (\<lambda>n. 2 \<le> n)) 4 (0, 0) (ex_waiting 1) = (True, r) \<and> bq_entries (rt_queue r) = []
    \<and> mset (rt_published r) = {#[5]#}"
proof -
  have "\<forall>n p. 2 \<le> n \<longrightarrow> ae_publish (ex_ackEnv (\<lambda>n. 2 \<le> n)) n p" by (simp add: ex_ackEnv_def)
  from drain_empties_queue [OF ex_laws(1,2) _ this ex_waiting_ok(1), of 1 4 "(0, 0)"] show ?thesis
    by (simp add: ex_held ex_laws)
qed


theorem full_queue_blocks_rotation_witness:
  "rt_published (snd (drainLoop (ex_ackEnv (\<lambda>n. False)) 100 (0, 0) (ex_waiting 1))) = []"
proof -
  have "\<forall>n. \<not> ae_publish (ex_ackEnv (\<lambda>n. False)) n [5]" by (simp add: ex_ackEnv_def)
  from full_queue_blocks_rotation [OF ex_held(6) this ex_held(7), of 100 "(0, 0)"] show ?thesis by (simp add: ex_held)
qed

theorem refused_batch_blocks_witness:
  "\<not> fst (drain (ex_ackEnv (\<lambda>n. False)) 100 (ex_waiting 2))"
proof -
  let ?E = "ex_ackEnv (\<lambda>n. False)"
  have "PeekBatch (ae_codec ?E) (rt_batch (ex_waiting 2)) (rt_queue (ex_waiting 2)) = Inr [(1, [5])]"
    by (simp add: PeekBatch_def ex_waiting_def ex_retrier_def NewRetryingPublisher_def ex_ackEnv_def)
  moreover have "1 < rt_batch (ex_waiting 2)" by (simp add: ex_waiting_def ex_retrier_def NewRetryingPublisher_def)
  ultimately show ?thesis using refused_batch_blocks [of "ex_waiting 2" ?E "[(1, [5])]" 100] by (simp add: ex_ackEnv_def)
qed

theorem full_queue_drops_batch_witness:
  "\<exists>b r. batcherStep (ex_ackEnv (\<lambda>n. True)) (snd (batcher_Publish [9] (NewBatchingPublisher 1)), ex_waiting 1) = Some (False, b, r)
    \<and> bp_payloads b = [] \<and> bq_entries (rt_queue r) = bq_entries (rt_queue (ex_waiting 1))"
proof -
  have "bp_payloads (snd (batcher_Publish [9] (NewBatchingPublisher 1))) \<noteq> []"
    by (simp add: batcher_Publish_def NewBatchingPublisher_def)
  from full_queue_drops_batch [OF this ex_held(7)] show ?thesis by blast
qed

end
