(* ===== verification/AgentConsumer.thy ===== *)
theory AgentConsumer
  imports GoText "HOL-Library.Sublist"
begin

text \<open>
  The consumer of the policy topic, \<^verbatim>\<open>enforcement-agent/internal/kafka/consumer.go\<close>: the loop that reads a
  claim, hands every message to one of several workers and marks the offsets whose handlers have
  returned.

  The loop, its workers and the session run concurrently; \<open>claimStep\<close> interleaves them. The loop is at one of
  the places of \<open>loopAt\<close>, its \<^verbatim>\<open>select\<close> statements, between the steps; a channel is a list with the
  capacity the code gives it. The messages a claim will deliver are part of the state, as are the logs of what the workers
  started and finished. The message handler is not run here: whatever it returns is a step.
\<close>

subsection \<open>Messages and lanes\<close>

record kafkaMsg =
  km_Offset :: int
  km_Partition :: int
  km_Key :: string
  km_Headers :: "(string \<times> string) list"
  km_Value :: bytes

record groupHandler =
  gh_workers :: int
  gh_queueSize :: int
  gh_admissionPause :: duration
  gh_dispatchPause :: duration
  gh_stripeDistressThreshold :: int
  gh_criticalMaxInFlight :: int
  gh_maintenanceMaxInFlight :: int
  gh_laneClassifier :: "(kafkaMsg \<Rightarrow> string) option"

fun policyIDHeader_of :: "(string \<times> string) list \<Rightarrow> string" where
  "policyIDHeader_of [] = []"
| "policyIDHeader_of ((k, v) # hs) = (if EqualFold (TrimSpace k) ''policy_id'' then TrimSpace v else policyIDHeader_of hs)"

definition policyIDHeader :: "kafkaMsg \<Rightarrow> string" where
  "policyIDHeader m = policyIDHeader_of (km_Headers m)"

definition fnv32a :: "bytes \<Rightarrow> 32 word" where
  "fnv32a b = fold (\<lambda>x h. xor h (ucast x) * 16777619) b 2166136261"

definition stripeKey :: "kafkaMsg \<Rightarrow> string" where
  "stripeKey m =
     (let k = TrimSpace (policyIDHeader m) in
      if k \<noteq> [] then k
      else let k = TrimSpace (km_Key m) in
      if k \<noteq> [] then k else ''partition:'' @ go_Itoa (km_Partition m))"

definition workerStripeForMessage :: "kafkaMsg \<Rightarrow> nat \<Rightarrow> nat" where
  "workerStripeForMessage m n = (if n \<le> 1 then 0 else unat (fnv32a (string_bytes (stripeKey m)) mod of_nat n))"

definition classifyLane :: "groupHandler \<Rightarrow> kafkaMsg \<Rightarrow> string" where
  "classifyLane g m =
     (case gh_laneClassifier g of
        Some f \<Rightarrow> if ToLower (TrimSpace (f m)) = ''maintenance'' then ''maintenance'' else ''critical''
      | None \<Rightarrow> ''critical'')"

definition laneAvailable :: "groupHandler \<Rightarrow> string \<Rightarrow> int \<Rightarrow> int \<Rightarrow> bool" where
  "laneAvailable g lane criticalInFlight maintenanceInFlight =
     (if lane = ''maintenance'' then \<not> (gh_maintenanceMaxInFlight g > 0 \<and> maintenanceInFlight \<ge> gh_maintenanceMaxInFlight g)
      else \<not> (gh_criticalMaxInFlight g > 0 \<and> criticalInFlight \<ge> gh_criticalMaxInFlight g))"

text \<open>The sizes \<^verbatim>\<open>ConsumeClaim\<close> and \<^verbatim>\<open>consumeClaimParallel\<close> settle on.\<close>

definition claimWorkers :: "groupHandler \<Rightarrow> nat" where
  "claimWorkers g = nat (if gh_workers g \<le> 0 then 8 else gh_workers g)"

definition claimQueue :: "groupHandler \<Rightarrow> nat" where
  "claimQueue g = (let q = nat (if gh_queueSize g \<le> 0 then 256 else gh_queueSize g) in
     if q < claimWorkers g then claimWorkers g else q)"

subsection \<open>The state of a claim\<close>

record consumerTask =
  tk_msg :: kafkaMsg
  tk_lane :: string

record consumerResult =
  cr_msg :: kafkaMsg
  cr_err :: "string option"
  cr_canceled :: bool
  cr_lane :: string

datatype loopAt = AtTop | AtPause | AtRead | AtLane | AtSlot nat consumerTask | AtDrain | Returned

record claimWorker =
  wk_queue :: "consumerTask list"
  wk_busy :: "consumerTask option"
  wk_gone :: bool

record claimState =
  cs_at :: loopAt
  cs_ctxDone :: bool
  cs_input :: "kafkaMsg list"
  cs_readOpen :: bool
  cs_inflight :: int
  cs_critical :: int
  cs_maintenance :: int
  cs_nextOffset :: int
  cs_nextOffsetSet :: bool
  cs_pending :: "(int, consumerResult) gomap"
  cs_msgPending :: "kafkaMsg option"
  cs_saturation :: "int list"
  cs_distress :: "bool list"
  cs_pausedUntil :: instant
  cs_workers :: "claimWorker list"
  cs_results :: "consumerResult list"
  cs_marked :: "kafkaMsg list"
  cs_read :: "kafkaMsg list"
  cs_started :: "(nat \<times> kafkaMsg) list"
  cs_finished :: "consumerResult list"

definition claimInit :: "groupHandler \<Rightarrow> kafkaMsg list \<Rightarrow> claimState" where
  "claimInit g msgs = \<lparr>cs_at = AtTop, cs_ctxDone = False, cs_input = msgs, cs_readOpen = True,
     cs_inflight = 0, cs_critical = 0, cs_maintenance = 0, cs_nextOffset = 0, cs_nextOffsetSet = False,
     cs_pending = [], cs_msgPending = None, cs_saturation = replicate (claimWorkers g) 0,
     cs_distress = replicate (claimWorkers g) False, cs_pausedUntil = zeroTime,
     cs_workers = replicate (claimWorkers g) \<lparr>wk_queue = [], wk_busy = None, wk_gone = False\<rparr>,
     cs_results = [], cs_marked = [], cs_read = [], cs_started = [], cs_finished = []\<rparr>"

subsection \<open>Marking\<close>

function drainMarkable ::
    "(int, consumerResult) gomap \<Rightarrow> int \<Rightarrow> (int, consumerResult) gomap \<times> int \<times> kafkaMsg list" where
  "drainMarkable pending n =
     (case map_of pending n of
        None \<Rightarrow> (pending, n, [])
      | Some res \<Rightarrow>
          (case drainMarkable (AList.delete n pending) (n + 1) of (p, n', ms) \<Rightarrow> (p, n', cr_msg res # ms)))"
  by pat_completeness auto
termination
  by (relation "measure (\<lambda>(p, _). length p)") (auto simp: delete_shorter)

declare drainMarkable.simps [simp del]

definition drainMarkableResults :: "claimState \<Rightarrow> claimState" where
  "drainMarkableResults st =
     (if \<not> cs_nextOffsetSet st then st
      else case drainMarkable (cs_pending st) (cs_nextOffset st) of
             (p, n, ms) \<Rightarrow> st\<lparr>cs_pending := p, cs_nextOffset := n, cs_marked := cs_marked st @ ms\<rparr>)"

text \<open>What every \<^verbatim>\<open>select\<close> does with a result.\<close>

definition onResult :: "consumerResult \<Rightarrow> claimState \<Rightarrow> claimState" where
  "onResult res st =
     (let st = st\<lparr>cs_inflight := cs_inflight st - 1\<rparr>;
          st = (if cr_lane res = ''maintenance'' then st\<lparr>cs_maintenance := cs_maintenance st - 1\<rparr>
                else st\<lparr>cs_critical := cs_critical st - 1\<rparr>) in
      drainMarkableResults (st\<lparr>cs_pending := AList.update (km_Offset (cr_msg res)) res (cs_pending st)\<rparr>))"

subsection \<open>Dispatching\<close>

definition workerAt :: "claimState \<Rightarrow> nat \<Rightarrow> claimWorker" where
  "workerAt st i = cs_workers st ! i"

definition setWorker :: "nat \<Rightarrow> claimWorker \<Rightarrow> claimState \<Rightarrow> claimState" where
  "setWorker i w st = st\<lparr>cs_workers := (cs_workers st)[i := w]\<rparr>"

definition queueOpen :: "groupHandler \<Rightarrow> nat \<Rightarrow> claimState \<Rightarrow> bool" where
  "queueOpen g i st \<longleftrightarrow> length (wk_queue (workerAt st i)) < claimQueue g"

definition enqueueTask :: "nat \<Rightarrow> consumerTask \<Rightarrow> claimState \<Rightarrow> claimState" where
  "enqueueTask i t st =
     (let w = workerAt st i;
          st = setWorker i (w\<lparr>wk_queue := wk_queue w @ [t]\<rparr>) st;
          st = st\<lparr>cs_saturation := (cs_saturation st)[i := 0], cs_distress := (cs_distress st)[i := False],
                  cs_inflight := cs_inflight st + 1\<rparr>;
          st = (if tk_lane t = ''maintenance'' then st\<lparr>cs_maintenance := cs_maintenance st + 1\<rparr>
                else st\<lparr>cs_critical := cs_critical st + 1\<rparr>) in
      st\<lparr>cs_msgPending := None, cs_at := AtTop\<rparr>)"

definition saturated :: "groupHandler \<Rightarrow> instant \<Rightarrow> nat \<Rightarrow> consumerTask \<Rightarrow> claimState \<Rightarrow> claimState" where
  "saturated g now i t st =
     (let n = cs_saturation st ! i + 1;
          threshold = (if gh_stripeDistressThreshold g < 1 then 3 else gh_stripeDistressThreshold g);
          st = st\<lparr>cs_saturation := (cs_saturation st)[i := n],
                  cs_distress := (if \<not> cs_distress st ! i \<and> n \<ge> threshold then (cs_distress st)[i := True] else cs_distress st)\<rparr>;
          st = (if gh_admissionPause g > 0 then st\<lparr>cs_pausedUntil := now + gh_admissionPause g\<rparr> else st);
          st = (if gh_dispatchPause g > 0 \<and> now + gh_dispatchPause g > cs_pausedUntil st
                then st\<lparr>cs_pausedUntil := now + gh_dispatchPause g\<rparr> else st) in
      st\<lparr>cs_at := AtSlot i t\<rparr>)"

definition dispatch :: "groupHandler \<Rightarrow> instant \<Rightarrow> kafkaMsg \<Rightarrow> claimState \<Rightarrow> claimState" where
  "dispatch g now m st =
     (let st = (if \<not> cs_nextOffsetSet st then st\<lparr>cs_nextOffset := km_Offset m, cs_nextOffsetSet := True\<rparr> else st);
          lane = classifyLane g m;
          i = workerStripeForMessage m (claimWorkers g);
          t = \<lparr>tk_msg = m, tk_lane = lane\<rparr> in
      if \<not> laneAvailable g lane (cs_critical st) (cs_maintenance st) then st\<lparr>cs_at := AtLane\<rparr>
      else if queueOpen g i st then enqueueTask i t st
      else saturated g now i t st)"

text \<open>One round of the loop up to the \<^verbatim>\<open>select\<close> it blocks in.\<close>

definition loopTop :: "groupHandler \<Rightarrow> instant \<Rightarrow> claimState \<Rightarrow> claimState" where
  "loopTop g now st =
     (if cs_ctxDone st then st\<lparr>cs_at := Returned\<rparr>
      else case cs_msgPending st of
             Some m \<Rightarrow> dispatch g now m st
           | None \<Rightarrow>
               if \<not> cs_readOpen st \<and> cs_inflight st = 0 then st\<lparr>cs_at := Returned\<rparr>
               else if cs_readOpen st then
                 st\<lparr>cs_at := (if gh_admissionPause g > 0 \<and> now < cs_pausedUntil st then AtPause else AtRead)\<rparr>
               else st\<lparr>cs_at := AtDrain\<rparr>)"

definition inSelect :: "claimState \<Rightarrow> bool" where
  "inSelect st \<longleftrightarrow> cs_at st \<noteq> AtTop \<and> cs_at st \<noteq> Returned"

inductive claimStep :: "groupHandler \<Rightarrow> claimState \<Rightarrow> claimState \<Rightarrow> bool" for g where
  top: "cs_at st = AtTop \<Longrightarrow> claimStep g st (loopTop g now st)"
| result: "inSelect st \<Longrightarrow> cs_results st = r # rs \<Longrightarrow> claimStep g st (onResult r (st\<lparr>cs_results := rs, cs_at := AtTop\<rparr>))"
| message: "cs_at st = AtRead \<Longrightarrow> cs_input st = m # ms
    \<Longrightarrow> claimStep g st (st\<lparr>cs_input := ms, cs_read := cs_read st @ [m], cs_msgPending := Some m, cs_at := AtTop\<rparr>)"
| closed: "cs_at st = AtRead \<Longrightarrow> cs_input st = [] \<Longrightarrow> claimStep g st (st\<lparr>cs_readOpen := False, cs_at := AtTop\<rparr>)"
| slot: "cs_at st = AtSlot i t \<Longrightarrow> queueOpen g i st \<Longrightarrow> claimStep g st (enqueueTask i t st)"
| timer: "inSelect st \<Longrightarrow> claimStep g st (st\<lparr>cs_at := AtTop\<rparr>)"
| canceled: "inSelect st \<Longrightarrow> cs_ctxDone st \<Longrightarrow> claimStep g st (st\<lparr>cs_at := Returned\<rparr>)"
| session_ends: "claimStep g st (st\<lparr>cs_ctxDone := True\<rparr>)"
| start: "i < length (cs_workers st) \<Longrightarrow> workerAt st i = w \<Longrightarrow> \<not> wk_gone w \<Longrightarrow> wk_busy w = None \<Longrightarrow> wk_queue w = t # q
    \<Longrightarrow> claimStep g st ((setWorker i (w\<lparr>wk_queue := q, wk_busy := Some t\<rparr>) st)\<lparr>cs_started := cs_started st @ [(i, tk_msg t)]\<rparr>)"
| finish: "i < length (cs_workers st) \<Longrightarrow> workerAt st i = w \<Longrightarrow> \<not> wk_gone w \<Longrightarrow> wk_busy w = Some t
    \<Longrightarrow> length (cs_results st) < 2 * claimQueue g
    \<Longrightarrow> r = \<lparr>cr_msg = tk_msg t, cr_err = e, cr_canceled = c, cr_lane = tk_lane t\<rparr> \<Longrightarrow> (c \<longrightarrow> e \<noteq> None)
    \<Longrightarrow> claimStep g st ((setWorker i (w\<lparr>wk_busy := None\<rparr>) st)\<lparr>cs_results := cs_results st @ [r], cs_finished := cs_finished st @ [r]\<rparr>)"
| abandon: "i < length (cs_workers st) \<Longrightarrow> workerAt st i = w \<Longrightarrow> wk_busy w = Some t \<Longrightarrow> cs_ctxDone st
    \<Longrightarrow> claimStep g st (setWorker i (w\<lparr>wk_gone := True\<rparr>) st)"


lemma mset_delete: "(k, v) \<in> set m \<Longrightarrow> gm_wf m \<Longrightarrow> mset m = add_mset (k, v) (mset (AList.delete k m))"
proof (induction m)
  case (Cons e m)
  obtain k' v' where e: "e = (k', v')" by (cases e)
  show ?case
  proof (cases "k' = k")
    case True
    then have "k \<notin> set (keys_of m)" using Cons.prems(2) by (simp add: gm_wf_def e)
    then have "v' = v" "AList.delete k m = m" using Cons.prems(1) True e by (force, simp add: delete_idem)
    then show ?thesis using True e by simp
  next
    case False
    then show ?thesis using Cons e by (simp add: gm_wf_def)
  qed
qed simp

lemma mset_update: "map_of m k = None \<Longrightarrow> mset (AList.update k v m) = add_mset (k, v) (mset m)"
  by (induction m) auto

lemma mset_concat_update:
  "i < length xs \<Longrightarrow> mset (concat (xs[i := ys])) + mset (xs ! i) = mset (concat xs) + mset ys"
  by (induction xs arbitrary: i) (auto split: nat.split)

subsection \<open>Marking is a prefix of the offsets\<close>

lemma drainMarkable_spec:
  assumes "drainMarkable p n = (p', n', ms)" and "gm_wf p" and "\<forall>(o', r) \<in> set p. o' = km_Offset (cr_msg r)"
  shows "n \<le> n' \<and> map km_Offset ms = [n..n' - 1] \<and> map_of p' n' = None \<and> gm_wf p' \<and> set p' \<subseteq> set p
    \<and> mset (map (\<lambda>e. cr_msg (snd e)) p) = mset ms + mset (map (\<lambda>e. cr_msg (snd e)) p')
    \<and> set ms \<subseteq> (\<lambda>e. cr_msg (snd e)) ` set p"
  using assms
proof (induction p n arbitrary: p' n' ms rule: drainMarkable.induct)
  case (1 p n)
  show ?case
  proof (cases "map_of p n")
    case None
    then show ?thesis using 1 by (simp add: drainMarkable.simps [of p n])
  next
    case (Some r)
    obtain q k us where rec: "drainMarkable (AList.delete n p) (n + 1) = (q, k, us)" by (metis prod_cases3)
    then have out: "p' = q" "n' = k" "ms = cr_msg r # us" using 1(2) Some by (simp_all add: drainMarkable.simps [of p n])
    have sub: "set (AList.delete n p) \<subseteq> set p" by (auto simp: AList.delete_eq)
    then have wf: "gm_wf (AList.delete n p)" "\<forall>(o', r) \<in> set (AList.delete n p). o' = km_Offset (cr_msg r)"
      using 1(3,4) by (simp, blast)
    have ih: "n + 1 \<le> k \<and> map km_Offset us = [n + 1..k - 1] \<and> map_of q k = None \<and> gm_wf q \<and> set q \<subseteq> set (AList.delete n p)
        \<and> mset (map (\<lambda>e. cr_msg (snd e)) (AList.delete n p)) = mset us + mset (map (\<lambda>e. cr_msg (snd e)) q)
        \<and> set us \<subseteq> (\<lambda>e. cr_msg (snd e)) ` set (AList.delete n p)"
      using 1(1) [OF Some rec wf] by simp
    have mem: "(n, r) \<in> set p" using Some by (rule map_of_SomeD)
    then have off: "km_Offset (cr_msg r) = n" using 1(4) by auto
    have "mset p = add_mset (n, r) (mset (AList.delete n p))" using mem 1(3) by (rule mset_delete)
    then have "mset (map (\<lambda>e. cr_msg (snd e)) p) = add_mset (cr_msg r) (mset (map (\<lambda>e. cr_msg (snd e)) (AList.delete n p)))"
      by simp
    moreover have "[n..k - 1] = n # [n + 1..k - 1]" using ih by (simp add: upto_rec1)
    moreover have "cr_msg r \<in> (\<lambda>e. cr_msg (snd e)) ` set p" using mem by force
    moreover have "(\<lambda>e. cr_msg (snd e)) ` set (AList.delete n p) \<subseteq> (\<lambda>e. cr_msg (snd e)) ` set p" using sub by (rule image_mono)
    moreover have "set q \<subseteq> set p" using ih sub by (meson order_trans)
    ultimately show ?thesis using ih off out by (simp add: order_trans [where y = "(\<lambda>e. cr_msg (snd e)) ` set (AList.delete n p)"])
  qed
qed

subsection \<open>Where every message is\<close>

definition optMsg :: "kafkaMsg option \<Rightarrow> kafkaMsg list" where
  "optMsg x = (case x of None \<Rightarrow> [] | Some m \<Rightarrow> [m])"

definition heldTasks :: "claimWorker \<Rightarrow> consumerTask list" where
  "heldTasks w = (case wk_busy w of None \<Rightarrow> [] | Some t \<Rightarrow> [t]) @ wk_queue w"

definition tasksOf :: "claimState \<Rightarrow> consumerTask multiset" where
  "tasksOf st = mset (concat (map heldTasks (cs_workers st)))"

definition pendingMsgs :: "claimState \<Rightarrow> kafkaMsg list" where
  "pendingMsgs st = map (\<lambda>e. cr_msg (snd e)) (cs_pending st)"

text \<open>Every message read is in exactly one place.\<close>

definition account :: "claimState \<Rightarrow> bool" where
  "account st \<longleftrightarrow> mset (cs_read st) = mset (optMsg (cs_msgPending st)) + image_mset tk_msg (tasksOf st)
     + image_mset cr_msg (mset (cs_results st)) + mset (pendingMsgs st) + mset (cs_marked st)"

definition laneCount :: "(string \<Rightarrow> bool) \<Rightarrow> claimState \<Rightarrow> int" where
  "laneCount P st = int (size (filter_mset (\<lambda>t. P (tk_lane t)) (tasksOf st)) + size (filter_mset (\<lambda>r. P (cr_lane r)) (mset (cs_results st))))"

definition counts :: "claimState \<Rightarrow> bool" where
  "counts st \<longleftrightarrow> cs_inflight st = laneCount (\<lambda>_. True) st \<and> cs_maintenance st = laneCount (\<lambda>l. l = ''maintenance'') st
     \<and> cs_critical st = laneCount (\<lambda>l. l \<noteq> ''maintenance'') st"

definition pendingKeyed :: "claimState \<Rightarrow> bool" where
  "pendingKeyed st \<longleftrightarrow> gm_wf (cs_pending st) \<and> (\<forall>(n, r) \<in> set (cs_pending st). n = km_Offset (cr_msg r))"

definition marksOk :: "claimState \<Rightarrow> bool" where
  "marksOk st \<longleftrightarrow>
     (if cs_nextOffsetSet st
      then cs_read st \<noteq> [] \<and> km_Offset (hd (cs_read st)) \<le> cs_nextOffset st
        \<and> map km_Offset (cs_marked st) = [km_Offset (hd (cs_read st))..cs_nextOffset st - 1]
        \<and> map_of (cs_pending st) (cs_nextOffset st) = None
      else tasksOf st = {#} \<and> cs_results st = [] \<and> cs_pending st = [] \<and> cs_marked st = [])"

definition finishedOk :: "claimState \<Rightarrow> bool" where
  "finishedOk st \<longleftrightarrow> set (cs_results st) \<union> snd ` set (cs_pending st) \<subseteq> set (cs_finished st)
     \<and> set (cs_marked st) \<subseteq> cr_msg ` set (cs_finished st)"

definition placeOk :: "groupHandler \<Rightarrow> claimState \<Rightarrow> bool" where
  "placeOk g st \<longleftrightarrow> length (cs_workers st) = claimWorkers g \<and> (cs_at st = AtRead \<longrightarrow> cs_msgPending st = None)
     \<and> (\<forall>i t. cs_at st = AtSlot i t \<longrightarrow> cs_msgPending st = Some (tk_msg t) \<and> cs_nextOffsetSet st
         \<and> i = workerStripeForMessage (tk_msg t) (claimWorkers g) \<and> laneAvailable g (tk_lane t) (cs_critical st) (cs_maintenance st))"

lemmas claim_defs = account_def counts_def pendingKeyed_def marksOk_def finishedOk_def placeOk_def laneCount_def pendingMsgs_def

lemma claimWorkers_pos: "0 < claimWorkers g"
  by (simp add: claimWorkers_def)

lemma stripe_bound: "workerStripeForMessage m (claimWorkers g) < claimWorkers g"
proof -
  define h where "h = fnv32a (string_bytes (stripeKey m))"
  have "unat (h mod of_nat n) < n" if "1 < n" for n
  proof (cases "n < 2 ^ 32")
    case True
    then have "unat (of_nat n :: 32 word) = n" by (simp add: unsigned_of_nat take_bit_nat_eq_self)
    then show ?thesis using that by (simp add: unat_mod)
  next
    case False
    have "unat (h mod of_nat n) < 2 ^ LENGTH(32)" by (rule unsigned_less)
    then show ?thesis using False by simp
  qed
  then show ?thesis using claimWorkers_pos by (auto simp: workerStripeForMessage_def h_def [symmetric])
qed

lemma tasksOf_set:
  assumes "i < length (cs_workers st)"
  shows "tasksOf (setWorker i w st) + mset (heldTasks (workerAt st i)) = tasksOf st + mset (heldTasks w)"
  using mset_concat_update [of i "map heldTasks (cs_workers st)" "heldTasks w"] assms
  by (simp add: tasksOf_def setWorker_def workerAt_def map_update)

lemma tasksOf_cong: "cs_workers st = cs_workers st' \<Longrightarrow> tasksOf st = tasksOf st'"
  by (simp add: tasksOf_def)

lemma enqueue_fields:
  assumes "i < length (cs_workers st)"
  shows "tasksOf (enqueueTask i t st) = add_mset t (tasksOf st)"
proof -
  have "tasksOf (enqueueTask i t st) = tasksOf (setWorker i (workerAt st i\<lparr>wk_queue := wk_queue (workerAt st i) @ [t]\<rparr>) st)"
    by (rule tasksOf_cong) (simp add: enqueueTask_def Let_def)
  then show ?thesis
    using tasksOf_set [OF assms, of "workerAt st i\<lparr>wk_queue := wk_queue (workerAt st i) @ [t]\<rparr>"]
    by (simp add: heldTasks_def split: option.splits)
qed

lemma enqueue_frame [simp]:
  "cs_read (enqueueTask i t st) = cs_read st" "cs_results (enqueueTask i t st) = cs_results st"
  "cs_pending (enqueueTask i t st) = cs_pending st" "cs_marked (enqueueTask i t st) = cs_marked st"
  "cs_msgPending (enqueueTask i t st) = None" "cs_nextOffset (enqueueTask i t st) = cs_nextOffset st"
  "cs_nextOffsetSet (enqueueTask i t st) = cs_nextOffsetSet st" "cs_finished (enqueueTask i t st) = cs_finished st"
  "cs_at (enqueueTask i t st) = AtTop" "length (cs_workers (enqueueTask i t st)) = length (cs_workers st)"
  "cs_inflight (enqueueTask i t st) = cs_inflight st + 1" "cs_input (enqueueTask i t st) = cs_input st"
  "cs_maintenance (enqueueTask i t st) = cs_maintenance st + (if tk_lane t = ''maintenance'' then 1 else 0)"
  "cs_critical (enqueueTask i t st) = cs_critical st + (if tk_lane t = ''maintenance'' then 0 else 1)"
  "cs_started (enqueueTask i t st) = cs_started st"
  by (simp_all add: enqueueTask_def setWorker_def Let_def)

definition claim_inv :: "groupHandler \<Rightarrow> claimState \<Rightarrow> bool" where
  "claim_inv g st \<longleftrightarrow> account st \<and> counts st \<and> pendingKeyed st \<and> marksOk st \<and> finishedOk st \<and> placeOk g st"

lemma enqueue_claim_inv:
  assumes "claim_inv g st" and "cs_msgPending st = Some (tk_msg t)" and "cs_nextOffsetSet st" and "i < length (cs_workers st)"
  shows "claim_inv g (enqueueTask i t st)"
  using assms by (simp add: claim_inv_def claim_defs enqueue_fields optMsg_def)

lemma distinct_offsets_two:
  assumes "distinct (map f xs)" and "mset xs = add_mset a (add_mset b M)"
  shows "f a \<noteq> f b"
proof -
  have "mset (map f xs) = add_mset (f a) (add_mset (f b) (image_mset f M))" using assms(2) by simp
  moreover have "count (mset (map f xs)) (f a) \<le> 1" using assms(1) by (simp add: distinct_count_atmost_1)
  ultimately show ?thesis by auto
qed

lemma pending_absent:
  assumes "claim_inv g st" and "distinct (map km_Offset (cs_read st))" and "cs_results st = r # rs"
  shows "map_of (cs_pending st) (km_Offset (cr_msg r)) = None"
proof (rule ccontr)
  assume "\<not> ?thesis"
  then obtain r' where "map_of (cs_pending st) (km_Offset (cr_msg r)) = Some r'" by blast
  then have mem: "(km_Offset (cr_msg r), r') \<in> set (cs_pending st)" by (rule map_of_SomeD)
  then have off: "km_Offset (cr_msg r') = km_Offset (cr_msg r)" using assms(1) by (auto simp: claim_inv_def pendingKeyed_def)
  have "cr_msg r' \<in># mset (pendingMsgs st)" using mem by (force simp: pendingMsgs_def)
  then obtain M where "mset (pendingMsgs st) = add_mset (cr_msg r') M" by (metis mset_add)
  then have "mset (cs_read st) = add_mset (cr_msg r) (add_mset (cr_msg r') (mset (optMsg (cs_msgPending st))
      + image_mset tk_msg (tasksOf st) + image_mset cr_msg (mset rs) + M + mset (cs_marked st)))"
    using assms(1,3) by (simp add: claim_inv_def account_def)
  from distinct_offsets_two [OF assms(2) this] off show False by simp
qed

lemma onResult_inv:
  assumes inv: "claim_inv g st" and "distinct (map km_Offset (cs_read st))" and res: "cs_results st = r # rs"
  shows "claim_inv g (onResult r (st\<lparr>cs_results := rs, cs_at := AtTop\<rparr>))"
proof -
  let ?p = "AList.update (km_Offset (cr_msg r)) r (cs_pending st)"
  have isset: "cs_nextOffsetSet st" using inv res by (auto simp: claim_inv_def marksOk_def split: if_splits)
  have absent: "map_of (cs_pending st) (km_Offset (cr_msg r)) = None" by (rule pending_absent [OF assms])
  have keyed: "gm_wf ?p" "\<forall>(n, r) \<in> set ?p. n = km_Offset (cr_msg r)"
    using inv gm_all_update [of "\<lambda>(n, r). n = km_Offset (cr_msg r)" "cs_pending st" "km_Offset (cr_msg r)" r]
    by (simp_all add: claim_inv_def pendingKeyed_def list_all_iff)
  have in_p: "set ?p \<subseteq> insert (km_Offset (cr_msg r), r) (set (cs_pending st))"
    using mset_update [OF absent, of r] by (metis set_mset_add_mset_insert set_mset_mset subset_refl)
  obtain p n ms where drain: "drainMarkable ?p (cs_nextOffset st) = (p, n, ms)" by (metis prod_cases3)
  note D = drainMarkable_spec [OF drain keyed]
  define st' where "st' = onResult r (st\<lparr>cs_results := rs, cs_at := AtTop\<rparr>)"
  have fields: "cs_pending st' = p" "cs_nextOffset st' = n" "cs_marked st' = cs_marked st @ ms" "cs_nextOffsetSet st'"
    "cs_results st' = rs" "cs_at st' = AtTop" "cs_read st' = cs_read st" "cs_msgPending st' = cs_msgPending st"
    "cs_workers st' = cs_workers st" "cs_finished st' = cs_finished st" "cs_inflight st' = cs_inflight st - 1"
    "cs_maintenance st' = cs_maintenance st - (if cr_lane r = ''maintenance'' then 1 else 0)"
    "cs_critical st' = cs_critical st - (if cr_lane r = ''maintenance'' then 0 else 1)" "tasksOf st' = tasksOf st"
    using isset drain by (simp_all add: st'_def onResult_def drainMarkableResults_def tasksOf_def Let_def)
  have moved: "add_mset (cr_msg r) (mset (pendingMsgs st)) = mset ms + mset (pendingMsgs st')"
    using D mset_update [OF absent, of r] by (simp add: pendingMsgs_def fields)
  have "account st'" using inv moved res by (simp add: claim_inv_def account_def fields)
  moreover have "counts st'" using inv res by (simp add: claim_inv_def counts_def laneCount_def fields)
  moreover have "pendingKeyed st'" using D keyed(2) by (auto simp: pendingKeyed_def fields)
  moreover have "marksOk st'"
  proof -
    let ?s = "km_Offset (hd (cs_read st))"
    have "cs_read st \<noteq> []" "?s \<le> cs_nextOffset st" "map km_Offset (cs_marked st) = [?s..cs_nextOffset st - 1]"
      using inv isset by (simp_all add: claim_inv_def marksOk_def)
    moreover have "[?s..n - 1] = [?s..cs_nextOffset st - 1] @ [cs_nextOffset st..n - 1]"
      using D \<open>?s \<le> cs_nextOffset st\<close> upto_split1 [of ?s "cs_nextOffset st" "n - 1"] by (cases "cs_nextOffset st = n") simp_all
    ultimately show ?thesis using D by (simp add: marksOk_def fields)
  qed
  moreover have "finishedOk st'"
  proof -
    have old: "r \<in> set (cs_finished st)" "set rs \<subseteq> set (cs_finished st)" "snd ` set (cs_pending st) \<subseteq> set (cs_finished st)"
      "set (cs_marked st) \<subseteq> cr_msg ` set (cs_finished st)" using inv res by (auto simp: claim_inv_def finishedOk_def)
    have "snd ` set ?p \<subseteq> insert r (snd ` set (cs_pending st))" using image_mono [OF in_p, of snd] by simp
    then have "snd ` set ?p \<subseteq> set (cs_finished st)" using old(1,3) by blast
    then have "cr_msg ` snd ` set ?p \<subseteq> cr_msg ` set (cs_finished st)" by (rule image_mono)
    moreover have "set ms \<subseteq> cr_msg ` snd ` set ?p" using D by (simp add: image_image)
    ultimately have "set ms \<subseteq> cr_msg ` set (cs_finished st)" by (rule order_trans [rotated])
    moreover have "snd ` set p \<subseteq> snd ` set ?p" using D by (intro image_mono) simp
    ultimately show ?thesis using old(2,4) \<open>snd ` set ?p \<subseteq> set (cs_finished st)\<close> by (simp add: finishedOk_def fields)
  qed
  moreover have "placeOk g st'" using inv by (simp add: claim_inv_def placeOk_def fields)
  ultimately show ?thesis by (simp add: claim_inv_def st'_def)
qed

lemma claim_invI:
  "account st \<Longrightarrow> counts st \<Longrightarrow> pendingKeyed st \<Longrightarrow> marksOk st \<Longrightarrow> finishedOk st \<Longrightarrow> placeOk g st \<Longrightarrow> claim_inv g st"
  by (simp add: claim_inv_def)

lemma claim_invD:
  "claim_inv g st \<Longrightarrow> account st" "claim_inv g st \<Longrightarrow> counts st" "claim_inv g st \<Longrightarrow> pendingKeyed st"
  "claim_inv g st \<Longrightarrow> marksOk st" "claim_inv g st \<Longrightarrow> finishedOk st" "claim_inv g st \<Longrightarrow> placeOk g st"
  by (simp_all add: claim_inv_def)

lemma setWorker_frame [simp]:
  "cs_read (setWorker i w st) = cs_read st" "cs_results (setWorker i w st) = cs_results st"
  "cs_pending (setWorker i w st) = cs_pending st" "cs_marked (setWorker i w st) = cs_marked st"
  "cs_msgPending (setWorker i w st) = cs_msgPending st" "cs_nextOffset (setWorker i w st) = cs_nextOffset st"
  "cs_nextOffsetSet (setWorker i w st) = cs_nextOffsetSet st" "cs_finished (setWorker i w st) = cs_finished st"
  "cs_at (setWorker i w st) = cs_at st" "length (cs_workers (setWorker i w st)) = length (cs_workers st)"
  "cs_inflight (setWorker i w st) = cs_inflight st" "cs_maintenance (setWorker i w st) = cs_maintenance st"
  "cs_critical (setWorker i w st) = cs_critical st" "cs_input (setWorker i w st) = cs_input st"
  "cs_started (setWorker i w st) = cs_started st"
  by (simp_all add: setWorker_def)

text \<open>A step that moves no message keeps the invariant.\<close>

lemma claim_inv_frame:
  assumes inv: "claim_inv g st" and tasks: "tasksOf st' = tasksOf st" and place: "placeOk g st'"
    and frame: "cs_read st' = cs_read st" "cs_results st' = cs_results st" "cs_pending st' = cs_pending st" "cs_marked st' = cs_marked st"
      "cs_msgPending st' = cs_msgPending st" "cs_nextOffset st' = cs_nextOffset st" "cs_nextOffsetSet st' = cs_nextOffsetSet st"
      "cs_finished st' = cs_finished st" "cs_inflight st' = cs_inflight st" "cs_maintenance st' = cs_maintenance st"
      "cs_critical st' = cs_critical st"
  shows "claim_inv g st'"
proof (rule claim_invI)
  show "account st'" using claim_invD(1) [OF inv] by (simp add: account_def pendingMsgs_def tasks frame)
  show "counts st'" using claim_invD(2) [OF inv] by (simp add: counts_def laneCount_def tasks frame)
  show "pendingKeyed st'" using claim_invD(3) [OF inv] by (simp add: pendingKeyed_def frame)
  show "marksOk st'" using claim_invD(4) [OF inv] unfolding marksOk_def tasks frame .
  show "finishedOk st'" using claim_invD(5) [OF inv] by (simp add: finishedOk_def frame)
qed (rule place)

lemma finish_inv:
  assumes inv: "claim_inv g st" and "i < length (cs_workers st)" and "workerAt st i = w" and "wk_busy w = Some t"
    and r: "cr_msg r = tk_msg t" "cr_lane r = tk_lane t"
  shows "claim_inv g ((setWorker i (w\<lparr>wk_busy := None\<rparr>) st)\<lparr>cs_results := cs_results st @ [r], cs_finished := cs_finished st @ [r]\<rparr>)"
    (is "claim_inv g ?st'")
proof -
  have "tasksOf ?st' = tasksOf (setWorker i (w\<lparr>wk_busy := None\<rparr>) st)" by (rule tasksOf_cong) simp
  then have all: "tasksOf st = add_mset t (tasksOf ?st')"
    using tasksOf_set [OF assms(2), of "w\<lparr>wk_busy := None\<rparr>"] assms(3,4) by (simp add: heldTasks_def)
  then have isset: "cs_nextOffsetSet st" using claim_invD(4) [OF inv] by (auto simp: marksOk_def split: if_splits)
  show ?thesis
  proof (rule claim_invI)
    show "account ?st'" using claim_invD(1) [OF inv] by (simp add: account_def pendingMsgs_def all r)
    show "counts ?st'" using claim_invD(2) [OF inv] by (simp add: counts_def laneCount_def all r)
    show "pendingKeyed ?st'" using claim_invD(3) [OF inv] by (simp add: pendingKeyed_def)
    show "marksOk ?st'" using claim_invD(4) [OF inv] isset by (simp add: marksOk_def)
    show "finishedOk ?st'" using claim_invD(5) [OF inv] by (auto simp: finishedOk_def)
    show "placeOk g ?st'" using claim_invD(6) [OF inv] by (simp add: placeOk_def)
  qed
qed

lemma dispatch_inv:
  assumes inv: "claim_inv g st" and m: "cs_msgPending st = Some m" and read: "cs_nextOffsetSet st \<or> cs_read st = [m]"
  shows "claim_inv g (dispatch g now m st)"
proof -
  define st1 where "st1 = (if \<not> cs_nextOffsetSet st then st\<lparr>cs_nextOffset := km_Offset m, cs_nextOffsetSet := True\<rparr> else st)"
  let ?i = "workerStripeForMessage m (claimWorkers g)" and ?t = "\<lparr>tk_msg = m, tk_lane = classifyLane g m\<rparr>"
  have t1: "tasksOf st1 = tasksOf st" by (rule tasksOf_cong) (simp add: st1_def)
  have set1: "cs_nextOffsetSet st1" "cs_msgPending st1 = Some m" by (simp_all add: st1_def m)
  have inv1: "claim_inv g st1"
  proof (rule claim_invI)
    show "account st1" using claim_invD(1) [OF inv] by (simp add: account_def pendingMsgs_def t1) (simp add: st1_def)
    show "counts st1" using claim_invD(2) [OF inv] by (simp add: counts_def laneCount_def t1) (simp add: st1_def)
    show "pendingKeyed st1" using claim_invD(3) [OF inv] by (simp add: pendingKeyed_def st1_def)
    show "marksOk st1" using claim_invD(4) [OF inv] read by (auto simp: marksOk_def st1_def)
    show "finishedOk st1" using claim_invD(5) [OF inv] by (simp add: finishedOk_def st1_def)
    show "placeOk g st1" using claim_invD(6) [OF inv] by (simp add: placeOk_def st1_def)
  qed
  have i: "?i < length (cs_workers st1)" using claim_invD(6) [OF inv1] stripe_bound [of m g] by (simp add: placeOk_def)
  have disp: "dispatch g now m st = (if \<not> laneAvailable g (classifyLane g m) (cs_critical st1) (cs_maintenance st1) then st1\<lparr>cs_at := AtLane\<rparr>
      else if queueOpen g ?i st1 then enqueueTask ?i ?t st1 else saturated g now ?i ?t st1)"
    by (simp add: dispatch_def Let_def st1_def)
  consider "\<not> laneAvailable g (classifyLane g m) (cs_critical st1) (cs_maintenance st1)"
    | "laneAvailable g (classifyLane g m) (cs_critical st1) (cs_maintenance st1)" "queueOpen g ?i st1"
    | "laneAvailable g (classifyLane g m) (cs_critical st1) (cs_maintenance st1)" "\<not> queueOpen g ?i st1" by blast
  then show ?thesis
  proof cases
    case 1
    have "claim_inv g (st1\<lparr>cs_at := AtLane\<rparr>)"
      by (rule claim_inv_frame [OF inv1]) (use claim_invD(6) [OF inv1] in \<open>simp_all add: placeOk_def tasksOf_def\<close>)
    then show ?thesis using 1 by (simp add: disp)
  next
    case 2
    then show ?thesis using enqueue_claim_inv [OF inv1, of ?t ?i] set1 i by (simp add: disp)
  next
    case 3
    have "claim_inv g (saturated g now ?i ?t st1)"
      by (rule claim_inv_frame [OF inv1])
        (use claim_invD(6) [OF inv1] set1 3(1) in \<open>simp_all add: placeOk_def tasksOf_def saturated_def Let_def\<close>)
    then show ?thesis using 3 by (simp add: disp)
  qed
qed

lemma claimStep_inv:
  assumes step: "claimStep g st st'" and inv: "claim_inv g st" and dist: "distinct (map km_Offset (cs_read st))"
  shows "claim_inv g st'"
  using step
proof cases
  case (top now)
  have pl: "placeOk g (st\<lparr>cs_at := a\<rparr>)" if "a = AtRead \<longrightarrow> cs_msgPending st = None" "\<And>i t. a \<noteq> AtSlot i t" for a
    using claim_invD(6) [OF inv] that by (simp add: placeOk_def)
  have move: "claim_inv g (st\<lparr>cs_at := a\<rparr>)" if "a = AtRead \<longrightarrow> cs_msgPending st = None" "\<And>i t. a \<noteq> AtSlot i t" for a
    using pl [OF that] by (intro claim_inv_frame [OF inv]) (simp_all add: tasksOf_def)
  show ?thesis
  proof (cases "cs_msgPending st")
    case None
    then show ?thesis using move by (simp add: top(1) loopTop_def)
  next
    case (Some m)
    have "cs_nextOffsetSet st \<or> cs_read st = [m]"
      using claim_invD(1,4) [OF inv] Some by (auto simp: account_def marksOk_def pendingMsgs_def optMsg_def split: if_splits)
    from dispatch_inv [OF inv Some this] move show ?thesis by (simp add: top(1) loopTop_def Some)
  qed
next
  case (result r rs)
  then show ?thesis using onResult_inv [OF inv dist] by simp
next
  case (message m ms)
  have none: "cs_msgPending st = None" using message claim_invD(6) [OF inv] by (simp add: placeOk_def)
  have t: "tasksOf st' = tasksOf st" by (rule tasksOf_cong) (simp add: message(1))
  show ?thesis
  proof (rule claim_invI)
    show "account st'" using claim_invD(1) [OF inv] none by (simp add: account_def pendingMsgs_def t) (simp add: message(1) optMsg_def)
    show "counts st'" using claim_invD(2) [OF inv] by (simp add: counts_def laneCount_def t) (simp add: message(1))
    show "pendingKeyed st'" using claim_invD(3) [OF inv] by (simp add: pendingKeyed_def message(1))
    show "marksOk st'" using claim_invD(4) [OF inv] unfolding marksOk_def t by (simp add: message(1) split: if_splits)
    show "finishedOk st'" using claim_invD(5) [OF inv] by (simp add: finishedOk_def message(1))
    show "placeOk g st'" using claim_invD(6) [OF inv] by (simp add: placeOk_def message(1))
  qed
next
  case (slot i t)
  have "i < length (cs_workers st)" "cs_msgPending st = Some (tk_msg t)" "cs_nextOffsetSet st"
    using claim_invD(6) [OF inv] slot stripe_bound by (auto simp: placeOk_def)
  then show ?thesis using enqueue_claim_inv [OF inv] by (simp add: slot(1))
next
  case (start i w t q)
  have "tasksOf st' = tasksOf (setWorker i (w\<lparr>wk_queue := q, wk_busy := Some t\<rparr>) st)"
    by (rule tasksOf_cong) (simp add: start(1))
  also have "\<dots> = tasksOf st"
    using tasksOf_set [OF start(2), of "w\<lparr>wk_queue := q, wk_busy := Some t\<rparr>"] start by (simp add: heldTasks_def)
  finally show ?thesis
    by (rule claim_inv_frame [OF inv]) (use claim_invD(6) [OF inv] in \<open>simp_all add: placeOk_def start(1)\<close>)
next
  case (finish i w t r e c)
  then show ?thesis using finish_inv [OF inv finish(2,3,5)] by simp
next
  case (abandon i w t)
  have "tasksOf st' = tasksOf st"
    using tasksOf_set [OF abandon(2), of "w\<lparr>wk_gone := True\<rparr>"] abandon(1,3) by (simp add: heldTasks_def)
  then show ?thesis
    by (rule claim_inv_frame [OF inv]) (use claim_invD(6) [OF inv] in \<open>simp_all add: placeOk_def abandon(1)\<close>)
qed (use claim_invD(6) [OF inv] in \<open>auto intro!: claim_inv_frame [OF inv] simp: placeOk_def tasksOf_def\<close>)

lemma claimStep_read:
  assumes "claimStep g st st'" shows "cs_read st' @ cs_input st' = cs_read st @ cs_input st"
  using assms
  by cases (auto simp: loopTop_def dispatch_def saturated_def onResult_def drainMarkableResults_def Let_def split: option.splits prod.splits)

lemma claim_reach:
  assumes "(claimStep g)\<^sup>*\<^sup>* (claimInit g msgs) st" and "distinct (map km_Offset msgs)"
  shows "claim_inv g st \<and> cs_read st @ cs_input st = msgs"
  using assms(1)
proof (induction rule: rtranclp_induct)
  case base
  have "tasksOf (claimInit g msgs) = {#}" by (simp add: tasksOf_def claimInit_def heldTasks_def)
  then show ?case by (auto simp: claim_inv_def claim_defs optMsg_def) (simp_all add: claimInit_def optMsg_def)
next
  case (step st st')
  then have "distinct (map km_Offset (cs_read st))" using assms(2) by (metis distinct_append map_append)
  then show ?case using step claimStep_inv [OF step(2)] claimStep_read [OF step(2)] by simp
qed

subsection \<open>Order and limits\<close>

definition stripeOf :: "groupHandler \<Rightarrow> kafkaMsg \<Rightarrow> nat" where
  "stripeOf g m = workerStripeForMessage m (claimWorkers g)"

definition startedOn :: "nat \<Rightarrow> claimState \<Rightarrow> kafkaMsg list" where
  "startedOn i st = map snd (filter (\<lambda>e. fst e = i) (cs_started st))"

definition queuedOn :: "nat \<Rightarrow> claimState \<Rightarrow> kafkaMsg list" where
  "queuedOn i st = map tk_msg (wk_queue (workerAt st i))"

definition orderOk :: "groupHandler \<Rightarrow> claimState \<Rightarrow> bool" where
  "orderOk g st \<longleftrightarrow> (\<exists>d. cs_read st = d @ optMsg (cs_msgPending st)
     \<and> (\<forall>i < claimWorkers g. startedOn i st @ queuedOn i st = filter (\<lambda>m. stripeOf g m = i) d))"

definition limitsOk :: "groupHandler \<Rightarrow> claimState \<Rightarrow> bool" where
  "limitsOk g st \<longleftrightarrow> (gh_criticalMaxInFlight g > 0 \<longrightarrow> cs_critical st \<le> gh_criticalMaxInFlight g)
     \<and> (gh_maintenanceMaxInFlight g > 0 \<longrightarrow> cs_maintenance st \<le> gh_maintenanceMaxInFlight g)
     \<and> (\<forall>i < claimWorkers g. length (wk_queue (workerAt st i)) \<le> claimQueue g) \<and> length (cs_results st) \<le> 2 * claimQueue g"

lemma workerAt_set: "i < length (cs_workers st) \<Longrightarrow> workerAt (setWorker i w st) j = (if j = i then w else workerAt st j)"
  by (simp add: workerAt_def setWorker_def)

lemma workerAt_enqueue:
  assumes "i < length (cs_workers st)"
  shows "workerAt (enqueueTask i t st) j = (if j = i then workerAt st i\<lparr>wk_queue := wk_queue (workerAt st i) @ [t]\<rparr> else workerAt st j)"
proof -
  have "workerAt (enqueueTask i t st) j = workerAt (setWorker i (workerAt st i\<lparr>wk_queue := wk_queue (workerAt st i) @ [t]\<rparr>) st) j"
    by (simp add: enqueueTask_def Let_def workerAt_def)
  then show ?thesis by (simp add: workerAt_set [OF assms])
qed

lemma order_frame:
  assumes "orderOk g st" and "cs_read st' = cs_read st" and "cs_msgPending st' = cs_msgPending st" and "cs_started st' = cs_started st"
    and "cs_workers st' = cs_workers st"
  shows "orderOk g st'"
  using assms by (simp add: orderOk_def startedOn_def queuedOn_def workerAt_def)

lemma limits_frame:
  assumes "limitsOk g st" and "cs_critical st' \<le> cs_critical st" and "cs_maintenance st' \<le> cs_maintenance st"
    and "cs_workers st' = cs_workers st" and "length (cs_results st') \<le> length (cs_results st)"
  shows "limitsOk g st'"
  using assms by (auto simp: limitsOk_def workerAt_def)

lemma enqueue_order:
  assumes "orderOk g st" and "cs_msgPending st = Some (tk_msg t)" and "i = stripeOf g (tk_msg t)" and "i < length (cs_workers st)"
  shows "orderOk g (enqueueTask i t st)"
proof -
  obtain d where d: "cs_read st = d @ [tk_msg t]"
    "\<And>i. i < claimWorkers g \<Longrightarrow> startedOn i st @ queuedOn i st = filter (\<lambda>m. stripeOf g m = i) d"
    using assms(1,2) by (auto simp: orderOk_def optMsg_def)
  have "startedOn j (enqueueTask i t st) @ queuedOn j (enqueueTask i t st) = filter (\<lambda>m. stripeOf g m = j) (d @ [tk_msg t])"
    if "j < claimWorkers g" for j
    using d(2) [OF that] assms(3) by (cases "j = i") (auto simp: startedOn_def queuedOn_def workerAt_enqueue [OF assms(4), unfolded assms(3)])
  then show ?thesis unfolding orderOk_def using d(1) by (intro exI [of _ "d @ [tk_msg t]"]) (simp add: optMsg_def)
qed

lemma enqueue_limits:
  assumes "limitsOk g st" and "laneAvailable g (tk_lane t) (cs_critical st) (cs_maintenance st)" and "queueOpen g i st"
    and "i < length (cs_workers st)"
  shows "limitsOk g (enqueueTask i t st)"
  using assms by (auto simp: limitsOk_def laneAvailable_def queueOpen_def workerAt_enqueue split: if_splits)

lemma dispatch_order_limits:
  assumes "orderOk g st" and "limitsOk g st" and "cs_msgPending st = Some m" and "length (cs_workers st) = claimWorkers g"
  shows "orderOk g (dispatch g now m st) \<and> limitsOk g (dispatch g now m st)"
proof -
  define st1 where "st1 = (if \<not> cs_nextOffsetSet st then st\<lparr>cs_nextOffset := km_Offset m, cs_nextOffsetSet := True\<rparr> else st)"
  let ?i = "workerStripeForMessage m (claimWorkers g)" and ?t = "\<lparr>tk_msg = m, tk_lane = classifyLane g m\<rparr>"
  have one: "orderOk g st1" "limitsOk g st1" "cs_msgPending st1 = Some m" "length (cs_workers st1) = claimWorkers g"
    using order_frame [OF assms(1), of st1] limits_frame [OF assms(2), of st1] assms(3,4) by (simp_all add: st1_def)
  have i: "?i < length (cs_workers st1)" using stripe_bound one(4) by simp
  have still: "orderOk g st2 \<and> limitsOk g st2" if "st2 = st1\<lparr>cs_at := AtLane\<rparr> \<or> st2 = saturated g now ?i ?t st1" for st2
    using that order_frame [OF one(1), of st2] limits_frame [OF one(2), of st2] by (auto simp: saturated_def Let_def)
  have "dispatch g now m st = (if \<not> laneAvailable g (classifyLane g m) (cs_critical st1) (cs_maintenance st1) then st1\<lparr>cs_at := AtLane\<rparr>
      else if queueOpen g ?i st1 then enqueueTask ?i ?t st1 else saturated g now ?i ?t st1)"
    by (simp add: dispatch_def Let_def st1_def)
  then show ?thesis
    using still enqueue_order [OF one(1), of ?t ?i] enqueue_limits [OF one(2), of ?t ?i] one(3) i by (auto simp: stripeOf_def)
qed

lemma onResult_frame:
  "cs_read (onResult r st) = cs_read st" "cs_msgPending (onResult r st) = cs_msgPending st" "cs_started (onResult r st) = cs_started st"
  "cs_workers (onResult r st) = cs_workers st" "cs_results (onResult r st) = cs_results st"
  "cs_critical (onResult r st) \<le> cs_critical st" "cs_maintenance (onResult r st) \<le> cs_maintenance st"
  "cs_readOpen (onResult r st) = cs_readOpen st" "cs_ctxDone (onResult r st) = cs_ctxDone st" "cs_at (onResult r st) = cs_at st"
  by (auto simp: onResult_def drainMarkableResults_def Let_def split: prod.splits)

lemma claimStep_order_limits:
  assumes "claimStep g st st'" and "orderOk g st" and "limitsOk g st" and "placeOk g st"
  shows "orderOk g st' \<and> limitsOk g st'"
proof -
  have len: "length (cs_workers st) = claimWorkers g" using assms(4) by (simp add: placeOk_def)
  show ?thesis using assms(1)
  proof cases
    case (top now)
    show ?thesis
    proof (cases "cs_msgPending st")
      case None
      then show ?thesis using order_frame [OF assms(2), of st'] limits_frame [OF assms(3), of st'] by (simp add: top(1) loopTop_def)
    next
      case (Some m)
      then show ?thesis
        using dispatch_order_limits [OF assms(2,3) Some len] order_frame [OF assms(2), of "st\<lparr>cs_at := Returned\<rparr>"]
          limits_frame [OF assms(3), of "st\<lparr>cs_at := Returned\<rparr>"]
        by (simp add: top(1) loopTop_def)
    qed
  next
    case (result r rs)
    then show ?thesis using onResult_frame [of r "st\<lparr>cs_results := rs, cs_at := AtTop\<rparr>"]
        order_frame [OF assms(2), of st'] limits_frame [OF assms(3), of st'] by simp
  next
    case (message m ms)
    then have none: "cs_msgPending st = None" using assms(4) by (simp add: placeOk_def)
    then have "orderOk g st'" using assms(2) by (simp add: message(1) orderOk_def optMsg_def startedOn_def queuedOn_def workerAt_def)
    then show ?thesis using limits_frame [OF assms(3), of st'] by (simp add: message(1))
  next
    case (slot i t)
    have "i < length (cs_workers st)" "cs_msgPending st = Some (tk_msg t)" "i = stripeOf g (tk_msg t)"
      "laneAvailable g (tk_lane t) (cs_critical st) (cs_maintenance st)"
      using assms(4) slot stripe_bound by (auto simp: placeOk_def stripeOf_def)
    then show ?thesis using enqueue_order [OF assms(2)] enqueue_limits [OF assms(3)] slot by simp
  next
    case (start i w t q)
    have w: "workerAt st' j = (if j = i then w\<lparr>wk_queue := q, wk_busy := Some t\<rparr> else workerAt st j)" for j
      using workerAt_set [OF start(2)] by (simp add: start(1) workerAt_def)
    have "startedOn j st' @ queuedOn j st' = startedOn j st @ queuedOn j st" for j
    proof -
      have "queuedOn j st' = (if j = i then map tk_msg q else queuedOn j st)" by (simp add: queuedOn_def w)
      moreover have "startedOn j st' = startedOn j st @ (if j = i then [tk_msg t] else [])" by (simp add: startedOn_def start(1))
      moreover have "queuedOn i st = tk_msg t # map tk_msg q" using start(3,6) by (simp add: queuedOn_def)
      ultimately show ?thesis by simp
    qed
    moreover have "cs_read st' = cs_read st" "cs_msgPending st' = cs_msgPending st" by (simp_all add: start(1))
    ultimately have "orderOk g st'" using assms(2) by (simp add: orderOk_def)
    moreover have "limitsOk g st'" using assms(3) start(3,6) len start(2) by (auto simp: limitsOk_def w) (auto simp: start(1))
    ultimately show ?thesis by simp
  next
    case (finish i w t r e c)
    have w: "workerAt st' j = (if j = i then w\<lparr>wk_busy := None\<rparr> else workerAt st j)" for j
      using workerAt_set [OF finish(2)] by (simp add: finish(1) workerAt_def)
    have "orderOk g st'" using assms(2) finish(3) by (auto simp: orderOk_def startedOn_def queuedOn_def w) (simp_all add: finish(1))
    moreover have "limitsOk g st'" using assms(3) finish(3,6) by (auto simp: limitsOk_def w) (simp_all add: finish(1))
    ultimately show ?thesis by simp
  next
    case (abandon i w t)
    have w: "wk_queue (workerAt st' j) = wk_queue (workerAt st j)" for j
      using workerAt_set [OF abandon(2)] abandon(3) by (simp add: abandon(1))
    show ?thesis using assms(2,3) by (simp add: orderOk_def limitsOk_def startedOn_def queuedOn_def w) (simp add: abandon(1))
  qed (use order_frame [OF assms(2), of st'] limits_frame [OF assms(3), of st'] in simp_all)
qed

lemma claim_reach_order:
  assumes "(claimStep g)\<^sup>*\<^sup>* (claimInit g msgs) st" and "distinct (map km_Offset msgs)"
  shows "orderOk g st \<and> limitsOk g st"
  using assms(1)
proof (induction rule: rtranclp_induct)
  case base
  show ?case
    by (auto simp: orderOk_def limitsOk_def startedOn_def queuedOn_def workerAt_def claimInit_def optMsg_def)
next
  case (step st st')
  then have "placeOk g st" using claim_reach [OF step(1) assms(2)] by (simp add: claim_inv_def)
  then show ?case using claimStep_order_limits [OF step(2)] step(3) by simp
qed

subsection \<open>What the loop guarantees\<close>

lemma marked_read:
  assumes "claim_inv g st" and "cs_read st @ cs_input st = msgs"
  shows "set (cs_marked st) \<subseteq> set msgs"
proof -
  have "set_mset (mset (cs_marked st)) \<subseteq> set_mset (mset (cs_read st))"
    using claim_invD(1) [OF assms(1)] by (simp add: account_def)
  then show ?thesis using assms(2) by auto
qed

lemma marked_offsets:
  assumes "claim_inv g st" and "cs_read st @ cs_input st = msgs"
  shows "map km_Offset (cs_marked st) = [km_Offset (hd msgs)..km_Offset (hd msgs) + int (length (cs_marked st)) - 1]"
proof (cases "cs_nextOffsetSet st")
  case True
  have M: "cs_read st \<noteq> []" "km_Offset (hd (cs_read st)) \<le> cs_nextOffset st"
    "map km_Offset (cs_marked st) = [km_Offset (hd (cs_read st))..cs_nextOffset st - 1]"
    using claim_invD(4) [OF assms(1)] True by (simp_all add: marksOk_def)
  have "hd msgs = hd (cs_read st)" using M(1) assms(2) by auto
  moreover have "length (cs_marked st) = nat (cs_nextOffset st - km_Offset (hd (cs_read st)))"
    using arg_cong [OF M(3), of length] by simp
  ultimately show ?thesis using M by simp
next
  case False
  then show ?thesis using claim_invD(4) [OF assms(1)] by (simp add: marksOk_def)
qed

text \<open>
  C4. The offset a claim commits never passes a message whose handler has not returned, however the
  workers interleave: the marked messages carry the offsets from the first one on without a gap,
  and every message below the next offset has been handled.
\<close>

theorem committed_messages_handled:
  assumes "(claimStep g)\<^sup>*\<^sup>* (claimInit g msgs) st" and "distinct (map km_Offset msgs)"
  shows "map km_Offset (cs_marked st) = [km_Offset (hd msgs)..km_Offset (hd msgs) + int (length (cs_marked st)) - 1]
    \<and> (\<forall>m \<in> set msgs. km_Offset (hd msgs) \<le> km_Offset m \<and> km_Offset m < km_Offset (hd msgs) + int (length (cs_marked st))
          \<longrightarrow> m \<in> set (cs_marked st) \<and> m \<in> cr_msg ` set (cs_finished st))"
proof -
  have inv: "claim_inv g st" "cs_read st @ cs_input st = msgs" using claim_reach [OF assms] by simp_all
  note offs = marked_offsets [OF inv]
  have "m \<in> set (cs_marked st)" if m: "m \<in> set msgs" "km_Offset (hd msgs) \<le> km_Offset m"
    "km_Offset m < km_Offset (hd msgs) + int (length (cs_marked st))" for m
  proof -
    have "km_Offset m \<in> set (map km_Offset (cs_marked st))" using m unfolding offs by simp
    then obtain m' where "m' \<in> set (cs_marked st)" "km_Offset m' = km_Offset m" by auto
    then show ?thesis using m(1) marked_read [OF inv] assms(2) by (metis distinct_map inj_on_contraD subsetD)
  qed
  moreover have "set (cs_marked st) \<subseteq> cr_msg ` set (cs_finished st)" using claim_invD(5) [OF inv(1)] by (simp add: finishedOk_def)
  ultimately show ?thesis using offs by blast
qed

definition endOk :: "claimState \<Rightarrow> bool" where
  "endOk st \<longleftrightarrow> (cs_readOpen st \<or> cs_input st = [])
     \<and> (cs_at st = Returned \<longrightarrow> cs_ctxDone st \<or> \<not> cs_readOpen st \<and> cs_inflight st = 0 \<and> cs_msgPending st = None)"

lemma dispatch_end:
  "cs_readOpen (dispatch g now m st) = cs_readOpen st" "cs_input (dispatch g now m st) = cs_input st"
  "cs_at (dispatch g now m st) \<noteq> Returned"
  by (simp_all add: dispatch_def enqueueTask_def setWorker_def saturated_def Let_def)

lemma claimStep_end:
  assumes "claimStep g st st'" and "endOk st" shows "endOk st'"
  using assms(1)
proof cases
  case (top now)
  then show ?thesis using assms(2) dispatch_end by (auto simp: endOk_def loopTop_def split: option.split)
next
  case (result r rs)
  have "cs_input st' = cs_input st" using claimStep_read [OF assms(1)] result onResult_frame(1) by simp
  then show ?thesis using assms(2) onResult_frame(8,10) by (simp add: endOk_def result(1))
next
  case (slot i t)
  then show ?thesis using assms(2) by (simp add: endOk_def enqueueTask_def setWorker_def Let_def)
qed (use assms(2) in \<open>auto simp: endOk_def setWorker_def\<close>)

lemma claim_reach_end: "(claimStep g)\<^sup>*\<^sup>* (claimInit g msgs) st \<Longrightarrow> endOk st"
  by (induction rule: rtranclp_induct) (simp add: endOk_def claimInit_def, erule (1) claimStep_end)

lemma next_offset:
  assumes "claim_inv g st" and "cs_nextOffsetSet st" and "cs_read st @ cs_input st = msgs"
  shows "cs_nextOffset st = km_Offset (hd msgs) + int (length (cs_marked st)) \<and> map_of (cs_pending st) (cs_nextOffset st) = None"
proof -
  have M: "cs_read st \<noteq> []" "km_Offset (hd (cs_read st)) \<le> cs_nextOffset st"
    "map km_Offset (cs_marked st) = [km_Offset (hd (cs_read st))..cs_nextOffset st - 1]"
    "map_of (cs_pending st) (cs_nextOffset st) = None" using claim_invD(4) [OF assms(1)] assms(2) by (simp_all add: marksOk_def)
  have "hd msgs = hd (cs_read st)" using M(1) assms(3) by auto
  then show ?thesis using arg_cong [OF M(3), of length] M(2,4) by simp
qed

lemma pending_next:
  assumes inv: "claim_inv g st" "cs_read st @ cs_input st = msgs" and "m \<in> set (pendingMsgs st)"
  shows "km_Offset m \<noteq> km_Offset (hd msgs) + int (length (cs_marked st))"
proof
  assume eq: "km_Offset m = km_Offset (hd msgs) + int (length (cs_marked st))"
  obtain n r where r: "(n, r) \<in> set (cs_pending st)" "cr_msg r = m" using assms(3) by (auto simp: pendingMsgs_def)
  then have "n = km_Offset m" "gm_wf (cs_pending st)" using claim_invD(3) [OF inv(1)] by (auto simp: pendingKeyed_def)
  then have held: "map_of (cs_pending st) (km_Offset m) = Some r" using r(1) by (simp add: gm_mem_iff)
  then have "cs_nextOffsetSet st" using claim_invD(4) [OF inv(1)] by (auto simp: marksOk_def split: if_splits)
  note N = next_offset [OF inv(1) this inv(2)]
  show False using conjunct1 [OF N] conjunct2 [OF N] held eq by simp
qed

lemma drained_claim:
  assumes inv: "claim_inv g st" "cs_read st @ cs_input st = msgs" and offs: "map km_Offset msgs = [a..b]"
    and all: "mset msgs = mset (pendingMsgs st) + mset (cs_marked st)"
  shows "length (cs_marked st) = length msgs"
proof (rule ccontr)
  assume "length (cs_marked st) \<noteq> length msgs"
  then have less: "length (cs_marked st) < length msgs" using arg_cong [OF all, of size] by simp
  then obtain m0 ms where ne: "msgs = m0 # ms" by (cases msgs) auto
  then have a: "a = km_Offset (hd msgs)" "a \<le> b" using offs by (simp_all add: upto.simps [of a b] split: if_splits)
  have "length msgs = nat (b - a + 1)" using arg_cong [OF offs, of length] by simp
  then have "a + int (length (cs_marked st)) \<in> set (map km_Offset msgs)" using less a(2) by (simp add: offs)
  then obtain m where m: "m \<in> set msgs" "km_Offset m = a + int (length (cs_marked st))" by auto
  have "km_Offset x < a + int (length (cs_marked st))" if "x \<in> set (cs_marked st)" for x
  proof -
    have "km_Offset x \<in> set (map km_Offset (cs_marked st))" using that by simp
    then show ?thesis unfolding marked_offsets [OF inv] a(1) by simp
  qed
  then have "m \<notin> set (cs_marked st)" using m(2) by fastforce
  then have "m \<in> set (pendingMsgs st)" using m(1) all by (metis Un_iff set_mset_mset set_mset_union)
  from pending_next [OF inv this] m(2) a(1) show False by simp
qed

text \<open>
  C27. A claim whose offsets are consecutive and whose loop returns while the session lasts has marked every
  message, in order. What the handlers returned makes no difference: a message whose handler failed is marked as well.
\<close>

theorem finished_claim_marked:
  assumes "(claimStep g)\<^sup>*\<^sup>* (claimInit g msgs) st" and "map km_Offset msgs = [a..b]"
    and "cs_at st = Returned" and "\<not> cs_ctxDone st"
  shows "cs_marked st = msgs \<and> cs_pending st = []"
proof -
  have dist: "distinct (map km_Offset msgs)" using assms(2) by simp
  have inv: "claim_inv g st" "cs_read st @ cs_input st = msgs" using claim_reach [OF assms(1) dist] by simp_all
  have fin: "cs_input st = []" "cs_inflight st = 0" "cs_msgPending st = None"
    using claim_reach_end [OF assms(1)] assms(3,4) by (auto simp: endOk_def)
  have "int (size (tasksOf st) + length (cs_results st)) = 0"
    using claim_invD(2) [OF inv(1)] fin(2) by (simp add: counts_def laneCount_def)
  then have "size (tasksOf st) + length (cs_results st) = 0" by (simp only: of_nat_eq_0_iff)
  then have all: "mset msgs = mset (pendingMsgs st) + mset (cs_marked st)"
    using claim_invD(1) [OF inv(1)] fin inv(2) by (simp add: account_def optMsg_def)
  have len: "length (cs_marked st) = length msgs" by (rule drained_claim [OF inv assms(2) all])
  then have empty: "cs_pending st = []" using arg_cong [OF all, of size] by (simp add: pendingMsgs_def)
  have "map km_Offset (cs_marked st) = map km_Offset msgs"
  proof (cases msgs)
    case (Cons m ms)
    have "length msgs = nat (b - a + 1)" using arg_cong [OF assms(2), of length] by simp
    moreover have "a = km_Offset (hd msgs)" "a \<le> b"
      using assms(2) Cons by (simp_all add: upto.simps [of a b] split: if_splits)
    ultimately show ?thesis using marked_offsets [OF inv] len assms(2) by simp
  qed (use len in simp)
  moreover have "inj_on km_Offset (set (cs_marked st) \<union> set msgs)"
    using dist marked_read [OF inv] by (simp add: distinct_map sup.absorb2)
  ultimately have "cs_marked st = msgs" by (simp add: inj_on_map_eq_map)
  then show ?thesis using empty by simp
qed

text \<open>
  A gap in the offsets stops the marking for good. Kafka gives no message the offset of a
  transaction marker or of a record that compaction has removed; a claim that skips such an offset never
  marks a message behind it, however many are handled, so that all of them are delivered again to the next owner of the partition.
\<close>

theorem offset_gap_stops_marking:
  assumes "(claimStep g)\<^sup>*\<^sup>* (claimInit g msgs) st" and "distinct (map km_Offset msgs)"
    and "gap \<notin> km_Offset ` set msgs" and "km_Offset (hd msgs) \<le> gap"
  shows "\<forall>m \<in> set (cs_marked st). km_Offset m < gap"
proof (rule ccontr)
  have inv: "claim_inv g st" "cs_read st @ cs_input st = msgs" using claim_reach [OF assms(1,2)] by simp_all
  assume "\<not> ?thesis"
  then obtain m where m: "m \<in> set (cs_marked st)" "gap \<le> km_Offset m" by force
  have "km_Offset m \<in> set (map km_Offset (cs_marked st))" using m(1) by simp
  then have "gap \<in> set (map km_Offset (cs_marked st))" unfolding marked_offsets [OF inv] using m(2) assms(4) by simp
  then show False using marked_read [OF inv] assms(3) by auto
qed

text \<open>
  C28. The messages of one policy are handled one after another in the order the topic has them: those with the same
  stripe key go to one worker, which starts them in order, each after the one before has returned.
\<close>

theorem policy_messages_in_order:
  assumes "(claimStep g)\<^sup>*\<^sup>* (claimInit g msgs) st" and "distinct (map km_Offset msgs)" and "stripeKey m = key"
  shows "prefix (filter (\<lambda>x. stripeKey x = key) (startedOn (stripeOf g m) st)) (filter (\<lambda>x. stripeKey x = key) msgs)
    \<and> (\<forall>j < claimWorkers g. j \<noteq> stripeOf g m \<longrightarrow> filter (\<lambda>x. stripeKey x = key) (startedOn j st) = [])"
proof -
  have same: "stripeOf g x = stripeOf g m" if "stripeKey x = key" for x
    using that assms(3) by (simp add: stripeOf_def workerStripeForMessage_def)
  obtain d where d: "cs_read st = d @ optMsg (cs_msgPending st)"
    "\<And>i. i < claimWorkers g \<Longrightarrow> startedOn i st @ queuedOn i st = filter (\<lambda>m. stripeOf g m = i) d"
    using claim_reach_order [OF assms(1,2)] by (auto simp: orderOk_def)
  obtain rest where rest: "msgs = d @ rest" using d(1) claim_reach [OF assms(1,2)] by (metis append_assoc)
  have keyed: "filter (\<lambda>x. stripeKey x = key) (startedOn i st) @ filter (\<lambda>x. stripeKey x = key) (queuedOn i st)
      = filter (\<lambda>x. stripeKey x = key \<and> stripeOf g x = i) d" if "i < claimWorkers g" for i
    using arg_cong [OF d(2) [OF that], of "filter (\<lambda>x. stripeKey x = key)"] by (simp add: conj_commute)
  have i: "stripeOf g m < claimWorkers g" by (simp add: stripeOf_def stripe_bound)
  have "filter (\<lambda>x. stripeKey x = key \<and> stripeOf g x = stripeOf g m) d = filter (\<lambda>x. stripeKey x = key) d"
    using same by (intro filter_cong) auto
  then have "filter (\<lambda>x. stripeKey x = key) msgs = filter (\<lambda>x. stripeKey x = key) (startedOn (stripeOf g m) st)
      @ (filter (\<lambda>x. stripeKey x = key) (queuedOn (stripeOf g m) st) @ filter (\<lambda>x. stripeKey x = key) rest)"
    using keyed [OF i] unfolding rest filter_append append_assoc [symmetric] by (simp only:)
  then have "prefix (filter (\<lambda>x. stripeKey x = key) (startedOn (stripeOf g m) st)) (filter (\<lambda>x. stripeKey x = key) msgs)"
    by (rule prefixI)
  moreover have "filter (\<lambda>x. stripeKey x = key) (startedOn j st) = []" if j: "j < claimWorkers g" "j \<noteq> stripeOf g m" for j
  proof -
    have "filter (\<lambda>x. stripeKey x = key \<and> stripeOf g x = j) d = []" using same j(2) by (auto simp: filter_empty_conv)
    then show ?thesis using keyed [OF j(1)] by simp
  qed
  ultimately show ?thesis by blast
qed

text \<open>
  The lanes keep their limits: the counters of the loop are the numbers of messages of each lane that are queued, with a
  worker or waiting as a result, and a configured limit is never exceeded. A worker's queue never outgrows its capacity.
\<close>

theorem lanes_bounded:
  assumes "(claimStep g)\<^sup>*\<^sup>* (claimInit g msgs) st" and "distinct (map km_Offset msgs)"
  shows "(gh_criticalMaxInFlight g > 0 \<longrightarrow> laneCount (\<lambda>l. l \<noteq> ''maintenance'') st \<le> gh_criticalMaxInFlight g)
    \<and> (gh_maintenanceMaxInFlight g > 0 \<longrightarrow> laneCount (\<lambda>l. l = ''maintenance'') st \<le> gh_maintenanceMaxInFlight g)
    \<and> cs_inflight st = laneCount (\<lambda>_. True) st
    \<and> (\<forall>i < claimWorkers g. length (wk_queue (workerAt st i)) \<le> claimQueue g)"
  using claim_reach [OF assms] claim_reach_order [OF assms]
  by (simp add: claim_inv_def counts_def limitsOk_def)

subsection \<open>Runs\<close>

definition ex_group :: groupHandler where
  "ex_group = \<lparr>gh_workers = 1, gh_queueSize = 1, gh_admissionPause = 0, gh_dispatchPause = 0, gh_stripeDistressThreshold = 0,
     gh_criticalMaxInFlight = 1, gh_maintenanceMaxInFlight = 0, gh_laneClassifier = None\<rparr>"

definition ex_msg :: "int \<Rightarrow> kafkaMsg" where
  "ex_msg n = \<lparr>km_Offset = n, km_Partition = 0, km_Key = ''p1'', km_Headers = [], km_Value = []\<rparr>"

text \<open>The one worker handles the message the loop holds.\<close>

definition ex_handled :: "string option \<Rightarrow> bool \<Rightarrow> kafkaMsg \<Rightarrow> consumerResult" where
  "ex_handled e c m = \<lparr>cr_msg = m, cr_err = e, cr_canceled = c, cr_lane = ''critical''\<rparr>"

lemma ex_group_facts: "claimWorkers ex_group = 1" "claimQueue ex_group = 1" "classifyLane ex_group m = ''critical''"
  "workerStripeForMessage m (Suc 0) = 0" "gh_admissionPause ex_group = 0" "gh_criticalMaxInFlight ex_group = 1"
  by (simp_all add: ex_group_def claimWorkers_def claimQueue_def classifyLane_def workerStripeForMessage_def)

text \<open>The state between two messages: what is left of the claim, what is marked and what was handled.\<close>

definition ex_idle :: "kafkaMsg list \<Rightarrow> kafkaMsg list \<Rightarrow> int \<Rightarrow> consumerResult list \<Rightarrow> claimState" where
  "ex_idle rest marks n fin = (claimInit ex_group rest)\<lparr>cs_at := AtTop, cs_nextOffset := n, cs_nextOffsetSet := (marks \<noteq> []),
     cs_marked := marks, cs_read := map cr_msg fin, cs_started := map (\<lambda>r. (0, cr_msg r)) fin, cs_finished := fin\<rparr>"

lemmas ex_run_simps = ex_group_facts ex_idle_def claimInit_def loopTop_def dispatch_def enqueueTask_def setWorker_def workerAt_def
  queueOpen_def laneAvailable_def onResult_def drainMarkableResults_def Let_def ex_handled_def

text \<open>The state in which the worker has the next message, and the one in which its result is there.\<close>

definition ex_busy :: "kafkaMsg \<Rightarrow> kafkaMsg list \<Rightarrow> kafkaMsg list \<Rightarrow> int \<Rightarrow> consumerResult list \<Rightarrow> claimState" where
  "ex_busy m rest marks n fin = (ex_idle rest marks (if marks = [] then km_Offset m else n) fin)
     \<lparr>cs_at := AtRead, cs_nextOffsetSet := True, cs_inflight := 1, cs_critical := 1, cs_read := map cr_msg fin @ [m],
      cs_started := map (\<lambda>r. (0, cr_msg r)) fin @ [(0, m)],
      cs_workers := [\<lparr>wk_queue = [], wk_busy = Some \<lparr>tk_msg = m, tk_lane = ''critical''\<rparr>, wk_gone = False\<rparr>]\<rparr>"

definition ex_done :: "consumerResult \<Rightarrow> kafkaMsg list \<Rightarrow> kafkaMsg list \<Rightarrow> int \<Rightarrow> consumerResult list \<Rightarrow> claimState" where
  "ex_done r rest marks n fin = (ex_idle rest marks (if marks = [] then km_Offset (cr_msg r) else n) (fin @ [r]))
     \<lparr>cs_at := AtRead, cs_nextOffsetSet := True, cs_inflight := 1, cs_critical := 1, cs_results := [r]\<rparr>"

lemma ex_start: "(claimStep ex_group)\<^sup>*\<^sup>* (ex_idle (m # rest) marks n fin) (ex_busy m rest marks n fin)"
proof -
  let ?n = "if marks = [] then km_Offset m else n" and ?t = "\<lparr>tk_msg = m, tk_lane = ''critical''\<rparr>"
  let ?r = "(ex_idle (m # rest) marks n fin)\<lparr>cs_at := AtRead\<rparr>"
  let ?m = "(ex_idle rest marks n fin)\<lparr>cs_msgPending := Some m, cs_read := map cr_msg fin @ [m]\<rparr>"
  let ?d = "(ex_idle rest marks ?n fin)\<lparr>cs_nextOffsetSet := True, cs_inflight := 1, cs_critical := 1, cs_read := map cr_msg fin @ [m],
      cs_workers := [\<lparr>wk_queue = [?t], wk_busy = None, wk_gone = False\<rparr>]\<rparr>"
  have "claimStep ex_group (ex_idle (m # rest) marks n fin) ?r"
    using claimStep.top [of "ex_idle (m # rest) marks n fin" ex_group 0] by (simp add: ex_run_simps)
  moreover have "claimStep ex_group ?r ?m"
    using claimStep.message [of ?r m rest ex_group] by (simp add: ex_run_simps)
  moreover have "claimStep ex_group ?m ?d"
    using claimStep.top [of ?m ex_group 0] by (cases "marks = []") (simp_all add: ex_run_simps)
  moreover have "claimStep ex_group ?d (?d\<lparr>cs_at := AtRead\<rparr>)"
    using claimStep.top [of ?d ex_group 0] by (simp add: ex_run_simps)
  moreover have "claimStep ex_group (?d\<lparr>cs_at := AtRead\<rparr>) (ex_busy m rest marks n fin)"
    using claimStep.start [of 0 "?d\<lparr>cs_at := AtRead\<rparr>" "\<lparr>wk_queue = [?t], wk_busy = None, wk_gone = False\<rparr>" ?t "[]" ex_group]
    by (simp add: ex_run_simps ex_busy_def)
  ultimately show ?thesis by (meson converse_rtranclp_into_rtranclp rtranclp.rtrancl_refl)
qed

lemma ex_worker_done:
  assumes "c \<longrightarrow> e \<noteq> None"
  shows "claimStep ex_group ((ex_busy m rest marks n fin)\<lparr>cs_ctxDone := x\<rparr>) ((ex_done (ex_handled e c m) rest marks n fin)\<lparr>cs_ctxDone := x\<rparr>)"
  using claimStep.finish [of 0 "(ex_busy m rest marks n fin)\<lparr>cs_ctxDone := x\<rparr>"
      "\<lparr>wk_queue = [], wk_busy = Some \<lparr>tk_msg = m, tk_lane = ''critical''\<rparr>, wk_gone = False\<rparr>"
      "\<lparr>tk_msg = m, tk_lane = ''critical''\<rparr>" ex_group "ex_handled e c m" e c] assms
  by (cases "marks = []") (simp_all add: ex_run_simps ex_busy_def ex_done_def)

lemma drain_one: "drainMarkable [(k, r)] n = (if k = n then ([], n + 1, [cr_msg r]) else ([(k, r)], n, []))"
  by (simp add: drainMarkable.simps [of "[(k, r)]" n] drainMarkable.simps [of "[]"])

lemma ex_mark:
  assumes "marks = [] \<or> n = km_Offset (cr_msg r)" and "cr_lane r = ''critical''"
  shows "claimStep ex_group ((ex_done r rest marks n fin)\<lparr>cs_ctxDone := x\<rparr>)
    ((ex_idle rest (marks @ [cr_msg r]) (km_Offset (cr_msg r) + 1) (fin @ [r]))\<lparr>cs_ctxDone := x\<rparr>)"
  using claimStep.result [of "(ex_done r rest marks n fin)\<lparr>cs_ctxDone := x\<rparr>" r "[]" ex_group] assms
  by (auto simp: ex_run_simps ex_done_def drain_one inSelect_def)

lemma ex_round:
  assumes "marks = [] \<or> n = km_Offset m" and "c \<longrightarrow> e \<noteq> None"
  shows "(claimStep ex_group)\<^sup>*\<^sup>* (ex_idle (m # rest) marks n fin) (ex_idle rest (marks @ [m]) (km_Offset m + 1) (fin @ [ex_handled e c m]))"
proof -
  have off: "(ex_busy m rest marks n fin)\<lparr>cs_ctxDone := False\<rparr> = ex_busy m rest marks n fin"
    "(ex_idle rs ms k fs)\<lparr>cs_ctxDone := False\<rparr> = ex_idle rs ms k fs" for rs ms k fs
    by (simp_all add: ex_busy_def ex_idle_def claimInit_def)
  have "claimStep ex_group (ex_busy m rest marks n fin) ((ex_done (ex_handled e c m) rest marks n fin)\<lparr>cs_ctxDone := False\<rparr>)"
    using ex_worker_done [OF assms(2), where m = m and rest = rest and marks = marks and n = n and fin = fin and x = False] unfolding off .
  moreover have "claimStep ex_group ((ex_done (ex_handled e c m) rest marks n fin)\<lparr>cs_ctxDone := False\<rparr>)
      (ex_idle rest (marks @ [m]) (km_Offset m + 1) (fin @ [ex_handled e c m]))"
    using ex_mark [where marks = marks and n = n and r = "ex_handled e c m" and rest = rest and fin = fin and x = False] assms(1) by (simp add: off ex_handled_def)
  ultimately show ?thesis using ex_start by (meson rtranclp.rtrancl_into_rtrancl)
qed

lemma ex_init: "claimInit ex_group msgs = ex_idle msgs [] 0 []"
  by (simp add: ex_idle_def claimInit_def)

text \<open>The second message is with the worker; the first one failed and is marked.\<close>

definition ex_second :: claimState where
  "ex_second = ex_busy (ex_msg 6) [] [ex_msg 5] 6 [ex_handled (Some ''apply'') False (ex_msg 5)]"

lemma ex_second_reached: "(claimStep ex_group)\<^sup>*\<^sup>* (claimInit ex_group [ex_msg 5, ex_msg 6]) ex_second"
proof -
  have "(claimStep ex_group)\<^sup>*\<^sup>* (ex_idle [ex_msg 5, ex_msg 6] [] 0 []) (ex_idle [ex_msg 6] [ex_msg 5] 6 [ex_handled (Some ''apply'') False (ex_msg 5)])"
    using ex_round [of "[]" 0 "ex_msg 5" False "Some ''apply''" "[ex_msg 6]" "[]"] by (simp add: ex_msg_def)
  then show ?thesis using ex_start unfolding ex_init ex_second_def by (rule rtranclp_trans)
qed

lemma ex_second_fields:
  "cs_marked ex_second = [ex_msg 5]" "startedOn 0 ex_second = [ex_msg 5, ex_msg 6]" "cs_inflight ex_second = 1"
  by (simp_all add: ex_second_def ex_busy_def ex_idle_def startedOn_def ex_handled_def)

theorem committed_messages_handled_witness:
  "cs_marked ex_second = [ex_msg 5] \<and> ex_msg 5 \<in> cr_msg ` set (cs_finished ex_second)"
  using committed_messages_handled [OF ex_second_reached] by (simp add: ex_second_fields) (simp add: ex_msg_def)

theorem policy_messages_in_order_witness:
  "startedOn 0 ex_second = [ex_msg 5, ex_msg 6]
     \<and> prefix (filter (\<lambda>x. stripeKey x = stripeKey (ex_msg 5)) (startedOn 0 ex_second))
         (filter (\<lambda>x. stripeKey x = stripeKey (ex_msg 5)) [ex_msg 5, ex_msg 6])"
  using policy_messages_in_order [OF ex_second_reached _ refl, of "ex_msg 5"] ex_second_fields(2)
  by (simp add: stripeOf_def ex_group_facts ex_msg_def)

theorem lanes_bounded_witness:
  "laneCount (\<lambda>l. l \<noteq> ''maintenance'') ex_second \<le> 1 \<and> laneCount (\<lambda>_. True) ex_second = 1"
proof -
  have "distinct (map km_Offset [ex_msg 5, ex_msg 6])" by (simp add: ex_msg_def)
  from lanes_bounded [OF ex_second_reached this] show ?thesis by (simp add: ex_group_facts(6) ex_second_fields(3))
qed

theorem finished_claim_marked_witness:
  "\<exists>st. (claimStep ex_group)\<^sup>*\<^sup>* (claimInit ex_group [ex_msg 5]) st \<and> cs_at st = Returned \<and> \<not> cs_ctxDone st
     \<and> cs_finished st = [ex_handled (Some ''apply'') False (ex_msg 5)] \<and> cs_marked st = [ex_msg 5]"
proof -
  let ?fin = "[ex_handled (Some ''apply'') False (ex_msg 5)]"
  let ?i = "ex_idle [] [ex_msg 5] 6 ?fin"
  have round: "(claimStep ex_group)\<^sup>*\<^sup>* (claimInit ex_group [ex_msg 5]) ?i"
    using ex_round [of "[]" 0 "ex_msg 5" False "Some ''apply''" "[]" "[]"] by (simp add: ex_init) (simp add: ex_msg_def)
  have "claimStep ex_group ?i (?i\<lparr>cs_at := AtRead\<rparr>)"
    using claimStep.top [of ?i ex_group 0] by (simp add: ex_run_simps)
  moreover have "claimStep ex_group (?i\<lparr>cs_at := AtRead\<rparr>) (?i\<lparr>cs_readOpen := False\<rparr>)"
    using claimStep.closed [of "?i\<lparr>cs_at := AtRead\<rparr>" ex_group] by (simp add: ex_run_simps)
  moreover have "claimStep ex_group (?i\<lparr>cs_readOpen := False\<rparr>) (?i\<lparr>cs_readOpen := False, cs_at := Returned\<rparr>)"
    using claimStep.top [of "?i\<lparr>cs_readOpen := False\<rparr>" ex_group 0] by (simp add: ex_run_simps)
  ultimately have run: "(claimStep ex_group)\<^sup>*\<^sup>* (claimInit ex_group [ex_msg 5]) (?i\<lparr>cs_readOpen := False, cs_at := Returned\<rparr>)"
    using round by (meson rtranclp.rtrancl_into_rtrancl)
  have "cs_marked (?i\<lparr>cs_readOpen := False, cs_at := Returned\<rparr>) = [ex_msg 5]"
    using finished_claim_marked [OF run, of 5 5] by (simp add: ex_msg_def ex_idle_def claimInit_def)
  then show ?thesis
    by (intro exI [of _ "?i\<lparr>cs_readOpen := False, cs_at := Returned\<rparr>"]) (use run in \<open>simp add: ex_idle_def claimInit_def\<close>)
qed

theorem offset_gap_stops_marking_witness:
  "\<exists>st. (claimStep ex_group)\<^sup>*\<^sup>* (claimInit ex_group [ex_msg 5, ex_msg 7]) st
     \<and> map cr_msg (cs_finished st) = [ex_msg 5, ex_msg 7] \<and> (\<forall>m \<in> set (cs_marked st). km_Offset m < 6)"
proof -
  let ?fin = "[ex_handled None False (ex_msg 5)]"
  let ?d = "ex_done (ex_handled None False (ex_msg 7)) [] [ex_msg 5] 6 ?fin"
  have "(claimStep ex_group)\<^sup>*\<^sup>* (claimInit ex_group [ex_msg 5, ex_msg 7]) (ex_idle [ex_msg 7] [ex_msg 5] 6 ?fin)"
    using ex_round [of "[]" 0 "ex_msg 5" False None "[ex_msg 7]" "[]"] by (simp add: ex_init) (simp add: ex_msg_def)
  then have "(claimStep ex_group)\<^sup>*\<^sup>* (claimInit ex_group [ex_msg 5, ex_msg 7]) (ex_busy (ex_msg 7) [] [ex_msg 5] 6 ?fin)"
    using ex_start by (rule rtranclp_trans)
  moreover have "claimStep ex_group (ex_busy (ex_msg 7) [] [ex_msg 5] 6 ?fin) ?d"
    using ex_worker_done [where c = False and e = None and m = "ex_msg 7" and rest = "[]" and marks = "[ex_msg 5]" and n = 6 and fin = ?fin and x = False] by (simp add: ex_busy_def ex_done_def ex_idle_def claimInit_def)
  moreover have "claimStep ex_group ?d (onResult (ex_handled None False (ex_msg 7)) (?d\<lparr>cs_results := [], cs_at := AtTop\<rparr>))" (is "claimStep _ _ ?st")
    using claimStep.result [of ?d "ex_handled None False (ex_msg 7)" "[]" ex_group] by (simp add: ex_done_def inSelect_def)
  ultimately have run: "(claimStep ex_group)\<^sup>*\<^sup>* (claimInit ex_group [ex_msg 5, ex_msg 7]) ?st"
    by (meson rtranclp.rtrancl_into_rtrancl)
  have "\<forall>m \<in> set (cs_marked ?st). km_Offset m < 6"
    using offset_gap_stops_marking [OF run, of 6] by (simp add: ex_msg_def)
  moreover have "map cr_msg (cs_finished ?st) = [ex_msg 5, ex_msg 7]"
    by (simp add: onResult_def drainMarkableResults_def Let_def ex_done_def ex_idle_def claimInit_def drain_one ex_handled_def)
  ultimately show ?thesis using run by (intro exI [of _ ?st] conjI)
qed

text \<open>
  C33. A message whose handling the end of the session cut short can still be marked: the \<^verbatim>\<open>select\<close> may take its
  result although the context is over, and the drain only leaves out the warning. The
  message was not handled, and the next owner of the partition does not get it.
\<close>

theorem interrupted_message_marked:
  "\<exists>st. (claimStep ex_group)\<^sup>*\<^sup>* (claimInit ex_group [ex_msg 5]) st \<and> cs_ctxDone st
     \<and> cs_finished st = [ex_handled (Some ''context canceled'') True (ex_msg 5)] \<and> cs_marked st = [ex_msg 5]"
proof -
  let ?r = "ex_handled (Some ''context canceled'') True (ex_msg 5)"
  let ?b = "ex_busy (ex_msg 5) [] [] 0 []" and ?st = "(ex_idle [] [ex_msg 5] 6 [?r])\<lparr>cs_ctxDone := True\<rparr>"
  have "(claimStep ex_group)\<^sup>*\<^sup>* (claimInit ex_group [ex_msg 5]) ?b" unfolding ex_init by (rule ex_start)
  moreover have "claimStep ex_group ?b (?b\<lparr>cs_ctxDone := True\<rparr>)" by (rule claimStep.session_ends)
  moreover have "claimStep ex_group (?b\<lparr>cs_ctxDone := True\<rparr>) ((ex_done ?r [] [] 0 [])\<lparr>cs_ctxDone := True\<rparr>)"
    by (rule ex_worker_done) simp
  moreover have "claimStep ex_group ((ex_done ?r [] [] 0 [])\<lparr>cs_ctxDone := True\<rparr>) ?st"
    using ex_mark [where marks = "[]" and n = 0 and r = ?r and rest = "[]" and fin = "[]" and x = True] by (simp add: ex_handled_def) (simp add: ex_msg_def)
  ultimately have "(claimStep ex_group)\<^sup>*\<^sup>* (claimInit ex_group [ex_msg 5]) ?st" by (meson rtranclp.rtrancl_into_rtrancl)
  then show ?thesis by (intro exI [of _ ?st]) (simp add: ex_idle_def)
qed


text \<open>Without an admission pause the pause after a saturated queue has no effect: the loop only looks at the time it sets when \<^verbatim>\<open>admissionPause\<close> is positive.\<close>

lemma pause_needs_admissionPause: "gh_admissionPause g \<le> 0 \<Longrightarrow> cs_at st = AtTop \<Longrightarrow> cs_at (loopTop g now st) \<noteq> AtPause"
  by (simp add: loopTop_def dispatch_def saturated_def enqueueTask_def Let_def split: option.split)

end
