(* ===== verification/PeerState.thy ===== *)
theory PeerState
  imports Prelude
begin

text \<open>
  Peer bookkeeping of a validator, \<^verbatim>\<open>backend/pkg/p2p/state.go\<close>: which peers are known and
  connected, their scores, and the quarantine of peers with a bad score. The counts feed the readiness checks of the consensus
  engine, the scores the gossip layer.

  A method is a function of the clock it reads and the state under the mutex. A score is a rational number. \<^verbatim>\<open>math.Pow\<close> is
  the argument \<open>pow\<close>; the order in which \<^verbatim>\<open>evictLowestScorePeer\<close> meets the peers is the argument
  \<open>ord\<close>. The configuration manager's threshold is a field.
\<close>

subsection \<open>State\<close>

record peerEntry =
  px_LastSeen :: instant
  px_LastDecay :: instant
  px_BytesIn :: u64
  px_MsgIn :: u64
  px_Score :: rat
  px_Connected :: bool
  px_Quarantined :: bool
  px_QuarantineAt :: instant
  px_Labels :: "(string, string) gomap"
  px_MessageGapEMA :: rat
  px_PingRTTEMA :: rat

record p2pState =
  pp_peers :: "(string, peerEntry) gomap"
  pp_seen :: "(string, instant) gomap"
  pp_startup :: instant
  pp_decayInterval :: duration
  pp_decayFactor :: rat
  pp_livenessTimeout :: duration
  pp_quarantineTTL :: duration
  pp_quarantineThreshold :: rat
  pp_maxPeers :: int

type_synonym peerOrder = "(string, peerEntry) gomap \<Rightarrow> (string, peerEntry) gomap"

definition clampTo :: "rat \<Rightarrow> rat \<Rightarrow> rat \<Rightarrow> rat" where
  "clampTo v lo hi = (if v < lo then lo else if v > hi then hi else v)"

definition NewP2PState :: "duration \<Rightarrow> duration \<Rightarrow> rat \<Rightarrow> duration \<Rightarrow> rat \<Rightarrow> int \<Rightarrow> instant \<Rightarrow> p2pState" where
  "NewP2PState live decay df qttl threshold maxp now = \<lparr>pp_peers = [], pp_seen = [], pp_startup = now, pp_decayInterval = decay,
     pp_decayFactor = clampTo df (80 / 100) (999 / 1000), pp_livenessTimeout = live, pp_quarantineTTL = qttl,
     pp_quarantineThreshold = threshold, pp_maxPeers = maxp\<rparr>"

definition newPeer :: "instant \<Rightarrow> peerEntry" where
  "newPeer now = \<lparr>px_LastSeen = now, px_LastDecay = now, px_BytesIn = 0, px_MsgIn = 0, px_Score = 0, px_Connected = False,
     px_Quarantined = False, px_QuarantineAt = zeroTime, px_Labels = [], px_MessageGapEMA = 0, px_PingRTTEMA = 0\<rparr>"

definition isQuarantinedLocked :: "p2pState \<Rightarrow> peerEntry \<Rightarrow> instant \<Rightarrow> bool" where
  "isQuarantinedLocked s ps now \<longleftrightarrow> px_Quarantined ps \<and> now - px_QuarantineAt ps < pp_quarantineTTL s"

subsection \<open>Admitting a peer\<close>

text \<open>The peer with the least score so far among those that are not in quarantine.\<close>

definition lowerPeer :: "p2pState \<Rightarrow> instant \<Rightarrow> string \<times> peerEntry \<Rightarrow> (string \<times> rat) option \<Rightarrow> (string \<times> rat) option" where
  "lowerPeer s now e low =
     (if isQuarantinedLocked s (snd e) now then low
      else case low of
             None \<Rightarrow> Some (fst e, px_Score (snd e))
           | Some (i, sc) \<Rightarrow> if px_Score (snd e) < sc then Some (fst e, px_Score (snd e)) else low)"

definition evictLowestScorePeer :: "peerOrder \<Rightarrow> instant \<Rightarrow> p2pState \<Rightarrow> p2pState" where
  "evictLowestScorePeer ord now s =
     (case fold (lowerPeer s now) (ord (pp_peers s)) None of
        None \<Rightarrow> s
      | Some (i, _) \<Rightarrow> if i \<noteq> [] then s\<lparr>pp_peers := AList.delete i (pp_peers s)\<rparr> else s)"

definition ensurePeer :: "peerOrder \<Rightarrow> instant \<Rightarrow> string \<Rightarrow> p2pState \<Rightarrow> peerEntry \<times> p2pState" where
  "ensurePeer ord now i s =
     (let s = (if int (length (pp_peers s)) \<ge> pp_maxPeers s then evictLowestScorePeer ord now s else s) in
      case map_of (pp_peers s) i of
        Some ps \<Rightarrow> (ps, s)
      | None \<Rightarrow> (newPeer now, s\<lparr>pp_peers := AList.update i (newPeer now) (pp_peers s)\<rparr>))"

definition putPeer :: "string \<Rightarrow> peerEntry \<Rightarrow> p2pState \<Rightarrow> p2pState" where
  "putPeer i ps s = s\<lparr>pp_peers := AList.update i ps (pp_peers s)\<rparr>"

definition markSeen :: "string \<Rightarrow> instant \<Rightarrow> p2pState \<Rightarrow> p2pState" where
  "markSeen i t s = s\<lparr>pp_seen := AList.update i t (pp_seen s)\<rparr>"

subsection \<open>Events\<close>

definition OnConnect :: "peerOrder \<Rightarrow> instant \<Rightarrow> string \<Rightarrow> (string, string) gomap option \<Rightarrow> p2pState \<Rightarrow> p2pState" where
  "OnConnect ord now i labels s =
     (case ensurePeer ord now i s of
        (ps, s) \<Rightarrow>
          let ps = ps\<lparr>px_Connected := True, px_LastSeen := now, px_LastDecay := now\<rparr>;
              ps = (case labels of None \<Rightarrow> ps | Some l \<Rightarrow> ps\<lparr>px_Labels := l\<rparr>) in
          markSeen i now (putPeer i (ps\<lparr>px_Score := px_Score ps + 2 / 10\<rparr>) s))"

definition OnDisconnect :: "string \<Rightarrow> p2pState \<Rightarrow> p2pState" where
  "OnDisconnect i s = (case map_of (pp_peers s) i of None \<Rightarrow> s | Some ps \<Rightarrow> putPeer i (ps\<lparr>px_Connected := False\<rparr>) s)"

definition go_seconds :: "duration \<Rightarrow> rat" where
  "go_seconds d = of_int d / of_int second"

definition OnMessage :: "peerOrder \<Rightarrow> instant \<Rightarrow> string \<Rightarrow> int \<Rightarrow> p2pState \<Rightarrow> p2pState" where
  "OnMessage ord now i n s =
     (case ensurePeer ord now i s of
        (ps, s) \<Rightarrow>
          let gap = go_seconds (now - px_LastSeen ps);
              ps = (if px_LastSeen ps \<noteq> zeroTime \<and> gap \<ge> 0
                    then ps\<lparr>px_MessageGapEMA := (if px_MessageGapEMA ps = 0 then gap else px_MessageGapEMA ps * (9 / 10) + gap * (1 / 10))\<rparr>
                    else ps);
              ps = ps\<lparr>px_Connected := True, px_LastSeen := now, px_MsgIn := px_MsgIn ps + 1, px_BytesIn := px_BytesIn ps + of_int n\<rparr> in
          markSeen i now (putPeer i (ps\<lparr>px_Score := clampTo (px_Score ps + 5 / 100) (- 100) 100\<rparr>) s))"

definition quarantinePeer :: "instant \<Rightarrow> peerEntry \<Rightarrow> peerEntry" where
  "quarantinePeer now ps = ps\<lparr>px_Quarantined := True, px_QuarantineAt := now\<rparr>"

definition Penalize :: "peerOrder \<Rightarrow> instant \<Rightarrow> string \<Rightarrow> rat \<Rightarrow> p2pState \<Rightarrow> p2pState" where
  "Penalize ord now i severity s =
     (case ensurePeer ord now i s of
        (ps, s) \<Rightarrow>
          let ps = ps\<lparr>px_Score := px_Score ps - clampTo severity (1 / 10) 10\<rparr> in
          putPeer i (if px_Score ps < pp_quarantineThreshold s then quarantinePeer now ps else ps) s)"

definition TouchPeer :: "instant \<Rightarrow> string \<Rightarrow> instant \<Rightarrow> p2pState \<Rightarrow> p2pState" where
  "TouchPeer now i ts s =
     (case map_of (pp_peers s) i of
        None \<Rightarrow> s
      | Some ps \<Rightarrow>
          if isQuarantinedLocked s ps now then s
          else let ts = (if ts = zeroTime then now else ts) in
               markSeen i ts (putPeer i (ps\<lparr>px_Connected := True, px_LastSeen := ts\<rparr>) s))"

definition RecordLatencySample :: "peerOrder \<Rightarrow> instant \<Rightarrow> string \<Rightarrow> duration \<Rightarrow> p2pState \<Rightarrow> p2pState" where
  "RecordLatencySample ord now i latency s =
     (case ensurePeer ord now i s of
        (ps, s) \<Rightarrow>
          let free = \<not> isQuarantinedLocked s ps now;
              ps = (if free then ps\<lparr>px_Connected := True, px_LastSeen := now\<rparr> else ps);
              s = (if free then markSeen i now s else s);
              secs = go_seconds latency;
              ps = (if latency > 0
                    then ps\<lparr>px_PingRTTEMA := (if px_PingRTTEMA ps = 0 then secs else px_PingRTTEMA ps * (8 / 10) + secs * (2 / 10))\<rparr>
                    else ps) in
          putPeer i ps s)"

definition ResetPeersSeen :: "instant \<Rightarrow> p2pState \<Rightarrow> p2pState" where
  "ResetPeersSeen now s = s\<lparr>pp_seen := [], pp_startup := now\<rparr>"

subsection \<open>Background maintenance\<close>

definition decayPeer :: "(rat \<Rightarrow> rat \<Rightarrow> rat) \<Rightarrow> p2pState \<Rightarrow> instant \<Rightarrow> peerEntry \<Rightarrow> peerEntry" where
  "decayPeer pow s now ps =
     (let since = now - px_LastDecay ps in
      if since < pp_decayInterval s then ps
      else let steps = of_int since / of_int (pp_decayInterval s);
               ps = (if steps > 0 then ps\<lparr>px_Score := px_Score ps * pow (pp_decayFactor s) steps, px_LastDecay := now\<rparr> else ps) in
           if px_Quarantined ps \<and> now - px_QuarantineAt ps \<ge> pp_quarantineTTL s then ps\<lparr>px_Quarantined := False\<rparr> else ps)"

definition applyDecay :: "(rat \<Rightarrow> rat \<Rightarrow> rat) \<Rightarrow> instant \<Rightarrow> p2pState \<Rightarrow> p2pState" where
  "applyDecay pow now s = s\<lparr>pp_peers := map (\<lambda>(i, ps). (i, decayPeer pow s now ps)) (pp_peers s)\<rparr>"

definition livenessPeer :: "p2pState \<Rightarrow> instant \<Rightarrow> peerEntry \<Rightarrow> peerEntry" where
  "livenessPeer s now ps =
     (if px_Connected ps \<and> now - px_LastSeen ps > pp_livenessTimeout s
      then let ps = ps\<lparr>px_Score := px_Score ps - 5 / 10\<rparr> in
           if px_Score ps < pp_quarantineThreshold s \<and> \<not> px_Quarantined ps then quarantinePeer now ps else ps
      else ps)"

definition checkLiveness :: "instant \<Rightarrow> p2pState \<Rightarrow> p2pState" where
  "checkLiveness now s = s\<lparr>pp_peers := map (\<lambda>(i, ps). (i, livenessPeer s now ps)) (pp_peers s)\<rparr>"

subsection \<open>Questions\<close>

definition IsQuarantined :: "instant \<Rightarrow> string \<Rightarrow> p2pState \<Rightarrow> bool" where
  "IsQuarantined now i s = (case map_of (pp_peers s) i of None \<Rightarrow> False | Some ps \<Rightarrow> isQuarantinedLocked s ps now)"

definition ScoreFor :: "string \<Rightarrow> p2pState \<Rightarrow> rat" where
  "ScoreFor i s = (case map_of (pp_peers s) i of None \<Rightarrow> 0 | Some ps \<Rightarrow> px_Score ps)"

definition countPeers :: "string \<Rightarrow> (peerEntry \<Rightarrow> bool) \<Rightarrow> p2pState \<Rightarrow> nat" where
  "countPeers excluded P s = length (filter (\<lambda>(i, ps). \<not> (excluded \<noteq> [] \<and> i = excluded) \<and> P ps) (pp_peers s))"

definition GetConnectedPeerCountExcluding :: "instant \<Rightarrow> string \<Rightarrow> p2pState \<Rightarrow> nat" where
  "GetConnectedPeerCountExcluding now excluded s =
     countPeers excluded (\<lambda>ps. px_Connected ps \<and> \<not> isQuarantinedLocked s ps now) s"

definition GetActivePeerCountExcluding :: "instant \<Rightarrow> string \<Rightarrow> duration \<Rightarrow> p2pState \<Rightarrow> nat" where
  "GetActivePeerCountExcluding now excluded since s =
     countPeers excluded (\<lambda>ps. px_Connected ps \<and> \<not> isQuarantinedLocked s ps now \<and> now - px_LastSeen ps < since) s"

definition GetQuarantinedCount :: "instant \<Rightarrow> p2pState \<Rightarrow> nat" where
  "GetQuarantinedCount now s = countPeers [] (\<lambda>ps. isQuarantinedLocked s ps now) s"

definition GetPeersSeenSinceStartupExcluding :: "instant \<Rightarrow> string \<Rightarrow> p2pState \<Rightarrow> nat" where
  "GetPeersSeenSinceStartupExcluding now excluded s =
     length (filter (\<lambda>(i, ts). \<not> (excluded \<noteq> [] \<and> i = excluded) \<and> \<not> ts < pp_startup s
       \<and> (case map_of (pp_peers s) i of None \<Rightarrow> False | Some ps \<Rightarrow> \<not> isQuarantinedLocked s ps now)) (pp_seen s))"

subsection \<open>Runs\<close>

datatype peerOp =
    Connects string "(string, string) gomap option"
  | Disconnects string
  | Sends string int
  | Misbehaves string rat
  | Touched string instant
  | Sampled string duration
  | DecayTick
  | LivenessTick
  | SeenReset

fun runPeerOp :: "peerOrder \<Rightarrow> (rat \<Rightarrow> rat \<Rightarrow> rat) \<Rightarrow> instant \<times> peerOp \<Rightarrow> p2pState \<Rightarrow> p2pState" where
  "runPeerOp ord pow (now, Connects i l) s = OnConnect ord now i l s"
| "runPeerOp ord pow (now, Disconnects i) s = OnDisconnect i s"
| "runPeerOp ord pow (now, Sends i n) s = OnMessage ord now i n s"
| "runPeerOp ord pow (now, Misbehaves i v) s = Penalize ord now i v s"
| "runPeerOp ord pow (now, Touched i t) s = TouchPeer now i t s"
| "runPeerOp ord pow (now, Sampled i d) s = RecordLatencySample ord now i d s"
| "runPeerOp ord pow (now, DecayTick) s = applyDecay pow now s"
| "runPeerOp ord pow (now, LivenessTick) s = checkLiveness now s"
| "runPeerOp ord pow (now, SeenReset) s = ResetPeersSeen now s"


subsection \<open>Eviction\<close>

definition freeIn :: "p2pState \<Rightarrow> instant \<Rightarrow> (string, peerEntry) gomap \<Rightarrow> (string \<times> peerEntry) set" where
  "freeIn s now m = {e \<in> set m. \<not> isQuarantinedLocked s (snd e) now}"

lemma lowest_spec:
  "case fold (lowerPeer s now) es low of
     None \<Rightarrow> low = None \<and> freeIn s now es = {}
   | Some (i, sc) \<Rightarrow> (low = Some (i, sc) \<or> (\<exists>ps. (i, ps) \<in> freeIn s now es \<and> px_Score ps = sc))
       \<and> (\<forall>(j, ps) \<in> freeIn s now es. sc \<le> px_Score ps) \<and> (case low of None \<Rightarrow> True | Some (_, sc') \<Rightarrow> sc \<le> sc')"
proof (induction es arbitrary: low)
  case Nil
  show ?case by (auto simp: freeIn_def split: option.split)
next
  case (Cons e es)
  obtain j ps where e: "e = (j, ps)" by (cases e)
  show ?case
  proof (cases "isQuarantinedLocked s ps now")
    case True
    then have "lowerPeer s now e low = low" "freeIn s now (e # es) = freeIn s now es" by (auto simp: lowerPeer_def freeIn_def e)
    then show ?thesis using Cons [of low] by (auto split: option.split)
  next
    case False
    then have free: "freeIn s now (e # es) = insert (j, ps) (freeIn s now es)" by (auto simp: freeIn_def e)
    have "lowerPeer s now e low = (case low of None \<Rightarrow> Some (j, px_Score ps)
        | Some (i, sc) \<Rightarrow> if px_Score ps < sc then Some (j, px_Score ps) else low)" using False by (cases low) (auto simp: lowerPeer_def e)
    then show ?thesis using Cons [of "lowerPeer s now e low"] unfolding free
      by (auto split: option.splits if_splits prod.splits)
  qed
qed

lemma evict_cases:
  assumes "iter_order ord"
  shows "(evictLowestScorePeer ord now s = s \<and> (freeIn s now (pp_peers s) = {} \<or> (\<exists>ps. ([], ps) \<in> set (pp_peers s))))
    \<or> (\<exists>i ps. (i, ps) \<in> freeIn s now (pp_peers s) \<and> (\<forall>(j, qs) \<in> freeIn s now (pp_peers s). px_Score ps \<le> px_Score qs)
        \<and> evictLowestScorePeer ord now s = s\<lparr>pp_peers := AList.delete i (pp_peers s)\<rparr>)"
proof -
  have same: "freeIn s now (ord (pp_peers s)) = freeIn s now (pp_peers s)" using assms by (simp add: freeIn_def iter_order_set)
  show ?thesis
  proof (cases "fold (lowerPeer s now) (ord (pp_peers s)) None")
    case None
    then show ?thesis using lowest_spec [where s = s and now = now and es = "ord (pp_peers s)" and low = None] by (simp add: evictLowestScorePeer_def same)
  next
    case (Some e)
    obtain i sc where e: "e = (i, sc)" by (cases e)
    then obtain ps where ps: "(i, ps) \<in> freeIn s now (pp_peers s)" "px_Score ps = sc" "\<forall>(j, qs) \<in> freeIn s now (pp_peers s). sc \<le> px_Score qs"
      using lowest_spec [where s = s and now = now and es = "ord (pp_peers s)" and low = None] Some by (auto simp: same)
    show ?thesis
    proof (cases "i = []")
      case True
      then show ?thesis using ps(1) Some e by (auto simp: evictLowestScorePeer_def freeIn_def)
    next
      case False
      then have "evictLowestScorePeer ord now s = s\<lparr>pp_peers := AList.delete i (pp_peers s)\<rparr>"
        using Some e by (simp add: evictLowestScorePeer_def)
      then show ?thesis using ps by blast
    qed
  qed
qed

definition peerConfig :: "p2pState \<Rightarrow> duration \<times> rat \<times> duration \<times> duration \<times> rat \<times> int" where
  "peerConfig s = (pp_decayInterval s, pp_decayFactor s, pp_livenessTimeout s, pp_quarantineTTL s, pp_quarantineThreshold s, pp_maxPeers s)"

lemma evict_config [simp]: "peerConfig (evictLowestScorePeer ord now s) = peerConfig s"
  by (simp add: evictLowestScorePeer_def peerConfig_def split: option.split)

lemma ensure_split:
  "\<exists>s1. (s1 = s \<or> int (length (pp_peers s)) \<ge> pp_maxPeers s \<and> s1 = evictLowestScorePeer ord now s)
    \<and> ensurePeer ord now i s = (case map_of (pp_peers s1) i of Some ps \<Rightarrow> (ps, s1)
        | None \<Rightarrow> (newPeer now, putPeer i (newPeer now) s1))"
  by (intro exI [of _ "if int (length (pp_peers s)) \<ge> pp_maxPeers s then evictLowestScorePeer ord now s else s"])
    (simp add: ensurePeer_def putPeer_def Let_def split: option.split)

lemma ensure_effect:
  assumes "ensurePeer ord now i s = (ps, s')" and "iter_order ord" and "gm_wf (pp_peers s)"
  shows "gm_wf (pp_peers s')" and "map_of (pp_peers s') i = Some ps" and "peerConfig s' = peerConfig s"
    and "map_of (pp_peers s) j = Some qs \<Longrightarrow> isQuarantinedLocked s qs now \<Longrightarrow> map_of (pp_peers s') j = Some qs"
proof -
  obtain s1 where s1: "s1 = s \<or> int (length (pp_peers s)) \<ge> pp_maxPeers s \<and> s1 = evictLowestScorePeer ord now s"
    "ensurePeer ord now i s = (case map_of (pp_peers s1) i of Some ps \<Rightarrow> (ps, s1) | None \<Rightarrow> (newPeer now, putPeer i (newPeer now) s1))"
    using ensure_split by blast
  have conf: "peerConfig s1 = peerConfig s" using s1(1) by auto
  have wf1: "gm_wf (pp_peers s1)" using s1(1) evict_cases [OF assms(2), of now s] assms(3) by auto
  have kept: "map_of (pp_peers s1) j = Some qs" if "map_of (pp_peers s) j = Some qs" "isQuarantinedLocked s qs now" for j qs
  proof -
    have "(j, ks) \<notin> freeIn s now (pp_peers s)" for ks
      using \<open>map_of (pp_peers s) j = Some qs\<close> \<open>isQuarantinedLocked s qs now\<close> assms(3) by (auto simp: freeIn_def gm_mem_iff)
    then show ?thesis using s1(1) evict_cases [OF assms(2), of now s] that(1) by (auto simp: delete_conv')
  qed
  show "gm_wf (pp_peers s')" using s1(2) wf1 assms(1) by (auto simp: putPeer_def split: option.splits)
  show "map_of (pp_peers s') i = Some ps" using s1(2) assms(1) by (auto simp: putPeer_def update_conv' split: option.splits)
  show "peerConfig s' = peerConfig s" using s1(2) conf assms(1) by (auto simp: putPeer_def peerConfig_def split: option.splits)
  show "map_of (pp_peers s') j = Some qs" if "map_of (pp_peers s) j = Some qs" "isQuarantinedLocked s qs now"
    using kept [OF that] s1(2) assms(1) by (auto simp: putPeer_def update_conv' split: option.splits)
qed

subsection \<open>Quarantine lasts\<close>

definition confined :: "instant \<Rightarrow> string \<Rightarrow> p2pState \<Rightarrow> bool" where
  "confined q i s \<longleftrightarrow> gm_wf (pp_peers s)
     \<and> (\<exists>ps. map_of (pp_peers s) i = Some ps \<and> px_Quarantined ps \<and> q \<le> px_QuarantineAt ps)"

lemma confined_ensure:
  assumes "ensurePeer ord now j s = (ps, s')" and "iter_order ord" and "confined q i s" and "now - q < pp_quarantineTTL s"
  shows "confined q i s' \<and> (j = i \<longrightarrow> px_Quarantined ps \<and> q \<le> px_QuarantineAt ps) \<and> pp_quarantineTTL s' = pp_quarantineTTL s"
proof -
  obtain qs where qs: "map_of (pp_peers s) i = Some qs" "px_Quarantined qs" "q \<le> px_QuarantineAt qs" and wf: "gm_wf (pp_peers s)"
    using assms(3) by (auto simp: confined_def)
  then have "isQuarantinedLocked s qs now" using assms(4) by (simp add: isQuarantinedLocked_def)
  then have kept: "map_of (pp_peers s') i = Some qs" using ensure_effect(4) [OF assms(1,2) wf qs(1)] by simp
  then show ?thesis using qs ensure_effect(1-3) [OF assms(1,2) wf] by (auto simp: confined_def peerConfig_def)
qed

lemma confined_put:
  assumes "confined q i s" and "j = i \<longrightarrow> px_Quarantined ps \<and> q \<le> px_QuarantineAt ps"
  shows "confined q i (putPeer j ps s)"
  using assms by (auto simp: confined_def putPeer_def update_conv')

lemma confined_seen [simp]: "confined q i (markSeen j t s) = confined q i s"
  by (simp add: confined_def markSeen_def)

lemma confined_map:
  assumes "confined q i s" and "\<And>ps. px_Quarantined ps \<Longrightarrow> q \<le> px_QuarantineAt ps \<Longrightarrow> px_Quarantined (f ps) \<and> q \<le> px_QuarantineAt (f ps)"
  shows "confined q i (s\<lparr>pp_peers := map (\<lambda>(i, ps). (i, f ps)) (pp_peers s)\<rparr>)"
proof -
  have "gm_wf (map (\<lambda>(i, ps). (i, f ps)) (pp_peers s))"
    using assms(1) by (simp add: confined_def gm_wf_def comp_def case_prod_unfold)
  then show ?thesis using assms by (auto simp: confined_def map_of_map)
qed

lemma confined_step:
  assumes "confined q i s" and "iter_order ord" and "q \<le> now" and "now - q < pp_quarantineTTL s"
  shows "confined q i (runPeerOp ord pow (now, op) s) \<and> pp_quarantineTTL (runPeerOp ord pow (now, op) s) = pp_quarantineTTL s"
proof (cases op)
  case (Connects j l)
  obtain ps s' where en: "ensurePeer ord now j s = (ps, s')" by (metis surj_pair)
  from confined_ensure [OF en assms(2,1,4)] show ?thesis
    by (auto simp: Connects OnConnect_def en Let_def intro!: confined_put split: option.splits) (simp_all add: markSeen_def putPeer_def)
next
  case (Sends j n)
  obtain ps s' where en: "ensurePeer ord now j s = (ps, s')" by (metis surj_pair)
  from confined_ensure [OF en assms(2,1,4)] show ?thesis
    by (auto simp: Sends OnMessage_def en Let_def intro!: confined_put) (simp_all add: markSeen_def putPeer_def)
next
  case (Misbehaves j v)
  obtain ps s' where en: "ensurePeer ord now j s = (ps, s')" by (metis surj_pair)
  from confined_ensure [OF en assms(2,1,4)] show ?thesis using assms(3)
    by (auto simp: Misbehaves Penalize_def en Let_def quarantinePeer_def intro!: confined_put) (simp_all add: putPeer_def)
next
  case (Sampled j d)
  obtain ps s' where en: "ensurePeer ord now j s = (ps, s')" by (metis surj_pair)
  from confined_ensure [OF en assms(2,1,4)] show ?thesis
    by (auto simp: Sampled RecordLatencySample_def en Let_def intro!: confined_put) (simp_all add: markSeen_def putPeer_def)
next
  case (Disconnects j)
  then show ?thesis using assms(1) confined_put [OF assms(1), of j]
    by (auto simp: OnDisconnect_def putPeer_def confined_def split: option.split)
next
  case (Touched j t)
  then show ?thesis using assms(1,4) confined_put [OF assms(1), of j]
    by (auto simp: TouchPeer_def Let_def isQuarantinedLocked_def confined_def putPeer_def markSeen_def split: option.split)
next
  case DecayTick
  then show ?thesis using assms(4)
    by (auto simp: applyDecay_def decayPeer_def Let_def intro!: confined_map [OF assms(1)])
next
  case LivenessTick
  then show ?thesis using assms(3)
    by (auto simp: checkLiveness_def livenessPeer_def quarantinePeer_def Let_def intro!: confined_map [OF assms(1)])
next
  case SeenReset
  then show ?thesis using assms(1) by (simp add: ResetPeersSeen_def confined_def)
qed

text \<open>
  C38. Quarantine lasts. A peer quarantined at \<open>q\<close> stays quarantined for the whole time to live, whatever happens
  in it: connections, messages, latency samples, evictions at the limit of peers, decay and liveness checks.
\<close>

theorem quarantine_lasts:
  assumes "iter_order ord" and "gm_wf (pp_peers s)" and "map_of (pp_peers s) i = Some ps" and "px_Quarantined ps" and "px_QuarantineAt ps = q"
    and "\<forall>(t, op) \<in> set run. q \<le> t \<and> t - q < pp_quarantineTTL s" and "q \<le> now" and "now - q < pp_quarantineTTL s"
  shows "IsQuarantined now i (fold (runPeerOp ord pow) run s)"
proof -
  have "confined q i s" using assms(2-5) by (auto simp: confined_def)
  then have "confined q i (fold (runPeerOp ord pow) run s) \<and> pp_quarantineTTL (fold (runPeerOp ord pow) run s) = pp_quarantineTTL s"
    using assms(6)
  proof (induction run arbitrary: s)
    case (Cons e run)
    obtain t op where e: "e = (t, op)" by (cases e)
    then show ?case using Cons confined_step [OF Cons.prems(1) assms(1), of t pow op] by auto
  qed simp
  then show ?thesis using assms(8) by (auto simp: IsQuarantined_def confined_def isQuarantinedLocked_def)
qed

subsection \<open>What the score does not say\<close>

text \<open>The state in which one peer has the only negative score of a full table.\<close>

definition outcast :: "string \<Rightarrow> p2pState \<Rightarrow> bool" where
  "outcast i s \<longleftrightarrow> gm_wf (pp_peers s) \<and> int (length (pp_peers s)) \<ge> pp_maxPeers s
     \<and> (\<forall>(j, qs) \<in> set (pp_peers s). \<not> px_Quarantined qs \<and> (j = i \<longrightarrow> px_Score qs < 0) \<and> (j \<noteq> i \<longrightarrow> 0 \<le> px_Score qs))
     \<and> map_of (pp_peers s) i \<noteq> None"

lemma outcast_evicted:
  assumes "outcast i s" and "i \<noteq> []" and "iter_order ord"
  shows "evictLowestScorePeer ord now s = s\<lparr>pp_peers := AList.delete i (pp_peers s)\<rparr>"
proof -
  have all: "freeIn s now (pp_peers s) = set (pp_peers s)" using assms(1) by (auto simp: outcast_def freeIn_def isQuarantinedLocked_def)
  obtain ps where ps: "(i, ps) \<in> set (pp_peers s)" "px_Score ps < 0" using assms(1) by (auto simp: outcast_def dest: map_of_SomeD)
  obtain e where e: "fold (lowerPeer s now) (ord (pp_peers s)) None = Some e"
    using lowest_spec [where s = s and now = now and es = "ord (pp_peers s)" and low = None] ps(1) assms(3) all by (auto simp: freeIn_def iter_order_set split: option.splits)
  obtain k sc where ks: "e = (k, sc)" by (cases e)
  have "freeIn s now (ord (pp_peers s)) = set (pp_peers s)" using all assms(3) by (simp add: freeIn_def iter_order_set)
  then obtain qs where "(k, qs) \<in> set (pp_peers s)" "px_Score qs = sc" "\<forall>(j, qs) \<in> set (pp_peers s). sc \<le> px_Score qs"
    using lowest_spec [where s = s and now = now and es = "ord (pp_peers s)" and low = None] e ks by auto
  then have "k = i" using ps assms(1) by (force simp: outcast_def)
  then show ?thesis using e ks assms(2) by (simp add: evictLowestScorePeer_def)
qed

lemma outcast_penalized:
  assumes "outcast i s" and "i \<noteq> []" and "iter_order ord" and "pp_quarantineThreshold s \<le> - clampTo v (1 / 10) 10"
  shows "outcast i (Penalize ord now i v s) \<and> ScoreFor i (Penalize ord now i v s) = - clampTo v (1 / 10) 10
    \<and> pp_quarantineThreshold (Penalize ord now i v s) = pp_quarantineThreshold s"
proof -
  let ?s1 = "s\<lparr>pp_peers := AList.delete i (pp_peers s)\<rparr>" and ?p = "(newPeer now)\<lparr>px_Score := - clampTo v (1 / 10) 10\<rparr>"
  have wf: "gm_wf (pp_peers s)" and full: "int (length (pp_peers s)) \<ge> pp_maxPeers s" and known: "map_of (pp_peers s) i \<noteq> None"
    using assms(1) by (simp_all add: outcast_def)
  have "ensurePeer ord now i s = (newPeer now, putPeer i (newPeer now) ?s1)"
    using full outcast_evicted [OF assms(1-3)] by (simp add: ensurePeer_def putPeer_def delete_conv')
  then have run: "Penalize ord now i v s = putPeer i ?p (putPeer i (newPeer now) ?s1)"
    using assms(4) by (simp add: Penalize_def putPeer_def newPeer_def)
  have neg: "- clampTo v (1 / 10) 10 < 0" by (simp add: clampTo_def)
  have get: "map_of (pp_peers (Penalize ord now i v s)) = (map_of (pp_peers s))(i \<mapsto> ?p)"
    unfolding run by (auto simp: putPeer_def update_conv' delete_conv')
  have wf': "gm_wf (pp_peers (Penalize ord now i v s))" unfolding run using wf by (simp add: putPeer_def)
  have len: "length (pp_peers (Penalize ord now i v s)) = length (pp_peers s)"
  proof -
    have "length (pp_peers s) \<noteq> 0" using known by auto
    then show ?thesis unfolding run using wf known by (simp add: putPeer_def length_update delete_conv' update_conv')
  qed
  have "\<forall>(j, qs) \<in> set (pp_peers (Penalize ord now i v s)). \<not> px_Quarantined qs \<and> (j = i \<longrightarrow> px_Score qs < 0) \<and> (j \<noteq> i \<longrightarrow> 0 \<le> px_Score qs)"
  proof (clarify)
    fix j qs assume "(j, qs) \<in> set (pp_peers (Penalize ord now i v s))"
    then have m: "((map_of (pp_peers s))(i \<mapsto> ?p)) j = Some qs" using wf' get by (simp add: gm_mem_iff)
    show "\<not> px_Quarantined qs \<and> (j = i \<longrightarrow> px_Score qs < 0) \<and> (j \<noteq> i \<longrightarrow> 0 \<le> px_Score qs)"
    proof (cases "j = i")
      case True
      then show ?thesis using m neg by (auto simp: newPeer_def)
    next
      case False
      then have "(j, qs) \<in> set (pp_peers s)" using m map_of_SomeD by simp
      then show ?thesis using assms(1) False by (auto simp: outcast_def)
    qed
  qed
  then have "outcast i (Penalize ord now i v s)"
    unfolding outcast_def using wf' full len get by (simp add: run putPeer_def)
  then show ?thesis using get by (simp add: ScoreFor_def) (simp add: run putPeer_def)
qed


text \<open>
  Reconnecting raises the score without a limit: \<^verbatim>\<open>OnConnect\<close> adds without the clamp of \<^verbatim>\<open>OnMessage\<close>.
\<close>

lemma reconnects_raise_score:
  assumes "map_of (pp_peers s) i = Some ps" and "int (length (pp_peers s)) < pp_maxPeers s"
  shows "ScoreFor i (fold (\<lambda>t. OnConnect ord t i None) ts s) = px_Score ps + of_nat (length ts) / 5"
  using assms
proof (induction ts arbitrary: s ps)
  case (Cons t ts)
  let ?p = "ps\<lparr>px_Connected := True, px_LastSeen := t, px_LastDecay := t, px_Score := px_Score ps + 2 / 10\<rparr>"
  have s': "OnConnect ord t i None s = markSeen i t (putPeer i ?p s)" using Cons.prems by (simp add: OnConnect_def ensurePeer_def)
  have "map_of (pp_peers (markSeen i t (putPeer i ?p s))) i = Some ?p" "int (length (pp_peers (markSeen i t (putPeer i ?p s)))) < pp_maxPeers (markSeen i t (putPeer i ?p s))"
    using Cons.prems by (simp_all add: markSeen_def putPeer_def update_conv' length_update)
  from Cons.IH [OF this] show ?case by (simp add: s' field_simps)
qed (simp add: ScoreFor_def)

text \<open>
  The table of peers is bounded while one of them may be evicted: no operation makes it longer than both the limit and what it
  was, unless every peer in it is in quarantine.
\<close>

theorem peer_table_bounded:
  assumes "iter_order ord" and "gm_wf (pp_peers s)" and "freeIn s now (pp_peers s) \<noteq> {}" and "\<forall>(j, qs) \<in> set (pp_peers s). j \<noteq> []"
  shows "int (length (pp_peers (runPeerOp ord pow (now, op) s))) \<le> max (int (length (pp_peers s))) (pp_maxPeers s)"
proof -
  have ens: "int (length (pp_peers s')) \<le> max (int (length (pp_peers s))) (pp_maxPeers s)" if "ensurePeer ord now j s = (ps, s')" for j ps s'
  proof (cases "int (length (pp_peers s)) \<ge> pp_maxPeers s")
    case True
    obtain k where k: "k \<in> fst ` set (pp_peers s)" "evictLowestScorePeer ord now s = s\<lparr>pp_peers := AList.delete k (pp_peers s)\<rparr>"
    proof -
      have "\<not> (\<exists>ps. ([], ps) \<in> set (pp_peers s))" using assms(4) by auto
      then obtain i ps where "(i, ps) \<in> freeIn s now (pp_peers s)" "evictLowestScorePeer ord now s = s\<lparr>pp_peers := AList.delete i (pp_peers s)\<rparr>"
        using evict_cases [OF assms(1), of now s] assms(3) by (elim disjE conjE exE) simp_all
      moreover from this(1) have "i \<in> fst ` set (pp_peers s)" by (force simp: freeIn_def)
      ultimately show ?thesis using that by blast
    qed
    then have "length (AList.delete k (pp_peers s)) < length (pp_peers s)"
    proof -
      have "0 < length (pp_peers s)" using k(1) by (auto intro: length_pos_if_in_set)
      then show ?thesis using assms(2) k(1) by (simp add: length_delete gm_wf_def map_of_eq_None_iff)
    qed
    then show ?thesis using that True by (auto simp: ensurePeer_def Let_def length_update k(2) split: option.splits)
  next
    case False
    then show ?thesis using that by (auto simp: ensurePeer_def Let_def length_update split: option.splits)
  qed
  have put: "length (pp_peers (putPeer j x s')) = length (pp_peers s')" if "ensurePeer ord now j s = (ps, s')" for j x ps s'
    using ensure_effect(2) [OF that assms(1,2)] by (simp add: putPeer_def length_update)
  have seen: "pp_peers (markSeen j t s') = pp_peers s'" for j t s' by (simp add: markSeen_def)
  show ?thesis
  proof (cases op)
    case (Connects j l)
    obtain ps s' where en: "ensurePeer ord now j s = (ps, s')" by (metis surj_pair)
    show ?thesis using ens [OF en] put [OF en] by (simp add: Connects OnConnect_def en Let_def seen)
  next
    case (Sends j n)
    obtain ps s' where en: "ensurePeer ord now j s = (ps, s')" by (metis surj_pair)
    show ?thesis using ens [OF en] put [OF en] by (simp add: Sends OnMessage_def en Let_def seen)
  next
    case (Misbehaves j v)
    obtain ps s' where en: "ensurePeer ord now j s = (ps, s')" by (metis surj_pair)
    show ?thesis using ens [OF en] put [OF en] by (simp add: Misbehaves Penalize_def en Let_def)
  next
    case (Sampled j d)
    obtain ps s' where en: "ensurePeer ord now j s = (ps, s')" by (metis surj_pair)
    have "length (pp_peers (putPeer j x (markSeen j now s'))) = length (pp_peers s')" for x using put [OF en] by (simp add: markSeen_def putPeer_def)
    then show ?thesis using ens [OF en] put [OF en] by (simp add: Sampled RecordLatencySample_def en Let_def)
  qed (auto simp: OnDisconnect_def TouchPeer_def applyDecay_def checkLiveness_def ResetPeersSeen_def markSeen_def putPeer_def
      length_update Let_def split: option.splits)
qed

text \<open>
  Decay never makes a score worse in either direction: given that a power of a factor between zero and one lies between
  zero and one, the score keeps its sign and does not grow in size, and a peer leaves quarantine only after its time.
\<close>

theorem decay_shrinks_score:
  assumes "\<And>b e. 0 < b \<Longrightarrow> b < 1 \<Longrightarrow> 0 < e \<Longrightarrow> 0 < pow b e \<and> pow b e \<le> 1" and "0 < pp_decayFactor s" and "pp_decayFactor s < 1"
    and "map_of (pp_peers s) i = Some ps" and "map_of (pp_peers (applyDecay pow now s)) i = Some ps'"
  shows "\<bar>px_Score ps'\<bar> \<le> \<bar>px_Score ps\<bar> \<and> sgn (px_Score ps') = sgn (px_Score ps)
    \<and> (px_Quarantined ps \<and> \<not> px_Quarantined ps' \<longrightarrow> pp_quarantineTTL s \<le> now - px_QuarantineAt ps)"
proof -
  have ps': "ps' = decayPeer pow s now ps" using assms(4,5) by (simp add: applyDecay_def map_of_map)
  have shrink: "\<bar>px_Score ps * p\<bar> \<le> \<bar>px_Score ps\<bar>" "sgn (px_Score ps * p) = sgn (px_Score ps)" if "0 < p" "p \<le> 1" for p
    using that by (simp_all add: abs_mult mult_left_le sgn_mult)
  have pow: "0 < pow (pp_decayFactor s) e \<and> pow (pp_decayFactor s) e \<le> 1" if "0 < e" for e using assms(1-3) that by blast
  show ?thesis
  proof (cases "now - px_LastDecay ps < pp_decayInterval s")
    case False
    let ?e = "of_int (now - px_LastDecay ps) / of_int (pp_decayInterval s) :: rat"
    show ?thesis using False pow [of ?e] shrink [of "pow (pp_decayFactor s) ?e"]
      by (auto simp: ps' decayPeer_def Let_def)
  qed (simp add: ps' decayPeer_def)
qed

subsection \<open>Runs\<close>

definition ex_peer :: "rat \<Rightarrow> bool \<Rightarrow> peerEntry" where
  "ex_peer sc q = (newPeer 0)\<lparr>px_Score := sc, px_Quarantined := q, px_QuarantineAt := 0\<rparr>"

definition ex_table :: "bool \<Rightarrow> p2pState" where
  "ex_table q = (NewP2PState 20 30 (98 / 100) 300 (- 5) 2 0)\<lparr>pp_peers := [(''a'', ex_peer (- 3) q), (''b'', ex_peer 1 False)]\<rparr>"

lemma ex_table_wf: "gm_wf (pp_peers (ex_table q))"
  by (simp add: ex_table_def gm_wf_def)

theorem quarantine_lasts_witness:
  "IsQuarantined 299 ''a'' (fold (runPeerOp rev (\<lambda>b e. b)) [(5, Connects ''c'' None), (10, Sends ''a'' 7), (200, DecayTick)] (ex_table True))"
  by (rule quarantine_lasts [OF iter_order_rev ex_table_wf, where q = 0 and ps = "ex_peer (- 3) True"])
    (simp_all add: ex_table_def NewP2PState_def ex_peer_def)


theorem peer_table_bounded_witness:
  "int (length (pp_peers (runPeerOp rev (\<lambda>b e. b) (5, Connects ''c'' None) (ex_table True)))) \<le> 2"
proof -
  have "(''b'', ex_peer 1 False) \<in> freeIn (ex_table True) 5 (pp_peers (ex_table True))"
    by (simp add: freeIn_def ex_table_def isQuarantinedLocked_def ex_peer_def)
  then have "freeIn (ex_table True) 5 (pp_peers (ex_table True)) \<noteq> {}" by auto
  from peer_table_bounded [OF iter_order_rev ex_table_wf this, of "\<lambda>b e. b" "Connects ''c'' None"]
  show ?thesis by (simp add: ex_table_def NewP2PState_def)
qed

theorem decay_shrinks_score_witness:
  "\<exists>ps'. map_of (pp_peers (applyDecay (\<lambda>b e. b) 60 (ex_table False))) ''a'' = Some ps' \<and> \<bar>px_Score ps'\<bar> \<le> 3 \<and> sgn (px_Score ps') = - 1"
proof -
  have get: "map_of (pp_peers (ex_table False)) ''a'' = Some (ex_peer (- 3) False)" by (simp add: ex_table_def)
  then obtain ps' where ps': "map_of (pp_peers (applyDecay (\<lambda>b e. b) 60 (ex_table False))) ''a'' = Some ps'"
    by (simp add: applyDecay_def map_of_map)
  have "0 < pp_decayFactor (ex_table False)" "pp_decayFactor (ex_table False) < 1"
    by (simp_all add: ex_table_def NewP2PState_def clampTo_def)
  from decay_shrinks_score [OF _ this get ps'] show ?thesis using ps' by (simp add: ex_peer_def)
qed

end
