(* ===== verification/ReplayFilter.thy ===== *)
theory ReplayFilter
  imports Block
begin

text \<open>
  The replay filter of a validator, \<^verbatim>\<open>backend/pkg/wiring/replay_filter.go\<close> and \<^verbatim>\<open>replay_refresh.go\<close>: the identities
  of committed transactions, kept for some time, so that a transaction is neither admitted nor proposed again.
  The committed transactions are read back from the database after a start.

  The order of \<^verbatim>\<open>range\<close> over the map is the argument \<open>ord\<close>; what the database answers is a \<open>replayDB\<close>, an argument.
  Heights stay below the largest 64-bit number, where the loop over them would not end. Every operation is atomic under the filter's mutex.
\<close>

subsection \<open>Identities\<close>

definition txIdentityHash :: "sha \<Rightarrow> transaction \<Rightarrow> hash32 option" where
  "txIdentityHash sha256 tx =
     (let e = tx_Envelope tx in
      case BuildSignBytes (tx_Domain tx) (tx_Timestamp tx) (env_ProducerID e) (env_Nonce e) (env_ContentHash e) of
        Inl _ \<Rightarrow> None
      | Inr b \<Rightarrow> Some (sha256 b))"

record replayFilter =
  rf_enabled :: bool
  rf_ttl :: duration
  rf_max :: int
  rf_committed :: "(hash32, instant) gomap"
  rf_evictions :: u64
  rf_rejectedAdmit :: u64
  rf_rejectedBuild :: u64
  rf_refreshNext :: u64
  rf_heightWindow :: u64
  rf_maxHeightsTick :: int
  rf_refreshEnabled :: bool
  rf_leaderOnly :: bool
  rf_proposerOnly :: bool

type_synonym committedOrder = "(hash32, instant) gomap \<Rightarrow> (hash32, instant) gomap"

subsection \<open>Remembering\<close>

definition pruneReplayFilterExpired :: "instant \<Rightarrow> replayFilter \<Rightarrow> replayFilter" where
  "pruneReplayFilterExpired now f = f\<lparr>rf_committed := filter (\<lambda>(h, expiry). \<not> now > expiry) (rf_committed f)\<rparr>"

definition olderEntry :: "hash32 \<times> instant \<Rightarrow> (hash32 \<times> instant) option \<Rightarrow> (hash32 \<times> instant) option" where
  "olderEntry e oldest = (case oldest of None \<Rightarrow> Some e | Some (h, t) \<Rightarrow> if snd e < t then Some e else oldest)"

definition evictOldest :: "committedOrder \<Rightarrow> replayFilter \<Rightarrow> replayFilter" where
  "evictOldest ord f =
     (case fold olderEntry (ord (rf_committed f)) None of
        None \<Rightarrow> f
      | Some (h, _) \<Rightarrow> f\<lparr>rf_committed := AList.delete h (rf_committed f), rf_evictions := rf_evictions f + 1\<rparr>)"

definition rememberCommittedTxHash :: "committedOrder \<Rightarrow> hash32 \<Rightarrow> instant \<Rightarrow> replayFilter \<Rightarrow> replayFilter" where
  "rememberCommittedTxHash ord h now f =
     (if \<not> rf_enabled f then f
      else
        let f = pruneReplayFilterExpired now f;
            f = (if rf_max f > 0 \<and> int (length (rf_committed f)) \<ge> rf_max f then evictOldest ord f else f) in
        f\<lparr>rf_committed := AList.update h (now + rf_ttl f) (rf_committed f)\<rparr>)"

definition rememberCommittedTransactions :: "sha \<Rightarrow> committedOrder \<Rightarrow> appBlock \<Rightarrow> instant \<Rightarrow> replayFilter \<Rightarrow> replayFilter" where
  "rememberCommittedTransactions sha256 ord b now f =
     (if \<not> rf_enabled f then f
      else fold (\<lambda>tx f. case txIdentityHash sha256 tx of None \<Rightarrow> f | Some h \<Rightarrow> rememberCommittedTxHash ord h now f) (ab_txs b) f)"

subsection \<open>Asking\<close>

definition isCommittedTxHash :: "hash32 \<Rightarrow> instant \<Rightarrow> replayFilter \<Rightarrow> bool \<times> replayFilter" where
  "isCommittedTxHash h now f =
     (if \<not> rf_enabled f then (False, f)
      else case map_of (rf_committed f) h of
             None \<Rightarrow> (False, f)
           | Some expiry \<Rightarrow>
               if \<not> now > expiry then (True, f)
               else (False, f\<lparr>rf_committed := AList.delete h (rf_committed f)\<rparr>))"

definition shouldRejectReplayOnAdmit :: "sha \<Rightarrow> transaction \<Rightarrow> instant \<Rightarrow> replayFilter \<Rightarrow> bool \<times> replayFilter" where
  "shouldRejectReplayOnAdmit sha256 tx now f =
     (if \<not> rf_enabled f then (False, f)
      else case txIdentityHash sha256 tx of
             None \<Rightarrow> (False, f)
           | Some h \<Rightarrow>
               (case isCommittedTxHash h now f of
                  (True, f) \<Rightarrow> (True, f\<lparr>rf_rejectedAdmit := rf_rejectedAdmit f + 1\<rparr>)
                | (False, f) \<Rightarrow> (False, f)))"

definition replayFilterSize :: "instant \<Rightarrow> replayFilter \<Rightarrow> nat \<times> replayFilter" where
  "replayFilterSize now f =
     (if \<not> rf_enabled f then (0, f)
      else let f = pruneReplayFilterExpired now f in (length (rf_committed f), f))"

fun filterTxs :: "sha \<Rightarrow> instant \<Rightarrow> transaction list \<Rightarrow> replayFilter \<Rightarrow> transaction list \<times> nat \<times> replayFilter" where
  "filterTxs sha256 now [] f = ([], 0, f)"
| "filterTxs sha256 now (tx # txs) f =
     (let (known, f) = (case txIdentityHash sha256 tx of None \<Rightarrow> (False, f) | Some h \<Rightarrow> isCommittedTxHash h now f);
          (kept, rejected, f) = filterTxs sha256 now txs f in
      if known then (kept, rejected + 1, f) else (tx # kept, rejected, f))"

definition computeTxRootFromTransactions :: "sha \<Rightarrow> transaction list \<Rightarrow> hash32" where
  "computeTxRootFromTransactions sha256 txs =
     (if txs = [] then sha256 []
      else BuildRoot sha256 (map (\<lambda>tx. (be_bytes 32 (env_ContentHash (tx_Envelope tx)), [])) txs))"

definition filterCommittedTxFromBlock :: "sha \<Rightarrow> appBlock \<Rightarrow> instant \<Rightarrow> replayFilter \<Rightarrow> (appBlock \<times> nat) \<times> replayFilter" where
  "filterCommittedTxFromBlock sha256 b now f =
     (if \<not> rf_enabled f \<or> ab_txs b = [] then ((b, 0), f)
      else case filterTxs sha256 now (ab_txs b) f of
             (kept, rejected, f) \<Rightarrow>
               if rejected = 0 then ((b, 0), f)
               else ((NewAppBlock sha256 (ab_height b) (ab_parentHash b) (computeTxRootFromTransactions sha256 kept)
                        (ab_stateRootHint b) (ab_proposerID b) (ab_timestamp b) kept, rejected),
                     f\<lparr>rf_rejectedBuild := rf_rejectedBuild f + of_nat rejected\<rparr>))"

subsection \<open>Refreshing from the database\<close>

text \<open>The heights one refresh reads, and where the next one starts.\<close>

definition refreshRange :: "u64 \<Rightarrow> replayFilter \<Rightarrow> u64 \<times> u64 \<times> u64" where
  "refreshRange latest f =
     (let windowStart = (if latest > rf_heightWindow f then latest - rf_heightWindow f + 1 else 1);
          start = (if rf_refreshNext f < windowStart \<or> rf_refreshNext f > latest then windowStart else rf_refreshNext f);
          span = of_int (if rf_maxHeightsTick f \<le> 0 then 32 else rf_maxHeightsTick f);
          stop = (if start + span - 1 < latest then start + span - 1 else latest) in
      (windowStart, start, stop))"

text \<open>A failed read is a deadline that passed or another error. The database is the worker's adapter, if it has one.\<close>

datatype refreshError = DeadlineExceeded | ReadFailed

record replayDB =
  db_latestHeight :: "refreshError + u64"
  db_listTxs :: "u64 \<Rightarrow> refreshError + bytes list"

definition rememberListed :: "committedOrder \<Rightarrow> instant \<Rightarrow> bytes \<Rightarrow> replayFilter \<Rightarrow> replayFilter" where
  "rememberListed ord now txHash f = (if length txHash \<noteq> 32 then f else rememberCommittedTxHash ord (word_rcat txHash) now f)"

fun refreshHeights :: "committedOrder \<Rightarrow> (u64 \<Rightarrow> refreshError + bytes list) \<Rightarrow> instant \<Rightarrow> u64 list \<Rightarrow> replayFilter \<Rightarrow> refreshError option \<times> replayFilter" where
  "refreshHeights ord listTxs now [] f = (None, f)"
| "refreshHeights ord listTxs now (h # hs) f =
     (case listTxs h of
        Inl err \<Rightarrow> (Some err, f)
      | Inr txs \<Rightarrow> refreshHeights ord listTxs now hs (fold (rememberListed ord now) txs f))"

definition refreshReplayFilterFromDBWithOptions ::
    "committedOrder \<Rightarrow> bool option \<Rightarrow> replayDB option \<Rightarrow> instant \<Rightarrow> bool \<Rightarrow> replayFilter \<Rightarrow> refreshError option \<times> replayFilter" where
  "refreshReplayFilterFromDBWithOptions ord isLeader adapter now bypassLeaderGate f =
     (if \<not> rf_enabled f \<or> \<not> rf_refreshEnabled f then (None, f)
      else if \<not> bypassLeaderGate \<and> rf_leaderOnly f \<and> rf_proposerOnly f \<and> isLeader = Some False then (None, f)
      else case adapter of
             None \<Rightarrow> (None, f)
           | Some db \<Rightarrow>
               (case db_latestHeight db of
                  Inl err \<Rightarrow> (Some err, f)
                | Inr latest \<Rightarrow>
                    if latest = 0 then (None, f)
                    else case refreshRange latest f of
                      (windowStart, start, stop) \<Rightarrow>
                        (case refreshHeights ord (db_listTxs db) now (map of_nat [unat start..<unat stop + 1]) (f\<lparr>rf_refreshNext := start\<rparr>) of
                           (Some err, f) \<Rightarrow> (Some err, f)
                         | (None, f) \<Rightarrow> (None, f\<lparr>rf_refreshNext := (if stop \<ge> latest then windowStart else stop + 1)\<rparr>))))"

definition bootstrapReplayFilterFromDB ::
    "committedOrder \<Rightarrow> bool option \<Rightarrow> replayDB option \<Rightarrow> instant \<Rightarrow> replayFilter \<Rightarrow> refreshError option \<times> replayFilter" where
  "bootstrapReplayFilterFromDB ord isLeader adapter now f = refreshReplayFilterFromDBWithOptions ord isLeader adapter now True f"

definition maxBackgroundProbeCooldown :: duration where
  "maxBackgroundProbeCooldown = 60 * second"

fun doubleCooldown :: "nat \<Rightarrow> duration \<Rightarrow> duration" where
  "doubleCooldown 0 c = (if c > maxBackgroundProbeCooldown then maxBackgroundProbeCooldown else c)"
| "doubleCooldown (Suc n) c = (if c \<ge> go_div maxBackgroundProbeCooldown 2 then maxBackgroundProbeCooldown else doubleCooldown n (c * 2))"

definition nextBackgroundProbeCooldown :: "int \<Rightarrow> duration \<Rightarrow> duration" where
  "nextBackgroundProbeCooldown streak base =
     (if streak \<le> 0 then 0 else doubleCooldown (nat (streak - 1)) (if base \<le> 0 then 2 * second else base))"

text \<open>One tick of the refresh loop: timeouts in a row and the instant before which no refresh is tried.\<close>

record refreshLoop =
  rl_timeoutStreak :: int
  rl_cooldownUntil :: "instant option"
  rl_interval :: duration

definition refreshTick ::
    "committedOrder \<Rightarrow> bool option \<Rightarrow> replayDB option \<Rightarrow> instant \<Rightarrow> refreshLoop \<times> replayFilter \<Rightarrow> refreshLoop \<times> replayFilter" where
  "refreshTick ord isLeader adapter now = (\<lambda>(l, f).
     if (case rl_cooldownUntil l of None \<Rightarrow> False | Some until \<Rightarrow> now < until) then (l, f)
     else case refreshReplayFilterFromDBWithOptions ord isLeader adapter now False f of
            (Some DeadlineExceeded, f) \<Rightarrow>
              (let streak = rl_timeoutStreak l + 1 in
               (l\<lparr>rl_timeoutStreak := streak, rl_cooldownUntil := Some (now + nextBackgroundProbeCooldown streak (rl_interval l))\<rparr>, f))
          | (_, f) \<Rightarrow> (l\<lparr>rl_timeoutStreak := 0, rl_cooldownUntil := None\<rparr>, f))"

text \<open>What happens to the filter: a block is committed, a transaction asks for admission, a proposal is filtered, the size is
  read, the database is read.\<close>

datatype replayOp =
    CommitBlock appBlock instant
  | AdmitTx transaction instant
  | Propose appBlock instant
  | ReadSize instant
  | SyncDB "bool option" "replayDB option" instant bool

fun runReplayOp :: "sha \<Rightarrow> committedOrder \<Rightarrow> replayOp \<Rightarrow> replayFilter \<Rightarrow> replayFilter" where
  "runReplayOp sha256 ord (CommitBlock b now) f = rememberCommittedTransactions sha256 ord b now f"
| "runReplayOp sha256 ord (AdmitTx tx now) f = snd (shouldRejectReplayOnAdmit sha256 tx now f)"
| "runReplayOp sha256 ord (Propose b now) f = snd (filterCommittedTxFromBlock sha256 b now f)"
| "runReplayOp sha256 ord (ReadSize now) f = snd (replayFilterSize now f)"
| "runReplayOp sha256 ord (SyncDB isLeader adapter now bypass) f =
     snd (refreshReplayFilterFromDBWithOptions ord isLeader adapter now bypass f)"


subsection \<open>What the filter keeps\<close>

lemma oldest_spec:
  "case fold olderEntry es old of
     None \<Rightarrow> old = None \<and> es = []
   | Some e \<Rightarrow> (old = Some e \<or> e \<in> set es) \<and> (\<forall>x \<in> set es. snd e \<le> snd x) \<and> (\<forall>o'. old = Some o' \<longrightarrow> snd e \<le> snd o')"
proof (induction es arbitrary: old)
  case (Cons x es)
  show ?case
  proof (cases old)
    case None
    then show ?thesis using Cons [of "Some x"] by (auto simp: olderEntry_def split: option.splits)
  next
    case (Some y)
    show ?thesis
    proof (cases "snd x < snd y")
      case True
      then have "olderEntry x old = Some x" using Some by (cases y) (simp add: olderEntry_def)
      then show ?thesis using Cons [of "Some x"] Some True by (auto split: option.splits)
    next
      case False
      then have "olderEntry x old = Some y" using Some by (cases y) (simp add: olderEntry_def)
      then show ?thesis using Cons [of "Some y"] Some False by (auto split: option.splits)
    qed
  qed
qed (simp split: option.split)

lemma evict_oldest:
  assumes "iter_order ord" and "rf_committed f \<noteq> []"
  obtains k e where "(k, e) \<in> set (rf_committed f)" and "\<forall>(h, x) \<in> set (rf_committed f). e \<le> x"
    and "evictOldest ord f = f\<lparr>rf_committed := AList.delete k (rf_committed f), rf_evictions := rf_evictions f + 1\<rparr>"
proof -
  have "ord (rf_committed f) \<noteq> []" using assms iter_order_length [OF assms(1)] by (metis length_0_conv)
  then obtain k e where "fold olderEntry (ord (rf_committed f)) None = Some (k, e)"
    using oldest_spec [where es = "ord (rf_committed f)" and old = None] by (auto split: option.splits)
  moreover from this have "(k, e) \<in> set (rf_committed f)" "\<forall>(h, x) \<in> set (rf_committed f). e \<le> x"
    using oldest_spec [where es = "ord (rf_committed f)" and old = None] assms(1) by (auto simp: iter_order_set)
  ultimately show ?thesis using that by (simp add: evictOldest_def)
qed

text \<open>The filter once expired entries are gone and, at the limit, the oldest one is as well.\<close>

definition roomFor :: "committedOrder \<Rightarrow> instant \<Rightarrow> replayFilter \<Rightarrow> replayFilter" where
  "roomFor ord now f =
     (let f = pruneReplayFilterExpired now f in
      if rf_max f > 0 \<and> int (length (rf_committed f)) \<ge> rf_max f then evictOldest ord f else f)"

lemma remember_eq:
  "rf_enabled f \<Longrightarrow> rememberCommittedTxHash ord k now f =
     (roomFor ord now f)\<lparr>rf_committed := AList.update k (now + rf_ttl f) (rf_committed (roomFor ord now f))\<rparr>"
  by (simp add: rememberCommittedTxHash_def roomFor_def Let_def evictOldest_def pruneReplayFilterExpired_def split: option.split)

lemma roomFor_cases:
  assumes "iter_order ord"
  shows "rf_committed (roomFor ord now f) = filter (\<lambda>(h, e). \<not> now > e) (rf_committed f)
      \<and> (rf_max f > 0 \<longrightarrow> int (length (rf_committed (roomFor ord now f))) < rf_max f)
    \<or> (\<exists>k e. rf_max f > 0 \<and> (k, e) \<in> set (rf_committed f) \<and> \<not> now > e
        \<and> (\<forall>(h, x) \<in> set (rf_committed f). \<not> now > x \<longrightarrow> e \<le> x)
        \<and> rf_max f \<le> int (length (filter (\<lambda>(h, e). \<not> now > e) (rf_committed f)))
        \<and> rf_committed (roomFor ord now f) = AList.delete k (filter (\<lambda>(h, e). \<not> now > e) (rf_committed f)))"
proof -
  let ?f = "pruneReplayFilterExpired now f"
  have c: "rf_committed ?f = filter (\<lambda>(h, e). \<not> now > e) (rf_committed f)" and m: "rf_max ?f = rf_max f"
    by (simp_all add: pruneReplayFilterExpired_def)
  show ?thesis
  proof (cases "rf_max f > 0 \<and> int (length (rf_committed ?f)) \<ge> rf_max f")
    case True
    then have "rf_committed ?f \<noteq> []" by auto
    then obtain k e where "(k, e) \<in> set (rf_committed ?f)" "\<forall>(h, x) \<in> set (rf_committed ?f). e \<le> x"
      "evictOldest ord ?f = ?f\<lparr>rf_committed := AList.delete k (rf_committed ?f), rf_evictions := rf_evictions ?f + 1\<rparr>"
      by (rule evict_oldest [OF assms])
    then show ?thesis using True by (intro disjI2 exI [of _ k] exI [of _ e]) (auto simp: roomFor_def Let_def c m)
  next
    case False
    then show ?thesis by (auto simp: roomFor_def Let_def c m)
  qed
qed

lemma roomFor_wf:
  assumes "iter_order ord" and "gm_wf (rf_committed f)"
  shows "gm_wf (rf_committed (roomFor ord now f))"
  using roomFor_cases [OF assms(1), of now f] assms(2) by auto

lemma remember_frame [simp]:
  "rf_enabled (rememberCommittedTxHash ord k now f) = rf_enabled f" "rf_ttl (rememberCommittedTxHash ord k now f) = rf_ttl f"
  "rf_max (rememberCommittedTxHash ord k now f) = rf_max f"
  by (auto simp: rememberCommittedTxHash_def evictOldest_def pruneReplayFilterExpired_def Let_def split: option.split)

lemma remember_wf:
  assumes "iter_order ord" and "gm_wf (rf_committed f)"
  shows "gm_wf (rf_committed (rememberCommittedTxHash ord k now f))"
  using roomFor_wf [OF assms] assms(2) by (cases "rf_enabled f") (simp_all add: remember_eq, simp add: rememberCommittedTxHash_def)

lemma remember_bound:
  assumes "iter_order ord" and "gm_wf (rf_committed f)" and "0 < rf_max f" and "int (length (rf_committed f)) \<le> rf_max f"
  shows "int (length (rf_committed (rememberCommittedTxHash ord k now f))) \<le> rf_max f"
proof (cases "rf_enabled f")
  case True
  let ?c = "filter (\<lambda>(h, e). \<not> now > e) (rf_committed f)"
  have "int (length (rf_committed (roomFor ord now f))) < rf_max f"
    using roomFor_cases [OF assms(1), of now f]
  proof (elim disjE conjE exE)
    fix j e assume j: "(j, e) \<in> set (rf_committed f)" "\<not> now > e" "rf_committed (roomFor ord now f) = AList.delete j ?c"
    have "map_of ?c j = Some e" using j(1,2) assms(2) by (simp add: gm_mem_iff [symmetric] gm_wf_filter)
    then have "length (AList.delete j ?c) < length ?c" by (rule delete_shorter)
    then have "length (AList.delete j ?c) < length (rf_committed f)" using length_filter_le [of "\<lambda>(h, e). \<not> now > e" "rf_committed f"] by linarith
    then show ?thesis using j(3) assms(4) by simp
  qed (use assms(3) in simp)
  then show ?thesis using True by (simp add: remember_eq length_update)
qed (simp add: rememberCommittedTxHash_def assms(4))

text \<open>The other entries that expire no earlier than \<open>x\<close>: only they can push an entry out that lasts until \<open>x\<close>.\<close>

definition rivals :: "instant \<Rightarrow> hash32 \<Rightarrow> replayFilter \<Rightarrow> nat" where
  "rivals x h f = length (filter (\<lambda>(k, e). k \<noteq> h \<and> x \<le> e) (rf_committed f))"

lemma filter_update_le: "length (filter P (AList.update k v m)) \<le> Suc (length (filter P m))"
  by (induction m) auto

lemma length_filter_filter: "length (filter P (filter Q xs)) \<le> length (filter P xs)"
  by (induction xs) auto

lemma filter_delete_le: "length (filter P (AList.delete k m)) \<le> length (filter P m)"
  unfolding AList.delete_eq by (rule length_filter_filter)

lemma rivals_step:
  assumes "iter_order ord"
  shows "rivals x h (rememberCommittedTxHash ord k now f) \<le> Suc (rivals x h f)"
proof (cases "rf_enabled f")
  case True
  let ?P = "\<lambda>(k, e). k \<noteq> h \<and> x \<le> e"
  have "length (filter ?P (rf_committed (roomFor ord now f))) \<le> length (filter ?P (rf_committed f))"
    using roomFor_cases [OF assms, of now f]
  proof (elim disjE conjE exE)
    fix j e assume eq: "rf_committed (roomFor ord now f) = AList.delete j (filter (\<lambda>(h, e). \<not> now > e) (rf_committed f))"
    have "length (filter ?P (filter (\<lambda>(h, e). \<not> now > e) (rf_committed f))) \<le> length (filter ?P (rf_committed f))"
      by (rule length_filter_filter)
    with filter_delete_le [of ?P j "filter (\<lambda>(h, e). \<not> now > e) (rf_committed f)"] show ?thesis unfolding eq by (rule order_trans)
  qed (simp add: length_filter_filter del: filter_filter)
  then show ?thesis using True filter_update_le [of ?P k "now + rf_ttl f" "rf_committed (roomFor ord now f)"]
    by (simp add: rivals_def remember_eq)
qed (simp add: rememberCommittedTxHash_def)

definition lasting :: "instant \<Rightarrow> hash32 \<Rightarrow> replayFilter \<Rightarrow> bool" where
  "lasting x h f \<longleftrightarrow> (\<exists>e. map_of (rf_committed f) h = Some e \<and> x \<le> e)"

lemma remember_lasting:
  assumes "iter_order ord" and "gm_wf (rf_committed f)" and "lasting x h f" and "now \<le> x" and "x \<le> now + rf_ttl f"
    and "rf_max f \<le> 0 \<or> int (rivals x h f) + 1 < rf_max f"
  shows "lasting x h (rememberCommittedTxHash ord k now f)"
proof (cases "rf_enabled f")
  case True
  obtain e where e: "map_of (rf_committed f) h = Some e" "x \<le> e" using assms(3) by (auto simp: lasting_def)
  let ?c = "filter (\<lambda>(h, e). \<not> now > e) (rf_committed f)"
  have wf: "gm_wf ?c" by (rule gm_wf_filter [OF assms(2)])
  have mem: "(h, e) \<in> set (rf_committed f)" using e(1) by (rule map_of_SomeD)
  have kept: "map_of ?c h = Some e" using mem e(2) assms(4) wf by (simp add: gm_mem_iff [symmetric])
  have "map_of (rf_committed (roomFor ord now f)) h = Some e"
    using roomFor_cases [OF assms(1), of now f]
  proof (elim disjE conjE exE)
    fix j t assume j: "0 < rf_max f" "(j, t) \<in> set (rf_committed f)" "\<forall>(h, x) \<in> set (rf_committed f). \<not> now > x \<longrightarrow> t \<le> x"
      "rf_max f \<le> int (length ?c)" "rf_committed (roomFor ord now f) = AList.delete j ?c"
    have "j \<noteq> h"
    proof
      assume "j = h"
      then have "t = e" using j(2) mem assms(2) by (simp add: gm_mem_iff)
      then have "\<forall>(k, y) \<in> set (AList.delete h ?c). k \<noteq> h \<and> x \<le> y" using j(3) e(2) by (auto simp: AList.delete_eq)
      then have "length (AList.delete h ?c) = length (filter (\<lambda>(k, y). k \<noteq> h \<and> x \<le> y) (AList.delete h ?c))"
        by (simp only: filter_True)
      also have "\<dots> \<le> length (filter (\<lambda>(k, y). k \<noteq> h \<and> x \<le> y) ?c)" by (rule filter_delete_le)
      also have "\<dots> \<le> rivals x h f" unfolding rivals_def by (rule length_filter_filter)
      finally have "length ?c - 1 \<le> rivals x h f" using kept wf by (simp add: length_delete gm_wf_def)
      then show False using assms(6) j(1,4) by linarith
    qed
    then show ?thesis using j(5) kept by (simp add: delete_conv')
  qed (use kept in simp)
  then show ?thesis using True e(2) assms(5) by (auto simp: lasting_def remember_eq update_conv')
qed (use assms(3) in \<open>simp add: rememberCommittedTxHash_def\<close>)

text \<open>A sequence of commits, each a hash and the time it is remembered.\<close>

definition rememberAll :: "committedOrder \<Rightarrow> (hash32 \<times> instant) list \<Rightarrow> replayFilter \<Rightarrow> replayFilter" where
  "rememberAll ord ks f = fold (\<lambda>(k, t). rememberCommittedTxHash ord k t) ks f"

lemma rememberAll_simps [simp]:
  "rememberAll ord [] f = f" "rememberAll ord ((k, t) # ks) f = rememberAll ord ks (rememberCommittedTxHash ord k t f)"
  "rememberAll ord (ks @ js) f = rememberAll ord js (rememberAll ord ks f)"
  by (simp_all add: rememberAll_def)

lemma rememberAll_frame [simp]:
  "rf_enabled (rememberAll ord ks f) = rf_enabled f" "rf_ttl (rememberAll ord ks f) = rf_ttl f" "rf_max (rememberAll ord ks f) = rf_max f"
  by (induction ks arbitrary: f) auto

lemma rememberAll_wf: "iter_order ord \<Longrightarrow> gm_wf (rf_committed f) \<Longrightarrow> gm_wf (rf_committed (rememberAll ord ks f))"
  by (induction ks arbitrary: f) (auto simp: remember_wf)

lemma rememberAll_rivals: "iter_order ord \<Longrightarrow> rivals x h (rememberAll ord ks f) \<le> rivals x h f + length ks"
proof (induction ks arbitrary: f)
  case (Cons e ks)
  obtain k t where e: "e = (k, t)" by (cases e)
  show ?case using Cons.IH [OF Cons.prems, of "rememberCommittedTxHash ord k t f"] rivals_step [OF Cons.prems, of x h k t f] by (simp add: e)
qed simp

lemma rememberAll_lasting:
  assumes "iter_order ord" and "gm_wf (rf_committed f)" and "lasting x h f"
    and "\<forall>(k, t) \<in> set ks. t \<le> x \<and> x \<le> t + rf_ttl f" and "rf_max f \<le> 0 \<or> int (rivals x h f + length ks) < rf_max f"
  shows "lasting x h (rememberAll ord ks f)"
  using assms(2-)
proof (induction ks arbitrary: f)
  case (Cons e ks)
  obtain k t where e: "e = (k, t)" by (cases e)
  let ?f = "rememberCommittedTxHash ord k t f"
  have "lasting x h ?f" using remember_lasting [OF assms(1) Cons.prems(1,2), of t k] Cons.prems(3,4) by (auto simp: e)
  moreover have "rf_max ?f \<le> 0 \<or> int (rivals x h ?f + length ks) < rf_max ?f"
    using rivals_step [OF assms(1), of x h k t f] Cons.prems(4) by (auto simp: e)
  ultimately show ?case
    using Cons.IH [OF remember_wf [OF assms(1) Cons.prems(1)]] Cons.prems(3) by (auto simp: e)
qed simp

subsection \<open>Committed transactions do not come back\<close>

definition knownTx :: "sha \<Rightarrow> instant \<Rightarrow> replayFilter \<Rightarrow> transaction \<Rightarrow> bool" where
  "knownTx sha256 now f tx = (case txIdentityHash sha256 tx of None \<Rightarrow> False | Some h \<Rightarrow> fst (isCommittedTxHash h now f))"

lemma isCommitted_iff: "fst (isCommittedTxHash h now f) \<longleftrightarrow> rf_enabled f \<and> lasting now h f"
  by (auto simp: isCommittedTxHash_def lasting_def split: option.split)

lemma ask_keeps: "fst (isCommittedTxHash k now (snd (isCommittedTxHash h now f))) = fst (isCommittedTxHash k now f)"
  unfolding isCommitted_iff
  by (cases "k = h") (auto simp: isCommittedTxHash_def lasting_def delete_conv' split: option.split)

lemma filterTxs_spec:
  "filterTxs sha256 now txs f = (kept, rejected, f')
    \<Longrightarrow> kept = filter (\<lambda>tx. \<not> knownTx sha256 now f tx) txs \<and> rejected = length txs - length kept"
proof (induction txs arbitrary: f kept rejected f')
  case (Cons tx txs)
  define r where "r = (case txIdentityHash sha256 tx of None \<Rightarrow> (False, f) | Some h \<Rightarrow> isCommittedTxHash h now f)"
  have known: "fst r = knownTx sha256 now f tx" by (simp add: r_def knownTx_def split: option.split)
  have same: "knownTx sha256 now (snd r) = knownTx sha256 now f"
    by (rule ext) (simp add: r_def knownTx_def ask_keeps split: option.split)
  obtain ks n g where rest: "filterTxs sha256 now txs (snd r) = (ks, n, g)" by (metis prod_cases3)
  have ih: "ks = filter (\<lambda>tx. \<not> knownTx sha256 now f tx) txs" "n = length txs - length ks"
    using Cons.IH [OF rest] by (simp_all add: same)
  have le: "length ks \<le> length txs" unfolding ih(1) by (rule length_filter_le)
  have "filterTxs sha256 now (tx # txs) f = (if fst r then (ks, n + 1, g) else (tx # ks, n, g))"
    using rest by (simp add: r_def [symmetric] case_prod_unfold Let_def)
  then show ?case using Cons.prems ih le known by (auto simp: Suc_diff_le split: if_splits)
qed simp

lemma filter_all_kept: "0 = length xs - length (filter P xs) \<Longrightarrow> filter P xs = xs"
  by (metis diff_is_0_eq filter_id_conv leD length_filter_less)

text \<open>
  C39. Filtering a proposal is the plain filter: the block that comes back has the transactions of the block that are not known
  to be committed, in their order, with the transaction root the builder computes for them, and is the block itself when all of them are new.
\<close>

theorem proposal_filter_exact:
  assumes "rf_enabled f" and "filterCommittedTxFromBlock sha256 b now f = ((b', n), f')"
  shows "(let kept = filter (\<lambda>tx. \<not> knownTx sha256 now f tx) (ab_txs b) in
     n = length (ab_txs b) - length kept
     \<and> b' = (if kept = ab_txs b then b
        else NewAppBlock sha256 (ab_height b) (ab_parentHash b) (computeTxRoot sha256 kept) (ab_stateRootHint b) (ab_proposerID b) (ab_timestamp b) kept))"
proof -
  obtain ks m g where run: "filterTxs sha256 now (ab_txs b) f = (ks, m, g)" by (metis prod_cases3)
  have spec: "ks = filter (\<lambda>tx. \<not> knownTx sha256 now f tx) (ab_txs b)" "m = length (ab_txs b) - length ks"
    using filterTxs_spec [OF run] by simp_all
  have root: "computeTxRootFromTransactions sha256 txs = computeTxRoot sha256 txs" for txs
    by (simp add: computeTxRootFromTransactions_def computeTxRoot_def contentKey_def [abs_def])
  have same: "ks = ab_txs b \<longleftrightarrow> m = 0"
    using filter_all_kept [of "ab_txs b" "\<lambda>tx. \<not> knownTx sha256 now f tx"] spec by auto
  show ?thesis
    using assms run same spec by (auto simp: filterCommittedTxFromBlock_def Let_def root split: if_splits)
qed

lemma remember_block:
  "rf_enabled f \<Longrightarrow> rememberCommittedTransactions sha256 ord b t f
    = rememberAll ord (map (\<lambda>h. (h, t)) (List.map_filter (txIdentityHash sha256) (ab_txs b))) f"
proof -
  have "fold (\<lambda>tx f. case txIdentityHash sha256 tx of None \<Rightarrow> f | Some h \<Rightarrow> rememberCommittedTxHash ord h t f) txs f
      = rememberAll ord (map (\<lambda>h. (h, t)) (List.map_filter (txIdentityHash sha256) txs)) f" for txs f
    by (induction txs arbitrary: f) (auto simp: map_filter_simps split: option.split)
  then show "rf_enabled f \<Longrightarrow> ?thesis" by (simp add: rememberCommittedTransactions_def)
qed

lemma committed_block_lasting:
  assumes "iter_order ord" and "gm_wf (rf_committed f)" and "rf_enabled f" and "0 \<le> rf_ttl f"
    and "tx \<in> set (ab_txs b)" and "txIdentityHash sha256 tx = Some h"
    and "\<forall>(k, u) \<in> set later. t \<le> u \<and> u \<le> t + rf_ttl f"
    and "rf_max f \<le> 0 \<or> int (rivals (t + rf_ttl f) h f + length (ab_txs b) + length later) < rf_max f"
  shows "lasting (t + rf_ttl f) h (rememberAll ord later (rememberCommittedTransactions sha256 ord b t f))"
proof -
  let ?x = "t + rf_ttl f" and ?hs = "List.map_filter (txIdentityHash sha256) (ab_txs b)"
  have "h \<in> set ?hs" using assms(5,6) by (force simp: List.map_filter_def)
  then obtain as bs where split: "?hs = as @ h # bs" by (metis split_list)
  have len: "length ?hs \<le> length (ab_txs b)" by (simp add: List.map_filter_def length_filter_le)
  let ?f1 = "rememberAll ord (map (\<lambda>h. (h, t)) as) f" and ?ks = "map (\<lambda>h. (h, t)) bs @ later"
  let ?f2 = "rememberCommittedTxHash ord h t ?f1"
  have run: "rememberAll ord later (rememberCommittedTransactions sha256 ord b t f) = rememberAll ord ?ks ?f2"
    by (simp add: remember_block [OF assms(3)] split)
  have wf: "gm_wf (rf_committed ?f2)" by (intro remember_wf [OF assms(1)] rememberAll_wf [OF assms(1,2)])
  have last: "lasting ?x h ?f2" using assms(3) by (simp add: lasting_def remember_eq update_conv')
  have "rivals ?x h ?f2 \<le> Suc (rivals ?x h f + length as)"
    using rivals_step [OF assms(1), of ?x h h t ?f1] rememberAll_rivals [OF assms(1), of ?x h "map (\<lambda>h. (h, t)) as" f] by simp
  then have room: "rf_max ?f2 \<le> 0 \<or> int (rivals ?x h ?f2 + length ?ks) < rf_max ?f2"
    using assms(8) len split by auto
  have "\<forall>(k, u) \<in> set ?ks. u \<le> ?x \<and> ?x \<le> u + rf_ttl ?f2" using assms(4,7) by auto
  from rememberAll_lasting [OF assms(1) wf last this room] show ?thesis by (simp only: run)
qed

text \<open>
  C30. A committed transaction is neither admitted nor proposed again while it is remembered. When a block is committed at
  \<open>t\<close>, then until \<open>t\<close> plus the time to live none of its transactions passes admission and none is left in a filtered proposal,
  whatever is committed in between, as long as the filter has room for all of it.
\<close>

theorem committed_tx_not_proposed:
  assumes "iter_order ord" and "gm_wf (rf_committed f)" and "rf_enabled f" and "0 \<le> rf_ttl f"
    and "tx \<in> set (ab_txs b)" and "txIdentityHash sha256 tx = Some h"
    and "\<forall>(k, u) \<in> set later. t \<le> u \<and> u \<le> t + rf_ttl f" and "now \<le> t + rf_ttl f"
    and "rf_max f \<le> 0 \<or> int (rivals (t + rf_ttl f) h f + length (ab_txs b) + length later) < rf_max f"
    and "g = rememberAll ord later (rememberCommittedTransactions sha256 ord b t f)"
  shows "fst (shouldRejectReplayOnAdmit sha256 tx now g)
    \<and> (\<forall>tx' \<in> set (ab_txs (fst (fst (filterCommittedTxFromBlock sha256 b2 now g)))). txIdentityHash sha256 tx' \<noteq> Some h)"
proof -
  have on: "rf_enabled g" using assms(3) by (simp add: assms(10) remember_block)
  have "lasting now h g"
    using committed_block_lasting [OF assms(1-7,9)] assms(8) by (auto simp: lasting_def assms(10))
  then have known: "fst (isCommittedTxHash h now g)" using on by (simp add: isCommitted_iff)
  obtain b' n g' where run: "filterCommittedTxFromBlock sha256 b2 now g = ((b', n), g')" by (metis prod_cases3 surj_pair)
  obtain ks m g1 where inner: "filterTxs sha256 now (ab_txs b2) g = (ks, m, g1)" by (metis prod_cases3)
  have ks: "ks = filter (\<lambda>tx. \<not> knownTx sha256 now g tx) (ab_txs b2)" "m = length (ab_txs b2) - length ks"
    using filterTxs_spec [OF inner] by simp_all
  have "ab_txs b' = ks"
    using run inner on filter_all_kept [of "ab_txs b2" "\<lambda>tx. \<not> knownTx sha256 now g tx"] ks
    by (auto simp: filterCommittedTxFromBlock_def NewAppBlock_def Let_def split: if_splits)
  moreover have "txIdentityHash sha256 tx' \<noteq> Some h" if "tx' \<in> set ks" for tx'
    using that known by (auto simp: ks(1) knownTx_def)
  moreover have "fst (shouldRejectReplayOnAdmit sha256 tx now g)"
    using on known assms(6) by (auto simp: shouldRejectReplayOnAdmit_def split: prod.splits bool.splits)
  ultimately show ?thesis using run by simp
qed

definition replayOk :: "int \<Rightarrow> replayFilter \<Rightarrow> bool" where
  "replayOk n f \<longleftrightarrow> gm_wf (rf_committed f) \<and> rf_max f = n \<and> int (length (rf_committed f)) \<le> n"

lemma replayOk_remember: "iter_order ord \<Longrightarrow> 0 < n \<Longrightarrow> replayOk n f \<Longrightarrow> replayOk n (rememberCommittedTxHash ord k now f)"
  using remember_wf [of ord f k now] remember_bound [of ord f k now] by (auto simp: replayOk_def)

lemma replayOk_fold: "(\<And>x f. replayOk n f \<Longrightarrow> replayOk n (F x f)) \<Longrightarrow> replayOk n f \<Longrightarrow> replayOk n (fold F xs f)"
  by (induction xs arbitrary: f) auto

lemma replayOk_isCommitted: "replayOk n f \<Longrightarrow> replayOk n (snd (isCommittedTxHash h now f))"
  using length_delete_le [of h "rf_committed f"] by (auto simp: isCommittedTxHash_def replayOk_def split: option.split)

lemma replayOk_filterTxs: "replayOk n f \<Longrightarrow> replayOk n (snd (snd (filterTxs sha256 now txs f)))"
proof (induction txs arbitrary: f)
  case (Cons tx txs)
  show ?case
  proof (cases "txIdentityHash sha256 tx")
    case None
    then show ?thesis using Cons.IH [OF Cons.prems] by (auto simp: Let_def split: prod.split)
  next
    case (Some h)
    then show ?thesis
      using Cons.IH [OF replayOk_isCommitted [OF Cons.prems, of h now]] by (auto simp: Let_def split: prod.splits)
  qed
qed simp

lemma replayOk_heights:
  "iter_order ord \<Longrightarrow> 0 < n \<Longrightarrow> replayOk n f \<Longrightarrow> replayOk n (snd (refreshHeights ord listTxs now hs f))"
proof (induction hs arbitrary: f)
  case (Cons h hs)
  have "replayOk n (fold (rememberListed ord now) txs f)" for txs
    using Cons.prems by (intro replayOk_fold) (simp_all add: rememberListed_def replayOk_remember)
  then show ?case using Cons by (auto split: sum.split)
qed simp

lemma replayOk_refresh:
  assumes "iter_order ord" and "0 < n" and "replayOk n f"
  shows "replayOk n (snd (refreshReplayFilterFromDBWithOptions ord isLeader adapter now bypass f))"
proof -
  have "replayOk n (f\<lparr>rf_refreshNext := s\<rparr>)" for s using assms(3) by (simp add: replayOk_def)
  from replayOk_heights [OF assms(1,2) this]
  have heights: "replayOk n g" if "refreshHeights ord lt now hs (f\<lparr>rf_refreshNext := s\<rparr>) = (e, g)" for lt hs s e g
    using that by (metis snd_conv)
  have nextf: "replayOk n (g\<lparr>rf_refreshNext := s\<rparr>) = replayOk n g" for g s by (simp add: replayOk_def)
  show ?thesis using assms(3)
    by (auto simp: refreshReplayFilterFromDBWithOptions_def nextf dest: heights split: option.split sum.split prod.split)
qed

lemma replayOk_op:
  assumes "iter_order ord" and "0 < n" and "replayOk n f"
  shows "replayOk n (runReplayOp sha256 ord op f)"
proof (cases op)
  case (CommitBlock b now)
  have "replayOk n (fold (\<lambda>tx f. case txIdentityHash sha256 tx of None \<Rightarrow> f | Some h \<Rightarrow> rememberCommittedTxHash ord h now f) (ab_txs b) f)"
    using assms by (intro replayOk_fold) (auto simp: replayOk_remember split: option.split)
  then show ?thesis using assms(3) by (simp add: CommitBlock rememberCommittedTransactions_def)
next
  case (AdmitTx tx now)
  have "replayOk n (g\<lparr>rf_rejectedAdmit := k\<rparr>) = replayOk n g" for g k by (simp add: replayOk_def)
  then show ?thesis using replayOk_isCommitted [OF assms(3), of _ now] assms(3)
    by (auto simp: AdmitTx shouldRejectReplayOnAdmit_def split: option.split prod.split bool.split) (metis snd_conv)+
next
  case (Propose b now)
  have "replayOk n (g\<lparr>rf_rejectedBuild := k\<rparr>) = replayOk n g" for g k by (simp add: replayOk_def)
  then show ?thesis using replayOk_filterTxs [OF assms(3), of sha256 now "ab_txs b"] assms(3)
    by (auto simp: Propose filterCommittedTxFromBlock_def split: prod.split)
next
  case (ReadSize now)
  have "int (length (filter (\<lambda>(h, e). \<not> now > e) (rf_committed f))) \<le> n"
    using length_filter_le [of "\<lambda>(h, e). \<not> now > e" "rf_committed f"] assms(3) unfolding replayOk_def by linarith
  then show ?thesis using assms(3) by (auto simp: ReadSize replayFilterSize_def pruneReplayFilterExpired_def replayOk_def Let_def)
next
  case (SyncDB isLeader adapter now bypass)
  then show ?thesis using replayOk_refresh [OF assms] by simp
qed

text \<open>
  The filter never holds more than its limit, whatever is committed, asked, proposed or read back from the database.
\<close>

theorem replay_filter_bounded:
  assumes "iter_order ord" and "gm_wf (rf_committed f)" and "0 < rf_max f" and "int (length (rf_committed f)) \<le> rf_max f"
  shows "int (length (rf_committed (fold (runReplayOp sha256 ord) ops f))) \<le> rf_max f"
proof -
  have "replayOk (rf_max f) f" using assms by (simp add: replayOk_def)
  then have "replayOk (rf_max f) (fold (runReplayOp sha256 ord) ops f)"
    by (rule replayOk_fold [rotated]) (rule replayOk_op [OF assms(1,3)])
  then show ?thesis by (simp add: replayOk_def)
qed

text \<open>
  Remembering a hash the full filter already has costs another one: room is made before the map is looked at, so the oldest
  entry is dropped although nothing is added, and its transaction passes the filter again within its time. Every
  refresh from the database remembers known hashes anew.
\<close>

theorem known_hash_evicts_another:
  assumes "iter_order ord" and "gm_wf (rf_committed f)" and "rf_enabled f" and "0 < rf_max f" and "rf_max f \<le> int (length (rf_committed f))"
    and "\<forall>(j, e) \<in> set (rf_committed f). now \<le> e" and "map_of (rf_committed f) k = Some ek" and "map_of (rf_committed f) h = Some eh"
    and "\<forall>(j, e) \<in> set (rf_committed f). j \<noteq> h \<longrightarrow> eh < e" and "k \<noteq> h"
  shows "\<not> fst (isCommittedTxHash h now (rememberCommittedTxHash ord k now f))
    \<and> length (rf_committed (rememberCommittedTxHash ord k now f)) < length (rf_committed f)"
proof -
  have all: "filter (\<lambda>(h, e). \<not> now > e) (rf_committed f) = rf_committed f"
    using assms(6) by (auto simp: filter_id_conv)
  obtain j e where j: "(j, e) \<in> set (rf_committed f)" "\<forall>(i, x) \<in> set (rf_committed f). \<not> now > x \<longrightarrow> e \<le> x"
    "rf_committed (roomFor ord now f) = AList.delete j (rf_committed f)"
    using roomFor_cases [OF assms(1), of now f] assms(4,5) unfolding all by auto
  have "(h, eh) \<in> set (rf_committed f)" using assms(8) by (rule map_of_SomeD)
  then have "j = h" using j(1,2) assms(6,9) by fastforce
  then have room: "rf_committed (roomFor ord now f) = AList.delete h (rf_committed f)" using j(3) by simp
  have c: "rf_committed (rememberCommittedTxHash ord k now f) = AList.update k (now + rf_ttl f) (AList.delete h (rf_committed f))"
    using assms(3) room by (simp add: remember_eq)
  have "length (AList.delete h (rf_committed f)) < length (rf_committed f)"
    using assms(8) by (rule delete_shorter)
  then show ?thesis using assms(7,10)
    by (simp add: isCommitted_iff lasting_def c update_conv' delete_conv' length_update)
qed

text \<open>
  The pause after timeouts is at least the lesser of the interval and the cap, and at most the cap of sixty seconds, after any number of timeouts.
\<close>

theorem probe_cooldown_bounded:
  assumes "0 < base" and "0 < streak"
  shows "min base maxBackgroundProbeCooldown \<le> nextBackgroundProbeCooldown streak base
    \<and> nextBackgroundProbeCooldown streak base \<le> maxBackgroundProbeCooldown"
proof -
  have "min c maxBackgroundProbeCooldown \<le> doubleCooldown n c \<and> doubleCooldown n c \<le> maxBackgroundProbeCooldown" if "0 < c" for n c
    using that
  proof (induction n arbitrary: c)
    case (Suc n)
    have "go_div maxBackgroundProbeCooldown 2 = 30 * second" by (simp add: go_div_def maxBackgroundProbeCooldown_def second_def millisecond_def)
    then show ?case using Suc.prems Suc.IH [of "c * 2"] by (auto simp: min_def maxBackgroundProbeCooldown_def split: if_splits)
  qed auto
  then show ?thesis using assms by (simp add: nextBackgroundProbeCooldown_def)
qed
subsection \<open>A run\<close>

definition ex_filter :: "(hash32, instant) gomap \<Rightarrow> replayFilter" where
  "ex_filter m = \<lparr>rf_enabled = True, rf_ttl = 10 * second, rf_max = 2, rf_committed = m, rf_evictions = 0, rf_rejectedAdmit = 0,
     rf_rejectedBuild = 0, rf_refreshNext = 0, rf_heightWindow = 8, rf_maxHeightsTick = 4, rf_refreshEnabled = True,
     rf_leaderOnly = False, rf_proposerOnly = False\<rparr>"

definition ex_committed :: appBlock where
  "ex_committed = NewAppBlock ex_sha 1 0 0 0 7 0 [ex_mtx 4]"

definition ex_identity :: hash32 where
  "ex_identity = the (txIdentityHash ex_sha (ex_mtx 4))"

lemma ex_identity: "txIdentityHash ex_sha (ex_mtx 4) = Some ex_identity"
  by (simp add: ex_identity_def txIdentityHash_def ex_mtx_def ex_envelope_def BuildSignBytes_def size_limits Let_def)

lemma ex_committed_txs [simp]: "ab_txs ex_committed = [ex_mtx 4]"
  by (simp add: ex_committed_def NewAppBlock_def Let_def)

theorem committed_tx_not_proposed_witness:
  "fst (shouldRejectReplayOnAdmit ex_sha (ex_mtx 4) (9 * second)
      (rememberAll rev [] (rememberCommittedTransactions ex_sha rev ex_committed 0 (ex_filter []))))"
  using committed_tx_not_proposed [OF iter_order_rev, of "ex_filter []" "ex_mtx 4" ex_committed ex_sha ex_identity "[]" 0 "9 * second"]
  by (simp add: ex_filter_def ex_identity rivals_def second_def millisecond_def)

theorem proposal_filter_exact_witness:
  "ab_txs (fst (fst (filterCommittedTxFromBlock ex_sha ex_committed second (ex_filter [(ex_identity, 10 * second)])))) = []"
proof -
  let ?f = "ex_filter [(ex_identity, 10 * second)]"
  obtain b n g where run: "filterCommittedTxFromBlock ex_sha ex_committed second ?f = ((b, n), g)" by (metis surj_pair)
  have "knownTx ex_sha second ?f (ex_mtx 4)"
    by (simp add: knownTx_def ex_identity isCommittedTxHash_def ex_filter_def second_def millisecond_def)
  then show ?thesis
    using proposal_filter_exact [OF _ run] unfolding run by (simp add: ex_filter_def Let_def NewAppBlock_def)
qed

theorem replay_filter_bounded_witness:
  "length (rf_committed (fold (runReplayOp ex_sha rev) [CommitBlock ex_committed 0, Propose ex_committed 1, SyncDB None None 2 True] (ex_filter []))) \<le> 2"
  using replay_filter_bounded [OF iter_order_rev, of "ex_filter []" ex_sha
    "[CommitBlock ex_committed 0, Propose ex_committed 1, SyncDB None None 2 True]"] by (simp add: ex_filter_def)

theorem known_hash_evicts_another_witness:
  "\<not> fst (isCommittedTxHash 1 0 (rememberCommittedTxHash rev 2 0 (ex_filter [(1, 5), (2, 6)])))"
  using known_hash_evicts_another [OF iter_order_rev, of "ex_filter [(1, 5), (2, 6)]" 0 2 6 1 5]
  by (simp add: ex_filter_def gm_wf_def)

theorem probe_cooldown_bounded_witness:
  "nextBackgroundProbeCooldown 9 second \<le> maxBackgroundProbeCooldown"
  using probe_cooldown_bounded [of second 9] by (simp add: second_def millisecond_def)

end
