(* ===== verification/Spec2Isabelle.thy ===== *)
theory Spec2Isabelle
  imports Agreement FairShare AgentSafety AgentLoops AckQueue AgentConsumer PeerState ReplayFilter
begin

text \<open>
  \<^bold>\<open>CyberMesh: the consensus backend and the enforcement agent.\<close>

  CyberMesh detects anomalies, has a committee of validators agree on them, and enforces the policies that
  follow on the nodes of a cluster. This development models the two Go programs that decide: the backend
  of a validator (\<^verbatim>\<open>backend/pkg\<close>) and the agent that enforces (\<^verbatim>\<open>enforcement-agent/internal\<close>).

  \<^bold>\<open>How the parts interact.\<close> Events from Kafka enter the \<^emph>\<open>mempool\<close> of a validator. The
  leader of a view has the \<^emph>\<open>builder\<close> select transactions into a block and proposes it; the \<^emph>\<open>HotStuff engine\<close> of
  every replica validates messages, votes, forms certificates and commits by the two-chain rule; the \<^emph>\<open>pacemaker\<close> moves the
  views and elects leaders; \<^emph>\<open>storage\<close> keeps proposals, votes and certificates across restarts.
  A committed block runs through the \<^emph>\<open>state machine\<close>, whose Merkle root binds the state. Policies leave as
  signed Kafka messages. The agent's \<^emph>\<open>consumer\<close> hands them to the \<^emph>\<open>controller\<close>, which verifies and parses them, asks
  the \<^emph>\<open>guardrails\<close> and the rate coordinators, calls the enforcement backend, records the policy in the \<^emph>\<open>store\<close> and
  answers through the \<^emph>\<open>acknowledgement queue\<close>. The \<^emph>\<open>scheduler\<close> and the \<^emph>\<open>reconciler\<close> keep the store, the
  backend and the ledger file together afterwards.

  \<^bold>\<open>Theories, shared ground.\<close>
  \<^item> \<open>Prelude\<close>: Go's types, maps (locale \<open>go_map\<close>, the order of a \<^verbatim>\<open>range\<close> loop as any permutation), big-endian
    encoding, stable sorting, results of fallible code, and the locales \<open>step_invariant\<close> and \<open>step_monotone\<close> on
    which every invariant of a run rests. \<open>GoText\<close>: \<^verbatim>\<open>strings\<close>, \<^verbatim>\<open>strconv\<close>, hexadecimal, JSON values, 64-bit signed arithmetic.
    \<open>Heap\<close>: \<^verbatim>\<open>container/heap\<close> over a strict weak order (locale \<open>weak_order\<close>).

  \<^bold>\<open>Theories, backend.\<close>
  \<^item> \<open>Messages\<close> (\<^verbatim>\<open>consensus/types\<close>, \<^verbatim>\<open>consensus/messages/types.go\<close>): message structs, signed bytes, hashes; signed bytes of
    different message kinds differ.
  \<^item> \<open>Encoding\<close> (\<^verbatim>\<open>messages/encoding.go\<close>): signature and time checks with their caches; what decodes was signed by its sender.
  \<^item> \<open>Quorum\<close> (\<^verbatim>\<open>pbft/quorum.go\<close>): thresholds and certificate verification; honest intersection, and where it fails.
  \<^item> \<open>Rotation\<close>, \<open>Pacemaker\<close> (\<^verbatim>\<open>leader\<close>): leader election, views, timeouts; views never decrease.
  \<^item> \<open>Validation\<close> (\<^verbatim>\<open>messages/validation.go\<close>): what an accepted message satisfies; replays are refused (locale \<open>replay_guard\<close>).
  \<^item> \<open>Storage\<close> (\<^verbatim>\<open>pbft/storage.go\<close>): replay window, commits, pruning, restart; no height is committed twice (locale \<open>commit_log\<close>).
  \<^item> \<open>HotStuff\<close>, \<open>VoteSafety\<close>, \<open>Commit\<close>, \<open>Agreement\<close> (\<^verbatim>\<open>pbft/pbft.go\<close> with the callbacks of \<^verbatim>\<open>api/engine.go\<close>): the node as one
    state and \<open>node_step\<close> as its runs; a node never votes twice in a view, certificates it forms are backed by votes, the commit rule
    needs two consecutive certificates, and certificates of one view agree across replicas with at most \<open>f\<close> faulty ones.
  \<^item> \<open>StateStore\<close>, \<open>Merkle\<close>, \<open>StateMachine\<close> (\<^verbatim>\<open>state\<close>): transactions over a versioned store, Merkle roots and proofs, reducers, block
    execution; executing a block refines a plain fold over its accepted transactions, and the root binds the state.
  \<^item> \<open>Mempool\<close>, \<open>Block\<close>, \<open>FairShare\<close> (\<^verbatim>\<open>mempool\<close>, \<^verbatim>\<open>block\<close>): admission, eviction, selection and building of blocks; the bounds hold in every
    reachable pool, a block stays within its limits, and the fair-share loop ends and leaves no candidate behind.
  \<^item> \<open>ReplayFilter\<close> (\<^verbatim>\<open>wiring/replay_filter.go\<close>, \<^verbatim>\<open>replay_refresh.go\<close>, \<^verbatim>\<open>background_backoff.go\<close>): the memory of committed transactions; while there is room
    for them they are neither admitted nor proposed again, and the filtered proposal is exactly the block without them.
  \<^item> \<open>PeerState\<close> (\<^verbatim>\<open>p2p/state.go\<close>): peers, scores and quarantine; a quarantine lasts its time whatever happens, and a full table forgives its worst peer.

  \<^bold>\<open>Theories, agent.\<close>
  \<^item> \<open>AgentConsumer\<close> (\<^verbatim>\<open>kafka/consumer.go\<close>): the claim loop, its workers and the session as interleaved steps; the committed offset never passes
    an unhandled message, messages of one policy stay in order, lanes keep their limits. Where an offset is missing, or the
    session ends, marking goes wrong; both are shown.
  \<^item> \<open>AgentPolicy\<close> (\<^verbatim>\<open>policy\<close>): parser and verification of policies and fast mitigations.
  \<^item> \<open>AgentStore\<close>, \<open>AgentRecovery\<close> (\<^verbatim>\<open>state/store.go\<close>): records, deadlines, histories, the snapshot file with the race of two writers,
    restart and reconciliation.
  \<^item> \<open>AgentGuards\<close> (\<^verbatim>\<open>ratelimit\<close> and parts of \<^verbatim>\<open>controller\<close>): allowlist, replay cache, compactor, lanes, rate coordinators (locale \<open>rate_coordinator\<close>,
    interpreted on the local and the Redis one), the guardrail chain.
  \<^item> \<open>AgentController\<close>, \<open>AgentSafety\<close> (\<^verbatim>\<open>controller/controller.go\<close>, \<^verbatim>\<open>fast_handler.go\<close>): the handlers from message to backend, store and
    acknowledgement; what is enforced was verified and passed the guardrails, the kill switch stops everything, a
    redelivered message changes nothing, retries are bounded.
  \<^item> \<open>AgentLoops\<close> (\<^verbatim>\<open>scheduler\<close>, \<^verbatim>\<open>reconciler\<close>, \<^verbatim>\<open>ledger\<close>, \<^verbatim>\<open>enforcer/enforcer.go\<close>): sweeps and ledger cycles over any backend of the locale
    \<open>enforcement_backend\<close>; a cycle without errors makes backend, store and ledger agree, and a failed removal leaves an orphan for good.
  \<^item> \<open>AckQueue\<close> (\<^verbatim>\<open>ack/{queue,retrier,batching}.go\<close>): the durable queue and its publishers; nothing accepted by the retrying publisher
    is lost, the queue drains in order, and the batching publisher loses payloads when the queue is full.

  \<^bold>\<open>State and operations.\<close> A struct is a record with its fields, a method a function from the old state to the result and the new state,
  under the mutex the method holds. Where the code releases a mutex in between or runs goroutines, the steps are separate and a relation interleaves
  them (\<open>node_step\<close>, \<open>solo_step\<close>, \<open>claimStep\<close>, \<open>retrier_step\<close>, \<open>loopStep\<close>). Metrics, logging and tracing are left out throughout.

  \<^bold>\<open>Parameters.\<close> Code outside the repository is an argument of what calls it: SHA-256 and signature verification, CBOR, protobuf and JSON codecs,
  LRU caches, the SQL backend of storage, network parsing, Redis outcomes, bbolt transactions, the database behind the replay filter, \<^verbatim>\<open>math.Pow\<close>, the Kafka publisher and the enforcement
  backends. What a property relies on is a hypothesis with a name (\<open>votes_unforgeable\<close>, \<open>bolt_laws\<close>, \<open>codec_law\<close>, \<open>enforcement_backend\<close>,
  absence of hash collisions on the strings in question), and its witness has an instance. The order of a \<^verbatim>\<open>range\<close> loop is an argument with \<open>iter_order\<close>.

  \<^bold>\<open>Numbers, bounds and fuel.\<close> \<^verbatim>\<open>uint64\<close> is a 64-bit word; a \<^verbatim>\<open>time.Duration\<close> is an \<open>int\<close> that \<open>wrap64\<close> brings back into range where the code multiplies;
  instants are nanoseconds as \<open>int\<close>. A \<^verbatim>\<open>float64\<close> is a rational number: the code only compares and scales such values. Fuel stands for loops without a bound of their own:
  the wait for a proposal's synchronisation makes at most the 50 attempts of \<^verbatim>\<open>createProposalMaxSyncRetries\<close>, the fair-share rounds are shown to end within one
  more than the candidates, and the drain loop is shown to return with fuel above the failing calls plus the length of the queue. Other recursions have a termination proof.

  \<^bold>\<open>Not modelled.\<close> CBOR wire structs, the dispatch, genesis and heartbeat parts of \<^verbatim>\<open>api/engine.go\<close> (they call the modelled handlers from timers and network callbacks);
  the rest of \<^verbatim>\<open>wiring\<close> and \<^verbatim>\<open>p2p\<close>, and \<^verbatim>\<open>control\<close>, \<^verbatim>\<open>ingest\<close>, \<^verbatim>\<open>storage/cockroach\<close> and \<^verbatim>\<open>api\<close> of the backend, whose decisions are SQL statements, HTTP handlers or library calls;
  configuration, commands, metrics; the agent's dataplane backends (iptables, nftables, Cilium, Kubernetes, gateway), whose effects lie in other systems, its Kafka
  producers and start-up; the Python detectors and the front ends.
\<close>

end
